(* ===== verification/Prelude.thy ===== *)
theory Prelude
  imports Complex_Main "HOL-Library.AList"
begin

text \<open>
  The vocabulary every component theory shares.

  \<^item> \<open>eff\<close>: an effectful Python call. It takes the state, and gives back either the
    exception it raised (\<open>Inl\<close>) or the value it returned (\<open>Inr\<close>), together with
    the state it left behind. As in Python, an exception does not undo the mutations made
    before it was raised. \<open>returnE\<close>, \<open>raiseE\<close>, \<open>bindE\<close> and \<open>catchE\<close> are
    \<open>return\<close>, \<open>raise\<close>, sequencing and \<open>try/except\<close>; \<open>mapE\<close> is a loop over a list. A call that may
    raise but mutates nothing gives a sum alone (\<open>bindR\<close>, \<open>mapR\<close>), which \<open>liftE\<close> turns into an \<open>eff\<close>.
  \<^item> \<open>dict\<close>: a Python dictionary, an association list in insertion order.
    \<open>AList.update\<close> overwrites in place or appends, as \<open>d[k] = v\<close> does,
    \<open>AList.delete\<close> is \<open>d.pop(k, None)\<close>, \<open>map_of\<close> is \<open>d.get(k)\<close>, \<open>dict_at\<close> is \<open>d[k]\<close>.
  \<^item> instants: a \<open>datetime\<close> is its distance from the epoch in microseconds, the
    resolution of Python's own type; \<open>seconds n\<close> is \<open>timedelta(seconds=n)\<close>.
  \<^item> \<open>json\<close>: a decoded JSON value. \<open>string\<close> stands for Python's \<open>str\<close> over the code
    points U+0000 to U+00FF, one \<open>char\<close> each; \<open>py_lower\<close>, \<open>py_space\<close> and
    \<open>py_strip\<close> are exact on that range. \<open>jtruthy\<close> is truth in a condition, \<open>jget\<close> is \<open>d.get(k)\<close> on an object,
    \<open>py_eq\<close> is \<open>==\<close>, \<open>py_iter\<close> what a \<open>for\<close> loop runs over.
  \<^item> \<open>preserves\<close>: an invariant that a call keeps whether it returns or raises, with one
    rule per construct of the code.
  \<^item> \<open>py_round\<close>: Python's \<open>round\<close> to an integer (ties go to the even neighbour).
\<close>

named_theorems eff_simps \<open>evaluation rules for effectful calls\<close>
named_theorems dict_simps \<open>lookup rules for dictionaries\<close>

subsection \<open>Effectful calls\<close>

type_synonym ('s, 'e, 'a) eff = "'s \<Rightarrow> ('e + 'a) \<times> 's"
type_synonym ('k, 'v) dict = "('k \<times> 'v) list"
type_synonym instant = int

definition returnE :: "'a \<Rightarrow> ('s, 'e, 'a) eff" where
  "returnE x s = (Inr x, s)"

definition raiseE :: "'e \<Rightarrow> ('s, 'e, 'a) eff" where
  "raiseE e s = (Inl e, s)"

definition bindE :: "('s, 'e, 'a) eff \<Rightarrow> ('a \<Rightarrow> ('s, 'e, 'b) eff) \<Rightarrow> ('s, 'e, 'b) eff" where
  "bindE m f s = (case m s of (Inl e, s') \<Rightarrow> (Inl e, s') | (Inr x, s') \<Rightarrow> f x s')"

definition catchE :: "('s, 'e, 'a) eff \<Rightarrow> ('e \<Rightarrow> ('s, 'f, 'a) eff) \<Rightarrow> ('s, 'f, 'a) eff" where
  "catchE m h s = (case m s of (Inl e, s') \<Rightarrow> h e s' | (Inr x, s') \<Rightarrow> (Inr x, s'))"

lemma returnE_apply [simp, eff_simps]: "returnE x s = (Inr x, s)"
  by (simp add: returnE_def)

lemma raiseE_apply [simp, eff_simps]: "raiseE e s = (Inl e, s)"
  by (simp add: raiseE_def)

lemma bindE_Inr [eff_simps]: "m s = (Inr x, s') \<Longrightarrow> bindE m f s = f x s'"
  by (simp add: bindE_def)

lemma bindE_Inl [eff_simps]: "m s = (Inl e, s') \<Longrightarrow> bindE m f s = (Inl e, s')"
  by (simp add: bindE_def)

lemma bindE_eq_Inr:
  "bindE m f s = (Inr y, s'') \<longleftrightarrow> (\<exists>x s'. m s = (Inr x, s') \<and> f x s' = (Inr y, s''))"
  by (auto simp: bindE_def split: prod.splits sum.splits)

lemma bindE_eq_Inl:
  "bindE m f s = (Inl e, s'') \<longleftrightarrow>
     m s = (Inl e, s'') \<or> (\<exists>x s'. m s = (Inr x, s') \<and> f x s' = (Inl e, s''))"
  by (auto simp: bindE_def split: prod.splits sum.splits)

lemma catchE_eq_Inr:
  "catchE m h s = (Inr y, s'') \<longleftrightarrow>
     m s = (Inr y, s'') \<or> (\<exists>e s'. m s = (Inl e, s') \<and> h e s' = (Inr y, s''))"
  by (auto simp: catchE_def split: prod.splits sum.splits)

lemma catchE_eq_Inl:
  "catchE m h s = (Inl e, s'') \<longleftrightarrow> (\<exists>e' s'. m s = (Inl e', s') \<and> h e' s' = (Inl e, s''))"
  by (auto simp: catchE_def split: prod.splits sum.splits)

lemmas effE = bindE_eq_Inr bindE_eq_Inl catchE_eq_Inr catchE_eq_Inl

lemma run_returns: "\<not> isl (fst r) \<Longrightarrow> \<exists>x s. r = (Inr x, s)"
  by (cases r; cases "fst r") auto

text \<open>A call that may raise but changes no state gives a sum alone. \<open>mapR\<close> and \<open>mapE\<close> are list
  comprehensions and \<open>for\<close> loops whose body may raise: the first exception ends them.\<close>

definition bindR :: "'e + 'a \<Rightarrow> ('a \<Rightarrow> 'e + 'b) \<Rightarrow> 'e + 'b" where
  "bindR m f = (case m of Inl e \<Rightarrow> Inl e | Inr x \<Rightarrow> f x)"

definition liftE :: "'e + 'a \<Rightarrow> ('s, 'e, 'a) eff" where
  "liftE r s = (r, s)"

fun mapR :: "('a \<Rightarrow> 'e + 'b) \<Rightarrow> 'a list \<Rightarrow> 'e + 'b list" where
  "mapR f [] = Inr []"
| "mapR f (x # xs) = bindR (f x) (\<lambda>y. bindR (mapR f xs) (\<lambda>ys. Inr (y # ys)))"

fun mapE :: "('a \<Rightarrow> ('s, 'e, 'b) eff) \<Rightarrow> 'a list \<Rightarrow> ('s, 'e, 'b list) eff" where
  "mapE f [] = returnE []"
| "mapE f (x # xs) = bindE (f x) (\<lambda>y. bindE (mapE f xs) (\<lambda>ys. returnE (y # ys)))"

definition dict_at :: "'e \<Rightarrow> ('k, 'v) dict \<Rightarrow> 'k \<Rightarrow> 'e + 'v" where
  "dict_at e d k = (case map_of d k of None \<Rightarrow> Inl e | Some v \<Rightarrow> Inr v)"

lemma bindR_simps [simp]: "bindR (Inl e) f = Inl e" "bindR (Inr x) f = f x"
  by (simp_all add: bindR_def)

lemma bindR_eq_Inr: "bindR m f = Inr y \<longleftrightarrow> (\<exists>x. m = Inr x \<and> f x = Inr y)"
  by (cases m) simp_all

lemma bindR_eq_Inl: "bindR m f = Inl e \<longleftrightarrow> m = Inl e \<or> (\<exists>x. m = Inr x \<and> f x = Inl e)"
  by (cases m) simp_all

lemma liftE_apply [simp, eff_simps]: "liftE r s = (r, s)"
  by (simp add: liftE_def)

lemma mapR_Inr: "mapR f xs = Inr ys \<longleftrightarrow> list_all2 (\<lambda>x y. f x = Inr y) xs ys"
  by (induction xs arbitrary: ys) (auto simp: bindR_eq_Inr list_all2_Cons1)

lemma dict_at_Inr: "dict_at e d k = Inr v \<longleftrightarrow> map_of d k = Some v"
  by (simp add: dict_at_def split: option.split)

subsection \<open>Invariants of effectful calls\<close>

text \<open>\<open>preserves P m\<close>: whether the call \<open>m\<close> returns or raises, the state it leaves
  behind satisfies \<open>P\<close> when the state it started from did.\<close>

definition preserves :: "('s \<Rightarrow> bool) \<Rightarrow> ('s, 'e, 'a) eff \<Rightarrow> bool" where
  "preserves P m \<longleftrightarrow> (\<forall>s. P s \<longrightarrow> P (snd (m s)))"

named_theorems preserves_rules \<open>code constructs that preserve an invariant\<close>

lemma preservesI: "(\<And>s. P s \<Longrightarrow> P (snd (m s))) \<Longrightarrow> preserves P m"
  by (simp add: preserves_def)

lemma preservesD: "preserves P m \<Longrightarrow> P s \<Longrightarrow> m s = (r, s') \<Longrightarrow> P s'"
  unfolding preserves_def by (metis snd_conv)

lemma snd_bindE:
  "snd (bindE m f s) =
     (case fst (m s) of Inl e \<Rightarrow> snd (m s) | Inr x \<Rightarrow> snd (f x (snd (m s))))"
  by (auto simp: bindE_def split: prod.splits sum.splits)

lemma snd_catchE:
  "snd (catchE m h s) =
     (case fst (m s) of Inl e \<Rightarrow> snd (h e (snd (m s))) | Inr x \<Rightarrow> snd (m s))"
  by (auto simp: catchE_def split: prod.splits sum.splits)

lemma preserves_Pair [simp, preserves_rules]: "preserves P (Pair r)"
  by (simp add: preserves_def)

lemma preserves_returnE [preserves_rules]: "preserves P (returnE x)"
  by (simp add: preserves_def)

lemma preserves_raiseE [preserves_rules]: "preserves P (raiseE e)"
  by (simp add: preserves_def)

lemma preserves_bindE [preserves_rules]:
  "preserves P m \<Longrightarrow> (\<And>x. preserves P (f x)) \<Longrightarrow> preserves P (bindE m f)"
  by (simp add: preserves_def snd_bindE split: sum.split)

lemma preserves_catchE [preserves_rules]:
  "preserves P m \<Longrightarrow> (\<And>e. preserves P (h e)) \<Longrightarrow> preserves P (catchE m h)"
  by (simp add: preserves_def snd_catchE split: sum.split)

lemma preserves_if [preserves_rules]:
  "preserves P m \<Longrightarrow> preserves P n \<Longrightarrow> preserves P (if b then m else n)"
  by simp

lemma preserves_option [preserves_rules]:
  "preserves P m \<Longrightarrow> (\<And>y. preserves P (f y)) \<Longrightarrow>
   preserves P (case x of None \<Rightarrow> m | Some y \<Rightarrow> f y)"
  by (cases x) simp_all

lemma preserves_sum [preserves_rules]:
  "(\<And>e. preserves P (f e)) \<Longrightarrow> (\<And>y. preserves P (g y)) \<Longrightarrow>
   preserves P (case x of Inl e \<Rightarrow> f e | Inr y \<Rightarrow> g y)"
  by (cases x) simp_all

lemma preserves_prod [preserves_rules]:
  "(\<And>a b. preserves P (f a b)) \<Longrightarrow> preserves P (case p of (a, b) \<Rightarrow> f a b)"
  by (cases p) simp

subsection \<open>Dictionaries\<close>

lemma map_of_dict_set [simp, dict_simps]:
  "map_of (AList.update k v d) k' = (if k' = k then Some v else map_of d k')"
  by (simp add: update_conv')

lemma map_of_dict_pop [simp, dict_simps]:
  "map_of (AList.delete k d) k' = (if k' = k then None else map_of d k')"
  by (simp add: delete_conv')

lemma dict_set_fresh: "map_of d k = None \<Longrightarrow> AList.update k v d = d @ [(k, v)]"
  by (induction d) (auto split: if_splits)

lemma dict_pop_absent: "map_of d k = None \<Longrightarrow> AList.delete k d = d"
  by (induction d) (auto split: if_splits simp: AList.delete_eq)

lemma sum_dict_pop:
  assumes "distinct (map fst d)" and "map_of d k = Some v"
  shows "sum_list (map (\<lambda>p. f (snd p)) (AList.delete k d)) =
         sum_list (map (\<lambda>p. f (snd p)) d) - (f v :: int)"
  using assms
proof (induction d)
  case Nil
  then show ?case by simp
next
  case (Cons p d)
  show ?case
  proof (cases "fst p = k")
    case True
    with Cons.prems have "map_of d k = None"
      by (cases p) (auto simp: map_of_eq_None_iff)
    then have "AList.delete k d = d" by (rule dict_pop_absent)
    with True Cons.prems show ?thesis by (cases p) (simp add: AList.delete_eq)
  next
    case False
    with Cons show ?thesis by (cases p) (simp add: AList.delete_eq)
  qed
qed

lemma dict_count:
  assumes "distinct (map fst d)"
  shows "length (filter (\<lambda>(_, v). P v) d) = card {k. \<exists>v. map_of d k = Some v \<and> P v}"
proof -
  have "{k. \<exists>v. map_of d k = Some v \<and> P v} = set (map fst (filter (\<lambda>(_, v). P v) d))"
    using assms by (force simp: map_of_eq_Some_iff)
  moreover have "distinct (map fst (filter (\<lambda>(_, v). P v) d))"
    using assms by (rule distinct_map_filter)
  ultimately show ?thesis using distinct_card length_map by metis
qed

lemma dict_count_update:
  assumes "distinct (map fst d)" and "distinct (map fst d')"
    and "\<And>k. map_of d' k = (if k = i then Some v' else map_of d k)"
    and "map_of d i = Some v" and "\<not> P v" and "P v'"
  shows "length (filter (\<lambda>(_, v). P v) d') = Suc (length (filter (\<lambda>(_, v). P v) d))"
proof -
  let ?S = "\<lambda>d. {k. \<exists>v. map_of d k = Some v \<and> P v}"
  have "?S d' = insert i (?S d)" using assms(3-6) by auto
  moreover have "i \<notin> ?S d" using assms(4,5) by simp
  moreover have "finite (?S d)"
    by (rule finite_subset [of _ "dom (map_of d)"]) (auto simp: finite_dom_map_of)
  ultimately show ?thesis using assms(1,2) by (simp add: dict_count)
qed

lemma sum_filter_le:
  "(\<And>x. x \<in> set xs \<Longrightarrow> 0 \<le> f x) \<Longrightarrow>
   sum_list (map f (filter P xs)) \<le> sum_list (map f xs)" for f :: "'a \<Rightarrow> int"
  by (induction xs) force+

subsection \<open>Finite maps of amounts\<close>

definition map_total :: "('k \<rightharpoonup> int) \<Rightarrow> int" where
  "map_total m = (\<Sum>k\<in>dom m. the (m k))"

lemma map_total_empty [simp]: "map_total (\<lambda>_. None) = 0"
  by (simp add: map_total_def)

lemma map_total_upd:
  assumes "finite (dom m)" and "m k = None"
  shows "map_total (m(k \<mapsto> a)) = map_total m + a"
proof -
  have "k \<notin> dom m" using assms(2) by auto
  have "(\<Sum>j\<in>dom m. the ((m(k \<mapsto> a)) j)) = (\<Sum>j\<in>dom m. the (m j))"
    using \<open>k \<notin> dom m\<close> by (intro sum.cong) auto
  then show ?thesis
    using assms(1) \<open>k \<notin> dom m\<close> by (simp add: map_total_def)
qed

lemma map_total_del:
  assumes "finite (dom m)"
  shows "map_total (m(k := None)) = map_total m - (case m k of None \<Rightarrow> 0 | Some a \<Rightarrow> a)"
proof (cases "m k")
  case None
  then show ?thesis by (simp add: fun_upd_idem)
next
  case (Some a)
  let ?n = "m(k := None)"
  have "map_total (?n(k \<mapsto> a)) = map_total ?n + a"
    using assms by (intro map_total_upd) simp_all
  moreover have "?n(k \<mapsto> a) = m" using Some by (simp add: fun_upd_idem)
  ultimately show ?thesis using Some by simp
qed

lemma map_total_alist:
  "distinct (map fst d) \<Longrightarrow>
   map_total (\<lambda>k. map_option f (map_of d k)) = sum_list (map (\<lambda>p. f (snd p)) d)"
proof (induction d)
  case Nil
  then show ?case by simp
next
  case (Cons p d)
  obtain k v where p: "p = (k, v)" by (cases p)
  let ?m = "\<lambda>k. map_option f (map_of d k)"
  have "?m k = None" using Cons.prems p by (simp add: map_of_eq_None_iff)
  moreover have "finite (dom ?m)"
    by (rule finite_subset [of _ "dom (map_of d)"]) (auto simp: finite_dom_map_of)
  moreover have "(\<lambda>j. map_option f (map_of (p # d) j)) = ?m(k \<mapsto> f v)"
    by (auto simp: p)
  ultimately show ?case using Cons by (simp add: map_total_upd p)
qed

subsection \<open>Python arithmetic\<close>

definition seconds :: "int \<Rightarrow> int" where
  "seconds n = n * 1000000"

definition py_round :: "rat \<Rightarrow> int" where
  "py_round x =
     (let n = \<lfloor>x\<rfloor>; r = x - of_int n
      in if r < 1 / 2 then n else if r > 1 / 2 then n + 1
         else if even n then n else n + 1)"

lemma py_round_of_int [simp]: "py_round (of_int n) = n"
  by (simp add: py_round_def)

lemma py_round_near: "\<bar>of_int (py_round x) - x\<bar> \<le> 1 / 2"
proof -
  have "of_int \<lfloor>x\<rfloor> \<le> x" and "x < of_int \<lfloor>x\<rfloor> + 1" by linarith+
  then show ?thesis by (auto simp: py_round_def Let_def abs_le_iff not_less)
qed

subsection \<open>Python lists and numerals as text\<close>

definition py_index :: "'a list \<Rightarrow> 'a \<Rightarrow> nat option" where
  "py_index xs x =
     (if x \<in> set xs then Some (length (takeWhile (\<lambda>y. y \<noteq> x) xs)) else None)"

fun py_str_nat :: "nat \<Rightarrow> string" where
  "py_str_nat n =
     (if n < 10 then [char_of (48 + n)] else py_str_nat (n div 10) @ [char_of (48 + n mod 10)])"

declare py_str_nat.simps [simp del]

definition py_str_int :: "int \<Rightarrow> string" where
  "py_str_int n = (if n < 0 then CHR ''-'' # py_str_nat (nat (- n)) else py_str_nat (nat n))"

lemma py_index_Some: "py_index xs x = Some i \<Longrightarrow> i < length xs \<and> xs ! i = x"
proof -
  assume "py_index xs x = Some i"
  then have x: "x \<in> set xs" and i: "i = length (takeWhile (\<lambda>y. y \<noteq> x) xs)"
    by (auto simp: py_index_def split: if_splits)
  have "i < length xs"
    using x unfolding i by (metis (mono_tags, lifting) length_takeWhile_le
        nat_less_le takeWhile_eq_all_conv takeWhile_eq_take take_all_iff order_refl)
  then show ?thesis using nth_length_takeWhile [of "\<lambda>y. y \<noteq> x" xs] i by auto
qed

subsection \<open>JSON values and text\<close>

datatype json =
    JNull
  | JBool bool
  | JInt int
  | JFloat rat
  | JStr string
  | JArr "json list"
  | JObj "(string \<times> json) list"

type_synonym jobj = "(string, json) dict"

fun jtruthy :: "json \<Rightarrow> bool" where
  "jtruthy JNull = False"
| "jtruthy (JBool b) = b"
| "jtruthy (JInt n) = (n \<noteq> 0)"
| "jtruthy (JFloat x) = (x \<noteq> 0)"
| "jtruthy (JStr s) = (s \<noteq> [])"
| "jtruthy (JArr vs) = (vs \<noteq> [])"
| "jtruthy (JObj kvs) = (kvs \<noteq> [])"

definition jget :: "jobj \<Rightarrow> string \<Rightarrow> json" where
  "jget d k = (case map_of d k of None \<Rightarrow> JNull | Some v \<Rightarrow> v)"

function (sequential) py_eq :: "json \<Rightarrow> json \<Rightarrow> bool" where
  "py_eq (JArr xs) (JArr ys) = (length xs = length ys \<and> list_all (\<lambda>(x, y). py_eq x y) (zip xs ys))"
| "py_eq (JObj xs) (JObj ys) =
     (length xs = length ys \<and>
      list_all (\<lambda>(k, v). case map_of ys k of None \<Rightarrow> False | Some w \<Rightarrow> py_eq v w) xs)"
| "py_eq (JBool a) (JInt n) = ((if a then 1 else 0) = n)"
| "py_eq (JInt n) (JBool a) = ((if a then 1 else 0) = n)"
| "py_eq (JBool a) (JFloat x) = ((if a then 1 else 0) = x)"
| "py_eq (JFloat x) (JBool a) = ((if a then 1 else 0) = x)"
| "py_eq (JInt n) (JFloat x) = (of_int n = x)"
| "py_eq (JFloat x) (JInt n) = (of_int n = x)"
| "py_eq v w = (v = w)"
  by pat_completeness auto

termination
proof (relation "measure (\<lambda>(v, _). size v)", goal_cases)
  case (2 xs ys xy x y)
  then have "x \<in> set xs" by (auto dest: set_zip_leftD)
  then show ?case by (auto simp: less_Suc_eq_le size_list_estimation' [OF _ order_refl])
next
  case (3 xs ys kv k v w)
  then show ?case by (auto simp: less_Suc_eq_le size_list_estimation' intro: size_list_estimation' [of "(k, v)"])
qed simp_all

definition py_iter :: "json \<Rightarrow> json list option" where
  "py_iter v =
     (case v of
        JArr vs \<Rightarrow> Some vs
      | JObj kvs \<Rightarrow> Some (map (JStr \<circ> fst) kvs)
      | JStr s \<Rightarrow> Some (map (\<lambda>c. JStr [c]) s)
      | _ \<Rightarrow> None)"

definition jopt :: "string option \<Rightarrow> json" where
  "jopt x = (case x of None \<Rightarrow> JNull | Some s \<Rightarrow> JStr s)"

definition py_lower_char :: "char \<Rightarrow> char" where
  "py_lower_char c =
     (let n = of_char c :: nat
      in if (65 \<le> n \<and> n \<le> 90) \<or> (192 \<le> n \<and> n \<le> 222 \<and> n \<noteq> 215) then char_of (n + 32) else c)"

definition py_lower :: "string \<Rightarrow> string" where
  "py_lower s = map py_lower_char s"

definition py_space :: "char \<Rightarrow> bool" where
  "py_space c =
     (let n = of_char c :: nat
      in (9 \<le> n \<and> n \<le> 13) \<or> (28 \<le> n \<and> n \<le> 32) \<or> n = 133 \<or> n = 160)"

definition py_strip :: "string \<Rightarrow> string" where
  "py_strip s = rev (dropWhile py_space (rev (dropWhile py_space s)))"

definition ascii_digit :: "char \<Rightarrow> bool" where
  "ascii_digit c = (let n = of_char c :: nat in 48 \<le> n \<and> n \<le> 57)"

definition ascii_letter :: "char \<Rightarrow> bool" where
  "ascii_letter c = (let n = of_char c :: nat in (65 \<le> n \<and> n \<le> 90) \<or> (97 \<le> n \<and> n \<le> 122))"

fun py_contains :: "string \<Rightarrow> string \<Rightarrow> bool" where
  "py_contains pat [] = (pat = [])"
| "py_contains pat (c # cs) = (take (length pat) (c # cs) = pat \<or> py_contains pat cs)"

lemma py_lower_length [simp]: "length (py_lower s) = length s"
  by (simp add: py_lower_def)

lemma py_lower_char_idem: "py_lower_char (py_lower_char c) = py_lower_char c"
proof -
  have "of_char c < (256 :: nat)" by (metis nat_of_char_less_256)
  then show ?thesis by (auto simp: py_lower_char_def Let_def)
qed

lemma py_lower_idem [simp]: "py_lower (py_lower s) = py_lower s"
  by (simp add: py_lower_def py_lower_char_idem)

subsection \<open>Decimal text\<close>

lemma str_nat_digits: "c \<in> set (py_str_nat n) \<Longrightarrow> ascii_digit c"
  by (induction n rule: py_str_nat.induct, subst (asm) (2) py_str_nat.simps)
     (auto simp: ascii_digit_def Let_def split: if_splits)

lemma str_nat_value: "foldl (\<lambda>a c. a * 10 + (of_char c - 48 :: nat)) 0 (py_str_nat n) = n"
proof (induction n rule: py_str_nat.induct)
  case (1 n)
  show ?case
  proof (cases "n < 10")
    case True
    then show ?thesis by (subst py_str_nat.simps) simp
  next
    case False
    then show ?thesis by (subst py_str_nat.simps) (simp add: "1.IH")
  qed
qed

lemma str_nat_inj: "py_str_nat m = py_str_nat n \<Longrightarrow> m = n"
  using str_nat_value by metis

lemma str_nat_nonempty: "py_str_nat n \<noteq> []"
  by (subst py_str_nat.simps) simp

lemma str_int_chars: "c \<in> set (py_str_int n) \<Longrightarrow> ascii_digit c \<or> c = CHR ''-''"
  by (auto simp: py_str_int_def dest: str_nat_digits split: if_splits)

lemma str_int_nonempty: "py_str_int n \<noteq> []"
  by (simp add: py_str_int_def str_nat_nonempty)

lemma str_int_inj: "py_str_int m = py_str_int n \<Longrightarrow> m = n"
proof -
  assume e: "py_str_int m = py_str_int n"
  have hd: "hd (py_str_nat k) \<noteq> CHR ''-''" for k
    using str_nat_digits [of "hd (py_str_nat k)" k] str_nat_nonempty [of k] by (auto simp: ascii_digit_def)
  have "(m < 0) = (n < 0)" using e hd [of "nat m"] hd [of "nat n"]
    by (auto simp: py_str_int_def split: if_splits dest: arg_cong [of _ _ hd])
  with e show ?thesis by (auto simp: py_str_int_def dest!: str_nat_inj split: if_splits)
qed

end
