(* ===== verification/Ledger.thy ===== *)
theory Ledger
  imports Prelude
begin

text \<open>
  The budget ledgers of the AI gateway (\<open>ai-gateway/app/adapters/ledger.py\<close>):
  \<open>InMemoryLedger\<close> and the \<open>FallbackLedger\<close> that puts one ledger behind another.

  \<open>ledger_ops\<close> is the port the budget engine is written against
  (\<open>LedgerStore\<close>): one field per method, over the state of whichever ledger is plugged
  in; an operation may raise \<open>LedgerUnavailable\<close>. The locale \<open>ledger_contract\<close>
  says what the engine relies on; the in-memory ledger is shown to satisfy it, and the
  engine's lemmas (theory \<open>Budgets\<close>) are proved from the contract alone.

  Every operation of the in-memory ledger reads the clock at one instant \<open>now\<close>.
\<close>

subsection \<open>The port\<close>

datatype ledger_error = LedgerUnavailable

record 's ledger_ops =
  lo_reserve :: "string \<Rightarrow> int \<Rightarrow> int \<Rightarrow> string \<Rightarrow> ('s, ledger_error, bool) eff"
  lo_settle :: "string \<Rightarrow> string \<Rightarrow> int \<Rightarrow> ('s, ledger_error, int \<times> int) eff"
  lo_release :: "string \<Rightarrow> string \<Rightarrow> ('s, ledger_error, unit) eff"
  lo_usage :: "string \<Rightarrow> ('s, ledger_error, int \<times> int) eff"
  lo_flag_once :: "string \<Rightarrow> ('s, ledger_error, bool) eff"
  lo_sweep_expired :: "('s, ledger_error, nat) eff"

subsection \<open>InMemoryLedger\<close>

record mem_ledger =
  ml_reservation_ttl :: int
  ml_spent :: "(string, int) dict"
  ml_reservations :: "(string, (string, int \<times> instant) dict) dict"
  ml_flags :: "string list"

definition RESERVATION_TTL_SECONDS :: int where
  "RESERVATION_TTL_SECONDS = 180"

definition mem_init :: mem_ledger where
  "mem_init = \<lparr>ml_reservation_ttl = RESERVATION_TTL_SECONDS, ml_spent = [],
     ml_reservations = [], ml_flags = []\<rparr>"

definition spent_of :: "mem_ledger \<Rightarrow> string \<Rightarrow> int" where
  "spent_of l key = (case map_of (ml_spent l) key of None \<Rightarrow> 0 | Some c \<Rightarrow> c)"

definition held_of :: "mem_ledger \<Rightarrow> string \<Rightarrow> (string, int \<times> instant) dict" where
  "held_of l key = (case map_of (ml_reservations l) key of None \<Rightarrow> [] | Some h \<Rightarrow> h)"

definition set_held :: "mem_ledger \<Rightarrow> string \<Rightarrow> (string, int \<times> instant) dict \<Rightarrow> mem_ledger" where
  "set_held l key h =
     (case map_of (ml_reservations l) key of
        None \<Rightarrow> l
      | Some _ \<Rightarrow> l\<lparr>ml_reservations := AList.update key h (ml_reservations l)\<rparr>)"

definition expire :: "instant \<Rightarrow> string \<Rightarrow> mem_ledger \<Rightarrow> mem_ledger" where
  "expire now key l =
     set_held l key (filter (\<lambda>(rid, amount, deadline). \<not> now \<ge> deadline) (held_of l key))"

definition reserved_of :: "mem_ledger \<Rightarrow> string \<Rightarrow> int" where
  "reserved_of l key = sum_list (map (\<lambda>p. fst (snd p)) (held_of l key))"

definition mem_reserve ::
  "instant \<Rightarrow> string \<Rightarrow> int \<Rightarrow> int \<Rightarrow> string \<Rightarrow> (mem_ledger, ledger_error, bool) eff" where
  "mem_reserve now key limit_cents amount_cents rid l0 =
     (let l = expire now key l0;
          spent = spent_of l key;
          reserved = reserved_of l key
      in if spent + reserved + amount_cents > limit_cents then (Inr False, l)
         else
           let deadline = now + seconds (ml_reservation_ttl l)
           in (Inr True,
               l\<lparr>ml_reservations :=
                   AList.update key (AList.update rid (amount_cents, deadline) (held_of l key))
                     (ml_reservations l)\<rparr>))"

definition mem_settle ::
  "string \<Rightarrow> string \<Rightarrow> int \<Rightarrow> (mem_ledger, ledger_error, int \<times> int) eff" where
  "mem_settle key rid actual_cents l0 =
     (let l = set_held l0 key (AList.delete rid (held_of l0 key));
          prev = spent_of l key;
          new = prev + actual_cents
      in (Inr (prev, new), l\<lparr>ml_spent := AList.update key new (ml_spent l)\<rparr>))"

definition mem_release :: "string \<Rightarrow> string \<Rightarrow> (mem_ledger, ledger_error, unit) eff" where
  "mem_release key rid l = (Inr (), set_held l key (AList.delete rid (held_of l key)))"

definition mem_usage :: "instant \<Rightarrow> string \<Rightarrow> (mem_ledger, ledger_error, int \<times> int) eff" where
  "mem_usage now key l0 =
     (let l = expire now key l0 in (Inr (spent_of l key, reserved_of l key), l))"

definition mem_flag_once :: "string \<Rightarrow> (mem_ledger, ledger_error, bool) eff" where
  "mem_flag_once flag_key l =
     (if flag_key \<in> set (ml_flags l) then (Inr False, l)
      else (Inr True, l\<lparr>ml_flags := flag_key # ml_flags l\<rparr>))"

fun sweep_keys :: "instant \<Rightarrow> string list \<Rightarrow> nat \<Rightarrow> mem_ledger \<Rightarrow> nat \<times> mem_ledger" where
  "sweep_keys now [] count l = (count, l)"
| "sweep_keys now (key # keys) count l =
     (let n_before = length (held_of l key);
          l' = expire now key l
      in sweep_keys now keys (count + (n_before - length (held_of l' key))) l')"

definition mem_sweep_expired :: "instant \<Rightarrow> (mem_ledger, ledger_error, nat) eff" where
  "mem_sweep_expired now l =
     (case sweep_keys now (map fst (ml_reservations l)) 0 l of (count, l') \<Rightarrow> (Inr count, l'))"

definition mem_ops :: "instant \<Rightarrow> mem_ledger ledger_ops" where
  "mem_ops now =
     \<lparr>lo_reserve = mem_reserve now, lo_settle = mem_settle, lo_release = mem_release,
      lo_usage = mem_usage now, lo_flag_once = mem_flag_once,
      lo_sweep_expired = mem_sweep_expired now\<rparr>"

subsection \<open>FallbackLedger\<close>

text \<open>The state of both ledgers, and how often the alert callback has fired.\<close>

record ('p, 'f) fallback_ledger =
  fl_primary :: 'p
  fl_fallback :: 'f
  fl_alerts :: nat

definition fallback_call ::
  "('p, ledger_error, 'a) eff \<Rightarrow> ('f, ledger_error, 'a) eff \<Rightarrow>
   (('p, 'f) fallback_ledger, ledger_error, 'a) eff" where
  "fallback_call primary fallback l =
     (case primary (fl_primary l) of
        (Inr x, p) \<Rightarrow> (Inr x, l\<lparr>fl_primary := p\<rparr>)
      | (Inl e, p) \<Rightarrow>
          (case fallback (fl_fallback l) of
             (r, f) \<Rightarrow> (r, l\<lparr>fl_primary := p, fl_fallback := f, fl_alerts := Suc (fl_alerts l)\<rparr>)))"

definition fallback_ops ::
  "'p ledger_ops \<Rightarrow> 'f ledger_ops \<Rightarrow> ('p, 'f) fallback_ledger ledger_ops" where
  "fallback_ops P F =
     \<lparr>lo_reserve = (\<lambda>key limit amount rid.
        fallback_call (lo_reserve P key limit amount rid) (lo_reserve F key limit amount rid)),
      lo_settle = (\<lambda>key rid actual.
        fallback_call (lo_settle P key rid actual) (lo_settle F key rid actual)),
      lo_release = (\<lambda>key rid. fallback_call (lo_release P key rid) (lo_release F key rid)),
      lo_usage = (\<lambda>key. fallback_call (lo_usage P key) (lo_usage F key)),
      lo_flag_once = (\<lambda>key. fallback_call (lo_flag_once P key) (lo_flag_once F key)),
      lo_sweep_expired = fallback_call (lo_sweep_expired P) (lo_sweep_expired F)\<rparr>"

subsection \<open>What the ledgers promise\<close>

text \<open>
  The abstract ledger: per key, the cents already spent and the reservations still held
  (reservation id to amount), and the set of threshold flags raised so far.
\<close>

record led_view =
  lv_spent :: "string \<Rightarrow> int"
  lv_held :: "string \<Rightarrow> string \<rightharpoonup> int"
  lv_flags :: "string set"

definition committed :: "led_view \<Rightarrow> string \<Rightarrow> int" where
  "committed v key = lv_spent v key + map_total (lv_held v key)"

definition spec_hold :: "string \<Rightarrow> string \<Rightarrow> int option \<Rightarrow> led_view \<Rightarrow> led_view" where
  "spec_hold key rid a v = v\<lparr>lv_held := (lv_held v)(key := (lv_held v key)(rid := a))\<rparr>"

definition spec_charge :: "string \<Rightarrow> int \<Rightarrow> led_view \<Rightarrow> led_view" where
  "spec_charge key n v = v\<lparr>lv_spent := (lv_spent v)(key := lv_spent v key + n)\<rparr>"

definition spec_flag :: "string \<Rightarrow> led_view \<Rightarrow> led_view" where
  "spec_flag k v = v\<lparr>lv_flags := insert k (lv_flags v)\<rparr>"

lemmas spec_defs = spec_hold_def spec_charge_def spec_flag_def

locale ledger_contract =
  fixes ops :: "'s ledger_ops"
    and inv :: "'s \<Rightarrow> bool"
    and view :: "'s \<Rightarrow> led_view"
  assumes held_finite: "inv s \<Longrightarrow> finite (dom (lv_held (view s) key))"
    and reserve_ok: "inv s \<Longrightarrow> lo_reserve ops key limit amount rid s = (Inr ok, s') \<Longrightarrow>
      inv s' \<and> ok = (committed (view s) key + amount \<le> limit) \<and>
      view s' = (if ok then spec_hold key rid (Some amount) (view s) else view s)"
    and settle_ok: "inv s \<Longrightarrow> lo_settle ops key rid actual s = (Inr (prev, new), s') \<Longrightarrow>
      inv s' \<and> prev = lv_spent (view s) key \<and> new = prev + actual \<and>
      view s' = spec_charge key actual (spec_hold key rid None (view s))"
    and release_ok: "inv s \<Longrightarrow> lo_release ops key rid s = (Inr u, s') \<Longrightarrow>
      inv s' \<and> view s' = spec_hold key rid None (view s)"
    and usage_ok: "inv s \<Longrightarrow> lo_usage ops key s = (Inr (sp, re), s') \<Longrightarrow>
      inv s' \<and> view s' = view s \<and> sp = lv_spent (view s) key \<and>
      re = map_total (lv_held (view s) key)"
    and flag_ok: "inv s \<Longrightarrow> lo_flag_once ops k s = (Inr first, s') \<Longrightarrow>
      inv s' \<and> first = (k \<notin> lv_flags (view s)) \<and> view s' = spec_flag k (view s)"
    and sweep_ok: "inv s \<Longrightarrow> lo_sweep_expired ops s = (Inr n, s') \<Longrightarrow>
      inv s' \<and> view s' = view s"

text \<open>A ledger that is always reachable (the in-memory one) raises nothing.\<close>

locale ledger_total = ledger_contract +
  assumes reserve_total: "\<exists>ok s'. lo_reserve ops key limit amount rid s = (Inr ok, s')"
    and settle_total: "\<exists>p s'. lo_settle ops key rid actual s = (Inr p, s')"
    and release_total: "\<exists>s'. lo_release ops key rid s = (Inr (), s')"
    and usage_total: "\<exists>p s'. lo_usage ops key s = (Inr p, s')"
    and flag_total: "\<exists>b s'. lo_flag_once ops k s = (Inr b, s')"

subsection \<open>The in-memory ledger keeps the promise\<close>

text \<open>
  Reservations whose deadline has passed are not held any more, whether or not a sweep has
  removed them yet.
\<close>

definition live :: "instant \<Rightarrow> (string, int \<times> instant) dict \<Rightarrow> (string, int \<times> instant) dict" where
  "live now h = filter (\<lambda>(rid, amount, deadline). \<not> now \<ge> deadline) h"

definition mem_inv :: "mem_ledger \<Rightarrow> bool" where
  "mem_inv l \<longleftrightarrow> 0 < ml_reservation_ttl l \<and> distinct (map fst (ml_reservations l)) \<and>
     (\<forall>key. distinct (map fst (held_of l key)))"

definition mem_view :: "instant \<Rightarrow> mem_ledger \<Rightarrow> led_view" where
  "mem_view now l =
     \<lparr>lv_spent = spent_of l,
      lv_held = (\<lambda>key rid. map_option fst (map_of (live now (held_of l key)) rid)),
      lv_flags = set (ml_flags l)\<rparr>"

lemma held_of_set_held:
  "held_of (set_held l key h) k =
     (if k = key \<and> map_of (ml_reservations l) key \<noteq> None then h else held_of l k)"
  by (auto simp: held_of_def set_held_def split: option.splits)

lemma held_of_absent: "map_of (ml_reservations l) key = None \<Longrightarrow> held_of l key = []"
  by (simp add: held_of_def)

lemma set_held_frame [simp]:
  "spent_of (set_held l key h) = spent_of l"
  "ml_spent (set_held l key h) = ml_spent l"
  "ml_flags (set_held l key h) = ml_flags l"
  "ml_reservation_ttl (set_held l key h) = ml_reservation_ttl l"
  by (auto simp: set_held_def spent_of_def split: option.splits)

lemma distinct_set_held:
  "distinct (map fst (ml_reservations l)) \<Longrightarrow> distinct (map fst (ml_reservations (set_held l key h)))"
  by (auto simp: set_held_def distinct_update split: option.splits)

lemma distinct_live: "distinct (map fst h) \<Longrightarrow> distinct (map fst (live now h))"
  unfolding live_def by (rule distinct_map_filter)

lemma live_idem [simp]: "live now (live now h) = live now h"
  by (simp add: live_def)

lemma held_of_expire: "held_of (expire now key l) k = (if k = key then live now (held_of l k) else held_of l k)"
  by (auto simp: expire_def held_of_set_held live_def held_of_absent)

lemma expire_frame [simp]:
  "spent_of (expire now key l) = spent_of l"
  "ml_flags (expire now key l) = ml_flags l"
  "ml_reservation_ttl (expire now key l) = ml_reservation_ttl l"
  by (simp_all add: expire_def)

lemma mem_inv_expire: "mem_inv l \<Longrightarrow> mem_inv (expire now key l)"
  by (auto simp: mem_inv_def held_of_expire distinct_live)
    (simp add: expire_def distinct_set_held)

lemma mem_view_expire [simp]: "mem_view now (expire now key l) = mem_view now l"
  by (auto simp: mem_view_def held_of_expire)

lemma mem_inv_set_held:
  "mem_inv l \<Longrightarrow> distinct (map fst h) \<Longrightarrow> mem_inv (set_held l key h)"
  by (auto simp: mem_inv_def held_of_set_held distinct_set_held)

lemma reserved_of_expire:
  assumes "mem_inv l"
  shows "reserved_of (expire now key l) key = map_total (lv_held (mem_view now l) key)"
proof -
  have "distinct (map fst (live now (held_of l key)))"
    using assms by (simp add: mem_inv_def distinct_live)
  from map_total_alist [OF this, of fst] show ?thesis
    by (simp add: reserved_of_def held_of_expire mem_view_def)
qed

lemma live_pop: "live now (AList.delete rid h) = AList.delete rid (live now h)"
  by (auto simp: live_def AList.delete_eq intro: filter_cong)

lemma live_set_now:
  "now < d \<Longrightarrow> distinct (map fst h) \<Longrightarrow>
   map_of (live now (AList.update rid (a, d) h)) r =
     (if r = rid then Some (a, d) else map_of (live now h) r)"
  by (induction h) (auto simp: live_def image_iff dest: map_of_SomeD split: if_splits)

lemma mem_view_pop:
  assumes "mem_inv l"
  shows "mem_view now (set_held l key (AList.delete rid (held_of l key))) =
         spec_hold key rid None (mem_view now l)"
  by (auto simp: mem_view_def spec_hold_def held_of_set_held live_pop fun_eq_iff held_of_absent)
     (simp add: live_def)

lemma mem_reserve_spec:
  assumes inv: "mem_inv l" and run: "mem_reserve now key limit amount rid l = (Inr ok, l')"
  shows "mem_inv l' \<and> ok = (committed (mem_view now l) key + amount \<le> limit) \<and>
    mem_view now l' = (if ok then spec_hold key rid (Some amount) (mem_view now l) else mem_view now l)"
proof -
  let ?e = "expire now key l"
  have e: "mem_inv ?e" using inv by (rule mem_inv_expire)
  have ttl: "now < now + seconds (ml_reservation_ttl l)"
    using inv by (simp add: mem_inv_def seconds_def)
  have fits: "spent_of ?e key + reserved_of ?e key = committed (mem_view now l) key"
    using inv by (simp add: reserved_of_expire committed_def mem_view_def)
  show ?thesis
  proof (cases "committed (mem_view now l) key + amount > limit")
    case True
    with run fits e show ?thesis by (auto simp: mem_reserve_def Let_def)
  next
    case False
    let ?h = "AList.update rid (amount, now + seconds (ml_reservation_ttl l)) (held_of ?e key)"
    from False run fits have ok: "ok" and l': "l' = ?e\<lparr>ml_reservations :=
        AList.update key ?h (ml_reservations ?e)\<rparr>"
      by (auto simp: mem_reserve_def Let_def)
    have held: "held_of l' k = (if k = key then ?h else held_of ?e k)" for k
      by (simp add: l' held_of_def)
    have spent_l': "spent_of l' = spent_of l"
      by (simp add: l' spent_of_def expire_def fun_eq_iff)
    have flags_l': "ml_flags l' = ml_flags l" by (simp add: l')
    have dist: "distinct (map fst (held_of ?e key))" using e by (simp add: mem_inv_def)
    have "mem_inv l'"
      using e dist held by (auto simp: mem_inv_def l' distinct_update)
    moreover have "mem_view now l' = spec_hold key rid (Some amount) (mem_view now ?e)"
      using ttl dist held spent_l' flags_l'
      by (auto simp: mem_view_def spec_hold_def live_set_now fun_eq_iff)
    ultimately show ?thesis using False ok by simp
  qed
qed

lemma mem_settle_spec:
  assumes inv: "mem_inv l" and run: "mem_settle key rid actual l = (Inr (prev, new), l')"
  shows "mem_inv l' \<and> prev = lv_spent (mem_view now l) key \<and> new = prev + actual \<and>
    mem_view now l' = spec_charge key actual (spec_hold key rid None (mem_view now l))"
proof -
  let ?l = "set_held l key (AList.delete rid (held_of l key))"
  from run have r: "prev = spent_of l key" "new = prev + actual"
    "l' = ?l\<lparr>ml_spent := AList.update key new (ml_spent ?l)\<rparr>"
    by (auto simp: mem_settle_def Let_def)
  have "mem_inv ?l" using inv by (intro mem_inv_set_held) (simp_all add: mem_inv_def distinct_delete)
  then have "mem_inv l'" by (simp add: r mem_inv_def held_of_def)
  moreover have "mem_view now l' = spec_charge key actual (mem_view now ?l)"
    by (auto simp: r mem_view_def spec_charge_def spent_of_def held_of_def fun_eq_iff)
  ultimately show ?thesis using inv r by (simp add: mem_view_pop) (simp add: mem_view_def)
qed

lemma sweep_keys_spec:
  "mem_inv l \<Longrightarrow> sweep_keys now keys n l = (m, l') \<Longrightarrow>
   mem_inv l' \<and> mem_view now l' = mem_view now l"
  by (induction now keys n l rule: sweep_keys.induct) (auto simp: Let_def mem_inv_expire)

interpretation mem: ledger_contract "mem_ops now" mem_inv "mem_view now" for now
proof
  fix s s' :: mem_ledger and key rid k :: string and ok first :: bool and u :: unit
    and limit amount actual prev new sp re :: int and n :: nat
  assume inv: "mem_inv s"
  show "finite (dom (lv_held (mem_view now s) key))"
    by (rule finite_subset [of _ "dom (map_of (live now (held_of s key)))"])
       (auto simp: mem_view_def finite_dom_map_of)
  show "lo_reserve (mem_ops now) key limit amount rid s = (Inr ok, s') \<Longrightarrow>
      mem_inv s' \<and> ok = (committed (mem_view now s) key + amount \<le> limit) \<and>
      mem_view now s' = (if ok then spec_hold key rid (Some amount) (mem_view now s) else mem_view now s)"
    using mem_reserve_spec [OF inv] by (simp add: mem_ops_def)
  show "lo_settle (mem_ops now) key rid actual s = (Inr (prev, new), s') \<Longrightarrow>
      mem_inv s' \<and> prev = lv_spent (mem_view now s) key \<and> new = prev + actual \<and>
      mem_view now s' = spec_charge key actual (spec_hold key rid None (mem_view now s))"
    using mem_settle_spec [OF inv] by (simp add: mem_ops_def)
  show "lo_release (mem_ops now) key rid s = (Inr u, s') \<Longrightarrow>
      mem_inv s' \<and> mem_view now s' = spec_hold key rid None (mem_view now s)"
    using inv mem_inv_set_held [OF inv]
    by (auto simp: mem_ops_def mem_release_def mem_view_pop mem_inv_def distinct_delete)
  show "lo_usage (mem_ops now) key s = (Inr (sp, re), s') \<Longrightarrow>
      mem_inv s' \<and> mem_view now s' = mem_view now s \<and> sp = lv_spent (mem_view now s) key \<and>
      re = map_total (lv_held (mem_view now s) key)"
    using inv by (auto simp: mem_ops_def mem_usage_def Let_def mem_inv_expire reserved_of_expire)
                 (simp add: mem_view_def)
  show "lo_flag_once (mem_ops now) k s = (Inr first, s') \<Longrightarrow>
      mem_inv s' \<and> first = (k \<notin> lv_flags (mem_view now s)) \<and>
      mem_view now s' = spec_flag k (mem_view now s)"
    using inv
    by (auto simp: mem_ops_def mem_flag_once_def mem_inv_def mem_view_def spec_flag_def
        held_of_def spent_of_def fun_eq_iff split: if_splits)
  show "lo_sweep_expired (mem_ops now) s = (Inr n, s') \<Longrightarrow>
      mem_inv s' \<and> mem_view now s' = mem_view now s"
    using sweep_keys_spec [OF inv]
    by (auto simp: mem_ops_def mem_sweep_expired_def split: prod.splits)
qed

lemma mem_inv_init: "mem_inv mem_init"
  by (simp add: mem_inv_def mem_init_def held_of_def RESERVATION_TTL_SECONDS_def)

interpretation mem: ledger_total "mem_ops now" mem_inv "mem_view now" for now
  by unfold_locales
     (auto simp: mem_ops_def mem_reserve_def mem_settle_def mem_release_def mem_usage_def
        mem_flag_once_def Let_def)

subsection \<open>Behaviour of the fallback ledger\<close>

text \<open>A ledger whose backend is down raises on every call.\<close>

definition unavailable :: "'s ledger_ops \<Rightarrow> bool" where
  "unavailable ops \<longleftrightarrow>
     (\<forall>key limit amount rid s. fst (lo_reserve ops key limit amount rid s) = Inl LedgerUnavailable) \<and>
     (\<forall>key rid actual s. fst (lo_settle ops key rid actual s) = Inl LedgerUnavailable) \<and>
     (\<forall>key rid s. fst (lo_release ops key rid s) = Inl LedgerUnavailable) \<and>
     (\<forall>key s. fst (lo_usage ops key s) = Inl LedgerUnavailable) \<and>
     (\<forall>k s. fst (lo_flag_once ops k s) = Inl LedgerUnavailable) \<and>
     (\<forall>s. fst (lo_sweep_expired ops s) = Inl LedgerUnavailable)"

definition down_ops :: "'s ledger_ops" where
  "down_ops =
     \<lparr>lo_reserve = (\<lambda>_ _ _ _. raiseE LedgerUnavailable), lo_settle = (\<lambda>_ _ _. raiseE LedgerUnavailable),
      lo_release = (\<lambda>_ _. raiseE LedgerUnavailable), lo_usage = (\<lambda>_. raiseE LedgerUnavailable),
      lo_flag_once = (\<lambda>_. raiseE LedgerUnavailable), lo_sweep_expired = raiseE LedgerUnavailable\<rparr>"

lemma unavailable_down: "unavailable down_ops"
  by (simp add: unavailable_def down_ops_def)

lemma fallback_call_down:
  "fst (primary (fl_primary l)) = Inl LedgerUnavailable \<Longrightarrow>
   fst (fallback_call primary fallback l) = fst (fallback (fl_fallback l)) \<and>
   fl_fallback (snd (fallback_call primary fallback l)) = snd (fallback (fl_fallback l)) \<and>
   fl_alerts (snd (fallback_call primary fallback l)) = Suc (fl_alerts l)"
  by (auto simp: fallback_call_def split: prod.splits sum.splits)

lemma fallback_call_up:
  "fst (primary (fl_primary l)) = Inr x \<Longrightarrow>
   fst (fallback_call primary fallback l) = Inr x \<and>
   snd (fallback_call primary fallback l) = l\<lparr>fl_primary := snd (primary (fl_primary l))\<rparr>"
  by (auto simp: fallback_call_def split: prod.splits sum.splits)

lemma fallback_both_down: "unavailable P \<Longrightarrow> unavailable F \<Longrightarrow> unavailable (fallback_ops P F)"
  by (simp add: unavailable_def fallback_ops_def fallback_call_down)

lemma fallback_eq:
  assumes "fst (primary (fl_primary l)) = Inl LedgerUnavailable"
  shows "fallback_call primary fallback l = (r, l') \<longleftrightarrow>
    (\<exists>p f. primary (fl_primary l) = (Inl LedgerUnavailable, p) \<and> fallback (fl_fallback l) = (r, f) \<and>
       l' = l\<lparr>fl_primary := p, fl_fallback := f, fl_alerts := Suc (fl_alerts l)\<rparr>)"
  using assms by (auto simp: fallback_call_def split: prod.splits sum.splits)

text \<open>
  While the primary is down throughout, the pair behaves as the fallback ledger alone: it
  keeps the contract with the fallback's view.
\<close>

lemma fallback_contract_down:
  assumes "unavailable P" and "ledger_contract F I V"
  shows "ledger_contract (fallback_ops P F) (\<lambda>l. I (fl_fallback l)) (\<lambda>l. V (fl_fallback l))"
proof -
  have F: "ledger_contract F I V" by fact
  show ?thesis
    using assms(1)
    by unfold_locales
      (auto simp: fallback_ops_def unavailable_def fallback_eq ledger_contract.held_finite [OF F]
        dest: ledger_contract.reserve_ok [OF F] ledger_contract.settle_ok [OF F]
          ledger_contract.release_ok [OF F] ledger_contract.usage_ok [OF F]
          ledger_contract.flag_ok [OF F] ledger_contract.sweep_ok [OF F] split: if_splits)
qed

interpretation fb: ledger_contract "fallback_ops (down_ops :: 'p ledger_ops) (mem_ops now)"
  "\<lambda>l. mem_inv (fl_fallback l)" "\<lambda>l. mem_view now (fl_fallback l)" for now
  by (rule fallback_contract_down [OF unavailable_down mem.ledger_contract_axioms])

end
