(* ===== verification/Budgets.thy ===== *)
theory Budgets
  imports Ledger
begin

text \<open>
  The hard-budget engine of the AI gateway (\<open>ai-gateway/app/domain/budgets.py\<close>, with the
  entities it uses from \<open>domain/entities.py\<close> and the budget repository of
  \<open>store/memory.py\<close>).

  The engine is written against an arbitrary \<open>ledger_ops\<close>. Its own mutable state is the
  ledger behind it and the events handed to the \<open>emit_event\<close> callback
  (\<open>budget_engine\<close>). Dollar amounts are exact rationals (the code's floats carry two
  decimals); all ledger arithmetic is in whole cents, as in the code. Calendar arithmetic in
  the tenant's time zone (\<open>domain/windows.py\<close>) and the UUID source are parameters
  (\<open>window_start\<close>, \<open>window_reset_at\<close>, \<open>uuid7\<close>).
\<close>

subsection \<open>Entities\<close>

record budget =
  bud_id :: string
  bud_tenant_id :: string
  bud_scope_type :: string
  bud_scope_ref :: string
  bud_window :: string
  bud_limit_usd :: rat
  bud_degrade_pct :: int
  bud_status :: string
  bud_deleted_at :: "instant option"

definition limit_cents :: "budget \<Rightarrow> int" where
  "limit_cents b = py_round (bud_limit_usd b * 100)"

record governing_window =
  gw_budget :: budget
  gw_window_start :: string
  gw_ledger_key :: string
  gw_reset_at :: instant

record reservation =
  rs_governing :: governing_window
  rs_id :: string
  rs_amount_cents :: int

record preflight_result =
  pf_reservations :: "reservation list"
  pf_degrading :: bool
  pf_governing_state :: string
  pf_estimate_cents :: int

datatype budget_error =
    BudgetExhausted (be_scope_type: string) (be_scope_ref: string) (be_window: string)
      (be_reset_at: instant)
  | DependencyUnavailable
  | LedgerFault ledger_error

datatype budget_event =
  BudgetEvent (ev_tenant: string) (ev_type: string) (ev_scope_type: string)
    (ev_scope_ref: string) (ev_window: string) (ev_pct: nat) (ev_limit_usd: rat) (ev_spend_usd: rat)

record 's budget_engine =
  be_ledger :: 's
  be_events :: "budget_event list"

record budget_settings =
  bs_platform_tenant_id :: string
  bs_default_tenant_budget_daily_usd :: rat
  bs_default_tenant_budget_monthly_usd :: rat
  bs_system_budget_daily_usd :: rat
  bs_system_budget_monthly_usd :: rat
  bs_default_degrade_pct :: int

definition SPECIFICITY :: "string list" where
  "SPECIFICITY = [''platform'', ''tenant'', ''workspace'', ''principal'', ''virtual_key'']"

definition SYSTEM_SCOPE_REF :: string where
  "SYSTEM_SCOPE_REF = ''system''"

subsection \<open>Governing windows\<close>

text \<open>
  \<open>for_scope\<close> is the memory repository under the unit of work of tenant \<open>tid\<close>: rows of
  other tenants are invisible, soft-deleted rows are skipped.
\<close>

definition for_scope :: "budget list \<Rightarrow> string \<Rightarrow> string \<Rightarrow> string \<Rightarrow> budget list" where
  "for_scope store tid scope_type scope_ref =
     [b \<leftarrow> store. bud_tenant_id b = tid \<and> bud_deleted_at b = None
        \<and> bud_scope_type b = scope_type \<and> bud_scope_ref b = scope_ref]"

definition scope_budgets :: "budget list \<Rightarrow> string \<Rightarrow> string \<Rightarrow> string \<Rightarrow> budget list" where
  "scope_budgets store tid scope_type scope_ref =
     [b \<leftarrow> for_scope store tid scope_type scope_ref. bud_status b = ''active'']"

definition default_budgets ::
  "budget_settings \<Rightarrow> string \<Rightarrow> string \<Rightarrow> string \<Rightarrow> rat \<Rightarrow> rat \<Rightarrow> budget list" where
  "default_budgets settings tid scope_type scope_ref daily monthly =
     map (\<lambda>(window, limit).
            \<lparr>bud_id = ''default-'' @ scope_ref @ ''-'' @ window, bud_tenant_id = tid,
             bud_scope_type = scope_type, bud_scope_ref = scope_ref, bud_window = window,
             bud_limit_usd = limit, bud_degrade_pct = bs_default_degrade_pct settings,
             bud_status = ''active'', bud_deleted_at = None\<rparr>)
         (filter (\<lambda>(window, limit). limit > 0) [(''daily'', daily), (''monthly'', monthly)])"

definition mk_window ::
  "(string \<Rightarrow> instant \<Rightarrow> string \<Rightarrow> string) \<Rightarrow> (string \<Rightarrow> instant \<Rightarrow> string \<Rightarrow> instant) \<Rightarrow>
   instant \<Rightarrow> string \<Rightarrow> budget \<Rightarrow> governing_window" where
  "mk_window window_start window_reset_at now tz_name b =
     (let start = window_start (bud_window b) now tz_name
      in \<lparr>gw_budget = b, gw_window_start = start,
          gw_ledger_key = ''bud:'' @ bud_id b @ '':'' @ start,
          gw_reset_at = window_reset_at (bud_window b) now tz_name\<rparr>)"

definition specificity :: "governing_window \<Rightarrow> nat" where
  "specificity gw =
     (case py_index SPECIFICITY (bud_scope_type (gw_budget gw)) of
        Some i \<Rightarrow> i | None \<Rightarrow> length SPECIFICITY)"

definition governing_windows ::
  "(string \<Rightarrow> instant \<Rightarrow> string \<Rightarrow> string) \<Rightarrow> (string \<Rightarrow> instant \<Rightarrow> string \<Rightarrow> instant) \<Rightarrow>
   budget_settings \<Rightarrow> budget list \<Rightarrow> instant \<Rightarrow>
   string \<Rightarrow> string option \<Rightarrow> string \<Rightarrow> string \<Rightarrow> string \<Rightarrow> string \<Rightarrow> governing_window list" where
  "governing_windows window_start window_reset_at settings store now
       tenant_id workspace_id principal_id key_id request_class tz_name =
     (let W = mk_window window_start window_reset_at now;
          platform_tid = bs_platform_tenant_id settings
      in if request_class = ''judge'' then
           let budgets = scope_budgets store platform_tid ''platform'' SYSTEM_SCOPE_REF;
               budgets = (if budgets = [] then
                   default_budgets settings platform_tid ''platform'' SYSTEM_SCOPE_REF
                     (bs_system_budget_daily_usd settings) (bs_system_budget_monthly_usd settings)
                 else budgets)
           in map (W ''UTC'') budgets
         else
           let platform_ws = map (W ''UTC'') (scope_budgets store platform_tid ''platform'' ''platform'');
               tenant_budgets = scope_budgets store tenant_id ''tenant'' tenant_id;
               tenant_budgets = (if tenant_budgets = [] then
                   default_budgets settings tenant_id ''tenant'' tenant_id
                     (bs_default_tenant_budget_daily_usd settings)
                     (bs_default_tenant_budget_monthly_usd settings)
                 else tenant_budgets);
               workspace_ws = (case workspace_id of
                   None \<Rightarrow> []
                 | Some w \<Rightarrow> if w = [] then []
                     else map (W tz_name) (scope_budgets store tenant_id ''workspace'' w));
               principal_ws = map (W tz_name) (scope_budgets store tenant_id ''principal'' principal_id);
               key_ws = map (W tz_name) (scope_budgets store tenant_id ''virtual_key'' key_id)
           in sort_key specificity
                (platform_ws @ map (W tz_name) tenant_budgets @ workspace_ws @ principal_ws @ key_ws))"

subsection \<open>Preflight, settle, release\<close>

definition on_ledger :: "('s, ledger_error, 'a) eff \<Rightarrow> ('s budget_engine, budget_error, 'a) eff" where
  "on_ledger m en =
     (case m (be_ledger en) of
        (Inl e, s) \<Rightarrow> (Inl (LedgerFault e), en\<lparr>be_ledger := s\<rparr>)
      | (Inr x, s) \<Rightarrow> (Inr x, en\<lparr>be_ledger := s\<rparr>))"

definition emit_event :: "budget_event \<Rightarrow> ('s budget_engine, budget_error, unit) eff" where
  "emit_event ev en = (Inr (), en\<lparr>be_events := be_events en @ [ev]\<rparr>)"

definition exhausted_error :: "governing_window \<Rightarrow> budget_error" where
  "exhausted_error gw =
     BudgetExhausted (bud_scope_type (gw_budget gw)) (bud_scope_ref (gw_budget gw))
       (bud_window (gw_budget gw)) (gw_reset_at gw)"

definition pct_of :: "int \<Rightarrow> int \<Rightarrow> rat" where
  "pct_of limit pct = of_int (limit * pct) / 100"

fun scan_windows ::
  "'s ledger_ops \<Rightarrow> governing_window list \<Rightarrow> governing_window option \<Rightarrow> bool \<Rightarrow>
   ('s budget_engine, budget_error, governing_window option \<times> bool) eff" where
  "scan_windows ops [] exhausted degrading = returnE (exhausted, degrading)"
| "scan_windows ops (gw # gws) exhausted degrading =
     bindE (on_ledger (lo_usage ops (gw_ledger_key gw))) (\<lambda>(spent, reserved).
       let limit = limit_cents (gw_budget gw)
       in if spent \<ge> limit then scan_windows ops gws (Some gw) degrading
          else if of_int spent \<ge> pct_of limit (bud_degrade_pct (gw_budget gw))
               then scan_windows ops gws exhausted True
          else scan_windows ops gws exhausted degrading)"

fun release_all ::
  "'s ledger_ops \<Rightarrow> reservation list \<Rightarrow> ('s budget_engine, budget_error, unit) eff" where
  "release_all ops [] = returnE ()"
| "release_all ops (r # rs) =
     bindE (on_ledger (lo_release ops (gw_ledger_key (rs_governing r)) (rs_id r)))
       (\<lambda>_. release_all ops rs)"

fun reserve_windows ::
  "'s ledger_ops \<Rightarrow> (nat \<Rightarrow> string) \<Rightarrow> nat \<Rightarrow> int \<Rightarrow> reservation list \<Rightarrow> governing_window list \<Rightarrow>
   ('s budget_engine, budget_error, reservation list) eff" where
  "reserve_windows ops uuid7 n estimate acc [] = returnE acc"
| "reserve_windows ops uuid7 n estimate acc (gw # gws) =
     (let rid = uuid7 n
      in bindE (on_ledger (lo_reserve ops (gw_ledger_key gw) (limit_cents (gw_budget gw)) estimate rid))
           (\<lambda>ok. if \<not> ok then bindE (release_all ops acc) (\<lambda>_. raiseE (exhausted_error gw))
                 else reserve_windows ops uuid7 (Suc n) estimate
                        (acc @ [\<lparr>rs_governing = gw, rs_id = rid, rs_amount_cents = estimate\<rparr>]) gws))"

definition fail_closed :: "budget_error \<Rightarrow> ('s budget_engine, budget_error, 'a) eff" where
  "fail_closed e = (case e of LedgerFault _ \<Rightarrow> raiseE DependencyUnavailable | _ \<Rightarrow> raiseE e)"

definition preflight ::
  "'s ledger_ops \<Rightarrow> (nat \<Rightarrow> string) \<Rightarrow> governing_window list \<Rightarrow> int \<Rightarrow>
   ('s budget_engine, budget_error, preflight_result) eff" where
  "preflight ops uuid7 windows estimate =
     bindE
       (catchE
         (bindE (scan_windows ops windows None False) (\<lambda>(exhausted, degrading).
            case exhausted of
              Some gw \<Rightarrow> raiseE (exhausted_error gw)
            | None \<Rightarrow> bindE (reserve_windows ops uuid7 0 estimate [] windows)
                        (\<lambda>reservations. returnE (degrading, reservations))))
         fail_closed)
       (\<lambda>(degrading, reservations). returnE
          \<lparr>pf_reservations = reservations, pf_degrading = degrading,
           pf_governing_state = (if degrading then ''degrading'' else ''ok''),
           pf_estimate_cents = estimate\<rparr>)"

fun reserve_more_loop ::
  "'s ledger_ops \<Rightarrow> (nat \<Rightarrow> string) \<Rightarrow> nat \<Rightarrow> int \<Rightarrow> reservation list \<Rightarrow> preflight_result \<Rightarrow>
   's budget_engine \<Rightarrow> ((budget_error + unit) \<times> 's budget_engine) \<times> preflight_result" where
  "reserve_more_loop ops uuid7 n extra [] pf en = ((Inr (), en), pf)"
| "reserve_more_loop ops uuid7 n extra (res # rest) pf en =
     (let gw = rs_governing res; rid = uuid7 n
      in case on_ledger (lo_reserve ops (gw_ledger_key gw) (limit_cents (gw_budget gw)) extra rid) en of
           (Inl e, en') \<Rightarrow> ((Inl e, en'), pf)
         | (Inr ok, en') \<Rightarrow>
             if \<not> ok then ((Inl (exhausted_error gw), en'), pf)
             else reserve_more_loop ops uuid7 (Suc n) extra rest
                    (pf\<lparr>pf_reservations := pf_reservations pf @
                         [\<lparr>rs_governing = gw, rs_id = rid, rs_amount_cents = extra\<rparr>]\<rparr>) en')"

text \<open>\<open>reserve_more\<close> extends the caller's preflight object in place, also when it raises.\<close>

definition reserve_more ::
  "'s ledger_ops \<Rightarrow> (nat \<Rightarrow> string) \<Rightarrow> preflight_result \<Rightarrow> int \<Rightarrow> 's budget_engine \<Rightarrow>
   ((budget_error + unit) \<times> 's budget_engine) \<times> preflight_result" where
  "reserve_more ops uuid7 pf extra en =
     (if extra \<le> 0 then ((Inr (), en), pf)
      else reserve_more_loop ops uuid7 0 extra (pf_reservations pf) pf en)"

definition group_windows :: "reservation list \<Rightarrow> (string, reservation list) dict" where
  "group_windows rs =
     foldl (\<lambda>d r. let key = gw_ledger_key (rs_governing r)
                  in AList.update key ((case map_of d key of None \<Rightarrow> [] | Some xs \<Rightarrow> xs) @ [r]) d) [] rs"

fun settle_window ::
  "'s ledger_ops \<Rightarrow> string \<Rightarrow> nat \<Rightarrow> int \<Rightarrow> int \<Rightarrow> int \<Rightarrow> reservation list \<Rightarrow>
   ('s budget_engine, budget_error, int \<times> int) eff" where
  "settle_window ops key i remaining prev_spent new_spent [] = returnE (prev_spent, new_spent)"
| "settle_window ops key i remaining prev_spent new_spent (res # rest) =
     (let portion = (if rest = [] then remaining else min (rs_amount_cents res) remaining);
          remaining' = remaining - min portion remaining
      in bindE (on_ledger (lo_settle ops key (rs_id res) portion)) (\<lambda>(p, n).
           settle_window ops key (Suc i) remaining' (if i = 0 then p else prev_spent) n rest))"

definition threshold_flag :: "governing_window \<Rightarrow> nat \<Rightarrow> string" where
  "threshold_flag gw pct =
     ''budthr:'' @ bud_id (gw_budget gw) @ '':'' @ gw_window_start gw @ '':'' @ py_str_nat pct"

definition threshold_event :: "governing_window \<Rightarrow> nat \<Rightarrow> int \<Rightarrow> budget_event" where
  "threshold_event gw pct new_spent =
     (let b = gw_budget gw
      in BudgetEvent (bud_tenant_id b)
           (if pct = 100 then ''budget.exhausted'' else ''budget.threshold'')
           (bud_scope_type b) (bud_scope_ref b) (bud_window b) pct (bud_limit_usd b)
           (of_int new_spent / 100))"

fun emit_thresholds ::
  "'s ledger_ops \<Rightarrow> governing_window \<Rightarrow> int \<Rightarrow> int \<Rightarrow> nat list \<Rightarrow>
   ('s budget_engine, budget_error, unit) eff" where
  "emit_thresholds ops gw prev_spent new_spent [] = returnE ()"
| "emit_thresholds ops gw prev_spent new_spent (pct # pcts) =
     (let threshold = pct_of (limit_cents (gw_budget gw)) (int pct)
      in if of_int prev_spent < threshold \<and> threshold \<le> of_int new_spent then
           bindE (on_ledger (lo_flag_once ops (threshold_flag gw pct))) (\<lambda>first.
             if first then bindE (emit_event (threshold_event gw pct new_spent))
                             (\<lambda>_. emit_thresholds ops gw prev_spent new_spent pcts)
             else emit_thresholds ops gw prev_spent new_spent pcts)
         else emit_thresholds ops gw prev_spent new_spent pcts)"

fun settle_groups ::
  "'s ledger_ops \<Rightarrow> int \<Rightarrow> string \<Rightarrow> (string, reservation list) dict \<Rightarrow>
   ('s budget_engine, budget_error, string) eff" where
  "settle_groups ops actual state [] = returnE state"
| "settle_groups ops actual state ((key, reservations) # groups) =
     (let gw = rs_governing (hd reservations)
      in bindE (settle_window ops key 0 actual 0 0 reservations) (\<lambda>(prev_spent, new_spent).
         bindE (emit_thresholds ops gw prev_spent new_spent [80, 95, 100]) (\<lambda>_.
           let limit = limit_cents (gw_budget gw);
               state' = (if new_spent \<ge> limit then ''exhausted''
                         else if state \<noteq> ''exhausted'' \<and>
                                 of_int new_spent \<ge> pct_of limit (bud_degrade_pct (gw_budget gw))
                              then ''degrading'' else state)
           in settle_groups ops actual state' groups)))"

definition settle ::
  "'s ledger_ops \<Rightarrow> preflight_result \<Rightarrow> int \<Rightarrow> ('s budget_engine, budget_error, string) eff" where
  "settle ops pf actual = settle_groups ops actual ''ok'' (group_windows (pf_reservations pf))"

definition release ::
  "'s ledger_ops \<Rightarrow> preflight_result \<Rightarrow> ('s budget_engine, budget_error, unit) eff" where
  "release ops pf = release_all ops (pf_reservations pf)"

subsection \<open>Spend queries and the parent-limit warning\<close>

record live_spend_report =
  ls_budget_id :: string
  ls_scope_type :: string
  ls_scope_ref :: string
  ls_window :: string
  ls_window_start :: string
  ls_limit_usd :: rat
  ls_spend_usd :: rat
  ls_reserved_usd :: rat
  ls_reset_at :: instant

definition live_spend ::
  "'s ledger_ops \<Rightarrow> (string \<Rightarrow> instant \<Rightarrow> string \<Rightarrow> string) \<Rightarrow>
   (string \<Rightarrow> instant \<Rightarrow> string \<Rightarrow> instant) \<Rightarrow> instant \<Rightarrow> budget \<Rightarrow> string \<Rightarrow>
   ('s budget_engine, budget_error, live_spend_report) eff" where
  "live_spend ops window_start window_reset_at now b tz_name =
     (let gw = mk_window window_start window_reset_at now tz_name b
      in bindE
           (catchE (on_ledger (lo_usage ops (gw_ledger_key gw))) (\<lambda>_. raiseE DependencyUnavailable))
           (\<lambda>(spent, reserved). returnE
              \<lparr>ls_budget_id = bud_id b, ls_scope_type = bud_scope_type b, ls_scope_ref = bud_scope_ref b,
               ls_window = bud_window b, ls_window_start = gw_window_start gw,
               ls_limit_usd = bud_limit_usd b, ls_spend_usd = of_int spent / 100,
               ls_reserved_usd = of_int reserved / 100, ls_reset_at = gw_reset_at gw\<rparr>))"

text \<open>
  \<open>child_exceeds_parent_warning\<close>: \<open>Inl ()\<close> is the \<open>ValueError\<close> of
  \<open>order.index\<close> on an unknown scope type; \<open>Inr (Some p)\<close> is the warning that names the
  parent \<open>p\<close>.
\<close>

fun child_exceeds_parent_warning :: "budget \<Rightarrow> budget list \<Rightarrow> unit + budget option" where
  "child_exceeds_parent_warning new [] = Inr None"
| "child_exceeds_parent_warning new (parent # parents) =
     (if bud_window parent \<noteq> bud_window new then child_exceeds_parent_warning new parents
      else case py_index SPECIFICITY (bud_scope_type parent) of
          None \<Rightarrow> Inl ()
        | Some i \<Rightarrow>
            (case py_index SPECIFICITY (bud_scope_type new) of
               None \<Rightarrow> Inl ()
             | Some j \<Rightarrow>
                 if i < j \<and> bud_limit_usd new > bud_limit_usd parent then Inr (Some parent)
                 else child_exceeds_parent_warning new parents))"

subsection \<open>The engine over any ledger that keeps the contract\<close>

abbreviation rs_key :: "reservation \<Rightarrow> string" where
  "rs_key r \<equiv> gw_ledger_key (rs_governing r)"

text \<open>The effect of holding, and of dropping, a list of reservations on the abstract ledger.\<close>

definition holds :: "reservation list \<Rightarrow> led_view \<Rightarrow> led_view" where
  "holds rs v = fold (\<lambda>r. spec_hold (rs_key r) (rs_id r) (Some (rs_amount_cents r))) rs v"

definition drops :: "reservation list \<Rightarrow> led_view \<Rightarrow> led_view" where
  "drops rs v = fold (\<lambda>r. spec_hold (rs_key r) (rs_id r) None) rs v"

definition over :: "led_view \<Rightarrow> governing_window \<Rightarrow> bool" where
  "over v gw \<longleftrightarrow> lv_spent v (gw_ledger_key gw) \<ge> limit_cents (gw_budget gw)"

lemma on_ledger_Inr:
  "on_ledger m en = (Inr x, en') \<longleftrightarrow>
   (\<exists>s'. m (be_ledger en) = (Inr x, s') \<and> en' = en\<lparr>be_ledger := s'\<rparr>)"
  by (auto simp: on_ledger_def split: prod.splits sum.splits)

lemma on_ledger_Inl:
  "on_ledger m en = (Inl e, en') \<longleftrightarrow>
   (\<exists>f s'. e = LedgerFault f \<and> m (be_ledger en) = (Inl f, s') \<and> en' = en\<lparr>be_ledger := s'\<rparr>)"
  by (auto simp: on_ledger_def split: prod.splits sum.splits)

lemma spec_hold_frame [simp]:
  "lv_spent (spec_hold k r a v) = lv_spent v" "lv_flags (spec_hold k r a v) = lv_flags v"
  by (simp_all add: spec_hold_def)

lemma holds_simps [simp]:
  "holds [] v = v"
  "holds (r # rs) v = holds rs (spec_hold (rs_key r) (rs_id r) (Some (rs_amount_cents r)) v)"
  "holds (rs @ rs') v = holds rs' (holds rs v)"
  by (simp_all add: holds_def)

lemma drops_simps [simp]:
  "drops [] v = v"
  "drops (r # rs) v = drops rs (spec_hold (rs_key r) (rs_id r) None v)"
  by (simp_all add: drops_def)

lemma holds_frame [simp]: "lv_spent (holds rs v) = lv_spent v" "lv_flags (holds rs v) = lv_flags v"
  by (induction rs arbitrary: v) auto

lemma drops_frame [simp]: "lv_spent (drops rs v) = lv_spent v" "lv_flags (drops rs v) = lv_flags v"
  by (induction rs arbitrary: v) auto

lemma holds_other:
  "(k, i) \<notin> (\<lambda>r. (rs_key r, rs_id r)) ` set rs \<Longrightarrow> lv_held (holds rs v) k i = lv_held v k i"
  by (induction rs arbitrary: v) (auto simp: spec_hold_def)

lemma drops_held:
  "lv_held (drops rs v) k i =
     (if (k, i) \<in> (\<lambda>r. (rs_key r, rs_id r)) ` set rs then None else lv_held v k i)"
  by (induction rs arbitrary: v) (auto simp: spec_hold_def)

text \<open>Dropping reservations whose ids were unused before puts the ledger back where it was.\<close>

lemma drops_holds:
  assumes "\<And>r. r \<in> set rs \<Longrightarrow> lv_held v (rs_key r) (rs_id r) = None"
  shows "drops rs (holds rs v) = v"
proof -
  have "lv_held (drops rs (holds rs v)) k i = lv_held v k i" for k i
    using assms by (auto simp: drops_held holds_other)
  then show ?thesis by (intro led_view.equality) (auto simp: fun_eq_iff)
qed

lemma holds_other_key: "k \<notin> rs_key ` set rs \<Longrightarrow> lv_held (holds rs v) k = lv_held v k"
  by (rule ext) (rule holds_other, auto)

lemma holds_member:
  assumes "distinct (map rs_key rs)" and "r \<in> set rs"
  shows "lv_held (holds rs v) (rs_key r) = (lv_held v (rs_key r))(rs_id r \<mapsto> rs_amount_cents r)"
  using assms
proof (induction rs arbitrary: v)
  case Nil
  then show ?case by simp
next
  case (Cons a rs)
  show ?case
  proof (cases "r = a")
    case True
    with Cons.prems have "rs_key r \<notin> rs_key ` set rs" by auto
    with True show ?thesis by (simp add: holds_other_key) (simp add: spec_hold_def)
  next
    case False
    with Cons.prems have r: "r \<in> set rs" by auto
    then have "rs_key r \<in> rs_key ` set rs" by (rule imageI)
    then have "rs_key r \<noteq> rs_key a" using Cons.prems(1) by (metis distinct.simps(2) list.simps(9) list.set_map)
    with r Cons show ?thesis by (auto simp: spec_hold_def fun_eq_iff)
  qed
qed

lemma spec_hold_charge: "spec_hold k r a (spec_charge j n v) = spec_charge j n (spec_hold k r a v)"
  by (simp add: spec_charge_def spec_hold_def)

lemma drops_charge: "drops rs (spec_charge k n v) = spec_charge k n (drops rs v)"
  by (induction rs arbitrary: v) (simp_all add: spec_hold_charge)

lemma spec_charge_charge: "spec_charge k m (spec_charge k n v) = spec_charge k (n + m) v"
  by (simp add: spec_charge_def add.assoc)

lemma fail_closed_eq:
  "fail_closed e en \<noteq> (Inr x, en')"
  "fail_closed e en = (Inl (BudgetExhausted a b c d), en') \<longleftrightarrow> e = BudgetExhausted a b c d \<and> en' = en"
  "fail_closed e en \<noteq> (Inl (LedgerFault f), en')"
  by (cases e; auto simp: fail_closed_def)+

lemma preflight_Inr:
  assumes "preflight ops uuid7 ws est en = (Inr pf, en')"
  obtains dg en1 where "scan_windows ops ws None False en = (Inr (None, dg), en1)"
    "reserve_windows ops uuid7 0 est [] ws en1 = (Inr (pf_reservations pf), en')"
  using assms
  by (auto simp: preflight_def bindE_eq_Inr catchE_eq_Inr fail_closed_eq split: option.split_asm)

lemma release_all_fault: "release_all ops rs en = (Inl e, en') \<Longrightarrow> \<exists>f. e = LedgerFault f"
  by (induction rs arbitrary: en) (auto simp: bindE_eq_Inl on_ledger_Inl)

lemma scan_windows_fault:
  "scan_windows ops gws ex dg en = (Inl e, en') \<Longrightarrow> \<exists>f. e = LedgerFault f"
  by (induction gws arbitrary: ex dg en)
     (auto simp: bindE_eq_Inl on_ledger_Inl Let_def split: if_splits)

lemma preflight_exhausted:
  assumes "preflight ops uuid7 ws est en = (Inl (BudgetExhausted a b c d), en')"
  obtains ex dg en1 where "scan_windows ops ws None False en = (Inr (ex, dg), en1)"
    "(\<exists>gw. ex = Some gw \<and> exhausted_error gw = BudgetExhausted a b c d \<and> en' = en1) \<or>
     reserve_windows ops uuid7 0 est [] ws en1 = (Inl (BudgetExhausted a b c d), en')"
  using assms
  by (fastforce simp: preflight_def bindE_eq_Inl catchE_eq_Inl fail_closed_eq
      dest: scan_windows_fault split: option.split_asm)

context ledger_contract
begin

lemma scan_windows_spec:
  "scan_windows ops gws ex dg en = (Inr (ex', dg'), en') \<Longrightarrow> inv (be_ledger en) \<Longrightarrow>
   inv (be_ledger en') \<and> view (be_ledger en') = view (be_ledger en) \<and> be_events en' = be_events en \<and>
   ex' = (if filter (over (view (be_ledger en))) gws = [] then ex
          else Some (last (filter (over (view (be_ledger en))) gws)))"
proof (induction gws arbitrary: ex dg en)
  case Nil
  then show ?case by simp
next
  case (Cons gw gws)
  from Cons.prems(1) obtain sp re s1 where
    u: "lo_usage ops (gw_ledger_key gw) (be_ledger en) = (Inr (sp, re), s1)"
    by (auto simp: bindE_eq_Inr on_ledger_Inr)
  let ?en = "en\<lparr>be_ledger := s1\<rparr>"
  from usage_ok [OF Cons.prems(2) u] have s1: "inv s1" "view s1 = view (be_ledger en)"
    "sp = lv_spent (view (be_ledger en)) (gw_ledger_key gw)" by auto
  have next_scan: "\<exists>dg2. scan_windows ops gws (if over (view s1) gw then Some gw else ex) dg2 ?en
      = (Inr (ex', dg'), en')"
    using Cons.prems(1) u s1
    by (auto simp: bindE_eq_Inr on_ledger_Inr over_def Let_def split: if_splits)
  then obtain dg2 where "scan_windows ops gws (if over (view s1) gw then Some gw else ex) dg2 ?en
      = (Inr (ex', dg'), en')" ..
  from Cons.IH [OF this] s1 show ?case by auto
qed

lemma release_all_spec:
  "release_all ops rs en = (Inr u, en') \<Longrightarrow> inv (be_ledger en) \<Longrightarrow>
   inv (be_ledger en') \<and> view (be_ledger en') = drops rs (view (be_ledger en)) \<and>
   be_events en' = be_events en"
proof (induction rs arbitrary: en)
  case Nil
  then show ?case by simp
next
  case (Cons r rs)
  from Cons.prems(1) obtain u1 s1 where
    rel: "lo_release ops (rs_key r) (rs_id r) (be_ledger en) = (Inr u1, s1)"
    and rest: "release_all ops rs (en\<lparr>be_ledger := s1\<rparr>) = (Inr u, en')"
    by (auto simp: bindE_eq_Inr on_ledger_Inr)
  from release_ok [OF Cons.prems(2) rel] Cons.IH [OF rest] show ?case by simp
qed

text \<open>
  The reservation loop. On success the new reservations are held, one per window, in order;
  if a window has no room, everything held so far is dropped again.
\<close>

lemma reserve_windows_ok:
  "reserve_windows ops uuid7 n est acc gws en = (Inr rs, en') \<Longrightarrow> inv (be_ledger en) \<Longrightarrow>
   distinct (map gw_ledger_key gws) \<Longrightarrow>
   \<exists>new. rs = acc @ new \<and> map rs_governing new = gws \<and>
     map rs_id new = map uuid7 [n..<n + length gws] \<and> (\<forall>r \<in> set new. rs_amount_cents r = est) \<and>
     inv (be_ledger en') \<and> be_events en' = be_events en \<and>
     view (be_ledger en') = holds new (view (be_ledger en)) \<and>
     (\<forall>gw \<in> set gws. committed (view (be_ledger en)) (gw_ledger_key gw) + est \<le> limit_cents (gw_budget gw))"
proof (induction gws arbitrary: n acc en)
  case Nil
  then show ?case by simp
next
  case (Cons gw gws)
  let ?r = "\<lparr>rs_governing = gw, rs_id = uuid7 n, rs_amount_cents = est\<rparr>"
  let ?v = "view (be_ledger en)"
  from Cons.prems(1) obtain s1 where
    res: "lo_reserve ops (gw_ledger_key gw) (limit_cents (gw_budget gw)) est (uuid7 n) (be_ledger en)
          = (Inr True, s1)"
    and rest: "reserve_windows ops uuid7 (Suc n) est (acc @ [?r]) gws (en\<lparr>be_ledger := s1\<rparr>) = (Inr rs, en')"
    by (auto simp: bindE_eq_Inr on_ledger_Inr Let_def split: if_splits)
  from reserve_ok [OF Cons.prems(2) res] have s1: "inv s1" "view s1 = holds [?r] ?v"
    and fits: "committed ?v (gw_ledger_key gw) + est \<le> limit_cents (gw_budget gw)" by auto
  from Cons.IH [OF rest] s1 Cons.prems(3) obtain new where
    new: "rs = (acc @ [?r]) @ new" "map rs_governing new = gws"
      "map rs_id new = map uuid7 [Suc n..<Suc n + length gws]" "\<forall>r \<in> set new. rs_amount_cents r = est"
      "inv (be_ledger en')" "be_events en' = be_events en" "view (be_ledger en') = holds new (view s1)"
    and fits': "\<forall>gw \<in> set gws. committed (view s1) (gw_ledger_key gw) + est \<le> limit_cents (gw_budget gw)"
    by auto
  have "committed (view s1) (gw_ledger_key g) = committed ?v (gw_ledger_key g)" if "g \<in> set gws" for g
  proof -
    have "gw_ledger_key g \<in> gw_ledger_key ` set gws" using that by (rule imageI)
    then have "gw_ledger_key g \<noteq> gw_ledger_key gw"
      using Cons.prems(3) by (metis distinct.simps(2) list.simps(9) list.set_map)
    then show ?thesis using s1(2) by (simp add: committed_def spec_hold_def)
  qed
  with fits fits' new s1 show ?case
    by (intro exI [of _ "?r # new"]) (simp add: upt_conv_Cons del: upt_Suc)
qed

lemma reserve_windows_full:
  "reserve_windows ops uuid7 n est acc gws en = (Inl (BudgetExhausted a b c d), en') \<Longrightarrow>
   inv (be_ledger en) \<Longrightarrow>
   \<exists>new gw. gw \<in> set gws \<and> exhausted_error gw = BudgetExhausted a b c d \<and>
     set (map rs_id new) \<subseteq> uuid7 ` {n..} \<and>
     inv (be_ledger en') \<and> be_events en' = be_events en \<and>
     view (be_ledger en') = drops (acc @ new) (holds new (view (be_ledger en)))"
proof (induction gws arbitrary: n acc en)
  case Nil
  then show ?case by simp
next
  case (Cons gw gws)
  let ?r = "\<lparr>rs_governing = gw, rs_id = uuid7 n, rs_amount_cents = est\<rparr>"
  let ?v = "view (be_ledger en)"
  from Cons.prems(1) obtain ok s1 where
    res: "lo_reserve ops (gw_ledger_key gw) (limit_cents (gw_budget gw)) est (uuid7 n) (be_ledger en)
          = (Inr ok, s1)"
    by (auto simp: bindE_eq_Inl on_ledger_Inr on_ledger_Inl Let_def)
  note s1 = reserve_ok [OF Cons.prems(2) res]
  show ?case
  proof (cases ok)
    case True
    with Cons.prems(1) res have
      "reserve_windows ops uuid7 (Suc n) est (acc @ [?r]) gws (en\<lparr>be_ledger := s1\<rparr>)
        = (Inl (BudgetExhausted a b c d), en')"
      by (auto simp: bindE_eq_Inl on_ledger_Inr on_ledger_Inl Let_def)
    from Cons.IH [OF this] s1 obtain new g where
      "g \<in> set gws" "exhausted_error g = BudgetExhausted a b c d"
      "set (map rs_id new) \<subseteq> uuid7 ` {Suc n..}" "inv (be_ledger en')" "be_events en' = be_events en"
      "view (be_ledger en') = drops ((acc @ [?r]) @ new) (holds new (view s1))"
      by auto
    moreover have "uuid7 ` {Suc n..} \<subseteq> uuid7 ` {n..}" by auto
    ultimately show ?thesis
      using s1 True by (intro exI [of _ "?r # new"] exI [of _ g]) auto
  next
    case False
    with Cons.prems(1) res obtain u where
      "release_all ops acc (en\<lparr>be_ledger := s1\<rparr>) = (Inr u, en')"
      "exhausted_error gw = BudgetExhausted a b c d"
      by (auto simp: bindE_eq_Inl on_ledger_Inr on_ledger_Inl Let_def dest: release_all_fault)
    with release_all_spec [of acc "en\<lparr>be_ledger := s1\<rparr>"] s1 False show ?thesis
      by (intro exI [of _ "[]"] exI [of _ gw]) auto
  qed
qed

lemma settle_window_spec:
  "settle_window ops key i remaining prev new rs en = (Inr (p', n'), en') \<Longrightarrow> rs \<noteq> [] \<Longrightarrow>
   (\<forall>r \<in> set rs. rs_key r = key) \<Longrightarrow> inv (be_ledger en) \<Longrightarrow>
   inv (be_ledger en') \<and> be_events en' = be_events en \<and>
   view (be_ledger en') = spec_charge key remaining (drops rs (view (be_ledger en))) \<and>
   n' = lv_spent (view (be_ledger en)) key + remaining \<and>
   p' = (if i = 0 then lv_spent (view (be_ledger en)) key else prev)"
proof (induction rs arbitrary: i remaining prev new en)
  case Nil
  then show ?case by simp
next
  case (Cons r rs)
  let ?v = "view (be_ledger en)"
  let ?portion = "if rs = [] then remaining else min (rs_amount_cents r) remaining"
  from Cons.prems(1) obtain p n s1 where
    st: "lo_settle ops key (rs_id r) ?portion (be_ledger en) = (Inr (p, n), s1)"
    and rest: "settle_window ops key (Suc i) (remaining - min ?portion remaining)
      (if i = 0 then p else prev) n rs (en\<lparr>be_ledger := s1\<rparr>) = (Inr (p', n'), en')"
    by (auto simp: bindE_eq_Inr on_ledger_Inr Let_def)
  note s1 = settle_ok [OF Cons.prems(4) st]
  show ?case
  proof (cases "rs = []")
    case True
    with rest s1 Cons.prems(3) show ?thesis by auto
  next
    case False
    with Cons.IH [OF rest False] Cons.prems(3) s1 show ?thesis
      by (simp add: drops_charge spec_charge_charge) (simp add: spec_charge_def)
  qed
qed

lemma emit_thresholds_spec:
  "emit_thresholds ops gw p n pcts en = (Inr u, en') \<Longrightarrow> inv (be_ledger en) \<Longrightarrow>
   inv (be_ledger en') \<and>
   (\<exists>F new. finite F \<and> F \<inter> lv_flags (view (be_ledger en)) = {} \<and> card F = length new \<and>
      be_events en' = be_events en @ new \<and>
      view (be_ledger en') = (view (be_ledger en))\<lparr>lv_flags := lv_flags (view (be_ledger en)) \<union> F\<rparr>)"
proof (induction pcts arbitrary: en)
  case Nil
  then show ?case by (auto intro!: exI [of _ "{}"] exI [of _ "[]"])
next
  case (Cons pct pcts)
  let ?t = "pct_of (limit_cents (gw_budget gw)) (int pct)" and ?k = "threshold_flag gw pct"
  show ?case
  proof (cases "of_int p < ?t \<and> ?t \<le> of_int n")
    case False
    with Cons show ?thesis by (auto simp: Let_def)
  next
    case True
    with Cons.prems(1) obtain first s1 where
      fl: "lo_flag_once ops ?k (be_ledger en) = (Inr first, s1)"
      by (auto simp: bindE_eq_Inr on_ledger_Inr Let_def)
    note s1 = flag_ok [OF Cons.prems(2) fl]
    let ?en = "if first then en\<lparr>be_ledger := s1, be_events := be_events en @ [threshold_event gw pct n]\<rparr>
               else en\<lparr>be_ledger := s1\<rparr>"
    have led: "be_ledger ?en = s1" by simp
    have emit: "emit_thresholds ops gw p n pcts ?en = (Inr u, en')"
      using Cons.prems(1) True fl
      by (auto simp: bindE_eq_Inr on_ledger_Inr emit_event_def Let_def split: if_splits)
    from Cons.IH [OF emit] s1 led obtain F new where
      "inv (be_ledger en')" and F: "finite F" "F \<inter> lv_flags (view s1) = {}"
      "card F = length new" "be_events en' = be_events ?en @ new"
      "view (be_ledger en') = (view s1)\<lparr>lv_flags := lv_flags (view s1) \<union> F\<rparr>"
      by metis
    show ?thesis
    proof (cases first)
      case True
      then show ?thesis using F s1 \<open>inv (be_ledger en')\<close>
        by (intro conjI exI [of _ "insert ?k F"] exI [of _ "threshold_event gw pct n # new"])
           (auto simp: spec_flag_def)
    next
      case False
      then show ?thesis using F s1 \<open>inv (be_ledger en')\<close>
        by (intro conjI exI [of _ F] exI [of _ new]) (auto simp: insert_absorb spec_flag_def)
    qed
  qed
qed

lemma settle_groups_spec:
  "settle_groups ops actual st gs en = (Inr st', en') \<Longrightarrow> inv (be_ledger en) \<Longrightarrow>
   distinct (map fst gs) \<Longrightarrow> (\<forall>(k, rs) \<in> set gs. rs \<noteq> [] \<and> (\<forall>r \<in> set rs. rs_key r = k)) \<Longrightarrow>
   inv (be_ledger en') \<and>
   lv_spent (view (be_ledger en')) =
     (\<lambda>k. lv_spent (view (be_ledger en)) k + (if k \<in> fst ` set gs then actual else 0)) \<and>
   lv_held (view (be_ledger en')) = lv_held (drops (concat (map snd gs)) (view (be_ledger en))) \<and>
   (\<exists>F new. finite F \<and> F \<inter> lv_flags (view (be_ledger en)) = {} \<and> card F = length new \<and>
      be_events en' = be_events en @ new \<and>
      lv_flags (view (be_ledger en')) = lv_flags (view (be_ledger en)) \<union> F) \<and>
   (st' = ''exhausted'' \<longleftrightarrow> st = ''exhausted'' \<or>
      (\<exists>(k, rs) \<in> set gs. lv_spent (view (be_ledger en)) k + actual
                             \<ge> limit_cents (gw_budget (rs_governing (hd rs)))))"
proof (induction gs arbitrary: st en)
  case Nil
  then show ?case by (auto simp: fun_eq_iff intro!: exI [of _ "{}"] exI [of _ "[]"])
next
  case (Cons g gs)
  obtain k rs where g: "g = (k, rs)" by (cases g)
  let ?gw = "rs_governing (hd rs)" and ?v = "view (be_ledger en)"
  from Cons.prems(1) g obtain p n u st1 en1 en2 where
    sw: "settle_window ops k 0 actual 0 0 rs en = (Inr (p, n), en1)"
    and em: "emit_thresholds ops ?gw p n [80, 95, 100] en1 = (Inr u, en2)"
    and st1: "st1 = (if n \<ge> limit_cents (gw_budget ?gw) then ''exhausted''
              else if st \<noteq> ''exhausted'' \<and> of_int n \<ge> pct_of (limit_cents (gw_budget ?gw)) (bud_degrade_pct (gw_budget ?gw))
              then ''degrading'' else st)"
    and rest: "settle_groups ops actual st1 gs en2 = (Inr st', en')"
    by (auto simp: bindE_eq_Inr Let_def)
  have rs: "rs \<noteq> []" "\<forall>r \<in> set rs. rs_key r = k" using Cons.prems(4) g by auto
  note w = settle_window_spec [OF sw rs Cons.prems(2)]
  from emit_thresholds_spec [OF em] w obtain F new where
    e: "inv (be_ledger en2)" "finite F" "F \<inter> lv_flags ?v = {}" "card F = length new"
      "be_events en2 = be_events en @ new"
      "view (be_ledger en2) = (spec_charge k actual (drops rs ?v))\<lparr>lv_flags := lv_flags ?v \<union> F\<rparr>"
    by (auto simp: spec_charge_def)
  from Cons.IH [OF rest e(1)] Cons.prems(3,4) g e obtain F' new' where
    r: "inv (be_ledger en')" "finite F'" "F' \<inter> (lv_flags ?v \<union> F) = {}" "card F' = length new'"
      "be_events en' = be_events en @ new @ new'"
      "lv_flags (view (be_ledger en')) = lv_flags ?v \<union> F \<union> F'"
      "lv_spent (view (be_ledger en')) =
        (\<lambda>k. lv_spent (view (be_ledger en2)) k + (if k \<in> fst ` set gs then actual else 0))"
      "lv_held (view (be_ledger en')) = lv_held (drops (concat (map snd gs)) (view (be_ledger en2)))"
      "st' = ''exhausted'' \<longleftrightarrow> st1 = ''exhausted'' \<or>
        (\<exists>(k, rs) \<in> set gs. lv_spent (view (be_ledger en2)) k + actual
                             \<ge> limit_cents (gw_budget (rs_governing (hd rs))))"
    by (auto simp: spec_charge_def)
  have k: "k \<notin> fst ` set gs" using Cons.prems(3) g by simp
  have sp2: "lv_spent (view (be_ledger en2)) j = lv_spent ?v j + (if j = k then actual else 0)" for j
    using e(6) by (simp add: spec_charge_def)
  have "\<exists>F new. finite F \<and> F \<inter> lv_flags ?v = {} \<and> card F = length new \<and>
      be_events en' = be_events en @ new \<and> lv_flags (view (be_ledger en')) = lv_flags ?v \<union> F"
    using r e(2-5) by (intro exI [of _ "F \<union> F'"] exI [of _ "new @ new'"])
      (auto simp: card_Un_disjoint Int_Un_distrib Int_commute)
  moreover have "lv_held (view (be_ledger en')) = lv_held (drops (concat (map snd (g # gs))) ?v)"
    using r(8) e(6) g by (auto simp: fun_eq_iff drops_held spec_charge_def)
  moreover have "lv_spent (view (be_ledger en')) =
     (\<lambda>j. lv_spent ?v j + (if j \<in> fst ` set (g # gs) then actual else 0))"
    using r(7) sp2 g k by (auto simp: fun_eq_iff)
  moreover have "st' = ''exhausted'' \<longleftrightarrow> st = ''exhausted'' \<or>
      (\<exists>(k, rs) \<in> set (g # gs). lv_spent ?v k + actual \<ge> limit_cents (gw_budget (rs_governing (hd rs))))"
  proof -
    have "st1 = ''exhausted'' \<longleftrightarrow> st = ''exhausted'' \<or> lv_spent ?v k + actual \<ge> limit_cents (gw_budget ?gw)"
      using st1 w by auto
    moreover have "lv_spent (view (be_ledger en2)) j = lv_spent ?v j" if "(j, xs) \<in> set gs" for j xs
      using sp2 k that by force
    ultimately show ?thesis using r(9) g by fastforce
  qed
  ultimately show ?case using r(1) by blast
qed

end

lemma group_windows_snoc:
  "group_windows (rs @ [r]) =
     AList.update (rs_key r)
       ((case map_of (group_windows rs) (rs_key r) of None \<Rightarrow> [] | Some xs \<Rightarrow> xs) @ [r]) (group_windows rs)"
  by (simp add: group_windows_def Let_def)

lemma group_windows_spec:
  "distinct (map fst (group_windows rs)) \<and>
   map_of (group_windows rs) k =
     (if k \<in> rs_key ` set rs then Some (filter (\<lambda>r. rs_key r = k) rs) else None)"
proof (induction rs arbitrary: k rule: rev_induct)
  case Nil
  then show ?case by (simp add: group_windows_def)
next
  case (snoc r rs)
  have "filter (\<lambda>x. rs_key x = j) rs = []" if "j \<notin> rs_key ` set rs" for j
    using that by (auto simp: filter_empty_conv)
  with snoc show ?case by (auto simp: group_windows_snoc distinct_update)
qed

lemma group_windows_members:
  assumes "(k, xs) \<in> set (group_windows rs)"
  shows "xs \<noteq> [] \<and> (\<forall>r \<in> set xs. rs_key r = k) \<and> set xs \<subseteq> set rs"
proof -
  have "map_of (group_windows rs) k = Some xs"
    using assms conjunct1 [OF group_windows_spec [of rs k]] by (rule map_of_is_SomeI [rotated])
  with group_windows_spec [of rs k] show ?thesis
    by (auto simp: filter_empty_conv split: if_splits)
qed

lemma group_windows_keys: "fst ` set (group_windows rs) = rs_key ` set rs"
proof -
  have "k \<in> fst ` set (group_windows rs) \<longleftrightarrow> k \<in> rs_key ` set rs" for k
    using conjunct2 [OF group_windows_spec [of rs k]] map_of_eq_None_iff [of "group_windows rs" k]
    by (metis option.distinct(1))
  then show ?thesis by blast
qed

lemma group_windows_concat: "set (concat (map snd (group_windows rs))) = set rs"
proof
  show "set (concat (map snd (group_windows rs))) \<subseteq> set rs"
    using group_windows_members by fastforce
  show "set rs \<subseteq> set (concat (map snd (group_windows rs)))"
  proof
    fix r assume r: "r \<in> set rs"
    then have "map_of (group_windows rs) (rs_key r) = Some (filter (\<lambda>x. rs_key x = rs_key r) rs)"
      using group_windows_spec [of rs "rs_key r"] by simp
    then have "(rs_key r, filter (\<lambda>x. rs_key x = rs_key r) rs) \<in> set (group_windows rs)"
      by (rule map_of_SomeD)
    with r show "r \<in> set (concat (map snd (group_windows rs)))" by force
  qed
qed

context ledger_contract
begin

lemma preflight_ok:
  assumes run: "preflight ops uuid7 ws est en = (Inr pf, en')" and inv: "inv (be_ledger en)"
    and keys: "distinct (map gw_ledger_key ws)"
    and fresh: "\<And>key i. lv_held (view (be_ledger en)) key (uuid7 i) = None"
  defines "v \<equiv> view (be_ledger en)" and "v' \<equiv> view (be_ledger en')"
  shows "map rs_governing (pf_reservations pf) = ws"
    and "gw \<in> set ws \<Longrightarrow> committed v' (gw_ledger_key gw) = committed v (gw_ledger_key gw) + est"
    and "gw \<in> set ws \<Longrightarrow> committed v' (gw_ledger_key gw) \<le> limit_cents (gw_budget gw)"
    and "key \<notin> gw_ledger_key ` set ws \<Longrightarrow> committed v' key = committed v key"
    and "lv_spent v' = lv_spent v" and "inv (be_ledger en')"
proof -
  from run obtain dg en1 where
    sc: "scan_windows ops ws None False en = (Inr (None, dg), en1)"
    and rw: "reserve_windows ops uuid7 0 est [] ws en1 = (Inr (pf_reservations pf), en')"
    by (rule preflight_Inr)
  note s1 = scan_windows_spec [OF sc inv]
  from reserve_windows_ok [OF rw _ keys] s1 obtain new where
    new: "pf_reservations pf = new" "map rs_governing new = ws"
      "map rs_id new = map uuid7 [0..<length ws]" "\<forall>r \<in> set new. rs_amount_cents r = est"
      "inv (be_ledger en')" "v' = holds new v"
      "\<forall>gw \<in> set ws. committed v (gw_ledger_key gw) + est \<le> limit_cents (gw_budget gw)"
    by (auto simp: v_def v'_def)
  have dk: "distinct (map rs_key new)"
    using keys unfolding new(2) [symmetric] by (simp add: comp_def)
  have kset: "rs_key ` set new = gw_ledger_key ` set ws" by (simp add: new(2) [symmetric] image_image)
  have upd: "committed v' (gw_ledger_key gw) = committed v (gw_ledger_key gw) + est"
    if "gw \<in> set ws" for gw
  proof -
    from that new(2) obtain r where r: "r \<in> set new" "rs_governing r = gw" by auto
    then obtain i where "rs_id r = uuid7 i" using new(3) by (metis in_set_conv_nth length_map nth_map)
    then have "lv_held v (rs_key r) (rs_id r) = None" using fresh by (simp add: v_def)
    then show ?thesis
      using r new(4,6) holds_member [OF dk r(1)] held_finite [OF inv]
      by (simp add: committed_def map_total_upd v_def)
  qed
  show "map rs_governing (pf_reservations pf) = ws" "lv_spent v' = lv_spent v" "inv (be_ledger en')"
    using new by simp_all
  show "gw \<in> set ws \<Longrightarrow> committed v' (gw_ledger_key gw) = committed v (gw_ledger_key gw) + est"
    by (rule upd)
  show "gw \<in> set ws \<Longrightarrow> committed v' (gw_ledger_key gw) \<le> limit_cents (gw_budget gw)"
    using upd new(7) by simp
  show "key \<notin> gw_ledger_key ` set ws \<Longrightarrow> committed v' key = committed v key"
    using new(6) kset by (simp add: committed_def holds_other_key)
qed

lemma preflight_rolls_back:
  assumes run: "preflight ops uuid7 ws est en = (Inl (BudgetExhausted a b c d), en')"
    and inv: "inv (be_ledger en)"
    and fresh: "\<And>key i. lv_held (view (be_ledger en)) key (uuid7 i) = None"
  shows "view (be_ledger en') = view (be_ledger en)" and "be_events en' = be_events en"
    and "inv (be_ledger en')" and "\<exists>gw \<in> set ws. exhausted_error gw = BudgetExhausted a b c d"
proof -
  from run obtain ex dg en1 where
    sc: "scan_windows ops ws None False en = (Inr (ex, dg), en1)"
    and alt: "(\<exists>gw. ex = Some gw \<and> exhausted_error gw = BudgetExhausted a b c d \<and> en' = en1) \<or>
      reserve_windows ops uuid7 0 est [] ws en1 = (Inl (BudgetExhausted a b c d), en')"
    by (rule preflight_exhausted)
  note s1 = scan_windows_spec [OF sc inv]
  have "view (be_ledger en') = view (be_ledger en) \<and> be_events en' = be_events en \<and>
    inv (be_ledger en') \<and> (\<exists>gw \<in> set ws. exhausted_error gw = BudgetExhausted a b c d)"
    using alt
  proof (elim disjE exE conjE)
    fix gw assume "ex = Some gw" "exhausted_error gw = BudgetExhausted a b c d" "en' = en1"
    moreover from this s1 have "gw \<in> set (filter (over (view (be_ledger en))) ws)"
      by (metis last_in_set option.distinct(1) option.inject)
    ultimately show ?thesis using s1 by auto
  next
    assume "reserve_windows ops uuid7 0 est [] ws en1 = (Inl (BudgetExhausted a b c d), en')"
    from reserve_windows_full [OF this] s1 obtain new gw where
      n: "gw \<in> set ws" "exhausted_error gw = BudgetExhausted a b c d"
        "set (map rs_id new) \<subseteq> uuid7 ` {0..}" "inv (be_ledger en')" "be_events en' = be_events en"
        "view (be_ledger en') = drops new (holds new (view (be_ledger en)))"
      by auto
    have "lv_held (view (be_ledger en)) (rs_key r) (rs_id r) = None" if "r \<in> set new" for r
    proof -
      have "rs_id r \<in> uuid7 ` {0..}" using that n(3) by auto
      then show ?thesis using fresh by auto
    qed
    from drops_holds [OF this] n show ?thesis by auto
  qed
  then show "view (be_ledger en') = view (be_ledger en)" "be_events en' = be_events en"
    "inv (be_ledger en')" "\<exists>gw \<in> set ws. exhausted_error gw = BudgetExhausted a b c d" by blast+
qed

lemma settle_spec:
  assumes run: "settle ops pf actual en = (Inr st, en')" and inv: "inv (be_ledger en)"
  defines "v \<equiv> view (be_ledger en)" and "v' \<equiv> view (be_ledger en')"
  shows "lv_spent v' key = lv_spent v key + (if key \<in> rs_key ` set (pf_reservations pf) then actual else 0)"
    and "lv_held v' key rid =
      (if \<exists>r \<in> set (pf_reservations pf). rs_key r = key \<and> rs_id r = rid then None else lv_held v key rid)"
    and "length (be_events en') = length (be_events en) + card (lv_flags v' - lv_flags v)"
    and "lv_flags v \<subseteq> lv_flags v'" and "inv (be_ledger en')"
proof -
  let ?gs = "group_windows (pf_reservations pf)"
  have g: "distinct (map fst ?gs)"
    "\<forall>(k, rs) \<in> set ?gs. rs \<noteq> [] \<and> (\<forall>r \<in> set rs. rs_key r = k)"
    using group_windows_spec group_windows_members by blast+
  from settle_groups_spec [OF run [unfolded settle_def] inv g] obtain F new where
    r: "inv (be_ledger en')" "finite F" "F \<inter> lv_flags v = {}" "card F = length new"
      "be_events en' = be_events en @ new" "lv_flags v' = lv_flags v \<union> F"
      "lv_spent v' = (\<lambda>k. lv_spent v k + (if k \<in> fst ` set ?gs then actual else 0))"
      "lv_held v' = lv_held (drops (concat (map snd ?gs)) v)"
    by (auto simp: v_def v'_def)
  have "lv_flags v' - lv_flags v = F" using r(3,6) by auto
  with r show "length (be_events en') = length (be_events en) + card (lv_flags v' - lv_flags v)"
    "lv_flags v \<subseteq> lv_flags v'" "inv (be_ledger en')" by auto
  show "lv_spent v' key = lv_spent v key + (if key \<in> rs_key ` set (pf_reservations pf) then actual else 0)"
    using r(7) group_windows_keys by simp
  show "lv_held v' key rid =
      (if \<exists>r \<in> set (pf_reservations pf). rs_key r = key \<and> rs_id r = rid then None else lv_held v key rid)"
    using r(8) group_windows_concat [of "pf_reservations pf"] by (auto simp: drops_held)
qed

end

context ledger_total
begin

lemma on_ledger_usage_total: "\<exists>p en'. on_ledger (lo_usage ops key) en = (Inr p, en')"
  using usage_total by (fastforce simp: on_ledger_Inr)

lemma scan_windows_total: "\<exists>r en'. scan_windows ops gws ex dg en = (Inr r, en')"
proof (induction gws arbitrary: ex dg en)
  case Nil
  then show ?case by simp
next
  case (Cons gw gws)
  from on_ledger_usage_total obtain sp re en1 where
    "on_ledger (lo_usage ops (gw_ledger_key gw)) en = (Inr (sp, re), en1)" by fastforce
  with Cons.IH show ?case by (simp add: bindE_Inr Let_def)
qed

lemma preflight_names_last_over:
  assumes "inv (be_ledger en)" and "filter (over (view (be_ledger en))) ws \<noteq> []"
  shows "fst (preflight ops uuid7 ws est en) =
    Inl (exhausted_error (last (filter (over (view (be_ledger en))) ws)))"
proof -
  obtain ex dg en1 where sc: "scan_windows ops ws None False en = (Inr (ex, dg), en1)"
    using scan_windows_total by fastforce
  with scan_windows_spec [OF sc assms(1)] assms(2)
  have "ex = Some (last (filter (over (view (be_ledger en))) ws))" by simp
  with sc show ?thesis
    by (simp add: preflight_def bindE_def catchE_def fail_closed_def exhausted_error_def)
qed

end

subsection \<open>Which windows govern a request\<close>

lemma scope_budgets_type:
  "b \<in> set (scope_budgets store tid ty rf) \<Longrightarrow> bud_scope_type b = ty \<and> bud_tenant_id b = tid \<and> bud_scope_ref b = rf"
  by (auto simp: scope_budgets_def for_scope_def)

lemma default_budgets_type:
  "b \<in> set (default_budgets st tid ty rf d m) \<Longrightarrow> bud_scope_type b = ty \<and> bud_tenant_id b = tid \<and> bud_scope_ref b = rf"
  by (auto simp: default_budgets_def)

lemma mk_window_budget [simp]: "gw_budget (mk_window ws wr now tz b) = b"
  by (simp add: mk_window_def Let_def)

lemma specificity_const:
  "bud_scope_type (gw_budget gw) = ''platform'' \<Longrightarrow> specificity gw = 0"
  "bud_scope_type (gw_budget gw) = ''tenant'' \<Longrightarrow> specificity gw = 1"
  by (simp_all add: specificity_def SPECIFICITY_def py_index_def)

lemma governing_windows_sorted:
  "sorted (map specificity (governing_windows wst wrs settings store now tid wid pid kid cls tz))"
proof (cases "cls = ''judge''")
  case True
  have "specificity gw = 0"
    if "gw \<in> set (governing_windows wst wrs settings store now tid wid pid kid cls tz)" for gw
    using that True scope_budgets_type default_budgets_type
    by (fastforce simp: governing_windows_def Let_def specificity_const(1) split: if_splits)
  then show ?thesis by (simp add: sorted_wrt_iff_nth_less)
next
  case False
  then show ?thesis by (simp add: governing_windows_def Let_def)
qed

lemma sorted_last_max: "sorted (map f ys) \<Longrightarrow> y \<in> set ys \<Longrightarrow> f y \<le> (f (last ys) :: nat)"
  by (induction ys) auto

lemma sorted_filter_last_max:
  assumes "sorted (map f xs)" and "x \<in> set (filter P xs)"
  shows "f x \<le> (f (last (filter P xs)) :: nat)"
proof (rule sorted_last_max)
  from assms(1) show "sorted (map f (filter P xs))" by (induction xs) auto
qed (rule assms(2))

subsection \<open>Properties of the budget engine\<close>

text \<open>
  C1. A successful \<open>preflight\<close> over the in-memory ledger holds one reservation of the
  estimate against every governing window, in the windows' order; afterwards spend plus
  reservations of each window has grown by exactly the estimate and stays within its hard
  limit, and no other ledger key is touched. The windows have distinct ledger keys (one budget
  per window) and the fresh UUIDs are not in use.
\<close>

theorem preflight_reserves_every_window:
  assumes "preflight (mem_ops now) uuid7 ws est en = (Inr pf, en')" and "mem_inv (be_ledger en)"
    and "distinct (map gw_ledger_key ws)"
    and "\<And>key i. lv_held (mem_view now (be_ledger en)) key (uuid7 i) = None"
  shows "map rs_governing (pf_reservations pf) = ws \<and>
    (\<forall>gw \<in> set ws.
       committed (mem_view now (be_ledger en')) (gw_ledger_key gw) =
         committed (mem_view now (be_ledger en)) (gw_ledger_key gw) + est \<and>
       committed (mem_view now (be_ledger en')) (gw_ledger_key gw) \<le> limit_cents (gw_budget gw)) \<and>
    (\<forall>key. key \<notin> gw_ledger_key ` set ws \<longrightarrow>
       committed (mem_view now (be_ledger en')) key = committed (mem_view now (be_ledger en)) key) \<and>
    mem_inv (be_ledger en')"
  using mem.preflight_ok [OF assms] by auto

text \<open>
  C2. A \<open>preflight\<close> refused with \<open>BudgetExhausted\<close> leaves nothing behind: the
  reservations it had already taken on earlier windows are given back, so spend, held
  reservations and flags are as before and no event was emitted; the error names one of the
  governing windows.
\<close>

theorem preflight_exhausted_rolls_back:
  assumes "preflight (mem_ops now) uuid7 ws est en = (Inl (BudgetExhausted a b c d), en')"
    and "mem_inv (be_ledger en)"
    and "\<And>key i. lv_held (mem_view now (be_ledger en)) key (uuid7 i) = None"
  shows "mem_view now (be_ledger en') = mem_view now (be_ledger en) \<and> be_events en' = be_events en \<and>
    mem_inv (be_ledger en') \<and> (\<exists>gw \<in> set ws. exhausted_error gw = BudgetExhausted a b c d)"
  using mem.preflight_rolls_back [OF assms] by blast

text \<open>
  When some governing window is already exhausted, \<open>preflight\<close> on the windows
  computed by \<open>governing_windows\<close> raises \<open>BudgetExhausted\<close> for an exhausted window
  of maximal specificity (platform, tenant, workspace, principal, virtual key in that order).
\<close>

theorem preflight_names_most_specific:
  assumes "ws = governing_windows wst wrs settings store now tid wid pid kid cls tz"
    and "mem_inv (be_ledger en)" and "\<exists>gw \<in> set ws. over (mem_view now (be_ledger en)) gw"
  shows "\<exists>gw \<in> set ws. over (mem_view now (be_ledger en)) gw \<and>
    (\<forall>gw' \<in> set ws. over (mem_view now (be_ledger en)) gw' \<longrightarrow> specificity gw' \<le> specificity gw) \<and>
    fst (preflight (mem_ops now) uuid7 ws est en) = Inl (exhausted_error gw)"
proof -
  let ?P = "over (mem_view now (be_ledger en))"
  have ne: "filter ?P ws \<noteq> []" using assms(3) by (simp add: filter_empty_conv)
  then have "last (filter ?P ws) \<in> set (filter ?P ws)" by (rule last_in_set)
  moreover have "specificity gw' \<le> specificity (last (filter ?P ws))" if "gw' \<in> set ws" "?P gw'" for gw'
    using sorted_filter_last_max [of specificity ws gw' ?P] governing_windows_sorted that
    unfolding assms(1) by simp
  moreover have "fst (preflight (mem_ops now) uuid7 ws est en) = Inl (exhausted_error (last (filter ?P ws)))"
    using assms(2) ne by (rule mem.preflight_names_last_over)
  ultimately show ?thesis by auto
qed

text \<open>
  C3. \<open>settle\<close> charges every governing window of the preflight exactly the actual cost,
  once, however many reservations the window has; it removes exactly those reservations; and
  the threshold events it emits are as many as the threshold flags it raises, so each threshold
  of a window is announced at most once.
\<close>

theorem settle_charges_once:
  assumes "settle (mem_ops now) pf actual en = (Inr st, en')" and "mem_inv (be_ledger en)"
  shows "(\<forall>key. lv_spent (mem_view now (be_ledger en')) key = lv_spent (mem_view now (be_ledger en)) key
        + (if key \<in> (\<lambda>r. gw_ledger_key (rs_governing r)) ` set (pf_reservations pf) then actual else 0)) \<and>
    (\<forall>key rid. lv_held (mem_view now (be_ledger en')) key rid =
       (if \<exists>r \<in> set (pf_reservations pf). gw_ledger_key (rs_governing r) = key \<and> rs_id r = rid then None
        else lv_held (mem_view now (be_ledger en)) key rid)) \<and>
    length (be_events en') = length (be_events en)
      + card (lv_flags (mem_view now (be_ledger en')) - lv_flags (mem_view now (be_ledger en))) \<and>
    lv_flags (mem_view now (be_ledger en)) \<subseteq> lv_flags (mem_view now (be_ledger en'))"
  using mem.settle_spec [OF assms] by blast

text \<open>
  C4. The gateway fails closed: if the ledger behind the engine cannot be reached (for the
  fallback ledger: neither of its two ledgers), a request with at least one governing window is
  refused with \<open>DependencyUnavailable\<close>; and whatever the ledger does, a raw
  \<open>LedgerUnavailable\<close> never leaves \<open>preflight\<close>.
\<close>

theorem preflight_fails_closed:
  assumes "unavailable P" and "unavailable F" and "ws \<noteq> []"
  shows "fst (preflight (fallback_ops P F) uuid7 ws est en) = Inl DependencyUnavailable \<and>
    (\<forall>ops f en0 en'. preflight ops uuid7 ws est en0 \<noteq> (Inl (LedgerFault f), en'))"
proof -
  from assms(3) obtain gw gws where ws: "ws = gw # gws" by (cases ws) auto
  let ?ops = "fallback_ops P F"
  have "fst (lo_usage ?ops (gw_ledger_key gw) (be_ledger en)) = Inl LedgerUnavailable"
    using fallback_both_down [OF assms(1,2)] by (simp add: unavailable_def)
  then obtain s where "lo_usage ?ops (gw_ledger_key gw) (be_ledger en) = (Inl LedgerUnavailable, s)"
    by (cases "lo_usage ?ops (gw_ledger_key gw) (be_ledger en)") auto
  then have "scan_windows ?ops ws None False en = (Inl (LedgerFault LedgerUnavailable), en\<lparr>be_ledger := s\<rparr>)"
    by (auto simp: ws bindE_eq_Inl on_ledger_Inl)
  then have "fst (preflight ?ops uuid7 ws est en) = Inl DependencyUnavailable"
    by (simp add: preflight_def bindE_def catchE_def fail_closed_def)
  moreover have "preflight ops uuid7 ws est en0 \<noteq> (Inl (LedgerFault f), en')" for ops :: "'z ledger_ops" and f en0 en'
    by (auto simp: preflight_def bindE_eq_Inl catchE_eq_Inl fail_closed_eq split: prod.splits)
  ultimately show ?thesis by blast
qed

text \<open>
  C5. Which budgets govern a request: windows come in order of specificity; every one of them
  belongs to the platform or to the calling tenant; a tenant is never unbudgeted (without an
  active budget of its own it gets the default one, as long as one default limit is positive);
  and a judge-class request draws on the platform's system budget only.
\<close>

theorem governing_windows_scopes:
  fixes settings :: budget_settings
  assumes "0 < bs_default_tenant_budget_daily_usd settings \<or> 0 < bs_default_tenant_budget_monthly_usd settings"
    and "W = governing_windows wst wrs settings store now tid wid pid kid cls tz"
  shows "sorted (map specificity W) \<and>
    (\<forall>gw \<in> set W. bud_tenant_id (gw_budget gw) \<in> {bs_platform_tenant_id settings, tid}) \<and>
    (if cls = ''judge''
     then \<forall>gw \<in> set W. bud_scope_type (gw_budget gw) = ''platform'' \<and>
            bud_scope_ref (gw_budget gw) = SYSTEM_SCOPE_REF
     else \<exists>gw \<in> set W. bud_scope_type (gw_budget gw) = ''tenant'' \<and> bud_scope_ref (gw_budget gw) = tid)"
proof -
  let ?tb = "if scope_budgets store tid ''tenant'' tid = []
             then default_budgets settings tid ''tenant'' tid (bs_default_tenant_budget_daily_usd settings)
                    (bs_default_tenant_budget_monthly_usd settings)
             else scope_budgets store tid ''tenant'' tid"
  have "?tb \<noteq> []" using assms(1) by (auto simp: default_budgets_def)
  then have "hd ?tb \<in> set ?tb" by (rule hd_in_set)
  then obtain b where b: "b \<in> set ?tb" ..
  then have b': "bud_scope_type b = ''tenant'' \<and> bud_scope_ref b = tid"
    by (auto dest: scope_budgets_type default_budgets_type split: if_splits)
  have "mk_window wst wrs now tz b \<in> set W" if "cls \<noteq> ''judge''"
    using b that unfolding assms(2) by (simp add: governing_windows_def Let_def)
  then have tenant: "cls \<noteq> ''judge'' \<Longrightarrow>
    \<exists>gw \<in> set W. bud_scope_type (gw_budget gw) = ''tenant'' \<and> bud_scope_ref (gw_budget gw) = tid"
    using b' by force
  have own: "bud_tenant_id (gw_budget gw) \<in> {bs_platform_tenant_id settings, tid}" if "gw \<in> set W" for gw
    using that unfolding assms(2)
    by (auto simp: governing_windows_def Let_def split: if_splits option.splits
        dest: scope_budgets_type default_budgets_type)
  have judge: "bud_scope_type (gw_budget gw) = ''platform'' \<and> bud_scope_ref (gw_budget gw) = SYSTEM_SCOPE_REF"
    if "cls = ''judge''" "gw \<in> set W" for gw
    using that unfolding assms(2)
    by (auto simp: governing_windows_def Let_def split: if_splits
        dest: scope_budgets_type default_budgets_type)
  show ?thesis using tenant own judge governing_windows_sorted assms(2) by auto
qed

subsection \<open>A worked instance\<close>

text \<open>
  A tenant with a one-dollar daily budget and a workspace with a 40-cent one, as the witnesses
  of the properties above see them.
\<close>

definition demo_budget :: "string \<Rightarrow> string \<Rightarrow> string \<Rightarrow> rat \<Rightarrow> budget" where
  "demo_budget i ty rf usd =
     \<lparr>bud_id = i, bud_tenant_id = ''t1'', bud_scope_type = ty, bud_scope_ref = rf,
      bud_window = ''daily'', bud_limit_usd = usd, bud_degrade_pct = 95, bud_status = ''active'',
      bud_deleted_at = None\<rparr>"

definition demo_settings :: budget_settings where
  "demo_settings = \<lparr>bs_platform_tenant_id = ''p'', bs_default_tenant_budget_daily_usd = 150,
     bs_default_tenant_budget_monthly_usd = 2000, bs_system_budget_daily_usd = 1000,
     bs_system_budget_monthly_usd = 20000, bs_default_degrade_pct = 95\<rparr>"

definition demo_windows :: "governing_window list" where
  "demo_windows = governing_windows (\<lambda>_ _ _. ''2026-01-01'') (\<lambda>_ _ _. 0) demo_settings
     [demo_budget ''b2'' ''workspace'' ''w1'' (2/5), demo_budget ''b1'' ''tenant'' ''t1'' 1]
     0 ''t1'' (Some ''w1'') ''u1'' ''k1'' ''chat'' ''UTC''"

definition demo_uuid :: "nat \<Rightarrow> string" where
  "demo_uuid n = replicate (Suc n) (CHR ''r'')"

definition demo_engine :: "mem_ledger budget_engine" where
  "demo_engine = \<lparr>be_ledger = mem_init, be_events = []\<rparr>"

lemma demo_fresh: "lv_held (mem_view 0 (be_ledger demo_engine)) key (demo_uuid i) = None"
  by (simp add: demo_engine_def mem_view_def mem_init_def held_of_def live_def)

lemma demo_inv: "mem_inv (be_ledger demo_engine)"
  by (simp add: demo_engine_def mem_inv_init)

lemma demo_keys: "distinct (map gw_ledger_key demo_windows)"
  by code_simp

theorem preflight_reserves_every_window_witness:
  "\<exists>pf en'. preflight (mem_ops 0) demo_uuid demo_windows 30 demo_engine = (Inr pf, en') \<and>
     map rs_governing (pf_reservations pf) = demo_windows \<and>
     (\<forall>gw \<in> set demo_windows.
        committed (mem_view 0 (be_ledger en')) (gw_ledger_key gw) \<le> limit_cents (gw_budget gw))"
proof -
  have "\<not> isl (fst (preflight (mem_ops 0) demo_uuid demo_windows 30 demo_engine))" by code_simp
  then obtain pf en' where
    "preflight (mem_ops 0) demo_uuid demo_windows 30 demo_engine = (Inr pf, en')"
    using run_returns by blast
  with preflight_reserves_every_window [OF this demo_inv demo_keys demo_fresh] show ?thesis by blast
qed

text \<open>At 50 cents the tenant window has room and the workspace window has not.\<close>

theorem preflight_exhausted_rolls_back_witness:
  "\<exists>en'. preflight (mem_ops 0) demo_uuid demo_windows 50 demo_engine
            = (Inl (BudgetExhausted ''workspace'' ''w1'' ''daily'' 0), en') \<and>
     mem_view 0 (be_ledger en') = mem_view 0 (be_ledger demo_engine)"
proof -
  have "fst (preflight (mem_ops 0) demo_uuid demo_windows 50 demo_engine)
      = Inl (BudgetExhausted ''workspace'' ''w1'' ''daily'' 0)" by code_simp
  then obtain en' where "preflight (mem_ops 0) demo_uuid demo_windows 50 demo_engine
      = (Inl (BudgetExhausted ''workspace'' ''w1'' ''daily'' 0), en')" by (metis prod.collapse)
  with preflight_exhausted_rolls_back [OF this demo_inv demo_fresh] show ?thesis by blast
qed

definition demo_spent_engine :: "mem_ledger budget_engine" where
  "demo_spent_engine = \<lparr>be_ledger = mem_init\<lparr>ml_spent :=
     [(''bud:b1:2026-01-01'', 100), (''bud:b2:2026-01-01'', 40)]\<rparr>, be_events = []\<rparr>"

theorem preflight_names_most_specific_witness:
  "\<exists>gw \<in> set demo_windows. fst (preflight (mem_ops 0) demo_uuid demo_windows 1 demo_spent_engine)
     = Inl (exhausted_error gw)"
proof -
  have inv: "mem_inv (be_ledger demo_spent_engine)"
    by (simp add: demo_spent_engine_def mem_inv_def mem_init_def held_of_def RESERVATION_TTL_SECONDS_def)
  have "list_ex (\<lambda>gw. spent_of (be_ledger demo_spent_engine) (gw_ledger_key gw) \<ge> limit_cents (gw_budget gw))
      demo_windows" by code_simp
  then have "\<exists>gw \<in> set demo_windows. over (mem_view 0 (be_ledger demo_spent_engine)) gw"
    by (auto simp: over_def mem_view_def list_ex_iff)
  from preflight_names_most_specific [OF demo_windows_def inv this] show ?thesis by blast
qed

theorem settle_charges_once_witness:
  "\<exists>pf en st en'. preflight (mem_ops 0) demo_uuid demo_windows 30 demo_engine = (Inr pf, en) \<and>
     settle (mem_ops 0) pf 39 en = (Inr st, en') \<and>
     lv_spent (mem_view 0 (be_ledger en')) ''bud:b2:2026-01-01''
       = lv_spent (mem_view 0 (be_ledger en)) ''bud:b2:2026-01-01'' + 39"
proof -
  let ?run = "preflight (mem_ops 0) demo_uuid demo_windows 30 demo_engine"
  have a: "\<not> isl (fst ?run)" by code_simp
  have b: "\<not> isl (fst (settle (mem_ops 0) (projr (fst ?run)) 39 (snd ?run)))" by code_simp
  have c: "''bud:b2:2026-01-01'' \<in> set (map rs_key (pf_reservations (projr (fst ?run))))" by code_simp
  from a obtain pf en where run: "?run = (Inr pf, en)" using run_returns by blast
  with b obtain st en' where st: "settle (mem_ops 0) pf 39 en = (Inr st, en')"
    using run_returns [of "settle (mem_ops 0) pf 39 en"] by auto
  from c run have "''bud:b2:2026-01-01'' \<in> rs_key ` set (pf_reservations pf)" by simp
  note r = run st this
  have "mem_inv (be_ledger en)"
    by (rule mem.preflight_ok(6) [OF r(1) demo_inv demo_keys demo_fresh])
  from settle_charges_once [OF r(2) this] r(3)
  have "lv_spent (mem_view 0 (be_ledger en')) ''bud:b2:2026-01-01''
       = lv_spent (mem_view 0 (be_ledger en)) ''bud:b2:2026-01-01'' + 39" by simp
  with r(1,2) show ?thesis by blast
qed

theorem preflight_fails_closed_witness:
  "fst (preflight (fallback_ops (down_ops :: mem_ledger ledger_ops) (down_ops :: mem_ledger ledger_ops))
     demo_uuid demo_windows 1
     \<lparr>be_ledger = \<lparr>fl_primary = mem_init, fl_fallback = mem_init, fl_alerts = 0\<rparr>, be_events = []\<rparr>)
   = Inl DependencyUnavailable"
proof -
  have "demo_windows \<noteq> []" by code_simp
  from preflight_fails_closed [OF unavailable_down unavailable_down this] show ?thesis by blast
qed

theorem governing_windows_scopes_witness:
  "\<exists>gw \<in> set demo_windows. bud_scope_type (gw_budget gw) = ''tenant'' \<and> bud_scope_ref (gw_budget gw) = ''t1''"
proof -
  have "0 < bs_default_tenant_budget_daily_usd demo_settings \<or> 0 < bs_default_tenant_budget_monthly_usd demo_settings"
    by (simp add: demo_settings_def)
  from governing_windows_scopes [OF this demo_windows_def] show ?thesis by simp
qed

end
