(* ===== verification/Routing.thy ===== *)
theory Routing
  imports Prelude
begin

text \<open>
  Provider routing of the AI gateway (\<open>ai-gateway/app/domain/routing.py\<close>): the
  per-deployment circuit breaker, the probe-driven health registry, same-cloud-first candidate
  selection and the failover plan. The breaker and the registry are dictionaries from
  deployment id to state; the clock reading is an argument of each call. Error rates are exact
  rationals.
\<close>

subsection \<open>Entities\<close>

record provider_deployment =
  dep_id :: string
  dep_provider :: string
  dep_model_family :: string
  dep_cloud :: string
  dep_priority :: int
  dep_deployment_name :: string
  dep_status :: string
  dep_deleted_at :: "instant option"

record routing_settings =
  rt_breaker_consecutive_failures :: nat
  rt_breaker_error_rate_threshold :: rat
  rt_breaker_window_seconds :: int
  rt_breaker_halfopen_after_seconds :: int
  rt_probe_failure_threshold :: nat

subsection \<open>Circuit breaker\<close>

record breaker_state =
  br_consecutive_failures :: nat
  br_opened_at :: "instant option"
  br_results :: "(instant \<times> bool) list"

definition new_breaker_state :: breaker_state where
  "new_breaker_state = \<lparr>br_consecutive_failures = 0, br_opened_at = None, br_results = []\<rparr>"

type_synonym circuit_breaker = "(string, breaker_state) dict"

text \<open>\<open>deque(maxlen=n)\<close>: appending to a full deque drops from the left.\<close>

definition deque_append :: "nat \<Rightarrow> 'a list \<Rightarrow> 'a \<Rightarrow> 'a list" where
  "deque_append maxlen xs x = drop (Suc (length xs) - maxlen) (xs @ [x])"

definition breaker_state_of :: "circuit_breaker \<Rightarrow> string \<Rightarrow> breaker_state" where
  "breaker_state_of cb d = (case map_of cb d of None \<Rightarrow> new_breaker_state | Some st \<Rightarrow> st)"

definition error_rate :: "bool list \<Rightarrow> rat" where
  "error_rate window =
     (if window = [] then 0
      else of_nat (length (filter (\<lambda>ok. \<not> ok) window)) / of_nat (length window))"

definition record_state :: "routing_settings \<Rightarrow> instant \<Rightarrow> bool \<Rightarrow> breaker_state \<Rightarrow> breaker_state" where
  "record_state settings now ok st0 =
     (let st = st0\<lparr>br_results := deque_append 200 (br_results st0) (now, ok)\<rparr>
      in if ok then st\<lparr>br_consecutive_failures := 0, br_opened_at := None\<rparr>
         else
           let st = st\<lparr>br_consecutive_failures := Suc (br_consecutive_failures st)\<rparr>;
               window = map snd (filter (\<lambda>(t, r). now - t \<le> seconds (rt_breaker_window_seconds settings))
                                   (br_results st))
           in if br_consecutive_failures st \<ge> rt_breaker_consecutive_failures settings
                 \<or> (length window \<ge> 4 \<and> error_rate window > rt_breaker_error_rate_threshold settings)
              then st\<lparr>br_opened_at := Some now\<rparr> else st)"

definition breaker_record ::
  "routing_settings \<Rightarrow> instant \<Rightarrow> string \<Rightarrow> bool \<Rightarrow> circuit_breaker \<Rightarrow> circuit_breaker" where
  "breaker_record settings now d ok cb =
     AList.update d (record_state settings now ok (breaker_state_of cb d)) cb"

definition breaker_allows :: "routing_settings \<Rightarrow> instant \<Rightarrow> circuit_breaker \<Rightarrow> string \<Rightarrow> bool" where
  "breaker_allows settings now cb d =
     (case map_of cb d of
        None \<Rightarrow> True
      | Some st \<Rightarrow>
          (case br_opened_at st of
             None \<Rightarrow> True
           | Some t \<Rightarrow> now - t \<ge> seconds (rt_breaker_halfopen_after_seconds settings)))"

definition breaker_phase :: "routing_settings \<Rightarrow> instant \<Rightarrow> circuit_breaker \<Rightarrow> string \<Rightarrow> string" where
  "breaker_phase settings now cb d =
     (case map_of cb d of
        None \<Rightarrow> ''closed''
      | Some st \<Rightarrow>
          (case br_opened_at st of
             None \<Rightarrow> ''closed''
           | Some t \<Rightarrow>
               if now - t \<ge> seconds (rt_breaker_halfopen_after_seconds settings) then ''half_open''
               else ''open''))"

subsection \<open>Health registry\<close>

type_synonym health_registry = "(string, nat) dict"

definition record_probe :: "string \<Rightarrow> bool \<Rightarrow> health_registry \<Rightarrow> health_registry" where
  "record_probe d ok h =
     (if ok then AList.delete d h
      else AList.update d (Suc (case map_of h d of None \<Rightarrow> 0 | Some n \<Rightarrow> n)) h)"

definition healthy :: "routing_settings \<Rightarrow> health_registry \<Rightarrow> string \<Rightarrow> bool" where
  "healthy settings h d \<longleftrightarrow>
     (case map_of h d of None \<Rightarrow> 0 | Some n \<Rightarrow> n) < rt_probe_failure_threshold settings"

subsection \<open>Router\<close>

record candidates_result =
  ca_deployments :: "provider_deployment list"
  ca_cross_cloud :: bool
  ca_evaluation_order :: "string list"

definition routable ::
  "routing_settings \<Rightarrow> instant \<Rightarrow> circuit_breaker \<Rightarrow> health_registry \<Rightarrow> string \<Rightarrow> provider_deployment \<Rightarrow> bool" where
  "routable settings now cb h model_alias d \<longleftrightarrow>
     dep_model_family d = model_alias \<and> dep_status d = ''active'' \<and> dep_deleted_at d = None \<and>
     healthy settings h (dep_id d) \<and> breaker_allows settings now cb (dep_id d)"

definition candidates ::
  "routing_settings \<Rightarrow> instant \<Rightarrow> circuit_breaker \<Rightarrow> health_registry \<Rightarrow>
   provider_deployment list \<Rightarrow> string \<Rightarrow> string option \<Rightarrow> candidates_result" where
  "candidates settings now cb h deployments model_alias cell_cloud =
     (let pool = sort_key dep_priority (filter (routable settings now cb h model_alias) deployments);
          same = filter (\<lambda>d. case cell_cloud of None \<Rightarrow> False
                             | Some c \<Rightarrow> c \<noteq> [] \<and> dep_cloud d = c) pool
      in if same \<noteq> [] then
           \<lparr>ca_deployments = same, ca_cross_cloud = False, ca_evaluation_order = map dep_id pool\<rparr>
         else
           \<lparr>ca_deployments = pool, ca_cross_cloud = (pool \<noteq> [] \<and> cell_cloud \<noteq> None),
            ca_evaluation_order = map dep_id pool\<rparr>)"

subsection \<open>Failover plan\<close>

fun plan_loop ::
  "nat \<Rightarrow> nat \<Rightarrow> string list \<Rightarrow> provider_deployment list \<Rightarrow> provider_deployment list \<Rightarrow>
   provider_deployment list" where
  "plan_loop max_attempts max_providers providers sequence [] = sequence"
| "plan_loop max_attempts max_providers providers sequence (d # ds) =
     (if dep_provider d \<notin> set providers \<and> length providers \<ge> max_providers then
        plan_loop max_attempts max_providers providers sequence ds
      else
        let providers = (if dep_provider d \<notin> set providers then providers @ [dep_provider d] else providers);
            sequence = sequence @ [d] @ [d]
        in if length sequence \<ge> max_attempts then sequence
           else plan_loop max_attempts max_providers providers sequence ds)"

definition attempt_plan :: "provider_deployment list \<Rightarrow> nat \<Rightarrow> nat \<Rightarrow> provider_deployment list" where
  "attempt_plan cands max_attempts max_providers =
     take max_attempts (plan_loop max_attempts max_providers [] [] cands)"

subsection \<open>The breaker over a history of calls\<close>

text \<open>A history lists the outcomes recorded for one deployment, oldest first.\<close>

fun run_history ::
  "routing_settings \<Rightarrow> breaker_state \<Rightarrow> (instant \<times> bool) list \<Rightarrow> breaker_state" where
  "run_history settings st [] = st"
| "run_history settings st ((now, ok) # es) = run_history settings (record_state settings now ok st) es"

definition trailing_failures :: "(instant \<times> bool) list \<Rightarrow> nat" where
  "trailing_failures es = length (takeWhile (\<lambda>(t, ok). \<not> ok) (rev es))"

lemma run_history_snoc:
  "run_history settings st (es @ [(now, ok)]) = record_state settings now ok (run_history settings st es)"
  by (induction settings st es rule: run_history.induct) auto

lemma record_state_failures:
  "br_consecutive_failures (record_state settings now ok st) =
     (if ok then 0 else Suc (br_consecutive_failures st))"
  by (simp add: record_state_def Let_def)

lemma run_history_failures:
  "br_consecutive_failures (run_history settings new_breaker_state es) = trailing_failures es"
proof (induction es rule: rev_induct)
  case Nil
  then show ?case by (simp add: new_breaker_state_def trailing_failures_def)
next
  case (snoc e es)
  then show ?case
    by (cases e) (simp add: run_history_snoc record_state_failures trailing_failures_def)
qed

lemma record_state_results:
  "br_results (record_state settings now ok st) = deque_append 200 (br_results st) (now, ok)"
  by (simp add: record_state_def Let_def)

lemma deque_append_suffix:
  "xs = drop (length es - n) es \<Longrightarrow> deque_append n xs x = drop (length (es @ [x]) - n) (es @ [x])"
  by (cases "length es \<le> n") (auto simp: deque_append_def Suc_diff_le)

lemma run_history_results:
  "br_results (run_history settings new_breaker_state es) = drop (length es - 200) es"
proof (induction es rule: rev_induct)
  case Nil
  then show ?case by (simp add: new_breaker_state_def)
next
  case (snoc e es)
  then show ?case
    by (cases e) (simp add: run_history_snoc record_state_results deque_append_suffix)
qed

text \<open>The results the breaker judges the error rate on: the last 200, within the window.\<close>

definition recent :: "routing_settings \<Rightarrow> instant \<Rightarrow> (instant \<times> bool) list \<Rightarrow> bool list" where
  "recent settings now es =
     map snd (filter (\<lambda>(t, r). now - t \<le> seconds (rt_breaker_window_seconds settings))
                (drop (length es - 200) es))"

definition trips :: "routing_settings \<Rightarrow> instant \<Rightarrow> (instant \<times> bool) list \<Rightarrow> bool" where
  "trips settings now es \<longleftrightarrow>
     trailing_failures es \<ge> rt_breaker_consecutive_failures settings \<or>
     (length (recent settings now es) \<ge> 4 \<and>
      error_rate (recent settings now es) > rt_breaker_error_rate_threshold settings)"

lemma run_history_opened:
  "br_opened_at (run_history settings new_breaker_state (es @ [(now, ok)])) =
     (if ok then None
      else if trips settings now (es @ [(now, False)]) then Some now
      else br_opened_at (run_history settings new_breaker_state es))"
proof (cases ok)
  case True
  then show ?thesis by (simp add: run_history_snoc record_state_def Let_def)
next
  case False
  let ?st = "run_history settings new_breaker_state es"
  have "br_results (record_state settings now False ?st) = drop (length (es @ [(now, False)]) - 200) (es @ [(now, False)])"
    using run_history_results [of settings "es @ [(now, False)]"] by (simp add: run_history_snoc)
  then have "deque_append 200 (br_results ?st) (now, False) =
      drop (length (es @ [(now, False)]) - 200) (es @ [(now, False)])"
    by (simp add: record_state_results)
  moreover have "Suc (br_consecutive_failures ?st) = trailing_failures (es @ [(now, False)])"
    by (simp add: run_history_failures trailing_failures_def)
  ultimately show ?thesis
    using False by (simp add: run_history_snoc record_state_def trips_def recent_def Let_def)
qed

lemma opened_after_failure:
  "br_opened_at (run_history settings new_breaker_state es) = Some t \<Longrightarrow> 0 < trailing_failures es"
proof (induction es rule: rev_induct)
  case Nil
  then show ?case by (simp add: new_breaker_state_def)
next
  case (snoc e es)
  then show ?case
    by (cases e) (auto simp: run_history_opened trailing_failures_def split: if_splits)
qed

text \<open>The breaker over an interleaved history of several deployments.\<close>

fun breaker_run ::
  "routing_settings \<Rightarrow> circuit_breaker \<Rightarrow> (instant \<times> string \<times> bool) list \<Rightarrow> circuit_breaker" where
  "breaker_run settings cb [] = cb"
| "breaker_run settings cb ((now, d, ok) # es) = breaker_run settings (breaker_record settings now d ok cb) es"

definition outcomes :: "string \<Rightarrow> (instant \<times> string \<times> bool) list \<Rightarrow> (instant \<times> bool) list" where
  "outcomes d es = map (\<lambda>(now, _, ok). (now, ok)) (filter (\<lambda>(_, d', _). d' = d) es)"

lemma breaker_run_state:
  "breaker_state_of (breaker_run settings cb es) d = run_history settings (breaker_state_of cb d) (outcomes d es)"
  by (induction settings cb es rule: breaker_run.induct)
     (auto simp: outcomes_def breaker_record_def breaker_state_of_def)

lemma breaker_run_known: "map_of (breaker_run settings cb es) d = None \<longleftrightarrow> map_of cb d = None \<and> outcomes d es = []"
  by (induction settings cb es rule: breaker_run.induct) (auto simp: outcomes_def breaker_record_def)

lemma breaker_run_outcomes:
  "map_of (breaker_run settings [] es) d =
     (if outcomes d es = [] then None else Some (run_history settings new_breaker_state (outcomes d es)))"
  using breaker_run_state [of settings "[]" es d] breaker_run_known [of settings "[]" es d]
  by (auto simp: breaker_state_of_def split: option.splits)

subsection \<open>Lemmas about the plan\<close>

lemma plan_loop_prefix: "\<exists>zs. plan_loop m p ps sq ds = sq @ zs \<and> set zs \<subseteq> set ds"
proof (induction ds arbitrary: ps sq)
  case Nil
  then show ?case by simp
next
  case (Cons d ds)
  let ?ps = "if dep_provider d \<notin> set ps then ps @ [dep_provider d] else ps"
  show ?case
  proof (cases "dep_provider d \<notin> set ps \<and> length ps \<ge> p")
    case True
    with Cons [of ps sq] show ?thesis by auto
  next
    case False
    from Cons [of ?ps "sq @ [d, d]"] obtain zs where
      "plan_loop m p ?ps (sq @ [d, d]) ds = (sq @ [d, d]) @ zs" "set zs \<subseteq> set ds" by blast
    with False show ?thesis
      by (cases "length (sq @ [d, d]) \<ge> m") (auto simp: Let_def)
  qed
qed

lemma plan_loop_providers:
  "dep_provider ` set sq \<subseteq> set ps \<Longrightarrow> distinct ps \<Longrightarrow> length ps \<le> p \<Longrightarrow>
   card (dep_provider ` set (plan_loop m p ps sq ds)) \<le> p"
proof (induction ds arbitrary: ps sq)
  case Nil
  have "card (dep_provider ` set sq) \<le> card (set ps)"
    using Nil by (intro card_mono) auto
  with Nil show ?case by (simp add: distinct_card)
next
  case (Cons d ds)
  let ?ps = "if dep_provider d \<notin> set ps then ps @ [dep_provider d] else ps"
  let ?sq = "sq @ [d, d]"
  show ?case
  proof (cases "dep_provider d \<notin> set ps \<and> length ps \<ge> p")
    case True
    with Cons show ?thesis by simp
  next
    case False
    have ps: "dep_provider ` set ?sq \<subseteq> set ?ps" "distinct ?ps" "length ?ps \<le> p"
      using Cons.prems False by auto
    have "card (dep_provider ` set ?sq) \<le> card (set ?ps)"
      using ps(1) by (intro card_mono) auto
    also have "\<dots> \<le> p" using ps(2,3) by (simp only: distinct_card)
    finally have "card (dep_provider ` set ?sq) \<le> p" .
    with Cons.IH [OF ps] False show ?thesis by (auto simp: Let_def)
  qed
qed

text \<open>Attempts come in pairs: every deployment is tried and then retried once.\<close>

definition paired :: "'a list \<Rightarrow> bool" where
  "paired xs \<longleftrightarrow> even (length xs) \<and> (\<forall>i. 2 * i + 1 < length xs \<longrightarrow> xs ! (2 * i) = xs ! (2 * i + 1))"

lemma paired_snoc: "paired xs \<Longrightarrow> paired (xs @ [x, x])"
  unfolding paired_def
proof (intro conjI allI impI)
  fix i
  assume xs: "even (length xs) \<and> (\<forall>i. 2 * i + 1 < length xs \<longrightarrow> xs ! (2 * i) = xs ! (2 * i + 1))"
    and i: "2 * i + 1 < length (xs @ [x, x])"
  show "(xs @ [x, x]) ! (2 * i) = (xs @ [x, x]) ! (2 * i + 1)"
  proof (cases "2 * i + 1 < length xs")
    case True
    with xs show ?thesis by (simp add: nth_append)
  next
    case False
    with i xs have "length xs = 2 * i" by (auto elim: evenE)
    then show ?thesis by (simp add: nth_append)
  qed
qed simp

lemma plan_loop_paired: "paired sq \<Longrightarrow> paired (plan_loop m p ps sq ds)"
  by (induction ds arbitrary: ps sq) (simp_all add: Let_def paired_snoc)

lemma plan_loop_first:
  assumes "0 < p"
  shows "\<exists>zs. plan_loop m p [] [] (d # ds) = d # d # zs"
proof -
  let ?r = "plan_loop m p [dep_provider d] [d, d] ds"
  obtain zs where "?r = [d, d] @ zs" using plan_loop_prefix by blast
  then show ?thesis using assms by (auto simp: Let_def)
qed

subsection \<open>Properties of routing\<close>

definition demo_dep :: "string \<Rightarrow> string \<Rightarrow> string \<Rightarrow> int \<Rightarrow> provider_deployment" where
  "demo_dep i p c n = \<lparr>dep_id = i, dep_provider = p, dep_model_family = ''m'', dep_cloud = c,
     dep_priority = n, dep_deployment_name = ''d'', dep_status = ''active'', dep_deleted_at = None\<rparr>"

definition demo_rt :: routing_settings where
  "demo_rt = \<lparr>rt_breaker_consecutive_failures = 2, rt_breaker_error_rate_threshold = 1/2,
     rt_breaker_window_seconds = 60, rt_breaker_halfopen_after_seconds = 30, rt_probe_failure_threshold = 3\<rparr>"

text \<open>
  C12. The failover plan: at most \<open>max_attempts\<close> attempts over at most \<open>max_providers\<close>
  providers, all of them candidates; every deployment is retried once before the plan moves on
  (attempts 2i and 2i+1 go to the same deployment); and as long as there is a candidate and
  something may be tried, the most preferred candidate is tried first.
\<close>

theorem attempt_plan_bounds:
  fixes cands :: "provider_deployment list"
  assumes "plan = attempt_plan cands max_attempts max_providers"
  shows "length plan \<le> max_attempts \<and> card (dep_provider ` set plan) \<le> max_providers \<and>
    set plan \<subseteq> set cands \<and>
    (\<forall>i. 2 * i + 1 < length plan \<longrightarrow> plan ! (2 * i) = plan ! (2 * i + 1)) \<and>
    (cands \<noteq> [] \<and> 0 < max_attempts \<and> 0 < max_providers \<longrightarrow> plan \<noteq> [] \<and> hd plan = hd cands)"
proof -
  let ?r = "plan_loop max_attempts max_providers [] [] cands"
  have sub: "set plan \<subseteq> set ?r" by (simp add: assms attempt_plan_def set_take_subset)
  obtain zs where zs: "?r = [] @ zs" "set zs \<subseteq> set cands" using plan_loop_prefix by blast
  have "card (dep_provider ` set plan) \<le> card (dep_provider ` set ?r)"
    using sub by (intro card_mono) auto
  also have "\<dots> \<le> max_providers" by (rule plan_loop_providers) auto
  finally have prov: "card (dep_provider ` set plan) \<le> max_providers" .
  have "paired ?r" by (rule plan_loop_paired) (simp add: paired_def)
  then have pairs: "\<forall>i. 2 * i + 1 < length plan \<longrightarrow> plan ! (2 * i) = plan ! (2 * i + 1)"
    by (simp add: assms attempt_plan_def paired_def)
  have first: "plan \<noteq> [] \<and> hd plan = hd cands"
    if "cands \<noteq> [] \<and> 0 < max_attempts \<and> 0 < max_providers"
  proof -
    from that obtain d ds where c: "cands = d # ds" by (cases cands) auto
    from plan_loop_first [of max_providers max_attempts d ds] that c obtain zs where
      "?r = d # d # zs" by auto
    with that c show ?thesis by (cases max_attempts) (auto simp: assms attempt_plan_def)
  qed
  show ?thesis using sub zs prov pairs first by (auto simp: assms attempt_plan_def)
qed

theorem attempt_plan_bounds_witness:
  "let cands = [demo_dep ''d1'' ''bedrock'' ''aws'' 1, demo_dep ''d2'' ''vertex'' ''gcp'' 2,
                demo_dep ''d3'' ''ollama'' ''aws'' 3];
       plan = attempt_plan cands 3 2
   in length plan \<le> 3 \<and> card (dep_provider ` set plan) \<le> 2 \<and> plan \<noteq> [] \<and> hd plan = hd cands"
  using attempt_plan_bounds [OF refl, of "[demo_dep ''d1'' ''bedrock'' ''aws'' 1,
    demo_dep ''d2'' ''vertex'' ''gcp'' 2, demo_dep ''d3'' ''ollama'' ''aws'' 3]" 3 2]
  by (simp add: Let_def)

text \<open>
  Candidate selection. Every candidate serves the requested alias, is active, not deleted,
  healthy and let through by its breaker; candidates come in order of priority; a cell never
  gets a deployment of another cloud while one of its own cloud is routable; and nothing
  routable is left out except for that reason.
\<close>

theorem candidates_affinity:
  assumes "r = candidates settings now cb h deployments model_alias cell_cloud"
  shows "sorted (map dep_priority (ca_deployments r)) \<and>
    (\<forall>d \<in> set (ca_deployments r). d \<in> set deployments \<and> routable settings now cb h model_alias d) \<and>
    (\<forall>c d. cell_cloud = Some c \<and> c \<noteq> [] \<and> d \<in> set deployments \<and>
       routable settings now cb h model_alias d \<and> dep_cloud d = c \<longrightarrow>
       d \<in> set (ca_deployments r) \<and> (\<forall>e \<in> set (ca_deployments r). dep_cloud e = c) \<and> \<not> ca_cross_cloud r) \<and>
    (\<forall>d \<in> set deployments. routable settings now cb h model_alias d \<longrightarrow>
       d \<in> set (ca_deployments r) \<or> (\<exists>e \<in> set (ca_deployments r). cell_cloud = Some (dep_cloud e)))"
proof -
  let ?pool = "sort_key dep_priority (filter (routable settings now cb h model_alias) deployments)"
  let ?P = "\<lambda>d. case cell_cloud of None \<Rightarrow> False | Some c \<Rightarrow> c \<noteq> [] \<and> dep_cloud d = c"
  have deps: "ca_deployments r = (if filter ?P ?pool \<noteq> [] then filter ?P ?pool else ?pool)"
    and cross: "ca_cross_cloud r = (filter ?P ?pool = [] \<and> ?pool \<noteq> [] \<and> cell_cloud \<noteq> None)"
    by (simp_all add: assms candidates_def Let_def)
  have "sorted (map dep_priority (filter Q ?pool))" for Q
    by (rule sorted_filter) simp
  then have "sorted (map dep_priority (ca_deployments r))" using deps by simp
  then show ?thesis using deps cross
    by (auto simp: filter_empty_conv split: option.splits if_splits)
qed

theorem candidates_affinity_witness:
  "let r = candidates demo_rt 0 [] [] [demo_dep ''d2'' ''vertex'' ''gcp'' 1, demo_dep ''d1'' ''bedrock'' ''aws'' 2]
             ''m'' (Some ''aws'')
   in demo_dep ''d1'' ''bedrock'' ''aws'' 2 \<in> set (ca_deployments r) \<and>
      (\<forall>e \<in> set (ca_deployments r). dep_cloud e = ''aws'') \<and> \<not> ca_cross_cloud r"
proof -
  let ?ds = "[demo_dep ''d2'' ''vertex'' ''gcp'' 1, demo_dep ''d1'' ''bedrock'' ''aws'' 2]"
  have "routable demo_rt 0 [] [] ''m'' (demo_dep ''d1'' ''bedrock'' ''aws'' 2)"
    by (simp add: routable_def demo_dep_def healthy_def breaker_allows_def demo_rt_def)
  moreover have "dep_cloud (demo_dep ''d1'' ''bedrock'' ''aws'' 2) = ''aws''" by (simp add: demo_dep_def)
  moreover have "demo_dep ''d1'' ''bedrock'' ''aws'' 2 \<in> set ?ds" by simp
  ultimately show ?thesis
    using candidates_affinity [OF refl, of demo_rt 0 "[]" "[]" ?ds "''m''" "Some ''aws''",
        THEN conjunct2, THEN conjunct2, THEN conjunct1, rule_format,
        of "''aws''" "demo_dep ''d1'' ''bedrock'' ''aws'' 2"]
    by (simp add: Let_def)
qed

text \<open>
  The breaker after any interleaved history of outcomes recorded for any deployments: the
  verdict on a deployment depends on its own outcomes only. If its last recorded outcome (at
  \<open>t\<close>) was a success it is let through; if it was a failure that completed the
  configured run of consecutive failures, or brought the error rate over the window above its
  threshold, it is refused until the half-open delay has passed; and \<open>state_of\<close> reports
  the same verdict.
\<close>

theorem breaker_opens_and_closes:
  assumes "cb = breaker_run settings [] events" and "outcomes d events = es @ [(t, ok)]"
    and "ok \<or> trips settings t (es @ [(t, ok)])"
  shows "(breaker_allows settings now cb d \<longleftrightarrow>
      ok \<or> now - t \<ge> seconds (rt_breaker_halfopen_after_seconds settings)) \<and>
    breaker_phase settings now cb d =
      (if ok then ''closed''
       else if now - t \<ge> seconds (rt_breaker_halfopen_after_seconds settings) then ''half_open'' else ''open'')"
  using assms breaker_run_outcomes [of settings events d]
  by (auto simp: breaker_allows_def breaker_phase_def run_history_opened)

theorem breaker_opens_and_closes_witness:
  "let st = demo_rt;
       cb = breaker_run st [] [(1, ''a'', False), (2, ''b'', True), (3, ''a'', False)]
   in \<not> breaker_allows st (seconds 30) cb ''a'' \<and> breaker_allows st (seconds 31) cb ''a''"
proof -
  have o: "outcomes ''a'' [(1, ''a'', False), (2, ''b'', True), (3, ''a'', False)] = [(1, False)] @ [(3, False)]"
    by (simp add: outcomes_def)
  have t: "False \<or> trips demo_rt 3 ([(1, False)] @ [(3, False)])"
    by (simp add: trips_def trailing_failures_def demo_rt_def)
  show ?thesis
    using breaker_opens_and_closes [OF refl o t, of "seconds 30"]
      breaker_opens_and_closes [OF refl o t, of "seconds 31"]
    by (simp add: Let_def seconds_def demo_rt_def)
qed

end
