(* ===== verification/Gateway_Policies.thy ===== *)
theory Gateway_Policies
  imports Prelude
begin

text \<open>
  The rules the AI gateway applies to a request before and after a provider is called
  (\<open>services/ai-gateway/app/domain\<close>): prices (\<open>pricing.py\<close>), model ladders (\<open>ladders.py\<close>), admission
  counters (\<open>admission.py\<close> over the in-memory store of \<open>adapters/kv.py\<close>), the spend kill-switch
  (\<open>freeze.py\<close>) and the eligibility rules of the cache (\<open>cache.py\<close>).

  Prices, temperatures and dollar amounts are exact rationals. A rung is read from its dictionary when
  the ladder is built. Error texts are left out; \<open>Index_error\<close>, \<open>Key_error\<close>, \<open>Attribute_error\<close>,
  \<open>Type_error\<close> and \<open>Value_error\<close> are Python's own exceptions, \<open>Schema_error\<close> is the one \<open>jsonschema\<close> raises for a
  schema that is itself invalid, and \<open>Stream_closed\<close> is what a generator
  sees when its client leaves; no handler of the pipeline catches them.
\<close>

datatype gateway_error =
    Key_invalid
  | Permission_denied_key
  | Ladder_cap
  | Spend_frozen
  | Validation_failed_gw
  | Guardrail_blocked string
  | Rate_limited int
  | Output_schema_invalid
  | Upstream_unavailable
  | Dependency_unavailable
  | Budget_exhausted
  | Ledger_fault
  | Index_error
  | Key_error
  | Attribute_error
  | Schema_error
  | Type_error
  | Value_error
  | Stream_closed

definition is_app_error :: "gateway_error \<Rightarrow> bool" where
  "is_app_error e \<longleftrightarrow> e \<notin> 
     {Ledger_fault, Index_error, Key_error, Attribute_error, Schema_error, Type_error, Value_error, Stream_closed}"

definition error_code :: "gateway_error \<Rightarrow> string" where
  "error_code e = (case e of
     Key_invalid \<Rightarrow> ''KEY_INVALID'' | Permission_denied_key \<Rightarrow> ''PERMISSION_DENIED'' | Ladder_cap \<Rightarrow> ''LADDER_CAP''
   | Spend_frozen \<Rightarrow> ''SPEND_FROZEN'' | Validation_failed_gw \<Rightarrow> ''VALIDATION_FAILED''
   | Guardrail_blocked _ \<Rightarrow> ''GUARDRAIL_BLOCKED'' | Rate_limited _ \<Rightarrow> ''RATE_LIMITED''
   | Output_schema_invalid \<Rightarrow> ''OUTPUT_SCHEMA_INVALID'' | Upstream_unavailable \<Rightarrow> ''UPSTREAM_UNAVAILABLE''
   | Dependency_unavailable \<Rightarrow> ''DEPENDENCY_UNAVAILABLE'' | Budget_exhausted \<Rightarrow> ''BUDGET_EXHAUSTED''
   | _ \<Rightarrow> ''INTERNAL'')"

subsection \<open>Prices\<close>

record price_quote =
  pq_model_alias :: string
  pq_input_per_1k :: rat
  pq_output_per_1k :: rat
  pq_source :: string

definition py_int :: "rat \<Rightarrow> int" where
  "py_int x = (if x \<ge> 0 then \<lfloor>x\<rfloor> else \<lceil>x\<rceil>)"

definition cost_cents :: "price_quote \<Rightarrow> int \<Rightarrow> int \<Rightarrow> int" where
  "cost_cents q input_tokens output_tokens =
     (let usd = (of_int input_tokens / 1000) * pq_input_per_1k q + (of_int output_tokens / 1000) * pq_output_per_1k q;
          cents = usd * 100;
          rounded = py_int cents + (if cents = of_int (py_int cents) then 0 else 1)
      in if rounded = 0 \<and> (input_tokens \<noteq> 0 \<or> output_tokens \<noteq> 0) \<and> (pq_input_per_1k q \<noteq> 0 \<or> pq_output_per_1k q \<noteq> 0)
         then 1 else rounded)"

record price_table =
  pt_table :: "(string, rat \<times> rat) dict"
  pt_provider_table :: "(string, (string, rat \<times> rat) dict) dict"

definition alias_quote :: "price_table \<Rightarrow> string \<Rightarrow> price_quote" where
  "alias_quote pt model_alias =
     (case map_of (pt_table pt) model_alias of
        Some (i, out) \<Rightarrow> \<lparr>pq_model_alias = model_alias, pq_input_per_1k = i, pq_output_per_1k = out, pq_source = ''alias''\<rparr>
      | None \<Rightarrow> \<lparr>pq_model_alias = model_alias, pq_input_per_1k = 1 / 100, pq_output_per_1k = 3 / 100, pq_source = ''default''\<rparr>)"

definition published_price :: "price_table \<Rightarrow> string \<Rightarrow> string \<Rightarrow> (rat \<times> rat) option" where
  "published_price pt provider model_id =
     (if provider = [] \<or> model_id = [] then None
      else (case map_of (pt_provider_table pt) provider of None \<Rightarrow> None | Some rows \<Rightarrow> map_of rows model_id))"

definition quote_for :: "price_table \<Rightarrow> string \<Rightarrow> string \<Rightarrow> string \<Rightarrow> price_quote" where
  "quote_for pt provider model_id model_alias =
     (case published_price pt provider model_id of
        Some (i, out) \<Rightarrow>
          \<lparr>pq_model_alias = model_alias, pq_input_per_1k = i, pq_output_per_1k = out, pq_source = ''provider_model''\<rparr>
      | None \<Rightarrow>
          if provider = ''ollama''
          then \<lparr>pq_model_alias = model_alias, pq_input_per_1k = 0, pq_output_per_1k = 0, pq_source = ''provider_zero''\<rparr>
          else alias_quote pt model_alias)"

subsection \<open>Model ladders\<close>

record rung =
  rg_model_alias :: string
  rg_max_tokens :: int
  rg_temperature_default :: rat
  rg_cost_tier :: int

record model_ladder =
  ml_request_class :: string
  ml_rungs :: "rung list"
  ml_max_rung :: "int option"

definition top_rung :: "model_ladder \<Rightarrow> int" where
  "top_rung l = int (length (ml_rungs l)) - 1"

text \<open>Python's list subscript: a negative index counts from the end.\<close>

definition py_nth :: "'a list \<Rightarrow> int \<Rightarrow> 'a option" where
  "py_nth xs i =
     (let n = int (length xs); j = (if i < 0 then i + n else i)
      in if 0 \<le> j \<and> j < n then Some (xs ! nat j) else None)"

definition ladder_rung :: "model_ladder \<Rightarrow> int \<Rightarrow> gateway_error + rung" where
  "ladder_rung l i = (case py_nth (ml_rungs l) i of None \<Rightarrow> Inl Index_error | Some r \<Rightarrow> Inr r)"

definition ladder_resolve ::
    "(string \<Rightarrow> string \<Rightarrow> model_ladder option) \<Rightarrow> (string, rung list) dict \<Rightarrow> string \<Rightarrow> string \<Rightarrow> string \<Rightarrow> gateway_error + model_ladder" where
  "ladder_resolve stored defaults platform_tenant tenant_id request_class =
     (case stored tenant_id request_class of
        Some l \<Rightarrow> Inr l
      | None \<Rightarrow>
          (case stored platform_tenant request_class of
             Some l \<Rightarrow> Inr l
           | None \<Rightarrow>
               (case map_of defaults request_class of
                  None \<Rightarrow> Inl Key_error
                | Some rungs \<Rightarrow> Inr \<lparr>ml_request_class = request_class, ml_rungs = rungs, ml_max_rung = None\<rparr>)))"

definition rung_cap :: "model_ladder \<Rightarrow> int \<Rightarrow> int" where
  "rung_cap l key_max_rung =
     min (case ml_max_rung l of None \<Rightarrow> top_rung l | Some m \<Rightarrow> min (top_rung l) m) key_max_rung"

definition wanted_rung :: "model_ladder \<Rightarrow> json \<Rightarrow> int option \<Rightarrow> int option \<Rightarrow> gateway_error + int" where
  "wanted_rung l requested_model min_rung escalate_from =
     (case escalate_from of
        Some r \<Rightarrow> Inr (r + 1)
      | None \<Rightarrow>
          if requested_model = JStr ''datacern-auto'' then Inr (case min_rung of None \<Rightarrow> 0 | Some m \<Rightarrow> m)
          else (case py_index (map (\<lambda>r. JStr (rg_model_alias r)) (ml_rungs l)) requested_model of
                  None \<Rightarrow> Inl Validation_failed_gw
                | Some i \<Rightarrow> Inr (case min_rung of None \<Rightarrow> int i | Some m \<Rightarrow> max (int i) m)))"

definition select_rung ::
    "model_ladder \<Rightarrow> json \<Rightarrow> int option \<Rightarrow> int option \<Rightarrow> int \<Rightarrow> bool \<Rightarrow> gateway_error + (int \<times> bool)" where
  "select_rung l requested_model min_rung escalate_from key_max_rung degraded =
     (if degraded then (if escalate_from \<noteq> None then Inl Ladder_cap else Inr (0, False))
      else (case wanted_rung l requested_model min_rung escalate_from of
              Inl e \<Rightarrow> Inl e
            | Inr r \<Rightarrow> if r > rung_cap l key_max_rung then Inl Ladder_cap else Inr (r, escalate_from \<noteq> None)))"

definition validate_rungs :: "'a list \<Rightarrow> ('a \<Rightarrow> string \<Rightarrow> bool) \<Rightarrow> gateway_error + unit" where
  "validate_rungs rungs has_field =
     (if rungs = [] \<or> length rungs > 8 then Inl Validation_failed_gw
      else if list_all (\<lambda>r. list_all (has_field r) [''model_alias'', ''max_tokens'', ''temperature_default'', ''cost_tier'']) rungs
      then Inr () else Inl Validation_failed_gw)"

subsection \<open>Counters and admission\<close>

type_synonym kv = "(string, int \<times> instant option) dict"

definition kv_live :: "instant \<Rightarrow> kv \<Rightarrow> string \<Rightarrow> (int \<times> instant option) option" where
  "kv_live now d key =
     (case map_of d key of
        None \<Rightarrow> None
      | Some (v, expires) \<Rightarrow> (case expires of None \<Rightarrow> Some (v, None) | Some t \<Rightarrow> if now \<ge> t then None else Some (v, Some t)))"

definition kv_expiry :: "instant \<Rightarrow> int option \<Rightarrow> instant option" where
  "kv_expiry now ttl = (case ttl of None \<Rightarrow> None | Some n \<Rightarrow> if n = 0 then None else Some (now + seconds n))"

definition kv_incrby :: "instant \<Rightarrow> string \<Rightarrow> int \<Rightarrow> int option \<Rightarrow> kv \<Rightarrow> int \<times> kv" where
  "kv_incrby now key amount ttl d =
     (case kv_live now d key of
        Some (v, expires) \<Rightarrow> (v + amount, AList.update key (v + amount, expires) d)
      | None \<Rightarrow> (amount, AList.update key (amount, kv_expiry now ttl) d))"

definition kv_incr :: "instant \<Rightarrow> string \<Rightarrow> int option \<Rightarrow> kv \<Rightarrow> int \<times> kv" where
  "kv_incr now key ttl = kv_incrby now key 1 ttl"

definition kv_decr :: "instant \<Rightarrow> string \<Rightarrow> kv \<Rightarrow> int \<times> kv" where
  "kv_decr now key = kv_incrby now key (- 1) None"

record admission_settings =
  ad_streams_cap_per_tenant :: int
  ad_rpm_cap_per_tenant :: int
  ad_tpm_cap_per_tenant :: int

definition epoch_seconds :: "instant \<Rightarrow> int" where
  "epoch_seconds now = now div 1000000"

definition retry_after :: "instant \<Rightarrow> int" where
  "retry_after now = max 1 (60 - epoch_seconds now mod 60)"

definition check_rpm_tpm :: "admission_settings \<Rightarrow> instant \<Rightarrow> string \<Rightarrow> int \<Rightarrow> (kv, gateway_error, unit) eff" where
  "check_rpm_tpm st now tenant_id tokens d =
     (let minute = py_str_int (epoch_seconds now div 60);
          (rpm, d1) = kv_incr now (''adm:'' @ tenant_id @ '':rpm:'' @ minute) (Some 120) d
      in if rpm > ad_rpm_cap_per_tenant st then (Inl (Rate_limited (retry_after now)), d1)
         else (let (tpm, d2) = kv_incrby now (''adm:'' @ tenant_id @ '':tpm:'' @ minute) tokens (Some 120) d1
               in if tpm > ad_tpm_cap_per_tenant st then (Inl (Rate_limited (retry_after now)), d2) else (Inr (), d2)))"

definition streams_key :: "string \<Rightarrow> string" where
  "streams_key tenant_id = ''adm:'' @ tenant_id @ '':streams''"

definition acquire_stream :: "admission_settings \<Rightarrow> instant \<Rightarrow> string \<Rightarrow> (kv, gateway_error, unit) eff" where
  "acquire_stream st now tenant_id d =
     (let (gauge, d1) = kv_incr now (streams_key tenant_id) None d
      in if gauge > ad_streams_cap_per_tenant st
         then (Inl (Rate_limited (retry_after now)), snd (kv_decr now (streams_key tenant_id) d1))
         else (Inr (), d1))"

definition release_stream :: "instant \<Rightarrow> string \<Rightarrow> kv \<Rightarrow> kv" where
  "release_stream now tenant_id d =
     (let (current, d1) = kv_decr now (streams_key tenant_id) d
      in if current < 0 then snd (kv_incr now (streams_key tenant_id) None d1) else d1)"

subsection \<open>Spend freeze and cache rules\<close>

record freeze =
  fz_scope :: string
  fz_reason :: string
  fz_set_by :: string
  fz_set_at :: string

definition PLATFORM_SCOPE :: string where
  "PLATFORM_SCOPE = ''platform''"

definition tenant_scope :: "string \<Rightarrow> string" where
  "tenant_scope tenant_id = ''tenant:'' @ tenant_id"

definition active_for :: "(string, freeze) dict \<Rightarrow> string \<Rightarrow> freeze option" where
  "active_for store tenant_id =
     (case map_of store PLATFORM_SCOPE of Some f \<Rightarrow> Some f | None \<Rightarrow> map_of store (tenant_scope tenant_id))"

definition spend_check :: "(string, freeze) dict \<Rightarrow> string \<Rightarrow> gateway_error + unit" where
  "spend_check store tenant_id = (case active_for store tenant_id of Some _ \<Rightarrow> Inl Spend_frozen | None \<Rightarrow> Inr ())"

definition put_freeze ::
    "string \<Rightarrow> string \<Rightarrow> string \<Rightarrow> string \<Rightarrow> (string, freeze) dict \<Rightarrow> (gateway_error + freeze) \<times> (string, freeze) dict" where
  "put_freeze scope reason who at_time store =
     (if scope \<noteq> PLATFORM_SCOPE \<and> take 7 scope \<noteq> ''tenant:'' then (Inl Validation_failed_gw, store)
      else if py_strip reason = [] then (Inl Validation_failed_gw, store)
      else (let fz = \<lparr>fz_scope = scope, fz_reason = py_strip reason, fz_set_by = who, fz_set_at = at_time\<rparr>
            in (Inr fz, AList.update scope fz store)))"

definition clear_freeze :: "string \<Rightarrow> (string, freeze) dict \<Rightarrow> bool \<times> (string, freeze) dict" where
  "clear_freeze scope store = (map_of store scope \<noteq> None, AList.delete scope store)"

record cache_settings =
  cs_ttl_seconds_default :: int
  cs_ttl_seconds_max :: int
  cs_max_temperature :: rat

definition cache_eligible :: "cache_settings \<Rightarrow> string \<Rightarrow> rat \<Rightarrow> bool \<Rightarrow> bool \<Rightarrow> int \<Rightarrow> bool" where
  "cache_eligible st request_class temperature stream tools ttl \<longleftrightarrow>
     \<not> ttl \<le> 0 \<and> request_class \<noteq> ''judge'' \<and> \<not> temperature > cs_max_temperature st \<and> \<not> (stream \<and> tools)"

definition ttl_for :: "cache_settings \<Rightarrow> int option \<Rightarrow> int" where
  "ttl_for st tenant_ttl =
     max 0 (min (case tenant_ttl of None \<Rightarrow> cs_ttl_seconds_default st | Some t \<Rightarrow> t) (cs_ttl_seconds_max st))"

definition estimate_tokens :: "string \<Rightarrow> int" where
  "estimate_tokens text = max 1 (int (length text div 4))"

subsection \<open>Rungs\<close>

lemma py_nth_ok: "0 \<le> i \<Longrightarrow> i < int (length xs) \<Longrightarrow> py_nth xs i = Some (xs ! nat i)"
  by (simp add: py_nth_def)

lemma rung_cap_le: "rung_cap l m \<le> m" "rung_cap l m \<le> top_rung l" "ml_max_rung l = Some c \<Longrightarrow> rung_cap l m \<le> c"
  by (auto simp: rung_cap_def split: option.split)

lemma select_rung_cases:
  assumes "select_rung l model mr ef km degraded = Inr (r, esc)"
  shows "if degraded then r = 0 \<and> \<not> esc
    else r \<le> rung_cap l km \<and> wanted_rung l model mr ef = Inr r \<and> esc = (ef \<noteq> None)"
  using assms by (auto simp: select_rung_def split: if_splits sum.splits)

lemma wanted_rung_nonneg:
  assumes "wanted_rung l model mr ef = Inr r"
    and "case mr of None \<Rightarrow> True | Some m \<Rightarrow> 0 \<le> m" and "case ef of None \<Rightarrow> True | Some p \<Rightarrow> - 1 \<le> p"
  shows "0 \<le> r"
  using assms by (auto simp: wanted_rung_def split: option.splits if_splits)

text \<open>
  C11. The rung of a request stays under every cap that applies to it. When the client asks for no
  negative rung (and the request it escalates from was logged at rung -1 or above), the rung selected
  is a rung of the ladder, at most the ladder's own cap and at most the cap of the virtual key; while
  a budget is degrading it is rung 0; and it is at least the rung the client asked for otherwise.
\<close>

theorem select_rung_within_caps:
  assumes "select_rung l model mr ef km degraded = Inr (r, esc)"
    and "case mr of None \<Rightarrow> True | Some m \<Rightarrow> 0 \<le> m" and "case ef of None \<Rightarrow> True | Some p \<Rightarrow> - 1 \<le> p"
    and "ml_rungs l \<noteq> []"
  shows "0 \<le> r \<and> ladder_rung l r = Inr (ml_rungs l ! nat r) \<and> r \<le> top_rung l \<and>
    (degraded \<longrightarrow> r = 0) \<and> (\<not> degraded \<longrightarrow> r \<le> km \<and> (case ml_max_rung l of None \<Rightarrow> True | Some c \<Rightarrow> r \<le> c)) \<and>
    (\<not> degraded \<longrightarrow> ef = None \<longrightarrow> (case mr of None \<Rightarrow> True | Some m \<Rightarrow> m \<le> r))"
proof -
  note c = select_rung_cases [OF assms(1)]
  have top: "0 \<le> top_rung l" using assms(4) by (cases "ml_rungs l") (auto simp: top_rung_def)
  have nonneg: "0 \<le> r" using c wanted_rung_nonneg [OF _ assms(2,3)] by (auto split: if_splits)
  have bound: "r \<le> top_rung l" using c top rung_cap_le(2) [of l km] by (auto split: if_splits)
  have "ladder_rung l r = Inr (ml_rungs l ! nat r)"
    using nonneg bound by (simp add: ladder_rung_def py_nth_ok top_rung_def)
  moreover have "\<not> degraded \<longrightarrow> r \<le> km \<and> (case ml_max_rung l of None \<Rightarrow> True | Some c \<Rightarrow> r \<le> c)"
    using c by (auto simp: rung_cap_def split: option.split)
  moreover have "\<not> degraded \<longrightarrow> ef = None \<longrightarrow> (case mr of None \<Rightarrow> True | Some m \<Rightarrow> m \<le> r)"
    using c by (auto simp: wanted_rung_def split: option.splits if_splits)
  ultimately show ?thesis using c nonneg bound by auto
qed

definition demo_ladder :: model_ladder where
  "demo_ladder = \<lparr>ml_request_class = ''chat'',
     ml_rungs = [\<lparr>rg_model_alias = ''fast-small'', rg_max_tokens = 4096, rg_temperature_default = 7 / 10, rg_cost_tier = 1\<rparr>,
       \<lparr>rg_model_alias = ''balanced'', rg_max_tokens = 8192, rg_temperature_default = 7 / 10, rg_cost_tier = 2\<rparr>,
       \<lparr>rg_model_alias = ''frontier'', rg_max_tokens = 16384, rg_temperature_default = 7 / 10, rg_cost_tier = 3\<rparr>],
     ml_max_rung = Some 1\<rparr>"

theorem select_rung_within_caps_witness:
  "select_rung demo_ladder (JStr ''balanced'') (Some 0) None 2 False = Inr (1, False) \<and>
   ladder_rung demo_ladder 1 = Inr (ml_rungs demo_ladder ! nat 1)"
proof -
  have s: "select_rung demo_ladder (JStr ''balanced'') (Some 0) None 2 False = Inr (1, False)"
    by (simp add: select_rung_def wanted_rung_def demo_ladder_def rung_cap_def top_rung_def py_index_def)
  from select_rung_within_caps [OF s] s show ?thesis by (simp add: demo_ladder_def)
qed

text \<open>
  A negative minimum rung passes every cap: it is below all of them, and Python counts it from the end
  of the ladder. A client whose key and tenant are confined to rung 0 gets the top rung by asking for
  rung -1.
\<close>

theorem negative_rung_bypasses_cap:
  assumes "ml_rungs l \<noteq> []" and "0 \<le> km" and "case ml_max_rung l of None \<Rightarrow> True | Some c \<Rightarrow> 0 \<le> c"
  shows "select_rung l (JStr ''datacern-auto'') (Some (- 1)) None km False = Inr (- 1, False) \<and>
    ladder_rung l (- 1) = Inr (last (ml_rungs l))"
proof -
  have "0 < length (ml_rungs l)" using assms(1) by simp
  then have "py_nth (ml_rungs l) (- 1) = Some (last (ml_rungs l))"
    using assms(1) by (simp add: py_nth_def last_conv_nth nat_minus_as_int of_nat_diff)
  moreover have "- 1 \<le> rung_cap l km"
    using assms \<open>0 < length (ml_rungs l)\<close> by (auto simp: rung_cap_def top_rung_def split: option.splits)
  ultimately show ?thesis by (simp add: select_rung_def wanted_rung_def ladder_rung_def)
qed

theorem negative_rung_bypasses_cap_witness:
  "select_rung demo_ladder (JStr ''datacern-auto'') (Some (- 1)) None 0 False = Inr (- 1, False) \<and>
   ladder_rung demo_ladder (- 1) = Inr (last (ml_rungs demo_ladder))"
  by (rule negative_rung_bypasses_cap) (simp_all add: demo_ladder_def)

subsection \<open>Costs\<close>

definition usd_of :: "price_quote \<Rightarrow> int \<Rightarrow> int \<Rightarrow> rat" where
  "usd_of q i out = (of_int i / 1000) * pq_input_per_1k q + (of_int out / 1000) * pq_output_per_1k q"

lemma cost_cents_covers:
  assumes "0 \<le> i" "0 \<le> out" "0 \<le> pq_input_per_1k q" "0 \<le> pq_output_per_1k q"
  shows "0 \<le> cost_cents q i out \<and> usd_of q i out * 100 \<le> of_int (cost_cents q i out) \<and>
    (0 < usd_of q i out \<longrightarrow> 1 \<le> cost_cents q i out)"
proof -
  let ?c = "usd_of q i out * 100"
  have c0: "0 \<le> ?c" unfolding usd_of_def using assms by simp
  have int: "py_int ?c = \<lfloor>?c\<rfloor>" using c0 by (simp add: py_int_def)
  let ?r = "\<lfloor>?c\<rfloor> + (if ?c = of_int \<lfloor>?c\<rfloor> then 0 else 1)"
  have r: "0 \<le> ?r" "?c \<le> of_int ?r" using c0 by (auto simp: less_imp_le) linarith
  have cc: "cost_cents q i out = ?r \<or> (?r = 0 \<and> cost_cents q i out = 1)"
    using int unfolding cost_cents_def usd_of_def by (auto simp: Let_def)
  have "1 \<le> ?r" if "0 < usd_of q i out"
  proof -
    from that have "0 < ?c" by simp
    then have "(0 :: rat) < of_int ?r" using r(2) by linarith
    then show ?thesis by linarith
  qed
  with r cc show ?thesis by auto
qed

text \<open>An answer of a negative length is priced below nothing.\<close>

lemma negative_tokens_negative_cost:
  "cost_cents \<lparr>pq_model_alias = ''balanced'', pq_input_per_1k = 3 / 1000, pq_output_per_1k = 15 / 1000, pq_source = ''alias''\<rparr>
     10 (- 1000000) = - 1498"
  by code_simp

subsection \<open>The stream gauge\<close>

text \<open>The gauge carries no expiry, so its value is a function of the store alone.\<close>

definition stream_gauge :: "instant \<Rightarrow> kv \<Rightarrow> string \<Rightarrow> int" where
  "stream_gauge now d tenant_id =
     (case kv_live now d (streams_key tenant_id) of None \<Rightarrow> 0 | Some (v, _) \<Rightarrow> v)"

lemma streams_key_inj: "streams_key a = streams_key b \<longleftrightarrow> a = b"
  by (simp add: streams_key_def)

lemma kv_live_update:
  "kv_live now (AList.update k (v, expires) d) k' =
     (if k' = k then (case expires of None \<Rightarrow> Some (v, None) | Some t \<Rightarrow> if now \<ge> t then None else Some (v, Some t))
      else kv_live now d k')"
  by (simp add: kv_live_def)

lemma kv_live_not_expired:
  "kv_live now d k = Some (v, expires) \<Longrightarrow> (case expires of None \<Rightarrow> True | Some t \<Rightarrow> now < t)"
  by (auto simp: kv_live_def split: option.splits if_splits)

lemma incr_gauge:
  "kv_incrby now (streams_key t) n None d = (v, d') \<Longrightarrow>
   v = stream_gauge now d t + n \<and> (\<forall>u. stream_gauge now d' u = (if u = t then v else stream_gauge now d u))"
  by (auto simp: kv_incrby_def stream_gauge_def kv_live_update streams_key_inj kv_expiry_def
      dest: kv_live_not_expired split: option.splits)

text \<open>
  Acquiring a stream slot raises the gauge by one and only below the cap, a rejected acquire leaves it
  as it was, and releasing an acquired slot restores it; no other tenant's gauge moves.
\<close>

lemma acquire_stream_gauge:
  assumes "acquire_stream st now t d = (r, d')"
  shows "(r = Inr () \<longrightarrow> stream_gauge now d' t = stream_gauge now d t + 1 \<and> stream_gauge now d' t \<le> ad_streams_cap_per_tenant st) \<and>
    (r \<noteq> Inr () \<longrightarrow> stream_gauge now d' t = stream_gauge now d t) \<and>
    (\<forall>u. u \<noteq> t \<longrightarrow> stream_gauge now d' u = stream_gauge now d u)"
proof -
  obtain v d1 where i: "kv_incrby now (streams_key t) 1 None d = (v, d1)" by fastforce
  obtain w d2 where j: "kv_incrby now (streams_key t) (- 1) None d1 = (w, d2)" by fastforce
  note g = incr_gauge [OF i] and h = incr_gauge [OF j]
  show ?thesis
    using assms i j g h by (auto simp: acquire_stream_def kv_incr_def kv_decr_def split: if_splits)
qed

lemma release_stream_gauge:
  "stream_gauge now (release_stream now t d) u =
     (if u = t then max (stream_gauge now d t - 1) (min 0 (stream_gauge now d t)) else stream_gauge now d u)"
proof -
  obtain v d1 where i: "kv_incrby now (streams_key t) (- 1) None d = (v, d1)" by fastforce
  obtain w d2 where j: "kv_incrby now (streams_key t) 1 None d1 = (w, d2)" by fastforce
  note g = incr_gauge [OF i] and h = incr_gauge [OF j]
  show ?thesis
    using i j g h by (auto simp: release_stream_def kv_incr_def kv_decr_def)
qed

subsection \<open>The spend freeze\<close>

lemma put_freeze_blocks:
  assumes "put_freeze scope reason who t store = (Inr fz, store')"
  shows "spend_check store' tenant = (if scope = PLATFORM_SCOPE \<or> scope = tenant_scope tenant then Inl Spend_frozen
    else spend_check store tenant)"
  using assms
  by (auto simp: put_freeze_def spend_check_def active_for_def Let_def split: if_splits option.splits)

lemma clear_freeze_lifts:
  "spend_check (snd (clear_freeze (tenant_scope tenant) store)) tenant =
     (case map_of store PLATFORM_SCOPE of Some _ \<Rightarrow> Inl Spend_frozen | None \<Rightarrow> Inr ())"
  by (auto simp: clear_freeze_def spend_check_def active_for_def tenant_scope_def PLATFORM_SCOPE_def split: option.splits)

end
