(* ===== verification/Gateway_Guardrails.thy ===== *)
theory Gateway_Guardrails
  imports Prelude "HOL-Library.Sublist"
begin

text \<open>
  The guardrails of the AI gateway (\<open>ai-gateway/app/domain/guardrails.py\<close>): inbound PII redaction and
  injection scoring, de-redaction of the answer, the check of the output against a JSON schema and the
  validation of a policy document.

  A message is the dictionary the client sent. A stored policy is a record whose optional fields are
  the keys the document may leave out. The ports \<open>PIIAnalyzer\<close> and \<open>InjectionClassifier\<close> are the
  parameters \<open>analyze\<close> and \<open>score\<close>; the analyzer that runs in production
  (\<open>adapters/guardrail_models.py\<close>) is modelled too, over the spans its regular expressions match
  (\<open>finditer\<close>). \<open>json.loads\<close> and \<open>jsonschema.validate\<close> are \<open>loads\<close> and \<open>conforms\<close>.
  Scores are exact rationals.
\<close>

type_synonym message = "(string, json) dict"

subsection \<open>Policies\<close>

record pii_config =
  pc_mode :: "string option"
  pc_entities :: "string list option"
  pc_deredact_response :: "bool option"

record injection_config =
  ic_mode :: "string option"
  ic_block_threshold :: "rat option"
  ic_flag_threshold :: "rat option"

record policy_doc =
  pd_pii :: pii_config
  pd_injection :: injection_config
  pd_schema_validation :: "string option"

record guardrail_policy =
  gp_id :: string
  gp_tenant_id :: string
  gp_policy :: policy_doc
  gp_version :: int

definition DEFAULT_GUARDRAIL_POLICY :: policy_doc where
  "DEFAULT_GUARDRAIL_POLICY =
     \<lparr>pd_pii = \<lparr>pc_mode = Some ''redact'',
        pc_entities = Some [''EMAIL'', ''PHONE'', ''CREDIT_CARD'', ''SSN'', ''IBAN''],
        pc_deredact_response = Some False\<rparr>,
      pd_injection = \<lparr>ic_mode = Some ''block'', ic_block_threshold = Some (85 / 100),
        ic_flag_threshold = Some (65 / 100)\<rparr>,
      pd_schema_validation = Some ''on''\<rparr>"

definition opt_or :: "'a option \<Rightarrow> 'a \<Rightarrow> 'a" where
  "opt_or x d = (case x of None \<Rightarrow> d | Some y \<Rightarrow> y)"

definition policy_for :: "(string \<Rightarrow> guardrail_policy option) \<Rightarrow> string \<Rightarrow> guardrail_policy" where
  "policy_for current tenant_id =
     (case current tenant_id of
        Some p \<Rightarrow> p
      | None \<Rightarrow> \<lparr>gp_id = ''default-'' @ tenant_id, gp_tenant_id = tenant_id,
                 gp_policy = DEFAULT_GUARDRAIL_POLICY, gp_version = 0\<rparr>)"

text \<open>\<open>doc_size\<close> is the length of the document's JSON text.\<close>

definition validate_policy_doc :: "policy_doc \<Rightarrow> nat \<Rightarrow> bool \<Rightarrow> bool" where
  "validate_policy_doc d doc_size operator_approved_off \<longleftrightarrow>
     pc_mode (pd_pii d) \<in> {Some ''redact'', Some ''block'', Some ''off''} \<and>
     \<not> (pc_mode (pd_pii d) = Some ''off'' \<and> \<not> operator_approved_off) \<and>
     ic_mode (pd_injection d) \<in> {Some ''block'', Some ''flag'', Some ''off''} \<and>
     pd_schema_validation d \<in> {Some ''on'', Some ''off''} \<and>
     \<not> doc_size > 8192"

definition new_policy_version ::
    "string \<Rightarrow> string \<Rightarrow> guardrail_policy option \<Rightarrow> policy_doc \<Rightarrow> guardrail_policy" where
  "new_policy_version uuid tenant_id existing d =
     \<lparr>gp_id = (case existing of Some p \<Rightarrow> gp_id p | None \<Rightarrow> uuid), gp_tenant_id = tenant_id,
      gp_policy = d, gp_version = (case existing of Some p \<Rightarrow> gp_version p + 1 | None \<Rightarrow> 1)\<rparr>"

subsection \<open>Redaction\<close>

record pii_entity =
  pe_kind :: string
  pe_start :: nat
  pe_end :: nat
  pe_text :: string

definition py_slice :: "'a list \<Rightarrow> nat \<Rightarrow> nat \<Rightarrow> 'a list" where
  "py_slice xs i j = take (j - i) (drop i xs)"

text \<open>\<open>finditer kind\<close> is \<open>None\<close> for a kind without a pattern, else the spans its pattern matches.\<close>

fun luhn_sum :: "bool \<Rightarrow> string \<Rightarrow> nat" where
  "luhn_sum alt [] = 0"
| "luhn_sum alt (ch # chs) =
     (let d = of_char ch - 48; d' = (if alt then (if d * 2 > 9 then d * 2 - 9 else d * 2) else d)
      in d' + luhn_sum (\<not> alt) chs)"

definition luhn_ok :: "string \<Rightarrow> bool" where
  "luhn_ok digits \<longleftrightarrow> luhn_sum False (rev digits) mod 10 = 0"

definition card_number :: "string \<Rightarrow> bool" where
  "card_number text =
     (let digits = filter (\<lambda>c. c \<noteq> CHR '' '' \<and> c \<noteq> CHR ''-'') text
      in 13 \<le> length digits \<and> length digits \<le> 19 \<and> luhn_ok digits)"

definition matches_of :: "(string \<Rightarrow> (string \<Rightarrow> (nat \<times> nat) list) option) \<Rightarrow> string \<Rightarrow> string \<Rightarrow> pii_entity list" where
  "matches_of finditer text kind =
     (case finditer kind of
        None \<Rightarrow> []
      | Some spans \<Rightarrow>
          [\<lparr>pe_kind = kind, pe_start = i, pe_end = j, pe_text = py_slice text i j\<rparr>.
             (i, j) \<leftarrow> spans text, kind \<noteq> ''CREDIT_CARD'' \<or> card_number (py_slice text i j)])"

fun keep_disjoint :: "int \<Rightarrow> pii_entity list \<Rightarrow> pii_entity list" where
  "keep_disjoint last_end [] = []"
| "keep_disjoint last_end (e # es) =
     (if int (pe_start e) \<ge> last_end then e # keep_disjoint (int (pe_end e)) es else keep_disjoint last_end es)"

definition regex_analyze ::
    "(string \<Rightarrow> (string \<Rightarrow> (nat \<times> nat) list) option) \<Rightarrow> string \<Rightarrow> string list \<Rightarrow> pii_entity list" where
  "regex_analyze finditer text entities =
     keep_disjoint (- 1)
       (sort_key (\<lambda>e. int (pe_start e))
         (sort_key (\<lambda>e. - (int (pe_end e) - int (pe_start e))) (concat (map (matches_of finditer text) entities))))"

record pii_state =
  ps_counters :: "(string, nat) dict"
  ps_by_value :: "(string, string) dict"
  ps_redaction_map :: "(string, string) dict"
  ps_kinds :: "string list"

definition pii_state0 :: pii_state where
  "pii_state0 = \<lparr>ps_counters = [], ps_by_value = [], ps_redaction_map = [], ps_kinds = []\<rparr>"

definition placeholder_for :: "string \<Rightarrow> nat \<Rightarrow> string" where
  "placeholder_for kind n = ''<PII:'' @ kind @ '':'' @ py_str_nat n @ ''>''"

definition counter_of :: "pii_state \<Rightarrow> string \<Rightarrow> nat" where
  "counter_of st kind = (case map_of (ps_counters st) kind of None \<Rightarrow> 0 | Some n \<Rightarrow> n)"

definition take_placeholder :: "pii_entity \<Rightarrow> pii_state \<Rightarrow> string \<times> pii_state" where
  "take_placeholder ent st =
     (case map_of (ps_by_value st) (pe_text ent) of
        Some p \<Rightarrow> (p, st)
      | None \<Rightarrow>
          (let n = counter_of st (pe_kind ent) + 1;
               p = placeholder_for (pe_kind ent) n
           in (p, st\<lparr>ps_counters := AList.update (pe_kind ent) n (ps_counters st),
                    ps_by_value := AList.update (pe_text ent) p (ps_by_value st),
                    ps_redaction_map := AList.update p (pe_text ent) (ps_redaction_map st)\<rparr>)))"

fun redact_entities :: "string \<Rightarrow> pii_entity list \<Rightarrow> nat \<Rightarrow> string list \<Rightarrow> pii_state \<Rightarrow> string \<times> pii_state" where
  "redact_entities content [] pos out st = (concat (out @ [drop pos content]), st)"
| "redact_entities content (ent # ents) pos out st =
     (if pe_start ent < pos then redact_entities content ents pos out st
      else (let (p, st1) = take_placeholder ent st
            in redact_entities content ents (pe_end ent) (out @ [py_slice content pos (pe_start ent), p])
                 (st1\<lparr>ps_kinds := ps_kinds st1 @ [pe_kind ent]\<rparr>)))"

definition msg_content :: "message \<Rightarrow> string option" where
  "msg_content m = (case map_of m ''content'' of Some (JStr s) \<Rightarrow> Some s | _ \<Rightarrow> None)"

definition redact_message ::
    "(string \<Rightarrow> pii_entity list) \<Rightarrow> message \<Rightarrow> pii_state \<Rightarrow> message \<times> pii_state" where
  "redact_message analyze msg st =
     (case msg_content msg of
        None \<Rightarrow> (msg, st)
      | Some content \<Rightarrow>
          (let found = sort_key pe_start (analyze content)
           in if found = [] then (msg, st)
              else (let (text, st') = redact_entities content found 0 [] st
                    in (AList.update ''content'' (JStr text) msg, st'))))"

fun redact_messages ::
    "(string \<Rightarrow> pii_entity list) \<Rightarrow> message list \<Rightarrow> pii_state \<Rightarrow> message list \<times> pii_state" where
  "redact_messages analyze [] st = ([], st)"
| "redact_messages analyze (msg # msgs) st =
     (let (m, st1) = redact_message analyze msg st;
          (ms, st2) = redact_messages analyze msgs st1
      in (m # ms, st2))"

definition pii_entities :: "pii_config \<Rightarrow> string list" where
  "pii_entities cfg =
     (if opt_or (pc_entities cfg) [] = [] then opt_or (pc_entities (pd_pii DEFAULT_GUARDRAIL_POLICY)) []
      else opt_or (pc_entities cfg) [])"

definition pii_pass ::
    "(string \<Rightarrow> string list \<Rightarrow> pii_entity list) \<Rightarrow> message list \<Rightarrow> pii_config \<Rightarrow>
     message list \<times> (string, string) dict \<times> string list" where
  "pii_pass analyze msgs cfg =
     (if opt_or (pc_mode cfg) ''redact'' = ''off'' then (msgs, [], [])
      else (let (redacted, st) = redact_messages (\<lambda>c. analyze c (pii_entities cfg)) msgs pii_state0
            in (redacted, ps_redaction_map st, ps_kinds st)))"

function (sequential) py_replace :: "string \<Rightarrow> string \<Rightarrow> string \<Rightarrow> string" where
  "py_replace [] v [] = v"
| "py_replace [] v (c # cs) = v @ c # py_replace [] v cs"
| "py_replace (p # ps) v [] = []"
| "py_replace (p # ps) v (c # cs) =
     (if take (length (p # ps)) (c # cs) = p # ps
      then v @ py_replace (p # ps) v (drop (length ps) cs)
      else c # py_replace (p # ps) v cs)"
  by pat_completeness auto
termination
  by (relation "measure (\<lambda>(p, v, s). length s)") auto

fun deredact :: "string \<Rightarrow> (string, string) dict \<Rightarrow> string" where
  "deredact text [] = text"
| "deredact text ((placeholder, original) # rest) = deredact (py_replace placeholder original text) rest"

subsection \<open>The inbound pass\<close>

record guard_event =
  gv_kind :: string
  gv_mode :: string
  gv_action :: string
  gv_policy_version :: int
  gv_request_id :: string

record guard_outcome =
  go_messages :: "message list"
  go_flags :: "string list"
  go_redaction_map :: "(string, string) dict"
  go_policy_version :: int
  go_events :: "guard_event list"
  go_deredact_response :: bool

definition injection_score :: "(string \<Rightarrow> rat) \<Rightarrow> message list \<Rightarrow> rat" where
  "injection_score score msgs =
     (let scores = [score s. m \<leftarrow> msgs, map_of m ''role'' = Some (JStr ''user''), Some s \<leftarrow> [msg_content m]]
      in if scores = [] then 0 else Max (set scores))"

text \<open>The error is the \<open>kind\<close> of \<open>GuardrailBlocked\<close>.\<close>

definition inject_check ::
    "policy_doc \<Rightarrow> int \<Rightarrow> string \<Rightarrow> rat \<Rightarrow> guard_outcome \<Rightarrow> string + guard_outcome" where
  "inject_check cfg version request_id score oc =
     (let inj = pd_injection cfg;
          mode = opt_or (ic_mode inj) ''block''
      in if mode = ''off'' then Inr oc
         else if mode = ''block'' \<and> score \<ge> opt_or (ic_block_threshold inj) (85 / 100) then Inl ''injection''
         else if score \<ge> opt_or (ic_flag_threshold inj) (65 / 100)
         then Inr (oc\<lparr>go_flags := go_flags oc @ [''injection_flagged''],
                go_events := go_events oc @ [\<lparr>gv_kind = ''injection'', gv_mode = mode, gv_action = ''flagged'',
                  gv_policy_version = version, gv_request_id = request_id\<rparr>]\<rparr>)
         else Inr oc)"

definition pii_check ::
    "policy_doc \<Rightarrow> int \<Rightarrow> string \<Rightarrow> message list \<times> (string, string) dict \<times> string list \<Rightarrow>
     guard_outcome \<Rightarrow> string + guard_outcome" where
  "pii_check cfg version request_id passed oc =
     (let (redacted, redaction_map, kinds) = passed;
          pii = pd_pii cfg;
          mode = opt_or (pc_mode pii) ''redact''
      in if mode \<noteq> ''off'' \<and> kinds \<noteq> [] then
           (if mode = ''block'' then Inl ''pii''
            else Inr (oc\<lparr>go_messages := redacted, go_redaction_map := redaction_map,
                   go_flags := go_flags oc @ [''pii_redacted''],
                   go_deredact_response := opt_or (pc_deredact_response pii) False,
                   go_events := go_events oc @ [\<lparr>gv_kind = ''pii'', gv_mode = mode, gv_action = ''redacted'',
                     gv_policy_version = version, gv_request_id = request_id\<rparr>]\<rparr>))
         else Inr oc)"

definition inbound ::
    "(string \<Rightarrow> string list \<Rightarrow> pii_entity list) \<Rightarrow> (string \<Rightarrow> rat) \<Rightarrow> message list \<Rightarrow>
     guardrail_policy \<Rightarrow> string \<Rightarrow> string + guard_outcome" where
  "inbound analyze score msgs policy request_id =
     (let cfg = gp_policy policy;
          oc = \<lparr>go_messages = msgs, go_flags = [], go_redaction_map = [],
                go_policy_version = gp_version policy, go_events = [], go_deredact_response = False\<rparr>
      in case inject_check cfg (gp_version policy) request_id (injection_score score msgs) oc of
           Inl k \<Rightarrow> Inl k
         | Inr oc1 \<Rightarrow> pii_check cfg (gp_version policy) request_id (pii_pass analyze msgs (pd_pii cfg)) oc1)"

subsection \<open>Output schema\<close>

text \<open>
  \<open>Inr (Some ())\<close> is an error text (the output is not JSON, or violates the schema). Two exceptions leave the
  method: the \<open>AttributeError\<close> of a \<open>response_format\<close>, or of the \<open>json_schema\<close> in it, that is no object, and the
  \<open>SchemaError\<close> with which \<open>jsonschema.validate\<close> refuses the schema itself (\<open>conforms\<close> is \<open>None\<close>).
\<close>

datatype schema_fault = Attribute_fault | Schema_fault

definition validate_output_schema ::
    "(string \<Rightarrow> json option) \<Rightarrow> (json \<Rightarrow> json \<Rightarrow> bool option) \<Rightarrow> string \<Rightarrow> json \<Rightarrow> schema_fault + unit option" where
  "validate_output_schema loads conforms content response_format =
     (if \<not> jtruthy response_format then Inr None
      else (case response_format of
              JObj rf \<Rightarrow>
                if jget rf ''type'' \<noteq> JStr ''json_schema'' then Inr None
                else (case loads content of
                        None \<Rightarrow> Inr (Some ())
                      | Some parsed \<Rightarrow>
                          (let js = jget rf ''json_schema''
                           in if \<not> jtruthy js then Inr None
                              else (case js of
                                      JObj d \<Rightarrow>
                                        (let schema = jget d ''schema''
                                         in if \<not> jtruthy schema then Inr None
                                            else (case conforms parsed schema of
                                                    None \<Rightarrow> Inl Schema_fault
                                                  | Some ok \<Rightarrow> Inr (if ok then None else Some ())))
                                    | _ \<Rightarrow> Inl Attribute_fault)))
            | _ \<Rightarrow> Inl Attribute_fault))"

subsection \<open>Replacing placeholders\<close>

lemma split_first:
  "x \<notin> set a \<Longrightarrow> x \<notin> set b \<Longrightarrow> a @ x # s = b @ x # t \<longleftrightarrow> a = b \<and> s = t"
proof (induction a arbitrary: b)
  case Nil
  then show ?case by (cases b) auto
next
  case (Cons c a)
  then show ?case by (cases b) auto
qed

lemma split_last:
  "x \<notin> set s \<Longrightarrow> x \<notin> set t \<Longrightarrow> a @ x # s = b @ x # t \<longleftrightarrow> a = b \<and> s = t"
  using split_first [of x "rev s" "rev t" "rev a" "rev b"]
  by (metis append.assoc append_Cons append_Nil rev.simps(2) rev_append rev_rev_ident set_rev)

lemma take_prefix_conv: "take (length p) s = p \<longleftrightarrow> prefix p s"
  by (metis append_take_drop_id prefixE prefixI append_eq_conv_conj)

lemma contains_sublist: "py_contains p s \<longleftrightarrow> sublist p s"
proof (induction s)
  case (Cons c s)
  show ?case unfolding py_contains.simps Cons.IH take_prefix_conv by (rule sublist_Cons_right [symmetric])
qed simp

lemma py_replace_hit: "p \<noteq> [] \<Longrightarrow> py_replace p v (p @ s) = v @ py_replace p v s"
  by (cases p) simp_all

lemma py_replace_miss:
  "p \<noteq> [] \<Longrightarrow> (\<And>i. i < length xs \<Longrightarrow> \<not> prefix p (drop i xs @ s)) \<Longrightarrow>
   py_replace p v (xs @ s) = xs @ py_replace p v s"
proof (induction xs)
  case (Cons x xs)
  obtain q ps where p: "p = q # ps" using Cons.prems(1) by (cases p) auto
  have "\<not> prefix p (x # xs @ s)" using Cons.prems(2) [of 0] by simp
  then have "py_replace p v (x # xs @ s) = x # py_replace p v (xs @ s)"
    unfolding p by (auto simp: take_prefix_conv [symmetric])
  moreover have "\<not> prefix p (drop i xs @ s)" if "i < length xs" for i
    using Cons.prems(2) [of "Suc i"] that by simp
  ultimately show ?case using Cons.IH [OF Cons.prems(1)] by simp
qed simp

text \<open>A redacted text is a list of tokens: characters of the original, and placeholders.\<close>

definition render :: "(string \<Rightarrow> string) \<Rightarrow> (char + string) list \<Rightarrow> string" where
  "render sub toks = concat (map (case_sum (\<lambda>c. [c]) sub) toks)"

definition ph_mark :: string where
  "ph_mark = ''<PII:''"

definition ph_ok :: "string \<Rightarrow> bool" where
  "ph_ok q \<longleftrightarrow> (\<exists>b. q = ph_mark @ b @ ''>'' \<and> CHR ''<'' \<notin> set b \<and> CHR ''>'' \<notin> set b)"

lemma render_simps [simp]:
  "render sub [] = []"
  "render sub (Inl c # ts) = c # render sub ts"
  "render sub (Inr q # ts) = sub q @ render sub ts"
  "render sub (ts @ us) = render sub ts @ render sub us"
  "render sub (map Inl s) = s"
  by (simp_all add: render_def comp_def)

lemma prefix_no_open:
  assumes "CHR ''<'' \<notin> set w" and "prefix w (r @ CHR ''<'' # s)"
  shows "prefix w (r @ t)"
proof -
  have "prefix w r"
    using assms by (auto simp: prefix_append prefix_Cons)
  then show ?thesis by (simp add: prefix_prefix)
qed

lemma prefix_render:
  assumes "CHR ''<'' \<notin> set w" and "\<And>q. Inr q \<in> set ts \<Longrightarrow> (sub q = q \<and> ph_ok q) \<or> sub q = orig q"
    and "prefix w (r @ render sub ts)"
  shows "prefix w (r @ render orig ts)"
  using assms(2,3)
proof (induction ts arbitrary: r)
  case (Cons t ts)
  show ?case
  proof (cases t)
    case (Inl c)
    with Cons.IH [of "r @ [c]"] Cons.prems show ?thesis by auto
  next
    case (Inr q)
    with Cons.prems(1) consider "sub q = q" "ph_ok q" | "sub q = orig q" by auto
    then show ?thesis
    proof cases
      case 1
      then obtain s where "q = CHR ''<'' # s" by (auto simp: ph_ok_def ph_mark_def)
      with Cons.prems(2) Inr 1 show ?thesis using prefix_no_open [OF assms(1)] by auto
    next
      case 2
      with Inr Cons.IH [of "r @ orig q"] Cons.prems show ?thesis by auto
    qed
  qed
qed simp

lemma ph_ok_nonempty: "ph_ok q \<Longrightarrow> q \<noteq> []"
  by (auto simp: ph_ok_def)

lemma ph_tail_no_open:
  assumes "ph_ok q" and "0 < i" and "i < length q"
  shows "q ! i \<noteq> CHR ''<''"
proof -
  obtain r where r: "q = CHR ''<'' # r" "CHR ''<'' \<notin> set r"
    using assms(1) by (auto simp: ph_ok_def ph_mark_def)
  then have "q ! i = r ! (i - 1)" "i - 1 < length r" using assms(2,3) by (auto simp: nth_Cons')
  with r(2) show ?thesis by (metis nth_mem)
qed

lemma ph_prefix_eq:
  assumes "ph_ok p" and "ph_ok q" and "prefix p (q @ s)"
  shows "p = q"
proof -
  obtain a where a: "p = ph_mark @ a @ ''>''" "CHR ''>'' \<notin> set a" using assms(1) by (auto simp: ph_ok_def)
  obtain b where b: "q = ph_mark @ b @ ''>''" "CHR ''>'' \<notin> set b" using assms(2) by (auto simp: ph_ok_def)
  from assms(3) a b obtain z where "a @ CHR ''>'' # z = b @ CHR ''>'' # s"
    by (auto simp: prefix_def)
  with a(2) b(2) have "a = b" by (simp add: split_first)
  with a b show ?thesis by simp
qed

lemma literal_no_match:
  assumes "ph_ok p" and "\<not> sublist ph_mark (xs @ render orig ts)" and "i < length xs"
    and "\<And>q. Inr q \<in> set ts \<Longrightarrow> (sub q = q \<and> ph_ok q) \<or> sub q = orig q"
  shows "\<not> prefix p (drop i xs @ render sub ts)"
proof
  assume "prefix p (drop i xs @ render sub ts)"
  then have m: "prefix ph_mark (drop i xs @ render sub ts)"
    using assms(1) by (auto simp: ph_ok_def dest: append_prefixD)
  obtain c r where cr: "drop i xs = c # r" using assms(3) by (cases "drop i xs") auto
  have "prefix ''PII:'' (r @ render sub ts)" and c: "c = CHR ''<''"
    using m cr by (auto simp: ph_mark_def)
  then have "prefix ''PII:'' (r @ render orig ts)"
    using prefix_render [where w = "''PII:''", OF _ assms(4)] by simp
  then have "prefix ph_mark (drop i xs @ render orig ts)" using cr c by (simp add: ph_mark_def)
  then obtain z where "drop i xs @ render orig ts = ph_mark @ z" by (auto simp: prefix_def)
  then have "xs @ render orig ts = take i xs @ ph_mark @ z" by (metis append.assoc append_take_drop_id)
  then show False using assms(2) by (simp add: sublist_appendI)
qed

lemma py_replace_render:
  assumes "ph_ok p" and "sub p = p"
    and "\<And>q. Inr q \<in> set toks \<Longrightarrow> (sub q = q \<and> ph_ok q) \<or> sub q = orig q"
    and "\<not> sublist ph_mark (render orig toks)"
  shows "py_replace p v (render sub toks) = render (sub(p := v)) toks"
  using assms(3,4)
proof (induction toks)
  case Nil
  then show ?case using ph_ok_nonempty [OF assms(1)] by (cases p) auto
next
  case (Cons t ts)
  have tl: "\<not> sublist ph_mark (render orig ts)"
    using Cons.prems(2) by (cases t) (auto simp: sublist_Cons_right sublist_append)
  have ih: "py_replace p v (render sub ts) = render (sub(p := v)) ts"
    by (rule Cons.IH) (use Cons.prems(1) tl in auto)
  have lit: "py_replace p v (xs @ render sub ts) = xs @ render (sub(p := v)) ts"
    if "\<not> sublist ph_mark (xs @ render orig ts)" for xs
    using py_replace_miss [OF ph_ok_nonempty [OF assms(1)] literal_no_match [OF assms(1) that]]
      Cons.prems(1) ih by auto
  show ?case
  proof (cases t)
    case (Inl c)
    then show ?thesis using lit [of "[c]"] Cons.prems(2) by (simp del: fun_upd_apply)
  next
    case (Inr q)
    consider "q = p" | "q \<noteq> p" "sub q = q" "ph_ok q" | "q \<noteq> p" "sub q = orig q"
      using Cons.prems(1) Inr by auto
    then show ?thesis
    proof cases
      case 1
      then show ?thesis using Inr assms(2) ih py_replace_hit [OF ph_ok_nonempty [OF assms(1)]] by (simp add: fun_upd_def)
    next
      case 2
      have "\<not> prefix p (drop i q @ render sub ts)" if i: "i < length q" for i
      proof (cases "i = 0")
        case True
        then show ?thesis using ph_prefix_eq [OF assms(1) 2(3)] 2(1) by auto
      next
        case False
        then have "q ! i \<noteq> CHR ''<''" using ph_tail_no_open [OF 2(3)] i by simp
        moreover have "drop i q = q ! i # drop (Suc i) q" using i by (simp add: Cons_nth_drop_Suc)
        ultimately show ?thesis using assms(1) by (auto simp: ph_ok_def ph_mark_def)
      qed
      then show ?thesis
        using py_replace_miss [OF ph_ok_nonempty [OF assms(1)], of q "render sub ts" v] Inr 2 ih
        by (simp add: fun_upd_def)
    next
      case 3
      then show ?thesis using lit [of "orig q"] Cons.prems(2) Inr by (simp add: fun_upd_def)
    qed
  qed
qed

lemma deredact_render:
  assumes "distinct (map fst d)" and "\<And>p v. (p, v) \<in> set d \<Longrightarrow> ph_ok p \<and> orig p = v \<and> sub p = p"
    and "\<And>q. Inr q \<in> set toks \<Longrightarrow> ph_ok q \<and> ((q \<in> fst ` set d \<and> sub q = q) \<or> sub q = orig q)"
    and "\<not> sublist ph_mark (render orig toks)"
  shows "deredact (render sub toks) d = render orig toks"
  using assms(1-3)
proof (induction d arbitrary: sub)
  case Nil
  then have "map (case_sum (\<lambda>c. [c]) sub) toks = map (case_sum (\<lambda>c. [c]) orig) toks"
    by (auto split: sum.splits)
  then have "render sub toks = render orig toks" unfolding render_def by (rule arg_cong)
  then show ?case by simp
next
  case (Cons e d)
  obtain p v where e: "e = (p, v)" by (cases e)
  from Cons.prems(2) [of p v] e have p: "ph_ok p" "orig p = v" "sub p = p" by auto
  have "py_replace p v (render sub toks) = render (sub(p := v)) toks"
    by (rule py_replace_render [where orig = orig]) (use p assms(4) Cons.prems(3) in auto)
  moreover have "deredact (render (sub(p := v)) toks) d = render orig toks"
  proof (rule Cons.IH)
    show "distinct (map fst d)" using Cons.prems(1) by simp
    fix p' v' assume m: "(p', v') \<in> set d"
    then have "p' \<noteq> p" using Cons.prems(1) e by force
    then show "ph_ok p' \<and> orig p' = v' \<and> (sub(p := v)) p' = p'" using Cons.prems(2) m by auto
  next
    fix q assume "Inr q \<in> set toks"
    then show "ph_ok q \<and> ((q \<in> fst ` set d \<and> (sub(p := v)) q = q) \<or> (sub(p := v)) q = orig q)"
      using Cons.prems(3) [of q] e p by auto
  qed
  ultimately show ?case using e by simp
qed

subsection \<open>Redaction can be undone\<close>

text \<open>
  What an analyzer owes its caller: the span lies inside the text, the text of the entity is that
  span, and the kind has no angle bracket.
\<close>

definition entity_ok :: "string \<Rightarrow> pii_entity \<Rightarrow> bool" where
  "entity_ok content e \<longleftrightarrow>
     pe_start e \<le> pe_end e \<and> pe_end e \<le> length content \<and> pe_text e = py_slice content (pe_start e) (pe_end e) \<and>
     CHR ''<'' \<notin> set (pe_kind e) \<and> CHR ''>'' \<notin> set (pe_kind e)"

definition analyzer_ok :: "(string \<Rightarrow> pii_entity list) \<Rightarrow> bool" where
  "analyzer_ok analyze \<longleftrightarrow> (\<forall>c. \<forall>e \<in> set (analyze c). entity_ok c e)"

definition unmarked :: "message \<Rightarrow> bool" where
  "unmarked m = (case msg_content m of None \<Rightarrow> True | Some s \<Rightarrow> \<not> py_contains ph_mark s)"

definition pii_inv :: "pii_state \<Rightarrow> bool" where
  "pii_inv st \<longleftrightarrow> distinct (map fst (ps_redaction_map st)) \<and>
     (\<forall>x p. map_of (ps_by_value st) x = Some p \<longrightarrow> map_of (ps_redaction_map st) p = Some x) \<and>
     (\<forall>p \<in> fst ` set (ps_redaction_map st). ph_ok p \<and> (\<exists>k n. p = placeholder_for k n \<and> n \<le> counter_of st k))"

lemma placeholder_inj: "placeholder_for k m = placeholder_for l n \<Longrightarrow> k = l \<and> m = n"
proof -
  assume "placeholder_for k m = placeholder_for l n"
  then have e: "k @ CHR '':'' # py_str_nat m = l @ CHR '':'' # py_str_nat n" by (simp add: placeholder_for_def)
  have d: "CHR '':'' \<notin> set (py_str_nat i)" for i
    using str_nat_digits [of "CHR '':''" i] by (auto simp: ascii_digit_def)
  have "k = l \<and> py_str_nat m = py_str_nat n"
    using e d [of m] d [of n] by (simp add: split_last)
  then show ?thesis using str_nat_inj by auto
qed

lemma placeholder_ok:
  assumes "CHR ''<'' \<notin> set k" and "CHR ''>'' \<notin> set k"
  shows "ph_ok (placeholder_for k n)"
proof -
  have d: "CHR ''<'' \<notin> set (py_str_nat n)" "CHR ''>'' \<notin> set (py_str_nat n)"
    using str_nat_digits [of "CHR ''<''" n] str_nat_digits [of "CHR ''>''" n] by (auto simp: ascii_digit_def)
  show ?thesis unfolding ph_ok_def
    by (rule exI [of _ "k @ '':'' @ py_str_nat n"]) (use assms d in \<open>auto simp: placeholder_for_def ph_mark_def\<close>)
qed

lemma take_placeholder_spec:
  assumes "pii_inv st" and "entity_ok content e" and "take_placeholder e st = (p, st')"
  shows "pii_inv st'" and "map_of (ps_redaction_map st') p = Some (pe_text e)"
    and "map_of (ps_redaction_map st) \<subseteq>\<^sub>m map_of (ps_redaction_map st')"
proof -
  let ?R = "ps_redaction_map st"
  have goal: "pii_inv st' \<and> map_of (ps_redaction_map st') p = Some (pe_text e) \<and> map_of ?R \<subseteq>\<^sub>m map_of (ps_redaction_map st')"
  proof (cases "map_of (ps_by_value st) (pe_text e)")
    case (Some q)
    then show ?thesis using assms by (auto simp: take_placeholder_def pii_inv_def)
  next
    case None
    let ?n = "counter_of st (pe_kind e) + 1"
    have p: "p = placeholder_for (pe_kind e) ?n"
      and st': "ps_redaction_map st' = AList.update p (pe_text e) ?R"
        "ps_by_value st' = AList.update (pe_text e) p (ps_by_value st)"
        "counter_of st' k = (if k = pe_kind e then ?n else counter_of st k)" for k
      using assms(3) None by (auto simp: take_placeholder_def Let_def counter_of_def)
    have fresh: "p \<notin> fst ` set ?R"
    proof
      assume "p \<in> fst ` set ?R"
      then obtain k n where "p = placeholder_for k n" "n \<le> counter_of st k" using assms(1) by (auto simp: pii_inv_def)
      then show False using p placeholder_inj [of k n "pe_kind e" "?n"] by auto
    qed
    then have none: "map_of ?R p = None" by (simp add: map_of_eq_None_iff)
    have keys: "fst ` set (ps_redaction_map st') = insert p (fst ` set ?R)"
      unfolding st' dom_map_of_conv_image_fst [symmetric] by (auto simp: dom_def)
    have old: "ph_ok q \<and> (\<exists>k n. q = placeholder_for k n \<and> n \<le> counter_of st' k)" if "q \<in> fst ` set ?R" for q
    proof -
      from assms(1) that obtain k n where "ph_ok q" "q = placeholder_for k n" "n \<le> counter_of st k"
        by (auto simp: pii_inv_def)
      moreover from this have "n \<le> counter_of st' k" by (auto simp: st')
      ultimately show ?thesis by auto
    qed
    have new: "ph_ok p \<and> (\<exists>k n. p = placeholder_for k n \<and> n \<le> counter_of st' k)"
      using placeholder_ok assms(2) p unfolding st' entity_ok_def by auto
    show ?thesis
      using assms(1) none keys old new unfolding pii_inv_def
      by (auto simp: st' map_le_def distinct_update)
  qed
  then show "pii_inv st'" "map_of (ps_redaction_map st') p = Some (pe_text e)"
    "map_of ?R \<subseteq>\<^sub>m map_of (ps_redaction_map st')" by auto
qed

text \<open>What the redaction map says of a placeholder.\<close>

definition original_of :: "(string, string) dict \<Rightarrow> string \<Rightarrow> string" where
  "original_of d q = (case map_of d q of None \<Rightarrow> q | Some v \<Rightarrow> v)"

lemma slice_drop: "i \<le> j \<Longrightarrow> py_slice xs i j @ drop j xs = drop i xs"
  by (metis py_slice_def append_take_drop_id drop_drop le_add_diff_inverse2)

lemma original_of_mono:
  "map_of d \<subseteq>\<^sub>m map_of d' \<Longrightarrow> map_of d q = Some v \<Longrightarrow> original_of d' q = v"
  by (auto simp: original_of_def map_le_def dom_def split: option.split)

lemma redact_entities_tokens:
  assumes "pii_inv st" and "\<And>e. e \<in> set ents \<Longrightarrow> entity_ok content e"
    and "redact_entities content ents pos out st = (text, st')"
  shows "pii_inv st' \<and> map_of (ps_redaction_map st) \<subseteq>\<^sub>m map_of (ps_redaction_map st') \<and>
    (\<exists>toks. text = concat out @ render (\<lambda>q. q) toks \<and>
      (\<forall>q. Inr q \<in> set toks \<longrightarrow> q \<in> fst ` set (ps_redaction_map st')) \<and>
      (\<forall>d. map_of (ps_redaction_map st') \<subseteq>\<^sub>m map_of d \<longrightarrow> render (original_of d) toks = drop pos content))"
  using assms
proof (induction content ents pos out st rule: redact_entities.induct)
  case (1 content pos out st)
  then show ?case by (intro conjI exI [of _ "map Inl (drop pos content)"]) auto
next
  case (2 content ent ents pos out st)
  show ?case
  proof (cases "pe_start ent < pos")
    case True
    with 2 show ?thesis by simp
  next
    case False
    obtain p st1 where p: "take_placeholder ent st = (p, st1)" by fastforce
    have ok: "entity_ok content ent" using "2.prems"(2) by simp
    note tp = take_placeholder_spec [OF "2.prems"(1) ok p]
    let ?st = "st1\<lparr>ps_kinds := ps_kinds st1 @ [pe_kind ent]\<rparr>"
    have "pii_inv ?st" using tp(1) by (simp add: pii_inv_def counter_of_def)
    from "2.IH"(2) [OF False p [symmetric] refl this] "2.prems"(2,3) False p obtain toks where
      inv: "pii_inv st'" and le: "map_of (ps_redaction_map st1) \<subseteq>\<^sub>m map_of (ps_redaction_map st')"
      and eq: "text = concat (out @ [py_slice content pos (pe_start ent), p]) @ render (\<lambda>q. q) toks"
      and ks: "\<forall>q. Inr q \<in> set toks \<longrightarrow> q \<in> fst ` set (ps_redaction_map st')"
      and orig: "\<forall>d. map_of (ps_redaction_map st') \<subseteq>\<^sub>m map_of d \<longrightarrow> render (original_of d) toks = drop (pe_end ent) content"
      by auto
    let ?toks = "map Inl (py_slice content pos (pe_start ent)) @ Inr p # toks"
    have p': "map_of (ps_redaction_map st') p = Some (pe_text ent)"
      using le tp(2) by (auto simp: map_le_def dom_def)
    then have "p \<in> fst ` set (ps_redaction_map st')" by (auto dest: map_of_SomeD intro: rev_image_eqI)
    moreover have "render (original_of d) ?toks = drop pos content" if "map_of (ps_redaction_map st') \<subseteq>\<^sub>m map_of d" for d
      using that orig original_of_mono [OF that p'] ok False by (simp add: entity_ok_def slice_drop)
    ultimately show ?thesis using inv eq ks tp(3) le
      by (intro conjI exI [of _ ?toks]) (auto intro: map_le_trans)
  qed
qed

text \<open>\<open>undone d a b\<close>: with the redaction map \<open>d\<close>, the redacted message \<open>b\<close> stands for \<open>a\<close>.\<close>

definition undone :: "(string, string) dict \<Rightarrow> message \<Rightarrow> message \<Rightarrow> bool" where
  "undone d a b \<longleftrightarrow>
     (\<forall>k. k \<noteq> ''content'' \<longrightarrow> map_of b k = map_of a k) \<and>
     (case msg_content a of None \<Rightarrow> b = a
      | Some s \<Rightarrow> (case msg_content b of None \<Rightarrow> False | Some t \<Rightarrow> deredact t d = s))"

lemma deredact_tokens:
  assumes "pii_inv st" and "\<forall>q. Inr q \<in> set toks \<longrightarrow> q \<in> fst ` set (ps_redaction_map st)"
    and "render (original_of (ps_redaction_map st)) toks = s" and "\<not> py_contains ph_mark s"
  shows "deredact (render (\<lambda>q. q) toks) (ps_redaction_map st) = s"
proof -
  let ?d = "ps_redaction_map st"
  have ok: "ph_ok q" if "q \<in> fst ` set ?d" for q using assms(1) that by (auto simp: pii_inv_def)
  have "deredact (render (\<lambda>q. q) toks) ?d = render (original_of ?d) toks"
  proof (rule deredact_render)
    show "distinct (map fst ?d)" using assms(1) by (simp add: pii_inv_def)
    then show "ph_ok p \<and> original_of ?d p = v \<and> p = p" if "(p, v) \<in> set ?d" for p v
      using that ok [OF image_eqI, of p "(p, v)"] by (simp add: original_of_def)
    show "ph_ok q \<and> (q \<in> fst ` set ?d \<and> q = q \<or> q = original_of ?d q)" if "Inr q \<in> set toks" for q
      using that assms(2) ok by auto
    show "\<not> sublist ph_mark (render (original_of ?d) toks)"
      using assms(3,4) by (simp add: contains_sublist)
  qed
  then show ?thesis using assms(3) by simp
qed

lemma redact_message_spec:
  assumes "pii_inv st" and "analyzer_ok analyze" and "unmarked m"
    and "redact_message analyze m st = (m', st')"
  shows "pii_inv st' \<and> map_of (ps_redaction_map st) \<subseteq>\<^sub>m map_of (ps_redaction_map st') \<and>
    (\<forall>st2. pii_inv st2 \<longrightarrow> map_of (ps_redaction_map st') \<subseteq>\<^sub>m map_of (ps_redaction_map st2) \<longrightarrow>
       undone (ps_redaction_map st2) m m')"
proof (cases "msg_content m")
  case None
  with assms show ?thesis by (auto simp: redact_message_def undone_def)
next
  case (Some s)
  let ?found = "sort_key pe_start (analyze s)"
  obtain t st1 where r: "redact_entities s ?found 0 [] st = (t, st1)" by fastforce
  have clean: "\<not> py_contains ph_mark s" using assms(3) Some by (simp add: unmarked_def)
  have whole: "deredact s (ps_redaction_map st2) = s" if "pii_inv st2" for st2
    using deredact_tokens [OF that, of "map Inl s" s] clean by auto
  show ?thesis
  proof (cases "?found = []")
    case True
    with assms Some whole show ?thesis by (auto simp: redact_message_def undone_def Let_def)
  next
    case False
    with assms(4) Some r have m': "m' = AList.update ''content'' (JStr t) m" "st' = st1"
      by (auto simp: redact_message_def Let_def)
    have "entity_ok s e" if "e \<in> set ?found" for e using that assms(2) by (simp add: analyzer_ok_def)
    from redact_entities_tokens [OF assms(1) this r] obtain toks where
      inv: "pii_inv st1" "map_of (ps_redaction_map st) \<subseteq>\<^sub>m map_of (ps_redaction_map st1)"
      and toks: "t = render (\<lambda>q. q) toks" "\<forall>q. Inr q \<in> set toks \<longrightarrow> q \<in> fst ` set (ps_redaction_map st1)"
        "\<And>d. map_of (ps_redaction_map st1) \<subseteq>\<^sub>m map_of d \<Longrightarrow> render (original_of d) toks = s"
      by auto
    have "undone (ps_redaction_map st2) m m'"
      if st2: "pii_inv st2" "map_of (ps_redaction_map st1) \<subseteq>\<^sub>m map_of (ps_redaction_map st2)" for st2
    proof -
      have "fst ` set (ps_redaction_map st1) \<subseteq> fst ` set (ps_redaction_map st2)"
        using map_le_implies_dom_le [OF st2(2)] by (simp add: dom_map_of_conv_image_fst)
      with toks(2) have "\<forall>q. Inr q \<in> set toks \<longrightarrow> q \<in> fst ` set (ps_redaction_map st2)" by blast
      from deredact_tokens [OF st2(1) this toks(3) [OF st2(2)] clean]
      have "deredact t (ps_redaction_map st2) = s" using toks(1) by simp
      then show ?thesis using Some by (simp add: undone_def m'(1)) (simp add: msg_content_def)
    qed
    with inv m' show ?thesis by auto
  qed
qed

lemma redact_messages_spec:
  assumes "pii_inv st" and "analyzer_ok analyze" and "list_all unmarked msgs"
    and "redact_messages analyze msgs st = (out, st')"
  shows "pii_inv st' \<and> map_of (ps_redaction_map st) \<subseteq>\<^sub>m map_of (ps_redaction_map st') \<and>
    (\<forall>st2. pii_inv st2 \<longrightarrow> map_of (ps_redaction_map st') \<subseteq>\<^sub>m map_of (ps_redaction_map st2) \<longrightarrow>
       list_all2 (undone (ps_redaction_map st2)) msgs out)"
  using assms(1,3,4)
proof (induction msgs arbitrary: st out)
  case (Cons m msgs)
  obtain m' st1 where m: "redact_message analyze m st = (m', st1)" by fastforce
  obtain ms where ms: "redact_messages analyze msgs st1 = (ms, st')" and out: "out = m' # ms"
    using Cons.prems(3) m by (auto simp: Let_def split: prod.splits)
  have u: "unmarked m" "list_all unmarked msgs" using Cons.prems(2) by auto
  note one = redact_message_spec [OF Cons.prems(1) assms(2) u(1) m]
  note rest = Cons.IH [OF conjunct1 [OF one] u(2) ms]
  from one rest show ?case unfolding out by (auto intro: map_le_trans)
qed simp

lemma pii_pass_undone:
  assumes "pii_pass analyze msgs cfg = (redacted, redaction_map, kinds)"
    and "analyzer_ok (\<lambda>c. analyze c (pii_entities cfg))" and "list_all unmarked msgs"
  shows "list_all2 (undone redaction_map) msgs redacted"
proof (cases "opt_or (pc_mode cfg) ''redact'' = ''off''")
  case True
  have "undone [] m m" for m by (auto simp: undone_def split: option.split)
  with assms(1) True show ?thesis by (auto simp: pii_pass_def list_all2_same)
next
  case False
  then obtain st where r: "redact_messages (\<lambda>c. analyze c (pii_entities cfg)) msgs pii_state0 = (redacted, st)"
    and d: "redaction_map = ps_redaction_map st"
    using assms(1) by (auto simp: pii_pass_def Let_def split: prod.splits)
  have "pii_inv pii_state0" by (simp add: pii_inv_def pii_state0_def)
  from redact_messages_spec [OF this assms(2,3) r] d show ?thesis by auto
qed

text \<open>
  \<open>spans_ok\<close>: the analyzer has patterns for the kinds of its table, and a match of \<open>re.finditer\<close> is a span of the text
  it was given.
\<close>

definition PATTERN_KINDS :: "string list" where
  "PATTERN_KINDS = [''EMAIL'', ''PHONE'', ''CREDIT_CARD'', ''SSN'', ''IBAN'', ''ADDRESS'', ''PERSON'']"

definition spans_ok :: "(string \<Rightarrow> (string \<Rightarrow> (nat \<times> nat) list) option) \<Rightarrow> bool" where
  "spans_ok finditer \<longleftrightarrow>
     (\<forall>kind f. finditer kind = Some f \<longrightarrow> kind \<in> set PATTERN_KINDS \<and> (\<forall>c i j. (i, j) \<in> set (f c) \<longrightarrow> i \<le> j \<and> j \<le> length c))"

lemma kinds_bracketless: "kind \<in> set PATTERN_KINDS \<Longrightarrow> CHR ''<'' \<notin> set kind \<and> CHR ''>'' \<notin> set kind"
  by (auto simp: PATTERN_KINDS_def)

lemma keep_disjoint_subset: "set (keep_disjoint k es) \<subseteq> set es"
  by (induction k es rule: keep_disjoint.induct) auto

lemma regex_analyzer_ok:
  assumes "spans_ok finditer"
  shows "analyzer_ok (\<lambda>c. regex_analyze finditer c entities)"
  unfolding analyzer_ok_def
proof (intro allI ballI)
  fix c e assume "e \<in> set (regex_analyze finditer c entities)"
  then obtain kind where k: "kind \<in> set entities" "e \<in> set (matches_of finditer c kind)"
    using keep_disjoint_subset by (fastforce simp: regex_analyze_def)
  then obtain f i j where f: "finditer kind = Some f" "(i, j) \<in> set (f c)"
    and e: "e = \<lparr>pe_kind = kind, pe_start = i, pe_end = j, pe_text = py_slice c i j\<rparr>"
    by (cases "finditer kind") (auto simp: matches_of_def split: if_split_asm)
  have "i \<le> j \<and> j \<le> length c" using assms f unfolding spans_ok_def by blast
  moreover have "CHR ''<'' \<notin> set kind \<and> CHR ''>'' \<notin> set kind" using assms f(1) kinds_bracketless unfolding spans_ok_def by blast
  ultimately show "entity_ok c e" by (simp add: e entity_ok_def)
qed


definition demo_finditer :: "string \<Rightarrow> (string \<Rightarrow> (nat \<times> nat) list) option" where
  "demo_finditer kind =
     (if kind = ''EMAIL'' then Some (\<lambda>s. if s = ''to a@b.io or a@b.io'' then [(3, 9), (13, 19)] else []) else None)"

definition demo_msgs :: "message list" where
  "demo_msgs = [[(''role'', JStr ''user''), (''content'', JStr ''to a@b.io or a@b.io'')]]"

definition demo_redacted :: "message list" where
  "demo_redacted = [[(''role'', JStr ''user''), (''content'', JStr ''to <PII:EMAIL:1> or <PII:EMAIL:1>'')]]"

lemma demo_pass:
  "pii_pass (regex_analyze demo_finditer) demo_msgs (pd_pii DEFAULT_GUARDRAIL_POLICY) =
     (demo_redacted, [(''<PII:EMAIL:1>'', ''a@b.io'')], [''EMAIL'', ''EMAIL''])"
  by code_simp


text \<open>A placeholder that was written in the prompt comes back as the value the real one stands for.\<close>

lemma literal_placeholder_restored:
  "case pii_pass (regex_analyze (\<lambda>kind. if kind = ''EMAIL'' then Some (\<lambda>s. [(17, 23)]) else None))
      [[(''content'', JStr ''<PII:EMAIL:1> is a@b.io'' )]] (pd_pii DEFAULT_GUARDRAIL_POLICY) of
     (redacted, redaction_map, _) \<Rightarrow>
       map (\<lambda>m. map_option (\<lambda>s. deredact s redaction_map) (msg_content m)) redacted = [Some ''a@b.io is a@b.io'']"
  by code_simp

text \<open>
  The streaming path applies \<open>deredact\<close> to one provider chunk at a time, so a placeholder that arrives
  in two chunks is not restored.
\<close>

lemma chunked_placeholder_kept:
  "deredact ''<PII:EMA'' [(''<PII:EMAIL:1>'', ''a@b.io'')] @ deredact ''IL:1>'' [(''<PII:EMAIL:1>'', ''a@b.io'')] = ''<PII:EMAIL:1>''"
  "deredact (''<PII:EMA'' @ ''IL:1>'') [(''<PII:EMAIL:1>'', ''a@b.io'')] = ''a@b.io''"
  by code_simp+

text \<open>A match that starts inside an earlier one is dropped whole, and its tail goes out unredacted.\<close>

lemma overlap_tail_kept:
  "pii_pass (\<lambda>c entities. [\<lparr>pe_kind = ''PHONE'', pe_start = 0, pe_end = 3, pe_text = ''555''\<rparr>,
       \<lparr>pe_kind = ''EMAIL'', pe_start = 2, pe_end = 8, pe_text = ''5@b.io''\<rparr>])
     [[(''content'', JStr ''555@b.io'')]] (pd_pii DEFAULT_GUARDRAIL_POLICY) =
   ([[(''content'', JStr ''<PII:PHONE:1>@b.io'')]], [(''<PII:PHONE:1>'', ''555'')], [''PHONE''])"
  by code_simp

text \<open>A blocked prompt yields no outcome, so nothing of it can reach a later stage.\<close>

lemma inbound_blocks:
  assumes "opt_or (ic_mode (pd_injection (gp_policy p))) ''block'' = ''block''"
    and "injection_score score msgs \<ge> opt_or (ic_block_threshold (pd_injection (gp_policy p))) (85 / 100)"
  shows "inbound analyze score msgs p rid = Inl ''injection''"
  using assms by (simp add: inbound_def inject_check_def Let_def)

lemma inbound_messages:
  assumes "inbound analyze score msgs p rid = Inr oc"
  shows "(go_messages oc = msgs \<and> go_redaction_map oc = []) \<or>
    (\<exists>kinds. pii_pass analyze msgs (pd_pii (gp_policy p)) = (go_messages oc, go_redaction_map oc, kinds))"
  using assms
  by (auto simp: inbound_def inject_check_def pii_check_def Let_def split: sum.splits if_splits prod.splits)

end
