(* ===== verification/Gateway_Pipeline.thy ===== *)
theory Gateway_Pipeline
  imports Budgets Routing Gateway_Policies Gateway_Guardrails "HOL-Library.List_Lexorder" "HOL-Library.Char_ord"
begin

text \<open>
  The data plane of the AI gateway (\<open>ai-gateway/app/domain/pipeline.py\<close>): \<open>GatewayService\<close> with its
  three entry points, \<open>chat\<close> (plain and streaming) and \<open>embeddings\<close>, in the order of its stages: spend
  freeze, body and key checks, admission, guardrails, ladder, cache, budget pre-flight, provider call
  with failover and schema retries, settlement and metering. The metering helpers come from
  \<open>reconciliation.py\<close>, the cache from \<open>cache.py\<close>.

  \<open>gateway\<close> is everything a request can change. \<open>gw_env\<close> is everything it only reads: the stored
  configuration, the settings, one clock reading for the whole request, the UUIDs it will draw, and
  the ports. A provider port is a function of the number of provider calls made so far; its answer
  \<open>Inl ()\<close> is a \<open>ProviderError\<close> or a timeout. The request body is the decoded dictionary. Tracing,
  Prometheus counters, latencies and the envelope around an event are left out. \<open>gs_preflight\<close> is the
  \<open>Preflight\<close> object of the request being served, which \<open>reserve_more\<close> extends in place.
\<close>

subsection \<open>State and environment\<close>

record virtual_key =
  vk_id :: string
  vk_tenant_id :: string
  vk_allowed_request_classes :: "string list"
  vk_max_rung :: int

record request_ctx =
  rc_request_id :: string
  rc_tenant_id :: string
  rc_principal_sub :: string
  rc_key :: virtual_key
  rc_request_class :: string
  rc_workspace_id :: "string option"
  rc_cell_cloud :: "string option"
  rc_escalate :: bool
  rc_prior_request_id :: "string option"
  rc_min_rung :: "int option"

record request_log =
  rl_request_id :: string
  rl_tenant_id :: string
  rl_principal :: string
  rl_request_class :: string
  rl_model_alias :: string
  rl_rung :: int
  rl_input_tokens :: int
  rl_output_tokens :: int
  rl_cost_usd :: rat
  rl_cached :: bool
  rl_guardrail_flags :: "string list"
  rl_status :: string
  rl_deployment_id :: "string option"

record usage_event =
  ue_request_id :: string
  ue_tenant_id :: string
  ue_workspace_id :: "string option"
  ue_principal :: string
  ue_request_class :: string
  ue_model_alias :: string
  ue_provider :: "string option"
  ue_model :: "string option"
  ue_deployment :: "string option"
  ue_rung :: int
  ue_input_tokens :: int
  ue_output_tokens :: int
  ue_cached :: bool
  ue_cost_usd :: rat
  ue_guardrail_flags :: "string list"
  ue_degraded :: bool
  ue_price_source :: "string option"

record provider_request =
  pr_model :: string
  pr_messages :: "message list"
  pr_max_tokens :: int
  pr_temperature :: rat
  pr_stream :: bool
  pr_response_format :: json
  pr_tools :: json

record provider_result =
  px_content :: string
  px_input_tokens :: int
  px_output_tokens :: int
  px_model :: string
  px_finish_reason :: string

datatype stream_chunk = Chunk_usage int int | Chunk_delta string

record cache_entry =
  ce_tenant_id :: string
  ce_prompt_hash :: string
  ce_context_hash :: string
  ce_prompt_text :: string
  ce_response :: "(string, json) dict"
  ce_workspace_id :: "string option"
  ce_expires_at :: instant

record spend_anomaly =
  sa_buckets :: "((string \<times> string \<times> int), int) dict"
  sa_alerted :: "(string \<times> string \<times> int) list"
  sa_events :: "(string \<times> int \<times> rat) list"

datatype sse_chunk = Sse_delta string string | Sse_usage string int int | Sse_error string | Sse_done

record 's gateway =
  gs_engine :: "'s budget_engine"
  gs_preflight :: preflight_result
  gs_breaker :: circuit_breaker
  gs_kv :: kv
  gs_cache_kv :: "(string, (string, json) dict \<times> instant option) dict"
  gs_cache_entries :: "cache_entry list"
  gs_log :: "(string, request_log) dict"
  gs_usage :: "usage_event list"
  gs_guard_events :: "guard_event list"
  gs_totals :: "(string \<times> string, int) dict"
  gs_anomaly :: spend_anomaly
  gs_calls :: "string list"
  gs_out :: "sse_chunk list"

record 's gw_env =
  ge_ops :: "'s ledger_ops"
  ge_uuid :: "nat \<Rightarrow> string"
  ge_more_uuid :: "nat \<Rightarrow> string"
  ge_now :: instant
  ge_day :: "instant \<Rightarrow> string"
  ge_platform_tenant :: string
  ge_freezes :: "(string, freeze) dict option"
  ge_admission :: admission_settings
  ge_cache :: cache_settings
  ge_cache_min_prompt_tokens :: int
  ge_embed_batch_max_inputs :: nat
  ge_policies :: "string \<Rightarrow> guardrail_policy option"
  ge_analyze :: "string \<Rightarrow> string list \<Rightarrow> pii_entity list"
  ge_score :: "string \<Rightarrow> rat"
  ge_ladders :: "string \<Rightarrow> string \<Rightarrow> model_ladder option"
  ge_default_ladders :: "(string, rung list) dict"
  ge_tenant_configs :: "string \<Rightarrow> (string \<times> int option) option"
  ge_window_start :: "string \<Rightarrow> instant \<Rightarrow> string \<Rightarrow> string"
  ge_window_reset_at :: "string \<Rightarrow> instant \<Rightarrow> string \<Rightarrow> instant"
  ge_budget_settings :: budget_settings
  ge_budgets :: "budget list"
  ge_routing :: routing_settings
  ge_health :: health_registry
  ge_deployments :: "provider_deployment list"
  ge_prices :: price_table
  ge_anomaly_multiplier :: "rat option"
  ge_dumps :: "json \<Rightarrow> string"
  ge_loads :: "string \<Rightarrow> json option"
  ge_sha256_hex :: "string \<Rightarrow> string"
  ge_int_of :: "string \<Rightarrow> int option"
  ge_float_of :: "string \<Rightarrow> rat option"
  ge_conforms :: "json \<Rightarrow> json \<Rightarrow> bool option"
  ge_search :: "cache_entry list \<Rightarrow> string \<Rightarrow> string \<Rightarrow> string \<Rightarrow> (string, json) dict option"
  ge_complete :: "nat \<Rightarrow> provider_deployment \<Rightarrow> provider_request \<Rightarrow> unit + provider_result"
  ge_stream :: "nat \<Rightarrow> provider_deployment \<Rightarrow> provider_request \<Rightarrow> stream_chunk list \<times> bool"
  ge_embed :: "nat \<Rightarrow> provider_deployment \<Rightarrow> json list \<Rightarrow> unit + (json list \<times> int)"

text \<open>The local variables \<open>chat\<close> hands to its serving methods.\<close>

record route =
  ro_ladder :: model_ladder
  ro_rung_idx :: int
  ro_rung :: rung
  ro_temperature :: rat
  ro_max_tokens :: int
  ro_messages :: "message list"
  ro_guard :: guard_outcome
  ro_quote :: price_quote
  ro_degrading :: bool
  ro_escalated :: bool
  ro_cacheable :: bool
  ro_prompt_hash :: string
  ro_context_hash :: string
  ro_ttl :: int
  ro_policy :: guardrail_policy

datatype stream_handle =
    Live route preflight_result "provider_deployment list"
  | Replay string "(string, json) dict"

record pipeline_result =
  pp_response :: "(string, json) dict option"
  pp_rung :: int
  pp_model_alias :: string
  pp_deployment_id :: "string option"
  pp_cache :: string
  pp_degraded :: bool
  pp_escalated :: bool
  pp_guardrail_flags :: "string list"
  pp_stream :: "stream_handle option"

subsection \<open>Calls into the parts\<close>

definition of_budget_error :: "budget_error \<Rightarrow> gateway_error" where
  "of_budget_error e = (case e of
     BudgetExhausted _ _ _ _ \<Rightarrow> Budget_exhausted | DependencyUnavailable \<Rightarrow> Dependency_unavailable
   | LedgerFault _ \<Rightarrow> Ledger_fault)"

definition on_engine :: "('s budget_engine, budget_error, 'a) eff \<Rightarrow> ('s gateway, gateway_error, 'a) eff" where
  "on_engine m g =
     (case m (gs_engine g) of
        (Inl e, en) \<Rightarrow> (Inl (of_budget_error e), g\<lparr>gs_engine := en\<rparr>)
      | (Inr x, en) \<Rightarrow> (Inr x, g\<lparr>gs_engine := en\<rparr>))"

definition on_kv :: "(kv, gateway_error, 'a) eff \<Rightarrow> ('s gateway, gateway_error, 'a) eff" where
  "on_kv m g = (case m (gs_kv g) of (r, d) \<Rightarrow> (r, g\<lparr>gs_kv := d\<rparr>))"

definition pureE :: "'e + 'a \<Rightarrow> ('s, 'e, 'a) eff" where
  "pureE r s = (r, s)"

definition updE :: "('s \<Rightarrow> 's) \<Rightarrow> ('s, 'e, unit) eff" where
  "updE f s = (Inr (), f s)"

definition catch_app :: "('s, gateway_error, 'a) eff \<Rightarrow> (gateway_error \<Rightarrow> ('s, gateway_error, 'a) eff) \<Rightarrow> ('s, gateway_error, 'a) eff" where
  "catch_app m h = catchE m (\<lambda>e. if is_app_error e then h e else raiseE e)"

definition free_stream :: "'s gw_env \<Rightarrow> request_ctx \<Rightarrow> 's gateway \<Rightarrow> 's gateway" where
  "free_stream E ctx g = g\<lparr>gs_kv := release_stream (ge_now E) (rc_tenant_id ctx) (gs_kv g)\<rparr>"

subsection \<open>Request checks\<close>

definition check_key_class :: "request_ctx \<Rightarrow> gateway_error + unit" where
  "check_key_class ctx =
     (if vk_tenant_id (rc_key ctx) \<noteq> rc_tenant_id ctx then Inl Key_invalid
      else if rc_request_class ctx \<notin> set (vk_allowed_request_classes (rc_key ctx)) then Inl Permission_denied_key
      else Inr ())"

definition validate_chat_body :: "request_ctx \<Rightarrow> (string, json) dict \<Rightarrow> gateway_error + json list" where
  "validate_chat_body ctx body =
     (case jget body ''messages'' of
        JArr ms \<Rightarrow> if ms = [] then Inl Validation_failed_gw
                   else (case check_key_class ctx of Inl e \<Rightarrow> Inl e | Inr _ \<Rightarrow> Inr ms)
      | _ \<Rightarrow> Inl Validation_failed_gw)"

text \<open>\<open>m.get(...)\<close> raises \<open>AttributeError\<close> on a message that is no object.\<close>

fun as_messages :: "json list \<Rightarrow> gateway_error + message list" where
  "as_messages [] = Inr []"
| "as_messages (JObj m # ms) = (case as_messages ms of Inl e \<Rightarrow> Inl e | Inr rest \<Rightarrow> Inr (m # rest))"
| "as_messages (_ # ms) = Inl Attribute_error"

definition prompt_estimate :: "message list \<Rightarrow> int" where
  "prompt_estimate msgs = sum_list [estimate_tokens s. m \<leftarrow> msgs, Some s \<leftarrow> [msg_content m]]"

definition temperature_of :: "'s gw_env \<Rightarrow> request_ctx \<Rightarrow> (string, json) dict \<Rightarrow> rung \<Rightarrow> gateway_error + rat" where
  "temperature_of E ctx body r =
     (if rc_request_class ctx = ''judge'' then Inr 0
      else (case jget body ''temperature'' of
              JNull \<Rightarrow> Inr (rg_temperature_default r)
            | JBool b \<Rightarrow> Inr (if b then 1 else 0)
            | JInt n \<Rightarrow> Inr (of_int n)
            | JFloat q \<Rightarrow> Inr q
            | JStr s \<Rightarrow> (case ge_float_of E s of None \<Rightarrow> Inl Value_error | Some q \<Rightarrow> Inr q)
            | _ \<Rightarrow> Inl Type_error))"

definition max_tokens_of :: "'s gw_env \<Rightarrow> (string, json) dict \<Rightarrow> rung \<Rightarrow> gateway_error + int" where
  "max_tokens_of E body r =
     (let v = jget body ''max_tokens'';
          w = (if jtruthy v then
                 (case v of
                    JBool b \<Rightarrow> Inr 1
                  | JInt n \<Rightarrow> Inr n
                  | JFloat q \<Rightarrow> Inr (py_int q)
                  | JStr s \<Rightarrow> (case ge_int_of E s of None \<Rightarrow> Inl Value_error | Some n \<Rightarrow> Inr n)
                  | _ \<Rightarrow> Inl Type_error)
               else Inr (rg_max_tokens r))
      in case w of Inl e \<Rightarrow> Inl e | Inr n \<Rightarrow> Inr (min n (rg_max_tokens r)))"

definition escalate_from_of :: "request_ctx \<Rightarrow> ('s gateway, gateway_error, int option) eff" where
  "escalate_from_of ctx g =
     (if \<not> rc_escalate ctx then (Inr None, g)
      else (case rc_prior_request_id ctx of
              None \<Rightarrow> (Inl Validation_failed_gw, g)
            | Some rid \<Rightarrow>
                if rid = [] then (Inl Validation_failed_gw, g)
                else (case map_of (gs_log g) rid of
                        None \<Rightarrow> (Inl Validation_failed_gw, g)
                      | Some prior \<Rightarrow>
                          if rl_tenant_id prior = rc_tenant_id ctx then (Inr (Some (rl_rung prior)), g)
                          else (Inl Validation_failed_gw, g))))"

definition tenant_prefs :: "'s gw_env \<Rightarrow> string \<Rightarrow> string \<times> int option" where
  "tenant_prefs E tenant_id =
     (case ge_tenant_configs E tenant_id of
        None \<Rightarrow> (''UTC'', None)
      | Some (timezone, ttl) \<Rightarrow> (if timezone = [] then ''UTC'' else timezone, ttl))"

definition active_deployments :: "'s gw_env \<Rightarrow> provider_deployment list" where
  "active_deployments E =
     [d \<leftarrow> ge_deployments E. dep_deleted_at d = None \<and> dep_status d \<in> {''active'', ''draining''}]"

definition resolve_ladder :: "'s gw_env \<Rightarrow> string \<Rightarrow> string \<Rightarrow> gateway_error + model_ladder" where
  "resolve_ladder E = ladder_resolve (ge_ladders E) (ge_default_ladders E) (ge_platform_tenant E)"

definition windows_for :: "'s gw_env \<Rightarrow> request_ctx \<Rightarrow> governing_window list" where
  "windows_for E ctx =
     governing_windows (ge_window_start E) (ge_window_reset_at E) (ge_budget_settings E) (ge_budgets E) (ge_now E)
       (rc_tenant_id ctx) (rc_workspace_id ctx) (rc_principal_sub ctx) (vk_id (rc_key ctx)) (rc_request_class ctx)
       (fst (tenant_prefs E (rc_tenant_id ctx)))"

fun degrade_scan :: "'s ledger_ops \<Rightarrow> governing_window list \<Rightarrow> ('s budget_engine, budget_error, bool) eff" where
  "degrade_scan ops [] = returnE False"
| "degrade_scan ops (gw # gws) =
     bindE (on_ledger (lo_usage ops (gw_ledger_key gw))) (\<lambda>(spent, _).
       let limit = limit_cents (gw_budget gw)
       in if limit \<noteq> 0 \<and> of_int spent \<ge> pct_of limit (bud_degrade_pct (gw_budget gw)) then returnE True
          else degrade_scan ops gws)"

definition degrading_for :: "'s gw_env \<Rightarrow> request_ctx \<Rightarrow> governing_window list \<Rightarrow> ('s gateway, gateway_error, bool) eff" where
  "degrading_for E ctx windows =
     (if rc_request_class ctx = ''judge'' then returnE False
      else catchE (on_engine (degrade_scan (ge_ops E) windows))
             (\<lambda>e. if e = Ledger_fault then raiseE Dependency_unavailable else raiseE e))"

subsection \<open>The cache\<close>

definition normalize_messages :: "'s gw_env \<Rightarrow> message list \<Rightarrow> string" where
  "normalize_messages E msgs =
     ge_dumps E (JArr (map (\<lambda>m. JObj [(''role'', jget m ''role''), (''content'', jget m ''content'')]) msgs))"

definition prompt_hash_of :: "'s gw_env \<Rightarrow> message list \<Rightarrow> string" where
  "prompt_hash_of E msgs = ge_sha256_hex E (normalize_messages E msgs)"

definition context_hash_of :: "'s gw_env \<Rightarrow> string \<Rightarrow> string \<Rightarrow> json \<Rightarrow> rat \<Rightarrow> json \<Rightarrow> int \<Rightarrow> string" where
  "context_hash_of E model_alias request_class tools temperature system_prompt_version policy_version =
     ge_sha256_hex E (ge_dumps E (JObj
       [(''model_alias'', JStr model_alias), (''request_class'', JStr request_class),
        (''tools'', if jtruthy tools then tools else JArr []), (''temperature'', JFloat temperature),
        (''system_prompt_version'', system_prompt_version), (''guardrail_policy_version'', JInt policy_version)]))"

definition exact_key :: "string \<Rightarrow> string \<Rightarrow> string \<Rightarrow> string" where
  "exact_key tenant_id prompt_hash context_hash = ''cache:'' @ tenant_id @ '':'' @ prompt_hash @ '':'' @ context_hash"

definition cache_get :: "'s gw_env \<Rightarrow> string \<Rightarrow> 's gateway \<Rightarrow> (string, json) dict option" where
  "cache_get E key g =
     (case map_of (gs_cache_kv g) key of
        None \<Rightarrow> None
      | Some (response, None) \<Rightarrow> Some response
      | Some (response, Some t) \<Rightarrow> if ge_now E \<ge> t then None else Some response)"

definition cache_lookup ::
    "'s gw_env \<Rightarrow> string \<Rightarrow> message list \<Rightarrow> string \<Rightarrow> string \<Rightarrow> 's gateway \<Rightarrow> string \<times> (string, json) dict option" where
  "cache_lookup E tenant_id msgs p_hash c_hash g =
     (case cache_get E (exact_key tenant_id p_hash c_hash) g of
        Some response \<Rightarrow> (''hit_exact'', Some response)
      | None \<Rightarrow>
          (let prompt_text = normalize_messages E msgs
           in if estimate_tokens prompt_text < ge_cache_min_prompt_tokens E then (''miss'', None)
              else (case ge_search E (gs_cache_entries g) tenant_id c_hash prompt_text of
                      Some r \<Rightarrow> (''hit_semantic'', Some r) | None \<Rightarrow> (''miss'', None))))"

definition cache_store ::
    "'s gw_env \<Rightarrow> string \<Rightarrow> message list \<Rightarrow> string \<Rightarrow> string \<Rightarrow> (string, json) dict \<Rightarrow> int \<Rightarrow> string option \<Rightarrow>
     's gateway \<Rightarrow> 's gateway" where
  "cache_store E tenant_id msgs p_hash c_hash response ttl workspace_id g =
     (let g1 = g\<lparr>gs_cache_kv := AList.update (exact_key tenant_id p_hash c_hash)
                  (response, kv_expiry (ge_now E) (Some ttl)) (gs_cache_kv g)\<rparr>
      in if estimate_tokens (normalize_messages E msgs) < ge_cache_min_prompt_tokens E then g1
         else g1\<lparr>gs_cache_entries := gs_cache_entries g1 @
                [\<lparr>ce_tenant_id = tenant_id, ce_prompt_hash = p_hash, ce_context_hash = c_hash,
                  ce_prompt_text = normalize_messages E msgs, ce_response = response,
                  ce_workspace_id = workspace_id, ce_expires_at = ge_now E + seconds ttl\<rparr>]\<rparr>)"

definition cache_invalidate :: "string \<Rightarrow> string option \<Rightarrow> 's gateway \<Rightarrow> nat \<times> 's gateway" where
  "cache_invalidate tenant_id workspace_id g =
     (let prefix = ''cache:'' @ tenant_id @ '':'';
          doomed = (\<lambda>e. ce_tenant_id e = tenant_id \<and> (workspace_id = None \<or> ce_workspace_id e = workspace_id))
      in (length (filter doomed (gs_cache_entries g)),
          g\<lparr>gs_cache_kv := filter (\<lambda>(k, _). take (length prefix) k \<noteq> prefix) (gs_cache_kv g),
            gs_cache_entries := filter (\<lambda>e. \<not> doomed e) (gs_cache_entries g)\<rparr>))"

subsection \<open>Settlement and metering\<close>

definition usage_observe :: "string \<Rightarrow> string \<Rightarrow> int \<Rightarrow> (string \<times> string, int) dict \<Rightarrow> (string \<times> string, int) dict" where
  "usage_observe deployment_id day tokens totals =
     AList.update (deployment_id, day)
       ((case map_of totals (deployment_id, day) of None \<Rightarrow> 0 | Some n \<Rightarrow> n) + tokens) totals"

definition totals_for :: "string \<Rightarrow> (string \<times> string, int) dict \<Rightarrow> (string, int) dict" where
  "totals_for day totals = [(dep, n). ((dep, d), n) \<leftarrow> totals, d = day]"

text \<open>\<open>reconcile\<close>: the deployments whose metered tokens drift from the provider's bill by more than \<open>alert_pct\<close>.\<close>

definition reconcile :: "rat \<Rightarrow> (string, int) dict \<Rightarrow> (string, int) dict \<Rightarrow> (string \<times> int \<times> int) list" where
  "reconcile alert_pct metered_by billed_by =
     [(dep, metered, billed).
        dep \<leftarrow> sort (remdups (map fst metered_by @ map fst billed_by)),
        metered \<leftarrow> [case map_of metered_by dep of None \<Rightarrow> 0 | Some n \<Rightarrow> n],
        billed \<leftarrow> [case map_of billed_by dep of None \<Rightarrow> 0 | Some n \<Rightarrow> n],
        (of_int \<bar>billed - metered\<bar> :: rat) / of_int (max billed 1) * 100 > alert_pct]"

definition anomaly_observe ::
    "(instant \<Rightarrow> string) \<Rightarrow> rat \<Rightarrow> instant \<Rightarrow> string \<Rightarrow> int \<Rightarrow> spend_anomaly \<Rightarrow> spend_anomaly" where
  "anomaly_observe day_of multiplier now tenant_id cents sa =
     (let hour = epoch_seconds now div 3600 mod 24;
          key = (tenant_id, day_of now, hour);
          bucket = (\<lambda>k bs. case map_of bs k of None \<Rightarrow> 0 | Some c \<Rightarrow> c);
          buckets = AList.update key (bucket key (sa_buckets sa) + cents) (sa_buckets sa);
          history = map (\<lambda>d. bucket (tenant_id, day_of (now - seconds (86400 * int d)), hour) buckets) [1..<8];
          observed = filter (\<lambda>h. h > 0) history;
          sa1 = sa\<lparr>sa_buckets := buckets\<rparr>
      in if observed = [] then sa1
         else (let avg = of_int (sum_list observed) / of_nat (length observed)
               in if of_int (bucket key buckets) > multiplier * avg \<and> key \<notin> set (sa_alerted sa1)
                  then sa1\<lparr>sa_alerted := key # sa_alerted sa1,
                         sa_events := sa_events sa1 @ [(tenant_id, bucket key buckets, avg)]\<rparr>
                  else sa1))"

definition log_row ::
    "request_ctx \<Rightarrow> int \<Rightarrow> string \<Rightarrow> string option \<Rightarrow> int \<Rightarrow> int \<Rightarrow> rat \<Rightarrow> bool \<Rightarrow> string list \<Rightarrow> string \<Rightarrow> request_log" where
  "log_row ctx idx model_alias deployment_id input_tokens output_tokens cost_usd cached flags status =
     \<lparr>rl_request_id = rc_request_id ctx, rl_tenant_id = rc_tenant_id ctx, rl_principal = rc_principal_sub ctx,
      rl_request_class = rc_request_class ctx, rl_model_alias = model_alias, rl_rung = idx,
      rl_input_tokens = input_tokens, rl_output_tokens = output_tokens, rl_cost_usd = cost_usd, rl_cached = cached,
      rl_guardrail_flags = flags, rl_status = status, rl_deployment_id = deployment_id\<rparr>"

definition log_request :: "request_ctx \<Rightarrow> request_log \<Rightarrow> 's gateway \<Rightarrow> 's gateway" where
  "log_request ctx row g = g\<lparr>gs_log := AList.update (rc_request_id ctx) row (gs_log g)\<rparr>"

definition record_and_meter ::
    "'s gw_env \<Rightarrow> request_ctx \<Rightarrow> int \<Rightarrow> string \<Rightarrow> provider_deployment option \<Rightarrow> int \<Rightarrow> int \<Rightarrow> rat \<Rightarrow> bool \<Rightarrow>
     string list \<Rightarrow> bool \<Rightarrow> string \<Rightarrow> string option \<Rightarrow> 's gateway \<Rightarrow> 's gateway" where
  "record_and_meter E ctx idx model_alias deployment input_tokens output_tokens cost_usd cached flags degraded status
       price_source g =
     (let g1 = (case deployment of
                  None \<Rightarrow> g
                | Some d \<Rightarrow> g\<lparr>gs_totals := usage_observe (dep_id d) (ge_day E (ge_now E)) (input_tokens + output_tokens) (gs_totals g)\<rparr>);
          row = log_row ctx idx model_alias (map_option dep_id deployment) input_tokens output_tokens cost_usd cached flags status;
          ev = \<lparr>ue_request_id = rc_request_id ctx, ue_tenant_id = rc_tenant_id ctx, ue_workspace_id = rc_workspace_id ctx,
                ue_principal = rc_principal_sub ctx, ue_request_class = rc_request_class ctx, ue_model_alias = model_alias,
                ue_provider = map_option dep_provider deployment, ue_model = map_option dep_deployment_name deployment,
                ue_deployment = map_option dep_id deployment, ue_rung = idx, ue_input_tokens = input_tokens,
                ue_output_tokens = output_tokens, ue_cached = cached, ue_cost_usd = cost_usd, ue_guardrail_flags = flags,
                ue_degraded = degraded, ue_price_source = price_source\<rparr>
      in (log_request ctx row g1)\<lparr>gs_usage := gs_usage g1 @ [ev]\<rparr>)"

definition actual_quote :: "'s gw_env \<Rightarrow> price_quote \<Rightarrow> string \<Rightarrow> provider_deployment option \<Rightarrow> price_quote" where
  "actual_quote E quoted model_alias deployment =
     (case deployment of
        None \<Rightarrow> quoted
      | Some d \<Rightarrow> quote_for (ge_prices E) (dep_provider d) (dep_deployment_name d) model_alias)"

definition settle_and_meter ::
    "'s gw_env \<Rightarrow> request_ctx \<Rightarrow> preflight_result \<Rightarrow> price_quote \<Rightarrow> provider_result \<Rightarrow> int \<Rightarrow> string \<Rightarrow>
     provider_deployment option \<Rightarrow> string list \<Rightarrow> bool \<Rightarrow> string \<Rightarrow> ('s gateway, gateway_error, unit) eff" where
  "settle_and_meter E ctx pf quoted result idx model_alias deployment flags degraded status =
     (let q = actual_quote E quoted model_alias deployment;
          cents = cost_cents q (px_input_tokens result) (px_output_tokens result)
      in bindE (on_engine (settle (ge_ops E) pf cents)) (\<lambda>_.
         bindE (updE (\<lambda>g. case ge_anomaly_multiplier E of
                  None \<Rightarrow> g
                | Some m \<Rightarrow> g\<lparr>gs_anomaly := anomaly_observe (ge_day E) m (ge_now E) (rc_tenant_id ctx) cents (gs_anomaly g)\<rparr>)) (\<lambda>_.
         updE (record_and_meter E ctx idx model_alias deployment (px_input_tokens result) (px_output_tokens result)
                 (of_int cents / 100) False flags degraded status (Some (pq_source q))))))"

subsection \<open>Candidates and failover\<close>

function (sequential) plan_rungs ::
    "'s gw_env \<Rightarrow> circuit_breaker \<Rightarrow> provider_deployment list \<Rightarrow> string option \<Rightarrow> model_ladder \<Rightarrow> int \<Rightarrow> rung \<Rightarrow>
     gateway_error + (candidates_result \<times> provider_deployment list)" where
  "plan_rungs E cb deployments cell_cloud ladder idx current =
     (let cs = candidates (ge_routing E) (ge_now E) cb (ge_health E) deployments (rg_model_alias current) cell_cloud
      in if ca_deployments cs \<noteq> [] then Inr (cs, attempt_plan (ca_deployments cs) 3 2)
         else if idx \<ge> top_rung ladder then Inl Upstream_unavailable
         else (case ladder_rung ladder (idx + 1) of
                 Inl e \<Rightarrow> Inl e
               | Inr r \<Rightarrow> plan_rungs E cb deployments cell_cloud ladder (idx + 1) r))"
  by pat_completeness auto
termination
  by (relation "measure (\<lambda>(E, cb, deps, cc, ladder, idx, r). nat (top_rung ladder - idx))") auto

declare plan_rungs.simps [simp del]

definition provider_request_for ::
    "provider_deployment \<Rightarrow> message list \<Rightarrow> rat \<Rightarrow> int \<Rightarrow> (string, json) dict \<Rightarrow> bool \<Rightarrow> provider_request" where
  "provider_request_for d msgs temperature max_tokens body stream =
     \<lparr>pr_model = dep_deployment_name d, pr_messages = msgs, pr_max_tokens = max_tokens, pr_temperature = temperature,
      pr_stream = stream, pr_response_format = jget body ''response_format'', pr_tools = jget body ''tools''\<rparr>"

definition breaker_note :: "'s gw_env \<Rightarrow> string \<Rightarrow> bool \<Rightarrow> 's gateway \<Rightarrow> 's gateway" where
  "breaker_note E d ok g = g\<lparr>gs_breaker := breaker_record (ge_routing E) (ge_now E) d ok (gs_breaker g)\<rparr>"

definition note_call :: "provider_deployment \<Rightarrow> 's gateway \<Rightarrow> 's gateway" where
  "note_call d g = g\<lparr>gs_calls := gs_calls g @ [dep_id d]\<rparr>"

fun attempts ::
    "'s gw_env \<Rightarrow> message list \<Rightarrow> rat \<Rightarrow> int \<Rightarrow> (string, json) dict \<Rightarrow> provider_deployment list \<Rightarrow>
     ('s gateway, gateway_error, provider_result \<times> provider_deployment) eff" where
  "attempts E msgs temperature max_tokens body [] g = (Inl Upstream_unavailable, g)"
| "attempts E msgs temperature max_tokens body (d # ds) g =
     (case ge_complete E (length (gs_calls g)) d (provider_request_for d msgs temperature max_tokens body False) of
        Inr result \<Rightarrow> (Inr (result, d), breaker_note E (dep_id d) True (note_call d g))
      | Inl _ \<Rightarrow> attempts E msgs temperature max_tokens body ds (breaker_note E (dep_id d) False (note_call d g)))"

definition call_with_failover ::
    "'s gw_env \<Rightarrow> request_ctx \<Rightarrow> provider_deployment list \<Rightarrow> rung \<Rightarrow> message list \<Rightarrow> rat \<Rightarrow> int \<Rightarrow> (string, json) dict \<Rightarrow>
     ('s gateway, gateway_error, provider_result \<times> provider_deployment) eff" where
  "call_with_failover E ctx deployments r msgs temperature max_tokens body g =
     (case resolve_ladder E (rc_tenant_id ctx) (rc_request_class ctx) of
        Inl e \<Rightarrow> (Inl e, g)
      | Inr ladder \<Rightarrow>
          (let idx = (case py_index (map rg_model_alias (ml_rungs ladder)) (rg_model_alias r) of None \<Rightarrow> 0 | Some i \<Rightarrow> int i)
           in case plan_rungs E (gs_breaker g) deployments (rc_cell_cloud ctx) ladder idx r of
                Inl e \<Rightarrow> (Inl e, g)
              | Inr (_, sequence) \<Rightarrow> attempts E msgs temperature max_tokens body sequence g))"

definition chat_response :: "'s gw_env \<Rightarrow> request_ctx \<Rightarrow> string \<Rightarrow> string \<Rightarrow> provider_result \<Rightarrow> (string, json) dict" where
  "chat_response E ctx model_alias content result =
     [(''id'', JStr (''chatcmpl-'' @ rc_request_id ctx)), (''object'', JStr ''chat.completion''),
      (''created'', JInt (epoch_seconds (ge_now E))), (''model'', JStr model_alias),
      (''choices'', JArr [JObj [(''index'', JInt 0),
         (''message'', JObj [(''role'', JStr ''assistant''), (''content'', JStr content)]),
         (''finish_reason'', JStr (px_finish_reason result))]]),
      (''usage'', JObj [(''prompt_tokens'', JInt (px_input_tokens result)),
         (''completion_tokens'', JInt (px_output_tokens result)),
         (''total_tokens'', JInt (px_input_tokens result + px_output_tokens result))])]"

definition rewrap_cached :: "request_ctx \<Rightarrow> (string, json) dict \<Rightarrow> (string, json) dict" where
  "rewrap_cached ctx cached = AList.update ''id'' (JStr (''chatcmpl-'' @ rc_request_id ctx)) cached"

definition deredacted :: "guard_outcome \<Rightarrow> string \<Rightarrow> string" where
  "deredacted guard s =
     (if go_redaction_map guard \<noteq> [] \<and> go_deredact_response guard then deredact s (go_redaction_map guard) else s)"

subsection \<open>Serving without streaming\<close>

definition of_schema_fault :: "schema_fault \<Rightarrow> gateway_error" where
  "of_schema_fault f = (case f of Attribute_fault \<Rightarrow> Attribute_error | Schema_fault \<Rightarrow> Schema_error)"

definition may_escalate :: "request_ctx \<Rightarrow> route \<Rightarrow> int \<Rightarrow> bool" where
  "may_escalate ctx ro idx \<longleftrightarrow>
     idx < top_rung (ro_ladder ro) \<and> idx < vk_max_rung (rc_key ctx) \<and>
     (case ml_max_rung (ro_ladder ro) of None \<Rightarrow> True | Some m \<Rightarrow> idx < m) \<and> \<not> ro_degrading ro"

definition reserve_extra :: "'s gw_env \<Rightarrow> int \<Rightarrow> ('s gateway, gateway_error, unit) eff" where
  "reserve_extra E extra g =
     (case reserve_more (ge_ops E) (ge_more_uuid E) (gs_preflight g) extra (gs_engine g) of
        ((Inl e, en), pf) \<Rightarrow> (Inl (of_budget_error e), g\<lparr>gs_engine := en, gs_preflight := pf\<rparr>)
      | ((Inr _, en), pf) \<Rightarrow> (Inr (), g\<lparr>gs_engine := en, gs_preflight := pf\<rparr>))"

record served =
  sv_result :: provider_result
  sv_deployment :: provider_deployment
  sv_idx :: int
  sv_rung :: rung
  sv_quote :: price_quote
  sv_escalated :: bool

function (sequential) schema_loop ::
    "'s gw_env \<Rightarrow> request_ctx \<Rightarrow> (string, json) dict \<Rightarrow> route \<Rightarrow> bool \<Rightarrow> bool \<Rightarrow> bool \<Rightarrow> int \<Rightarrow> rung \<Rightarrow> price_quote \<Rightarrow>
     ('s gateway, gateway_error, served) eff" where
  "schema_loop E ctx body ro retry_done schema_escalated escalated idx r q g =
     (case call_with_failover E ctx (active_deployments E) r (ro_messages ro) (ro_temperature ro)
             (min (ro_max_tokens ro) (rg_max_tokens r)) body g of
        (Inl e, g1) \<Rightarrow> (Inl e, g1)
      | (Inr (result, d), g1) \<Rightarrow>
          (let schema_on = (opt_or (pd_schema_validation (gp_policy (ro_policy ro))) ''on'' = ''on'');
               checked = (if schema_on then validate_output_schema (ge_loads E) (ge_conforms E) (px_content result)
                                               (jget body ''response_format'')
                          else Inr None)
           in if isl checked then (Inl (of_schema_fault (projl checked)), g1)
              else if checked = Inr None
              then (Inr \<lparr>sv_result = result, sv_deployment = d, sv_idx = idx, sv_rung = r, sv_quote = q, sv_escalated = escalated\<rparr>, g1)
              else if \<not> retry_done then schema_loop E ctx body ro True schema_escalated escalated idx r q g1
              else if \<not> schema_escalated \<and> may_escalate ctx ro idx then
                (case ladder_rung (ro_ladder ro) (idx + 1) of
                   Inl e \<Rightarrow> (Inl e, g1)
                 | Inr r' \<Rightarrow>
                     (let q' = alias_quote (ge_prices E) (rg_model_alias r');
                          extra = max 0 (cost_cents q' (prompt_estimate (ro_messages ro)) (ro_max_tokens ro)
                                         - pf_estimate_cents (gs_preflight g1))
                      in case reserve_extra E extra g1 of
                           (Inl e, g2) \<Rightarrow> (Inl e, g2)
                         | (Inr _, g2) \<Rightarrow> schema_loop E ctx body ro True True True (idx + 1) r' q' g2))
              else (case settle_and_meter E ctx (gs_preflight g1) q result idx (rg_model_alias r) (Some d)
                           (go_flags (ro_guard ro)) (ro_degrading ro) ''OUTPUT_SCHEMA_INVALID'' g1 of
                      (Inl e, g2) \<Rightarrow> (Inl e, g2)
                    | (Inr _, g2) \<Rightarrow> (Inl Output_schema_invalid, g2))))"
  by pat_completeness auto
termination
  by (relation "measure (\<lambda>(E, ctx, body, ro, retry_done, schema_escalated, rest).
        (if retry_done then 0 else 1) + (if schema_escalated then 0 else 1))") auto

declare schema_loop.simps [simp del]

definition serve_non_stream ::
    "'s gw_env \<Rightarrow> request_ctx \<Rightarrow> (string, json) dict \<Rightarrow> route \<Rightarrow> ('s gateway, gateway_error, pipeline_result) eff" where
  "serve_non_stream E ctx body ro =
     bindE (schema_loop E ctx body ro False False (ro_escalated ro) (ro_rung_idx ro) (ro_rung ro) (ro_quote ro)) (\<lambda>sv.
       let model_alias = rg_model_alias (sv_rung sv);
           flags = go_flags (ro_guard ro);
           response = chat_response E ctx model_alias (deredacted (ro_guard ro) (px_content (sv_result sv))) (sv_result sv)
       in bindE (updE (\<lambda>g. if ro_cacheable ro \<and> flags = []
                  then cache_store E (rc_tenant_id ctx) (ro_messages ro) (ro_prompt_hash ro) (ro_context_hash ro) response
                         (ro_ttl ro) (rc_workspace_id ctx) g
                  else g)) (\<lambda>_.
          bindE (\<lambda>g. settle_and_meter E ctx (gs_preflight g) (sv_quote sv) (sv_result sv) (sv_idx sv) model_alias
                  (Some (sv_deployment sv)) flags (ro_degrading ro) ''ok'' g) (\<lambda>_.
          returnE \<lparr>pp_response = Some response, pp_rung = sv_idx sv, pp_model_alias = model_alias,
            pp_deployment_id = Some (dep_id (sv_deployment sv)), pp_cache = (if ro_cacheable ro then ''miss'' else ''skip''),
            pp_degraded = ro_degrading ro, pp_escalated = sv_escalated sv, pp_guardrail_flags = flags, pp_stream = None\<rparr>)))"

subsection \<open>Streaming\<close>

definition serve_stream :: "'s gw_env \<Rightarrow> request_ctx \<Rightarrow> route \<Rightarrow> ('s gateway, gateway_error, pipeline_result) eff" where
  "serve_stream E ctx ro g =
     (case plan_rungs E (gs_breaker g) (active_deployments E) (rc_cell_cloud ctx) (ro_ladder ro) (ro_rung_idx ro) (ro_rung ro) of
        Inl e \<Rightarrow> (Inl e, g)
      | Inr (cs, sequence) \<Rightarrow>
          (Inr \<lparr>pp_response = None, pp_rung = ro_rung_idx ro, pp_model_alias = rg_model_alias (ro_rung ro),
             pp_deployment_id = (case ca_deployments cs of [] \<Rightarrow> None | d # _ \<Rightarrow> Some (dep_id d)),
             pp_cache = (if ro_cacheable ro then ''miss'' else ''skip''), pp_degraded = ro_degrading ro,
             pp_escalated = ro_escalated ro, pp_guardrail_flags = go_flags (ro_guard ro),
             pp_stream = Some (Live ro (gs_preflight g) sequence)\<rparr>, g))"

text \<open>
  A generator runs when its client asks for the next chunk. \<open>patience\<close> is how many chunks the client
  still takes before it goes away (\<open>None\<close> for a client that stays): the last chunk it takes is
  delivered, and the generator, suspended at that \<open>yield\<close>, is closed there.
\<close>

type_synonym patience = "nat option"

definition yield_chunk :: "sse_chunk \<Rightarrow> patience \<Rightarrow> ('s gateway, gateway_error, patience) eff" where
  "yield_chunk c p g =
     (let g1 = g\<lparr>gs_out := gs_out g @ [c]\<rparr>
      in case p of
           None \<Rightarrow> (Inr None, g1)
         | Some n \<Rightarrow> if n \<le> 1 then (Inl Stream_closed, g1) else (Inr (Some (n - 1)), g1))"

record sse_state =
  ss_deployment :: "provider_deployment option"
  ss_content :: "string list"
  ss_usage :: "int \<times> int"
  ss_streamed_any :: bool
  ss_patience :: patience

fun relay_chunks :: "route \<Rightarrow> provider_deployment \<Rightarrow> stream_chunk list \<Rightarrow> sse_state \<Rightarrow> ('s gateway, gateway_error, sse_state) eff" where
  "relay_chunks ro d [] st = returnE st"
| "relay_chunks ro d (ch # chs) st =
     (let st1 = (if ss_streamed_any st then st else st\<lparr>ss_streamed_any := True, ss_deployment := Some d\<rparr>);
          model_alias = rg_model_alias (ro_rung ro)
      in case ch of
           Chunk_usage i out \<Rightarrow>
             bindE (yield_chunk (Sse_usage model_alias i out) (ss_patience st1)) (\<lambda>p.
               relay_chunks ro d chs (st1\<lparr>ss_usage := (i, out), ss_patience := p\<rparr>))
         | Chunk_delta delta \<Rightarrow>
             (let text = deredacted (ro_guard ro) delta
              in bindE (yield_chunk (Sse_delta model_alias text) (ss_patience st1)) (\<lambda>p.
                   relay_chunks ro d chs (st1\<lparr>ss_content := ss_content st1 @ [text], ss_patience := p\<rparr>))))"

fun stream_attempts ::
    "'s gw_env \<Rightarrow> (string, json) dict \<Rightarrow> route \<Rightarrow> provider_deployment list \<Rightarrow> sse_state \<Rightarrow> ('s gateway, gateway_error, sse_state) eff" where
  "stream_attempts E body ro [] st g = (Inr st, g)"
| "stream_attempts E body ro (d # ds) st g =
     (let (chunks, fails) = ge_stream E (length (gs_calls g)) d
              (provider_request_for d (ro_messages ro) (ro_temperature ro) (ro_max_tokens ro) body True)
      in case relay_chunks ro d chunks st (note_call d g) of
           (Inl e, g1) \<Rightarrow> (Inl e, g1)
         | (Inr st1, g1) \<Rightarrow>
             if fails then
               (if ss_streamed_any st1
                then bindE (yield_chunk (Sse_error ''UPSTREAM_UNAVAILABLE'') (ss_patience st1))
                       (\<lambda>p. returnE (st1\<lparr>ss_patience := p\<rparr>)) (breaker_note E (dep_id d) False g1)
                else stream_attempts E body ro ds st1 (breaker_note E (dep_id d) False g1))
             else if ss_streamed_any st1 then (Inr st1, breaker_note E (dep_id d) True g1)
             else stream_attempts E body ro ds st1 g1)"

definition stream_result :: "route \<Rightarrow> sse_state \<Rightarrow> provider_result" where
  "stream_result ro st =
     \<lparr>px_content = concat (ss_content st), px_input_tokens = fst (ss_usage st), px_output_tokens = snd (ss_usage st),
      px_model = rg_model_alias (ro_rung ro), px_finish_reason = ''stop''\<rparr>"

definition sse_body ::
    "'s gw_env \<Rightarrow> request_ctx \<Rightarrow> (string, json) dict \<Rightarrow> route \<Rightarrow> preflight_result \<Rightarrow> provider_deployment list \<Rightarrow> patience \<Rightarrow>
     ('s gateway, gateway_error, unit) eff" where
  "sse_body E ctx body ro pf sequence p =
     bindE (stream_attempts E body ro sequence
              \<lparr>ss_deployment = None, ss_content = [], ss_usage = (0, 0), ss_streamed_any = False, ss_patience = p\<rparr>) (\<lambda>st.
       let model_alias = rg_model_alias (ro_rung ro); flags = go_flags (ro_guard ro)
       in if \<not> ss_streamed_any st then
            bindE (on_engine (release (ge_ops E) pf)) (\<lambda>_.
            bindE (yield_chunk (Sse_error ''UPSTREAM_UNAVAILABLE'') (ss_patience st)) (\<lambda>p1.
            bindE (yield_chunk Sse_done p1) (\<lambda>_.
            updE (log_request ctx (log_row ctx (ro_rung_idx ro) model_alias None 0 0 0 False flags ''UPSTREAM_UNAVAILABLE'')))))
          else
            bindE (yield_chunk Sse_done (ss_patience st)) (\<lambda>_.
            bindE (updE (\<lambda>g. if ro_cacheable ro \<and> flags = [] \<and> \<not> jtruthy (jget body ''tools'')
                     then cache_store E (rc_tenant_id ctx) (ro_messages ro) (ro_prompt_hash ro) (ro_context_hash ro)
                            (chat_response E ctx model_alias (concat (ss_content st)) (stream_result ro st))
                            (ro_ttl ro) (rc_workspace_id ctx) g
                     else g)) (\<lambda>_.
            settle_and_meter E ctx pf (ro_quote ro) (stream_result ro st) (ro_rung_idx ro) model_alias
              (ss_deployment st) flags (ro_degrading ro) ''ok'')))"

text \<open>
  \<open>finally_do m f\<close> is \<open>try: m finally: f\<close>. A generator that is closed before its first chunk was asked
  for never starts, and neither its body nor its \<open>finally\<close> runs.
\<close>

definition finally_do :: "('s, 'e, 'a) eff \<Rightarrow> ('s \<Rightarrow> 's) \<Rightarrow> ('s, 'e, 'a) eff" where
  "finally_do m f s = (case m s of (r, s1) \<Rightarrow> (r, f s1))"

definition cached_content :: "(string, json) dict \<Rightarrow> gateway_error + string" where
  "cached_content cached =
     (case jget cached ''choices'' of
        JArr (JObj choice # _) \<Rightarrow>
          (case jget choice ''message'' of
             JObj msg \<Rightarrow> (case jget msg ''content'' of JStr s \<Rightarrow> Inr s | _ \<Rightarrow> Inl Key_error)
           | _ \<Rightarrow> Inl Key_error)
      | _ \<Rightarrow> Inl Key_error)"

definition cached_tokens :: "(string, json) dict \<Rightarrow> string \<Rightarrow> int" where
  "cached_tokens cached k =
     (case jget cached ''usage'' of JObj usage \<Rightarrow> (case jget usage k of JInt n \<Rightarrow> n | _ \<Rightarrow> 0) | _ \<Rightarrow> 0)"

definition run_stream ::
    "'s gw_env \<Rightarrow> request_ctx \<Rightarrow> (string, json) dict \<Rightarrow> stream_handle \<Rightarrow> patience \<Rightarrow> ('s gateway, gateway_error, unit) eff" where
  "run_stream E ctx body h p =
     (if p = Some 0 then returnE ()
      else (case h of
              Live ro pf sequence \<Rightarrow> finally_do (sse_body E ctx body ro pf sequence p) (free_stream E ctx)
            | Replay model_alias cached \<Rightarrow>
                finally_do
                  (bindE (pureE (cached_content cached)) (\<lambda>content.
                   bindE (yield_chunk (Sse_delta model_alias content) p) (\<lambda>p1.
                   bindE (yield_chunk (Sse_usage model_alias (cached_tokens cached ''prompt_tokens'')
                            (cached_tokens cached ''completion_tokens'')) p1) (\<lambda>p2.
                   bindE (yield_chunk Sse_done p2) (\<lambda>_. returnE ())))))
                  (free_stream E ctx)))"

subsection \<open>Chat\<close>

definition fail_request :: "'s gw_env \<Rightarrow> request_ctx \<Rightarrow> bool \<Rightarrow> gateway_error \<Rightarrow> ('s gateway, gateway_error, 'a) eff" where
  "fail_request E ctx stream_acquired e =
     bindE (updE (\<lambda>g. log_request ctx (log_row ctx (- 1) [] None 0 0 0 False [] (error_code e))
                       (if stream_acquired then free_stream E ctx g else g)))
       (\<lambda>_. raiseE e)"

definition guard_in :: "'s gw_env \<Rightarrow> request_ctx \<Rightarrow> guardrail_policy \<Rightarrow> message list \<Rightarrow> ('s gateway, gateway_error, guard_outcome) eff" where
  "guard_in E ctx policy msgs g =
     (case inbound (ge_analyze E) (ge_score E) msgs policy (rc_request_id ctx) of
        Inl kind \<Rightarrow>
          (Inl (Guardrail_blocked kind),
           g\<lparr>gs_guard_events := gs_guard_events g @
             [\<lparr>gv_kind = kind, gv_mode = ''block'', gv_action = ''blocked'', gv_policy_version = gp_version policy,
               gv_request_id = rc_request_id ctx\<rparr>]\<rparr>)
      | Inr oc \<Rightarrow> (Inr oc, g\<lparr>gs_guard_events := gs_guard_events g @ go_events oc\<rparr>))"

definition serve_cached ::
    "'s gw_env \<Rightarrow> request_ctx \<Rightarrow> bool \<Rightarrow> route \<Rightarrow> string \<Rightarrow> (string, json) dict \<Rightarrow> ('s gateway, gateway_error, pipeline_result) eff" where
  "serve_cached E ctx stream ro tier cached =
     (let response = rewrap_cached ctx cached; model_alias = rg_model_alias (ro_rung ro); flags = go_flags (ro_guard ro)
      in bindE (updE (record_and_meter E ctx (ro_rung_idx ro) model_alias None 0 0 0 True flags (ro_degrading ro) ''ok'' None)) (\<lambda>_.
         returnE \<lparr>pp_response = (if stream then None else Some response), pp_rung = ro_rung_idx ro, pp_model_alias = model_alias,
           pp_deployment_id = None, pp_cache = tier, pp_degraded = ro_degrading ro, pp_escalated = ro_escalated ro,
           pp_guardrail_flags = flags, pp_stream = (if stream then Some (Replay model_alias response) else None)\<rparr>))"

definition serve_uncached ::
    "'s gw_env \<Rightarrow> request_ctx \<Rightarrow> (string, json) dict \<Rightarrow> bool \<Rightarrow> governing_window list \<Rightarrow> int \<Rightarrow> route \<Rightarrow>
     ('s gateway, gateway_error, pipeline_result) eff" where
  "serve_uncached E ctx body stream windows prompt_est ro =
     bindE (on_engine (preflight (ge_ops E) (ge_uuid E) windows (cost_cents (ro_quote ro) prompt_est (ro_max_tokens ro)))) (\<lambda>pf.
     bindE (updE (\<lambda>g. g\<lparr>gs_preflight := pf\<rparr>)) (\<lambda>_.
       catch_app (if stream then serve_stream E ctx ro else serve_non_stream E ctx body ro)
         (\<lambda>e. bindE (\<lambda>g. on_engine (release (ge_ops E) (gs_preflight g)) g) (\<lambda>_. raiseE e))))"

definition chat_admit ::
    "'s gw_env \<Rightarrow> request_ctx \<Rightarrow> (string, json) dict \<Rightarrow> bool \<Rightarrow> ('s gateway, gateway_error, message list \<times> int) eff" where
  "chat_admit E ctx body stream =
     bindE (pureE (case ge_freezes E of None \<Rightarrow> Inr () | Some store \<Rightarrow> spend_check store (rc_tenant_id ctx))) (\<lambda>_.
     bindE (pureE (validate_chat_body ctx body)) (\<lambda>raw.
     bindE (pureE (as_messages raw)) (\<lambda>msgs.
     bindE (on_kv (check_rpm_tpm (ge_admission E) (ge_now E) (rc_tenant_id ctx) (prompt_estimate msgs))) (\<lambda>_.
     bindE (if stream then on_kv (acquire_stream (ge_admission E) (ge_now E) (rc_tenant_id ctx)) else returnE ()) (\<lambda>_.
     returnE (msgs, prompt_estimate msgs))))))"

definition chat_route ::
    "'s gw_env \<Rightarrow> request_ctx \<Rightarrow> (string, json) dict \<Rightarrow> bool \<Rightarrow> message list \<Rightarrow> governing_window list \<Rightarrow> ('s gateway, gateway_error, route) eff" where
  "chat_route E ctx body stream raw_msgs windows =
     (let policy = policy_for (ge_policies E) (rc_tenant_id ctx)
      in bindE (guard_in E ctx policy raw_msgs) (\<lambda>guard.
         bindE (pureE (resolve_ladder E (rc_tenant_id ctx) (rc_request_class ctx))) (\<lambda>ladder.
         bindE (degrading_for E ctx windows) (\<lambda>degrading.
         bindE (escalate_from_of ctx) (\<lambda>escalate_from.
         bindE (pureE (select_rung ladder (case map_of body ''model'' of None \<Rightarrow> JStr ''datacern-auto'' | Some m \<Rightarrow> m)
                  (rc_min_rung ctx) escalate_from (vk_max_rung (rc_key ctx)) degrading)) (\<lambda>(idx, escalated).
         bindE (pureE (ladder_rung ladder idx)) (\<lambda>r.
         bindE (pureE (temperature_of E ctx body r)) (\<lambda>temperature.
         bindE (pureE (max_tokens_of E body r)) (\<lambda>max_tokens.
           let tools = jget body ''tools'';
               ttl = ttl_for (ge_cache E) (snd (tenant_prefs E (rc_tenant_id ctx)))
           in returnE \<lparr>ro_ladder = ladder, ro_rung_idx = idx, ro_rung = r, ro_temperature = temperature,
                ro_max_tokens = max_tokens, ro_messages = go_messages guard, ro_guard = guard,
                ro_quote = alias_quote (ge_prices E) (rg_model_alias r), ro_degrading = degrading, ro_escalated = escalated,
                ro_cacheable = cache_eligible (ge_cache E) (rc_request_class ctx) temperature stream (jtruthy tools) ttl,
                ro_prompt_hash = prompt_hash_of E (go_messages guard),
                ro_context_hash = context_hash_of E (rg_model_alias r) (rc_request_class ctx) tools temperature
                  (jget body ''system_prompt_version'') (gp_version policy),
                ro_ttl = ttl, ro_policy = policy\<rparr>)))))))))"

definition chat_serve ::
    "'s gw_env \<Rightarrow> request_ctx \<Rightarrow> (string, json) dict \<Rightarrow> bool \<Rightarrow> message list \<Rightarrow> int \<Rightarrow> ('s gateway, gateway_error, pipeline_result) eff" where
  "chat_serve E ctx body stream raw_msgs prompt_est =
     (let windows = windows_for E ctx
      in bindE (chat_route E ctx body stream raw_msgs windows) (\<lambda>ro g.
           if ro_cacheable ro then
             (case cache_lookup E (rc_tenant_id ctx) (ro_messages ro) (ro_prompt_hash ro) (ro_context_hash ro) g of
                (tier, Some cached) \<Rightarrow> serve_cached E ctx stream ro tier cached g
              | (tier, None) \<Rightarrow> serve_uncached E ctx body stream windows prompt_est ro g)
           else serve_uncached E ctx body stream windows prompt_est ro g))"

definition chat :: "'s gw_env \<Rightarrow> request_ctx \<Rightarrow> (string, json) dict \<Rightarrow> ('s gateway, gateway_error, pipeline_result) eff" where
  "chat E ctx body =
     (let stream = jtruthy (jget body ''stream'')
      in bindE (catch_app (chat_admit E ctx body stream) (fail_request E ctx False)) (\<lambda>(raw_msgs, prompt_est).
           catch_app (chat_serve E ctx body stream raw_msgs prompt_est) (fail_request E ctx stream)))"

subsection \<open>Embeddings\<close>

fun embed_attempts ::
    "'s gw_env \<Rightarrow> json list \<Rightarrow> provider_deployment list \<Rightarrow> ('s gateway, gateway_error, json list \<times> int \<times> provider_deployment) eff" where
  "embed_attempts E inputs [] g = (Inl Upstream_unavailable, g)"
| "embed_attempts E inputs (d # ds) g =
     (case ge_embed E (length (gs_calls g)) d inputs of
        Inr (vectors, n) \<Rightarrow> (Inr (vectors, n, d), breaker_note E (dep_id d) True (note_call d g))
      | Inl _ \<Rightarrow> embed_attempts E inputs ds (breaker_note E (dep_id d) False (note_call d g)))"

text \<open>\<open>estimate_tokens\<close> takes the length of an input, which a list or an object has too; any other value raises.\<close>

fun batch_tokens :: "json list \<Rightarrow> gateway_error + int" where
  "batch_tokens [] = Inr 0"
| "batch_tokens (j # js) =
     (case (case j of JStr s \<Rightarrow> Some (length s) | JArr xs \<Rightarrow> Some (length xs) | JObj kvs \<Rightarrow> Some (length kvs) | _ \<Rightarrow> None) of
        None \<Rightarrow> Inl Type_error
      | Some n \<Rightarrow> (case batch_tokens js of Inl e \<Rightarrow> Inl e | Inr m \<Rightarrow> Inr (max 1 (int (n div 4)) + m)))"

definition embed_inputs :: "'s gw_env \<Rightarrow> request_ctx \<Rightarrow> (string, json) dict \<Rightarrow> gateway_error + json list" where
  "embed_inputs E ctx body =
     (case (case jget body ''input'' of JStr s \<Rightarrow> JArr [JStr s] | j \<Rightarrow> j) of
        JArr xs \<Rightarrow>
          if xs = [] then Inl Validation_failed_gw
          else if length xs > ge_embed_batch_max_inputs E then Inl Validation_failed_gw
          else (case check_key_class ctx of Inl e \<Rightarrow> Inl e | Inr _ \<Rightarrow> Inr xs)
      | _ \<Rightarrow> Inl Validation_failed_gw)"

definition embeddings :: "'s gw_env \<Rightarrow> request_ctx \<Rightarrow> (string, json) dict \<Rightarrow> ('s gateway, gateway_error, pipeline_result) eff" where
  "embeddings E ctx body =
     bindE (pureE (case ge_freezes E of None \<Rightarrow> Inr () | Some store \<Rightarrow> spend_check store (rc_tenant_id ctx))) (\<lambda>_.
     bindE (pureE (embed_inputs E ctx body)) (\<lambda>inputs.
     bindE (pureE (batch_tokens inputs)) (\<lambda>tokens.
     bindE (on_kv (check_rpm_tpm (ge_admission E) (ge_now E) (rc_tenant_id ctx) tokens)) (\<lambda>_.
     bindE (pureE (resolve_ladder E (rc_tenant_id ctx) ''embed'')) (\<lambda>ladder.
     bindE (pureE (ladder_rung ladder 0)) (\<lambda>r.
       let quoted = alias_quote (ge_prices E) (rg_model_alias r); model_alias = rg_model_alias r
       in bindE (on_engine (preflight (ge_ops E) (ge_uuid E) (windows_for E ctx)
                   (cost_cents quoted tokens 0))) (\<lambda>pf.
          bindE (\<lambda>g. (plan_rungs E (gs_breaker g) (active_deployments E) (rc_cell_cloud ctx) ladder 0 r, g)) (\<lambda>(cs, sequence).
          bindE (catch_app (embed_attempts E inputs sequence)
                   (\<lambda>e. bindE (on_engine (release (ge_ops E) pf)) (\<lambda>_. raiseE e))) (\<lambda>(vectors, n, d).
          bindE (settle_and_meter E ctx pf quoted
                   \<lparr>px_content = [], px_input_tokens = n, px_output_tokens = 0, px_model = model_alias, px_finish_reason = ''stop''\<rparr>
                   0 model_alias (Some d) [] False ''ok'') (\<lambda>_.
          returnE \<lparr>pp_response = Some [(''object'', JStr ''list''), (''model'', JStr model_alias),
               (''data'', JArr (map (\<lambda>(i, v). JObj [(''object'', JStr ''embedding''), (''index'', JInt (int i)), (''embedding'', v)])
                  (enumerate 0 vectors))),
               (''usage'', JObj [(''prompt_tokens'', JInt n), (''total_tokens'', JInt n)])],
            pp_rung = 0, pp_model_alias = model_alias, pp_deployment_id = Some (dep_id d), pp_cache = ''skip'',
            pp_degraded = False, pp_escalated = False, pp_guardrail_flags = [], pp_stream = None\<rparr>))))))))))"

end
