(* ===== verification/Gateway_Spend.thy ===== *)
theory Gateway_Spend
  imports Gateway_Pipeline
begin

text \<open>
  What a request of the data plane does to the budget ledger. The lemmas of the first part are proved
  from the ledger contract alone (\<open>ledger_total\<close>: a ledger that can be reached); the properties at the
  end are their instances for the in-memory ledger.
\<close>

subsection \<open>Stages that leave the engine alone\<close>

lemma pureE_apply [simp]: "pureE r s = (r, s)"
  by (simp add: pureE_def)

lemma updE_apply [simp]: "updE f s = (Inr (), f s)"
  by (simp add: updE_def)

lemma on_engine_Inr:
  "on_engine m g = (Inr x, g') \<longleftrightarrow> (\<exists>en. m (gs_engine g) = (Inr x, en) \<and> g' = g\<lparr>gs_engine := en\<rparr>)"
  by (auto simp: on_engine_def split: prod.splits sum.splits)

lemma on_engine_Inl:
  "on_engine m g = (Inl e, g') \<longleftrightarrow>
   (\<exists>b en. m (gs_engine g) = (Inl b, en) \<and> e = of_budget_error b \<and> g' = g\<lparr>gs_engine := en\<rparr>)"
  by (auto simp: on_engine_def split: prod.splits sum.splits)

lemma catch_app_eq_Inr:
  "catch_app m h s = (Inr y, s'') \<longleftrightarrow>
     m s = (Inr y, s'') \<or> (\<exists>e s'. m s = (Inl e, s') \<and> is_app_error e \<and> h e s' = (Inr y, s''))"
  by (auto simp: catch_app_def catchE_eq_Inr)

lemma catch_app_eq_Inl:
  "catch_app m h s = (Inl e, s'') \<longleftrightarrow>
     (m s = (Inl e, s'') \<and> \<not> is_app_error e) \<or> (\<exists>e' s'. m s = (Inl e', s') \<and> is_app_error e' \<and> h e' s' = (Inl e, s''))"
  by (auto simp: catch_app_def catchE_eq_Inl)

lemma app_errors [simp]:
  "is_app_error Upstream_unavailable" "is_app_error Budget_exhausted" "is_app_error Output_schema_invalid"
  by (simp_all add: is_app_error_def)

text \<open>The errors of the stages from the pre-flight on.\<close>

definition late_error :: "gateway_error \<Rightarrow> bool" where
  "late_error e \<longleftrightarrow> e \<in> {Budget_exhausted, Upstream_unavailable, Output_schema_invalid, Attribute_error, Schema_error}"

lemma late_errors [simp]:
  "late_error Upstream_unavailable" "late_error Budget_exhausted" "late_error Output_schema_invalid" "late_error Attribute_error"
  "late_error Schema_error"
  by (simp_all add: late_error_def)

text \<open>What the check of the answer raises past every handler.\<close>

definition uncaught :: "gateway_error \<Rightarrow> bool" where
  "uncaught e \<longleftrightarrow> e \<in> {Attribute_error, Schema_error}"

lemma uncaught_fault [simp]: "uncaught (of_schema_fault f)" "late_error (of_schema_fault f)"
  by (simp_all add: uncaught_def late_error_def of_schema_fault_def split: schema_fault.split)

lemma app_error_caught: "is_app_error e \<Longrightarrow> \<not> uncaught e"
  by (auto simp: uncaught_def is_app_error_def)

lemma uncaught_simps [simp]: "\<not> uncaught Upstream_unavailable" "\<not> uncaught Budget_exhausted" "\<not> uncaught Output_schema_invalid"
  by (simp_all add: uncaught_def)

lemma late_app: "late_error e \<Longrightarrow> uncaught e \<or> is_app_error e"
  by (auto simp: late_error_def is_app_error_def uncaught_def)

lemmas gatewayE = bindE_eq_Inr bindE_eq_Inl catch_app_eq_Inr catch_app_eq_Inl on_engine_Inr on_engine_Inl

text \<open>\<open>same_books g g'\<close>: the engine, the request's preflight object and the usage events are untouched.\<close>

definition same_books :: "'s gateway \<Rightarrow> 's gateway \<Rightarrow> bool" where
  "same_books g g' \<longleftrightarrow> gs_engine g' = gs_engine g \<and> gs_preflight g' = gs_preflight g \<and> gs_usage g' = gs_usage g"

lemma same_books_refl [simp]: "same_books g g"
  by (simp add: same_books_def)

lemma same_books_trans [trans]: "same_books a b \<Longrightarrow> same_books b c \<Longrightarrow> same_books a c"
  by (simp add: same_books_def)

lemma same_books_note [simp]:
  "same_books g (breaker_note E d ok (note_call dep g))"
  "same_books g (breaker_note E d ok g)"
  "same_books g (note_call dep g)"
  "same_books g (free_stream E ctx g)"
  "same_books g (log_request ctx row g)"
  "same_books g (cache_store E t ms p c r ttl w g)"
  by (simp_all add: same_books_def breaker_note_def note_call_def free_stream_def log_request_def cache_store_def Let_def)

lemma attempts_books:
  "attempts E ms temp mt body ds g = (r, g') \<Longrightarrow>
   same_books g g' \<and> (\<forall>e. r = Inl e \<longrightarrow> e = Upstream_unavailable)"
proof (induction E ms temp mt body ds g rule: attempts.induct)
  case (2 E msgs temperature max_tokens body d ds g)
  then show ?case
    by (auto split: sum.splits intro: same_books_trans [OF same_books_note(1)])
qed auto

definition rung_valid :: "model_ladder \<Rightarrow> int \<Rightarrow> bool" where
  "rung_valid l i \<longleftrightarrow> - int (length (ml_rungs l)) \<le> i \<and> i < int (length (ml_rungs l))"

lemma ladder_rung_valid: "(\<exists>r. ladder_rung l i = Inr r) \<longleftrightarrow> rung_valid l i"
  by (auto simp: ladder_rung_def py_nth_def rung_valid_def Let_def split: option.splits if_splits)

lemma ladder_rung_next:
  assumes "rung_valid l i" and "i < top_rung l"
  obtains r where "ladder_rung l (i + 1) = Inr r" and "rung_valid l (i + 1)"
proof -
  have "rung_valid l (i + 1)" using assms by (auto simp: rung_valid_def top_rung_def)
  then show ?thesis using that ladder_rung_valid by blast
qed

lemma plan_rungs_error:
  "rung_valid l i \<Longrightarrow> plan_rungs E cb ds cc l i r = Inl e \<Longrightarrow> e = Upstream_unavailable"
proof (induction E cb ds cc l i r rule: plan_rungs.induct)
  case (1 E cb ds cc l i r)
  let ?cs = "candidates (ge_routing E) (ge_now E) cb (ge_health E) ds (rg_model_alias r) cc"
  show ?case
  proof (cases "ca_deployments ?cs = [] \<and> i < top_rung l")
    case True
    then obtain r' where r': "ladder_rung l (i + 1) = Inr r'" "rung_valid l (i + 1)"
      using ladder_rung_next "1.prems"(1) by blast
    with True "1.prems"(2) have "plan_rungs E cb ds cc l (i + 1) r' = Inl e"
      by (subst (asm) plan_rungs.simps) (simp add: Let_def)
    with "1.IH" [OF refl _ _ r'(1) r'(2)] True show ?thesis by auto
  next
    case False
    with "1.prems"(2) show ?thesis by (subst (asm) plan_rungs.simps) (auto simp: Let_def split: if_splits)
  qed
qed

lemma call_with_failover_books:
  assumes run: "call_with_failover E ctx ds r ms temp mt body g = (res, g')"
    and l: "resolve_ladder E (rc_tenant_id ctx) (rc_request_class ctx) = Inr l" "ml_rungs l \<noteq> []"
  shows "same_books g g' \<and> (\<forall>e. res = Inl e \<longrightarrow> e = Upstream_unavailable)"
proof -
  define i where "i = (case py_index (map rg_model_alias (ml_rungs l)) (rg_model_alias r) of None \<Rightarrow> 0 | Some i \<Rightarrow> int i)"
  have i: "rung_valid l i"
    using l(2) unfolding i_def
    by (cases "py_index (map rg_model_alias (ml_rungs l)) (rg_model_alias r)") (auto simp: rung_valid_def dest: py_index_Some)
  show ?thesis
  proof (cases "plan_rungs E (gs_breaker g) ds (rc_cell_cloud ctx) l i r")
    case (Inl e)
    with run l plan_rungs_error [OF i Inl] show ?thesis
      by (auto simp: call_with_failover_def i_def [symmetric])
  next
    case (Inr p)
    with run l show ?thesis
      using attempts_books by (cases p) (simp add: call_with_failover_def i_def [symmetric])
  qed
qed

lemma guard_in_books: "guard_in E ctx p ms g = (r, g') \<Longrightarrow> same_books g g'"
  by (auto simp: guard_in_def same_books_def split: sum.splits)

lemma escalate_from_books: "escalate_from_of ctx g = (r, g') \<Longrightarrow> g' = g"
  by (auto simp: escalate_from_of_def split: option.splits if_splits)

definition failed_state :: "'s gw_env \<Rightarrow> request_ctx \<Rightarrow> bool \<Rightarrow> gateway_error \<Rightarrow> 's gateway \<Rightarrow> 's gateway" where
  "failed_state E ctx b e g =
     (if is_app_error e then log_request ctx (log_row ctx (- 1) [] None 0 0 0 False [] (error_code e)) (if b then free_stream E ctx g else g)
      else g)"

lemma failed_state_books: "same_books g (failed_state E ctx b e g)" "gs_calls (failed_state E ctx b e g) = gs_calls g"
  by (simp_all add: failed_state_def log_request_def free_stream_def same_books_def)

lemma chat_cases:
  "chat E ctx body g =
     (let stream = jtruthy (jget body ''stream'')
      in case chat_admit E ctx body stream g of
           (Inl e, g1) \<Rightarrow> (Inl e, failed_state E ctx False e g1)
         | (Inr (ms, est), g1) \<Rightarrow>
             (case chat_serve E ctx body stream ms est g1 of
                (Inl e, g2) \<Rightarrow> (Inl e, failed_state E ctx stream e g2)
              | (Inr pp, g2) \<Rightarrow> (Inr pp, g2)))"
  by (simp add: chat_def fail_request_def failed_state_def bindE_def catch_app_def catchE_def Let_def split: prod.splits sum.splits)

lemma chat_admit_books: "chat_admit E ctx body stream g = (r, g') \<Longrightarrow> same_books g g'"
  by (auto simp: chat_admit_def bindE_def same_books_def on_kv_def split: sum.splits prod.splits if_splits)

subsection \<open>The engine on a ledger that answers\<close>

definition unheld :: "led_view \<Rightarrow> reservation list \<Rightarrow> bool" where
  "unheld v rs \<longleftrightarrow> (\<forall>r \<in> set rs. lv_held v (rs_key r) (rs_id r) = None)"

lemma unheld_drops: "unheld v rs \<Longrightarrow> lv_held w = lv_held v \<Longrightarrow> lv_held (drops rs w) = lv_held v"
  by (auto simp: unheld_def fun_eq_iff drops_held)

lemma unheld_drops_holds: "unheld v rs \<Longrightarrow> drops rs (holds rs v) = v"
  by (rule drops_holds) (simp add: unheld_def)

context ledger_total
begin

lemma release_all_total:
  obtains en' where "release_all ops rs en = (Inr (), en')"
proof -
  have "\<exists>en'. release_all ops rs en = (Inr (), en')"
  proof (induction rs arbitrary: en)
    case (Cons r rs)
    obtain s' where "lo_release ops (rs_key r) (rs_id r) (be_ledger en) = (Inr (), s')"
      using release_total by blast
    then show ?case using Cons.IH by (simp add: bindE_def on_ledger_def)
  qed simp
  then show ?thesis using that by blast
qed

lemma release_spec:
  assumes "inv (be_ledger en)"
  obtains en' where "release ops pf en = (Inr (), en')" "inv (be_ledger en')"
    "view (be_ledger en') = drops (pf_reservations pf) (view (be_ledger en))"
proof -
  obtain en' where r: "release_all ops (pf_reservations pf) en = (Inr (), en')" by (rule release_all_total)
  with that release_all_spec [OF r assms] show ?thesis by (simp add: release_def)
qed

lemma reserve_windows_error:
  "reserve_windows ops uuid7 n est acc gws en = (Inl e, en') \<Longrightarrow> \<exists>gw. e = exhausted_error gw"
proof (induction gws arbitrary: n acc en)
  case (Cons gw gws)
  obtain ok s' where "lo_reserve ops (gw_ledger_key gw) (limit_cents (gw_budget gw)) est (uuid7 n) (be_ledger en) = (Inr ok, s')"
    using reserve_total by blast
  moreover obtain en1 where "release_all ops acc (en\<lparr>be_ledger := s'\<rparr>) = (Inr (), en1)" by (rule release_all_total)
  ultimately show ?case
    using Cons.prems Cons.IH by (auto simp: bindE_def on_ledger_def Let_def split: if_splits)
qed simp

lemma preflight_error:
  assumes "preflight ops uuid7 ws est en = (Inl e, en')"
  obtains a b c d where "e = BudgetExhausted a b c d"
proof -
  obtain ex dg en1 where sc: "scan_windows ops ws None False en = (Inr (ex, dg), en1)"
    using scan_windows_total by fastforce
  obtain r en2 where rw: "reserve_windows ops uuid7 0 est [] ws en1 = (r, en2)" by fastforce
  have "\<exists>gw. e = exhausted_error gw"
  proof (cases ex)
    case (Some gw)
    with sc assms show ?thesis
      by (simp add: preflight_def bindE_def catchE_def fail_closed_def exhausted_error_def) metis
  next
    case None
    show ?thesis
    proof (cases r)
      case (Inl b)
      then obtain gw where "b = exhausted_error gw" using reserve_windows_error rw by blast
      with sc rw None Inl assms show ?thesis
        by (simp add: preflight_def bindE_def catchE_def fail_closed_def exhausted_error_def) metis
    next
      case (Inr rs)
      with sc rw None assms show ?thesis by (simp add: preflight_def bindE_def catchE_def)
    qed
  qed
  then show ?thesis using that by (auto simp: exhausted_error_def)
qed

lemma settle_window_total: "\<exists>r en'. settle_window ops key i rem p n rs en = (Inr r, en')"
proof (induction rs arbitrary: i rem p n en)
  case (Cons r rs)
  let ?a = "if rs = [] then rem else min (rs_amount_cents r) rem"
  obtain q s' where "lo_settle ops key (rs_id r) ?a (be_ledger en) = (Inr q, s')"
    using settle_total by blast
  then show ?case using Cons.IH by (cases q) (simp add: bindE_def on_ledger_def Let_def)
qed simp

lemma emit_thresholds_total: "\<exists>en'. emit_thresholds ops gw p n pcts en = (Inr (), en')"
proof (induction pcts arbitrary: en)
  case (Cons pct pcts)
  obtain b s' where "lo_flag_once ops (threshold_flag gw pct) (be_ledger en) = (Inr b, s')"
    using flag_total by blast
  then show ?case using Cons.IH by (auto simp: bindE_def on_ledger_def Let_def emit_event_def)
qed simp

lemma settle_groups_total: "\<exists>st' en'. settle_groups ops actual st gs en = (Inr st', en')"
proof (induction gs arbitrary: st en)
  case (Cons g gs)
  obtain key rs where g: "g = (key, rs)" by (cases g)
  obtain p n en1 where w: "settle_window ops key 0 actual 0 0 rs en = (Inr (p, n), en1)"
    using settle_window_total by fastforce
  obtain en2 where "emit_thresholds ops (rs_governing (hd rs)) p n [80, 95, 100] en1 = (Inr (), en2)"
    using emit_thresholds_total by blast
  with w Cons.IH show ?case by (simp add: g bindE_def Let_def)
qed simp

end

text \<open>
  The books of a request in flight, against the ledger \<open>v\<close> and the usage events \<open>U\<close> it started from.
  \<open>holding\<close>: its reservations, on the keys \<open>K\<close>, are all it has changed. \<open>charged c\<close>: its reservations
  are gone, every key of \<open>K\<close> has been charged \<open>c\<close> cents, and one usage event says so.
\<close>

definition keeps_books :: "('s \<Rightarrow> bool) \<Rightarrow> led_view \<Rightarrow> string set \<Rightarrow> 's gateway \<Rightarrow> bool" where
  "keeps_books okl v K g \<longleftrightarrow> okl (be_ledger (gs_engine g)) \<and> unheld v (pf_reservations (gs_preflight g)) \<and>
     rs_key ` set (pf_reservations (gs_preflight g)) = K"

definition holding ::
    "('s \<Rightarrow> bool) \<Rightarrow> ('s \<Rightarrow> led_view) \<Rightarrow> led_view \<Rightarrow> string set \<Rightarrow> usage_event list \<Rightarrow> 's gateway \<Rightarrow> bool" where
  "holding okl view v K U g \<longleftrightarrow> keeps_books okl v K g \<and>
     view (be_ledger (gs_engine g)) = holds (pf_reservations (gs_preflight g)) v \<and> gs_usage g = U"

definition billed :: "led_view \<Rightarrow> led_view \<Rightarrow> string set \<Rightarrow> int \<Rightarrow> bool" where
  "billed v v' K c \<longleftrightarrow> lv_held v' = lv_held v \<and> lv_spent v' = (\<lambda>k. lv_spent v k + (if k \<in> K then c else 0))"

definition charged_as ::
    "('s \<Rightarrow> bool) \<Rightarrow> ('s \<Rightarrow> led_view) \<Rightarrow> led_view \<Rightarrow> string set \<Rightarrow> usage_event list \<Rightarrow> (int \<Rightarrow> usage_event \<Rightarrow> bool) \<Rightarrow> 's gateway \<Rightarrow> bool" where
  "charged_as okl view v K U P g \<longleftrightarrow> keeps_books okl v K g \<and>
     (\<exists>c ev. billed v (view (be_ledger (gs_engine g))) K c \<and> gs_usage g = U @ [ev] \<and> ue_cost_usd ev = of_int c / 100 \<and>
        \<not> ue_cached ev \<and> P c ev)"

abbreviation charged ::
    "('s \<Rightarrow> bool) \<Rightarrow> ('s \<Rightarrow> led_view) \<Rightarrow> led_view \<Rightarrow> string set \<Rightarrow> usage_event list \<Rightarrow> 's gateway \<Rightarrow> bool" where
  "charged okl view v K U \<equiv> charged_as okl view v K U (\<lambda>_ _. True)"

lemma charged_as_charged: "charged_as okl view v K U P g \<Longrightarrow> charged okl view v K U g"
  by (auto simp: charged_as_def)

text \<open>The event reports the tokens and the deployment, and its cost is theirs at the price of that deployment.\<close>

definition priced :: "'s gw_env \<Rightarrow> price_quote \<Rightarrow> string \<Rightarrow> int \<times> int \<Rightarrow> int \<Rightarrow> usage_event \<Rightarrow> bool" where
  "priced E q a used c ev \<longleftrightarrow> (ue_input_tokens ev, ue_output_tokens ev) = used \<and> ue_model_alias ev = a \<and>
     (\<exists>d. ue_deployment ev = map_option dep_id d \<and> c = cost_cents (actual_quote E q a d) (fst used) (snd used))"

definition untouched ::
    "('s \<Rightarrow> bool) \<Rightarrow> ('s \<Rightarrow> led_view) \<Rightarrow> led_view \<Rightarrow> usage_event list \<Rightarrow> 's gateway \<Rightarrow> bool" where
  "untouched okl view v U g \<longleftrightarrow>
     okl (be_ledger (gs_engine g)) \<and> view (be_ledger (gs_engine g)) = v \<and> gs_usage g = U"

lemma untouched_books: "same_books g g' \<Longrightarrow> untouched okl view v U g \<Longrightarrow> untouched okl view v U g'"
  by (simp add: same_books_def untouched_def)

lemma charged_books: "same_books g g' \<Longrightarrow> charged_as okl view v K U P g \<Longrightarrow> charged_as okl view v K U P g'"
  by (simp add: same_books_def charged_as_def keeps_books_def)

lemma holding_books: "same_books g g' \<Longrightarrow> holding okl view v K U g \<Longrightarrow> holding okl view v K U g'"
  by (simp add: same_books_def holding_def keeps_books_def)

lemma record_and_meter_books:
  "gs_engine (record_and_meter E ctx i a d it ot c ca fl dg st ps g) = gs_engine g"
  "gs_preflight (record_and_meter E ctx i a d it ot c ca fl dg st ps g) = gs_preflight g"
  "\<exists>ev. gs_usage (record_and_meter E ctx i a d it ot c ca fl dg st ps g) = gs_usage g @ [ev] \<and> ue_cost_usd ev = c \<and> ue_cached ev = ca \<and>
     ue_input_tokens ev = it \<and> ue_output_tokens ev = ot \<and> ue_model_alias ev = a \<and> ue_deployment ev = map_option dep_id d"
  by (auto simp: record_and_meter_def log_request_def Let_def split: option.split)

lemma schema_fault_format: "isl (validate_output_schema loads conforms text rf) \<Longrightarrow> jtruthy rf"
  by (auto simp: validate_output_schema_def split: if_splits)

context ledger_total
begin

lemma reserve_more_loop_spec:
  assumes "reserve_more_loop ops uuid7 n extra rs pf en = ((r, en'), pf')"
    and "inv (be_ledger en)" and "view (be_ledger en) = holds (pf_reservations pf) v"
    and "\<And>k i. lv_held v k (uuid7 i) = None" and "unheld v (pf_reservations pf)"
    and "rs_key ` set rs \<subseteq> rs_key ` set (pf_reservations pf)"
  shows "inv (be_ledger en') \<and> view (be_ledger en') = holds (pf_reservations pf') v \<and> unheld v (pf_reservations pf') \<and>
    rs_key ` set (pf_reservations pf') = rs_key ` set (pf_reservations pf) \<and> (\<forall>e. r = Inl e \<longrightarrow> (\<exists>gw. e = exhausted_error gw))"
  using assms
proof (induction rs arbitrary: n pf en)
  case Nil
  then show ?case by auto
next
  case (Cons res rs)
  let ?gw = "rs_governing res"
  obtain ok s' where l: "lo_reserve ops (gw_ledger_key ?gw) (limit_cents (gw_budget ?gw)) extra (uuid7 n) (be_ledger en) = (Inr ok, s')"
    using reserve_total by blast
  note s' = reserve_ok [OF Cons.prems(2) l]
  show ?case
  proof (cases ok)
    case False
    with Cons.prems l s' show ?thesis by (auto simp: on_ledger_def Let_def)
  next
    case True
    let ?r = "\<lparr>rs_governing = ?gw, rs_id = uuid7 n, rs_amount_cents = extra\<rparr>"
    let ?pf = "pf\<lparr>pf_reservations := pf_reservations pf @ [?r]\<rparr>"
    have run: "reserve_more_loop ops uuid7 (Suc n) extra rs ?pf (en\<lparr>be_ledger := s'\<rparr>) = ((r, en'), pf')"
      using Cons.prems(1) l True by (simp add: on_ledger_def Let_def)
    have "view s' = holds (pf_reservations ?pf) v" using s' True Cons.prems(3) by simp
    moreover have "unheld v (pf_reservations ?pf)" using Cons.prems(4,5) by (auto simp: unheld_def)
    moreover have "rs_key ` set rs \<subseteq> rs_key ` set (pf_reservations ?pf)" using Cons.prems(6) by auto
    ultimately have "inv (be_ledger en') \<and> view (be_ledger en') = holds (pf_reservations pf') v \<and> unheld v (pf_reservations pf') \<and>
      rs_key ` set (pf_reservations pf') = rs_key ` set (pf_reservations ?pf) \<and> (\<forall>e. r = Inl e \<longrightarrow> (\<exists>gw. e = exhausted_error gw))"
      using Cons.IH [OF run] s' Cons.prems(4) by simp
    moreover have "rs_key ` set (pf_reservations ?pf) = rs_key ` set (pf_reservations pf)" using Cons.prems(6) by auto
    ultimately show ?thesis by simp
  qed
qed

lemma reserve_extra_spec:
  assumes "reserve_extra E extra g = (r, g')" and "ge_ops E = ops" and "holding inv view v K U g"
    and "\<And>k i. lv_held v k (ge_more_uuid E i) = None"
  shows "holding inv view v K U g' \<and> (\<forall>e. r = Inl e \<longrightarrow> e = Budget_exhausted)"
proof (cases "extra \<le> 0")
  case True
  with assms show ?thesis by (auto simp: reserve_extra_def reserve_more_def holding_def keeps_books_def)
next
  case False
  let ?pf = "gs_preflight g"
  obtain x en' pf' where m: "reserve_more_loop ops (ge_more_uuid E) 0 extra (pf_reservations ?pf) ?pf (gs_engine g) = ((x, en'), pf')"
    by (metis prod.exhaust)
  have "inv (be_ledger en') \<and> view (be_ledger en') = holds (pf_reservations pf') v \<and> unheld v (pf_reservations pf') \<and>
    rs_key ` set (pf_reservations pf') = K \<and> (\<forall>e. x = Inl e \<longrightarrow> (\<exists>gw. e = exhausted_error gw))"
    using reserve_more_loop_spec [OF m] assms(3,4) by (simp add: holding_def keeps_books_def)
  with False m assms show ?thesis
    by (auto simp: reserve_extra_def reserve_more_def holding_def keeps_books_def of_budget_error_def exhausted_error_def
        split: sum.splits)
qed

lemma settle_and_meter_spec:
  assumes "ge_ops E = ops" and "holding inv view v K U g"
  obtains g' where "settle_and_meter E ctx (gs_preflight g) q res i a d fl dg status g = (Inr (), g')"
    "charged_as inv view v K U (priced E q a (px_input_tokens res, px_output_tokens res)) g'"
proof -
  let ?pf = "gs_preflight g"
  define c where "c = cost_cents (actual_quote E q a d) (px_input_tokens res) (px_output_tokens res)"
  obtain s en' where st: "settle ops ?pf c (gs_engine g) = (Inr s, en')"
    using settle_groups_total by (metis settle_def)
  have h: "inv (be_ledger (gs_engine g))" "view (be_ledger (gs_engine g)) = holds (pf_reservations ?pf) v"
    "unheld v (pf_reservations ?pf)" "rs_key ` set (pf_reservations ?pf) = K" "gs_usage g = U"
    using assms(2) by (auto simp: holding_def keeps_books_def)
  note ss = settle_spec [OF st h(1)]
  have "lv_held (view (be_ledger en')) k j = lv_held v k j" for k j
    using h(3) holds_other [of k j "pf_reservations ?pf" v] unfolding ss(2) h(2) unheld_def by force
  then have bill: "billed v (view (be_ledger en')) K c"
    using ss(1) h(2,4) by (auto simp: billed_def fun_eq_iff)
  define g2 where "g2 = (case ge_anomaly_multiplier E of
      None \<Rightarrow> g\<lparr>gs_engine := en'\<rparr>
    | Some m \<Rightarrow> g\<lparr>gs_engine := en', gs_anomaly := anomaly_observe (ge_day E) m (ge_now E) (rc_tenant_id ctx) c (gs_anomaly g)\<rparr>)"
  have g2: "gs_engine g2 = en'" "gs_preflight g2 = ?pf" "gs_usage g2 = U"
    using h(5) by (auto simp: g2_def split: option.split)
  let ?g = "record_and_meter E ctx i a d (px_input_tokens res) (px_output_tokens res) (of_int c / 100) False fl dg status
    (Some (pq_source (actual_quote E q a d))) g2"
  have "settle_and_meter E ctx ?pf q res i a d fl dg status g = (Inr (), ?g)"
    using st assms(1) by (simp add: settle_and_meter_def Let_def bindE_def on_engine_def c_def g2_def split: option.split)
  moreover have "charged_as inv view v K U (priced E q a (px_input_tokens res, px_output_tokens res)) ?g"
  proof -
    obtain ev where ev: "gs_usage ?g = U @ [ev]" "ue_cost_usd ev = of_int c / 100" "\<not> ue_cached ev" "ue_input_tokens ev = px_input_tokens res"
      "ue_output_tokens ev = px_output_tokens res" "ue_model_alias ev = a" "ue_deployment ev = map_option dep_id d"
      using record_and_meter_books(3) g2(3) by metis
    then have "priced E q a (px_input_tokens res, px_output_tokens res) c ev" by (auto simp: priced_def c_def)
    then show ?thesis using bill ss(5) h g2 ev by (auto simp: charged_as_def keeps_books_def record_and_meter_books(1,2))
  qed
  ultimately show ?thesis by (rule that)
qed

lemma schema_loop_spec:
  assumes ops: "ge_ops E = ops" and fresh: "\<And>k i. lv_held v k (ge_more_uuid E i) = None"
    and ladder: "resolve_ladder E (rc_tenant_id ctx) (rc_request_class ctx) = Inr (ro_ladder ro)" "ml_rungs (ro_ladder ro) \<noteq> []"
    and "rung_valid (ro_ladder ro) i" and "holding inv view v K U g"
    and "schema_loop E ctx body ro rd se esc i r q g = (res, g')"
  shows "case res of Inr sv \<Rightarrow> holding inv view v K U g'
    | Inl e \<Rightarrow> late_error e \<and> (if uncaught e then holding inv view v K U g' \<and> jtruthy (jget body ''response_format'')
        else holding inv view v K U g' \<or> charged inv view v K U g')"
  using assms(5-)
proof (induction "(if rd then 0 else 1) + (if se then 0 else 1 :: nat)" arbitrary: rd se esc i r q g rule: less_induct)
  case less
  note valid = less.prems(1) and run = less.prems(3)
  obtain cr g1 where call: "call_with_failover E ctx (active_deployments E) r (ro_messages ro) (ro_temperature ro)
      (min (ro_max_tokens ro) (rg_max_tokens r)) body g = (cr, g1)" by fastforce
  note b = call_with_failover_books [OF call ladder]
  have g1: "holding inv view v K U g1" using b less.prems(2) by (blast intro: holding_books)
  show ?case
  proof (cases cr)
    case (Inl e)
    with call b g1 run show ?thesis by (auto simp: schema_loop.simps is_app_error_def)
  next
    case (Inr p)
    obtain result d where p: "p = (result, d)" by (cases p)
    let ?ck = "if opt_or (pd_schema_validation (gp_policy (ro_policy ro))) ''on'' = ''on''
      then validate_output_schema (ge_loads E) (ge_conforms E) (px_content result) (jget body ''response_format'') else Inr None"
    consider (attr) "isl ?ck" | (good) "?ck = Inr None" | (retry) "\<not> isl ?ck" "?ck \<noteq> Inr None" "\<not> rd"
      | (up) "\<not> isl ?ck" "?ck \<noteq> Inr None" "rd" "\<not> se" "may_escalate ctx ro i"
      | (give_up) "\<not> isl ?ck" "?ck \<noteq> Inr None" "rd" "\<not> (\<not> se \<and> may_escalate ctx ro i)" by auto
    then show ?thesis
    proof cases
      case attr
      then have "jtruthy (jget body ''response_format'')" by (auto split: if_splits dest: schema_fault_format)
      with run call Inr p g1 attr show ?thesis by (auto simp: schema_loop.simps Let_def)
    next
      case good
      with run call Inr p g1 show ?thesis by (auto simp: schema_loop.simps Let_def)
    next
      case retry
      have "schema_loop E ctx body ro True se esc i r q g1 = (res, g')"
        using run call Inr p retry by (subst (asm) schema_loop.simps) (auto simp: Let_def)
      with less.hyps [of True se i g1] retry valid g1 show ?thesis by auto
    next
      case up
      then have "i < top_rung (ro_ladder ro)" by (simp add: may_escalate_def)
      then obtain r' where r': "ladder_rung (ro_ladder ro) (i + 1) = Inr r'" "rung_valid (ro_ladder ro) (i + 1)"
        using valid ladder_rung_next by blast
      let ?q = "alias_quote (ge_prices E) (rg_model_alias r')"
      obtain x g2 where x: "reserve_extra E (max 0 (cost_cents ?q (prompt_estimate (ro_messages ro)) (ro_max_tokens ro)
          - pf_estimate_cents (gs_preflight g1))) g1 = (x, g2)" by fastforce
      note e = reserve_extra_spec [OF x ops g1 fresh]
      have "(\<exists>er. x = Inl er \<and> (res, g') = (Inl er, g2)) \<or> schema_loop E ctx body ro True True True (i + 1) r' ?q g2 = (res, g')"
        using run call Inr p up r' x by (subst (asm) schema_loop.simps) (auto simp: Let_def split: sum.splits)
      then show ?thesis
      proof
        assume "\<exists>er. x = Inl er \<and> (res, g') = (Inl er, g2)"
        then show ?thesis using e by auto
      next
        assume "schema_loop E ctx body ro True True True (i + 1) r' ?q g2 = (res, g')"
        with less.hyps [of True True "i + 1" g2 True r' ?q] up(4) r'(2) e show ?thesis by (simp only: if_True if_False)
      qed
    next
      case give_up
      obtain g2 where "settle_and_meter E ctx (gs_preflight g1) q result i (rg_model_alias r) (Some d) (go_flags (ro_guard ro))
          (ro_degrading ro) ''OUTPUT_SCHEMA_INVALID'' g1 = (Inr (), g2)" "charged inv view v K U g2"
        by (rule settle_and_meter_spec [OF ops g1]) (blast dest: charged_as_charged)
      with run call Inr p give_up show ?thesis
        by (subst (asm) schema_loop.simps) (auto simp: Let_def is_app_error_def)
    qed
  qed
qed

lemma serve_non_stream_spec:
  assumes ops: "ge_ops E = ops" and fresh: "\<And>k i. lv_held v k (ge_more_uuid E i) = None"
    and ladder: "resolve_ladder E (rc_tenant_id ctx) (rc_request_class ctx) = Inr (ro_ladder ro)" "ml_rungs (ro_ladder ro) \<noteq> []"
      "rung_valid (ro_ladder ro) (ro_rung_idx ro)"
    and g: "holding inv view v K U g" and run: "serve_non_stream E ctx body ro g = (res, g')"
  shows "case res of Inr pp \<Rightarrow> charged inv view v K U g'
    | Inl e \<Rightarrow> late_error e \<and> (if uncaught e then holding inv view v K U g' \<and> jtruthy (jget body ''response_format'')
        else holding inv view v K U g' \<or> charged inv view v K U g')"
proof -
  obtain x g1 where l: "schema_loop E ctx body ro False False (ro_escalated ro) (ro_rung_idx ro) (ro_rung ro) (ro_quote ro) g = (x, g1)"
    by fastforce
  note s = schema_loop_spec [OF ops fresh ladder g l]
  show ?thesis
  proof (cases x)
    case (Inl e)
    with s l run show ?thesis by (auto simp: serve_non_stream_def bindE_def)
  next
    case (Inr sv)
    let ?a = "rg_model_alias (sv_rung sv)" and ?fl = "go_flags (ro_guard ro)"
    let ?resp = "chat_response E ctx ?a (deredacted (ro_guard ro) (px_content (sv_result sv))) (sv_result sv)"
    define g2 where "g2 = (if ro_cacheable ro \<and> ?fl = []
      then cache_store E (rc_tenant_id ctx) (ro_messages ro) (ro_prompt_hash ro) (ro_context_hash ro) ?resp (ro_ttl ro) (rc_workspace_id ctx) g1
      else g1)"
    have "same_books g1 g2" by (simp add: g2_def)
    then have g2: "holding inv view v K U g2" using s Inr by (auto intro: holding_books)
    obtain g3 where "settle_and_meter E ctx (gs_preflight g2) (sv_quote sv) (sv_result sv) (sv_idx sv) ?a (Some (sv_deployment sv)) ?fl
        (ro_degrading ro) ''ok'' g2 = (Inr (), g3)" "charged inv view v K U g3"
      by (rule settle_and_meter_spec [OF ops g2]) (blast dest: charged_as_charged)
    with l run Inr show ?thesis by (auto simp: serve_non_stream_def bindE_def Let_def g2_def [symmetric])
  qed
qed

lemma release_books:
  assumes "ge_ops E = ops" and "keeps_books inv v K g"
  obtains g' where "on_engine (release (ge_ops E) (gs_preflight g)) g = (Inr (), g')"
    "holding inv view v K U g \<Longrightarrow> untouched inv view v U g'" "charged inv view v K U g \<Longrightarrow> charged inv view v K U g'"
proof -
  let ?rs = "pf_reservations (gs_preflight g)" and ?w = "view (be_ledger (gs_engine g))"
  obtain en' where r: "release ops (gs_preflight g) (gs_engine g) = (Inr (), en')" "inv (be_ledger en')"
    "view (be_ledger en') = drops ?rs ?w"
    using assms(2) by (auto simp: keeps_books_def elim: release_spec)
  have u: "unheld v ?rs" using assms(2) by (simp add: keeps_books_def)
  show ?thesis
  proof (rule that [of "g\<lparr>gs_engine := en'\<rparr>"])
    show "on_engine (release (ge_ops E) (gs_preflight g)) g = (Inr (), g\<lparr>gs_engine := en'\<rparr>)"
      using r assms(1) by (simp add: on_engine_def)
    show "untouched inv view v U (g\<lparr>gs_engine := en'\<rparr>)" if "holding inv view v K U g"
      using that r unheld_drops_holds [OF u] by (simp add: holding_def untouched_def)
    show "charged inv view v K U (g\<lparr>gs_engine := en'\<rparr>)" if c: "charged inv view v K U g"
    proof -
      from c have "lv_held ?w = lv_held v" by (auto simp: charged_as_def billed_def)
      from unheld_drops [OF u this] c r(2,3) assms(2) show ?thesis by (auto simp: charged_as_def billed_def keeps_books_def)
    qed
  qed
qed

lemma preflight_holding:
  assumes run: "on_engine (preflight (ge_ops E) (ge_uuid E) ws est) g = (res, g')" and ops: "ge_ops E = ops"
    and g: "untouched inv view v U g" and fresh: "\<And>k i. lv_held v k (ge_uuid E i) = None"
    and keys: "distinct (map gw_ledger_key ws)"
  shows "case res of
      Inr pf \<Rightarrow> holding inv view v (gw_ledger_key ` set ws) U (g'\<lparr>gs_preflight := pf\<rparr>) \<and> map rs_governing (pf_reservations pf) = ws \<and>
        (\<forall>r \<in> set (pf_reservations pf). rs_amount_cents r = est)
    | Inl e \<Rightarrow> e = Budget_exhausted \<and> untouched inv view v U g'"
proof (cases res)
  case (Inl e)
  then obtain b en where p: "preflight ops (ge_uuid E) ws est (gs_engine g) = (Inl b, en)" "e = of_budget_error b" "g' = g\<lparr>gs_engine := en\<rparr>"
    using run ops by (auto simp: on_engine_Inl)
  obtain x1 x2 x3 x4 where b: "b = BudgetExhausted x1 x2 x3 x4" by (rule preflight_error [OF p(1)])
  have i: "inv (be_ledger (gs_engine g))" and f: "\<And>k i. lv_held (view (be_ledger (gs_engine g))) k (ge_uuid E i) = None"
    using g fresh by (auto simp: untouched_def)
  from preflight_rolls_back [OF p(1) [unfolded b] i f] g p Inl b show ?thesis by (simp add: untouched_def of_budget_error_def)
next
  case (Inr pf)
  then obtain en where p: "preflight ops (ge_uuid E) ws est (gs_engine g) = (Inr pf, en)" "g' = g\<lparr>gs_engine := en\<rparr>"
    using run ops by (auto simp: on_engine_Inr)
  obtain dg en1 where sc: "scan_windows ops ws None False (gs_engine g) = (Inr (None, dg), en1)"
    and rw: "reserve_windows ops (ge_uuid E) 0 est [] ws en1 = (Inr (pf_reservations pf), en)"
    by (rule preflight_Inr [OF p(1)])
  have s: "inv (be_ledger en1)" "view (be_ledger en1) = v"
    using scan_windows_spec [OF sc] g by (auto simp: untouched_def)
  from reserve_windows_ok [OF rw s(1) keys] s(2) have n: "map rs_governing (pf_reservations pf) = ws"
    "map rs_id (pf_reservations pf) = map (ge_uuid E) [0..<length ws]" "\<forall>r \<in> set (pf_reservations pf). rs_amount_cents r = est" "inv (be_ledger en)" "view (be_ledger en) = holds (pf_reservations pf) v"
    by auto
  have "unheld v (pf_reservations pf)"
    unfolding unheld_def
  proof
    fix r assume "r \<in> set (pf_reservations pf)"
    then have "rs_id r \<in> set (map rs_id (pf_reservations pf))" by simp
    then show "lv_held v (rs_key r) (rs_id r) = None" unfolding n(2) using fresh by auto
  qed
  moreover have "rs_key ` set (pf_reservations pf) = gw_ledger_key ` set ws"
    by (simp add: n(1) [symmetric] image_image)
  ultimately show ?thesis using n p g Inr by (simp add: holding_def keeps_books_def untouched_def)
qed

lemma serve_uncached_spec:
  assumes ops: "ge_ops E = ops" and fresh: "\<And>k i. lv_held v k (ge_uuid E i) = None" "\<And>k i. lv_held v k (ge_more_uuid E i) = None"
    and keys: "distinct (map gw_ledger_key ws)"
    and ladder: "resolve_ladder E (rc_tenant_id ctx) (rc_request_class ctx) = Inr (ro_ladder ro)" "ml_rungs (ro_ladder ro) \<noteq> []"
      "rung_valid (ro_ladder ro) (ro_rung_idx ro)"
    and g: "untouched inv view v U g" and run: "serve_uncached E ctx body stream ws est ro g = (res, g')"
  defines "K \<equiv> gw_ledger_key ` set ws"
  shows "case res of
      Inr pp \<Rightarrow> if stream then holding inv view v K U g' \<and> (\<exists>ds. pp_stream pp = Some (Live ro (gs_preflight g') ds)) else charged inv view v K U g'
    | Inl e \<Rightarrow> late_error e \<and> (if uncaught e then holding inv view v K U g' \<and> jtruthy (jget body ''response_format'')
        else untouched inv view v U g' \<or> charged inv view v K U g')"
proof -
  obtain p g1 where pf: "on_engine (preflight (ge_ops E) (ge_uuid E) ws (cost_cents (ro_quote ro) est (ro_max_tokens ro))) g = (p, g1)"
    by fastforce
  note h = preflight_holding [OF pf ops g fresh(1) keys]
  show ?thesis
  proof (cases p)
    case (Inl e)
    with pf h run show ?thesis by (auto simp: serve_uncached_def bindE_def)
  next
    case (Inr pf')
    let ?g = "g1\<lparr>gs_preflight := pf'\<rparr>"
    have hold: "holding inv view v K U ?g" using h Inr by (simp add: K_def)
    obtain x g2 where x: "(if stream then serve_stream E ctx ro else serve_non_stream E ctx body ro) ?g = (x, g2)" by fastforce
    have x_ok: "case x of Inr pp \<Rightarrow> if stream then holding inv view v K U g2 \<and> (\<exists>ds. pp_stream pp = Some (Live ro (gs_preflight g2) ds)) else charged inv view v K U g2
      | Inl e \<Rightarrow> late_error e \<and> (if uncaught e then holding inv view v K U g2 \<and> jtruthy (jget body ''response_format'')
          else holding inv view v K U g2 \<or> charged inv view v K U g2)"
    proof (cases stream)
      case True
      with x hold show ?thesis
        by (auto simp: serve_stream_def split: sum.splits prod.splits dest!: plan_rungs_error [OF ladder(3)])
    next
      case False
      with x have "serve_non_stream E ctx body ro ?g = (x, g2)" by simp
      from serve_non_stream_spec [OF ops fresh(2) ladder hold this] False show ?thesis by (simp split: sum.splits)
    qed
    show ?thesis
    proof (cases x)
      case (Inl e)
      have late: "late_error e" using x_ok Inl by simp
      show ?thesis
      proof (cases "is_app_error e")
        case True
        have h2: "holding inv view v K U g2 \<or> charged inv view v K U g2" using x_ok Inl by (auto split: if_splits)
        then have "keeps_books inv v K g2" by (auto simp: holding_def charged_as_def)
        from release_books [OF ops this, of U] h2 obtain g3 where
          "on_engine (release (ge_ops E) (gs_preflight g2)) g2 = (Inr (), g3)" "untouched inv view v U g3 \<or> charged inv view v K U g3"
          by metis
        with pf Inr x Inl True app_error_caught [OF True] run late show ?thesis by (auto simp: serve_uncached_def bindE_def catch_app_def catchE_def)
      next
        case False
        with x_ok Inl late_app [OF late] have "uncaught e" "holding inv view v K U g2" "jtruthy (jget body ''response_format'')" by auto
        with pf Inr x Inl False late run show ?thesis
          by (auto simp: serve_uncached_def bindE_def catch_app_def catchE_def)
      qed
    next
      case pp: (Inr pp)
      with pf Inr x x_ok run show ?thesis by (auto simp: serve_uncached_def bindE_def catch_app_def catchE_def)
    qed
  qed
qed

lemma degrade_scan_calm:
  assumes "degrade_scan ops ws en = (r, en')" and "inv (be_ledger en)"
  shows "inv (be_ledger en') \<and> view (be_ledger en') = view (be_ledger en)"
  using assms
proof (induction ws arbitrary: en)
  case (Cons gw ws)
  obtain sp re s' where u: "lo_usage ops (gw_ledger_key gw) (be_ledger en) = (Inr (sp, re), s')"
    using usage_total by (metis prod.exhaust)
  note ok = usage_ok [OF Cons.prems(2) u]
  show ?case
  proof (cases "limit_cents (gw_budget gw) \<noteq> 0 \<and> of_int sp \<ge> pct_of (limit_cents (gw_budget gw)) (bud_degrade_pct (gw_budget gw))")
    case True
    with Cons.prems u ok show ?thesis by (auto simp: bindE_def on_ledger_def Let_def)
  next
    case False
    with Cons.prems(1) u have "degrade_scan ops ws (en\<lparr>be_ledger := s'\<rparr>) = (r, en')"
      by (auto simp: bindE_def on_ledger_def Let_def)
    from Cons.IH [OF this] ok show ?thesis by simp
  qed
qed simp

lemma degrading_for_untouched:
  assumes "degrading_for E ctx ws g = (r, g')" and "ge_ops E = ops" and "untouched inv view v U g"
  shows "untouched inv view v U g'"
proof (cases "rc_request_class ctx = ''judge''")
  case True
  with assms show ?thesis by (simp add: degrading_for_def)
next
  case False
  obtain x en where d: "degrade_scan ops ws (gs_engine g) = (x, en)" by fastforce
  have "inv (be_ledger en) \<and> view (be_ledger en) = v"
    using degrade_scan_calm [OF d] assms(3) by (auto simp: untouched_def)
  moreover have "g' = g\<lparr>gs_engine := en\<rparr>"
    using assms(1,2) False d by (auto simp: degrading_for_def catchE_def on_engine_def split: sum.splits if_splits)
  ultimately show ?thesis using assms(3) by (simp add: untouched_def)
qed

lemma chat_route_spec:
  assumes run: "chat_route E ctx body stream ms ws g = (res, g')" and ops: "ge_ops E = ops" and g: "untouched inv view v U g"
  shows "untouched inv view v U g' \<and> (\<forall>ro. res = Inr ro \<longrightarrow>
    resolve_ladder E (rc_tenant_id ctx) (rc_request_class ctx) = Inr (ro_ladder ro) \<and> rung_valid (ro_ladder ro) (ro_rung_idx ro) \<and>
    ladder_rung (ro_ladder ro) (ro_rung_idx ro) = Inr (ro_rung ro))"
proof -
  let ?p = "policy_for (ge_policies E) (rc_tenant_id ctx)"
  obtain x1 g1 where 1: "guard_in E ctx ?p ms g = (x1, g1)" by fastforce
  have u1: "untouched inv view v U g1" using guard_in_books [OF 1] g by (rule untouched_books)
  obtain x2 g2 where 2: "degrading_for E ctx ws g1 = (x2, g2)" by fastforce
  have u2: "untouched inv view v U g2" by (rule degrading_for_untouched [OF 2 ops u1])
  obtain x3 where 3: "escalate_from_of ctx g2 = (x3, g2)"
    by (metis escalate_from_books prod.exhaust)
  have g': "g' = g1 \<or> g' = g2"
    using run 1 2 3 by (auto simp: chat_route_def bindE_def Let_def split: sum.splits prod.splits)
  have "resolve_ladder E (rc_tenant_id ctx) (rc_request_class ctx) = Inr (ro_ladder ro) \<and>
    ladder_rung (ro_ladder ro) (ro_rung_idx ro) = Inr (ro_rung ro)" if "res = Inr ro" for ro
    using run that by (auto simp: chat_route_def bindE_eq_Inr Let_def split: prod.splits)
  then show ?thesis using g' u1 u2 ladder_rung_valid by blast
qed

lemma chat_serve_spec:
  assumes ops: "ge_ops E = ops" and fresh: "\<And>k i. lv_held v k (ge_uuid E i) = None" "\<And>k i. lv_held v k (ge_more_uuid E i) = None"
    and keys: "distinct (map gw_ledger_key (windows_for E ctx))"
    and g: "untouched inv view v U g" and run: "chat_serve E ctx body stream ms est g = (res, g')"
  defines "K \<equiv> gw_ledger_key ` set (windows_for E ctx)"
  shows "case res of
      Inr pp \<Rightarrow> (\<exists>ev. untouched inv view v (U @ [ev]) g' \<and> ue_cached ev \<and> ue_cost_usd ev = 0 \<and> (stream \<longleftrightarrow> (\<exists>a c. pp_stream pp = Some (Replay a c)))) \<or>
        (if stream then holding inv view v K U g' \<and> (\<exists>ro ds. pp_stream pp = Some (Live ro (gs_preflight g') ds)) else charged inv view v K U g')
    | Inl e \<Rightarrow> (uncaught e \<and> holding inv view v K U g' \<and> jtruthy (jget body ''response_format'')) \<or>
        untouched inv view v U g' \<or> charged inv view v K U g'"
proof -
  obtain x g1 where r: "chat_route E ctx body stream ms (windows_for E ctx) g = (x, g1)" by fastforce
  note rs = chat_route_spec [OF r ops g]
  show ?thesis
  proof (cases x)
    case (Inl e)
    with r rs run show ?thesis by (auto simp: chat_serve_def bindE_def Let_def)
  next
    case (Inr ro)
    note l = rs [THEN conjunct2, rule_format, OF Inr]
    have ne: "ml_rungs (ro_ladder ro) \<noteq> []" using l by (auto simp: rung_valid_def)
    consider (hit) tier c where "serve_cached E ctx stream ro tier c g1 = (res, g')"
      | (miss) "serve_uncached E ctx body stream (windows_for E ctx) est ro g1 = (res, g')"
      using run r Inr by (auto simp: chat_serve_def bindE_def Let_def split: if_splits prod.splits option.splits)
    then show ?thesis
    proof cases
      case hit
      let ?g = "record_and_meter E ctx (ro_rung_idx ro) (rg_model_alias (ro_rung ro)) None 0 0 0 True (go_flags (ro_guard ro))
        (ro_degrading ro) ''ok'' None g1"
      obtain ev where "gs_usage ?g = gs_usage g1 @ [ev]" "ue_cost_usd ev = 0" "ue_cached ev"
        using record_and_meter_books(3) by metis
      then have "untouched inv view v (U @ [ev]) ?g" using rs by (simp add: untouched_def record_and_meter_books(1))
      with hit \<open>ue_cached ev\<close> \<open>ue_cost_usd ev = 0\<close> show ?thesis
        by (auto simp: serve_cached_def bindE_def Let_def)
    next
      case miss
      from serve_uncached_spec [OF ops fresh keys _ ne _ conjunct1 [OF rs] miss] l show ?thesis
        by (auto simp: K_def split: sum.splits if_splits)
    qed
  qed
qed

lemma chat_spec:
  assumes ops: "ge_ops E = ops" and fresh: "\<And>k i. lv_held v k (ge_uuid E i) = None" "\<And>k i. lv_held v k (ge_more_uuid E i) = None"
    and keys: "distinct (map gw_ledger_key (windows_for E ctx))"
    and g: "untouched inv view v U g" and run: "chat E ctx body g = (res, g')"
  defines "K \<equiv> gw_ledger_key ` set (windows_for E ctx)" and "stream \<equiv> jtruthy (jget body ''stream'')"
  shows "case res of
      Inr pp \<Rightarrow> (\<exists>ev. untouched inv view v (U @ [ev]) g' \<and> ue_cached ev \<and> ue_cost_usd ev = 0 \<and> (stream \<longleftrightarrow> (\<exists>a c. pp_stream pp = Some (Replay a c)))) \<or>
        (if stream then holding inv view v K U g' \<and> (\<exists>ro ds. pp_stream pp = Some (Live ro (gs_preflight g') ds)) else charged inv view v K U g')
    | Inl e \<Rightarrow> (uncaught e \<and> holding inv view v K U g' \<and> jtruthy (jget body ''response_format'')) \<or>
        untouched inv view v U g' \<or> charged inv view v K U g'"
proof -
  obtain x g1 where a: "chat_admit E ctx body stream g = (x, g1)" by fastforce
  have g1: "untouched inv view v U g1" using chat_admit_books [OF a] g by (rule untouched_books)
  show ?thesis
  proof (cases x)
    case (Inl e)
    with run a have "res = Inl e" "g' = failed_state E ctx False e g1" by (simp_all add: chat_cases stream_def [symmetric])
    then show ?thesis using untouched_books [OF failed_state_books(1) g1] by simp
  next
    case (Inr p)
    obtain ms est where p: "p = (ms, est)" by (cases p)
    obtain y g2 where c: "chat_serve E ctx body stream ms est g1 = (y, g2)" by fastforce
    note s = chat_serve_spec [OF ops fresh keys g1 c, folded K_def]
    show ?thesis
    proof (cases y)
      case (Inl e)
      with run a Inr p c have "res = Inl e" "g' = failed_state E ctx stream e g2" by (simp_all add: chat_cases stream_def [symmetric])
      then show ?thesis using s Inl
        by (auto intro: untouched_books [OF failed_state_books(1)] charged_books [OF failed_state_books(1)] holding_books [OF failed_state_books(1)])
    next
      case pp: (Inr pp)
      with run a Inr p c have "res = Inr pp" "g' = g2" by (simp_all add: chat_cases stream_def [symmetric])
      then show ?thesis using s unfolding pp by (simp only: sum.case)
    qed
  qed
qed

end

subsection \<open>Streams\<close>

text \<open>A step of the generator: the books and the admission counters stay as they are, and it fails only when its client leaves.\<close>

definition quiet :: "('s gateway, gateway_error, 'a) eff \<Rightarrow> bool" where
  "quiet m \<longleftrightarrow> (\<forall>g. same_books g (snd (m g)) \<and> gs_kv (snd (m g)) = gs_kv g \<and> (\<forall>e. fst (m g) = Inl e \<longrightarrow> e = Stream_closed))"

lemma quiet_return: "quiet (returnE x)"
  by (simp add: quiet_def)

lemma quiet_bind:
  assumes "quiet m" and "\<And>x. quiet (f x)"
  shows "quiet (bindE m f)"
  unfolding quiet_def
proof
  fix g
  show "same_books g (snd (bindE m f g)) \<and> gs_kv (snd (bindE m f g)) = gs_kv g \<and> (\<forall>e. fst (bindE m f g) = Inl e \<longrightarrow> e = Stream_closed)"
  proof (cases "m g")
    case (Pair r g1)
    then have m: "same_books g g1" "gs_kv g1 = gs_kv g" "\<forall>e. r = Inl e \<longrightarrow> e = Stream_closed"
      using assms(1) unfolding quiet_def by (metis fst_conv snd_conv)+
    then show ?thesis using Pair assms(2) unfolding quiet_def bindE_def
      by (cases r) (auto intro: same_books_trans)
  qed
qed

lemma quiet_yield: "quiet (yield_chunk c p)"
  by (auto simp: quiet_def yield_chunk_def same_books_def Let_def split: option.splits)

lemma quiet_relay: "quiet (relay_chunks ro d chs st)"
proof (induction chs arbitrary: st)
  case (Cons ch chs)
  then show ?case by (cases ch) (auto simp: Let_def intro!: quiet_bind quiet_yield)
qed (simp add: quiet_return)

lemma quietD:
  "quiet m \<Longrightarrow> m g = (r, g') \<Longrightarrow> same_books g g' \<and> gs_kv g' = gs_kv g \<and> (\<forall>e. r = Inl e \<longrightarrow> e = Stream_closed)"
  unfolding quiet_def by (metis fst_conv snd_conv)

lemma quiet_after:
  "quiet m \<Longrightarrow> (\<And>g. same_books g (h g) \<and> gs_kv (h g) = gs_kv g) \<Longrightarrow> quiet (\<lambda>g. m (h g))"
  unfolding quiet_def by (metis same_books_trans)

lemma breaker_quiet: "same_books g (breaker_note E d ok g) \<and> gs_kv (breaker_note E d ok g) = gs_kv g"
  "same_books g (note_call dep g) \<and> gs_kv (note_call dep g) = gs_kv g"
  by (simp_all add: breaker_note_def note_call_def same_books_def)

lemma quiet_stream_attempts:
  fixes E :: "'s gw_env"
  shows "quiet (stream_attempts E body ro ds st)"
proof (induction ds arbitrary: st)
  case Nil
  then show ?case by (simp add: quiet_def)
next
  case (Cons d ds)
  have step: "quiet (\<lambda>g. if fails then (if ss_streamed_any st1
                then bindE (yield_chunk (Sse_error ''UPSTREAM_UNAVAILABLE'') (ss_patience st1))
                       (\<lambda>p. returnE (st1\<lparr>ss_patience := p\<rparr>)) (breaker_note E (dep_id d) False g)
                else stream_attempts E body ro ds st1 (breaker_note E (dep_id d) False g))
             else if ss_streamed_any st1 then (Inr st1, breaker_note E (dep_id d) True g)
             else stream_attempts E body ro ds st1 g)" for fails st1
    using quiet_after [OF quiet_bind [OF quiet_yield quiet_return] breaker_quiet(1)] quiet_after [OF Cons.IH breaker_quiet(1)] Cons.IH
    by (cases fails; cases "ss_streamed_any st1") (simp_all add: quiet_def breaker_quiet)
  show ?case
    unfolding quiet_def
  proof
    fix g :: "'s gateway"
    obtain chunks fails where s: "ge_stream E (length (gs_calls g)) d
        (provider_request_for d (ro_messages ro) (ro_temperature ro) (ro_max_tokens ro) body True) = (chunks, fails)" by fastforce
    have "quiet (\<lambda>g. bindE (relay_chunks ro d chunks st) (\<lambda>st1 g. if fails then (if ss_streamed_any st1
                then bindE (yield_chunk (Sse_error ''UPSTREAM_UNAVAILABLE'') (ss_patience st1))
                       (\<lambda>p. returnE (st1\<lparr>ss_patience := p\<rparr>)) (breaker_note E (dep_id d) False g)
                else stream_attempts E body ro ds st1 (breaker_note E (dep_id d) False g))
             else if ss_streamed_any st1 then (Inr st1, breaker_note E (dep_id d) True g)
             else stream_attempts E body ro ds st1 g) (note_call d g))" (is "quiet ?m")
      by (rule quiet_after [OF quiet_bind [OF quiet_relay step] breaker_quiet(2)])
    moreover have "stream_attempts E body ro (d # ds) st g = ?m g"
      using s by (simp add: bindE_def Let_def)
    ultimately show "same_books g (snd (stream_attempts E body ro (d # ds) st g)) \<and>
      gs_kv (snd (stream_attempts E body ro (d # ds) st g)) = gs_kv g \<and>
      (\<forall>e. fst (stream_attempts E body ro (d # ds) st g) = Inl e \<longrightarrow> e = Stream_closed)"
      unfolding quiet_def by simp
  qed
qed

text \<open>What the client has received: whether a provider answered, and the last usage it reported.\<close>

definition answered :: "sse_chunk list \<Rightarrow> bool" where
  "answered out \<longleftrightarrow> list_ex (\<lambda>c. case c of Sse_delta _ _ \<Rightarrow> True | Sse_usage _ _ _ \<Rightarrow> True | _ \<Rightarrow> False) out"

definition reported :: "sse_chunk list \<Rightarrow> int \<times> int" where
  "reported out = fold (\<lambda>c u. case c of Sse_usage _ i n \<Rightarrow> (i, n) | _ \<Rightarrow> u) out (0, 0)"

definition tracks :: "sse_chunk list \<Rightarrow> sse_state \<Rightarrow> 's gateway \<Rightarrow> bool" where
  "tracks before0 st g \<longleftrightarrow> (\<exists>out. gs_out g = before0 @ out \<and> ss_streamed_any st = answered out \<and> ss_usage st = reported out)"

lemma yield_out: "yield_chunk c p g = (r, g') \<Longrightarrow> gs_out g' = gs_out g @ [c]"
  by (auto simp: yield_chunk_def Let_def split: option.splits if_splits)

lemma yield_stays: "yield_chunk c None g = (r, g') \<Longrightarrow> r = Inr None"
  by (auto simp: yield_chunk_def Let_def)

lemma relay_tracks:
  assumes "relay_chunks ro d chs st g = (Inr st', g')" and "tracks b st g"
  shows "tracks b st' g'"
  using assms
proof (induction chs arbitrary: st g)
  case Nil
  then show ?case by simp
next
  case (Cons ch chs)
  obtain c p g1 st1 where y: "yield_chunk c (ss_patience st) g = (Inr p, g1)" and rest: "relay_chunks ro d chs st1 g1 = (Inr st', g')"
      and st1: "ss_streamed_any st1" "answered [c]" "ss_usage st1 = (case c of Sse_usage _ i n \<Rightarrow> (i, n) | _ \<Rightarrow> ss_usage st)"
    using Cons.prems(1) by (cases ch) (auto simp: bindE_eq_Inr Let_def answered_def split: if_splits)
  have "tracks b st1 g1"
    using Cons.prems(2) yield_out [OF y] st1 by (auto simp: tracks_def answered_def reported_def split: sse_chunk.splits)
  then show ?case by (rule Cons.IH [OF rest])
qed

lemma relay_stays:
  assumes "relay_chunks ro d chs st g = (r, g')" and "ss_patience st = None"
  shows "\<exists>st'. r = Inr st' \<and> ss_patience st' = None"
  using assms
proof (induction chs arbitrary: st g)
  case (Cons ch chs)
  obtain c st1 where y: "relay_chunks ro d (ch # chs) st g = bindE (yield_chunk c None) (\<lambda>p. relay_chunks ro d chs (st1\<lparr>ss_patience := p\<rparr>)) g"
    using Cons.prems(2) by (cases ch) (fastforce simp: Let_def)+
  obtain x g1 where "yield_chunk c None g = (x, g1)" by fastforce
  with yield_stays [OF this] show ?case using Cons.IH [of "st1\<lparr>ss_patience := None\<rparr>" g1] Cons.prems(1) y by (simp add: bindE_def)
qed auto

lemma out_note [simp]: "gs_out (breaker_note E d ok g) = gs_out g" "gs_out (note_call dep g) = gs_out g"
  by (simp_all add: breaker_note_def note_call_def)

lemma tracks_note [simp]: "tracks b st (breaker_note E d ok g) = tracks b st g" "tracks b st (note_call dep g) = tracks b st g"
  "tracks b (st\<lparr>ss_patience := p\<rparr>) g = tracks b st g"
  by (simp_all add: tracks_def)

lemma attempts_track:
  assumes "stream_attempts E body ro ds st g = (Inr st', g')" and "tracks b st g"
  shows "tracks b st' g'"
  using assms
proof (induction ds arbitrary: st g)
  case (Cons d ds)
  obtain chunks fails where c: "ge_stream E (length (gs_calls g)) d
      (provider_request_for d (ro_messages ro) (ro_temperature ro) (ro_max_tokens ro) body True) = (chunks, fails)" by fastforce
  obtain st1 g1 where rl: "relay_chunks ro d chunks st (note_call d g) = (Inr st1, g1)"
    using Cons.prems(1) c by (auto simp: Let_def split: prod.splits sum.splits)
  have t1: "tracks b st1 g1" using relay_tracks [OF rl] Cons.prems(2) by simp
  show ?case
  proof (cases "fails \<and> ss_streamed_any st1")
    case True
    then obtain p where "yield_chunk (Sse_error ''UPSTREAM_UNAVAILABLE'') (ss_patience st1) (breaker_note E (dep_id d) False g1) = (Inr p, g')"
        and st': "st' = st1\<lparr>ss_patience := p\<rparr>"
      using Cons.prems(1) c rl by (auto simp: Let_def bindE_eq_Inr)
    from yield_out [OF this(1)] t1 show ?thesis by (auto simp: st' tracks_def answered_def reported_def)
  next
    case False
    then show ?thesis using Cons.prems(1) Cons.IH c rl t1 by (auto simp: Let_def split: if_splits)
  qed
qed simp

lemma attempts_stay:
  assumes "stream_attempts E body ro ds st g = (r, g')" and "ss_patience st = None"
  shows "\<exists>st'. r = Inr st' \<and> ss_patience st' = None"
  using assms
proof (induction ds arbitrary: st g)
  case (Cons d ds)
  obtain chunks fails where c: "ge_stream E (length (gs_calls g)) d
      (provider_request_for d (ro_messages ro) (ro_temperature ro) (ro_max_tokens ro) body True) = (chunks, fails)" by fastforce
  obtain x g1 where rl: "relay_chunks ro d chunks st (note_call d g) = (x, g1)" by fastforce
  from relay_stays [OF rl Cons.prems(2)] obtain st1 where st1: "x = Inr st1" "ss_patience st1 = None" by blast
  show ?case
  proof (cases "fails \<and> ss_streamed_any st1")
    case True
    obtain y g2 where "yield_chunk (Sse_error ''UPSTREAM_UNAVAILABLE'') None (breaker_note E (dep_id d) False g1) = (y, g2)" by fastforce
    with yield_stays [OF this] True show ?thesis using Cons.prems(1) c rl st1 by (auto simp: Let_def bindE_def)
  next
    case False
    then show ?thesis using Cons.prems(1) Cons.IH c rl st1 by (auto simp: Let_def split: if_splits)
  qed
qed auto

lemma on_engine_kv: "on_engine m g = (r, g') \<Longrightarrow> gs_kv g' = gs_kv g \<and> gs_out g' = gs_out g"
  by (auto simp: on_engine_def split: prod.splits sum.splits)

lemma record_and_meter_kv [simp]:
  "gs_kv (record_and_meter E ctx i a d it ot c ca fl dg st ps g) = gs_kv g"
  "gs_out (record_and_meter E ctx i a d it ot c ca fl dg st ps g) = gs_out g"
  by (simp_all add: record_and_meter_def log_request_def Let_def split: option.split)

lemma settle_and_meter_kv:
  assumes "settle_and_meter E ctx pf q r i a d fl dg st g = (x, g')"
  shows "gs_kv g' = gs_kv g \<and> gs_out g' = gs_out g"
  using assms
  by (auto simp: settle_and_meter_def Let_def bindE_def dest!: on_engine_kv split: prod.splits sum.splits option.splits)

lemma sse_body_kv:
  assumes run: "sse_body E ctx body ro pf ds p g = (res, g')"
  shows "gs_kv g' = gs_kv g"
proof -
  let ?st0 = "\<lparr>ss_deployment = None, ss_content = [], ss_usage = (0, 0), ss_streamed_any = False, ss_patience = p\<rparr>"
  obtain x g1 where x: "stream_attempts E body ro ds ?st0 g = (x, g1)" by fastforce
  have kv1: "gs_kv g1 = gs_kv g" using quietD [OF quiet_stream_attempts x] by simp
  show ?thesis
  proof (cases x)
    case (Inl e)
    with run x kv1 show ?thesis by (auto simp: sse_body_def bindE_def)
  next
    case (Inr st)
    let ?ys = "bindE (yield_chunk (Sse_error ''UPSTREAM_UNAVAILABLE'') (ss_patience st)) (yield_chunk Sse_done)"
    obtain y g2 where rel: "on_engine (release (ge_ops E) pf) g1 = (y, g2)" by fastforce
    obtain z g3 where ys: "?ys g2 = (z, g3)" by fastforce
    obtain w g4 where dn: "yield_chunk Sse_done (ss_patience st) g1 = (w, g4)" by fastforce
    note kvs = on_engine_kv [OF rel] quietD [OF quiet_bind [OF quiet_yield quiet_yield] ys] quietD [OF quiet_yield dn] kv1
    show ?thesis
    proof (cases "ss_streamed_any st")
      case False
      with run x Inr rel ys kvs show ?thesis
        by (auto simp: sse_body_def bindE_def Let_def log_request_def split: prod.splits sum.splits)
    next
      case True
      with run x Inr dn kvs show ?thesis
        by (auto simp: sse_body_def bindE_def Let_def cache_store_def dest!: settle_and_meter_kv split: prod.splits sum.splits if_splits)
    qed
  qed
qed

context ledger_total
begin

lemma sse_body_spec:
  assumes ops: "ge_ops E = ops" and g: "holding inv view v K U g" and pf: "gs_preflight g = pf"
    and run: "sse_body E ctx body ro pf ds p g = (res, g')"
  shows "case res of
      Inr _ \<Rightarrow> \<exists>out. gs_out g' = gs_out g @ out \<and>
        (if answered out then charged_as inv view v K U (priced E (ro_quote ro) (rg_model_alias (ro_rung ro)) (reported out)) g'
         else untouched inv view v U g')
    | Inl e \<Rightarrow> e = Stream_closed \<and> p \<noteq> None \<and> (untouched inv view v U g' \<or> holding inv view v K U g')"
proof -
  let ?st0 = "\<lparr>ss_deployment = None, ss_content = [], ss_usage = (0, 0), ss_streamed_any = False, ss_patience = p\<rparr>"
  obtain x g1 where x: "stream_attempts E body ro ds ?st0 g = (x, g1)" by fastforce
  note b = quietD [OF quiet_stream_attempts x]
  have g1: "holding inv view v K U g1" "gs_preflight g1 = pf" using b g pf by (auto intro: holding_books simp: same_books_def)
  have stay: "\<exists>st. x = Inr st \<and> ss_patience st = None" if "p = None" using attempts_stay [OF x] that by simp
  show ?thesis
  proof (cases x)
    case (Inl e)
    have "p \<noteq> None" using stay Inl by auto
    with run x b g1 Inl show ?thesis by (auto simp: sse_body_def bindE_def)
  next
    case (Inr st)
    have "tracks (gs_out g) ?st0 g" by (simp add: tracks_def answered_def reported_def)
    then have "tracks (gs_out g) st g1" by (rule attempts_track [OF x [unfolded Inr]])
    then obtain out where out: "gs_out g1 = gs_out g @ out" "ss_streamed_any st = answered out" "ss_usage st = reported out"
      by (auto simp: tracks_def)
    show ?thesis
    proof (cases "ss_streamed_any st")
      case False
      have "keeps_books inv v K g1" using g1(1) by (simp add: holding_def)
      from release_books [OF ops this, of U] g1 obtain g2 where
        g2: "on_engine (release (ge_ops E) pf) g1 = (Inr (), g2)" "untouched inv view v U g2" by metis
      let ?row = "log_row ctx (ro_rung_idx ro) (rg_model_alias (ro_rung ro)) None 0 0 0 False (go_flags (ro_guard ro)) ''UPSTREAM_UNAVAILABLE''"
      obtain y1 g3 where y1: "yield_chunk (Sse_error ''UPSTREAM_UNAVAILABLE'') (ss_patience st) g2 = (y1, g3)" by fastforce
      have u3: "untouched inv view v U g3" "\<forall>e. y1 = Inl e \<longrightarrow> e = Stream_closed" using quietD [OF quiet_yield y1] g2(2) untouched_books by auto
      show ?thesis
      proof (cases y1)
        case 1: (Inl e)
        have "p \<noteq> None" using stay Inr yield_stays y1 1 by fastforce
        then show ?thesis using run x Inr False g2(1) y1 1 u3 by (auto simp: sse_body_def bindE_def Let_def)
      next
        case 1: (Inr q)
        obtain y2 g4 where y2: "yield_chunk Sse_done q g3 = (y2, g4)" by fastforce
        have u4: "untouched inv view v U g4" "\<forall>e. y2 = Inl e \<longrightarrow> e = Stream_closed" using quietD [OF quiet_yield y2] u3(1) untouched_books by auto
        have "(res, g') = (case y2 of Inl e \<Rightarrow> (Inl e, g4) | Inr _ \<Rightarrow> (Inr (), log_request ctx ?row g4))"
          using run x Inr False g2(1) y1 1 y2 by (auto simp: sse_body_def bindE_def Let_def split: sum.splits)
        moreover have "p \<noteq> None" if "isl y2"
        proof
          assume "p = None"
          then have "q = None" using stay Inr y1 1 yield_stays by fastforce
          then show False using y2 yield_stays that by fastforce
        qed
        moreover have "gs_out g4 = gs_out g @ (out @ [Sse_error ''UPSTREAM_UNAVAILABLE'', Sse_done])"
          using yield_out [OF y2] yield_out [OF y1] on_engine_kv [OF g2(1)] out by simp
        ultimately show ?thesis
          using u4 untouched_books [OF same_books_note(5) u4(1)] out(2) False
          by (cases y2) (auto simp: answered_def log_request_def intro!: exI [of _ "out @ [Sse_error ''UPSTREAM_UNAVAILABLE'', Sse_done]"])
      qed
    next
      case True
      obtain y g2 where y: "yield_chunk Sse_done (ss_patience st) g1 = (y, g2)" by fastforce
      note q = quietD [OF quiet_yield y]
      have g2: "holding inv view v K U g2" "gs_preflight g2 = pf" using q g1 by (auto intro: holding_books simp: same_books_def)
      have o2: "gs_out g2 = gs_out g @ (out @ [Sse_done])" using yield_out [OF y] out by simp
      define g3 where "g3 = (if ro_cacheable ro \<and> go_flags (ro_guard ro) = [] \<and> \<not> jtruthy (jget body ''tools'')
        then cache_store E (rc_tenant_id ctx) (ro_messages ro) (ro_prompt_hash ro) (ro_context_hash ro)
          (chat_response E ctx (rg_model_alias (ro_rung ro)) (concat (ss_content st)) (stream_result ro st)) (ro_ttl ro) (rc_workspace_id ctx) g2
        else g2)"
      have "same_books g2 g3" and o3: "gs_out g3 = gs_out g2" by (simp add: g3_def, simp add: g3_def cache_store_def Let_def)
      then have g3: "holding inv view v K U g3" "gs_preflight g3 = pf" using g2 by (auto intro: holding_books simp: same_books_def)
      let ?P = "priced E (ro_quote ro) (rg_model_alias (ro_rung ro)) (reported (out @ [Sse_done]))"
      have used: "(px_input_tokens (stream_result ro st), px_output_tokens (stream_result ro st)) = reported (out @ [Sse_done])"
        using out(3) by (simp add: stream_result_def reported_def)
      obtain g4 where st4: "settle_and_meter E ctx (gs_preflight g3) (ro_quote ro) (stream_result ro st) (ro_rung_idx ro) (rg_model_alias (ro_rung ro))
          (ss_deployment st) (go_flags (ro_guard ro)) (ro_degrading ro) ''ok'' g3 = (Inr (), g4)" "charged_as inv view v K U ?P g4"
        using settle_and_meter_spec [OF ops g3(1), of ctx "ro_quote ro" "stream_result ro st" "ro_rung_idx ro" "rg_model_alias (ro_rung ro)"
          "ss_deployment st" "go_flags (ro_guard ro)" "ro_degrading ro" "''ok''", unfolded used] by metis
      have o4: "gs_out g4 = gs_out g @ (out @ [Sse_done])" using settle_and_meter_kv [OF st4(1)] o2 o3 by simp
      show ?thesis
      proof (cases y)
        case (Inl e)
        have "p \<noteq> None" using stay Inr yield_stays y Inl by fastforce
        then show ?thesis using run x Inr True y Inl q g2(1) by (auto simp: sse_body_def bindE_def Let_def)
      next
        case 2: (Inr _)
        have "res = Inr ()" "g' = g4"
          using run x Inr True y 2 st4(1) g3(2) by (simp_all add: sse_body_def bindE_def Let_def g3_def [symmetric])
        then show ?thesis
          using o4 st4(2) out(2) True by (auto simp: answered_def intro!: exI [of _ "out @ [Sse_done]"])
      qed
    qed
  qed
qed

end

subsection \<open>Requests turned away early\<close>

lemma chat_admit_calls: "chat_admit E ctx body stream g = (r, g') \<Longrightarrow> gs_calls g' = gs_calls g"
  by (auto simp: chat_admit_def bindE_def on_kv_def split: sum.splits prod.splits if_splits)

lemma degrading_for_calls: "degrading_for E ctx ws g = (r, g') \<Longrightarrow> gs_calls g' = gs_calls g"
  by (auto simp: degrading_for_def catchE_def on_engine_def split: sum.splits prod.splits if_splits)

lemma chat_route_calls:
  assumes run: "chat_route E ctx body stream ms ws g = (res, g')"
  shows "gs_calls g' = gs_calls g"
proof -
  let ?p = "policy_for (ge_policies E) (rc_tenant_id ctx)"
  obtain x1 g1 where 1: "guard_in E ctx ?p ms g = (x1, g1)" by fastforce
  have c1: "gs_calls g1 = gs_calls g" using 1 by (auto simp: guard_in_def split: sum.splits)
  obtain x2 g2 where 2: "degrading_for E ctx ws g1 = (x2, g2)" by fastforce
  obtain x3 where 3: "escalate_from_of ctx g2 = (x3, g2)" by (metis escalate_from_books prod.exhaust)
  have "g' = g1 \<or> g' = g2"
    using run 1 2 3 by (auto simp: chat_route_def bindE_def Let_def split: sum.splits prod.splits)
  then show ?thesis using c1 degrading_for_calls [OF 2] by auto
qed

context ledger_total
begin

lemma chat_serve_early:
  assumes ops: "ge_ops E = ops" and fresh: "\<And>k i. lv_held v k (ge_uuid E i) = None" "\<And>k i. lv_held v k (ge_more_uuid E i) = None"
    and keys: "distinct (map gw_ledger_key (windows_for E ctx))"
    and g: "untouched inv view v U g" and run: "chat_serve E ctx body stream ms est g = (Inl e, g')" and early: "\<not> late_error e"
  shows "untouched inv view v U g' \<and> gs_calls g' = gs_calls g"
proof -
  obtain x g1 where r: "chat_route E ctx body stream ms (windows_for E ctx) g = (x, g1)" by fastforce
  note rs = chat_route_spec [OF r ops g]
  show ?thesis
  proof (cases x)
    case (Inl e')
    with r rs run chat_route_calls [OF r] show ?thesis by (auto simp: chat_serve_def bindE_def Let_def)
  next
    case (Inr ro)
    note l = rs [THEN conjunct2, rule_format, OF Inr]
    have ne: "ml_rungs (ro_ladder ro) \<noteq> []" using l by (auto simp: rung_valid_def)
    have "serve_uncached E ctx body stream (windows_for E ctx) est ro g1 = (Inl e, g')"
      using run r Inr by (auto simp: chat_serve_def serve_cached_def bindE_def Let_def split: if_splits prod.splits option.splits)
    from serve_uncached_spec [OF ops fresh keys _ ne _ conjunct1 [OF rs] this] l early show ?thesis by simp
  qed
qed

lemma chat_early:
  assumes ops: "ge_ops E = ops" and fresh: "\<And>k i. lv_held v k (ge_uuid E i) = None" "\<And>k i. lv_held v k (ge_more_uuid E i) = None"
    and keys: "distinct (map gw_ledger_key (windows_for E ctx))"
    and g: "untouched inv view v U g" and run: "chat E ctx body g = (Inl e, g')" and early: "\<not> late_error e"
  shows "untouched inv view v U g' \<and> gs_calls g' = gs_calls g"
proof -
  let ?s = "jtruthy (jget body ''stream'')"
  obtain x g1 where a: "chat_admit E ctx body ?s g = (x, g1)" by fastforce
  have g1: "untouched inv view v U g1" "gs_calls g1 = gs_calls g"
    using untouched_books [OF chat_admit_books [OF a] g] chat_admit_calls [OF a] by auto
  show ?thesis
  proof (cases x)
    case (Inl e')
    with run a have "g' = failed_state E ctx False e' g1" by (auto simp: chat_cases)
    then show ?thesis using untouched_books [OF failed_state_books(1) g1(1)] g1(2) by (simp add: failed_state_books(2))
  next
    case (Inr p)
    obtain ms est where p: "p = (ms, est)" by (cases p)
    obtain y g2 where c: "chat_serve E ctx body ?s ms est g1 = (y, g2)" by fastforce
    with run a Inr p have y: "y = Inl e" and g': "g' = failed_state E ctx ?s e g2"
      by (auto simp: chat_cases split: sum.splits)
    from chat_serve_early [OF ops fresh keys g1(1) c [unfolded y] early] g1(2) show ?thesis
      unfolding g' by (simp add: failed_state_books(2) untouched_books [OF failed_state_books(1)])
  qed
qed

end

subsection \<open>Properties of the data plane\<close>

abbreviation books :: "instant \<Rightarrow> mem_ledger gateway \<Rightarrow> led_view" where
  "books now g \<equiv> mem_view now (be_ledger (gs_engine g))"

text \<open>\<open>ready E now g ctx\<close>: the gateway runs on the in-memory ledger, the UUIDs the request will draw are new, and no two of
  its governing windows share a ledger key.\<close>

definition ready :: "mem_ledger gw_env \<Rightarrow> instant \<Rightarrow> mem_ledger gateway \<Rightarrow> request_ctx \<Rightarrow> bool" where
  "ready E now g ctx \<longleftrightarrow> ge_ops E = mem_ops now \<and> mem_inv (be_ledger (gs_engine g)) \<and>
     (\<forall>k i. lv_held (books now g) k (ge_uuid E i) = None) \<and> (\<forall>k i. lv_held (books now g) k (ge_more_uuid E i) = None) \<and>
     distinct (map gw_ledger_key (windows_for E ctx))"

lemma ready_untouched: "ready E now g ctx \<Longrightarrow> untouched mem_inv (mem_view now) (books now g) (gs_usage g) g"
  by (simp add: ready_def untouched_def)


text \<open>
  C7. A request that is turned away before the pre-flight costs nothing: whatever the reason (the spend
  freeze, the body, the key, a rate cap, a guardrail, the ladder), no provider was called, no
  reservation was made, nothing was charged and no usage event was emitted.
\<close>

theorem rejection_costs_nothing:
  assumes "ready E now g ctx" and "chat E ctx body g = (Inl e, g')" and "\<not> late_error e"
  shows "gs_calls g' = gs_calls g \<and> books now g' = books now g \<and> gs_usage g' = gs_usage g"
proof -
  let ?v = "books now g"
  have r: "ge_ops E = mem_ops now" "\<And>k i. lv_held ?v k (ge_uuid E i) = None" "\<And>k i. lv_held ?v k (ge_more_uuid E i) = None"
    "distinct (map gw_ledger_key (windows_for E ctx))"
    using assms(1) by (auto simp: ready_def)
  from mem.chat_early [OF r(1) r(2) r(3) r(4) ready_untouched [OF assms(1)] assms(2,3)] show ?thesis
    by (simp add: untouched_def)
qed


lemma early_checks_errors:
  "spend_check store tenant = Inl e \<Longrightarrow> e = Spend_frozen"
  "embed_inputs E ctx body = Inl e \<Longrightarrow> e \<in> {Validation_failed_gw, Key_invalid, Permission_denied_key}"
  "batch_tokens xs = Inl e \<Longrightarrow> e = Type_error"
  "on_kv (check_rpm_tpm st now tenant n) g = (Inl e, g') \<Longrightarrow> \<exists>k. e = Rate_limited k"
proof -
  show "spend_check store tenant = Inl e \<Longrightarrow> e = Spend_frozen" by (auto simp: spend_check_def split: option.splits)
  show "embed_inputs E ctx body = Inl e \<Longrightarrow> e \<in> {Validation_failed_gw, Key_invalid, Permission_denied_key}"
    by (auto simp: embed_inputs_def check_key_class_def split: json.splits if_splits sum.splits)
  show "batch_tokens xs = Inl e \<Longrightarrow> e = Type_error"
    by (induction xs) (auto split: option.splits sum.splits)
  show "on_kv (check_rpm_tpm st now tenant n) g = (Inl e, g') \<Longrightarrow> \<exists>k. e = Rate_limited k"
    by (auto simp: on_kv_def check_rpm_tpm_def Let_def split: prod.splits if_splits)
qed

lemma on_kv_books: "on_kv m g = (r, g') \<Longrightarrow> same_books g g' \<and> gs_breaker g' = gs_breaker g"
  by (auto simp: on_kv_def same_books_def split: prod.splits)

text \<open>An embeddings request when no deployment is routable: it is turned away before the pre-flight, or by it, or it fails after it.\<close>

lemma embeddings_unroutable:
  assumes "resolve_ladder E (rc_tenant_id ctx) ''embed'' = Inr l" and "ladder_rung l 0 = Inr r"
    and unroutable: "plan_rungs E (gs_breaker g) (active_deployments E) (rc_cell_cloud ctx) l 0 r = Inl Upstream_unavailable"
    and run: "embeddings E ctx body g = (res, g')"
  obtains (early) e where "res = Inl e" "e \<noteq> Upstream_unavailable" "same_books g g'"
  | (reserved) inputs n g1 x g2 where "embed_inputs E ctx body = Inr inputs" "batch_tokens inputs = Inr n" "same_books g g1"
    "on_engine (preflight (ge_ops E) (ge_uuid E) (windows_for E ctx) (cost_cents (alias_quote (ge_prices E) (rg_model_alias r)) n 0)) g1 = (x, g2)"
    "case x of Inl e \<Rightarrow> res = Inl e \<and> g' = g2 | Inr _ \<Rightarrow> res = Inl Upstream_unavailable \<and> g' = g2"
proof -
  let ?fz = "case ge_freezes E of None \<Rightarrow> Inr () | Some store \<Rightarrow> spend_check store (rc_tenant_id ctx)"
  show ?thesis
  proof (cases ?fz)
    case (Inl e)
    then have "e = Spend_frozen" by (auto split: option.splits dest: early_checks_errors(1))
    then show ?thesis using run Inl by (intro early [of e]) (simp_all add: embeddings_def bindE_def)
  next
    case fz: (Inr u)
    show ?thesis
    proof (cases "embed_inputs E ctx body")
      case (Inl e)
      then show ?thesis using run fz early_checks_errors(2) [OF Inl] by (intro early [of e]) (auto simp: embeddings_def bindE_def)
    next
      case i: (Inr inputs)
      show ?thesis
      proof (cases "batch_tokens inputs")
        case (Inl e)
        then show ?thesis using run fz i early_checks_errors(3) [OF Inl] by (intro early [of e]) (simp_all add: embeddings_def bindE_def)
      next
        case n: (Inr n)
        obtain k g1 where k: "on_kv (check_rpm_tpm (ge_admission E) (ge_now E) (rc_tenant_id ctx) n) g = (k, g1)" by fastforce
        have b: "same_books g g1" "gs_breaker g1 = gs_breaker g" using on_kv_books [OF k] by auto
        show ?thesis
        proof (cases k)
          case (Inl e)
          then show ?thesis using run fz i n k b early_checks_errors(4) [OF k [unfolded Inl]]
            by (intro early [of e]) (auto simp: embeddings_def bindE_def)
        next
          case kr: (Inr _)
          let ?est = "cost_cents (alias_quote (ge_prices E) (rg_model_alias r)) n 0"
          obtain x g2 where p: "on_engine (preflight (ge_ops E) (ge_uuid E) (windows_for E ctx) ?est) g1 = (x, g2)" by fastforce
          have br: "gs_breaker g2 = gs_breaker g" using p b(2) by (auto simp: on_engine_def split: prod.splits sum.splits)
          have "case x of Inl e \<Rightarrow> res = Inl e \<and> g' = g2 | Inr _ \<Rightarrow> res = Inl Upstream_unavailable \<and> g' = g2"
            using run fz i n k kr assms(1,2) p unroutable br by (cases x) (auto simp: embeddings_def bindE_def Let_def)
          then show ?thesis by (rule reserved [OF i n b(1) p])
        qed
      qed
    qed
  qed
qed

text \<open>
  C9. An embeddings request that finds no routable deployment keeps its budget. It always fails: turned away before or by
  the pre-flight, with the books as they were, or with \<open>UpstreamUnavailable\<close> after it. The candidates are looked up
  after the pre-flight and outside the block that releases it, so then the whole estimate of the batch stays
  reserved in every governing window.
\<close>

theorem embeddings_strand_reservation:
  assumes "ready E now g ctx" and "resolve_ladder E (rc_tenant_id ctx) ''embed'' = Inr l" and "ladder_rung l 0 = Inr r"
    and "plan_rungs E (gs_breaker g) (active_deployments E) (rc_cell_cloud ctx) l 0 r = Inl Upstream_unavailable"
    and "embeddings E ctx body g = (res, g')"
  shows "isl res \<and> (if res = Inl Upstream_unavailable
    then \<exists>inputs n rs. embed_inputs E ctx body = Inr inputs \<and> batch_tokens inputs = Inr n \<and> map rs_governing rs = windows_for E ctx \<and>
      (\<forall>x \<in> set rs. rs_amount_cents x = cost_cents (alias_quote (ge_prices E) (rg_model_alias r)) n 0) \<and>
      unheld (books now g) rs \<and> books now g' = holds rs (books now g)
    else books now g' = books now g)"
proof (cases rule: embeddings_unroutable [OF assms(2-5)])
  case 1: (1 e)
  then show ?thesis by (simp add: same_books_def)
next
  case 2: (2 inputs n g1 x g2)
  have rd: "ge_ops E = mem_ops now" "\<And>k i. lv_held (books now g) k (ge_uuid E i) = None" "distinct (map gw_ledger_key (windows_for E ctx))"
    using assms(1) by (auto simp: ready_def)
  note h = mem.preflight_holding [OF 2(4) rd(1) untouched_books [OF 2(3) ready_untouched [OF assms(1)]] rd(2,3)]
  show ?thesis
  proof (cases x)
    case (Inl e)
    then show ?thesis using h 2(5) by (simp add: untouched_def)
  next
    case (Inr pf)
    then show ?thesis using h 2(1,2,5)
      by (auto simp: holding_def keeps_books_def intro!: exI [of _ inputs] exI [of _ n] exI [of _ "pf_reservations pf"])
  qed
qed

subsection \<open>A gateway to try them on\<close>

definition demo_route_dep :: provider_deployment where
  "demo_route_dep = \<lparr>dep_id = ''d1'', dep_provider = ''ollama'', dep_model_family = ''fast-small'', dep_cloud = ''aws'', dep_priority = 1,
     dep_deployment_name = ''small-1'', dep_status = ''active'', dep_deleted_at = None\<rparr>"

definition demo_env :: "mem_ledger gw_env" where
  "demo_env = \<lparr>ge_ops = mem_ops 0, ge_uuid = (\<lambda>n. ''u'' @ py_str_nat n), ge_more_uuid = (\<lambda>n. ''m'' @ py_str_nat n), ge_now = 0,
     ge_day = (\<lambda>_. ''1970-01-01''), ge_platform_tenant = ''p'', ge_freezes = Some [],
     ge_admission = \<lparr>ad_streams_cap_per_tenant = 2, ad_rpm_cap_per_tenant = 10, ad_tpm_cap_per_tenant = 1000\<rparr>,
     ge_cache = \<lparr>cs_ttl_seconds_default = 0, cs_ttl_seconds_max = 60, cs_max_temperature = 1 / 5\<rparr>,
     ge_cache_min_prompt_tokens = 64, ge_embed_batch_max_inputs = 4, ge_policies = (\<lambda>_. None), ge_analyze = (\<lambda>_ _. []),
     ge_score = (\<lambda>_. 0), ge_ladders = (\<lambda>_ _. Some demo_ladder), ge_default_ladders = [], ge_tenant_configs = (\<lambda>_. None),
     ge_window_start = (\<lambda>_ _ _. ''w''), ge_window_reset_at = (\<lambda>_ _ _. 0),
     ge_budget_settings = \<lparr>bs_platform_tenant_id = ''p'', bs_default_tenant_budget_daily_usd = 50, bs_default_tenant_budget_monthly_usd = 0,
       bs_system_budget_daily_usd = 1, bs_system_budget_monthly_usd = 1, bs_default_degrade_pct = 80\<rparr>,
     ge_budgets = [],
     ge_routing = \<lparr>rt_breaker_consecutive_failures = 5, rt_breaker_error_rate_threshold = 1 / 2, rt_breaker_window_seconds = 60,
       rt_breaker_halfopen_after_seconds = 30, rt_probe_failure_threshold = 3\<rparr>,
     ge_health = [], ge_deployments = [demo_route_dep], ge_prices = \<lparr>pt_table = [], pt_provider_table = [(''ollama'', [(''small-1'', (1, 2))])]\<rparr>,
     ge_anomaly_multiplier = None, ge_dumps = (\<lambda>_. []), ge_loads = (\<lambda>_. None), ge_sha256_hex = id, ge_int_of = (\<lambda>_. None),
     ge_float_of = (\<lambda>_. None), ge_conforms = (\<lambda>_ _. Some True), ge_search = (\<lambda>_ _ _ _. None),
     ge_complete = (\<lambda>_ _ _. Inr \<lparr>px_content = ''hi'', px_input_tokens = 10, px_output_tokens = 5, px_model = ''m'', px_finish_reason = ''stop''\<rparr>),
     ge_stream = (\<lambda>_ _ _. ([Chunk_delta ''hi'', Chunk_usage 10 5], False)), ge_embed = (\<lambda>_ _ _. Inl ())\<rparr>"

definition demo_gateway :: "mem_ledger gateway" where
  "demo_gateway = \<lparr>gs_engine = \<lparr>be_ledger = mem_init, be_events = []\<rparr>,
     gs_preflight = \<lparr>pf_reservations = [], pf_degrading = False, pf_governing_state = [], pf_estimate_cents = 0\<rparr>,
     gs_breaker = [], gs_kv = [], gs_cache_kv = [], gs_cache_entries = [], gs_log = [], gs_usage = [], gs_guard_events = [],
     gs_totals = [], gs_anomaly = \<lparr>sa_buckets = [], sa_alerted = [], sa_events = []\<rparr>, gs_calls = [], gs_out = []\<rparr>"

definition demo_req :: request_ctx where
  "demo_req = \<lparr>rc_request_id = ''r1'', rc_tenant_id = ''t'', rc_principal_sub = ''u'',
     rc_key = \<lparr>vk_id = ''k'', vk_tenant_id = ''t'', vk_allowed_request_classes = [''chat'', ''embed''], vk_max_rung = 0\<rparr>,
     rc_request_class = ''chat'', rc_workspace_id = None, rc_cell_cloud = None, rc_escalate = False, rc_prior_request_id = None,
     rc_min_rung = None\<rparr>"

definition demo_body :: "bool \<Rightarrow> (string, json) dict" where
  "demo_body stream = [(''messages'', JArr [JObj [(''role'', JStr ''user''), (''content'', JStr ''hello world!'')]]),
     (''max_tokens'', JInt 20), (''stream'', JBool stream)]"

lemma demo_windows: "map gw_ledger_key (windows_for demo_env demo_req) = [''bud:default-t-daily:w'']"
  by code_simp

lemma demo_ready: "ready demo_env 0 demo_gateway demo_req" "ready (demo_env\<lparr>ge_deployments := []\<rparr>) 0 demo_gateway demo_req"
proof -
  have "windows_for (demo_env\<lparr>ge_deployments := []\<rparr>) demo_req = windows_for demo_env demo_req"
    by (simp add: windows_for_def tenant_prefs_def)
  moreover have "lv_held (mem_view 0 mem_init) k i = None" for k i
    by (simp add: mem_view_def held_of_def mem_init_def live_def)
  ultimately show "ready demo_env 0 demo_gateway demo_req" "ready (demo_env\<lparr>ge_deployments := []\<rparr>) 0 demo_gateway demo_req"
    using demo_windows mem_inv_init
    by (simp_all add: ready_def) (simp_all add: demo_env_def demo_gateway_def)
qed

lemma demo_chat: "\<not> isl (fst (chat demo_env demo_req (demo_body False) demo_gateway))"
  by code_simp


lemma demo_empty: "fst (chat demo_env demo_req [] demo_gateway) = Inl Validation_failed_gw"
  by code_simp

theorem rejection_costs_nothing_witness:
  "gs_calls (snd (chat demo_env demo_req [] demo_gateway)) = [] \<and>
   books 0 (snd (chat demo_env demo_req [] demo_gateway)) = books 0 demo_gateway"
proof -
  have "chat demo_env demo_req [] demo_gateway = (Inl Validation_failed_gw, snd (chat demo_env demo_req [] demo_gateway))"
    using demo_empty by (metis prod.collapse)
  from rejection_costs_nothing [OF demo_ready(1) this] show ?thesis
    by (simp add: late_error_def) (simp add: demo_gateway_def)
qed

definition demo_live :: "pipeline_result \<Rightarrow> bool" where
  "demo_live pp = (case pp_stream pp of Some (Live _ _ _) \<Rightarrow> True | _ \<Rightarrow> False)"

lemma demo_stream:
  "case chat demo_env demo_req (demo_body True) demo_gateway of
     (Inr pp, g1) \<Rightarrow> demo_live pp \<and> isl (fst (run_stream demo_env demo_req (demo_body True) (the (pp_stream pp)) (Some 3) g1))
   | _ \<Rightarrow> False"
  by code_simp


lemma demo_embed:
  "fst (embeddings (demo_env\<lparr>ge_deployments := []\<rparr>) demo_req [(''input'', JStr ''hello'')] demo_gateway) = Inl Upstream_unavailable"
  "plan_rungs (demo_env\<lparr>ge_deployments := []\<rparr>) (gs_breaker demo_gateway) (active_deployments (demo_env\<lparr>ge_deployments := []\<rparr>))
     (rc_cell_cloud demo_req) demo_ladder 0 (hd (ml_rungs demo_ladder)) = Inl Upstream_unavailable"
  "ladder_rung demo_ladder 0 = Inr (hd (ml_rungs demo_ladder))"
  by code_simp+

theorem embeddings_strand_reservation_witness:
  "\<exists>rs. map rs_governing rs = windows_for demo_env demo_req \<and>
     books 0 (snd (embeddings (demo_env\<lparr>ge_deployments := []\<rparr>) demo_req [(''input'', JStr ''hello'')] demo_gateway)) =
       holds rs (books 0 demo_gateway)"
proof -
  let ?E = "demo_env\<lparr>ge_deployments := []\<rparr>"
  let ?r = "embeddings ?E demo_req [(''input'', JStr ''hello'')] demo_gateway"
  have run: "?r = (Inl Upstream_unavailable, snd ?r)" using demo_embed(1) by (metis prod.collapse)
  have l: "resolve_ladder ?E (rc_tenant_id demo_req) ''embed'' = Inr demo_ladder"
    by (simp add: resolve_ladder_def ladder_resolve_def demo_env_def)
  have "windows_for ?E demo_req = windows_for demo_env demo_req" by (simp add: windows_for_def tenant_prefs_def)
  with embeddings_strand_reservation [OF demo_ready(2) l demo_embed(3) demo_embed(2) run] show ?thesis by auto
qed

end
