(* ===== verification/Ingestion_Status.thy ===== *)
theory Ingestion_Status
  imports Prelude
begin

text \<open>
  The status machine of an ingestion job
  (\<open>services/ingestion-service/app/domain/state_machine.py\<close>).

  \<open>status\<close> is the tuple \<open>STATUSES\<close>, \<open>transition_ctx\<close> the dataclass the guards
  read, \<open>TRANSITIONS\<close> the table from status pairs to guards, and
  \<open>validate_transition\<close> the check every state change of the service goes through.
  A Python guard returns a pair of a truth value and a reason; so do the guards here.

  The theory also derives the shape of the table: which statuses have no way out, and that a
  walk of allowed transitions can reach \<open>completed\<close> only through \<open>committing\<close>.
\<close>

subsection \<open>Statuses, context and guards\<close>

datatype status =
    St_created | St_awaiting_upload | St_queued | St_running | St_committing
  | St_retrying | St_completed | St_failed | St_cancelled | St_expired

definition STATUSES :: "status list" where
  "STATUSES = [St_created, St_awaiting_upload, St_queued, St_running, St_committing,
     St_retrying, St_completed, St_failed, St_cancelled, St_expired]"

definition TERMINAL_STATUSES :: "status list" where
  "TERMINAL_STATUSES = [St_completed, St_failed, St_cancelled, St_expired]"

fun status_name :: "status \<Rightarrow> string" where
  "status_name St_created = ''created''"
| "status_name St_awaiting_upload = ''awaiting_upload''"
| "status_name St_queued = ''queued''"
| "status_name St_running = ''running''"
| "status_name St_committing = ''committing''"
| "status_name St_retrying = ''retrying''"
| "status_name St_completed = ''completed''"
| "status_name St_failed = ''failed''"
| "status_name St_cancelled = ''cancelled''"
| "status_name St_expired = ''expired''"

record transition_ctx =
  tc_ingestion_mode :: "string option"
  tc_upload_session_opened :: bool
  tc_payload_valid :: bool
  tc_slot_available :: bool
  tc_rows_decoded :: int
  tc_allow_empty :: bool
  tc_commit_ok :: bool
  tc_attempts :: int
  tc_max_attempts :: int
  tc_error_log_present :: bool
  tc_committed :: bool

definition TransitionContext :: transition_ctx where
  "TransitionContext =
     \<lparr>tc_ingestion_mode = None, tc_upload_session_opened = False, tc_payload_valid = False,
      tc_slot_available = False, tc_rows_decoded = 0, tc_allow_empty = False,
      tc_commit_ok = False, tc_attempts = 0, tc_max_attempts = 5,
      tc_error_log_present = False, tc_committed = False\<rparr>"

type_synonym guard = "transition_ctx \<Rightarrow> bool \<times> string"

definition g_upload_opened :: guard where
  "g_upload_opened c =
     (tc_ingestion_mode c = Some ''file_upload'' \<and> tc_upload_session_opened c,
      ''file_upload mode with an open upload session required'')"

definition g_payload_valid :: guard where
  "g_payload_valid c = (tc_payload_valid c, ''payload validation must pass'')"

definition g_slot :: guard where
  "g_slot c = (tc_slot_available c, ''tenant concurrency slot required (ING-FR-082)'')"

definition g_rows :: guard where
  "g_rows c =
     (tc_rows_decoded c \<ge> 1 \<or> tc_allow_empty c,
      ''>=1 decoded row or allow_empty=true required'')"

definition g_commit_ok :: guard where
  "g_commit_ok c = (tc_commit_ok c, ''single atomic Iceberg commit must succeed'')"

definition g_attempts :: guard where
  "g_attempts c = (tc_attempts c < tc_max_attempts c, ''retry attempts exhausted'')"

definition g_always :: guard where
  "g_always c = (True, '''')"

definition g_error_log :: guard where
  "g_error_log c = (tc_error_log_present c, ''error_log must be populated'')"

definition g_uncommitted :: guard where
  "g_uncommitted c = (\<not> tc_committed c, ''only uncommitted jobs can be cancelled'')"

lemmas guard_defs = g_upload_opened_def g_payload_valid_def g_slot_def g_rows_def
  g_commit_ok_def g_attempts_def g_always_def g_error_log_def g_uncommitted_def

subsection \<open>The table and its check\<close>

definition TRANSITIONS :: "(status \<times> status, guard) dict" where
  "TRANSITIONS =
     [((St_created, St_awaiting_upload), g_upload_opened),
      ((St_created, St_queued), g_payload_valid),
      ((St_awaiting_upload, St_queued), g_payload_valid),
      ((St_queued, St_running), g_slot),
      ((St_running, St_committing), g_rows),
      ((St_committing, St_completed), g_commit_ok),
      ((St_running, St_retrying), g_attempts),
      ((St_committing, St_retrying), g_attempts),
      ((St_retrying, St_running), g_always),
      ((St_retrying, St_failed), g_error_log),
      ((St_running, St_failed), g_error_log),
      ((St_committing, St_failed), g_error_log),
      ((St_created, St_cancelled), g_uncommitted),
      ((St_awaiting_upload, St_cancelled), g_uncommitted),
      ((St_queued, St_cancelled), g_uncommitted),
      ((St_running, St_cancelled), g_uncommitted),
      ((St_awaiting_upload, St_expired), g_always)]"

definition allowed_targets :: "status \<Rightarrow> status list" where
  "allowed_targets from_status = [snd p. p \<leftarrow> map fst TRANSITIONS, fst p = from_status]"

datatype transition_error =
    IllegalTransitionError status status
  | GuardFailedError status status string

definition validate_transition ::
    "status \<Rightarrow> status \<Rightarrow> transition_ctx \<Rightarrow> transition_error + unit" where
  "validate_transition from_status to_status ctx =
     (case map_of TRANSITIONS (from_status, to_status) of
        None \<Rightarrow> Inl (IllegalTransitionError from_status to_status)
      | Some guard \<Rightarrow>
          (case guard ctx of (ok, reason) \<Rightarrow>
             if \<not> ok then Inl (GuardFailedError from_status to_status reason) else Inr ()))"

subsection \<open>The shape of the table\<close>

definition edge :: "status \<Rightarrow> status \<Rightarrow> bool" where
  "edge a b = (map_of TRANSITIONS (a, b) \<noteq> None)"

lemma validate_edge: "validate_transition a b c = Inr () \<Longrightarrow> edge a b"
  by (auto simp: validate_transition_def edge_def split: option.splits)

lemma edge_allowed: "edge a b \<longleftrightarrow> b \<in> set (allowed_targets a)"
proof -
  have "edge a b \<longleftrightarrow> (a, b) \<in> fst ` set TRANSITIONS"
    by (simp add: edge_def map_of_eq_None_iff)
  also have "\<dots> \<longleftrightarrow> b \<in> set (allowed_targets a)"
    by (force simp: allowed_targets_def)
  finally show ?thesis .
qed

lemma edge_simps [simp]:
  "edge St_created b \<longleftrightarrow> b = St_awaiting_upload \<or> b = St_queued \<or> b = St_cancelled"
  "edge St_awaiting_upload b \<longleftrightarrow> b = St_queued \<or> b = St_cancelled \<or> b = St_expired"
  "edge St_queued b \<longleftrightarrow> b = St_running \<or> b = St_cancelled"
  "edge St_running b \<longleftrightarrow> b = St_committing \<or> b = St_retrying \<or> b = St_failed \<or> b = St_cancelled"
  "edge St_committing b \<longleftrightarrow> b = St_completed \<or> b = St_retrying \<or> b = St_failed"
  "edge St_retrying b \<longleftrightarrow> b = St_running \<or> b = St_failed"
  "\<not> edge St_completed b" "\<not> edge St_failed b" "\<not> edge St_cancelled b" "\<not> edge St_expired b"
  by (cases b; simp add: edge_def TRANSITIONS_def)+

lemma terminal_no_edge: "a \<in> set TERMINAL_STATUSES \<Longrightarrow> \<not> edge a b"
  by (auto simp: TERMINAL_STATUSES_def)

lemma no_edge_terminal: "(\<And>b. \<not> edge a b) \<Longrightarrow> a \<in> set TERMINAL_STATUSES"
  by (cases a) (auto simp: TERMINAL_STATUSES_def)

lemma edge_to_completed: "edge a St_completed \<longleftrightarrow> a = St_committing"
  by (cases a) auto

lemma edge_to_cancelled: "edge a St_cancelled \<Longrightarrow> a \<notin> {St_committing, St_retrying}"
  by (cases a) auto

lemma edge_to_running: "edge a St_running \<longleftrightarrow> a = St_queued \<or> a = St_retrying"
  by (cases a) auto

subsection \<open>Walks through the table\<close>

fun walk :: "status \<Rightarrow> (status \<times> status) list \<Rightarrow> status \<Rightarrow> bool" where
  "walk a [] b \<longleftrightarrow> a = b"
| "walk a ((x, y) # es) b \<longleftrightarrow> a = x \<and> edge x y \<and> walk y es b"

lemma walk_append: "walk a (es @ fs) c \<longleftrightarrow> (\<exists>b. walk a es b \<and> walk b fs c)"
  by (induction a es c rule: walk.induct) auto

lemma walk_snoc: "walk a es b \<Longrightarrow> edge b c \<Longrightarrow> walk a (es @ [(b, c)]) c"
  by (auto simp: walk_append)

lemma walk_terminal: "a \<in> set TERMINAL_STATUSES \<Longrightarrow> walk a es b \<Longrightarrow> es = [] \<and> b = a"
  by (cases es) (auto dest: terminal_no_edge)

lemma walk_completed_committing:
  "walk a es St_completed \<Longrightarrow> a \<noteq> St_completed \<Longrightarrow>
   (St_committing, St_completed) \<in> set es"
proof (induction a es "St_completed" rule: walk.induct)
  case (2 a x y es)
  then show ?case by (cases "y = St_completed") (auto simp: edge_to_completed)
qed simp

lemma status_reachable: "\<exists>es. walk St_created es b"
proof -
  let ?q = "[(St_created, St_queued)]"
  let ?r = "?q @ [(St_queued, St_running)]"
  let ?c = "?r @ [(St_running, St_committing)]"
  let ?u = "[(St_created, St_awaiting_upload)]"
  have "walk St_created
          (case b of St_created \<Rightarrow> [] | St_awaiting_upload \<Rightarrow> ?u | St_queued \<Rightarrow> ?q | St_running \<Rightarrow> ?r
           | St_committing \<Rightarrow> ?c | St_retrying \<Rightarrow> ?r @ [(St_running, b)]
           | St_completed \<Rightarrow> ?c @ [(St_committing, b)] | St_failed \<Rightarrow> ?r @ [(St_running, b)]
           | St_cancelled \<Rightarrow> [(St_created, b)] | St_expired \<Rightarrow> ?u @ [(St_awaiting_upload, b)]) b"
    by (cases b) simp_all
  then show ?thesis by blast
qed

text \<open>The terminal statuses are exactly those no allowed transition leaves, every status
  is reachable from \<open>created\<close>, and any walk of allowed transitions from \<open>created\<close> to
  \<open>completed\<close> passes through the commit step \<open>committing \<rightarrow> completed\<close>, whose guard is
  that the single snapshot commit succeeded.\<close>

theorem status_machine_shape:
  "(\<forall>a. (a \<in> set TERMINAL_STATUSES) = (allowed_targets a = [])) \<and>
   (\<forall>b \<in> set STATUSES. \<exists>es. walk St_created es b) \<and>
   (\<forall>es. walk St_created es St_completed \<longrightarrow> (St_committing, St_completed) \<in> set es) \<and>
   (\<forall>a c. validate_transition a St_completed c = Inr () \<longrightarrow> a = St_committing \<and> tc_commit_ok c)"
proof (intro conjI allI ballI impI)
  show "(a \<in> set TERMINAL_STATUSES) = (allowed_targets a = [])" for a
    by (metis edge_allowed equals0D no_edge_terminal set_empty terminal_no_edge ex_in_conv)
next
  show "\<exists>es. walk St_created es b" for b by (rule status_reachable)
next
  show "(St_committing, St_completed) \<in> set es" if "walk St_created es St_completed" for es
    using that by (rule walk_completed_committing) simp
next
  fix a c
  assume v: "validate_transition a St_completed c = Inr ()"
  then show "a = St_committing" using validate_edge edge_to_completed by blast
  with v show "tc_commit_ok c"
    by (simp add: validate_transition_def TRANSITIONS_def g_commit_ok_def split: if_splits)
qed

theorem status_machine_shape_witness:
  "St_failed \<in> set TERMINAL_STATUSES \<and> allowed_targets St_failed = [] \<and>
   (\<exists>es. walk St_created es St_retrying) \<and>
   validate_transition St_committing St_completed (TransitionContext\<lparr>tc_commit_ok := True\<rparr>) = Inr ()"
proof -
  have "St_retrying \<in> set STATUSES" by (simp add: STATUSES_def)
  then show ?thesis
    using status_machine_shape
    by (simp add: TERMINAL_STATUSES_def validate_transition_def TRANSITIONS_def g_commit_ok_def
        TransitionContext_def) (auto simp: TERMINAL_STATUSES_def)
qed

end
