(* ===== verification/Ingestion_Store.thy ===== *)
theory Ingestion_Store
  imports Ingestion_Status
begin

text \<open>
  What the ingestion service stores, and the one gate through which a job changes status.

  \<open>ingestion\<close>, \<open>ing_upload\<close>, \<open>upload_part\<close>, \<open>connection\<close>, \<open>ing_transition\<close> and
  \<open>outbox_event\<close> are the tables of \<open>app/store/models.py\<close> (primary keys of the two
  append-only tables and trace ids, which no code of the service reads, are left out).
  \<open>ing_db\<close> is the database, \<open>world\<close> the database with the object store and the snapshot
  ledger of the table writer, neither of which is transactional.

  A \<open>tenant_session\<close> block is \<open>session\<close>: its body works on a copy of the database, kept
  beside the last committed one; \<open>commit\<close> publishes the copy, and whatever is not committed
  when the block is left, normally or by an exception, is lost.

  \<open>record_transition\<close> is \<open>app/domain/services/transitions.py\<close>. \<open>db_inv\<close> is the
  invariant of the job tables and \<open>evolves\<close> the promise about their history; both are stated
  here, with the rules through which every operation of the service is shown to keep them.
\<close>

subsection \<open>Rows\<close>

record ingestion =
  ing_id :: string
  ing_tenant :: string
  ing_workspace :: string
  ing_connection :: "string option"
  ing_dataset_urn :: "string option"
  ing_new_dataset :: "(string \<times> json) list option"
  ing_mode :: string
  ing_file_format :: "string option"
  ing_statement :: "string option"
  ing_status :: status
  ing_trigger :: string
  ing_schedule :: "string option"
  ing_scheduled_for :: "instant option"
  ing_skip_profiling :: bool
  ing_allow_empty :: bool
  ing_bytes_total :: "int option"
  ing_bytes_received :: int
  ing_rows_appended :: int
  ing_snapshot_id :: "int option"
  ing_error_log :: "json option"
  ing_error_row_limit :: int
  ing_attempts :: int
  ing_retried_from :: "string option"
  ing_started_at :: "instant option"
  ing_finished_at :: "instant option"
  ing_created_by :: "string option"

record ing_upload =
  up_id :: string
  up_tenant :: string
  up_ingestion :: string
  up_part_size :: int
  up_storage_prefix :: string
  up_sha256 :: "string option"
  up_bytes_total :: "int option"
  up_status :: string
  up_expires_at :: instant

record upload_part =
  pt_upload :: string
  pt_n :: int
  pt_tenant :: string
  pt_etag :: string
  pt_size :: int
  pt_storage_key :: string

record connection =
  cn_tenant :: string
  cn_connector_type :: string
  cn_config :: json
  cn_vault_ref :: "string option"
  cn_deleted_at :: "instant option"

record ing_transition =
  tr_tenant :: string
  tr_ingestion :: string
  tr_from :: status
  tr_to :: status
  tr_actor :: "json option"
  tr_detail :: "json option"

record outbox_event =
  ev_tenant :: string
  ev_type :: string
  ev_resource_urn :: string
  ev_actor :: json
  ev_via_agent :: "json option"
  ev_payload :: json

record snapshot =
  sn_snapshot_id :: int
  sn_rows :: int
  sn_bytes :: int
  sn_columns :: "string list"
  sn_ingestion_id :: string
  sn_source :: string

record ing_db =
  ingestions :: "(string, ingestion) dict"
  transitions :: "ing_transition list"
  outbox :: "outbox_event list"
  uploads :: "(string, ing_upload) dict"
  upload_parts :: "(string \<times> int, upload_part) dict"
  connections :: "(string, connection) dict"

record world =
  db :: ing_db
  snapshots :: "(string, snapshot list) dict"
  objects :: "(string, string) dict"

datatype error_category =
    SOURCE_UNREACHABLE | AUTH_FAILED | SCHEMA_MISMATCH | DECODE_ERROR | ROW_LIMIT_EXCEEDED
  | TIMEOUT | QUOTA_EXCEEDED | INTERNAL

datatype ing_error =
    ValidationFailedError string
  | NotFoundError
  | ConflictError string
  | TransitionError transition_error
  | UploadExpiredError
  | ChecksumMismatchError
  | PayloadTooLargeError
  | RateLimitedError
  | NotImplementedFeatureError
  | TransientSourceError error_category string
  | PermanentJobError error_category string "json list" "string option"
  | IntegrityError
  | NoResultFound
  | MultipleResultsFound
  | FileNotFound string
  | KeyMissing

type_synonym 'a app = "(world, ing_error, 'a) eff"
type_synonym 'a tx = "(ing_db \<times> world, ing_error, 'a) eff"

subsection \<open>Sessions\<close>

definition session :: "'a tx \<Rightarrow> 'a app" where
  "session m w = (case m (db w, w) of (r, (c, w')) \<Rightarrow> (r, w'\<lparr>db := c\<rparr>))"

definition commit :: "unit tx" where
  "commit s = (Inr (), (db (snd s), snd s))"

definition query :: "(ing_db \<Rightarrow> 'a) \<Rightarrow> 'a tx" where
  "query q s = (Inr (q (db (snd s))), s)"

definition change :: "(ing_db \<Rightarrow> ing_db) \<Rightarrow> unit tx" where
  "change f s = (Inr (), (fst s, (snd s)\<lparr>db := f (db (snd s))\<rparr>))"

definition scalar_one :: "'a option \<Rightarrow> 'a tx" where
  "scalar_one x = (case x of None \<Rightarrow> raiseE NoResultFound | Some v \<Rightarrow> returnE v)"

definition select_ing :: "string \<Rightarrow> ingestion option tx" where
  "select_ing i = query (\<lambda>d. map_of (ingestions d) i)"

definition put_ing :: "string \<Rightarrow> ingestion \<Rightarrow> ing_db \<Rightarrow> ing_db" where
  "put_ing i j d = d\<lparr>ingestions := AList.update i j (ingestions d)\<rparr>"

definition edit_ing :: "string \<Rightarrow> (ingestion \<Rightarrow> ingestion) \<Rightarrow> unit tx" where
  "edit_ing i f =
     change (\<lambda>d. case map_of (ingestions d) i of None \<Rightarrow> d | Some j \<Rightarrow> put_ing i (f j) d)"

definition insert_ing :: "ingestion \<Rightarrow> unit tx" where
  "insert_ing j = bindE (select_ing (ing_id j)) (\<lambda>old.
     if old \<noteq> None then raiseE IntegrityError else change (put_ing (ing_id j) j))"

subsection \<open>Events and transitions\<close>

definition SERVICE_ACTOR :: json where
  "SERVICE_ACTOR = JObj [(''type'', JStr ''service''), (''id'', JStr ''ingestion-service'')]"

definition emit_event ::
    "string \<Rightarrow> string \<Rightarrow> string \<Rightarrow> json \<Rightarrow> json option \<Rightarrow> json option \<Rightarrow> ing_db \<Rightarrow> ing_db" where
  "emit_event tenant_id event_type resource_urn payload actor via_agent d =
     d\<lparr>outbox := outbox d @
        [\<lparr>ev_tenant = tenant_id, ev_type = event_type, ev_resource_urn = resource_urn,
          ev_actor = (case actor of Some (JObj []) \<Rightarrow> SERVICE_ACTOR | Some a \<Rightarrow> a | None \<Rightarrow> SERVICE_ACTOR),
          ev_via_agent = via_agent, ev_payload = payload\<rparr>]\<rparr>"

definition EVENT_BY_STATUS :: "(status, string) dict" where
  "EVENT_BY_STATUS =
     [(St_running, ''ingestion.started''), (St_completed, ''ingestion.completed''),
      (St_failed, ''ingestion.failed''), (St_cancelled, ''ingestion.cancelled''),
      (St_expired, ''upload.expired'')]"

definition ingestion_urn :: "ingestion \<Rightarrow> string" where
  "ingestion_urn ing = ''wr:'' @ ing_tenant ing @ '':ingestion:ingestion/'' @ ing_id ing"

record transition_args =
  ta_actor :: "json option"
  ta_via_agent :: "json option"
  ta_detail :: "json option"
  ta_event_payload :: "(string \<times> json) list option"

definition no_args :: transition_args where
  "no_args = \<lparr>ta_actor = None, ta_via_agent = None, ta_detail = None, ta_event_payload = None\<rparr>"

definition transition_payload ::
    "ingestion \<Rightarrow> status \<Rightarrow> (string \<times> json) list option \<Rightarrow> json" where
  "transition_payload ing to_status given =
     (case given of
        Some (x # xs) \<Rightarrow> JObj (x # xs)
      | _ \<Rightarrow> JObj [(''ingestion_id'', JStr (ing_id ing)),
                   (''from_status'', JStr (status_name (ing_status ing))),
                   (''to_status'', JStr (status_name to_status))])"

definition record_transition ::
    "string \<Rightarrow> status \<Rightarrow> transition_ctx \<Rightarrow> transition_args \<Rightarrow> unit tx" where
  "record_transition i to_status ctx args =
     bindE (select_ing i) (\<lambda>row. bindE (scalar_one row) (\<lambda>ing.
       case validate_transition (ing_status ing) to_status ctx of
         Inl e \<Rightarrow> raiseE (TransitionError e)
       | Inr _ \<Rightarrow> change (\<lambda>d.
           emit_event (ing_tenant ing)
             (case map_of EVENT_BY_STATUS to_status of None \<Rightarrow> ''ingestion.transitioned'' | Some t \<Rightarrow> t)
             (ingestion_urn ing) (transition_payload ing to_status (ta_event_payload args))
             (ta_actor args) (ta_via_agent args)
           ((put_ing i (ing\<lparr>ing_status := to_status\<rparr>) d)\<lparr>transitions := transitions d @
              [\<lparr>tr_tenant = ing_tenant ing, tr_ingestion = ing_id ing, tr_from = ing_status ing,
                tr_to = to_status, tr_actor = ta_actor args, tr_detail = ta_detail args\<rparr>]\<rparr>))))"

subsection \<open>The invariant of the job tables\<close>

definition history :: "ing_db \<Rightarrow> string \<Rightarrow> (status \<times> status) list" where
  "history d i =
     map (\<lambda>t. (tr_from t, tr_to t)) (filter (\<lambda>t. tr_ingestion t = i) (transitions d))"

definition row_ok :: "ingestion \<Rightarrow> bool" where
  "row_ok j \<longleftrightarrow>
     (ing_status j = St_completed \<longrightarrow> ing_snapshot_id j \<noteq> None) \<and>
     (ing_status j = St_failed \<longrightarrow> ing_error_log j \<noteq> None)"

definition job_ok :: "ing_db \<Rightarrow> string \<Rightarrow> ingestion \<Rightarrow> bool" where
  "job_ok d i j \<longleftrightarrow> ing_id j = i \<and> row_ok j \<and> walk St_created (history d i) (ing_status j)"

definition db_inv :: "ing_db \<Rightarrow> bool" where
  "db_inv d \<longleftrightarrow>
     distinct (map fst (ingestions d)) \<and>
     (\<forall>i j. map_of (ingestions d) i = Some j \<longrightarrow> job_ok d i j) \<and>
     (\<forall>t \<in> set (transitions d). map_of (ingestions d) (tr_ingestion t) \<noteq> None)"

definition evolves :: "ing_db \<Rightarrow> ing_db \<Rightarrow> bool" where
  "evolves d d' \<longleftrightarrow>
     (\<forall>i j. map_of (ingestions d) i = Some j \<longrightarrow>
        (\<exists>j' es. map_of (ingestions d') i = Some j' \<and> ing_tenant j' = ing_tenant j \<and>
           ing_dataset_urn j' = ing_dataset_urn j \<and>
           walk (ing_status j) es (ing_status j') \<and> history d' i = history d i @ es))"

definition empty_db :: ing_db where
  "empty_db = \<lparr>ingestions = [], transitions = [], outbox = [], uploads = [],
     upload_parts = [], connections = []\<rparr>"

definition empty_world :: world where
  "empty_world = \<lparr>db = empty_db, snapshots = [], objects = []\<rparr>"

lemma db_inv_empty [simp]: "db_inv empty_db"
  by (simp add: db_inv_def empty_db_def)

lemma evolvesI:
  assumes "\<And>i j. map_of (ingestions d) i = Some j \<Longrightarrow>
     \<exists>j' es. map_of (ingestions d') i = Some j' \<and> ing_tenant j' = ing_tenant j \<and>
           ing_dataset_urn j' = ing_dataset_urn j \<and>
           walk (ing_status j) es (ing_status j') \<and> history d' i = history d i @ es"
  shows "evolves d d'"
  using assms unfolding evolves_def by blast

lemma evolvesE:
  assumes "evolves d d'" and "map_of (ingestions d) i = Some j"
  obtains j' es where "map_of (ingestions d') i = Some j'" "ing_tenant j' = ing_tenant j"
    "ing_dataset_urn j' = ing_dataset_urn j" "walk (ing_status j) es (ing_status j')"
    "history d' i = history d i @ es"
  using assms unfolding evolves_def by blast

lemma evolves_other_tables:
  assumes "ingestions d' = ingestions d" and "transitions d' = transitions d"
  shows "evolves d d'"
proof (rule evolvesI)
  fix i j
  assume "map_of (ingestions d) i = Some j"
  with assms show "\<exists>j' es. map_of (ingestions d') i = Some j' \<and> ing_tenant j' = ing_tenant j \<and>
           ing_dataset_urn j' = ing_dataset_urn j \<and>
           walk (ing_status j) es (ing_status j') \<and> history d' i = history d i @ es"
    by (intro exI [of _ j] exI [of _ "[]"]) (simp add: history_def)
qed

lemma evolves_refl [simp, intro]: "evolves d d"
  by (rule evolves_other_tables) simp_all

lemma evolves_trans [trans]:
  assumes "evolves a b" and "evolves b c"
  shows "evolves a c"
proof (rule evolvesI)
  fix i j
  assume "map_of (ingestions a) i = Some j"
  with assms(1) obtain j' es where 1: "map_of (ingestions b) i = Some j'"
    "ing_tenant j' = ing_tenant j" "ing_dataset_urn j' = ing_dataset_urn j"
    "walk (ing_status j) es (ing_status j')" "history b i = history a i @ es"
    by (rule evolvesE)
  from assms(2) 1(1) obtain j'' es' where 2: "map_of (ingestions c) i = Some j''"
    "ing_tenant j'' = ing_tenant j'" "ing_dataset_urn j'' = ing_dataset_urn j'"
    "walk (ing_status j') es' (ing_status j'')" "history c i = history b i @ es'"
    by (rule evolvesE)
  from 1 2 show "\<exists>j' es. map_of (ingestions c) i = Some j' \<and> ing_tenant j' = ing_tenant j \<and>
           ing_dataset_urn j' = ing_dataset_urn j \<and>
           walk (ing_status j) es (ing_status j') \<and> history c i = history a i @ es"
    by (intro exI [of _ j''] exI [of _ "es @ es'"]) (auto simp: walk_append)
qed

lemma evolves_terminal:
  assumes "evolves d d'" and "map_of (ingestions d) i = Some j"
    and "ing_status j \<in> set TERMINAL_STATUSES"
  shows "\<exists>j'. map_of (ingestions d') i = Some j' \<and> ing_status j' = ing_status j"
  using assms by (metis evolvesE walk_terminal)

lemma db_inv_other_tables:
  "ingestions d' = ingestions d \<Longrightarrow> transitions d' = transitions d \<Longrightarrow> db_inv d' = db_inv d"
  by (simp add: db_inv_def job_ok_def history_def)

subsection \<open>Operations keep the invariant and the history\<close>

definition good :: "ing_db \<Rightarrow> ing_db \<Rightarrow> bool" where
  "good d0 d \<longleftrightarrow> db_inv d \<and> evolves d0 d"

definition tx_good :: "ing_db \<Rightarrow> ing_db \<times> world \<Rightarrow> bool" where
  "tx_good d0 s \<longleftrightarrow> good d0 (fst s) \<and> good d0 (db (snd s))"

definition app_good :: "ing_db \<Rightarrow> world \<Rightarrow> bool" where
  "app_good d0 w \<longleftrightarrow> good d0 (db w)"

definition harmless :: "(ingestion \<Rightarrow> ingestion) \<Rightarrow> bool" where
  "harmless f \<longleftrightarrow>
     (\<forall>j. ing_id (f j) = ing_id j \<and> ing_tenant (f j) = ing_tenant j \<and>
        ing_dataset_urn (f j) = ing_dataset_urn j \<and> ing_status (f j) = ing_status j \<and>
        (ing_snapshot_id j \<noteq> None \<longrightarrow> ing_snapshot_id (f j) \<noteq> None) \<and>
        (ing_error_log j \<noteq> None \<longrightarrow> ing_error_log (f j) \<noteq> None))"

named_theorems keeps_rules \<open>database calls that keep the job invariant\<close>

lemma good_trans: "good d0 d \<Longrightarrow> db_inv d' \<Longrightarrow> evolves d d' \<Longrightarrow> good d0 d'"
  by (auto simp: good_def intro: evolves_trans)

lemma keeps_commit [keeps_rules]: "preserves (tx_good d0) commit"
  by (simp add: preserves_def commit_def tx_good_def)

lemma keeps_query [keeps_rules]: "preserves (tx_good d0) (query q)"
  by (simp add: preserves_def query_def)

lemma keeps_select_ing [keeps_rules]: "preserves (tx_good d0) (select_ing i)"
  unfolding select_ing_def by (rule keeps_query)

lemma keeps_scalar_one [keeps_rules]: "preserves (tx_good d0) (scalar_one x)"
  unfolding scalar_one_def by (intro preserves_rules)

lemma keeps_change:
  assumes "\<And>d. db_inv d \<Longrightarrow> db_inv (f d) \<and> evolves d (f d)"
  shows "preserves (tx_good d0) (change f)"
proof (rule preservesI)
  fix s
  assume g: "tx_good d0 s"
  then have "db_inv (db (snd s))" by (simp add: tx_good_def good_def)
  then have "db_inv (f (db (snd s)))" and "evolves (db (snd s)) (f (db (snd s)))"
    using assms by blast+
  with g have "good d0 (f (db (snd s)))" unfolding tx_good_def by (blast intro: good_trans)
  with g show "tx_good d0 (snd (change f s))" by (simp add: tx_good_def change_def)
qed

lemma keeps_change_other [keeps_rules]:
  "(\<And>d. ingestions (f d) = ingestions d) \<Longrightarrow> (\<And>d. transitions (f d) = transitions d) \<Longrightarrow>
   preserves (tx_good d0) (change f)"
  by (rule keeps_change) (metis db_inv_other_tables evolves_other_tables)

lemma emit_event_tables [simp]:
  "ingestions (emit_event t e u p a v d) = ingestions d"
  "transitions (emit_event t e u p a v d) = transitions d"
  "uploads (emit_event t e u p a v d) = uploads d"
  "upload_parts (emit_event t e u p a v d) = upload_parts d"
  "connections (emit_event t e u p a v d) = connections d"
  by (simp_all add: emit_event_def)

lemma history_put_ing [simp]: "history (put_ing i j d) k = history d k"
  by (simp add: history_def put_ing_def)

lemma ingestions_put_ing:
  "map_of (ingestions (put_ing i j d)) k = (if k = i then Some j else map_of (ingestions d) k)"
  by (simp add: put_ing_def)

lemma put_ing_row:
  assumes inv: "db_inv d" and old: "map_of (ingestions d) i = Some j"
    and new: "ing_id j' = i" "row_ok j'" "ing_status j' = ing_status j"
      "ing_tenant j' = ing_tenant j" "ing_dataset_urn j' = ing_dataset_urn j"
  shows "db_inv (put_ing i j' d) \<and> evolves d (put_ing i j' d)"
proof
  have j: "job_ok d i j" using inv old by (auto simp: db_inv_def)
  have "job_ok (put_ing i j' d) k row"
    if "map_of (ingestions (put_ing i j' d)) k = Some row" for k row
    using that inv j new
    by (auto simp: job_ok_def db_inv_def ingestions_put_ing split: if_splits)
  then show "db_inv (put_ing i j' d)"
    using inv unfolding db_inv_def by (auto simp: put_ing_def distinct_update)
  show "evolves d (put_ing i j' d)"
  proof (rule evolvesI)
    fix k row
    assume "map_of (ingestions d) k = Some row"
    then show "\<exists>j'' es. map_of (ingestions (put_ing i j' d)) k = Some j'' \<and>
        ing_tenant j'' = ing_tenant row \<and> ing_dataset_urn j'' = ing_dataset_urn row \<and>
        walk (ing_status row) es (ing_status j'') \<and> history (put_ing i j' d) k = history d k @ es"
      using old new by (cases "k = i") (simp_all add: put_ing_def history_def)
  qed
qed

lemma keeps_edit_ing [keeps_rules]:
  assumes h: "harmless f"
  shows "preserves (tx_good d0) (edit_ing i f)"
  unfolding edit_ing_def
proof (rule keeps_change)
  fix d
  assume inv: "db_inv d"
  show "db_inv (case map_of (ingestions d) i of None \<Rightarrow> d | Some j \<Rightarrow> put_ing i (f j) d) \<and>
        evolves d (case map_of (ingestions d) i of None \<Rightarrow> d | Some j \<Rightarrow> put_ing i (f j) d)"
  proof (cases "map_of (ingestions d) i")
    case (Some j)
    then have "job_ok d i j" using inv by (auto simp: db_inv_def)
    then have "db_inv (put_ing i (f j) d) \<and> evolves d (put_ing i (f j) d)"
      using h inv Some by (intro put_ing_row) (auto simp: harmless_def job_ok_def row_ok_def)
    then show ?thesis using Some by simp
  qed (simp add: inv)
qed

lemma insert_fresh:
  assumes inv: "db_inv d" and fresh: "map_of (ingestions d) (ing_id j) = None"
    and new: "ing_status j = St_created"
  shows "db_inv (put_ing (ing_id j) j d) \<and> evolves d (put_ing (ing_id j) j d)"
proof
  have "\<forall>t \<in> set (transitions d). tr_ingestion t \<noteq> ing_id j"
    using inv fresh by (auto simp: db_inv_def)
  then have "history d (ing_id j) = []" by (simp add: history_def)
  then have "job_ok (put_ing (ing_id j) j d) k row"
    if "map_of (ingestions (put_ing (ing_id j) j d)) k = Some row" for k row
    using that inv new
    by (auto simp: job_ok_def db_inv_def row_ok_def ingestions_put_ing split: if_splits)
  then show "db_inv (put_ing (ing_id j) j d)"
    using inv unfolding db_inv_def by (auto simp: put_ing_def distinct_update)
  show "evolves d (put_ing (ing_id j) j d)"
  proof (rule evolvesI)
    fix k row
    assume "map_of (ingestions d) k = Some row"
    then show "\<exists>j'' es. map_of (ingestions (put_ing (ing_id j) j d)) k = Some j'' \<and>
        ing_tenant j'' = ing_tenant row \<and> ing_dataset_urn j'' = ing_dataset_urn row \<and>
        walk (ing_status row) es (ing_status j'') \<and>
        history (put_ing (ing_id j) j d) k = history d k @ es"
      using fresh by (intro exI [of _ row] exI [of _ "[]"]) (auto simp: put_ing_def history_def)
  qed
qed

lemma keeps_insert_ing [keeps_rules]:
  assumes "ing_status j = St_created"
  shows "preserves (tx_good d0) (insert_ing j)"
proof (rule preservesI)
  fix s
  assume g: "tx_good d0 s"
  show "tx_good d0 (snd (insert_ing j s))"
  proof (cases "map_of (ingestions (db (snd s))) (ing_id j)")
    case None
    have "good d0 (put_ing (ing_id j) j (db (snd s)))"
      using g assms insert_fresh [OF _ None] good_trans [of d0 "db (snd s)"]
      by (simp add: tx_good_def good_def)
    then show ?thesis
      using g None
      by (simp add: insert_ing_def snd_bindE select_ing_def query_def change_def tx_good_def)
  next
    case (Some old)
    then show ?thesis
      using g by (simp add: insert_ing_def snd_bindE select_ing_def query_def)
  qed
qed

lemma keeps_session [keeps_rules]:
  assumes "preserves (tx_good d0) m"
  shows "preserves (app_good d0) (session m)"
proof (rule preservesI)
  fix w
  assume "app_good d0 w"
  then have "tx_good d0 (snd (m (db w, w)))"
    using assms by (simp add: preserves_def app_good_def tx_good_def)
  then show "app_good d0 (snd (session m w))"
    by (auto simp: session_def app_good_def tx_good_def split: prod.splits)
qed

lemma history_transition:
  assumes "transitions d' = transitions d @ [t]"
  shows "history d' k = history d k @ (if tr_ingestion t = k then [(tr_from t, tr_to t)] else [])"
  using assms by (simp add: history_def)

lemma transition_row:
  assumes inv: "db_inv d" and old: "map_of (ingestions d) i = Some j"
    and v: "validate_transition (ing_status j) to ctx = Inr ()"
    and ok: "row_ok (j\<lparr>ing_status := to\<rparr>)"
    and rows: "ingestions d' = ingestions (put_ing i (j\<lparr>ing_status := to\<rparr>) d)"
    and tr: "transitions d' = transitions d @ [t]"
    and t: "tr_ingestion t = i" "tr_from t = ing_status j" "tr_to t = to"
  shows "db_inv d' \<and> evolves d d'"
proof
  have e: "edge (ing_status j) to" using v by (rule validate_edge)
  have j: "job_ok d i j" using inv old by (auto simp: db_inv_def)
  have look: "map_of (ingestions d') k =
      (if k = i then Some (j\<lparr>ing_status := to\<rparr>) else map_of (ingestions d) k)" for k
    by (simp add: rows ingestions_put_ing)
  have hist: "history d' k = history d k @ (if k = i then [(ing_status j, to)] else [])" for k
    using history_transition [OF tr, of k] t by auto
  have "job_ok d' k row" if "map_of (ingestions d') k = Some row" for k row
    using that inv j ok e
    by (auto simp: look hist job_ok_def db_inv_def walk_append split: if_splits)
  moreover have "distinct (map fst (ingestions d'))"
    using inv by (simp add: rows put_ing_def db_inv_def distinct_update)
  ultimately show "db_inv d'"
    using inv t(1) unfolding db_inv_def by (auto simp: look tr)
  show "evolves d d'"
  proof (rule evolvesI)
    fix k row
    assume row: "map_of (ingestions d) k = Some row"
    show "\<exists>j'' es. map_of (ingestions d') k = Some j'' \<and> ing_tenant j'' = ing_tenant row \<and>
        ing_dataset_urn j'' = ing_dataset_urn row \<and>
        walk (ing_status row) es (ing_status j'') \<and> history d' k = history d k @ es"
    proof (cases "k = i")
      case True
      then show ?thesis
        using row old e
        by (intro exI [of _ "j\<lparr>ing_status := to\<rparr>"] exI [of _ "[(ing_status j, to)]"])
           (simp add: look hist)
    next
      case False
      then show ?thesis
        using row by (intro exI [of _ row] exI [of _ "[]"]) (simp add: look hist)
    qed
  qed
qed

text \<open>What one successful call of the recorder does to the database.\<close>

lemma record_transition_run:
  assumes "map_of (ingestions (db w)) i = Some j"
  shows "record_transition i to ctx args (c, w) =
    (case validate_transition (ing_status j) to ctx of
       Inl e \<Rightarrow> (Inl (TransitionError e), (c, w))
     | Inr _ \<Rightarrow> (Inr (), (c, w\<lparr>db :=
         emit_event (ing_tenant j)
           (case map_of EVENT_BY_STATUS to of None \<Rightarrow> ''ingestion.transitioned'' | Some t \<Rightarrow> t)
           (ingestion_urn j) (transition_payload j to (ta_event_payload args))
           (ta_actor args) (ta_via_agent args)
         ((put_ing i (j\<lparr>ing_status := to\<rparr>) (db w))\<lparr>transitions := transitions (db w) @
            [\<lparr>tr_tenant = ing_tenant j, tr_ingestion = ing_id j, tr_from = ing_status j,
              tr_to = to, tr_actor = ta_actor args, tr_detail = ta_detail args\<rparr>]\<rparr>)\<rparr>)))"
  using assms
  by (simp add: record_transition_def bindE_def select_ing_def query_def scalar_one_def change_def
      split: sum.split)

lemma record_transition_good:
  assumes g: "tx_good d0 (c, w)"
    and ok: "\<And>j. map_of (ingestions (db w)) i = Some j \<Longrightarrow> row_ok (j\<lparr>ing_status := to\<rparr>)"
  shows "tx_good d0 (snd (record_transition i to ctx args (c, w)))"
proof (cases "map_of (ingestions (db w)) i")
  case None
  then show ?thesis
    using g by (simp add: record_transition_def snd_bindE select_ing_def query_def scalar_one_def)
next
  case (Some j)
  have inv: "db_inv (db w)" using g by (simp add: tx_good_def good_def)
  with Some have "ing_id j = i" by (auto simp: db_inv_def job_ok_def)
  show ?thesis
  proof (cases "validate_transition (ing_status j) to ctx")
    case (Inl e)
    then show ?thesis using g by (simp add: record_transition_run [OF Some])
  next
    case (Inr u)
    let ?s = "snd (record_transition i to ctx args (c, w))"
    have "db_inv (db (snd ?s)) \<and> evolves (db w) (db (snd ?s))"
      using Inr \<open>ing_id j = i\<close>
      by (intro transition_row [OF inv Some _ ok [OF Some], where t = "\<lparr>tr_tenant = ing_tenant j,
            tr_ingestion = ing_id j, tr_from = ing_status j, tr_to = to,
            tr_actor = ta_actor args, tr_detail = ta_detail args\<rparr>"])
         (simp_all add: record_transition_run [OF Some] put_ing_def)
    moreover have "fst ?s = c" using Inr by (simp add: record_transition_run [OF Some])
    ultimately show ?thesis using g by (auto simp: tx_good_def intro: good_trans)
  qed
qed

lemma keeps_record_transition [keeps_rules]:
  assumes "to \<noteq> St_completed" and "to \<noteq> St_failed"
  shows "preserves (tx_good d0) (record_transition i to ctx args)"
  by (rule preservesI) (metis assms prod.collapse record_transition_good row_ok_def
      ingestion.select_convs(10) ingestion.surjective ingestion.update_convs(10))

lemma keeps_edit_record [keeps_rules]:
  assumes h: "harmless f" and ok: "\<And>j. row_ok ((f j)\<lparr>ing_status := to\<rparr>)"
  shows "preserves (tx_good d0) (bindE (edit_ing i f) (\<lambda>_. record_transition i to ctx args))"
proof (rule preservesI)
  fix s
  assume "tx_good d0 s"
  obtain c w where s: "s = (c, w)" by (cases s)
  obtain w' where e: "edit_ing i f s = (Inr (), (c, w'))"
    by (cases s) (simp add: edit_ing_def change_def s)
  have g: "tx_good d0 (c, w')"
    using preservesD [OF keeps_edit_ing [OF h] \<open>tx_good d0 s\<close> e] .
  have "row_ok (j\<lparr>ing_status := to\<rparr>)" if "map_of (ingestions (db w')) i = Some j" for j
    using that e ok
    by (auto simp: edit_ing_def change_def s ingestions_put_ing split: option.splits)
  then show "tx_good d0 (snd (bindE (edit_ing i f) (\<lambda>_. record_transition i to ctx args) s))"
    using record_transition_good [OF g] by (simp add: snd_bindE e)
qed

subsection \<open>Callers, dataset URNs and lookups\<close>

record principal =
  pr_sub :: string
  pr_tenant :: string
  pr_typ :: string
  pr_agent_id :: "string option"
  pr_agent_version :: "string option"
  pr_obo_sub :: "string option"
  pr_workspace :: "string option"

definition py_or :: "string option \<Rightarrow> string \<Rightarrow> string" where
  "py_or x y = (case x of None \<Rightarrow> y | Some s \<Rightarrow> if s = [] then y else s)"

definition actor :: "principal \<Rightarrow> json" where
  "actor p =
     (if pr_typ p = ''agent_autonomous''
      then JObj [(''type'', JStr ''agent''), (''id'', JStr (py_or (pr_agent_id p) (pr_sub p)))]
      else if pr_typ p = ''agent_obo''
      then JObj [(''type'', JStr ''user''), (''id'', JStr (py_or (pr_obo_sub p) (pr_sub p)))]
      else JObj [(''type'', JStr (pr_typ p)), (''id'', JStr (pr_sub p))])"

definition via_agent :: "principal \<Rightarrow> json option" where
  "via_agent p =
     (if take 5 (pr_typ p) = ''agent'' \<and> pr_agent_id p \<noteq> None \<and> pr_agent_id p \<noteq> Some []
      then Some (JObj [(''agent_id'', jopt (pr_agent_id p)),
                       (''version'', JStr (py_or (pr_agent_version p) ''unknown''))])
      else None)"

definition urn_char :: "char \<Rightarrow> bool" where
  "urn_char c =
     (let n = of_char c :: nat
      in (48 \<le> n \<and> n \<le> 57) \<or> (97 \<le> n \<and> n \<le> 102) \<or> (65 \<le> n \<and> n \<le> 70) \<or> n = 45)"

definition parse_dataset_urn :: "string \<Rightarrow> ing_error + (string \<times> string)" where
  "parse_dataset_urn urn =
     (let t = take 36 (drop 3 urn); r = drop 39 urn;
          d = take 36 (drop 17 r); rest = drop 53 r
      in if take 3 urn = ''wr:'' \<and> length t = 36 \<and> list_all urn_char t \<and>
            take 17 r = '':dataset:dataset/'' \<and> length d = 36 \<and> list_all urn_char d \<and>
            (rest = [] \<or> rest = [CHR 0x0A])
         then Inr (py_lower t, py_lower d)
         else Inl (ValidationFailedError ''invalid dataset_urn''))"

definition dataset_urn_of :: "string \<Rightarrow> string \<Rightarrow> string" where
  "dataset_urn_of tenant_id dataset_id = ''wr:'' @ tenant_id @ '':dataset:dataset/'' @ dataset_id"

definition bronze_table_ident :: "string \<Rightarrow> string \<Rightarrow> ing_error + string" where
  "bronze_table_ident tenant_id dataset_urn =
     (case parse_dataset_urn dataset_urn of
        Inl e \<Rightarrow> Inl e
      | Inr (_, dataset_id) \<Rightarrow> Inr (''bronze.'' @ tenant_id @ ''.ds_'' @ dataset_id))"

definition liftE :: "'e + 'a \<Rightarrow> ('s, 'e, 'a) eff" where
  "liftE x = (case x of Inl e \<Rightarrow> raiseE e | Inr v \<Rightarrow> returnE v)"

definition raise_not_found_with_audit ::
    "principal \<Rightarrow> string option \<Rightarrow> string \<Rightarrow> string \<Rightarrow> 'a tx" where
  "raise_not_found_with_audit p owner resource_id resource_type =
     bindE (if owner \<noteq> None \<and> owner \<noteq> Some (pr_tenant p)
            then bindE (change (emit_event (pr_tenant p) ''security.cross_tenant_denied''
                    (''wr:'' @ pr_tenant p @ '':ingestion:'' @ resource_type @ ''/'' @ resource_id)
                    (JObj [(''resource_type'', JStr resource_type), (''resource_id'', JStr resource_id)])
                    (Some (actor p)) (via_agent p)))
                 (\<lambda>_. commit)
            else returnE ())
       (\<lambda>_. raiseE NotFoundError)"

definition one_or_none :: "'a list \<Rightarrow> 'a option tx" where
  "one_or_none xs =
     (case xs of [] \<Rightarrow> returnE None | [x] \<Rightarrow> returnE (Some x) | _ \<Rightarrow> raiseE MultipleResultsFound)"

definition parts_of :: "string \<Rightarrow> ing_db \<Rightarrow> upload_part list" where
  "parts_of upload_id d =
     sort_key pt_n (filter (\<lambda>p. pt_upload p = upload_id) (map snd (upload_parts d)))"

definition completed_uploads :: "string \<Rightarrow> string \<Rightarrow> ing_db \<Rightarrow> ing_upload list" where
  "completed_uploads candidate tenant d =
     filter (\<lambda>u. up_ingestion u = candidate \<and> up_tenant u = tenant \<and> up_status u = ''completed'')
       (map snd (uploads d))"

fun find_parts_loop :: "string \<Rightarrow> string option list \<Rightarrow> upload_part list tx" where
  "find_parts_loop tenant [] = returnE []"
| "find_parts_loop tenant (None # cs) = find_parts_loop tenant cs"
| "find_parts_loop tenant (Some candidate # cs) =
     bindE (query (completed_uploads candidate tenant)) (\<lambda>us. bindE (one_or_none us) (\<lambda>u.
       case u of None \<Rightarrow> find_parts_loop tenant cs
       | Some upload \<Rightarrow> query (parts_of (up_id upload))))"

definition find_upload_parts :: "ingestion \<Rightarrow> upload_part list tx" where
  "find_upload_parts ing = find_parts_loop (ing_tenant ing) [Some (ing_id ing), ing_retried_from ing]"

lemma keeps_liftE [keeps_rules]: "preserves P (liftE x)"
  unfolding liftE_def by (intro preserves_rules)

lemma keeps_one_or_none [keeps_rules]: "preserves P (one_or_none xs)"
  by (auto simp: one_or_none_def preserves_def split: list.split)

lemma keeps_not_found [keeps_rules]:
  "preserves (tx_good d0) (raise_not_found_with_audit p ow r k)"
  unfolding raise_not_found_with_audit_def
  by (intro preserves_rules keeps_rules) simp_all

lemma keeps_find_parts [keeps_rules]: "preserves (tx_good d0) (find_upload_parts ing)"
proof -
  have "preserves (tx_good d0) (find_parts_loop t cs)" for t cs
    by (induction t cs rule: find_parts_loop.induct)
       (auto intro!: preserves_rules keeps_rules)
  then show ?thesis unfolding find_upload_parts_def .
qed

lemma urn_char_lower: "urn_char c \<Longrightarrow> urn_char (py_lower_char c)"
  by (auto simp: urn_char_def py_lower_char_def Let_def)

lemma dataset_urn_roundtrip:
  assumes "length t = 36" "list_all urn_char t" "length d = 36" "list_all urn_char d"
  shows "parse_dataset_urn (dataset_urn_of t d) = Inr (py_lower t, py_lower d)"
  using assms by (simp add: parse_dataset_urn_def dataset_urn_of_def Let_def)

end
