(* ===== verification/Ingestion_Runner.thy ===== *)
theory Ingestion_Runner
  imports Ingestion_Store
begin

text \<open>
  The execution engine of ingestion jobs
  (\<open>services/ingestion-service/app/domain/services/runner.py\<close>) with the snapshot ledger of
  \<open>ParquetFileTableWriter\<close> (\<open>app/domain/tablewriter.py\<close>).

  The outside world of an attempt is the parameter \<open>job_io\<close>: for every attempt number what
  decoding (or querying) and staging gave, and whether the table writer's commit raised, before
  or after its ledger entry had landed. Everything the runner itself decides is a definition:
  slot acquisition, the attempt dispatch, the double-append check, the two commit transactions,
  and the retry loop. The file attempt's duplicate-interchange guard and the query attempt's
  driver calls are part of \<open>io_stage\<close>.
\<close>

subsection \<open>Settings, staged appends and the outside world\<close>

record ing_settings =
  max_running_per_tenant :: int
  retry_max_attempts :: int
  inline_execution :: bool
  max_active_uploads_per_tenant :: int
  default_part_size :: int
  min_part_size :: int
  max_part_size :: int
  upload_ttl_hours :: int
  max_upload_bytes :: int
  max_upload_parts :: int

record decode_stats =
  rows_ok :: int
  rows_bad :: int
  renamed_columns :: "string list"

record staged_append =
  sa_table :: string
  sa_rows :: int
  sa_bytes_written :: int
  sa_ingestion_id :: string
  sa_source :: string
  sa_columns :: "string list"

record append_result =
  ar_snapshot_id :: int
  ar_rows_appended :: int
  ar_bytes_written :: int

record job_io =
  io_stage :: "int \<Rightarrow> ing_error + (int \<times> int \<times> string list \<times> decode_stats)"
  io_observed :: "int \<Rightarrow> string option"
  io_commit_raises :: "int \<Rightarrow> (bool \<times> ing_error) option"
  io_now :: instant
  io_sha256 :: "string \<Rightarrow> string"

subsection \<open>The snapshot ledger\<close>

definition read_ledger :: "string \<Rightarrow> world \<Rightarrow> snapshot list" where
  "read_ledger table w = (case map_of (snapshots w) table of None \<Rightarrow> [] | Some l \<Rightarrow> l)"

definition has_snapshot :: "string \<Rightarrow> string \<Rightarrow> world \<Rightarrow> bool" where
  "has_snapshot table ingestion_id w =
     list_ex (\<lambda>s. sn_ingestion_id s = ingestion_id) (read_ledger table w)"

definition next_snapshot_id :: "snapshot list \<Rightarrow> int" where
  "next_snapshot_id ledger = (if ledger = [] then 0 else Max (set (map sn_snapshot_id ledger))) + 1"

definition append_snapshot :: "staged_append \<Rightarrow> world \<Rightarrow> world" where
  "append_snapshot staged w =
     w\<lparr>snapshots := AList.update (sa_table staged)
        (read_ledger (sa_table staged) w @
          [\<lparr>sn_snapshot_id = next_snapshot_id (read_ledger (sa_table staged) w),
            sn_rows = sa_rows staged, sn_bytes = sa_bytes_written staged,
            sn_columns = sa_columns staged, sn_ingestion_id = sa_ingestion_id staged,
            sn_source = sa_source staged\<rparr>]) (snapshots w)\<rparr>"

definition tw_commit :: "(bool \<times> ing_error) option \<Rightarrow> staged_append \<Rightarrow> append_result app" where
  "tw_commit fails staged w =
     (case fails of
        Some (landed, e) \<Rightarrow> (Inl e, if landed then append_snapshot staged w else w)
      | None \<Rightarrow>
          (Inr \<lparr>ar_snapshot_id = next_snapshot_id (read_ledger (sa_table staged) w),
                ar_rows_appended = sa_rows staged, ar_bytes_written = sa_bytes_written staged\<rparr>,
           append_snapshot staged w))"

definition observe :: "(world \<Rightarrow> 'a) \<Rightarrow> 'a app" where
  "observe q w = (Inr (q w), w)"

subsection \<open>Slots\<close>

definition running_jobs :: "string \<Rightarrow> ing_db \<Rightarrow> int" where
  "running_jobs tenant d =
     int (length (filter (\<lambda>(_, j). ing_tenant j = tenant \<and> ing_status j = St_running) (ingestions d)))"

definition active_on_dataset :: "string \<Rightarrow> string option \<Rightarrow> ing_db \<Rightarrow> int" where
  "active_on_dataset tenant urn d =
     int (length (filter (\<lambda>(_, j). ing_tenant j = tenant \<and> ing_dataset_urn j = urn \<and>
       (ing_status j = St_running \<or> ing_status j = St_committing)) (ingestions d)))"

definition acquire_slot :: "ing_settings \<Rightarrow> instant \<Rightarrow> string \<Rightarrow> string \<Rightarrow> bool app" where
  "acquire_slot st now tenant_id ingestion_id = session (
     bindE (select_ing ingestion_id) (\<lambda>row.
       case row of
         None \<Rightarrow> returnE False
       | Some ing \<Rightarrow>
           if ing_status ing \<noteq> St_queued then returnE False
           else bindE (query (running_jobs tenant_id)) (\<lambda>running.
             bindE (query (active_on_dataset tenant_id (ing_dataset_urn ing))) (\<lambda>same_dataset_running.
               if running \<ge> max_running_per_tenant st \<or> same_dataset_running > 0
               then returnE False
               else bindE (record_transition ingestion_id St_running
                       (TransitionContext\<lparr>tc_slot_available := True\<rparr>) no_args) (\<lambda>_.
                 bindE (edit_ing ingestion_id (\<lambda>j. j\<lparr>ing_started_at := Some now\<rparr>)) (\<lambda>_.
                 bindE commit (\<lambda>_. returnE True)))))))"

subsection \<open>Retrying and failing\<close>

definition transition_retry :: "ing_settings \<Rightarrow> string \<Rightarrow> int \<Rightarrow> unit app" where
  "transition_retry st ingestion_id attempt = session (
     bindE (select_ing ingestion_id) (\<lambda>row. bindE (scalar_one row) (\<lambda>_.
     bindE (record_transition ingestion_id St_retrying
        (TransitionContext\<lparr>tc_attempts := attempt, tc_max_attempts := retry_max_attempts st\<rparr>)
        (no_args\<lparr>ta_detail := Some (JObj [(''attempt'', JInt attempt)])\<rparr>)) (\<lambda>_.
     bindE (edit_ing ingestion_id (\<lambda>j. j\<lparr>ing_attempts := attempt\<rparr>)) (\<lambda>_. commit)))))"

definition transition_resume :: "string \<Rightarrow> unit app" where
  "transition_resume ingestion_id = session (
     bindE (select_ing ingestion_id) (\<lambda>row. bindE (scalar_one row) (\<lambda>_.
     bindE (record_transition ingestion_id St_running TransitionContext no_args) (\<lambda>_. commit))))"

fun category_name :: "error_category \<Rightarrow> string" where
  "category_name SOURCE_UNREACHABLE = ''SOURCE_UNREACHABLE''"
| "category_name AUTH_FAILED = ''AUTH_FAILED''"
| "category_name SCHEMA_MISMATCH = ''SCHEMA_MISMATCH''"
| "category_name DECODE_ERROR = ''DECODE_ERROR''"
| "category_name ROW_LIMIT_EXCEEDED = ''ROW_LIMIT_EXCEEDED''"
| "category_name TIMEOUT = ''TIMEOUT''"
| "category_name QUOTA_EXCEEDED = ''QUOTA_EXCEEDED''"
| "category_name INTERNAL = ''INTERNAL''"

definition error_log_of :: "error_category \<Rightarrow> string \<Rightarrow> json list \<Rightarrow> string option \<Rightarrow> json" where
  "error_log_of category message samples hint =
     JObj [(''category'', JStr (category_name category)), (''message'', JStr (take 2000 message)),
           (''samples'', JArr (take 20 samples)), (''hint'', jopt hint)]"

definition note_failure ::
    "job_io \<Rightarrow> error_category \<Rightarrow> string \<Rightarrow> int \<Rightarrow> json list \<Rightarrow> string option \<Rightarrow> ingestion \<Rightarrow> ingestion" where
  "note_failure io category message attempts samples hint j =
     j\<lparr>ing_error_log := Some (error_log_of category message samples hint),
       ing_attempts := attempts, ing_finished_at := Some (io_now io)\<rparr>"

definition fail_job ::
    "job_io \<Rightarrow> string \<Rightarrow> error_category \<Rightarrow> string \<Rightarrow> int \<Rightarrow> json list \<Rightarrow> string option \<Rightarrow> unit app" where
  "fail_job io ingestion_id category message attempts samples hint = session (
     bindE (select_ing ingestion_id) (\<lambda>row. bindE (scalar_one row) (\<lambda>ing.
     bindE (bindE (edit_ing ingestion_id
              (note_failure io category message attempts samples hint)) (\<lambda>_.
            record_transition ingestion_id St_failed
              (TransitionContext\<lparr>tc_error_log_present := True\<rparr>)
              (no_args\<lparr>ta_event_payload := Some
                 [(''ingestion_id'', JStr (ing_id ing)),
                  (''error_category'', JStr (category_name category)),
                  (''error_digest'', JStr (take 16 (io_sha256 io message))),
                  (''attempts'', JInt attempts)]\<rparr>))) (\<lambda>_. commit))))"

subsection \<open>The commit path\<close>

definition column_schema :: "string list \<Rightarrow> json" where
  "column_schema columns =
     JObj (foldl (\<lambda>d col. AList.update col (JObj [(''type'', JStr ''string''),
             (''nullable'', JBool True), (''tags'', JArr [])]) d) [] columns)"

definition completed_payload ::
    "ingestion \<Rightarrow> string option \<Rightarrow> staged_append \<Rightarrow> append_result \<Rightarrow> decode_stats \<Rightarrow>
     (string \<times> json) list" where
  "completed_payload ing dataset_id staged result stats =
     [(''ingestion_id'', JStr (ing_id ing)), (''dataset_urn'', jopt (ing_dataset_urn ing)),
      (''dataset_id'', jopt dataset_id), (''workspace_id'', JStr (ing_workspace ing)),
      (''dataset_name'', case ing_new_dataset ing of None \<Rightarrow> JNull
         | Some nd \<Rightarrow> (case map_of nd ''name'' of None \<Rightarrow> JNull | Some v \<Rightarrow> v)),
      (''iceberg_table'', JStr (sa_table staged)),
      (''iceberg_snapshot_id'', JInt (ar_snapshot_id result)),
      (''rows_appended'', JInt (ar_rows_appended result)),
      (''row_count'', JInt (ar_rows_appended result)), (''bytes'', JInt (ar_bytes_written result)),
      (''file_format'', jopt (ing_file_format ing)),
      (''skip_profiling'', JBool (ing_skip_profiling ing)),
      (''schema'', column_schema (sa_columns staged)), (''pii_tags'', JArr []),
      (''renamed_columns'', JArr (map JStr (renamed_columns stats))),
      (''rows_bad'', JInt (rows_bad stats)),
      (''source'', JObj [(''table'', JStr (sa_table staged))])]"

definition to_committing :: "string \<Rightarrow> decode_stats \<Rightarrow> bool \<Rightarrow> unit app" where
  "to_committing ingestion_id stats allow_empty = session (
     bindE (select_ing ingestion_id) (\<lambda>row. bindE (scalar_one row) (\<lambda>_.
     bindE (record_transition ingestion_id St_committing
        (TransitionContext\<lparr>tc_rows_decoded := rows_ok stats, tc_allow_empty := allow_empty\<rparr>) no_args)
       (\<lambda>_. commit))))"

definition note_completion :: "job_io \<Rightarrow> append_result \<Rightarrow> ingestion \<Rightarrow> ingestion" where
  "note_completion io result j =
     j\<lparr>ing_snapshot_id := Some (ar_snapshot_id result),
       ing_rows_appended := ar_rows_appended result, ing_finished_at := Some (io_now io)\<rparr>"

definition to_completed ::
    "job_io \<Rightarrow> string \<Rightarrow> staged_append \<Rightarrow> append_result \<Rightarrow> decode_stats \<Rightarrow> unit app" where
  "to_completed io ingestion_id staged result stats = session (
     bindE (select_ing ingestion_id) (\<lambda>row. bindE (scalar_one row) (\<lambda>ing.
     bindE (case py_or (ing_dataset_urn ing) [] of
              [] \<Rightarrow> returnE None
            | c # cs \<Rightarrow> bindE (liftE (parse_dataset_urn (c # cs))) (\<lambda>p. returnE (Some (snd p))))
       (\<lambda>dataset_id.
     bindE (bindE (edit_ing ingestion_id (note_completion io result)) (\<lambda>_.
            record_transition ingestion_id St_completed (TransitionContext\<lparr>tc_commit_ok := True\<rparr>)
              (no_args\<lparr>ta_event_payload :=
                 Some (completed_payload ing dataset_id staged result stats)\<rparr>))) (\<lambda>_. commit)))))"

definition commit_staged ::
    "job_io \<Rightarrow> int \<Rightarrow> string \<Rightarrow> staged_append \<Rightarrow> decode_stats \<Rightarrow> bool \<Rightarrow> unit app" where
  "commit_staged io attempt ingestion_id staged stats allow_empty =
     (if rows_ok stats = 0 \<and> \<not> allow_empty
      then raiseE (PermanentJobError DECODE_ERROR ''source produced 0 decodable rows'' []
             (Some ''set allow_empty=true to create an empty-schema dataset version''))
      else bindE (to_committing ingestion_id stats allow_empty) (\<lambda>_.
           bindE (tw_commit (io_commit_raises io attempt) staged) (\<lambda>result.
           to_completed io ingestion_id staged result stats)))"

subsection \<open>Attempts\<close>

definition stage_and_commit ::
    "job_io \<Rightarrow> int \<Rightarrow> string \<Rightarrow> string \<Rightarrow> string \<Rightarrow> bool \<Rightarrow> unit app" where
  "stage_and_commit io attempt ingestion_id table source allow_empty =
     bindE (liftE (io_stage io attempt)) (\<lambda>(rows, bytes, columns, stats).
       commit_staged io attempt ingestion_id
         \<lparr>sa_table = table, sa_rows = rows, sa_bytes_written = bytes,
          sa_ingestion_id = ingestion_id, sa_source = source, sa_columns = columns\<rparr>
         stats allow_empty)"

definition refuse_double_append :: "string \<Rightarrow> string \<Rightarrow> unit app" where
  "refuse_double_append table ingestion_id =
     bindE (observe (has_snapshot table ingestion_id)) (\<lambda>there.
       if there then raiseE (PermanentJobError INTERNAL
            ''snapshot already committed for this ingestion (BR-9)'' [] None)
       else returnE ())"

definition attempt_file :: "job_io \<Rightarrow> int \<Rightarrow> string \<Rightarrow> string \<Rightarrow> unit app" where
  "attempt_file io attempt tenant_id ingestion_id =
     bindE (session (bindE (select_ing ingestion_id) (\<lambda>row. bindE (scalar_one row) (\<lambda>ing.
       bindE (find_upload_parts ing) (\<lambda>parts.
       bindE (liftE (bronze_table_ident tenant_id (py_or (ing_dataset_urn ing) []))) (\<lambda>table.
       returnE (parts, ing_allow_empty ing, table)))))))
     (\<lambda>(parts, allow_empty, table).
       if parts = []
       then raiseE (PermanentJobError INTERNAL ''no completed upload parts found for file job'' [] None)
       else bindE (refuse_double_append table ingestion_id) (\<lambda>_.
            stage_and_commit io attempt ingestion_id table ''upload'' allow_empty))"

definition job_connection :: "string \<Rightarrow> ingestion \<Rightarrow> ing_db \<Rightarrow> connection option" where
  "job_connection tenant_id ing d =
     (case ing_connection ing of None \<Rightarrow> None
      | Some c \<Rightarrow> (case map_of (connections d) c of None \<Rightarrow> None
          | Some conn \<Rightarrow> if cn_tenant conn = tenant_id then Some conn else None))"

definition attempt_query :: "job_io \<Rightarrow> int \<Rightarrow> string \<Rightarrow> string \<Rightarrow> string option app" where
  "attempt_query io attempt tenant_id ingestion_id =
     bindE (session (bindE (select_ing ingestion_id) (\<lambda>row. bindE (scalar_one row) (\<lambda>ing.
       bindE (query (job_connection tenant_id ing)) (\<lambda>found. case found of
          None \<Rightarrow> raiseE (PermanentJobError INTERNAL ''connection not found for query job'' [] None)
        | Some conn \<Rightarrow>
            bindE (liftE (bronze_table_ident tenant_id (py_or (ing_dataset_urn ing) []))) (\<lambda>table.
            returnE (conn, ing_allow_empty ing, table)))))))
     (\<lambda>(conn, allow_empty, table).
       bindE (refuse_double_append table ingestion_id) (\<lambda>_.
       bindE (stage_and_commit io attempt ingestion_id table
                (''query:'' @ cn_connector_type conn) allow_empty) (\<lambda>_.
       returnE (io_observed io attempt))))"

definition attempt_job :: "job_io \<Rightarrow> int \<Rightarrow> string \<Rightarrow> string \<Rightarrow> string option app" where
  "attempt_job io attempt tenant_id ingestion_id =
     bindE (session (bindE (select_ing ingestion_id) (\<lambda>row. bindE (scalar_one row) (\<lambda>ing.
       returnE (ing_mode ing))))) (\<lambda>mode.
       if mode = ''file_upload''
       then bindE (attempt_file io attempt tenant_id ingestion_id) (\<lambda>_. returnE None)
       else if mode = ''query'' \<or> mode = ''scheduled_run''
       then attempt_query io attempt tenant_id ingestion_id
       else raiseE (PermanentJobError INTERNAL (''mode '' @ mode @ '' is not runnable'') [] None))"

subsection \<open>The retry loop\<close>

function (sequential) execute_loop ::
    "ing_settings \<Rightarrow> job_io \<Rightarrow> string \<Rightarrow> string \<Rightarrow> int \<Rightarrow> (string \<times> string option) app" where
  "execute_loop st io tenant_id ingestion_id attempt w =
     (case attempt_job io attempt tenant_id ingestion_id w of
        (Inr observed, w1) \<Rightarrow> (Inr (''completed'', observed), w1)
      | (Inl (TransientSourceError category message), w1) \<Rightarrow>
          if attempt \<ge> retry_max_attempts st
          then bindE (fail_job io ingestion_id category message attempt [] None)
                 (\<lambda>_. returnE (''failed'', None)) w1
          else (case bindE (transition_retry st ingestion_id attempt)
                       (\<lambda>_. transition_resume ingestion_id) w1 of
                  (Inl e, w2) \<Rightarrow> (Inl e, w2)
                | (Inr _, w2) \<Rightarrow> execute_loop st io tenant_id ingestion_id (attempt + 1) w2)
      | (Inl (PermanentJobError category message samples hint), w1) \<Rightarrow>
          bindE (fail_job io ingestion_id category message attempt samples hint)
            (\<lambda>_. returnE (''failed'', None)) w1
      | (Inl e, w1) \<Rightarrow> (Inl e, w1))"
  by pat_completeness auto
termination
  by (relation "measure (\<lambda>(st, io, t, i, attempt, w). nat (retry_max_attempts st - attempt))") auto

definition execute ::
    "ing_settings \<Rightarrow> job_io \<Rightarrow> string \<Rightarrow> string \<Rightarrow> (string \<times> string option) app" where
  "execute st io tenant_id ingestion_id =
     bindE (acquire_slot st (io_now io) tenant_id ingestion_id) (\<lambda>got.
       if \<not> got
       then bindE (session (select_ing ingestion_id)) (\<lambda>row.
              returnE (case row of None \<Rightarrow> ''unknown'' | Some ing \<Rightarrow> status_name (ing_status ing), None))
       else execute_loop st io tenant_id ingestion_id 1)"

declare execute_loop.simps [simp del]

subsection \<open>The runner keeps the job invariant and the history\<close>

lemma harmless_edits [simp]:
  "harmless (\<lambda>j. j\<lparr>ing_started_at := a\<rparr>)"
  "harmless (\<lambda>j. j\<lparr>ing_finished_at := a\<rparr>)"
  "harmless (\<lambda>j. j\<lparr>ing_attempts := n\<rparr>)"
  "harmless (note_failure io c m n ss h)"
  "harmless (note_completion io r)"
  by (simp_all add: harmless_def note_failure_def note_completion_def)

lemma app_keeps_observe [keeps_rules]: "preserves P (observe q)"
  by (simp add: preserves_def observe_def)

lemma app_keeps_acquire_slot [keeps_rules]: "preserves (app_good d0) (acquire_slot st now t i)"
  unfolding acquire_slot_def by (intro preserves_rules keeps_rules) simp_all

lemma app_keeps_transition_retry [keeps_rules]: "preserves (app_good d0) (transition_retry st i n)"
  unfolding transition_retry_def by (intro preserves_rules keeps_rules) simp_all

lemma app_keeps_transition_resume [keeps_rules]: "preserves (app_good d0) (transition_resume i)"
  unfolding transition_resume_def by (intro preserves_rules keeps_rules) simp_all

lemma app_keeps_fail_job [keeps_rules]: "preserves (app_good d0) (fail_job io i c m n ss h)"
  unfolding fail_job_def
  by (intro preserves_bindE [OF keeps_edit_record] preserves_rules keeps_session keeps_select_ing
      keeps_scalar_one keeps_commit) (simp_all add: row_ok_def note_failure_def note_completion_def)

lemma app_keeps_tw_commit [keeps_rules]: "preserves (app_good d0) (tw_commit fails staged)"
  by (auto simp: preserves_def tw_commit_def app_good_def append_snapshot_def split: option.splits)

lemma app_keeps_to_committing [keeps_rules]: "preserves (app_good d0) (to_committing i s e)"
  unfolding to_committing_def by (intro preserves_rules keeps_rules) simp_all

lemma keeps_list [preserves_rules]:
  "preserves P m \<Longrightarrow> (\<And>x xs. preserves P (f x xs)) \<Longrightarrow>
   preserves P (case l of [] \<Rightarrow> m | x # xs \<Rightarrow> f x xs)"
  by (cases l) simp_all

lemma app_keeps_to_completed [keeps_rules]: "preserves (app_good d0) (to_completed io i s r st)"
  unfolding to_completed_def
  by (intro preserves_bindE [OF keeps_edit_record] preserves_rules keeps_list keeps_session
      keeps_select_ing keeps_scalar_one keeps_commit keeps_liftE) (simp_all add: row_ok_def note_failure_def note_completion_def)

lemma app_keeps_attempt_job [keeps_rules]: "preserves (app_good d0) (attempt_job io n t i)"
  unfolding attempt_job_def attempt_file_def attempt_query_def stage_and_commit_def
    commit_staged_def refuse_double_append_def
  by (intro preserves_rules keeps_rules)

lemma execute_loop_preserves:
  assumes att: "\<And>n. preserves P (attempt_job io n t i)"
    and fail: "\<And>c m n ss h. preserves P (fail_job io i c m n ss h)"
    and retry: "\<And>n. preserves P (transition_retry st i n)"
    and resume: "preserves P (transition_resume i)"
  shows "preserves P (execute_loop st io t i n)"
proof (rule preservesI)
  fix w
  assume "P w"
  then show "P (snd (execute_loop st io t i n w))"
  proof (induction "nat (retry_max_attempts st - n)" arbitrary: n w rule: less_induct)
    case less
    obtain r w1 where a: "attempt_job io n t i w = (r, w1)" by (cases "attempt_job io n t i w")
    have P1: "P w1" using preservesD [OF att less.prems a] .
    have again: "P (snd (case bindE (transition_retry st i n) (\<lambda>_. transition_resume i) w1 of
                  (Inl e, w2) \<Rightarrow> (Inl e, w2)
                | (Inr _, w2) \<Rightarrow> execute_loop st io t i (n + 1) w2))"
      if lt: "n < retry_max_attempts st"
    proof -
      obtain r2 w2 where b: "bindE (transition_retry st i n) (\<lambda>_. transition_resume i) w1 = (r2, w2)"
        by (cases "bindE (transition_retry st i n) (\<lambda>_. transition_resume i) w1")
      have "P w2" using preservesD [OF preserves_bindE [OF retry resume] P1 b] .
      then have "P (snd (execute_loop st io t i (n + 1) w2))" using less.hyps [of "n + 1" w2] lt by simp
      with \<open>P w2\<close> show ?thesis by (simp add: b split: sum.split)
    qed
    have failed: "P (snd (bindE (fail_job io i c m k ss h) (\<lambda>_. returnE (''failed'', None)) w1))"
      for c m k ss h
    proof -
      have "preserves P (bindE (fail_job io i c m k ss h) (\<lambda>_. returnE (''failed'', None)))"
        by (rule preserves_bindE [OF fail preserves_returnE])
      then show ?thesis using P1 unfolding preserves_def by blast
    qed
    note step = execute_loop.simps [of st io t i n w, unfolded a]
    show ?case
    proof (cases r)
      case (Inl e)
      show ?thesis
      proof (cases "\<exists>c m. e = TransientSourceError c m")
        case True
        then obtain c m where e: "e = TransientSourceError c m" by blast
        show ?thesis
        proof (cases "n < retry_max_attempts st")
          case True
          then show ?thesis using again by (simp add: step Inl e)
        next
          case False
          then show ?thesis using failed by (simp add: step Inl e del: returnE_apply)
        qed
      next
        case False
        then show ?thesis
          using P1 failed by (cases e) (simp_all add: step Inl del: returnE_apply)
      qed
    qed (simp add: step P1)
  qed
qed

lemma app_keeps_execute [keeps_rules]: "preserves (app_good d0) (execute st io t i)"
  unfolding execute_def
  by (intro preserves_rules keeps_rules execute_loop_preserves)

subsection \<open>One snapshot per job\<close>

definition snapshots_of :: "string \<Rightarrow> string \<Rightarrow> world \<Rightarrow> snapshot list" where
  "snapshots_of table ingestion_id w =
     filter (\<lambda>s. sn_ingestion_id s = ingestion_id) (read_ledger table w)"

definition single_append :: "world \<Rightarrow> bool" where
  "single_append w \<longleftrightarrow> (\<forall>table i. length (snapshots_of table i w) \<le> 1)"

named_theorems ledger_rules \<open>calls that leave the snapshot ledger alone\<close>

definition same_ledger :: "(string, snapshot list) dict \<Rightarrow> world \<Rightarrow> bool" where
  "same_ledger L w \<longleftrightarrow> snapshots w = L"

lemma ledger_tx [ledger_rules]:
  "preserves (\<lambda>s. same_ledger L (snd s)) commit"
  "preserves (\<lambda>s. same_ledger L (snd s)) (query q)"
  "preserves (\<lambda>s. same_ledger L (snd s)) (change f)"
  "preserves (\<lambda>s. same_ledger L (snd s)) (select_ing i)"
  "preserves (\<lambda>s. same_ledger L (snd s)) (edit_ing i g)"
  by (simp_all add: preserves_def commit_def query_def change_def select_ing_def edit_ing_def
      same_ledger_def)

lemma ledger_scalar_one [ledger_rules]: "preserves P (scalar_one x)"
  unfolding scalar_one_def by (intro preserves_rules)

lemma ledger_record_transition [ledger_rules]:
  "preserves (\<lambda>s. same_ledger L (snd s)) (record_transition i to ctx args)"
  unfolding record_transition_def by (intro preserves_rules ledger_rules)

lemma ledger_find_parts [ledger_rules]:
  "preserves (\<lambda>s. same_ledger L (snd s)) (find_upload_parts ing)"
proof -
  have "preserves (\<lambda>s. same_ledger L (snd s)) (find_parts_loop t cs)" for t cs
    by (induction t cs rule: find_parts_loop.induct)
       (auto intro!: preserves_rules ledger_rules keeps_one_or_none)
  then show ?thesis unfolding find_upload_parts_def .
qed

lemma ledger_session [ledger_rules]:
  assumes "preserves (\<lambda>s. same_ledger L (snd s)) m"
  shows "preserves (same_ledger L) (session m)"
proof (rule preservesI)
  fix w
  assume "same_ledger L w"
  then have "same_ledger L (snd (snd (m (db w, w))))"
    using assms by (simp add: preserves_def)
  then show "same_ledger L (snd (session m w))"
    by (auto simp: session_def same_ledger_def split: prod.splits)
qed

lemma ledger_runner [ledger_rules]:
  "preserves (same_ledger L) (acquire_slot st now t i)"
  "preserves (same_ledger L) (transition_retry st i n)"
  "preserves (same_ledger L) (transition_resume i)"
  "preserves (same_ledger L) (fail_job io i c m n ss h)"
  "preserves (same_ledger L) (to_committing i stats e)"
  "preserves (same_ledger L) (to_completed io i staged result stats)"
  unfolding acquire_slot_def transition_retry_def transition_resume_def fail_job_def
    to_committing_def to_completed_def
  by (intro preserves_rules ledger_rules keeps_liftE keeps_list)+

lemma single_append_ledger: "snapshots w' = snapshots w \<Longrightarrow> single_append w' = single_append w"
  by (simp add: single_append_def snapshots_of_def read_ledger_def)

lemma preserves_single_append:
  assumes "\<And>L. preserves (same_ledger L) m"
  shows "preserves single_append m"
proof (rule preservesI)
  fix w
  assume "single_append w"
  moreover have "snapshots (snd (m w)) = snapshots w"
    using assms [of "snapshots w"] by (simp add: preserves_def same_ledger_def)
  ultimately show "single_append (snd (m w))" using single_append_ledger by blast
qed

lemma read_ledger_append:
  "read_ledger table (append_snapshot staged w) =
     (if table = sa_table staged
      then read_ledger table w @
        [\<lparr>sn_snapshot_id = next_snapshot_id (read_ledger table w), sn_rows = sa_rows staged,
          sn_bytes = sa_bytes_written staged, sn_columns = sa_columns staged,
          sn_ingestion_id = sa_ingestion_id staged, sn_source = sa_source staged\<rparr>]
      else read_ledger table w)"
  by (simp add: read_ledger_def append_snapshot_def)

lemma no_snapshot: "\<not> has_snapshot table i w \<Longrightarrow> snapshots_of table i w = []"
  by (simp add: has_snapshot_def snapshots_of_def list_ex_iff filter_empty_conv)

lemma append_first_snapshot:
  assumes "single_append w" and "\<not> has_snapshot (sa_table staged) (sa_ingestion_id staged) w"
  shows "single_append (append_snapshot staged w)"
  using assms no_snapshot [OF assms(2)]
  by (auto simp: single_append_def snapshots_of_def read_ledger_append)

lemma has_snapshot_ledger: "snapshots w' = snapshots w \<Longrightarrow> has_snapshot t i w' = has_snapshot t i w"
  by (simp add: has_snapshot_def read_ledger_def)

lemma commit_staged_single:
  assumes "single_append w" and "\<not> has_snapshot (sa_table staged) (sa_ingestion_id staged) w"
  shows "single_append (snd (commit_staged io n i staged stats e w))"
proof (cases "rows_ok stats = 0 \<and> \<not> e")
  case True
  then show ?thesis using assms by (simp add: commit_staged_def)
next
  case False
  obtain r w1 where c: "to_committing i stats e w = (r, w1)" by (cases "to_committing i stats e w")
  then have L: "snapshots w1 = snapshots w"
    using preservesD [OF ledger_runner(5) [of "snapshots w"] _ c] by (simp add: same_ledger_def)
  then have w1: "single_append w1" "\<not> has_snapshot (sa_table staged) (sa_ingestion_id staged) w1"
    using assms single_append_ledger [OF L] has_snapshot_ledger [OF L] by simp_all
  obtain r' w2 where t: "tw_commit (io_commit_raises io n) staged w1 = (r', w2)"
    by (cases "tw_commit (io_commit_raises io n) staged w1")
  then have w2: "single_append w2"
    using w1 append_first_snapshot [OF w1]
    by (auto simp: tw_commit_def split: option.splits prod.splits if_splits)
  have "preserves single_append (to_completed io i staged x stats)" for x
    by (rule preserves_single_append) (rule ledger_runner(6))
  then have "single_append (snd (to_completed io i staged x stats w2))" for x
    using w2 by (simp add: preserves_def)
  then show ?thesis
    using assms(1) False w1 w2 by (cases r; cases r') (simp_all add: commit_staged_def snd_bindE c t)
qed

lemma refuse_double_append_run:
  "refuse_double_append table i w =
     (if has_snapshot table i w
      then (Inl (PermanentJobError INTERNAL
              ''snapshot already committed for this ingestion (BR-9)'' [] None), w)
      else (Inr (), w))"
  by (simp add: refuse_double_append_def bindE_def observe_def)

lemma guarded_stage_single:
  "preserves single_append
     (bindE (refuse_double_append table i) (\<lambda>_. stage_and_commit io n i table src e))"
proof (rule preservesI)
  fix w
  assume s: "single_append w"
  show "single_append (snd (bindE (refuse_double_append table i)
          (\<lambda>_. stage_and_commit io n i table src e) w))"
  proof (cases "has_snapshot table i w")
    case True
    then show ?thesis using s by (simp add: snd_bindE refuse_double_append_run)
  next
    case False
    then show ?thesis
      using s commit_staged_single [OF s]
      by (cases "io_stage io n")
         (simp_all add: refuse_double_append_run stage_and_commit_def snd_bindE liftE_def
            split: prod.split)
  qed
qed

lemma attempt_single [ledger_rules]: "preserves single_append (attempt_job io n t i)"
proof -
  have tx: "preserves single_append (session m)"
    if "\<And>L. preserves (\<lambda>s. same_ledger L (snd s)) m" for m :: "'a tx"
    by (rule preserves_single_append) (rule ledger_session, rule that)
  have assoc: "bindE a (\<lambda>x. bindE (b x) (\<lambda>_. c)) = bindE (bindE a b) (\<lambda>_. c)"
    for a :: "(world, ing_error, unit) eff" and b :: "unit \<Rightarrow> (world, ing_error, unit) eff"
      and c :: "(world, ing_error, string option) eff"
    by (rule ext) (simp add: bindE_def split: prod.split sum.split)
  show ?thesis
    unfolding attempt_job_def attempt_file_def attempt_query_def assoc
    by (intro preserves_rules tx guarded_stage_single ledger_rules keeps_liftE)
qed

subsection \<open>What the transactions of a job do\<close>

definition job_set :: "string \<Rightarrow> ingestion \<Rightarrow> world \<Rightarrow> world \<Rightarrow> bool" where
  "job_set i j w w' \<longleftrightarrow>
     (\<forall>k. map_of (ingestions (db w')) k = (if k = i then Some j else map_of (ingestions (db w)) k)) \<and>
     uploads (db w') = uploads (db w) \<and> upload_parts (db w') = upload_parts (db w) \<and>
     connections (db w') = connections (db w) \<and>
     snapshots w' = snapshots w \<and> objects w' = objects w"

lemmas tx_run_defs = session_def bindE_def select_ing_def query_def scalar_one_def edit_ing_def
  change_def commit_def put_ing_def emit_event_def

lemma session_runI:
  "m (db w, w) = (r, (c, w')) \<Longrightarrow> session m w = (r, w'\<lparr>db := c\<rparr>)"
  by (simp add: session_def)

lemma select_one_run:
  "map_of (ingestions (db w)) i = Some j \<Longrightarrow>
   bindE (select_ing i) (\<lambda>row. bindE (scalar_one row) f) (c, w) = f j (c, w)"
  by (simp add: bindE_def select_ing_def query_def scalar_one_def)

lemma record_transition_ok:
  assumes "map_of (ingestions (db w)) i = Some j"
    and "validate_transition (ing_status j) to ctx = Inr ()"
  obtains w' where "record_transition i to ctx args (c, w) = (Inr (), (c, w'))"
    and "job_set i (j\<lparr>ing_status := to\<rparr>) w w'"
  using assms by (simp add: record_transition_run job_set_def put_ing_def emit_event_def)

lemma edit_ing_ok:
  assumes "map_of (ingestions (db w)) i = Some j"
  obtains w' where "edit_ing i f (c, w) = (Inr (), (c, w'))" and "job_set i (f j) w w'"
  using assms by (simp add: edit_ing_def change_def job_set_def put_ing_def)

lemma job_set_trans: "job_set i j w w' \<Longrightarrow> job_set i j' w' w'' \<Longrightarrow> job_set i j' w w''"
  by (simp add: job_set_def)

lemma job_set_row: "job_set i j w w' \<Longrightarrow> map_of (ingestions (db w')) i = Some j"
  by (simp add: job_set_def)

lemma move_session:
  assumes row: "map_of (ingestions (db w)) i = Some j"
    and v: "validate_transition (ing_status j) to ctx = Inr ()"
  shows "\<exists>w'. session (bindE (select_ing i) (\<lambda>row. bindE (scalar_one row) (\<lambda>_.
           bindE (record_transition i to ctx args) (\<lambda>_. bindE (edit_ing i f) (\<lambda>_. commit))))) w
         = (Inr (), w') \<and> job_set i (f (j\<lparr>ing_status := to\<rparr>)) w w'"
proof -
  obtain w1 where 1: "record_transition i to ctx args (db w, w) = (Inr (), (db w, w1))"
      "job_set i (j\<lparr>ing_status := to\<rparr>) w w1"
    using record_transition_ok [OF row v] by blast
  obtain w2 where 2: "edit_ing i f (db w, w1) = (Inr (), (db w, w2))"
      "job_set i (f (j\<lparr>ing_status := to\<rparr>)) w1 w2"
    using edit_ing_ok [OF job_set_row [OF 1(2)]] by blast
  show ?thesis
    using job_set_trans [OF 1(2) 2(2)]
    by (simp add: session_def bindE_def select_ing_def query_def scalar_one_def row 1(1) 2(1) commit_def)
qed

lemma plain_move_session:
  assumes row: "map_of (ingestions (db w)) i = Some j"
    and v: "validate_transition (ing_status j) to ctx = Inr ()"
  shows "\<exists>w'. session (bindE (select_ing i) (\<lambda>row. bindE (scalar_one row) (\<lambda>_.
           bindE (record_transition i to ctx args) (\<lambda>_. commit)))) w
         = (Inr (), w') \<and> job_set i (j\<lparr>ing_status := to\<rparr>) w w'"
proof -
  obtain w1 where 1: "record_transition i to ctx args (db w, w) = (Inr (), (db w, w1))"
      "job_set i (j\<lparr>ing_status := to\<rparr>) w w1"
    using record_transition_ok [OF row v] by blast
  then show ?thesis
    by (simp add: session_def bindE_def select_ing_def query_def scalar_one_def row commit_def)
qed

lemma edit_record_run:
  assumes row: "map_of (ingestions (db w)) i = Some j"
    and st: "ing_status (f j) = ing_status j"
    and v: "validate_transition (ing_status j) to ctx = Inr ()"
  shows "\<exists>w'. bindE (bindE (edit_ing i f) (\<lambda>_. record_transition i to ctx args)) (\<lambda>_. commit) (c, w)
         = (Inr (), (db w', w')) \<and> job_set i ((f j)\<lparr>ing_status := to\<rparr>) w w'"
proof -
  obtain w1 where 1: "edit_ing i f (c, w) = (Inr (), (c, w1))" "job_set i (f j) w w1"
    using edit_ing_ok [OF row] by blast
  obtain w2 where 2: "record_transition i to ctx args (c, w1) = (Inr (), (c, w2))"
      "job_set i ((f j)\<lparr>ing_status := to\<rparr>) w1 w2"
    using record_transition_ok [OF job_set_row [OF 1(2)]] st v by metis
  show ?thesis
    using job_set_trans [OF 1(2) 2(2)] by (simp add: bindE_def 1(1) 2(1) commit_def)
qed

lemma session_edit_record:
  assumes m: "m (db w, w) =
      bindE (bindE (edit_ing i f) (\<lambda>_. record_transition i to ctx args)) (\<lambda>_. commit) (db w, w)"
    and row: "map_of (ingestions (db w)) i = Some j" and st: "ing_status (f j) = ing_status j"
    and v: "validate_transition (ing_status j) to ctx = Inr ()"
  shows "\<exists>w'. session m w = (Inr (), w') \<and> job_set i ((f j)\<lparr>ing_status := to\<rparr>) w w'"
proof -
  obtain w' where "m (db w, w) = (Inr (), (db w', w'))" "job_set i ((f j)\<lparr>ing_status := to\<rparr>) w w'"
    unfolding m using edit_record_run [where f = f, OF row st v] by blast
  then show ?thesis by (simp add: session_def)
qed

lemma validate_simps:
  "a = St_running \<or> a = St_committing \<Longrightarrow> n < m \<Longrightarrow>
   validate_transition a St_retrying (TransitionContext\<lparr>tc_attempts := n, tc_max_attempts := m\<rparr>) = Inr ()"
  "validate_transition St_retrying St_running TransitionContext = Inr ()"
  "validate_transition St_queued St_running (TransitionContext\<lparr>tc_slot_available := True\<rparr>) = Inr ()"
  "a = St_running \<or> a = St_committing \<or> a = St_retrying \<Longrightarrow>
   validate_transition a St_failed (TransitionContext\<lparr>tc_error_log_present := True\<rparr>) = Inr ()"
  "validate_transition St_committing St_completed (TransitionContext\<lparr>tc_commit_ok := True\<rparr>) = Inr ()"
  "r \<ge> 1 \<or> e \<Longrightarrow> validate_transition St_running St_committing
     (TransitionContext\<lparr>tc_rows_decoded := r, tc_allow_empty := e\<rparr>) = Inr ()"
  by (auto simp: validate_transition_def TRANSITIONS_def guard_defs TransitionContext_def)

lemma transition_retry_run:
  assumes "map_of (ingestions (db w)) i = Some j"
    and "ing_status j = St_running \<or> ing_status j = St_committing" and "n < retry_max_attempts st"
  shows "\<exists>w'. transition_retry st i n w = (Inr (), w') \<and>
           job_set i (j\<lparr>ing_status := St_retrying, ing_attempts := n\<rparr>) w w'"
  using move_session [OF assms(1) validate_simps(1) [OF assms(2,3)]]
  unfolding transition_retry_def by fastforce

lemma transition_resume_run:
  assumes "map_of (ingestions (db w)) i = Some j" and "ing_status j = St_retrying"
  shows "\<exists>w'. transition_resume i w = (Inr (), w') \<and> job_set i (j\<lparr>ing_status := St_running\<rparr>) w w'"
  using plain_move_session [OF assms(1), of St_running TransitionContext] assms(2) validate_simps(2)
  unfolding transition_resume_def by simp

lemma fail_job_run:
  assumes row: "map_of (ingestions (db w)) i = Some j"
    and st: "ing_status j = St_running \<or> ing_status j = St_committing \<or> ing_status j = St_retrying"
  shows "\<exists>w'. fail_job io i c m n ss h w = (Inr (), w') \<and>
           job_set i ((note_failure io c m n ss h j)\<lparr>ing_status := St_failed\<rparr>) w w'"
  unfolding fail_job_def
  by (rule session_edit_record [OF _ row _ validate_simps(4) [OF st]])
     (rule select_one_run [OF row], simp add: note_failure_def)

lemma to_committing_run:
  assumes "map_of (ingestions (db w)) i = Some j" and "ing_status j = St_running"
    and "rows_ok stats \<ge> 1 \<or> e"
  shows "\<exists>w'. to_committing i stats e w = (Inr (), w') \<and> job_set i (j\<lparr>ing_status := St_committing\<rparr>) w w'"
  using plain_move_session [OF assms(1), of St_committing] assms(2) validate_simps(6) [OF assms(3)]
  unfolding to_committing_def by simp

lemma to_completed_run:
  assumes row: "map_of (ingestions (db w)) i = Some j" and st: "ing_status j = St_committing"
    and urn: "parse_dataset_urn (py_or (ing_dataset_urn j) []) = Inr p"
  shows "\<exists>w'. to_completed io i staged result stats w = (Inr (), w') \<and>
           job_set i ((note_completion io result j)\<lparr>ing_status := St_completed\<rparr>) w w'"
proof -
  obtain c cs where u: "py_or (ing_dataset_urn j) [] = c # cs"
    using urn by (cases "py_or (ing_dataset_urn j) []") (auto simp: parse_dataset_urn_def)
  have "bindE (case py_or (ing_dataset_urn j) [] of [] \<Rightarrow> returnE None
          | c # cs \<Rightarrow> bindE (liftE (parse_dataset_urn (c # cs))) (\<lambda>p. returnE (Some (snd p)))) f (db w, w) =
        f (Some (snd p)) (db w, w)" for f :: "string option \<Rightarrow> unit tx"
    using urn by (simp add: u bindE_def liftE_def)
  then show ?thesis
    unfolding to_completed_def
    by (intro session_edit_record [OF _ row _ validate_simps(5) [folded st]])
       (rule trans [OF select_one_run [OF row]], assumption, simp add: note_completion_def)
qed

subsection \<open>One attempt\<close>

definition job_error :: "ing_error \<Rightarrow> bool" where
  "job_error e \<longleftrightarrow> (case e of TransientSourceError _ _ \<Rightarrow> True | PermanentJobError _ _ _ _ \<Rightarrow> True | _ \<Rightarrow> False)"

text \<open>\<open>counts_ok\<close>: the decoder counts rows up from 0. \<open>raises_job_errors\<close>: what the outside world raises is a job error.\<close>

definition counts_ok :: "job_io \<Rightarrow> bool" where
  "counts_ok io \<longleftrightarrow> (\<forall>n. case io_stage io n of Inl e \<Rightarrow> True | Inr (r, b, c, stats) \<Rightarrow> rows_ok stats \<ge> 0)"

definition raises_job_errors :: "job_io \<Rightarrow> bool" where
  "raises_job_errors io \<longleftrightarrow>
     (\<forall>n. case io_stage io n of Inl e \<Rightarrow> job_error e | Inr _ \<Rightarrow> True) \<and>
     (\<forall>n. case io_commit_raises io n of None \<Rightarrow> True | Some (b, e) \<Rightarrow> job_error e)"

definition runnable :: "ing_db \<Rightarrow> ingestion \<Rightarrow> bool" where
  "runnable d j \<longleftrightarrow>
     \<not> isl (parse_dataset_urn (py_or (ing_dataset_urn j) [])) \<and>
     (\<forall>c. length (completed_uploads c (ing_tenant j) d) \<le> 1)"

text \<open>Where an attempt leaves its job. \<open>B\<close> says that only job errors are to be expected.\<close>

definition attempt_post ::
    "bool \<Rightarrow> string \<Rightarrow> string \<Rightarrow> ingestion \<Rightarrow> world \<Rightarrow> (ing_error + 'a) \<times> world \<Rightarrow> bool" where
  "attempt_post B t i j w res \<longleftrightarrow>
     (case res of (r, w') \<Rightarrow>
        uploads (db w') = uploads (db w) \<and>
        (case r of
           Inl e \<Rightarrow> (B \<longrightarrow> job_error e) \<and> (\<exists>s \<in> {St_running, St_committing}.
              map_of (ingestions (db w')) i = Some (j\<lparr>ing_status := s\<rparr>))
         | Inr x \<Rightarrow> (\<exists>j' table. map_of (ingestions (db w')) i = Some j' \<and>
              ing_status j' = St_completed \<and> ing_attempts j' = ing_attempts j \<and>
              bronze_table_ident t (py_or (ing_dataset_urn j) []) = Inr table \<and>
              has_snapshot table i w')))"

lemma find_parts_run:
  assumes "\<And>c. length (completed_uploads c t (db w)) \<le> 1"
  shows "\<exists>ps. find_parts_loop t cs (c, w) = (Inr ps, (c, w))"
  using assms
proof (induction t cs rule: find_parts_loop.induct)
  case (3 t a cs)
  have "completed_uploads a t (db w) = [] \<or> (\<exists>u. completed_uploads a t (db w) = [u])"
    using 3(2) [of a] by (cases "completed_uploads a t (db w)") auto
  then show ?case
    using 3 by (auto simp: bindE_def query_def one_or_none_def)
qed simp_all

lemma find_parts_quiet: "find_parts_loop t cs s = (x, s') \<Longrightarrow> s' = s"
proof (induction t cs arbitrary: x rule: find_parts_loop.induct)
  case (3 t a cs)
  then show ?case
    by (cases s) (auto simp: bindE_def query_def one_or_none_def split: list.splits)
qed simp_all

lemma has_snapshot_append:
  "has_snapshot (sa_table staged) (sa_ingestion_id staged) (append_snapshot staged w)"
  by (simp add: has_snapshot_def read_ledger_append)

lemma has_snapshot_job_set: "job_set i j w w' \<Longrightarrow> has_snapshot t k w' = has_snapshot t k w"
  by (simp add: job_set_def has_snapshot_def read_ledger_def)

lemma commit_staged_outcome:
  assumes row: "map_of (ingestions (db w)) i = Some j" and st: "ing_status j = St_running"
    and urn: "bronze_table_ident t (py_or (ing_dataset_urn j) []) = Inr (sa_table staged)"
    and id: "sa_ingestion_id staged = i" and stats: "rows_ok stats \<ge> 0"
    and io: "B \<Longrightarrow> raises_job_errors io"
  shows "attempt_post B t i j w (commit_staged io n i staged stats e w)"
proof (cases "rows_ok stats = 0 \<and> \<not> e")
  case True
  then show ?thesis using row st by (simp add: commit_staged_def attempt_post_def job_error_def)
next
  case False
  then have "rows_ok stats \<ge> 1 \<or> e" using stats by auto
  from to_committing_run [OF row st this] obtain w1 where
    1: "to_committing i stats e w = (Inr (), w1)" "job_set i (j\<lparr>ing_status := St_committing\<rparr>) w w1"
    by blast
  obtain p where p: "parse_dataset_urn (py_or (ing_dataset_urn j) []) = Inr p"
    using urn by (auto simp: bronze_table_ident_def split: sum.splits)
  show ?thesis
  proof (cases "io_commit_raises io n")
    case (Some f)
    obtain b err where f: "f = (b, err)" by (cases f)
    have "B \<Longrightarrow> job_error err" using io Some f unfolding raises_job_errors_def by (metis case_prod_conv option.simps(5))
    then show ?thesis
      using 1 False Some f
      by (auto simp: commit_staged_def bindE_def tw_commit_def attempt_post_def job_set_def
          append_snapshot_def)
  next
    case None
    let ?w2 = "append_snapshot staged w1"
    have "map_of (ingestions (db ?w2)) i = Some (j\<lparr>ing_status := St_committing\<rparr>)"
      using 1(2) by (simp add: append_snapshot_def job_set_def)
    moreover have "ing_status (j\<lparr>ing_status := St_committing\<rparr>) = St_committing" by simp
    moreover have "parse_dataset_urn (py_or (ing_dataset_urn (j\<lparr>ing_status := St_committing\<rparr>)) []) = Inr p"
      using p by simp
    ultimately obtain w3 where
      3: "to_completed io i staged \<lparr>ar_snapshot_id = next_snapshot_id (read_ledger (sa_table staged) w1),
            ar_rows_appended = sa_rows staged, ar_bytes_written = sa_bytes_written staged\<rparr> stats ?w2 = (Inr (), w3)"
        "\<exists>r. job_set i ((note_completion io r (j\<lparr>ing_status := St_committing\<rparr>))\<lparr>ing_status := St_completed\<rparr>) ?w2 w3"
      using to_completed_run by blast
    have "uploads (db w3) = uploads (db w)"
      using 3(2) 1(2) by (auto simp: job_set_def append_snapshot_def)
    moreover have "has_snapshot (sa_table staged) i w3"
      using 3(2) has_snapshot_append [of staged w1] id by (auto dest: has_snapshot_job_set)
    moreover have "\<exists>j'. map_of (ingestions (db w3)) i = Some j' \<and> ing_status j' = St_completed \<and>
        ing_attempts j' = ing_attempts j"
      using 3(2) by (auto simp: job_set_def note_completion_def)
    ultimately show ?thesis
      using False urn by (auto simp: commit_staged_def bindE_def 1(1) tw_commit_def None 3(1) attempt_post_def)
  qed
qed

lemma guarded_stage_outcome:
  assumes row: "map_of (ingestions (db w)) i = Some j" and st: "ing_status j = St_running"
    and urn: "bronze_table_ident t (py_or (ing_dataset_urn j) []) = Inr table"
    and io: "counts_ok io" "B \<Longrightarrow> raises_job_errors io"
  shows "attempt_post B t i j w
     (bindE (refuse_double_append table i) (\<lambda>_. stage_and_commit io n i table src e) w)"
proof (cases "has_snapshot table i w")
  case True
  then show ?thesis
    using row st by (simp add: bindE_def refuse_double_append_run attempt_post_def job_error_def)
next
  case False
  show ?thesis
  proof (cases "io_stage io n")
    case (Inl err)
    then have "B \<Longrightarrow> job_error err" using io(2) unfolding raises_job_errors_def by (metis sum.simps(5))
    then show ?thesis
      using False row st
      by (simp add: bindE_def refuse_double_append_run stage_and_commit_def liftE_def Inl attempt_post_def)
  next
    case (Inr res)
    obtain r b c stats where res: "res = (r, b, c, stats)" by (cases res) auto
    have "rows_ok stats \<ge> 0"
      using io(1) [unfolded counts_ok_def, rule_format, of n] Inr res by simp
    then show ?thesis
      using False commit_staged_outcome [OF row st _ _ _ io(2), where t = t and
          staged = "\<lparr>sa_table = table, sa_rows = r, sa_bytes_written = b, sa_ingestion_id = i, sa_source = src,
            sa_columns = c\<rparr>" and stats = stats and n = n and e = e] urn
      by (simp add: bindE_def refuse_double_append_run stage_and_commit_def liftE_def Inr res)
  qed
qed

lemma attempt_post_map:
  "attempt_post B t i j w (m w) \<Longrightarrow> attempt_post B t i j w (bindE m (\<lambda>_. returnE x) w)"
  by (auto simp: attempt_post_def bindE_def split: prod.splits sum.splits)

lemma attempt_post_raise:
  "map_of (ingestions (db w)) i = Some j \<Longrightarrow> ing_status j = St_running \<Longrightarrow> (B \<Longrightarrow> job_error e) \<Longrightarrow>
   attempt_post B t i j w (Inl e, w)"
  by (simp add: attempt_post_def)

lemma attempt_post_permanent:
  "map_of (ingestions (db w)) i = Some j \<Longrightarrow> ing_status j = St_running \<Longrightarrow>
   attempt_post B t i j w (Inl (PermanentJobError c m ss h), w)"
  by (simp add: attempt_post_def job_error_def)

lemma runnable_table:
  assumes "runnable d j"
  shows "\<exists>table. bronze_table_ident t (py_or (ing_dataset_urn j) []) = Inr table"
  using assms by (cases "parse_dataset_urn (py_or (ing_dataset_urn j) [])")
    (auto simp: runnable_def bronze_table_ident_def)

lemma attempt_file_outcome:
  assumes row: "map_of (ingestions (db w)) i = Some j" and st: "ing_status j = St_running"
    and run: "B \<Longrightarrow> runnable (db w) j" and io: "counts_ok io" "B \<Longrightarrow> raises_job_errors io"
  shows "attempt_post B t i j w (attempt_file io n t i w)"
proof -
  let ?T = "bronze_table_ident t (py_or (ing_dataset_urn j) [])"
  obtain P where P: "find_upload_parts j (db w, w) = (P, (db w, w))"
    using find_parts_quiet unfolding find_upload_parts_def by (metis surj_pair)
  have PB: "\<not> isl P" if B
  proof -
    have "\<And>c. length (completed_uploads c (ing_tenant j) (db w)) \<le> 1" using run [OF that] by (simp add: runnable_def)
    from find_parts_run [OF this, of "[Some (ing_id j), ing_retried_from j]" "db w"] P show ?thesis by (auto simp: find_upload_parts_def)
  qed
  have TB: "\<not> isl ?T" if B using runnable_table [OF run [OF that], of t] by auto
  let ?m = "bindE (select_ing i) (\<lambda>row. bindE (scalar_one row) (\<lambda>ing.
       bindE (find_upload_parts ing) (\<lambda>parts.
       bindE (liftE (bronze_table_ident t (py_or (ing_dataset_urn ing) []))) (\<lambda>table.
       returnE (parts, ing_allow_empty ing, table)))))"
  have m: "?m (db w, w) = (case P of Inl e \<Rightarrow> (Inl e, (db w, w)) | Inr ps \<Rightarrow>
      (case ?T of Inl e \<Rightarrow> (Inl e, (db w, w)) | Inr table \<Rightarrow> (Inr (ps, ing_allow_empty j, table), (db w, w))))"
    unfolding select_one_run [OF row] by (simp add: bindE_def P liftE_def split: sum.split)
  consider (fail) e where "session ?m w = (Inl e, w)" "\<not> B" | (ok) ps table where "session ?m w = (Inr (ps, ing_allow_empty j, table), w)" "?T = Inr table"
    using m PB TB by (cases P; cases ?T) (auto simp: session_def)
  then show ?thesis
  proof cases
    case fail
    show ?thesis
      unfolding attempt_file_def bindE_Inl [where m = "session ?m", OF fail(1)]
      by (rule attempt_post_raise [OF row st]) (simp add: fail(2))
  next
    case ok
    then show ?thesis
      using attempt_post_permanent [OF row st] guarded_stage_outcome [OF row st ok(2) io]
      by (cases "ps = []") (simp_all add: attempt_file_def bindE_Inr [where m = "session ?m", OF ok(1)])
  qed
qed

lemma attempt_query_outcome:
  assumes row: "map_of (ingestions (db w)) i = Some j" and st: "ing_status j = St_running"
    and run: "B \<Longrightarrow> runnable (db w) j" and io: "counts_ok io" "B \<Longrightarrow> raises_job_errors io"
  shows "attempt_post B t i j w (attempt_query io n t i w)"
proof -
  let ?T = "bronze_table_ident t (py_or (ing_dataset_urn j) [])"
  have TB: "\<not> isl ?T" if B using runnable_table [OF run [OF that], of t] by auto
  let ?m = "bindE (select_ing i) (\<lambda>row. bindE (scalar_one row) (\<lambda>ing.
       bindE (query (job_connection t ing)) (\<lambda>found. case found of
          None \<Rightarrow> raiseE (PermanentJobError INTERNAL ''connection not found for query job'' [] None)
        | Some conn \<Rightarrow>
            bindE (liftE (bronze_table_ident t (py_or (ing_dataset_urn ing) []))) (\<lambda>table.
            returnE (conn, ing_allow_empty ing, table)))))"
  have m: "?m (db w, w) = (case job_connection t j (db w) of
      None \<Rightarrow> (Inl (PermanentJobError INTERNAL ''connection not found for query job'' [] None), (db w, w))
    | Some conn \<Rightarrow> (case ?T of Inl e \<Rightarrow> (Inl e, (db w, w)) | Inr table \<Rightarrow> (Inr (conn, ing_allow_empty j, table), (db w, w))))"
    unfolding select_one_run [OF row]
    by (cases "job_connection t j (db w)") (simp_all add: bindE_def query_def liftE_def split: sum.split)
  have assoc: "bindE (refuse_double_append table i) (\<lambda>_. bindE b (\<lambda>_. c)) w =
      bindE (bindE (refuse_double_append table i) (\<lambda>_. b)) (\<lambda>_. c) w"
    for b :: "unit app" and c :: "string option app" and table
    by (simp add: bindE_def split: prod.split sum.split)
  consider (fail) e where "session ?m w = (Inl e, w)" "B \<Longrightarrow> job_error e"
    | (ok) conn table where "session ?m w = (Inr (conn, ing_allow_empty j, table), w)" "?T = Inr table"
    using m TB by (cases "job_connection t j (db w)"; cases ?T) (auto simp: session_def job_error_def)
  then show ?thesis
  proof cases
    case fail
    show ?thesis
      unfolding attempt_query_def bindE_Inl [where m = "session ?m", OF fail(1)]
      by (rule attempt_post_raise [OF row st]) (rule fail(2))
  next
    case ok
    show ?thesis
      unfolding attempt_query_def bindE_Inr [where m = "session ?m", OF ok(1)] prod.case assoc
      by (rule attempt_post_map) (rule guarded_stage_outcome [OF row st ok(2) io])
  qed
qed

lemma attempt_outcome:
  assumes row: "map_of (ingestions (db w)) i = Some j" and st: "ing_status j = St_running"
    and run: "B \<Longrightarrow> runnable (db w) j" and io: "counts_ok io" "B \<Longrightarrow> raises_job_errors io"
  shows "attempt_post B t i j w (attempt_job io n t i w)"
proof -
  let ?m = "bindE (select_ing i) (\<lambda>row. bindE (scalar_one row) (\<lambda>ing. returnE (ing_mode ing)))"
  have "session ?m w = (Inr (ing_mode j), w)"
    unfolding session_def select_one_run [OF row] by simp
  note mode = bindE_Inr [where m = "session ?m", OF this]
  show ?thesis
    unfolding attempt_job_def mode
    using attempt_post_map [where m = "attempt_file io n t i", OF attempt_file_outcome [OF row st run io]]
      attempt_query_outcome [OF row st run io] attempt_post_permanent [OF row st]
    by (auto simp del: returnE_apply)
qed

subsection \<open>The whole run of a job\<close>

definition finished :: "string \<Rightarrow> string \<Rightarrow> string option \<Rightarrow> int \<Rightarrow> string \<Rightarrow> world \<Rightarrow> bool" where
  "finished t i urn m s w \<longleftrightarrow>
     (\<exists>j. map_of (ingestions (db w)) i = Some j \<and> ing_attempts j \<le> m \<and>
        ((s = ''completed'' \<and> ing_status j = St_completed \<and>
            (\<exists>table. bronze_table_ident t (py_or urn []) = Inr table \<and> has_snapshot table i w)) \<or>
         (s = ''failed'' \<and> ing_status j = St_failed \<and> ing_error_log j \<noteq> None)))"

lemma fail_finishes:
  assumes "map_of (ingestions (db w)) i = Some j"
    and "ing_status j = St_running \<or> ing_status j = St_committing" and "n \<le> m"
  shows "\<exists>w'. bindE (fail_job io i c msg n ss h) (\<lambda>_. returnE (''failed'', None)) w =
           (Inr (''failed'', None :: string option), w') \<and> finished t i urn m ''failed'' w'"
proof -
  obtain w' where w': "fail_job io i c msg n ss h w = (Inr (), w')"
      "job_set i ((note_failure io c msg n ss h j)\<lparr>ing_status := St_failed\<rparr>) w w'"
    using fail_job_run [OF assms(1)] assms(2) by blast
  then show ?thesis
    using assms(3) by (auto simp: bindE_def finished_def job_set_def note_failure_def)
qed

lemma runnable_uploads:
  "runnable d j \<Longrightarrow> uploads d' = uploads d \<Longrightarrow> ing_dataset_urn j' = ing_dataset_urn j \<Longrightarrow>
   ing_tenant j' = ing_tenant j \<Longrightarrow> runnable d' j'"
  by (simp add: runnable_def completed_uploads_def)

lemma retry_resume_run:
  assumes "map_of (ingestions (db w)) i = Some j"
    and "ing_status j = St_running \<or> ing_status j = St_committing" and "n < retry_max_attempts st"
  shows "\<exists>w'. bindE (transition_retry st i n) (\<lambda>_. transition_resume i) w = (Inr (), w') \<and>
           job_set i (j\<lparr>ing_status := St_running, ing_attempts := n\<rparr>) w w'"
proof -
  obtain w1 where 1: "transition_retry st i n w = (Inr (), w1)"
      "job_set i (j\<lparr>ing_status := St_retrying, ing_attempts := n\<rparr>) w w1"
    using transition_retry_run [OF assms] by blast
  obtain w2 where 2: "transition_resume i w1 = (Inr (), w2)"
      "job_set i (j\<lparr>ing_status := St_retrying, ing_attempts := n, ing_status := St_running\<rparr>) w1 w2"
    using transition_resume_run [OF job_set_row [OF 1(2)]] by auto
  have "bindE (transition_retry st i n) (\<lambda>_. transition_resume i) w = (Inr (), w2)"
    by (simp add: bindE_def 1(1) 2(1))
  moreover have "job_set i (j\<lparr>ing_status := St_running, ing_attempts := n\<rparr>) w w2"
    using job_set_trans [OF 1(2) 2(2)] by (cases j) simp
  ultimately show ?thesis by blast
qed

text \<open>An exception that is no job error leaves the loop, and the job where it was.\<close>

definition stuck :: "string \<Rightarrow> ing_error \<Rightarrow> world \<Rightarrow> bool" where
  "stuck i e w \<longleftrightarrow> \<not> job_error e \<and>
     (\<exists>j. map_of (ingestions (db w)) i = Some j \<and> ing_status j \<in> {St_running, St_committing})"

definition run_end :: "bool \<Rightarrow> string \<Rightarrow> string \<Rightarrow> string option \<Rightarrow> int \<Rightarrow> (ing_error + string \<times> string option) \<times> world \<Rightarrow> bool" where
  "run_end B t i urn m res \<longleftrightarrow>
     (case res of (Inr (s, obs), w') \<Rightarrow> finished t i urn m s w' | (Inl e, w') \<Rightarrow> \<not> B \<and> stuck i e w')"

lemma execute_loop_ends:
  assumes io: "counts_ok io" "B \<Longrightarrow> raises_job_errors io"
  shows "map_of (ingestions (db w)) i = Some j \<Longrightarrow> ing_status j = St_running \<Longrightarrow>
    (B \<Longrightarrow> runnable (db w) j) \<Longrightarrow> ing_attempts j \<le> n \<Longrightarrow> n \<le> max 1 (retry_max_attempts st) \<Longrightarrow>
    run_end B t i (ing_dataset_urn j) (max 1 (retry_max_attempts st)) (execute_loop st io t i n w)"
proof (induction "nat (retry_max_attempts st - n)" arbitrary: n w j rule: less_induct)
  case less
  obtain r w1 where a: "attempt_job io n t i w = (r, w1)" by (cases "attempt_job io n t i w")
  have post: "attempt_post B t i j w (r, w1)"
    using attempt_outcome [OF less.prems(1-3) io, where t = t and n = n] by (simp add: a)
  note step = execute_loop.simps [of st io t i n w, unfolded a]
  show ?case
  proof (cases r)
    case (Inr obs)
    then have "finished t i (ing_dataset_urn j) (max 1 (retry_max_attempts st)) ''completed'' w1"
      using post less.prems(4,5) by (auto simp: attempt_post_def finished_def)
    then show ?thesis by (simp add: step Inr run_end_def)
  next
    case (Inl e)
    obtain s where s: "s = St_running \<or> s = St_committing"
        "map_of (ingestions (db w1)) i = Some (j\<lparr>ing_status := s\<rparr>)"
      and e: "B \<Longrightarrow> job_error e" and up: "uploads (db w1) = uploads (db w)"
      using post Inl by (auto simp: attempt_post_def)
    have fails: "run_end B t i (ing_dataset_urn j) (max 1 (retry_max_attempts st))
        (bindE (fail_job io i c msg n ss h) (\<lambda>_. returnE (''failed'', None)) w1)" for c msg ss h
    proof -
      from fail_finishes [OF s(2) _ less.prems(5), of io c msg ss h t "ing_dataset_urn j"] s(1)
      obtain w' where "bindE (fail_job io i c msg n ss h) (\<lambda>_. returnE (''failed'', None)) w1 =
           (Inr (''failed'', None :: string option), w')"
        and "finished t i (ing_dataset_urn j) (max 1 (retry_max_attempts st)) ''failed'' w'" by auto
      then show ?thesis by (simp only: run_end_def prod.case sum.case)
    qed
    have other: ?thesis if "\<not> job_error e"
    proof -
      have "execute_loop st io t i n w = (Inl e, w1)" using that by (cases e) (simp_all add: step Inl job_error_def)
      moreover have "stuck i e w1" using s that by (auto simp: stuck_def)
      ultimately show ?thesis using e that by (auto simp: run_end_def)
    qed
    show ?thesis
    proof (cases e)
      case (TransientSourceError c m)
      show ?thesis
      proof (cases "n < retry_max_attempts st")
        case True
        obtain w2 where 2: "bindE (transition_retry st i n) (\<lambda>_. transition_resume i) w1 = (Inr (), w2)"
            "job_set i (j\<lparr>ing_status := St_running, ing_attempts := n\<rparr>) w1 w2"
          using retry_resume_run [OF s(2) _ True] s(1) by auto
        have "B \<Longrightarrow> runnable (db w2) (j\<lparr>ing_status := St_running, ing_attempts := n\<rparr>)"
          using runnable_uploads [OF less.prems(3)] 2(2) up by (simp add: job_set_def)
        then show ?thesis
          using less.hyps [OF _ job_set_row [OF 2(2)]] True
          by (simp add: step Inl TransientSourceError 2(1))
      next
        case False
        then show ?thesis
          using fails [of c m "[]" None]
          by (simp add: step Inl TransientSourceError del: returnE_apply)
      qed
    next
      case (PermanentJobError c m ss h)
      then show ?thesis
        using fails [of c m ss h] by (simp add: step Inl del: returnE_apply)
    qed (use other in \<open>simp_all add: job_error_def\<close>)
  qed
qed

lemma acquire_slot_run:
  assumes row: "map_of (ingestions (db w)) i = Some j" and st: "ing_status j = St_queued"
    and free: "running_jobs t (db w) < max_running_per_tenant st"
      "active_on_dataset t (ing_dataset_urn j) (db w) = 0"
  shows "\<exists>w'. acquire_slot st now t i w = (Inr True, w') \<and>
           job_set i (j\<lparr>ing_status := St_running, ing_started_at := Some now\<rparr>) w w'"
proof -
  have v: "validate_transition (ing_status j) St_running (TransitionContext\<lparr>tc_slot_available := True\<rparr>) = Inr ()"
    using validate_simps(3) st by simp
  obtain w1 where 1: "record_transition i St_running (TransitionContext\<lparr>tc_slot_available := True\<rparr>) no_args (db w, w)
        = (Inr (), (db w, w1))" "job_set i (j\<lparr>ing_status := St_running\<rparr>) w w1"
    using record_transition_ok [OF row v] by blast
  obtain w2 where 2: "edit_ing i (\<lambda>j. j\<lparr>ing_started_at := Some now\<rparr>) (db w, w1) = (Inr (), (db w, w2))"
      "job_set i (j\<lparr>ing_status := St_running, ing_started_at := Some now\<rparr>) w1 w2"
    using edit_ing_ok [OF job_set_row [OF 1(2)], of "\<lambda>j. j\<lparr>ing_started_at := Some now\<rparr>"] by auto
  show ?thesis
    using job_set_trans [OF 1(2) 2(2)] free
    by (simp add: acquire_slot_def session_def bindE_def select_ing_def query_def row st 1(1) 2(1)
        commit_def)
qed

lemma acquire_slot_refused:
  assumes "acquire_slot st now t i w = (Inr False, w')"
  shows "w' = w"
  using assms
  by (auto simp: acquire_slot_def session_def bindE_def select_ing_def query_def commit_def
      split: option.splits if_splits prod.splits sum.splits)

subsection \<open>Properties of the runner\<close>

lemma job_set_counts:
  assumes inv: "db_inv (db w)" "db_inv (db w')" and row: "map_of (ingestions (db w)) i = Some j"
    and set: "job_set i j' w w'" and st: "ing_status j = St_queued" "ing_status j' = St_running"
    and same: "ing_tenant j' = ing_tenant j" "ing_dataset_urn j' = ing_dataset_urn j"
  shows "running_jobs (ing_tenant j) (db w') = running_jobs (ing_tenant j) (db w) + 1"
    and "active_on_dataset (ing_tenant j) (ing_dataset_urn j) (db w') =
         active_on_dataset (ing_tenant j) (ing_dataset_urn j) (db w) + 1"
proof -
  have d: "distinct (map fst (ingestions (db w)))" "distinct (map fst (ingestions (db w')))"
    using inv by (simp_all add: db_inv_def)
  have m: "map_of (ingestions (db w')) k = (if k = i then Some j' else map_of (ingestions (db w)) k)" for k
    using set by (simp add: job_set_def)
  show "running_jobs (ing_tenant j) (db w') = running_jobs (ing_tenant j) (db w) + 1"
    using dict_count_update [OF d m row,
        where P = "\<lambda>x. ing_tenant x = ing_tenant j \<and> ing_status x = St_running"] st same
    by (simp add: running_jobs_def)
  show "active_on_dataset (ing_tenant j) (ing_dataset_urn j) (db w') =
         active_on_dataset (ing_tenant j) (ing_dataset_urn j) (db w) + 1"
    using dict_count_update [OF d m row, where P = "\<lambda>x. ing_tenant x = ing_tenant j \<and>
        ing_dataset_urn x = ing_dataset_urn j \<and> (ing_status x = St_running \<or> ing_status x = St_committing)"]
      st same
    by (simp add: active_on_dataset_def)
qed

lemma acquire_slot_denied:
  assumes "map_of (ingestions (db w)) i = Some j"
    and "\<not> (ing_status j = St_queued \<and> running_jobs t (db w) < max_running_per_tenant st \<and>
            active_on_dataset t (ing_dataset_urn j) (db w) = 0)"
  shows "acquire_slot st now t i w = (Inr False, w)"
proof -
  have "0 \<le> active_on_dataset t (ing_dataset_urn j) (db w)" by (simp add: active_on_dataset_def)
  then show ?thesis
    using assms by (auto simp: acquire_slot_def session_def bindE_def select_ing_def query_def)
qed

text \<open>C13. A slot is given to a queued job exactly when the tenant runs fewer jobs than its cap
  and no job on the same dataset is running or committing. Then the tenant stays within the cap
  and the job is the only active one on its dataset; otherwise nothing changes.\<close>

theorem acquire_slot_exclusive:
  assumes inv: "db_inv (db w)" and row: "map_of (ingestions (db w)) i = Some j"
  shows "if ing_status j = St_queued \<and> running_jobs (ing_tenant j) (db w) < max_running_per_tenant st \<and>
            active_on_dataset (ing_tenant j) (ing_dataset_urn j) (db w) = 0
         then \<exists>w'. acquire_slot st now (ing_tenant j) i w = (Inr True, w') \<and>
                db_inv (db w') \<and>
                running_jobs (ing_tenant j) (db w') = running_jobs (ing_tenant j) (db w) + 1 \<and>
                running_jobs (ing_tenant j) (db w') \<le> max_running_per_tenant st \<and>
                active_on_dataset (ing_tenant j) (ing_dataset_urn j) (db w') = 1
         else acquire_slot st now (ing_tenant j) i w = (Inr False, w)"
    (is "if ?free then _ else _")
proof (cases ?free)
  case True
  let ?j' = "j\<lparr>ing_status := St_running, ing_started_at := Some now\<rparr>"
  obtain w' where w': "acquire_slot st now (ing_tenant j) i w = (Inr True, w')" "job_set i ?j' w w'"
    using acquire_slot_run [OF row] True by blast
  have "app_good (db w) w'"
    using preservesD [OF app_keeps_acquire_slot _ w'(1), of "db w"] inv
    by (simp add: app_good_def good_def)
  then have inv': "db_inv (db w')" by (simp add: app_good_def good_def)
  then show ?thesis
    using True w'(1) job_set_counts [OF inv inv' row w'(2)] by simp
next
  case False
  then have "acquire_slot st now (ing_tenant j) i w = (Inr False, w)"
    by (intro acquire_slot_denied [OF row]) auto
  with False show ?thesis by (simp only: if_False)
qed

definition demo_job :: "string \<Rightarrow> string \<Rightarrow> status \<Rightarrow> ingestion" where
  "demo_job i dataset s =
     \<lparr>ing_id = i, ing_tenant = ''t'', ing_workspace = ''w'', ing_connection = Some ''c'',
      ing_dataset_urn = Some dataset, ing_new_dataset = None, ing_mode = ''query'',
      ing_file_format = Some ''parquet'', ing_statement = Some ''select 1'', ing_status = s,
      ing_trigger = ''manual'', ing_schedule = None, ing_scheduled_for = None,
      ing_skip_profiling = False, ing_allow_empty = False, ing_bytes_total = None,
      ing_bytes_received = 0, ing_rows_appended = 0, ing_snapshot_id = None, ing_error_log = None,
      ing_error_row_limit = 100, ing_attempts = 0, ing_retried_from = None, ing_started_at = None,
      ing_finished_at = None, ing_created_by = None\<rparr>"

definition demo_move :: "string \<Rightarrow> status \<Rightarrow> status \<Rightarrow> ing_transition" where
  "demo_move i a b = \<lparr>tr_tenant = ''t'', tr_ingestion = i, tr_from = a, tr_to = b,
     tr_actor = None, tr_detail = None\<rparr>"

definition demo_urn :: string where
  "demo_urn = dataset_urn_of (replicate 36 (CHR ''a'')) (replicate 36 (CHR ''b''))"

definition demo_world :: world where
  "demo_world = empty_world\<lparr>db := empty_db\<lparr>
     ingestions := [(''a'', demo_job ''a'' demo_urn St_queued), (''b'', demo_job ''b'' demo_urn St_queued)],
     transitions := [demo_move ''a'' St_created St_queued, demo_move ''b'' St_created St_queued],
     connections := [(''c'', \<lparr>cn_tenant = ''t'', cn_connector_type = ''postgres'',
        cn_config = JObj [], cn_vault_ref = None, cn_deleted_at = None\<rparr>)]\<rparr>\<rparr>"

definition demo_settings :: ing_settings where
  "demo_settings = \<lparr>max_running_per_tenant = 5, retry_max_attempts = 5, inline_execution = True,
     max_active_uploads_per_tenant = 20, default_part_size = 32 * 1048576,
     min_part_size = 8 * 1048576, max_part_size = 64 * 1048576, upload_ttl_hours = 24,
     max_upload_bytes = 5 * 1024 * 1048576, max_upload_parts = 10000\<rparr>"

lemma demo_world_inv: "db_inv (db demo_world)"
  by (auto simp: db_inv_def demo_world_def empty_world_def empty_db_def job_ok_def row_ok_def
      demo_job_def demo_move_def history_def split: if_splits)

lemma demo_rows:
  "map_of (ingestions (db demo_world)) ''a'' = Some (demo_job ''a'' demo_urn St_queued)"
  "map_of (ingestions (db demo_world)) ''b'' = Some (demo_job ''b'' demo_urn St_queued)"
  by (simp_all add: demo_world_def)

theorem acquire_slot_exclusive_witness:
  "\<exists>w'. acquire_slot demo_settings 0 ''t'' ''a'' demo_world = (Inr True, w') \<and>
     db_inv (db w') \<and> running_jobs ''t'' (db w') = 1 \<and>
     active_on_dataset ''t'' (Some demo_urn) (db w') = 1"
proof -
  have "running_jobs ''t'' (db demo_world) = 0" "active_on_dataset ''t'' (Some demo_urn) (db demo_world) = 0"
    by (simp_all add: running_jobs_def active_on_dataset_def demo_world_def demo_job_def)
  then show ?thesis
    using acquire_slot_exclusive [OF demo_world_inv demo_rows(1), of demo_settings 0]
    by (auto simp: demo_job_def demo_settings_def)
qed


definition demo_io :: job_io where
  "demo_io = \<lparr>io_stage = (\<lambda>n. if n \<le> 1 then Inl (TransientSourceError SOURCE_UNREACHABLE ''down'')
        else Inr (2, 64, [''x''], \<lparr>rows_ok = 2, rows_bad = 0, renamed_columns = []\<rparr>)),
     io_observed = (\<lambda>n. None), io_commit_raises = (\<lambda>n. None), io_now = 0, io_sha256 = (\<lambda>s. s)\<rparr>"


text \<open>An exception of the outside world that is no job error, here a missing file, leaves the job running for good.\<close>

lemma unexpected_error_strands_job:
  "case execute demo_settings (demo_io\<lparr>io_stage := (\<lambda>n. Inl (FileNotFound ''part-1''))\<rparr>) ''t'' ''a'' demo_world of
     (r, w') \<Rightarrow> r = Inl (FileNotFound ''part-1'') \<and> map_option ing_status (map_of (ingestions (db w')) ''a'') = Some St_running"
  by code_simp

text \<open>C15. No run of a job, whatever the outside world does (a commit that raises after its
  ledger entry has landed included), appends a second snapshot of a job to a table.\<close>

theorem execute_single_append:
  assumes "single_append w"
  shows "single_append (snd (execute sets io t i w))"
proof -
  have tx: "preserves single_append m" if "\<And>L. preserves (same_ledger L) m" for m :: "'a app"
    using that by (rule preserves_single_append)
  have "preserves single_append (execute sets io t i)"
    unfolding execute_def
    by (intro preserves_rules execute_loop_preserves attempt_single tx ledger_rules)
  then show ?thesis using assms by (simp add: preserves_def)
qed

theorem execute_single_append_witness:
  "single_append (snd (execute demo_settings
     (demo_io\<lparr>io_commit_raises := (\<lambda>n. Some (True, TransientSourceError TIMEOUT ''lost''))\<rparr>)
     ''t'' ''a'' demo_world))"
  by (rule execute_single_append)
     (simp add: single_append_def snapshots_of_def read_ledger_def demo_world_def empty_world_def)

text \<open>The slot is not checked again when a job resumes after a retry. While job \<open>a\<close> waits
  in \<open>retrying\<close> it holds no slot, so job \<open>b\<close> on the same dataset gets one, and then \<open>a\<close>
  resumes: two jobs run on one dataset, although a slot admits one running job per dataset.\<close>

theorem resume_overlaps_on_dataset:
  "(let w1 = snd (acquire_slot demo_settings 0 ''t'' ''a'' demo_world);
        w2 = snd (transition_retry demo_settings ''a'' 1 w1);
        r3 = acquire_slot demo_settings 0 ''t'' ''b'' w2;
        w4 = snd (transition_resume ''a'' (snd r3))
    in fst r3 = Inr True \<and> active_on_dataset ''t'' (Some demo_urn) (db w4) = 2)"
  by code_simp

end
