(* ===== verification/Ingestion_Jobs.thy ===== *)
theory Ingestion_Jobs
  imports Ingestion_Runner
begin

text \<open>
  The job service (\<open>services/ingestion-service/app/domain/services/ingestions.py\<close>): creating,
  cancelling, retrying and re-ingesting jobs. Identifiers the code draws with \<open>uuid7()\<close> are
  arguments (\<open>fresh_ids\<close>); inserting a row whose identifier exists already raises, as the
  primary key does.

  \<open>_validate_mode\<close> refuses the mode \<open>webhook_batch\<close>, so the webhook-endpoint branch of
  \<open>create\<close> behind it is dead code and has no definition here.
\<close>

record new_ids =
  fresh_ingestion :: string
  fresh_dataset :: string

record ingestion_create =
  ic_mode :: string
  ic_connection :: "string option"
  ic_statement :: "string option"
  ic_file_format :: "string option"
  ic_dataset_urn :: "string option"
  ic_new_dataset :: "(string \<times> json) list option"
  ic_skip_profiling :: bool
  ic_allow_empty :: bool
  ic_error_row_limit :: int
  ic_workspace :: string

definition DEFAULT_WORKSPACE :: string where
  "DEFAULT_WORKSPACE = ''00000000-0000-0000-0000-000000000000''"

definition FILE_FORMATS :: "string list" where
  "FILE_FORMATS = [''csv'', ''tsv'', ''json'', ''jsonl'', ''parquet'', ''avro'', ''xml'',
     ''x12'', ''fhir'', ''hl7v2'']"

definition truthy :: "string option \<Rightarrow> bool" where
  "truthy x \<longleftrightarrow> x \<noteq> None \<and> x \<noteq> Some []"

definition validate_mode :: "ingestion_create \<Rightarrow> ing_error + unit" where
  "validate_mode body =
     (if ic_mode body = ''webhook_batch'' then Inl NotImplementedFeatureError
      else
        let details =
          (if ic_mode body = ''file_upload''
           then (if \<not> truthy (ic_file_format body) then [''file_format'']
                 else if the (ic_file_format body) \<notin> set FILE_FORMATS then [''file_format''] else [])
           else if ic_mode body = ''query''
           then (if \<not> truthy (ic_statement body) then [''statement''] else []) @
                (if \<not> truthy (ic_connection body) then [''connection_id''] else [])
           else if ic_mode body = ''scheduled_run'' then [''ingestion_mode''] else [])
        in if details \<noteq> [] then Inl (ValidationFailedError ''invalid ingestion payload'') else Inr ())"

definition get_job :: "principal \<Rightarrow> string \<Rightarrow> ingestion tx" where
  "get_job p ingestion_id =
     bindE (select_ing ingestion_id) (\<lambda>row.
       case row of
         Some ing \<Rightarrow>
           if ing_tenant ing = pr_tenant p then returnE ing
           else raise_not_found_with_audit p (Some (ing_tenant ing)) ingestion_id ''ingestion''
       | None \<Rightarrow> raise_not_found_with_audit p None ingestion_id ''ingestion'')"

definition check_connection :: "principal \<Rightarrow> string option \<Rightarrow> unit tx" where
  "check_connection p cid =
     (if \<not> truthy cid then returnE ()
      else bindE (query (\<lambda>d. map_of (connections d) (the cid))) (\<lambda>found.
        case found of
          None \<Rightarrow> raise_not_found_with_audit p None (the cid) ''connection''
        | Some conn \<Rightarrow>
            if cn_tenant conn = pr_tenant p \<and> cn_deleted_at conn = None then returnE ()
            else raise_not_found_with_audit p (Some (cn_tenant conn)) (the cid) ''connection''))"

definition resolve_target ::
    "principal \<Rightarrow> new_ids \<Rightarrow> ingestion_create \<Rightarrow> (string \<times> (string \<times> json) list option) tx" where
  "resolve_target p ids body =
     (if truthy (ic_dataset_urn body) = (ic_new_dataset body \<noteq> None)
      then raiseE (ValidationFailedError ''exactly one target required'')
      else if truthy (ic_dataset_urn body)
      then let urn = the (ic_dataset_urn body) in
           bindE (liftE (parse_dataset_urn urn)) (\<lambda>(urn_tenant, _).
             if urn_tenant \<noteq> pr_tenant p
             then bindE (change (emit_event (pr_tenant p) ''security.cross_tenant_denied'' urn
                      (JObj [(''resource_type'', JStr ''dataset''), (''resource_urn'', JStr urn)])
                      (Some (actor p)) (via_agent p))) (\<lambda>_.
                  bindE commit (\<lambda>_. raiseE NotFoundError))
             else returnE (urn, None))
      else returnE (dataset_urn_of (pr_tenant p) (fresh_dataset ids), ic_new_dataset body))"

definition new_row ::
    "principal \<Rightarrow> new_ids \<Rightarrow> ingestion_create \<Rightarrow> string \<Rightarrow> (string \<times> json) list option \<Rightarrow> ingestion" where
  "new_row p ids body dataset_urn new_dataset =
     \<lparr>ing_id = fresh_ingestion ids, ing_tenant = pr_tenant p,
      ing_workspace = (if ic_workspace body = DEFAULT_WORKSPACE \<and> truthy (pr_workspace p)
                       then the (pr_workspace p) else ic_workspace body),
      ing_connection = ic_connection body, ing_dataset_urn = Some dataset_urn,
      ing_new_dataset = new_dataset, ing_mode = ic_mode body,
      ing_file_format = (if truthy (ic_file_format body) then ic_file_format body
                         else if ic_mode body = ''query'' then Some ''parquet'' else None),
      ing_statement = ic_statement body, ing_status = St_created,
      ing_trigger = (if take 5 (pr_typ p) = ''agent'' then ''agent'' else ''manual''),
      ing_schedule = None, ing_scheduled_for = None, ing_skip_profiling = ic_skip_profiling body,
      ing_allow_empty = ic_allow_empty body, ing_bytes_total = None, ing_bytes_received = 0,
      ing_rows_appended = 0, ing_snapshot_id = None, ing_error_log = None,
      ing_error_row_limit = ic_error_row_limit body, ing_attempts = 0, ing_retried_from = None,
      ing_started_at = None, ing_finished_at = None, ing_created_by = Some (pr_sub p)\<rparr>"

definition by_caller :: "principal \<Rightarrow> transition_args" where
  "by_caller p = no_args\<lparr>ta_actor := Some (actor p), ta_via_agent := via_agent p\<rparr>"

definition enqueue :: "principal \<Rightarrow> string \<Rightarrow> unit tx" where
  "enqueue p i = record_transition i St_queued (TransitionContext\<lparr>tc_payload_valid := True\<rparr>) (by_caller p)"

definition create_row :: "principal \<Rightarrow> new_ids \<Rightarrow> ingestion_create \<Rightarrow> unit app" where
  "create_row p ids body = session (
     bindE (check_connection p (ic_connection body)) (\<lambda>_.
     bindE (resolve_target p ids body) (\<lambda>(dataset_urn, new_dataset).
       let ing = new_row p ids body dataset_urn new_dataset in
       bindE (insert_ing ing) (\<lambda>_.
       bindE (change (emit_event (pr_tenant p) ''ingestion.created'' (ingestion_urn ing)
                (JObj [(''ingestion_id'', JStr (ing_id ing)), (''ingestion_mode'', JStr (ing_mode ing))])
                (Some (actor p)) (via_agent p))) (\<lambda>_.
       bindE (if ic_mode body = ''query'' \<or> ic_mode body = ''webhook_batch''
              then enqueue p (ing_id ing) else returnE ()) (\<lambda>_. commit))))))"

definition create ::
    "ing_settings \<Rightarrow> job_io \<Rightarrow> principal \<Rightarrow> new_ids \<Rightarrow> ingestion_create \<Rightarrow> (int \<times> ingestion) app" where
  "create st io p ids body =
     bindE (liftE (validate_mode body)) (\<lambda>_.
     bindE (create_row p ids body) (\<lambda>_.
     bindE (if ic_mode body = ''query'' \<and> inline_execution st
            then bindE (execute st io (pr_tenant p) (fresh_ingestion ids)) (\<lambda>_. returnE ())
            else returnE ()) (\<lambda>_.
     bindE (session (get_job p (fresh_ingestion ids))) (\<lambda>ing.
       returnE (if ic_mode body = ''query'' then 202 else 201, ing)))))"

definition delete_prefix :: "string \<Rightarrow> unit app" where
  "delete_prefix prefix w =
     (Inr (), w\<lparr>objects := filter (\<lambda>(k, _). take (length prefix + 1) k \<noteq> prefix @ ''/'') (objects w)\<rparr>)"

definition cancel_row :: "job_io \<Rightarrow> principal \<Rightarrow> string \<Rightarrow> ingestion app" where
  "cancel_row io p ingestion_id = session (
     bindE (get_job p ingestion_id) (\<lambda>ing.
       bindE (record_transition ingestion_id St_cancelled
          (TransitionContext\<lparr>tc_committed := (ing_snapshot_id ing \<noteq> None)\<rparr>)
          ((by_caller p)\<lparr>ta_event_payload := Some [(''ingestion_id'', JStr (ing_id ing))]\<rparr>)) (\<lambda>_.
       bindE (edit_ing ingestion_id (\<lambda>j. j\<lparr>ing_finished_at := Some (io_now io)\<rparr>)) (\<lambda>_.
       bindE commit (\<lambda>_. get_job p ingestion_id)))))"

definition cancel :: "job_io \<Rightarrow> principal \<Rightarrow> string \<Rightarrow> ingestion app" where
  "cancel io p ingestion_id =
     bindE (cancel_row io p ingestion_id) (\<lambda>snapshot.
     bindE (delete_prefix (''tenants/'' @ pr_tenant p @ ''/uploads-of/'' @ ingestion_id)) (\<lambda>_.
     returnE snapshot))"

definition clone :: "string \<Rightarrow> ingestion \<Rightarrow> ingestion" where
  "clone new_id ing =
     \<lparr>ing_id = new_id, ing_tenant = ing_tenant ing, ing_workspace = ing_workspace ing,
      ing_connection = ing_connection ing, ing_dataset_urn = ing_dataset_urn ing,
      ing_new_dataset = ing_new_dataset ing, ing_mode = ing_mode ing,
      ing_file_format = ing_file_format ing, ing_statement = ing_statement ing,
      ing_status = St_created, ing_trigger = ing_trigger ing, ing_schedule = ing_schedule ing,
      ing_scheduled_for = None, ing_skip_profiling = ing_skip_profiling ing,
      ing_allow_empty = ing_allow_empty ing, ing_bytes_total = None, ing_bytes_received = 0,
      ing_rows_appended = 0, ing_snapshot_id = None, ing_error_log = None,
      ing_error_row_limit = ing_error_row_limit ing, ing_attempts = 0,
      ing_retried_from = Some (ing_id ing), ing_started_at = None, ing_finished_at = None,
      ing_created_by = ing_created_by ing\<rparr>"

definition clone_job :: "principal \<Rightarrow> string \<Rightarrow> string \<Rightarrow> ingestion \<Rightarrow> unit tx" where
  "clone_job p new_id origin_key ing =
     (let c = clone new_id ing in
      bindE (insert_ing c) (\<lambda>_.
      bindE (change (emit_event (pr_tenant p) ''ingestion.created'' (ingestion_urn c)
               (JObj [(''ingestion_id'', JStr (ing_id c)), (origin_key, JStr (ing_id ing))])
               (Some (actor p)) (via_agent p))) (\<lambda>_.
      bindE (enqueue p (ing_id c)) (\<lambda>_. commit))))"

definition retry_row :: "principal \<Rightarrow> string \<Rightarrow> string \<Rightarrow> unit app" where
  "retry_row p new_id ingestion_id = session (
     bindE (get_job p ingestion_id) (\<lambda>ing.
       if ing_status ing \<noteq> St_failed
       then raiseE (ConflictError ''only failed ingestions can be retried'')
       else clone_job p new_id ''retried_from'' ing))"

definition retry ::
    "ing_settings \<Rightarrow> job_io \<Rightarrow> principal \<Rightarrow> string \<Rightarrow> string \<Rightarrow> (int \<times> ingestion) app" where
  "retry st io p new_id ingestion_id =
     bindE (retry_row p new_id ingestion_id) (\<lambda>_.
     bindE (if inline_execution st
            then bindE (execute st io (pr_tenant p) new_id) (\<lambda>_. returnE ()) else returnE ()) (\<lambda>_.
     bindE (session (get_job p new_id)) (\<lambda>ing. returnE (202, ing))))"

definition reingest_row :: "principal \<Rightarrow> string \<Rightarrow> string \<Rightarrow> string app" where
  "reingest_row p new_id ingestion_id = session (
     bindE (get_job p ingestion_id) (\<lambda>ing.
       if ing_status ing \<notin> set TERMINAL_STATUSES
       then raiseE (ConflictError ''only terminal ingestions can be re-ingested'')
       else bindE (clone_job p new_id ''reingested_from'' ing) (\<lambda>_. returnE (ing_mode ing))))"

definition reingest ::
    "ing_settings \<Rightarrow> job_io \<Rightarrow> principal \<Rightarrow> string \<Rightarrow> string \<Rightarrow> (int \<times> ingestion) app" where
  "reingest st io p new_id ingestion_id =
     bindE (reingest_row p new_id ingestion_id) (\<lambda>mode.
     bindE (if inline_execution st \<and> mode = ''query''
            then bindE (execute st io (pr_tenant p) new_id) (\<lambda>_. returnE ()) else returnE ()) (\<lambda>_.
     bindE (session (get_job p new_id)) (\<lambda>ing. returnE (202, ing))))"

subsection \<open>Every operation keeps the job invariant and the history\<close>

lemma preserves_let [preserves_rules]: "preserves P (f x) \<Longrightarrow> preserves P (let y = x in f y)"
  by (simp add: Let_def)

lemma keeps_get_job [keeps_rules]: "preserves (tx_good d0) (get_job p i)"
  unfolding get_job_def by (intro preserves_rules keeps_rules)

lemma keeps_check_connection [keeps_rules]: "preserves (tx_good d0) (check_connection p c)"
  unfolding check_connection_def by (intro preserves_rules keeps_rules)

lemma keeps_emit [keeps_rules]: "preserves (tx_good d0) (change (emit_event t e u pl a v))"
  by (rule keeps_change_other) simp_all

lemma keeps_resolve_target [keeps_rules]: "preserves (tx_good d0) (resolve_target p ids body)"
  unfolding resolve_target_def
  by (intro preserves_rules keeps_emit keeps_commit keeps_liftE)

lemma keeps_enqueue [keeps_rules]: "preserves (tx_good d0) (enqueue p i)"
  unfolding enqueue_def by (rule keeps_record_transition) simp_all

lemma new_row_created [simp]: "ing_status (new_row p ids body u n) = St_created"
  by (simp add: new_row_def)

lemma clone_created [simp]: "ing_status (clone i ing) = St_created"
  by (simp add: clone_def)

lemma keeps_clone_job [keeps_rules]: "preserves (tx_good d0) (clone_job p i k ing)"
  unfolding clone_job_def
  by (intro preserves_rules keeps_emit keeps_commit keeps_insert_ing keeps_enqueue) simp

lemma app_keeps_create_row [keeps_rules]: "preserves (app_good d0) (create_row p ids body)"
  unfolding create_row_def
  by (intro preserves_rules keeps_session keeps_emit keeps_commit keeps_insert_ing keeps_enqueue
      keeps_check_connection keeps_resolve_target) simp

lemma app_keeps_delete_prefix [keeps_rules]: "preserves (app_good d0) (delete_prefix pre)"
  by (simp add: preserves_def delete_prefix_def app_good_def)

lemma app_keeps_cancel_row [keeps_rules]: "preserves (app_good d0) (cancel_row io p i)"
  unfolding cancel_row_def
  by (intro preserves_rules keeps_session keeps_get_job keeps_commit keeps_edit_ing
      keeps_record_transition app_keeps_delete_prefix) simp_all

lemma app_keeps_retry_row [keeps_rules]: "preserves (app_good d0) (retry_row p n i)"
  unfolding retry_row_def
  by (intro preserves_rules keeps_session keeps_get_job keeps_clone_job)

lemma app_keeps_reingest_row [keeps_rules]: "preserves (app_good d0) (reingest_row p n i)"
  unfolding reingest_row_def
  by (intro preserves_rules keeps_session keeps_get_job keeps_clone_job)

lemma app_keeps_get_job [keeps_rules]: "preserves (app_good d0) (session (get_job p i))"
  by (intro keeps_session keeps_get_job)

subsection \<open>Cancelling, and callers of another tenant\<close>

lemma get_job_own:
  "map_of (ingestions (db w)) i = Some j \<Longrightarrow> ing_tenant j = pr_tenant p \<Longrightarrow>
   get_job p i (c, w) = (Inr j, (c, w))"
  by (simp add: get_job_def bindE_def select_ing_def query_def)

definition denied_event :: "principal \<Rightarrow> string \<Rightarrow> string \<Rightarrow> ing_db \<Rightarrow> ing_db" where
  "denied_event p resource_id resource_type =
     emit_event (pr_tenant p) ''security.cross_tenant_denied''
       (''wr:'' @ pr_tenant p @ '':ingestion:'' @ resource_type @ ''/'' @ resource_id)
       (JObj [(''resource_type'', JStr resource_type), (''resource_id'', JStr resource_id)])
       (Some (actor p)) (via_agent p)"

lemma get_job_foreign:
  assumes "map_of (ingestions (db w)) i = Some j" and "ing_tenant j \<noteq> pr_tenant p"
  shows "get_job p i (c, w) =
    (Inl NotFoundError, (denied_event p i ''ingestion'' (db w), w\<lparr>db := denied_event p i ''ingestion'' (db w)\<rparr>))"
  using assms
  by (simp add: get_job_def bindE_def select_ing_def query_def raise_not_found_with_audit_def
      change_def commit_def denied_event_def)

lemma session_foreign:
  assumes "map_of (ingestions (db w)) i = Some j" and "ing_tenant j \<noteq> pr_tenant p"
  shows "session (bindE (get_job p i) f) w =
    (Inl NotFoundError, w\<lparr>db := denied_event p i ''ingestion'' (db w)\<rparr>)"
  using get_job_foreign [OF assms, of "db w"] by (simp add: session_def bindE_def)

text \<open>A caller of another tenant who cancels, retries or re-ingests a job gets
  \<open>NotFoundError\<close>, exactly as for a job that does not exist, and the only trace is one
  cross-tenant audit event in the outbox: no job, transition or upload changes.\<close>

theorem foreign_job_not_found:
  assumes "map_of (ingestions (db w)) i = Some j" and "ing_tenant j \<noteq> pr_tenant p"
  shows "cancel io p i w = (Inl NotFoundError, w\<lparr>db := denied_event p i ''ingestion'' (db w)\<rparr>) \<and>
         retry st io p n i w = (Inl NotFoundError, w\<lparr>db := denied_event p i ''ingestion'' (db w)\<rparr>) \<and>
         reingest st io p n i w = (Inl NotFoundError, w\<lparr>db := denied_event p i ''ingestion'' (db w)\<rparr>) \<and>
         (let d = denied_event p i ''ingestion'' (db w)
          in ingestions d = ingestions (db w) \<and> transitions d = transitions (db w) \<and>
             uploads d = uploads (db w) \<and> length (outbox d) = length (outbox (db w)) + 1)"
proof (intro conjI)
  note s = session_foreign [OF assms]
  show "cancel io p i w = (Inl NotFoundError, w\<lparr>db := denied_event p i ''ingestion'' (db w)\<rparr>)"
    unfolding cancel_def cancel_row_def by (rule bindE_Inl) (rule s)
  show "retry st io p n i w = (Inl NotFoundError, w\<lparr>db := denied_event p i ''ingestion'' (db w)\<rparr>)"
    unfolding retry_def retry_row_def by (rule bindE_Inl) (rule s)
  show "reingest st io p n i w = (Inl NotFoundError, w\<lparr>db := denied_event p i ''ingestion'' (db w)\<rparr>)"
    unfolding reingest_def reingest_row_def by (rule bindE_Inl) (rule s)
qed (simp add: Let_def denied_event_def, simp add: emit_event_def)

definition demo_caller :: "string \<Rightarrow> principal" where
  "demo_caller t = \<lparr>pr_sub = ''u'', pr_tenant = t, pr_typ = ''user'', pr_agent_id = None,
     pr_agent_version = None, pr_obo_sub = None, pr_workspace = None\<rparr>"

theorem foreign_job_not_found_witness:
  "fst (cancel demo_io (demo_caller ''other'') ''a'' demo_world) = Inl NotFoundError"
proof -
  have "ing_tenant (demo_job ''a'' demo_urn St_queued) \<noteq> pr_tenant (demo_caller ''other'')"
    by (simp add: demo_job_def demo_caller_def)
  from foreign_job_not_found [OF demo_rows(1) this, of demo_io] show ?thesis by simp
qed

lemma validate_cancel:
  "validate_transition a St_cancelled (TransitionContext\<lparr>tc_committed := b\<rparr>) =
     (if a \<in> {St_created, St_awaiting_upload, St_queued, St_running}
      then if b then Inl (GuardFailedError a St_cancelled ''only uncommitted jobs can be cancelled'')
           else Inr ()
      else Inl (IllegalTransitionError a St_cancelled))"
  by (cases a) (simp_all add: validate_transition_def TRANSITIONS_def guard_defs TransitionContext_def)

lemma record_transition_refused:
  assumes "map_of (ingestions (db w)) i = Some j"
    and "validate_transition (ing_status j) to ctx = Inl e"
  shows "record_transition i to ctx args (c, w) = (Inl (TransitionError e), (c, w))"
  using assms by (simp add: record_transition_run)

text \<open>The owner can cancel a job exactly while it has not begun to commit: from
  \<open>created\<close>, \<open>awaiting_upload\<close>, \<open>queued\<close> or \<open>running\<close> without a snapshot the job becomes
  \<open>cancelled\<close>; in every other case the call raises and nothing changes.\<close>

theorem cancel_only_uncommitted:
  assumes row: "map_of (ingestions (db w)) i = Some j" and own: "ing_tenant j = pr_tenant p"
  shows "if ing_status j \<in> {St_created, St_awaiting_upload, St_queued, St_running} \<and> ing_snapshot_id j = None
         then \<exists>w' j'. cancel io p i w = (Inr j', w') \<and> map_of (ingestions (db w')) i = Some j' \<and>
                j' = j\<lparr>ing_status := St_cancelled, ing_finished_at := Some (io_now io)\<rparr>
         else \<exists>e. cancel io p i w = (Inl (TransitionError e), w)"
    (is "if ?ok then _ else _")
proof -
  let ?ctx = "TransitionContext\<lparr>tc_committed := (ing_snapshot_id j \<noteq> None)\<rparr>"
  let ?args = "(by_caller p)\<lparr>ta_event_payload := Some [(''ingestion_id'', JStr (ing_id j))]\<rparr>"
  let ?f = "\<lambda>j. j\<lparr>ing_finished_at := Some (io_now io)\<rparr>"
  let ?m = "bindE (get_job p i) (\<lambda>ing.
       bindE (record_transition i St_cancelled
          (TransitionContext\<lparr>tc_committed := (ing_snapshot_id ing \<noteq> None)\<rparr>)
          ((by_caller p)\<lparr>ta_event_payload := Some [(''ingestion_id'', JStr (ing_id ing))]\<rparr>)) (\<lambda>_.
       bindE (edit_ing i ?f) (\<lambda>_. bindE commit (\<lambda>_. get_job p i))))"
  have get: "bindE (get_job p i) f (c, w) = f j (c, w)" for f :: "ingestion \<Rightarrow> ingestion tx" and c
    using get_job_own [OF row own] by (simp add: bindE_def)
  show ?thesis
  proof (cases ?ok)
    case True
    then have v: "validate_transition (ing_status j) St_cancelled ?ctx = Inr ()"
      by (simp add: validate_cancel)
    obtain w1 where 1: "record_transition i St_cancelled ?ctx ?args (db w, w) = (Inr (), (db w, w1))"
        "job_set i (j\<lparr>ing_status := St_cancelled\<rparr>) w w1"
      using record_transition_ok [OF row v] by blast
    obtain w2 where 2: "edit_ing i ?f (db w, w1) = (Inr (), (db w, w2))"
        "job_set i (j\<lparr>ing_status := St_cancelled, ing_finished_at := Some (io_now io)\<rparr>) w1 w2"
      using edit_ing_ok [OF job_set_row [OF 1(2)], of ?f] by auto
    have "get_job p i (db w2, w2) =
        (Inr (j\<lparr>ing_status := St_cancelled, ing_finished_at := Some (io_now io)\<rparr>), (db w2, w2))"
      using get_job_own [OF job_set_row [OF 2(2)]] own by simp
    then have "session ?m w = (Inr (j\<lparr>ing_status := St_cancelled, ing_finished_at := Some (io_now io)\<rparr>), w2)"
      unfolding session_def get by (simp add: bindE_def 1(1) [simplified] 2(1) commit_def)
    then have "cancel io p i w = (Inr (j\<lparr>ing_status := St_cancelled, ing_finished_at := Some (io_now io)\<rparr>),
        snd (delete_prefix (''tenants/'' @ pr_tenant p @ ''/uploads-of/'' @ i) w2))"
      unfolding cancel_def cancel_row_def by (simp add: bindE_def delete_prefix_def)
    moreover have "map_of (ingestions (db (snd (delete_prefix k w2)))) i =
        Some (j\<lparr>ing_status := St_cancelled, ing_finished_at := Some (io_now io)\<rparr>)" for k
      using job_set_row [OF 2(2)] by (simp add: delete_prefix_def)
    ultimately show ?thesis using True by simp
  next
    case False
    then obtain e where "validate_transition (ing_status j) St_cancelled ?ctx = Inl e"
      unfolding validate_cancel by (metis (no_types, lifting))
    from record_transition_refused [OF row this] have
      r: "record_transition i St_cancelled ?ctx ?args (db w, w) = (Inl (TransitionError e), (db w, w))" .
    have "session ?m w = (Inl (TransitionError e), w)"
      unfolding session_def get by (simp add: bindE_def r [simplified])
    then have "cancel io p i w = (Inl (TransitionError e), w)"
      unfolding cancel_def cancel_row_def by (rule bindE_Inl)
    with False show ?thesis by (simp only: if_False) blast
  qed
qed

theorem cancel_only_uncommitted_witness:
  "\<exists>w' j'. cancel demo_io (demo_caller ''t'') ''a'' demo_world = (Inr j', w') \<and> ing_status j' = St_cancelled"
proof -
  have "ing_tenant (demo_job ''a'' demo_urn St_queued) = pr_tenant (demo_caller ''t'')"
    by (simp add: demo_job_def demo_caller_def)
  from cancel_only_uncommitted [OF demo_rows(1) this, of demo_io] show ?thesis
    by (auto simp: demo_job_def)
qed

end
