(* ===== verification/Ingestion_Uploads.thy ===== *)
theory Ingestion_Uploads
  imports Ingestion_Jobs
begin

text \<open>
  Chunked uploads (\<open>services/ingestion-service/app/domain/services/uploads.py\<close>) over the
  object store of \<open>LocalFSObjectStore\<close> (\<open>app/domain/objectstore.py\<close>): a directory of keys
  and contents in \<open>world\<close>. Bytes are characters; \<open>io_sha256\<close> of \<open>job_io\<close> is the
  digest, a parameter.

  The retry after a lost race for the same part number in \<open>put_part\<close> needs a second writer
  between two statements of one transaction and is not modelled.
\<close>

record upload_create =
  uc_ingestion :: string
  uc_part_size :: "int option"
  uc_bytes_total :: "int option"

record manifest_entry =
  me_n :: int
  me_etag :: string
  me_size :: int

record upload_complete =
  uf_parts :: "manifest_entry list"
  uf_sha256 :: "string option"

subsection \<open>The object store\<close>

fun capped :: "int \<Rightarrow> int \<Rightarrow> string list \<Rightarrow> ing_error + string" where
  "capped part_size seen [] = Inr []"
| "capped part_size seen (chunk # stream) =
     (let seen' = seen + int (length chunk)
      in if seen' > part_size then Inl PayloadTooLargeError
         else (case capped part_size seen' stream of Inl e \<Rightarrow> Inl e | Inr rest \<Rightarrow> Inr (chunk @ rest)))"

definition store_put :: "string \<Rightarrow> ing_error + string \<Rightarrow> string app" where
  "store_put key stream w =
     (case stream of
        Inl e \<Rightarrow> (Inl e, w)
      | Inr bytes \<Rightarrow> (Inr bytes, w\<lparr>objects := AList.update key bytes (objects w)\<rparr>))"

definition store_delete :: "string \<Rightarrow> unit app" where
  "store_delete key w = (Inr (), w\<lparr>objects := AList.delete key (objects w)\<rparr>)"

definition store_move :: "string \<Rightarrow> string \<Rightarrow> unit tx" where
  "store_move src dst s =
     (case map_of (objects (snd s)) src of
        None \<Rightarrow> (Inl (FileNotFound src), s)
      | Some bytes \<Rightarrow>
          (Inr (), (fst s, (snd s)\<lparr>objects := AList.update dst bytes (AList.delete src (objects (snd s)))\<rparr>)))"

definition tx_store_delete :: "string \<Rightarrow> unit tx" where
  "tx_store_delete key s =
     (Inr (), (fst s, (snd s)\<lparr>objects := AList.delete key (objects (snd s))\<rparr>))"

fun open_streams :: "string list \<Rightarrow> string app" where
  "open_streams [] w = (Inr [], w)"
| "open_streams (key # keys) w =
     (case map_of (objects w) key of
        None \<Rightarrow> (Inl (FileNotFound key), w)
      | Some bytes \<Rightarrow>
          (case open_streams keys w of (Inl e, w') \<Rightarrow> (Inl e, w') | (Inr rest, w') \<Rightarrow> (Inr (bytes @ rest), w')))"

definition pad6 :: "int \<Rightarrow> string" where
  "pad6 n = (let s = py_str_nat (nat n) in replicate (6 - length s) (CHR ''0'') @ s)"

definition part_key :: "string \<Rightarrow> int \<Rightarrow> string" where
  "part_key prefix n = prefix @ ''/parts/'' @ pad6 n"

subsection \<open>Opening and expiring\<close>

definition enforce_upload_caps :: "int \<Rightarrow> int \<Rightarrow> ing_settings \<Rightarrow> ing_error + unit" where
  "enforce_upload_caps total_size part_count st =
     (if max_upload_parts st \<noteq> 0 \<and> part_count > max_upload_parts st
      then Inl (ValidationFailedError ''too many parts'')
      else if max_upload_bytes st \<noteq> 0 \<and> total_size > max_upload_bytes st
      then Inl (ValidationFailedError ''file too large'')
      else Inr ())"

definition get_upload :: "principal \<Rightarrow> string \<Rightarrow> ing_upload tx" where
  "get_upload p upload_id =
     bindE (query (\<lambda>d. map_of (uploads d) upload_id)) (\<lambda>row.
       case row of
         Some u \<Rightarrow>
           if up_tenant u = pr_tenant p then returnE u
           else raise_not_found_with_audit p (Some (up_tenant u)) upload_id ''upload''
       | None \<Rightarrow> raise_not_found_with_audit p None upload_id ''upload'')"

definition put_upload :: "ing_upload \<Rightarrow> ing_db \<Rightarrow> ing_db" where
  "put_upload u d = d\<lparr>uploads := AList.update (up_id u) u (uploads d)\<rparr>"

definition expire_upload :: "ing_upload \<Rightarrow> unit tx" where
  "expire_upload u =
     bindE (change (put_upload (u\<lparr>up_status := ''expired''\<rparr>))) (\<lambda>_.
     bindE (select_ing (up_ingestion u)) (\<lambda>row.
       case row of
         None \<Rightarrow> returnE ()
       | Some ing \<Rightarrow>
           if ing_status ing = St_awaiting_upload
           then record_transition (up_ingestion u) St_expired TransitionContext
                  (no_args\<lparr>ta_event_payload := Some [(''ingestion_id'', JStr (ing_id ing)),
                                                       (''upload_id'', JStr (up_id u))]\<rparr>)
           else returnE ()))"

definition ensure_open :: "instant \<Rightarrow> ing_upload \<Rightarrow> unit tx" where
  "ensure_open now u =
     (if up_status u = ''expired'' then raiseE UploadExpiredError
      else if up_status u \<noteq> ''open'' then raiseE (ConflictError (''upload is '' @ up_status u))
      else if now \<ge> up_expires_at u
      then bindE (expire_upload u) (\<lambda>_. bindE commit (\<lambda>_. raiseE UploadExpiredError))
      else returnE ())"

definition active_uploads :: "string \<Rightarrow> ing_db \<Rightarrow> int" where
  "active_uploads tenant d =
     int (length (filter (\<lambda>(_, u). up_tenant u = tenant \<and> up_status u = ''open'') (uploads d)))"

definition insert_upload :: "ing_upload \<Rightarrow> unit tx" where
  "insert_upload u =
     bindE (query (\<lambda>d. map_of (uploads d) (up_id u))) (\<lambda>old.
       if old \<noteq> None then raiseE IntegrityError else change (put_upload u))"

definition create_upload ::
    "ing_settings \<Rightarrow> instant \<Rightarrow> principal \<Rightarrow> string \<Rightarrow> upload_create \<Rightarrow> ing_upload app" where
  "create_upload st now p new_id body =
     (let part_size = (case uc_part_size body of None \<Rightarrow> default_part_size st | Some n \<Rightarrow> n)
      in if \<not> (min_part_size st \<le> part_size \<and> part_size \<le> max_part_size st)
         then raiseE (ValidationFailedError ''invalid part_size'')
         else session (
           bindE (get_job p (uc_ingestion body)) (\<lambda>ing.
           if ing_mode ing \<noteq> ''file_upload''
           then raiseE (ValidationFailedError ''uploads require a file_upload ingestion'')
           else if ing_status ing \<noteq> St_created \<and> ing_status ing \<noteq> St_awaiting_upload
           then raiseE (ConflictError ''ingestion not awaiting upload'')
           else bindE (query (active_uploads (pr_tenant p))) (\<lambda>active.
           if active \<ge> max_active_uploads_per_tenant st then raiseE RateLimitedError
           else let upload = \<lparr>up_id = new_id, up_tenant = pr_tenant p, up_ingestion = ing_id ing,
                    up_part_size = part_size,
                    up_storage_prefix = ''tenants/'' @ pr_tenant p @ ''/uploads/'' @ ing_id ing,
                    up_sha256 = None, up_bytes_total = uc_bytes_total body, up_status = ''open'',
                    up_expires_at = now + seconds (upload_ttl_hours st * 3600)\<rparr>
           in bindE (insert_upload upload) (\<lambda>_.
              bindE (if ing_status ing = St_created
                     then record_transition (ing_id ing) St_awaiting_upload
                            (TransitionContext\<lparr>tc_ingestion_mode := Some ''file_upload'',
                               tc_upload_session_opened := True\<rparr>) (by_caller p)
                     else returnE ()) (\<lambda>_.
              bindE (case uc_bytes_total body of None \<Rightarrow> returnE ()
                     | Some b \<Rightarrow> edit_ing (ing_id ing) (\<lambda>j. j\<lparr>ing_bytes_total := Some b\<rparr>)) (\<lambda>_.
              bindE commit (\<lambda>_. returnE upload))))))))"

subsection \<open>Parts\<close>

definition received_total :: "string \<Rightarrow> ing_db \<Rightarrow> int" where
  "received_total upload_id d = sum_list (map pt_size (parts_of upload_id d))"

definition store_part ::
    "principal \<Rightarrow> ing_upload \<Rightarrow> int \<Rightarrow> string \<Rightarrow> string \<Rightarrow> int \<Rightarrow> (int \<times> string \<times> int) app" where
  "store_part p upload n staging_key etag nbytes = session (
     bindE (query (\<lambda>d. map_of (upload_parts d) (up_id upload, n))) (\<lambda>existing.
       case existing of
         Some part \<Rightarrow>
           bindE (tx_store_delete staging_key) (\<lambda>_.
             if pt_etag part = etag then returnE (pt_n part, pt_etag part, pt_size part)
             else raiseE (ConflictError ''part already uploaded with a different etag''))
       | None \<Rightarrow>
           let final_key = part_key (up_storage_prefix upload) n in
           bindE (store_move staging_key final_key) (\<lambda>_.
           bindE (change (\<lambda>d. d\<lparr>upload_parts := AList.update (up_id upload, n)
                    \<lparr>pt_upload = up_id upload, pt_n = n, pt_tenant = pr_tenant p, pt_etag = etag,
                     pt_size = nbytes, pt_storage_key = final_key\<rparr> (upload_parts d)\<rparr>)) (\<lambda>_.
           bindE (query (received_total (up_id upload))) (\<lambda>received.
           bindE (edit_ing (up_ingestion upload) (\<lambda>j. j\<lparr>ing_bytes_received := received\<rparr>)) (\<lambda>_.
           bindE commit (\<lambda>_. returnE (n, etag, nbytes))))))))"

definition staging_key :: "string \<Rightarrow> int \<Rightarrow> string \<Rightarrow> string" where
  "staging_key prefix n token = prefix @ ''/staging/part-'' @ py_str_nat (nat n) @ ''-'' @ token"

definition receive_part ::
    "job_io \<Rightarrow> principal \<Rightarrow> ing_upload \<Rightarrow> int \<Rightarrow> string \<Rightarrow> string list \<Rightarrow> string option \<Rightarrow>
     (int \<times> string \<times> int) app" where
  "receive_part io p upload n key stream content_sha256 =
     bindE (catchE (store_put key (capped (up_part_size upload) 0 stream))
              (\<lambda>e. if e = PayloadTooLargeError
                   then bindE (store_delete key) (\<lambda>_. raiseE e) else raiseE e)) (\<lambda>bytes.
     if truthy content_sha256 \<and> py_lower (the content_sha256) \<noteq> io_sha256 io bytes
     then bindE (store_delete key) (\<lambda>_. raiseE ChecksumMismatchError)
     else store_part p upload n key (io_sha256 io bytes) (int (length bytes)))"

definition open_upload :: "instant \<Rightarrow> principal \<Rightarrow> string \<Rightarrow> ing_upload app" where
  "open_upload now p upload_id = session (
     bindE (get_upload p upload_id) (\<lambda>upload. bindE (ensure_open now upload) (\<lambda>_. returnE upload)))"

definition put_part ::
    "job_io \<Rightarrow> principal \<Rightarrow> string \<Rightarrow> int \<Rightarrow> string \<Rightarrow> string list \<Rightarrow> string option \<Rightarrow>
     (int \<times> string \<times> int) app" where
  "put_part io p upload_id n token stream content_sha256 =
     (if n < 1 then raiseE (ValidationFailedError ''invalid part number'')
      else bindE (open_upload (io_now io) p upload_id) (\<lambda>upload.
           receive_part io p upload n (staging_key (up_storage_prefix upload) n token) stream
             content_sha256))"

subsection \<open>Completing\<close>

definition part_matches :: "ing_upload \<Rightarrow> int \<Rightarrow> upload_part \<Rightarrow> manifest_entry \<Rightarrow> bool" where
  "part_matches upload last_n part entry \<longleftrightarrow>
     \<not> (pt_etag part \<noteq> me_etag entry \<or> pt_size part \<noteq> me_size entry) \<and>
     \<not> (me_n entry \<noteq> last_n \<and> pt_size part \<noteq> up_part_size upload)"

definition check_manifest ::
    "ing_settings \<Rightarrow> ing_upload \<Rightarrow> upload_part list \<Rightarrow> manifest_entry list \<Rightarrow> ing_error + (int \<times> string list)" where
  "check_manifest st upload parts manifest =
     (let stored = map (\<lambda>p. (pt_n p, p)) parts;
          manifest_ns = map me_n manifest;
          expected_ns = map int [1..<length manifest + 1]
      in if \<not> distinct manifest_ns then Inl (ValidationFailedError ''duplicate part numbers in manifest'')
         else if set manifest_ns - set (map fst stored) \<noteq> {}
         then Inl (ConflictError ''manifest lists parts not uploaded'')
         else if set (map fst stored) - set manifest_ns \<noteq> {}
         then Inl (ConflictError ''uploaded parts missing from manifest'')
         else if sort manifest_ns \<noteq> expected_ns
         then Inl (ConflictError ''parts are not contiguous from 1'')
         else if list_ex (\<lambda>entry. \<not> part_matches upload (Max (set manifest_ns))
                  (the (map_of stored (me_n entry))) entry) manifest
         then Inl (ConflictError ''part manifest mismatch'')
         else let total_size = sum_list (map pt_size parts) in
              (case enforce_upload_caps total_size (int (length parts)) st of
                 Inl e \<Rightarrow> Inl e
               | Inr _ \<Rightarrow> Inr (total_size,
                   map (\<lambda>n. pt_storage_key (the (map_of stored n))) expected_ns)))"

definition verify_sha256 :: "job_io \<Rightarrow> string option \<Rightarrow> string list \<Rightarrow> unit app" where
  "verify_sha256 io sha part_keys =
     (if \<not> truthy sha then returnE ()
      else bindE (open_streams part_keys) (\<lambda>bytes.
        if io_sha256 io bytes \<noteq> py_lower (the sha) then raiseE ChecksumMismatchError else returnE ()))"

definition finish_upload ::
    "principal \<Rightarrow> string \<Rightarrow> string option \<Rightarrow> int \<Rightarrow> string app" where
  "finish_upload p upload_id sha total_size = session (
     bindE (get_upload p upload_id) (\<lambda>upload.
     bindE (change (put_upload (upload\<lparr>up_status := ''completed'',
              up_sha256 := (if truthy sha then Some (py_lower (the sha)) else None)\<rparr>))) (\<lambda>_.
     bindE (select_ing (up_ingestion upload)) (\<lambda>row. bindE (scalar_one row) (\<lambda>ing.
     bindE (edit_ing (up_ingestion upload)
              (\<lambda>j. j\<lparr>ing_bytes_total := Some total_size, ing_bytes_received := total_size\<rparr>)) (\<lambda>_.
     bindE (enqueue p (up_ingestion upload)) (\<lambda>_.
     bindE commit (\<lambda>_. returnE (ing_id ing)))))))))"

definition check_upload :: "ing_settings \<Rightarrow> instant \<Rightarrow> principal \<Rightarrow> string \<Rightarrow> manifest_entry list \<Rightarrow> (int \<times> string list) app" where
  "check_upload st now p upload_id manifest = session (
     bindE (get_upload p upload_id) (\<lambda>upload.
     bindE (ensure_open now upload) (\<lambda>_.
     bindE (query (parts_of upload_id)) (\<lambda>parts.
     liftE (check_manifest st upload parts manifest)))))"

definition complete_upload ::
    "ing_settings \<Rightarrow> job_io \<Rightarrow> principal \<Rightarrow> string \<Rightarrow> upload_complete \<Rightarrow> (int \<times> ingestion) app" where
  "complete_upload st io p upload_id body =
     (if uf_parts body = [] then raiseE (ValidationFailedError ''parts'')
      else
     bindE (check_upload st (io_now io) p upload_id (uf_parts body)) (\<lambda>(total_size, part_keys).
     bindE (verify_sha256 io (uf_sha256 body) part_keys) (\<lambda>_.
     bindE (finish_upload p upload_id (uf_sha256 body) total_size) (\<lambda>ingestion_id.
     bindE (if inline_execution st
            then bindE (execute st io (pr_tenant p) ingestion_id) (\<lambda>_. returnE ()) else returnE ()) (\<lambda>_.
     bindE (session (bindE (select_ing ingestion_id) scalar_one)) (\<lambda>ing. returnE (202, ing)))))))"

subsection \<open>Aborting and collecting\<close>

definition abort_row :: "principal \<Rightarrow> string \<Rightarrow> string app" where
  "abort_row p upload_id = session (
     bindE (get_upload p upload_id) (\<lambda>upload.
       if up_status upload \<noteq> ''open'' \<and> up_status upload \<noteq> ''expired''
       then raiseE (ConflictError (''upload is '' @ up_status upload))
       else bindE (change (put_upload (upload\<lparr>up_status := ''aborted''\<rparr>))) (\<lambda>_.
            bindE commit (\<lambda>_. returnE (up_storage_prefix upload)))))"

definition abort_upload :: "principal \<Rightarrow> string \<Rightarrow> unit app" where
  "abort_upload p upload_id = bindE (abort_row p upload_id) delete_prefix"

definition stale_uploads :: "instant \<Rightarrow> string \<Rightarrow> ing_db \<Rightarrow> ing_upload list" where
  "stale_uploads now tenant_id d =
     filter (\<lambda>u. up_tenant u = tenant_id \<and> up_status u = ''open'' \<and> up_expires_at u \<le> now)
       (map snd (uploads d))"

fun expire_all :: "ing_upload list \<Rightarrow> unit tx" where
  "expire_all [] = returnE ()"
| "expire_all (u # us) = bindE (expire_upload u) (\<lambda>_. expire_all us)"

fun delete_prefixes :: "string list \<Rightarrow> unit app" where
  "delete_prefixes [] = returnE ()"
| "delete_prefixes (k # ks) = bindE (delete_prefix k) (\<lambda>_. delete_prefixes ks)"

definition gc_rows :: "instant \<Rightarrow> string \<Rightarrow> ing_upload list app" where
  "gc_rows now tenant_id = session (
     bindE (query (stale_uploads now tenant_id)) (\<lambda>us.
     bindE (expire_all us) (\<lambda>_. bindE commit (\<lambda>_. returnE us))))"

definition gc_expired :: "instant \<Rightarrow> string \<Rightarrow> int app" where
  "gc_expired now tenant_id =
     bindE (gc_rows now tenant_id) (\<lambda>us.
     bindE (delete_prefixes (map up_storage_prefix us)) (\<lambda>_. returnE (int (length us))))"

subsection \<open>Every operation keeps the job invariant and the history\<close>

lemma harmless_uploads [simp]:
  "harmless (\<lambda>j. j\<lparr>ing_bytes_total := a\<rparr>)"
  "harmless (\<lambda>j. j\<lparr>ing_bytes_received := b\<rparr>)"
  "harmless (\<lambda>j. j\<lparr>ing_bytes_total := a, ing_bytes_received := b\<rparr>)"
  by (simp_all add: harmless_def)

lemma keeps_put_upload [keeps_rules]: "preserves (tx_good d0) (change (put_upload u))"
  by (rule keeps_change_other) (simp_all add: put_upload_def)

lemma keeps_get_upload [keeps_rules]: "preserves (tx_good d0) (get_upload p i)"
  unfolding get_upload_def by (intro preserves_rules keeps_query keeps_not_found)

lemma keeps_expire_upload [keeps_rules]: "preserves (tx_good d0) (expire_upload u)"
  unfolding expire_upload_def
  by (intro preserves_rules keeps_put_upload keeps_select_ing keeps_record_transition) simp_all

lemma keeps_ensure_open [keeps_rules]: "preserves (tx_good d0) (ensure_open now u)"
  unfolding ensure_open_def by (intro preserves_rules keeps_expire_upload keeps_commit)

lemma keeps_insert_upload [keeps_rules]: "preserves (tx_good d0) (insert_upload u)"
  unfolding insert_upload_def by (intro preserves_rules keeps_query keeps_put_upload)

lemma keeps_store_tx [keeps_rules]:
  "preserves (tx_good d0) (store_move a b)" "preserves (tx_good d0) (tx_store_delete a)"
  by (auto simp: preserves_def store_move_def tx_store_delete_def tx_good_def split: option.split)

lemma app_keeps_store [keeps_rules]:
  "preserves (app_good d0) (store_put k s)" "preserves (app_good d0) (store_delete k)"
  by (auto simp: preserves_def store_put_def store_delete_def app_good_def split: sum.split)

lemma app_keeps_create_upload [keeps_rules]:
  "preserves (app_good d0) (create_upload st now p i body)"
  unfolding create_upload_def
  by (intro preserves_rules keeps_session keeps_get_job keeps_query keeps_insert_upload
      keeps_record_transition keeps_edit_ing keeps_commit) simp_all

lemma app_keeps_open_upload [keeps_rules]: "preserves (app_good d0) (open_upload now p u)"
  unfolding open_upload_def by (intro preserves_rules keeps_session keeps_get_upload keeps_ensure_open)

lemma app_keeps_store_part [keeps_rules]: "preserves (app_good d0) (store_part p up n k etag s)"
  unfolding store_part_def
  by (intro preserves_rules keeps_session keeps_query keeps_store_tx keeps_edit_ing keeps_commit keeps_change_other) simp_all

lemma app_keeps_check_upload [keeps_rules]: "preserves (app_good d0) (check_upload st now p u ms)"
  unfolding check_upload_def by (intro preserves_rules keeps_session keeps_get_upload keeps_ensure_open keeps_query keeps_liftE)

lemma app_keeps_finish_upload [keeps_rules]: "preserves (app_good d0) (finish_upload p u sha n)"
  unfolding finish_upload_def
  by (intro preserves_rules keeps_session keeps_get_upload keeps_put_upload keeps_select_ing
      keeps_scalar_one keeps_edit_ing keeps_enqueue keeps_commit) simp

lemma app_keeps_abort_row [keeps_rules]: "preserves (app_good d0) (abort_row p u)"
  unfolding abort_row_def by (intro preserves_rules keeps_session keeps_get_upload keeps_put_upload keeps_commit)

lemma app_keeps_gc_rows [keeps_rules]: "preserves (app_good d0) (gc_rows now t)"
proof -
  have "preserves (tx_good d0) (expire_all us)" for us
    by (induction us) (auto intro!: preserves_bindE keeps_expire_upload)
  then show ?thesis unfolding gc_rows_def by (intro preserves_rules keeps_session keeps_query keeps_commit)
qed

subsection \<open>The service as a step relation\<close>

text \<open>A step is one transaction of some operation, or one action on the object store or the table writer between two
  transactions, with any arguments: the operations of any number of callers and runs of jobs may interleave between
  any two of them.\<close>

inductive ing_step :: "world \<Rightarrow> world \<Rightarrow> bool" where
  step_create_row: "ing_step w (snd (create_row p ids body w))"
| step_read: "ing_step w (snd (session (get_job p i) w))"
| step_cancel_row: "ing_step w (snd (cancel_row io p i w))"
| step_retry_row: "ing_step w (snd (retry_row p n i w))"
| step_reingest_row: "ing_step w (snd (reingest_row p n i w))"
| step_create_upload: "ing_step w (snd (create_upload st now p u body' w))"
| step_open_upload: "ing_step w (snd (open_upload now p u w))"
| step_store_part: "ing_step w (snd (store_part p up k tok etag s w))"
| step_check_upload: "ing_step w (snd (check_upload st now p u ms w))"
| step_finish_upload: "ing_step w (snd (finish_upload p u sha n w))"
| step_abort_row: "ing_step w (snd (abort_row p u w))"
| step_gc_rows: "ing_step w (snd (gc_rows now t w))"
| step_acquire: "ing_step w (snd (acquire_slot st now t i w))"
| step_to_retrying: "ing_step w (snd (transition_retry st i k w))"
| step_resume: "ing_step w (snd (transition_resume i w))"
| step_fail: "ing_step w (snd (fail_job io i c m k ss h w))"
| step_committing: "ing_step w (snd (to_committing i stats e w))"
| step_completed: "ing_step w (snd (to_completed io i staged res stats w))"
| step_tw_commit: "ing_step w (snd (tw_commit fails staged w))"
| step_store_put: "ing_step w (snd (store_put k bytes w))"
| step_store_delete: "ing_step w (snd (store_delete k w))"
| step_delete_prefix: "ing_step w (snd (delete_prefix k w))"

lemma step_good:
  assumes "ing_step w w'" and "app_good d0 w"
  shows "app_good d0 w'"
  using assms
  by (induction rule: ing_step.induct)
     (blast intro: keeps_rules [THEN preserves_def [THEN iffD1, rule_format]])+

lemma steps_good: "ing_step\<^sup>*\<^sup>* w w' \<Longrightarrow> app_good d0 w \<Longrightarrow> app_good d0 w'"
  by (induction rule: rtranclp_induct) (auto intro: step_good)

subsection \<open>Operations are sequences of steps\<close>

definition stepwise :: "'a app \<Rightarrow> bool" where
  "stepwise m \<longleftrightarrow> (\<forall>w. ing_step\<^sup>*\<^sup>* w (snd (m w)))"

lemma stepwise_step: "(\<And>w. ing_step w (snd (m w))) \<Longrightarrow> stepwise m"
  by (auto simp: stepwise_def)

lemma stepwise_pure: "(\<And>w. snd (m w) = w) \<Longrightarrow> stepwise m"
  by (simp add: stepwise_def)

lemma stepwise_bindE: "stepwise m \<Longrightarrow> (\<And>x. stepwise (f x)) \<Longrightarrow> stepwise (bindE m f)"
  unfolding stepwise_def snd_bindE by (auto split: sum.split intro: rtranclp_trans)

lemma stepwise_catchE: "stepwise m \<Longrightarrow> (\<And>e. stepwise (h e)) \<Longrightarrow> stepwise (catchE m h)"
  unfolding stepwise_def snd_catchE by (auto split: sum.split intro: rtranclp_trans)

lemma stepwise_if: "stepwise m \<Longrightarrow> stepwise n \<Longrightarrow> stepwise (if b then m else n)"
  by simp

lemma stepwise_simps [simp]: "stepwise (returnE x)" "stepwise (raiseE e)" "stepwise (liftE r)" "stepwise (observe q)"
  by (rule stepwise_pure; simp add: liftE_def observe_def split: sum.split)+

text \<open>Transactions that only read.\<close>

definition quiet_tx :: "'a tx \<Rightarrow> bool" where
  "quiet_tx m \<longleftrightarrow> (\<forall>s. snd (m s) = s)"

lemma quiet_bindE: "quiet_tx m \<Longrightarrow> (\<And>x. quiet_tx (f x)) \<Longrightarrow> quiet_tx (bindE m f)"
  by (simp add: quiet_tx_def snd_bindE split: sum.split)

lemma quiet_simps: "quiet_tx (returnE x)" "quiet_tx (raiseE e)" "quiet_tx (liftE r)" "quiet_tx (query q)" "quiet_tx (select_ing i)"
  "quiet_tx (scalar_one row)" "quiet_tx (find_upload_parts ing)"
proof -
  show "quiet_tx (find_upload_parts ing)"
    unfolding quiet_tx_def find_upload_parts_def by (metis find_parts_quiet prod.collapse)
qed (auto simp: quiet_tx_def liftE_def query_def select_ing_def scalar_one_def split: option.split sum.split)

lemma quiet_option: "quiet_tx m \<Longrightarrow> (\<And>y. quiet_tx (f y)) \<Longrightarrow> quiet_tx (case x of None \<Rightarrow> m | Some y \<Rightarrow> f y)"
  by (cases x) simp_all

lemmas quiet_rules = quiet_bindE quiet_simps quiet_option

lemma stepwise_read:
  assumes "quiet_tx m"
  shows "stepwise (session m)"
proof (rule stepwise_pure)
  fix w
  obtain r s where m: "m (db w, w) = (r, s)" by (cases "m (db w, w)")
  then have "s = (db w, w)" using assms unfolding quiet_tx_def by (metis snd_conv)
  then show "snd (session m w) = w" using m by (simp add: session_def)
qed

lemma tx_steps:
  "stepwise (create_row p ids body)" "stepwise (session (get_job p i))" "stepwise (cancel_row io p i)" "stepwise (retry_row p n i)"
  "stepwise (reingest_row p n i)" "stepwise (create_upload st now p u b)" "stepwise (open_upload now p u)"
  "stepwise (store_part p up k tok etag s)" "stepwise (check_upload st now p u ms)" "stepwise (finish_upload p u sha l)"
  "stepwise (abort_row p u)" "stepwise (gc_rows now t)" "stepwise (acquire_slot st now t i)" "stepwise (transition_retry st i k)"
  "stepwise (transition_resume i)" "stepwise (fail_job io i c m k ss h)" "stepwise (to_committing i stats e)"
  "stepwise (to_completed io i staged res stats)" "stepwise (tw_commit fails staged)" "stepwise (store_put key bytes)"
  "stepwise (store_delete key)" "stepwise (delete_prefix key)"
  by (rule stepwise_step, rule ing_step.intros)+

lemma stepwise_attempt: "stepwise (attempt_job io n t i)"
proof -
  have "stepwise (commit_staged io n i staged stats e)" for staged stats e
    unfolding commit_staged_def by (intro stepwise_if stepwise_bindE tx_steps stepwise_simps)
  then have sc: "stepwise (stage_and_commit io n i table src e)" for table src e
    unfolding stage_and_commit_def split_beta by (intro stepwise_bindE stepwise_simps)
  have rd: "stepwise (refuse_double_append table i)" for table
    unfolding refuse_double_append_def by (intro stepwise_bindE stepwise_if stepwise_simps)
  have "stepwise (attempt_file io n t i)"
    unfolding attempt_file_def split_beta
    by (intro stepwise_bindE stepwise_if stepwise_simps stepwise_read quiet_rules rd sc)
  moreover have "stepwise (attempt_query io n t i)"
    unfolding attempt_query_def split_beta
    by (intro stepwise_bindE stepwise_simps stepwise_read quiet_rules rd sc)
  ultimately show ?thesis
    unfolding attempt_job_def by (intro stepwise_bindE stepwise_if stepwise_simps stepwise_read quiet_rules)
qed

lemma stepwise_fail: "ing_step\<^sup>*\<^sup>* w (snd (bindE (fail_job io i c m k ss h) (\<lambda>_. returnE x) w))"
  by (rule stepwise_bindE [OF tx_steps(16) stepwise_simps(1), unfolded stepwise_def, rule_format])

lemma stepwise_execute: "stepwise (execute st io t i)"
proof -
  have "ing_step\<^sup>*\<^sup>* w (snd (execute_loop st io t i n w))" for n w
  proof (induction st io t i n w rule: execute_loop.induct)
    case (1 st io t i n w)
    obtain r w1 where a: "attempt_job io n t i w = (r, w1)" by fastforce
    have w1: "ing_step\<^sup>*\<^sup>* w w1" using stepwise_attempt a unfolding stepwise_def by (metis snd_conv)
    have "ing_step\<^sup>*\<^sup>* w1 (snd (execute_loop st io t i n w))"
    proof (cases r)
      case (Inr x)
      then show ?thesis by (simp add: execute_loop.simps a)
    next
      case (Inl e)
      show ?thesis
      proof (cases e)
        case (TransientSourceError c m)
        show ?thesis
        proof (cases "n \<ge> retry_max_attempts st")
          case True
          then show ?thesis
            using stepwise_fail by (subst execute_loop.simps) (simp add: a Inl TransientSourceError del: returnE_apply)
        next
          case False
          obtain q w2 where b: "bindE (transition_retry st i n) (\<lambda>_. transition_resume i) w1 = (q, w2)" by fastforce
          have "ing_step\<^sup>*\<^sup>* w1 w2" 
            using stepwise_bindE [OF tx_steps(14) tx_steps(15), unfolded stepwise_def, rule_format, of w1 st i n "\<lambda>_. i"] b by simp
          show ?thesis
          proof (cases q)
            case b2: (Inl e2)
            have "snd (execute_loop st io t i n w) = w2" using False by (subst execute_loop.simps) (simp add: a Inl TransientSourceError b b2)
            then show ?thesis using \<open>ing_step\<^sup>*\<^sup>* w1 w2\<close> by simp
          next
            case b2: (Inr u)
            have "execute_loop st io t i n w = execute_loop st io t i (n + 1) w2"
              using False by (subst execute_loop.simps) (simp add: a Inl TransientSourceError b b2)
            moreover have "ing_step\<^sup>*\<^sup>* w2 (snd (execute_loop st io t i (n + 1) w2))"
              using 1 [OF a [symmetric] Inl TransientSourceError False b [symmetric] b2] .
            ultimately show ?thesis using rtranclp_trans [OF \<open>ing_step\<^sup>*\<^sup>* w1 w2\<close>] by simp
          qed
        qed
      next
        case (PermanentJobError c m ss h)
        then show ?thesis
          using stepwise_fail by (subst execute_loop.simps) (simp add: a Inl del: returnE_apply)
      qed (simp_all add: execute_loop.simps a Inl)
    qed
    with w1 show ?case by (rule rtranclp_trans)
  qed
  then have "stepwise (execute_loop st io t i n)" for n by (simp add: stepwise_def)
  then show ?thesis
    unfolding execute_def by (intro stepwise_bindE stepwise_if tx_steps stepwise_simps stepwise_read quiet_rules)
qed

lemma open_streams_same: "snd (open_streams ks w) = w"
  by (induction ks) (auto split: option.split prod.split sum.split)

text \<open>Every public operation is such a sequence.\<close>

lemma operations_stepwise:
  "stepwise (create st io p ids body)" "stepwise (cancel io p i)" "stepwise (retry st io p n i)" "stepwise (reingest st io p n i)"
  "stepwise (put_part io p u k tok s sha)" "stepwise (complete_upload st io p u body')" "stepwise (abort_upload p u)" "stepwise (gc_expired now t)"
proof -
  show "stepwise (create st io p ids body)" "stepwise (cancel io p i)" "stepwise (retry st io p n i)" "stepwise (reingest st io p n i)"
    unfolding create_def cancel_def retry_def reingest_def
    by (intro stepwise_bindE stepwise_if tx_steps stepwise_simps stepwise_execute)+
  show "stepwise (put_part io p u k tok s sha)"
    unfolding put_part_def receive_part_def by (intro stepwise_bindE stepwise_catchE stepwise_if tx_steps stepwise_simps)
  have "stepwise (open_streams ks)" for ks by (rule stepwise_pure) (rule open_streams_same)
  then show "stepwise (complete_upload st io p u body')"
    unfolding complete_upload_def verify_sha256_def split_beta
    by (intro stepwise_bindE stepwise_if tx_steps stepwise_simps stepwise_execute stepwise_read quiet_rules)
  show "stepwise (abort_upload p u)" unfolding abort_upload_def by (intro stepwise_bindE tx_steps)
  have "stepwise (delete_prefixes ks)" for ks
  proof (induction ks)
    case Nil
    show ?case unfolding delete_prefixes.simps by (rule stepwise_simps)
  next
    case (Cons k ks)
    show ?case unfolding delete_prefixes.simps by (intro stepwise_bindE tx_steps Cons.IH)
  qed
  then show "stepwise (gc_expired now t)" unfolding gc_expired_def by (intro stepwise_bindE tx_steps stepwise_simps)
qed


definition demo_body :: ingestion_create where
  "demo_body = \<lparr>ic_mode = ''file_upload'', ic_connection = None, ic_statement = None,
     ic_file_format = Some ''csv'', ic_dataset_urn = None, ic_new_dataset = Some [],
     ic_skip_profiling = False, ic_allow_empty = False, ic_error_row_limit = 100,
     ic_workspace = DEFAULT_WORKSPACE\<rparr>"

definition demo_created :: world where
  "demo_created = snd (create demo_settings demo_io (demo_caller ''t'')
     \<lparr>fresh_ingestion = ''j'', fresh_dataset = ''d''\<rparr> demo_body empty_world)"

lemma demo_created_row:
  "map_option ing_status (map_of (ingestions (db demo_created)) ''j'') = Some St_created"
  by code_simp


text \<open>Two transactions that read the same committed state of a running job, one cancelling it and one committing it, both
  succeed, and each records a transition out of \<open>running\<close>: no walk has both.\<close>

lemma racing_transactions:
  "let w = snd (acquire_slot demo_settings 0 ''t'' ''a'' demo_world);
       (r1, w1) = cancel_row demo_io (demo_caller ''t'') ''a'' w;
       (r2, w2) = to_committing ''a'' \<lparr>rows_ok = 1, rows_bad = 0, renamed_columns = []\<rparr> False w
   in \<not> isl r1 \<and> \<not> isl r2 \<and> last (history (db w1) ''a'') = (St_running, St_cancelled) \<and>
      last (history (db w2) ''a'') = (St_running, St_committing)"
  by code_simp

subsection \<open>What a completed manifest guarantees\<close>

lemma set_int_upt: "set (map int [1..<k + 1]) = {1..int k}"
proof -
  have "set (map int [1..<k + 1]) = int ` {1..k}" by (simp del: upt_Suc) (metis atLeastLessThanSuc_atLeastAtMost)
  also have "\<dots> = {1..int k}" using image_int_atLeastAtMost [of 1 k] by simp
  finally show ?thesis .
qed

lemma sort_range:
  assumes "sort ns = map int [1..<k + 1]"
  shows "set ns = {1..int k}" and "length ns = k"
proof -
  have "set ns = set (map int [1..<k + 1])" using assms by (metis set_sort)
  then show "set ns = {1..int k}" by (simp only: set_int_upt)
  show "length ns = k" using assms by (metis length_sort length_map length_upt add_diff_cancel_right')
qed

lemma sorted_parts_numbers:
  assumes "distinct (map pt_n parts)" and "set (map pt_n parts) = {1..int k}"
  shows "map pt_n (sort_key pt_n parts) = map int [1..<k + 1]"
proof (rule sorted_distinct_set_unique)
  show "sorted (map int [1..<k + 1])" by (simp add: sorted_map del: upt_Suc)
  show "distinct (map int [1..<k + 1])" by (simp add: distinct_map)
  show "distinct (map pt_n (sort_key pt_n parts))" using assms(1) by (simp add: distinct_map)
  show "set (map pt_n (sort_key pt_n parts)) = set (map int [1..<k + 1])"
    using assms(2) by (simp only: set_int_upt) simp
qed simp

lemma lookup_part:
  "distinct (map pt_n parts) \<Longrightarrow> p \<in> set parts \<Longrightarrow> map_of (map (\<lambda>p. (pt_n p, p)) parts) (pt_n p) = Some p"
  by (simp add: map_of_eq_Some_iff comp_def image_iff)

lemma check_manifestD:
  assumes "check_manifest st upload parts manifest = Inr (n, keys)"
  shows "distinct (map me_n manifest)" and "set (map pt_n parts) = set (map me_n manifest)"
    and "sort (map me_n manifest) = map int [1..<length manifest + 1]"
    and "\<forall>entry \<in> set manifest. part_matches upload (Max (set (map me_n manifest)))
           (the (map_of (map (\<lambda>p. (pt_n p, p)) parts) (me_n entry))) entry"
    and "n = sum_list (map pt_size parts)" and "enforce_upload_caps n (int (length parts)) st = Inr ()"
    and "keys = map (\<lambda>k. pt_storage_key (the (map_of (map (\<lambda>p. (pt_n p, p)) parts) k)))
                  (map int [1..<length manifest + 1])"
  using assms
  by (auto simp: check_manifest_def Let_def comp_def list_ex_iff simp del: upt_Suc
      split: if_splits sum.splits)

text \<open>C17. When the manifest of an upload is accepted, the stored parts are numbered 1 to n without
  a gap, each is listed with its very etag and size, each but the last has exactly the part size of
  the upload, the total is within the configured caps, and the object keys handed on are those of
  the parts in order.\<close>

theorem accepted_manifest_is_whole:
  assumes ok: "check_manifest st upload parts manifest = Inr (total_size, keys)"
    and pk: "distinct (map pt_n parts)"
  shows "set (map pt_n parts) = {1..int (length parts)} \<and>
         (\<forall>p \<in> set parts. \<exists>m \<in> set manifest. me_n m = pt_n p \<and> me_etag m = pt_etag p \<and> me_size m = pt_size p) \<and>
         (\<forall>p \<in> set parts. pt_n p < int (length parts) \<longrightarrow> pt_size p = up_part_size upload) \<and>
         total_size = sum_list (map pt_size parts) \<and>
         (max_upload_bytes st \<noteq> 0 \<longrightarrow> total_size \<le> max_upload_bytes st) \<and>
         (max_upload_parts st \<noteq> 0 \<longrightarrow> int (length parts) \<le> max_upload_parts st) \<and>
         keys = map pt_storage_key (sort_key pt_n parts)"
proof -
  note D = check_manifestD [OF ok]
  let ?k = "length manifest"
  note ns = sort_range [OF D(3)]
  have set_parts: "set (map pt_n parts) = {1..int ?k}" using D(2) ns(1) by simp
  have len: "length parts = ?k"
    using distinct_card [OF pk] set_parts by simp
  have mx: "Max (set (map me_n manifest)) = int ?k" if "p \<in> set parts" for p
    using that len ns(1) by (cases manifest) (auto intro!: Max_eqI)
  have entry: "\<exists>m \<in> set manifest. me_n m = pt_n p \<and> part_matches upload (int ?k) p m"
    if p: "p \<in> set parts" for p
  proof -
    obtain m where m: "m \<in> set manifest" "me_n m = pt_n p"
      using D(2) p by (metis imageE image_eqI set_map)
    then have "part_matches upload (int ?k) p m"
      using D(4) lookup_part [OF pk p] mx [OF p] by fastforce
    with m show ?thesis by blast
  qed
  have keys: "keys = map pt_storage_key (sort_key pt_n parts)"
    unfolding D(7) sorted_parts_numbers [OF pk set_parts, symmetric]
    using lookup_part [OF pk] by simp
  show ?thesis
    using set_parts entry keys D(5,6) unfolding len
    by (intro conjI ballI) (fastforce simp: part_matches_def enforce_upload_caps_def split: if_splits)+
qed

definition demo_parts :: "upload_part list" where
  "demo_parts = [\<lparr>pt_upload = ''u'', pt_n = 1, pt_tenant = ''t'', pt_etag = ''x'', pt_size = 4, pt_storage_key = ''k1''\<rparr>,
     \<lparr>pt_upload = ''u'', pt_n = 2, pt_tenant = ''t'', pt_etag = ''y'', pt_size = 3, pt_storage_key = ''k2''\<rparr>]"

definition demo_upload :: ing_upload where
  "demo_upload = \<lparr>up_id = ''u'', up_tenant = ''t'', up_ingestion = ''j'', up_part_size = 4,
     up_storage_prefix = ''p'', up_sha256 = None, up_bytes_total = None, up_status = ''open'',
     up_expires_at = 10\<rparr>"

theorem accepted_manifest_is_whole_witness:
  "[''k1'', ''k2''] = map pt_storage_key (sort_key pt_n demo_parts)"
proof -
  have "check_manifest demo_settings demo_upload demo_parts
      [\<lparr>me_n = 2, me_etag = ''y'', me_size = 3\<rparr>, \<lparr>me_n = 1, me_etag = ''x'', me_size = 4\<rparr>] = Inr (7, [''k1'', ''k2''])"
    by code_simp
  moreover have "distinct (map pt_n demo_parts)" by (simp add: demo_parts_def)
  ultimately show ?thesis using accepted_manifest_is_whole by blast
qed

subsection \<open>Parts sent twice\<close>

lemma get_upload_own:
  "map_of (uploads (db w)) u = Some up \<Longrightarrow> up_tenant up = pr_tenant p \<Longrightarrow>
   get_upload p u (c, w) = (Inr up, (c, w))"
  by (simp add: get_upload_def bindE_def query_def)

lemma store_part_existing:
  assumes "map_of (upload_parts (db w)) (up_id up, n) = Some part"
  shows "store_part p up n key etag k w =
     (if pt_etag part = etag then Inr (pt_n part, pt_etag part, pt_size part)
      else Inl (ConflictError ''part already uploaded with a different etag''),
      w\<lparr>objects := AList.delete key (objects w)\<rparr>)"
  using assms by (simp add: store_part_def session_def bindE_def query_def tx_store_delete_def)

text \<open>Sending a part a second time is idempotent: with the same content the caller gets the
  stored part back, with different content a conflict; in both cases the database is unchanged and
  no object of the store other than the staging key is touched.\<close>

theorem put_part_again:
  assumes up: "map_of (uploads (db w)) u = Some up" "up_tenant up = pr_tenant p" "up_id up = u"
    and live: "up_status up = ''open''" "io_now io < up_expires_at up"
    and part: "map_of (upload_parts (db w)) (u, n) = Some part" and n: "1 \<le> n"
    and fits: "capped (up_part_size up) 0 stream = Inr bytes"
  shows "\<exists>w'. put_part io p u n token stream None w =
           (if pt_etag part = io_sha256 io bytes
            then Inr (pt_n part, pt_etag part, pt_size part)
            else Inl (ConflictError ''part already uploaded with a different etag''), w') \<and>
           db w' = db w \<and> snapshots w' = snapshots w \<and>
           (\<forall>k. k \<noteq> staging_key (up_storage_prefix up) n token \<longrightarrow>
              map_of (objects w') k = map_of (objects w) k)"
proof -
  let ?key = "staging_key (up_storage_prefix up) n token"
  let ?w1 = "w\<lparr>objects := AList.update ?key bytes (objects w)\<rparr>"
  let ?w2 = "?w1\<lparr>objects := AList.delete ?key (objects ?w1)\<rparr>"
  have s: "session (bindE (get_upload p u) (\<lambda>upload. bindE (ensure_open (io_now io) upload) (\<lambda>_. returnE upload))) w
       = (Inr up, w)"
    using live by (simp add: session_def bindE_def get_upload_own [OF up(1,2)] ensure_open_def)
  have part1: "map_of (upload_parts (db ?w1)) (up_id up, n) = Some part" using part up(3) by simp
  have "put_part io p u n token stream None w = receive_part io p up n ?key stream None w"
    using n s by (simp add: put_part_def open_upload_def bindE_def)
  also have "\<dots> = store_part p up n ?key (io_sha256 io bytes) (int (length bytes)) ?w1"
    by (simp add: receive_part_def bindE_def catchE_def store_put_def truthy_def fits)
  also have "\<dots> =
     (if pt_etag part = io_sha256 io bytes then Inr (pt_n part, pt_etag part, pt_size part)
      else Inl (ConflictError ''part already uploaded with a different etag''), ?w2)"
    by (rule store_part_existing [OF part1])
  finally have "put_part io p u n token stream None w =
     (if pt_etag part = io_sha256 io bytes then Inr (pt_n part, pt_etag part, pt_size part)
      else Inl (ConflictError ''part already uploaded with a different etag''), ?w2)" .
  moreover have "db ?w2 = db w" "snapshots ?w2 = snapshots w" by simp_all
  moreover have "\<forall>k. k \<noteq> ?key \<longrightarrow> map_of (objects ?w2) k = map_of (objects w) k" by simp
  ultimately show ?thesis by blast
qed

definition demo_part_world :: world where
  "demo_part_world = empty_world\<lparr>db := empty_db\<lparr>uploads := [(''u'', demo_upload)],
     upload_parts := [((''u'', 1), hd demo_parts)]\<rparr>\<rparr>"

theorem put_part_again_witness:
  "\<exists>w'. put_part demo_io (demo_caller ''t'') ''u'' 1 ''k'' [''x''] None demo_part_world = (Inr (1, ''x'', 4), w') \<and>
     db w' = db demo_part_world"
proof -
  have "map_of (uploads (db demo_part_world)) ''u'' = Some demo_upload"
    and "up_tenant demo_upload = pr_tenant (demo_caller ''t'')" and "up_id demo_upload = ''u''"
    and "up_status demo_upload = ''open''" and "io_now demo_io < up_expires_at demo_upload"
    and "map_of (upload_parts (db demo_part_world)) (''u'', 1) = Some (hd demo_parts)"
    and "(1::int) \<le> 1" and "capped (up_part_size demo_upload) 0 [''x''] = Inr ''x''"
    by (simp_all add: demo_part_world_def demo_upload_def demo_caller_def demo_io_def)
  from put_part_again [OF this, of "''k''"] show ?thesis
    by (auto simp: demo_parts_def demo_io_def)
qed

subsection \<open>Two defects\<close>

definition demo_owner :: principal where
  "demo_owner = demo_caller (replicate 36 (CHR ''a''))"

definition demo_new_job :: world where
  "demo_new_job = snd (create demo_settings demo_io demo_owner
     \<lparr>fresh_ingestion = ''j'', fresh_dataset = replicate 36 (CHR ''b'')\<rparr> demo_body empty_world)"

definition open_demo :: "string \<Rightarrow> world \<Rightarrow> world" where
  "open_demo u w = snd (create_upload demo_settings 0 demo_owner u
     \<lparr>uc_ingestion = ''j'', uc_part_size = None, uc_bytes_total = None\<rparr> w)"

definition send_demo :: "string \<Rightarrow> string \<Rightarrow> world \<Rightarrow> world" where
  "send_demo u bytes w = snd (put_part demo_io demo_owner u 1 ''k'' [bytes] None w)"

definition finish_demo :: "job_io \<Rightarrow> string \<Rightarrow> string \<Rightarrow> world \<Rightarrow> (ing_error + (int \<times> ingestion)) \<times> world" where
  "finish_demo io u bytes = complete_upload demo_settings io demo_owner u
     \<lparr>uf_parts = [\<lparr>me_n = 1, me_etag = io_sha256 demo_io bytes, me_size = int (length bytes)\<rparr>], uf_sha256 = None\<rparr>"

text \<open>Two uploads opened for the same job write their parts under the same object keys, because
  the storage prefix is derived from the job and not from the upload. A part of the second upload
  overwrites the object of the first, whose part row keeps the old etag; completing the first upload
  is accepted and hands on the other upload's bytes.\<close>

theorem uploads_share_part_keys:
  "(let w = send_demo ''B'' ''bb'' (send_demo ''A'' ''aa'' (open_demo ''B'' (open_demo ''A'' demo_new_job)));
        part = the (map_of (upload_parts (db w)) (''A'', 1))
    in pt_etag part = io_sha256 demo_io ''aa'' \<and>
       map_of (objects w) (pt_storage_key part) = Some ''bb'' \<and>
       \<not> isl (fst (finish_demo demo_io ''A'' ''aa'' w)))"
  by code_simp

definition failing_io :: job_io where
  "failing_io = demo_io\<lparr>io_stage := (\<lambda>n. Inl (PermanentJobError DECODE_ERROR ''bad'' [] None))\<rparr>"

text \<open>A job that was retried once cannot be retried again: the parts of a retry clone are looked
  up under its own id and under the job it was cloned from, and a clone of a clone finds neither.
  The second retry fails with an internal error although the uploaded parts are still stored.\<close>

theorem second_retry_loses_parts:
  "(let w = snd (finish_demo failing_io ''A'' ''aa'' (send_demo ''A'' ''aa'' (open_demo ''A'' demo_new_job)));
        w1 = snd (retry demo_settings failing_io demo_owner ''r1'' ''j'' w);
        w2 = snd (retry demo_settings demo_io demo_owner ''r2'' ''r1'' w1)
    in map_option ing_error_log (map_of (ingestions (db w1)) ''r1'') =
         Some (Some (error_log_of DECODE_ERROR ''bad'' [] None)) \<and>
       map_option ing_error_log (map_of (ingestions (db w2)) ''r2'') =
         Some (Some (error_log_of INTERNAL ''no completed upload parts found for file job'' [] None)) \<and>
       map_of (objects w2) (part_key (''tenants/'' @ pr_tenant demo_owner @ ''/uploads/j'') 1) = Some ''aa'')"
  by code_simp

end
