(* ===== verification/Pipeline_Graph.thy ===== *)
theory Pipeline_Graph
  imports Prelude
begin

text \<open>
  The graph algorithms of the pipeline orchestrator: the depth-first cycle search of
  \<open>services/pipeline-orchestrator/app/domain/dag.py\<close> (\<open>_find_cycle\<close>) and the topological
  order of \<open>app/domain/resources.py\<close> (\<open>topo_order\<close>).

  \<open>dfs\<close> is the inner function of \<open>_find_cycle\<close>, \<open>dfs_succs\<close> its \<open>for\<close> loop over the
  successors. Its state is the colouring and the stack. The recursion depth is fuel; running out
  of it is the value \<open>None\<close>, and \<open>find_cycle_total\<close> shows that one more than the number of
  nodes is always enough. \<open>kahn\<close> is the \<open>while\<close> loop of \<open>topo_order\<close>, with the number of
  pops as fuel; \<open>kahn_runs\<close> shows that the number of nodes suffices.
\<close>

subsection \<open>Cycle search\<close>

datatype color = WHITE | GRAY | BLACK

record 'a dfs_state =
  df_color :: "'a \<rightharpoonup> color"
  df_stack :: "'a list"

definition adj :: "('a \<times> 'a) list \<Rightarrow> 'a \<Rightarrow> 'a list" where
  "adj edges u = map snd (filter (\<lambda>(a, _). a = u) edges)"

fun dfs :: "('a \<times> 'a) list \<Rightarrow> nat \<Rightarrow> 'a \<Rightarrow> 'a dfs_state \<Rightarrow> ('a list option \<times> 'a dfs_state) option"
and dfs_succs ::
    "('a \<times> 'a) list \<Rightarrow> nat \<Rightarrow> 'a list \<Rightarrow> 'a dfs_state \<Rightarrow> ('a list option \<times> 'a dfs_state) option" where
  "dfs edges 0 u s = None"
| "dfs edges (Suc fuel) u s =
     (case dfs_succs edges fuel (adj edges u)
             (s\<lparr>df_color := (df_color s)(u \<mapsto> GRAY), df_stack := df_stack s @ [u]\<rparr>) of
        None \<Rightarrow> None
      | Some (Some cycle, s') \<Rightarrow> Some (Some cycle, s')
      | Some (None, s') \<Rightarrow>
          Some (None, s'\<lparr>df_stack := butlast (df_stack s'), df_color := (df_color s')(u \<mapsto> BLACK)\<rparr>))"
| "dfs_succs edges fuel [] s = Some (None, s)"
| "dfs_succs edges fuel (v # vs) s =
     (if df_color s v = Some GRAY
      then Some (Some (dropWhile (\<lambda>x. x \<noteq> v) (df_stack s)), s)
      else if df_color s v = Some WHITE
      then (case dfs edges fuel v s of
              None \<Rightarrow> None
            | Some (Some cycle, s') \<Rightarrow> Some (Some cycle, s')
            | Some (None, s') \<Rightarrow> dfs_succs edges fuel vs s')
      else dfs_succs edges fuel vs s)"

fun find_from :: "('a \<times> 'a) list \<Rightarrow> nat \<Rightarrow> 'a list \<Rightarrow> 'a dfs_state \<Rightarrow> 'a list option option" where
  "find_from edges fuel [] s = Some None"
| "find_from edges fuel (n # ns) s =
     (if df_color s n = Some WHITE
      then (case dfs edges fuel n s of
              None \<Rightarrow> None
            | Some (Some cycle, _) \<Rightarrow> Some (Some cycle)
            | Some (None, s') \<Rightarrow> find_from edges fuel ns s')
      else find_from edges fuel ns s)"

definition start_state :: "'a list \<Rightarrow> 'a dfs_state" where
  "start_state nodes = \<lparr>df_color = (\<lambda>x. if x \<in> set nodes then Some WHITE else None), df_stack = []\<rparr>"

definition find_cycle :: "'a list \<Rightarrow> ('a \<times> 'a) list \<Rightarrow> 'a list option option" where
  "find_cycle nodes edges = find_from edges (Suc (length nodes)) nodes (start_state nodes)"

subsection \<open>What the search keeps true\<close>

fun chain :: "('a \<times> 'a) set \<Rightarrow> 'a list \<Rightarrow> bool" where
  "chain E [] \<longleftrightarrow> True"
| "chain E [x] \<longleftrightarrow> True"
| "chain E (x # y # zs) \<longleftrightarrow> (x, y) \<in> E \<and> chain E (y # zs)"

definition is_cycle :: "('a \<times> 'a) set \<Rightarrow> 'a list \<Rightarrow> bool" where
  "is_cycle E c \<longleftrightarrow> c \<noteq> [] \<and> chain E c \<and> (last c, hd c) \<in> E"

definition whites :: "'a dfs_state \<Rightarrow> 'a set" where
  "whites s = {x. df_color s x = Some WHITE}"

definition blacks :: "'a dfs_state \<Rightarrow> 'a set" where
  "blacks s = {x. df_color s x = Some BLACK}"

definition search_inv :: "'a list \<Rightarrow> ('a \<times> 'a) list \<Rightarrow> 'a dfs_state \<Rightarrow> bool" where
  "search_inv nodes edges s \<longleftrightarrow>
     dom (df_color s) = set nodes \<and> {x. df_color s x = Some GRAY} = set (df_stack s) \<and>
     chain (set edges) (df_stack s) \<and>
     (\<forall>x \<in> blacks s. (\<forall>y. (x, y) \<in> set edges \<longrightarrow> y \<in> blacks s) \<and> (x, x) \<notin> (set edges)\<^sup>+)"

lemma stack_gray: "search_inv nodes edges s \<Longrightarrow> x \<in> set (df_stack s) \<longleftrightarrow> df_color s x = Some GRAY"
  by (simp add: search_inv_def set_eq_iff)

lemma chain_append_single:
  "chain E (xs @ [y]) \<longleftrightarrow> chain E xs \<and> (xs = [] \<or> (last xs, y) \<in> E)"
  by (induction E xs rule: chain.induct) auto

lemma chain_suffix: "chain E (xs @ ys) \<Longrightarrow> chain E ys"
  by (induction xs) (auto elim: chain.elims)

lemma chain_trancl: "chain E (x # xs) \<Longrightarrow> xs \<noteq> [] \<Longrightarrow> (x, last xs) \<in> E\<^sup>+"
proof (induction xs arbitrary: x)
  case (Cons y ys)
  then show ?case by (cases ys) (auto intro: trancl_into_trancl2)
qed simp

lemma cycle_not_acyclic: "is_cycle E c \<Longrightarrow> \<not> acyclic E"
proof -
  assume c: "is_cycle E c"
  then obtain x xs where x: "c = x # xs" by (cases c) (auto simp: is_cycle_def)
  have "(x, x) \<in> E\<^sup>+"
  proof (cases "xs = []")
    case True
    then show ?thesis using c x by (auto simp: is_cycle_def)
  next
    case False
    then have "(x, last xs) \<in> E\<^sup>+" using c x by (auto simp: is_cycle_def intro: chain_trancl)
    then show ?thesis using c x False by (auto simp: is_cycle_def intro: trancl_into_trancl)
  qed
  then show ?thesis by (auto simp: acyclic_def)
qed

lemma adj_set: "v \<in> set (adj edges u) \<longleftrightarrow> (u, v) \<in> set edges"
  by (force simp: adj_def)

lemma closed_trancl:
  assumes "\<And>x y. x \<in> B \<Longrightarrow> (x, y) \<in> E \<Longrightarrow> y \<in> B" and "x \<in> B" and "(x, y) \<in> E\<^sup>+"
  shows "y \<in> B"
  using assms(3)
proof (induction rule: trancl_induct)
  case (base y)
  then show ?case by (rule assms(1) [OF assms(2)])
next
  case (step y z)
  show ?case by (rule assms(1) [OF step(3,2)])
qed

lemma gray_cycle:
  assumes "search_inv nodes edges s" and "df_color s v = Some GRAY"
    and "df_stack s \<noteq> []" and "(last (df_stack s), v) \<in> set edges"
  shows "is_cycle (set edges) (dropWhile (\<lambda>x. x \<noteq> v) (df_stack s))"
proof -
  have v: "v \<in> set (df_stack s)" using stack_gray [OF assms(1)] assms(2) by simp
  let ?d = "dropWhile (\<lambda>x. x \<noteq> v) (df_stack s)"
  have ne: "?d \<noteq> []" using v by (auto simp: dropWhile_eq_Nil_conv)
  then have "hd ?d = v" using hd_dropWhile [OF ne] by simp
  moreover have "last ?d = last (df_stack s)"
    using ne by (metis last_appendR takeWhile_dropWhile_id)
  moreover have "chain (set edges) ?d"
    using assms(1) chain_suffix [of _ "takeWhile (\<lambda>x. x \<noteq> v) (df_stack s)" ?d]
    by (simp add: search_inv_def)
  ultimately show ?thesis using ne assms(4) by (simp add: is_cycle_def)
qed

definition search_post ::
    "'a list \<Rightarrow> ('a \<times> 'a) list \<Rightarrow> 'a dfs_state \<Rightarrow> ('a list option \<times> 'a dfs_state) option \<Rightarrow> bool" where
  "search_post nodes edges s res \<longleftrightarrow>
     (case res of
        None \<Rightarrow> False
      | Some (Some c, _) \<Rightarrow> is_cycle (set edges) c
      | Some (None, s') \<Rightarrow> search_inv nodes edges s' \<and> df_stack s' = df_stack s \<and>
          blacks s \<subseteq> blacks s' \<and> whites s' \<subseteq> whites s)"

lemma enter_inv:
  assumes inv: "search_inv nodes edges s" and u: "df_color s u = Some WHITE"
    and path: "df_stack s = [] \<or> (last (df_stack s), u) \<in> set edges"
  defines "s1 \<equiv> s\<lparr>df_color := (df_color s)(u \<mapsto> GRAY), df_stack := df_stack s @ [u]\<rparr>"
  shows "search_inv nodes edges s1" and "blacks s1 = blacks s" and "whites s1 = whites s - {u}"
proof -
  show b: "blacks s1 = blacks s" and "whites s1 = whites s - {u}"
    using u by (auto simp: blacks_def whites_def s1_def)
  have "{x. df_color s1 x = Some GRAY} = insert u {x. df_color s x = Some GRAY}"
    by (auto simp: s1_def)
  then show "search_inv nodes edges s1"
    using inv path b u by (auto simp: search_inv_def s1_def chain_append_single)
qed

lemma leave_inv:
  assumes inv: "search_inv nodes edges s'" and stack: "df_stack s' = st @ [u]" and new: "u \<notin> set st"
    and succs: "\<forall>v \<in> set (adj edges u). v \<in> blacks s'"
  defines "s2 \<equiv> s'\<lparr>df_stack := butlast (df_stack s'), df_color := (df_color s')(u \<mapsto> BLACK)\<rparr>"
  shows "search_inv nodes edges s2" and "blacks s2 = insert u (blacks s')" and "whites s2 \<subseteq> whites s'"
    and "df_stack s2 = st"
proof -
  show b: "blacks s2 = insert u (blacks s')" and "whites s2 \<subseteq> whites s'" and st: "df_stack s2 = st"
    using stack by (auto simp: blacks_def whites_def s2_def)
  have gray: "df_color s' u = Some GRAY" using stack_gray [OF inv, of u] stack by simp
  have closed: "y \<in> blacks s'" if "x \<in> blacks s'" "(x, y) \<in> set edges" for x y
    using inv that by (auto simp: search_inv_def)
  have "(u, u) \<notin> (set edges)\<^sup>+"
  proof
    assume "(u, u) \<in> (set edges)\<^sup>+"
    then obtain y where y: "(u, y) \<in> set edges" "y = u \<or> (y, u) \<in> (set edges)\<^sup>+"
      by (metis converse_tranclE)
    then have "y \<in> blacks s'" using succs by (simp add: adj_set)
    then have "u \<in> blacks s'" using y(2) closed_trancl [of "blacks s'" "set edges" y u] closed by blast
    then show False using gray by (simp add: blacks_def)
  qed
  moreover have "{x. df_color s2 x = Some GRAY} = set st"
  proof -
    have "{x. df_color s2 x = Some GRAY} = {x. df_color s' x = Some GRAY} - {u}" by (auto simp: s2_def)
    also have "\<dots> = set st" using inv stack new by (auto simp: search_inv_def)
    finally show ?thesis .
  qed
  moreover have "dom (df_color s2) = set nodes"
    using inv gray by (auto simp: search_inv_def s2_def)
  moreover have "chain (set edges) st"
    using inv stack by (simp add: search_inv_def chain_append_single)
  ultimately show "search_inv nodes edges s2"
    using closed succs inv unfolding search_inv_def [of nodes edges s2] st b
    by (auto simp: adj_set search_inv_def)
qed

lemma white_fuel: "finite (whites s) \<Longrightarrow> u \<in> whites s \<Longrightarrow> card (whites s) \<le> Suc fuel \<Longrightarrow>
    card (whites s - {u}) \<le> fuel"
  by simp

lemma search_post_finite: "search_inv nodes edges s \<Longrightarrow> finite (whites s)"
  by (rule finite_subset [of _ "set nodes"]) (auto simp: whites_def search_inv_def)

lemma search_correct:
  shows "set edges \<subseteq> set nodes \<times> set nodes \<Longrightarrow> search_inv nodes edges s \<Longrightarrow>
      df_color s u = Some WHITE \<Longrightarrow> df_stack s = [] \<or> (last (df_stack s), u) \<in> set edges \<Longrightarrow>
      card (whites s) \<le> fuel \<Longrightarrow>
      search_post nodes edges s (dfs edges fuel u s) \<and>
      (\<forall>s'. dfs edges fuel u s = Some (None, s') \<longrightarrow> u \<in> blacks s')"
    and "set edges \<subseteq> set nodes \<times> set nodes \<Longrightarrow> search_inv nodes edges s \<Longrightarrow>
      df_stack s \<noteq> [] \<Longrightarrow> (\<forall>v \<in> set vs. (last (df_stack s), v) \<in> set edges) \<Longrightarrow>
      card (whites s) \<le> fuel \<Longrightarrow>
      search_post nodes edges s (dfs_succs edges fuel vs s) \<and>
      (\<forall>s'. dfs_succs edges fuel vs s = Some (None, s') \<longrightarrow> set vs \<subseteq> blacks s')"
proof (induction edges fuel u s and edges fuel vs s rule: dfs_dfs_succs.induct)
  case (1 edges u s)
  then have "u \<in> whites s" by (simp add: whites_def)
  then show ?case using 1 search_post_finite [OF 1(2)] by auto
next
  case (2 edges fuel u s)
  let ?s1 = "s\<lparr>df_color := (df_color s)(u \<mapsto> GRAY), df_stack := df_stack s @ [u]\<rparr>"
  note e = enter_inv [OF "2.prems"(2-4)]
  have new: "u \<notin> set (df_stack s)" using stack_gray [OF "2.prems"(2)] "2.prems"(3) by simp
  have "card (whites ?s1) \<le> fuel"
    unfolding e(3) using white_fuel [OF search_post_finite [OF "2.prems"(2)]] "2.prems"(3,5)
    by (simp add: whites_def)
  then have ih: "search_post nodes edges ?s1 (dfs_succs edges fuel (adj edges u) ?s1)"
      "\<forall>s'. dfs_succs edges fuel (adj edges u) ?s1 = Some (None, s') \<longrightarrow> set (adj edges u) \<subseteq> blacks s'"
    using "2.IH" [OF "2.prems"(1) e(1)] by (simp_all add: adj_set)
  show ?case
  proof (cases "dfs_succs edges fuel (adj edges u) ?s1")
    case None
    then show ?thesis using ih(1) by (simp add: search_post_def)
  next
    case (Some r)
    obtain c s' where r: "r = (c, s')" by (cases r)
    show ?thesis
    proof (cases c)
      case None
      with ih Some r have s': "search_inv nodes edges s'" "df_stack s' = df_stack s @ [u]"
        "blacks s \<subseteq> blacks s'" "whites s' \<subseteq> whites s" "\<forall>v \<in> set (adj edges u). v \<in> blacks s'"
        by (auto simp: search_post_def e(2,3))
      note l = leave_inv [OF s'(1,2) new s'(5)]
      show ?thesis
        using Some r None l s'(3,4) by (auto simp: search_post_def)
    qed (use ih(1) Some r in \<open>simp add: search_post_def\<close>)
  qed
next
  case (3 edges fuel s)
  then show ?case by (simp add: search_post_def)
next
  case (4 edges fuel v vs s)
  have v: "(last (df_stack s), v) \<in> set edges" using "4.prems"(4) by simp
  then have vn: "v \<in> set nodes" using "4.prems"(1) by auto
  show ?case
  proof (cases "df_color s v = Some GRAY")
    case True
    then show ?thesis
      using gray_cycle [OF "4.prems"(2) True "4.prems"(3) v] by (simp add: search_post_def)
  next
    case gray: False
    show ?thesis
    proof (cases "df_color s v = Some WHITE")
      case white: True
      have ih1: "search_post nodes edges s (dfs edges fuel v s)"
          "\<forall>s'. dfs edges fuel v s = Some (None, s') \<longrightarrow> v \<in> blacks s'"
        using "4.IH"(1) [OF gray white "4.prems"(1,2)] white v "4.prems"(5) by simp_all
      show ?thesis
      proof (cases "dfs edges fuel v s")
        case None
        then show ?thesis using ih1 by (simp add: search_post_def)
      next
        case (Some r)
        obtain c s' where r: "r = (c, s')" by (cases r)
        show ?thesis
        proof (cases c)
          case None
          with ih1 Some r have s': "search_inv nodes edges s'" "df_stack s' = df_stack s"
            "blacks s \<subseteq> blacks s'" "whites s' \<subseteq> whites s" "v \<in> blacks s'"
            by (auto simp: search_post_def)
          have "card (whites s') \<le> fuel"
            using card_mono [OF search_post_finite [OF "4.prems"(2)] s'(4)] "4.prems"(5) by simp
          then have "search_post nodes edges s' (dfs_succs edges fuel vs s') \<and>
              (\<forall>s''. dfs_succs edges fuel vs s' = Some (None, s'') \<longrightarrow> set vs \<subseteq> blacks s'')"
            using "4.IH"(2) [OF gray white _ refl] Some r None s' "4.prems"(1,3,4) by simp
          then show ?thesis
            using Some r None gray white s' by (fastforce simp: search_post_def split: option.splits)
        qed (use ih1 Some r gray white in \<open>simp add: search_post_def\<close>)
      qed
    next
      case False
      have "v \<in> dom (df_color s)" using vn "4.prems"(2) by (simp add: search_inv_def)
      then obtain k where k: "df_color s v = Some k" by blast
      then have "v \<in> blacks s" using gray False by (cases k) (simp_all add: blacks_def)
      then show ?thesis
        using "4.IH"(3) [OF gray False "4.prems"(1-3)] "4.prems"(4,5) gray False
        by (auto simp: search_post_def split: option.splits)
    qed
  qed
qed

lemma all_black_acyclic:
  assumes "search_inv nodes edges s" and "set edges \<subseteq> set nodes \<times> set nodes" and "set nodes \<subseteq> blacks s"
  shows "acyclic (set edges)"
proof -
  have "(x, x) \<notin> (set edges)\<^sup>+" for x
  proof
    assume x: "(x, x) \<in> (set edges)\<^sup>+"
    then obtain y where "(x, y) \<in> set edges" by (blast elim: converse_tranclE)
    then have "x \<in> set nodes" using assms(2) by auto
    then show False using assms(1,3) x by (auto simp: search_inv_def)
  qed
  then show ?thesis by (simp add: acyclic_def)
qed

lemma find_from_correct:
  assumes "set edges \<subseteq> set nodes \<times> set nodes" and "length nodes \<le> fuel"
  shows "search_inv nodes edges s \<Longrightarrow> df_stack s = [] \<Longrightarrow> set ns \<subseteq> set nodes \<Longrightarrow>
    set nodes - set ns \<subseteq> blacks s \<Longrightarrow>
    (case find_from edges fuel ns s of
       None \<Rightarrow> False | Some None \<Rightarrow> acyclic (set edges) | Some (Some c) \<Rightarrow> is_cycle (set edges) c)"
proof (induction ns arbitrary: s)
  case Nil
  then show ?case using all_black_acyclic assms(1) by auto
next
  case (Cons n ns)
  show ?case
  proof (cases "df_color s n = Some WHITE")
    case True
    have "whites s \<subseteq> set nodes" using Cons.prems(1) by (auto simp: whites_def search_inv_def)
    then have "card (whites s) \<le> fuel"
      using card_mono [of "set nodes" "whites s"] card_length [of nodes] assms(2) by simp
    then have d: "search_post nodes edges s (dfs edges fuel n s)"
        "\<forall>s'. dfs edges fuel n s = Some (None, s') \<longrightarrow> n \<in> blacks s'"
      using search_correct(1) [OF assms(1) Cons.prems(1) True] Cons.prems(2) by simp_all
    show ?thesis
    proof (cases "dfs edges fuel n s")
      case None
      then show ?thesis using d by (simp add: search_post_def)
    next
      case (Some r)
      obtain c s' where r: "r = (c, s')" by (cases r)
      show ?thesis
      proof (cases c)
        case None
        with d Some r have s': "search_inv nodes edges s'" "df_stack s' = df_stack s"
          "blacks s \<subseteq> blacks s'" "n \<in> blacks s'" by (auto simp: search_post_def)
        then show ?thesis
          using Cons.IH [OF s'(1)] Cons.prems(2-4) True Some r None by auto
      qed (use d Some r True in \<open>simp add: search_post_def\<close>)
    qed
  next
    case False
    have "n \<in> dom (df_color s)" using Cons.prems(1,3) by (auto simp: search_inv_def)
    then obtain k where k: "df_color s n = Some k" by blast
    moreover have "k \<noteq> GRAY" using stack_gray [OF Cons.prems(1), of n] Cons.prems(2) k by auto
    ultimately have "n \<in> blacks s" using False by (cases k) (simp_all add: blacks_def)
    then show ?thesis using Cons.IH [OF Cons.prems(1,2)] Cons.prems(3,4) False by auto
  qed
qed

lemma find_cycle_total:
  assumes "set edges \<subseteq> set nodes \<times> set nodes"
  shows "case find_cycle nodes edges of
       None \<Rightarrow> False | Some None \<Rightarrow> acyclic (set edges) | Some (Some c) \<Rightarrow> is_cycle (set edges) c"
  unfolding find_cycle_def
proof (rule find_from_correct [OF assms])
  show "search_inv nodes edges (start_state nodes)"
    by (auto simp: search_inv_def start_state_def blacks_def split: if_splits)
qed (auto simp: start_state_def)

text \<open>C18. The cycle search decides acyclicity: on a graph whose edges join its nodes it always
  returns, it returns no cycle exactly when the graph has none, and a cycle it reports is one: each
  alias has an edge to the next and the last an edge to the first.\<close>

theorem find_cycle_decides:
  assumes "set edges \<subseteq> set nodes \<times> set nodes"
  shows "(find_cycle nodes edges = Some None \<longleftrightarrow> acyclic (set edges)) \<and>
         (\<not> acyclic (set edges) \<longrightarrow> (\<exists>c. find_cycle nodes edges = Some (Some c) \<and> is_cycle (set edges) c))"
  using find_cycle_total [OF assms] cycle_not_acyclic
  by (auto split: option.splits)

theorem find_cycle_decides_witness:
  "find_cycle [1, 2, 3 :: nat] [(1, 2), (2, 3), (1, 3)] = Some None \<and> acyclic {(1, 2), (2, 3), (1, 3 :: nat)} \<and>
   (\<exists>c. find_cycle [1, 2, 3 :: nat] [(1, 2), (2, 3), (3, 2)] = Some (Some c) \<and> c = [2, 3])"
proof -
  have run: "find_cycle [1, 2, 3 :: nat] [(1, 2), (2, 3), (1, 3)] = Some None" by code_simp
  moreover have "find_cycle [1, 2, 3 :: nat] [(1, 2), (2, 3), (3, 2)] = Some (Some [2, 3])" by code_simp
  moreover have "acyclic (set [(1, 2), (2, 3), (1, 3 :: nat)])"
    using find_cycle_decides [of "[(1, 2), (2, 3), (1, 3 :: nat)]" "[1, 2, 3]"] run by auto
  ultimately show ?thesis by simp
qed

subsection \<open>Topological order\<close>

record 'a kahn_state =
  kh_indeg :: "('a, int) dict"
  kh_queue :: "'a list"
  kh_order :: "'a list"

definition indegree :: "('a, int) dict \<Rightarrow> 'a \<Rightarrow> int" where
  "indegree d x = (case map_of d x of None \<Rightarrow> 0 | Some n \<Rightarrow> n)"

fun release_succs :: "'a list \<Rightarrow> 'a kahn_state \<Rightarrow> 'a kahn_state" where
  "release_succs [] s = s"
| "release_succs (nxt # ns) s =
     (let n = indegree (kh_indeg s) nxt - 1;
          s' = s\<lparr>kh_indeg := AList.update nxt n (kh_indeg s)\<rparr>
      in release_succs ns (if n = 0 then s'\<lparr>kh_queue := kh_queue s' @ [nxt]\<rparr> else s'))"

fun kahn :: "nat \<Rightarrow> ('a \<times> 'a) list \<Rightarrow> 'a kahn_state \<Rightarrow> 'a kahn_state option" where
  "kahn fuel edges s =
     (case kh_queue s of
        [] \<Rightarrow> Some s
      | node # rest \<Rightarrow>
          (case fuel of
             0 \<Rightarrow> None
           | Suc f \<Rightarrow> kahn f edges
               (release_succs (adj edges node) (s\<lparr>kh_queue := rest, kh_order := kh_order s @ [node]\<rparr>))))"

declare kahn.simps [simp del]

definition count_in :: "('a \<times> 'a) list \<Rightarrow> 'a \<Rightarrow> int" where
  "count_in edges b = int (length (filter (\<lambda>(_, y). y = b) edges))"

definition topo_order :: "'a list \<Rightarrow> ('a \<times> 'a) list \<Rightarrow> 'a list option" where
  "topo_order aliases edges =
     (let es = filter (\<lambda>(a, b). a \<in> set aliases \<and> b \<in> set aliases) edges;
          indeg = map (\<lambda>a. (a, count_in es a)) aliases
      in map_option (\<lambda>s. kh_order s @ filter (\<lambda>a. a \<notin> set (kh_order s)) aliases)
           (kahn (length aliases) es
              \<lparr>kh_indeg = indeg, kh_queue = filter (\<lambda>a. indegree indeg a = 0) aliases, kh_order = []\<rparr>))"

definition pending :: "('a \<times> 'a) list \<Rightarrow> 'a list \<Rightarrow> 'a \<Rightarrow> int" where
  "pending es ord x = int (length (filter (\<lambda>(a, b). b = x \<and> a \<notin> set ord) es))"

lemma pending_zero: "pending es ord x = 0 \<longleftrightarrow> (\<forall>a. (a, x) \<in> set es \<longrightarrow> a \<in> set ord)"
  by (auto simp: pending_def filter_empty_conv)

lemma pending_nonneg [simp]: "0 \<le> pending es ord x"
  by (simp add: pending_def)

lemma pending_snoc:
  "node \<notin> set ord \<Longrightarrow> pending es (ord @ [node]) x = pending es ord x - int (count_list (adj es node) x)"
  by (induction es) (auto simp: pending_def adj_def)

lemma indegree_update [simp]:
  "indegree (AList.update k n d) x = (if x = k then n else indegree d x)"
  by (simp add: indegree_def)

lemma release_succs_spec:
  assumes "\<And>x. x \<in> set ns \<Longrightarrow> int (count_list ns x) \<le> indegree (kh_indeg s) x"
  shows "\<exists>new. kh_queue (release_succs ns s) = kh_queue s @ new \<and> distinct new \<and>
      set new = {x \<in> set ns. indegree (kh_indeg s) x = int (count_list ns x)} \<and>
      kh_order (release_succs ns s) = kh_order s \<and>
      (\<forall>x. indegree (kh_indeg (release_succs ns s)) x = indegree (kh_indeg s) x - int (count_list ns x))"
  using assms
proof (induction ns arbitrary: s)
  case Nil
  then show ?case by simp
next
  case (Cons nxt ns)
  define n where "n = indegree (kh_indeg s) nxt - 1"
  define hit where "hit = (if n = 0 then [nxt] else [])"
  define s2 where "s2 = s\<lparr>kh_indeg := AList.update nxt n (kh_indeg s), kh_queue := kh_queue s @ hit\<rparr>"
  have step: "release_succs (nxt # ns) s = release_succs ns s2"
    by (simp add: Let_def n_def hit_def s2_def)
  have deg: "indegree (kh_indeg s2) x = indegree (kh_indeg s) x - (if x = nxt then 1 else 0)" for x
    by (simp add: s2_def n_def)
  have pos: "int (count_list ns nxt) \<le> n" using Cons.prems [of nxt] by (simp add: n_def)
  have "int (count_list ns x) \<le> indegree (kh_indeg s2) x" if "x \<in> set ns" for x
    using that Cons.prems [of x] pos by (cases "x = nxt") (simp_all add: deg)
  from Cons.IH [OF this] obtain new where new:
      "kh_queue (release_succs ns s2) = kh_queue s2 @ new" "distinct new"
      "set new = {x \<in> set ns. indegree (kh_indeg s2) x = int (count_list ns x)}"
      "kh_order (release_succs ns s2) = kh_order s2"
      "\<forall>x. indegree (kh_indeg (release_succs ns s2)) x = indegree (kh_indeg s2) x - int (count_list ns x)"
    by blast
  have gone: "n = 0 \<Longrightarrow> nxt \<notin> set ns" using pos by (simp add: count_list_0_iff)
  have members: "x \<in> set (hit @ new) \<longleftrightarrow>
      x \<in> set (nxt # ns) \<and> indegree (kh_indeg s) x = int (count_list (nxt # ns) x)" for x
  proof (cases "x = nxt")
    case True
    have "n = int (count_list ns nxt) \<longleftrightarrow> indegree (kh_indeg s) nxt = 1 + int (count_list ns nxt)"
      by (auto simp: n_def)
    then show ?thesis
      using True gone by (cases "nxt \<in> set ns") (auto simp: hit_def new(3) deg n_def count_list_0_iff)
  next
    case False
    then show ?thesis by (simp add: hit_def new(3) deg)
  qed
  have "kh_queue (release_succs (nxt # ns) s) = kh_queue s @ (hit @ new)"
    unfolding step new(1) by (simp add: s2_def)
  moreover have "distinct (hit @ new)" using new(2,3) gone by (simp add: hit_def)
  moreover have "set (hit @ new) = {x \<in> set (nxt # ns). indegree (kh_indeg s) x = int (count_list (nxt # ns) x)}"
    using members by blast
  moreover have "kh_order (release_succs (nxt # ns) s) = kh_order s" unfolding step new(4) by (simp add: s2_def)
  moreover have "\<forall>x. indegree (kh_indeg (release_succs (nxt # ns) s)) x =
      indegree (kh_indeg s) x - int (count_list (nxt # ns) x)"
    unfolding step using new(5) deg by simp
  ultimately show ?case by blast
qed

definition preds_first :: "('a \<times> 'a) list \<Rightarrow> 'a list \<Rightarrow> bool" where
  "preds_first es ord \<longleftrightarrow>
     (\<forall>k < length ord. \<forall>a. (a, ord ! k) \<in> set es \<longrightarrow> a \<in> set (take k ord))"

definition kahn_inv :: "'a set \<Rightarrow> ('a \<times> 'a) list \<Rightarrow> 'a kahn_state \<Rightarrow> bool" where
  "kahn_inv A es s \<longleftrightarrow>
     (\<forall>x \<in> A. indegree (kh_indeg s) x = pending es (kh_order s) x) \<and>
     distinct (kh_order s @ kh_queue s) \<and> set (kh_order s @ kh_queue s) \<subseteq> A \<and>
     (\<forall>x \<in> A. x \<in> set (kh_order s @ kh_queue s) \<longleftrightarrow> pending es (kh_order s) x = 0) \<and>
     preds_first es (kh_order s)"

lemma preds_first_snoc:
  "preds_first es ord \<Longrightarrow> pending es ord node = 0 \<Longrightarrow> preds_first es (ord @ [node])"
  by (auto simp: preds_first_def pending_zero nth_append less_Suc_eq)

lemma kahn_step:
  assumes inv: "kahn_inv A es s" and es: "set es \<subseteq> A \<times> A" and q: "kh_queue s = node # rest"
  shows "kahn_inv A es (release_succs (adj es node) (s\<lparr>kh_queue := rest, kh_order := kh_order s @ [node]\<rparr>))"
    (is "kahn_inv A es ?s2")
proof -
  let ?s1 = "s\<lparr>kh_queue := rest, kh_order := kh_order s @ [node]\<rparr>"
  let ?c = "\<lambda>x. int (count_list (adj es node) x)"
  have node: "node \<notin> set (kh_order s)" "node \<in> A" "pending es (kh_order s) node = 0"
    using inv q by (auto simp: kahn_inv_def)
  have succ: "x \<in> A" if "x \<in> set (adj es node)" for x using that es by (auto simp: adj_set)
  have pend: "pending es (kh_order s @ [node]) x = pending es (kh_order s) x - ?c x" for x
    by (rule pending_snoc [OF node(1)])
  have le: "?c x \<le> pending es (kh_order s) x" for x
    using pend [of x] pending_nonneg [of es "kh_order s @ [node]" x] by simp
  have deg1: "indegree (kh_indeg ?s1) x = pending es (kh_order s) x" if "x \<in> A" for x
    using inv that by (simp add: kahn_inv_def)
  have "?c x \<le> indegree (kh_indeg ?s1) x" if "x \<in> set (adj es node)" for x
    using deg1 [OF succ [OF that]] le [of x] by simp
  from release_succs_spec [OF this] obtain new where new:
      "kh_queue ?s2 = rest @ new" "distinct new"
      "set new = {x \<in> set (adj es node). indegree (kh_indeg ?s1) x = ?c x}"
      "kh_order ?s2 = kh_order s @ [node]"
      "\<forall>x. indegree (kh_indeg ?s2) x = indegree (kh_indeg ?s1) x - ?c x"
    by auto
  have set_new: "x \<in> set new \<longleftrightarrow> x \<in> set (adj es node) \<and> pending es (kh_order s) x = ?c x" for x
    using deg1 succ by (auto simp: new(3))
  have old: "x \<in> set (kh_order s @ kh_queue s) \<longleftrightarrow> pending es (kh_order s) x = 0" if "x \<in> A" for x
    using inv that by (simp add: kahn_inv_def)
  have fresh: "x \<notin> set (kh_order s @ kh_queue s)" if "x \<in> set new" for x
  proof -
    have "?c x \<noteq> 0" using that set_new by (simp add: count_list_0_iff)
    then show ?thesis using that old [OF succ] set_new by force
  qed
  have "x \<in> set (kh_order ?s2 @ kh_queue ?s2) \<longleftrightarrow> pending es (kh_order ?s2) x = 0" if "x \<in> A" for x
  proof -
    have "x \<in> set (kh_order ?s2 @ kh_queue ?s2) \<longleftrightarrow> x \<in> set (kh_order s @ kh_queue s) \<or> x \<in> set new"
      by (auto simp: new(1,4) q)
    also have "\<dots> \<longleftrightarrow> pending es (kh_order s) x - ?c x = 0"
      using old [OF that] le [of x] set_new [of x] by (auto simp: count_list_0_iff)
    finally show ?thesis by (simp add: new(4) pend)
  qed
  moreover have "distinct (kh_order ?s2 @ kh_queue ?s2)"
    using inv q fresh new(2) by (auto simp: kahn_inv_def new(1,4))
  moreover have "set (kh_order ?s2 @ kh_queue ?s2) \<subseteq> A"
    using inv q succ by (auto simp: kahn_inv_def new(1,4) set_new)
  moreover have "\<forall>x \<in> A. indegree (kh_indeg ?s2) x = pending es (kh_order ?s2) x"
    using new(5) deg1 by (simp add: new(4) pend)
  moreover have "preds_first es (kh_order ?s2)"
    unfolding new(4) using preds_first_snoc [OF _ node(3)] inv by (simp add: kahn_inv_def)
  ultimately show ?thesis by (simp add: kahn_inv_def)
qed

lemma kahn_runs:
  assumes es: "set es \<subseteq> A \<times> A" and A: "finite A"
  shows "kahn_inv A es s \<Longrightarrow> card A \<le> fuel + length (kh_order s) \<Longrightarrow>
    \<exists>s'. kahn fuel es s = Some s' \<and> kahn_inv A es s' \<and> kh_queue s' = []"
proof (induction fuel arbitrary: s)
  case 0
  have "length (kh_order s @ kh_queue s) \<le> card A"
    using 0(1) A card_mono distinct_card unfolding kahn_inv_def by metis
  then have "kh_queue s = []" using 0(2) by (cases "kh_queue s") auto
  then show ?case using 0 by (simp add: kahn.simps)
next
  case (Suc fuel)
  show ?case
  proof (cases "kh_queue s")
    case Nil
    then show ?thesis using Suc.prems by (simp add: kahn.simps)
  next
    case (Cons node rest)
    let ?s2 = "release_succs (adj es node) (s\<lparr>kh_queue := rest, kh_order := kh_order s @ [node]\<rparr>)"
    have order: "kh_order (release_succs ns t) = kh_order t" for ns and t :: "'a kahn_state"
      by (induction ns arbitrary: t) (simp_all add: Let_def)
    have "card A \<le> fuel + length (kh_order ?s2)" using Suc.prems(2) by (simp add: order)
    from Suc.IH [OF kahn_step [OF Suc.prems(1) es Cons] this] show ?thesis
      by (subst kahn.simps) (simp add: Cons)
  qed
qed

lemma drained_covers:
  assumes inv: "kahn_inv A es s" and q: "kh_queue s = []" and A: "finite A"
    and es: "set es \<subseteq> A \<times> A" and acyc: "acyclic (set es)"
  shows "set (kh_order s) = A"
proof (rule ccontr)
  let ?S = "A - set (kh_order s)"
  assume "set (kh_order s) \<noteq> A"
  moreover have "set (kh_order s) \<subseteq> A" using inv by (auto simp: kahn_inv_def)
  ultimately obtain x where "x \<in> ?S" by blast
  moreover have "wf (set es)" using acyc by (simp add: finite_acyclic_wf)
  ultimately obtain m where m: "m \<in> ?S" "\<And>y. (y, m) \<in> set es \<Longrightarrow> y \<notin> ?S"
    using wfE_min [of "set es" x ?S] by metis
  then have "\<forall>a. (a, m) \<in> set es \<longrightarrow> a \<in> set (kh_order s)" using es by blast
  then have "m \<in> set (kh_order s)"
    using inv q m(1) by (auto simp: kahn_inv_def pending_zero)
  with m(1) show False by simp
qed

lemma kahn_start:
  assumes "distinct aliases" and "set es \<subseteq> set aliases \<times> set aliases"
  defines "indeg \<equiv> map (\<lambda>a. (a, count_in es a)) aliases"
  shows "kahn_inv (set aliases) es
    \<lparr>kh_indeg = indeg, kh_queue = filter (\<lambda>a. indegree indeg a = 0) aliases, kh_order = []\<rparr>"
proof -
  have "map_of indeg x = Some (count_in es x)" if "x \<in> set aliases" for x
    unfolding indeg_def using that assms(1) by (auto simp: map_of_eq_Some_iff comp_def)
  then have "indegree indeg x = pending es [] x" if "x \<in> set aliases" for x
    using that by (simp add: indegree_def count_in_def pending_def case_prod_unfold)
  then show ?thesis using assms(1) by (auto simp: kahn_inv_def preds_first_def)
qed

lemma topo_order_run:
  fixes edges :: "('a \<times> 'a) list"
  assumes "distinct aliases"
  defines "es \<equiv> filter (\<lambda>(a, b). a \<in> set aliases \<and> b \<in> set aliases) edges"
  shows "\<exists>s. topo_order aliases edges = Some (kh_order s @ filter (\<lambda>a. a \<notin> set (kh_order s)) aliases) \<and>
     kahn_inv (set aliases) es s \<and> kh_queue s = []"
proof -
  have es: "set es \<subseteq> set aliases \<times> set aliases" by (auto simp: es_def)
  let ?s0 = "\<lparr>kh_indeg = map (\<lambda>a. (a, count_in es a)) aliases,
      kh_queue = filter (\<lambda>a. indegree (map (\<lambda>a. (a, count_in es a)) aliases) a = 0) aliases, kh_order = []\<rparr>"
  have "card (set aliases) \<le> length aliases + length (kh_order ?s0)" by (simp add: card_length)
  from kahn_runs [OF es finite_set kahn_start [OF assms(1) es] this] obtain s where
    "kahn (length aliases) es ?s0 = Some s" "kahn_inv (set aliases) es s" "kh_queue s = []" by blast
  then show ?thesis by (auto simp: topo_order_def Let_def es_def)
qed

lemma topo_order_spec:
  assumes "distinct aliases"
  shows "\<exists>ord. topo_order aliases edges = Some ord \<and> distinct ord \<and> set ord = set aliases \<and>
     (acyclic (set edges) \<longrightarrow>
        (\<forall>k < length ord. \<forall>a. (a, ord ! k) \<in> set edges \<and> a \<in> set aliases \<longrightarrow> a \<in> set (take k ord)))"
proof -
  let ?es = "filter (\<lambda>(a, b). a \<in> set aliases \<and> b \<in> set aliases) edges"
  obtain s where s: "topo_order aliases edges = Some (kh_order s @ filter (\<lambda>a. a \<notin> set (kh_order s)) aliases)"
      "kahn_inv (set aliases) ?es s" "kh_queue s = []"
    using topo_order_run [OF assms] by blast
  let ?ord = "kh_order s @ filter (\<lambda>a. a \<notin> set (kh_order s)) aliases"
  have ord: "distinct ?ord" "set ?ord = set aliases"
    using s(2) assms by (auto simp: kahn_inv_def)
  have "a \<in> set (take k ?ord)"
    if acyc: "acyclic (set edges)" and k: "k < length ?ord" "(a, ?ord ! k) \<in> set edges" "a \<in> set aliases"
    for k a
  proof -
    have "acyclic (set ?es)" by (rule acyclic_subset [OF acyc]) auto
    then have all: "set (kh_order s) = set aliases"
      by (intro drained_covers [OF s(2,3)]) auto
    then have "?ord = kh_order s" by (simp add: filter_empty_conv)
    moreover have "?ord ! k \<in> set aliases" using ord(2) k(1) nth_mem by blast
    ultimately have "(a, kh_order s ! k) \<in> set ?es" using k by simp
    moreover have "preds_first ?es (kh_order s)" using s(2) by (simp add: kahn_inv_def)
    ultimately show ?thesis using k(1) \<open>?ord = kh_order s\<close> by (simp add: preds_first_def)
  qed
  then show ?thesis using s(1) ord by blast
qed

text \<open>C19. \<open>topo_order\<close> always returns, every alias once; and when the edges among the aliases have
  no cycle, each alias comes after all its predecessors.\<close>

theorem topo_order_sorts:
  assumes "distinct aliases"
  shows "\<exists>ord. topo_order aliases edges = Some ord \<and> distinct ord \<and> set ord = set aliases \<and>
     (acyclic (set edges) \<longrightarrow>
        (\<forall>k < length ord. \<forall>a. (a, ord ! k) \<in> set edges \<and> a \<in> set aliases \<longrightarrow> a \<in> set (take k ord)))"
  by (rule topo_order_spec [OF assms])

theorem topo_order_sorts_witness:
  "topo_order [3, 2, 1 :: nat] [(1, 2), (2, 3)] = Some [1, 2, 3] \<and>
   (\<exists>ord. topo_order [3, 2, 1 :: nat] [(1, 2), (2, 3)] = Some ord \<and> set ord = {3, 2, 1})"
proof -
  have "topo_order [3, 2, 1 :: nat] [(1, 2), (2, 3)] = Some [1, 2, 3]" by code_simp
  moreover have "distinct [3, 2, 1 :: nat]" by simp
  ultimately show ?thesis using topo_order_sorts [of "[3, 2, 1 :: nat]" "[(1, 2), (2, 3)]"] by auto
qed

end
