(* ===== verification/Pipeline_Params.thy ===== *)
theory Pipeline_Params
  imports Prelude
begin

text \<open>
  Parameter validation of pipeline nodes
  (\<open>services/pipeline-orchestrator/app/domain/params.py\<close>).

  A parameter specification is the record \<open>param_spec\<close>; a value is a \<open>json\<close> value. The checks
  report \<open>report_item\<close>s as the code does; the human-readable problem text is left out.
  \<open>str_of\<close> stands for Python's \<open>str\<close> on list items, a parameter of the uniqueness check.
\<close>

record param_spec =
  sp_type :: "string option"
  sp_required :: bool
  sp_hide_for :: "string list"
  sp_format :: "string option"
  sp_minimum :: "rat option"
  sp_maximum :: "rat option"
  sp_enum :: "string list option"
  sp_min_length :: "int option"
  sp_max_length :: "int option"
  sp_min_items :: "int option"
  sp_max_items :: "int option"
  sp_unique_items :: bool

record report_item =
  ri_code :: string
  ri_alias :: "string option"
  ri_field :: "string option"
  ri_cycle :: "string list option"

definition TYPES :: "string list" where
  "TYPES = [''boolean'', ''int'', ''number'', ''string'', ''restricted_string'', ''text'',
     ''dictionary'', ''array'', ''autocomplete'', ''dataset_column'', ''anomaly_metric'', ''dataset_ref'']"

definition FORMATS :: "string list" where
  "FORMATS = [''column'', ''columns'', ''dataset_ref'', ''expression'', ''enum'', ''key_value'', ''metric'']"

definition INVALID :: string where "INVALID = ''PARAM_INVALID''"

definition restricted_char :: "char \<Rightarrow> bool" where
  "restricted_char c \<longleftrightarrow> ascii_letter c \<or> ascii_digit c \<or> c = CHR ''_'' \<or> py_space c"

definition is_dataset_urn :: "string \<Rightarrow> bool" where
  "is_dataset_urn s \<longleftrightarrow> take 3 s = ''wr:'' \<and> py_contains '':dataset:'' s"

definition below :: "rat option \<Rightarrow> rat \<Rightarrow> bool" where
  "below bnd x \<longleftrightarrow> (case bnd of None \<Rightarrow> False | Some m \<Rightarrow> x < m)"

definition above :: "rat option \<Rightarrow> rat \<Rightarrow> bool" where
  "above bnd x \<longleftrightarrow> (case bnd of None \<Rightarrow> False | Some m \<Rightarrow> x > m)"

definition shorter :: "int option \<Rightarrow> 'a list \<Rightarrow> bool" where
  "shorter bnd xs \<longleftrightarrow> (case bnd of None \<Rightarrow> False | Some m \<Rightarrow> int (length xs) < m)"

definition longer :: "int option \<Rightarrow> 'a list \<Rightarrow> bool" where
  "longer bnd xs \<longleftrightarrow> (case bnd of None \<Rightarrow> False | Some m \<Rightarrow> int (length xs) > m)"

subsection \<open>The checks\<close>

definition check_numeric :: "rat \<Rightarrow> param_spec \<Rightarrow> string list" where
  "check_numeric x spec =
     (if below (sp_minimum spec) x then [INVALID] else []) @
     (if above (sp_maximum spec) x then [INVALID] else [])"

definition check_string :: "string \<Rightarrow> param_spec \<Rightarrow> string list" where
  "check_string s spec =
     (case sp_enum spec of None \<Rightarrow> [] | Some vs \<Rightarrow> if s \<notin> set vs then [''NOT_IN_ENUM''] else []) @
     (if shorter (sp_min_length spec) s then [INVALID] else []) @
     (if longer (sp_max_length spec) s then [INVALID] else [])"

definition check_array :: "(json \<Rightarrow> string) \<Rightarrow> json \<Rightarrow> param_spec \<Rightarrow> string list" where
  "check_array str_of v spec =
     (case v of
        JArr xs \<Rightarrow>
          (if shorter (sp_min_items spec) xs then [INVALID] else []) @
          (if longer (sp_max_items spec) xs then [INVALID] else []) @
          (if sp_unique_items spec \<and> length xs \<noteq> card (set (map str_of xs)) then [INVALID] else [])
      | _ \<Rightarrow> [INVALID])"

definition check_type :: "(json \<Rightarrow> string) \<Rightarrow> string \<Rightarrow> json \<Rightarrow> param_spec \<Rightarrow> string list" where
  "check_type str_of ptype v spec =
     (if ptype = ''boolean'' then (case v of JBool _ \<Rightarrow> [] | _ \<Rightarrow> [INVALID])
      else if ptype = ''int'' then (case v of JInt n \<Rightarrow> check_numeric (of_int n) spec | _ \<Rightarrow> [INVALID])
      else if ptype = ''number''
      then (case v of JInt n \<Rightarrow> check_numeric (of_int n) spec | JFloat x \<Rightarrow> check_numeric x spec
            | _ \<Rightarrow> [INVALID])
      else if ptype \<in> {''string'', ''text'', ''autocomplete'', ''dataset_column'', ''anomaly_metric''}
      then (case v of JStr s \<Rightarrow> check_string s spec | _ \<Rightarrow> [INVALID])
      else if ptype = ''restricted_string''
      then (case v of JStr s \<Rightarrow> if \<not> list_all restricted_char s then [''RESTRICTED_STRING''] else check_string s spec
            | _ \<Rightarrow> [''RESTRICTED_STRING''])
      else if ptype = ''dataset_ref''
      then (case v of
              JStr s \<Rightarrow> if s = [] then [INVALID] else if \<not> is_dataset_urn s then [''DATASET_REF_INVALID''] else []
            | _ \<Rightarrow> [INVALID])
      else if ptype = ''dictionary'' then (case v of JObj _ \<Rightarrow> [] | _ \<Rightarrow> [INVALID])
      else if ptype = ''array'' then check_array str_of v spec
      else [])"

definition is_str :: "json \<Rightarrow> bool" where
  "is_str v = (case v of JStr _ \<Rightarrow> True | _ \<Rightarrow> False)"

definition the_str :: "json \<Rightarrow> string" where
  "the_str v = (case v of JStr s \<Rightarrow> s | _ \<Rightarrow> [])"

definition check_format :: "json \<Rightarrow> param_spec \<Rightarrow> string set option \<Rightarrow> string list" where
  "check_format v spec known_columns =
     (case sp_format spec of
        None \<Rightarrow> []
      | Some fmt \<Rightarrow>
          if fmt \<notin> set FORMATS then []
          else if fmt = ''column''
          then (if \<not> is_str v \<or> the_str v = [] then [''COLUMN_INVALID'']
                else (case known_columns of None \<Rightarrow> []
                      | Some cs \<Rightarrow> if the_str v \<notin> cs then [''COLUMN_NOT_FOUND''] else []))
          else if fmt = ''columns''
          then (case v of
                  JArr xs \<Rightarrow>
                    if \<not> list_all is_str xs then [''COLUMNS_INVALID'']
                    else (case known_columns of None \<Rightarrow> []
                          | Some cs \<Rightarrow> if list_ex (\<lambda>x. the_str x \<notin> cs) xs then [''COLUMN_NOT_FOUND''] else [])
                | _ \<Rightarrow> [''COLUMNS_INVALID''])
          else if fmt = ''expression''
          then (if \<not> is_str v \<or> (sp_required spec \<and> py_strip (the_str v) = []) then [''EXPRESSION_INVALID''] else [])
          else if fmt = ''dataset_ref''
          then (if \<not> is_str v \<or> \<not> is_dataset_urn (the_str v) then [''DATASET_REF_INVALID''] else [])
          else if fmt = ''key_value''
          then (case v of
                  JObj kvs \<Rightarrow> if \<not> list_all (\<lambda>(k, x). is_str x) kvs then [''KEY_VALUE_INVALID''] else []
                | _ \<Rightarrow> [''KEY_VALUE_INVALID''])
          else [])"

definition bad :: "string \<Rightarrow> string \<Rightarrow> string \<Rightarrow> report_item" where
  "bad alias name code =
     \<lparr>ri_code = code, ri_alias = Some alias, ri_field = Some (''parameters.'' @ name), ri_cycle = None\<rparr>"

definition hidden :: "string option \<Rightarrow> param_spec \<Rightarrow> bool" where
  "hidden model_type spec =
     (case model_type of None \<Rightarrow> False | Some m \<Rightarrow> m \<noteq> [] \<and> m \<in> set (sp_hide_for spec))"

definition check_param ::
    "(json \<Rightarrow> string) \<Rightarrow> string option \<Rightarrow> bool \<Rightarrow> string set option \<Rightarrow> (string, json) dict \<Rightarrow>
     string \<Rightarrow> param_spec \<Rightarrow> string list" where
  "check_param str_of model_type require_present known_columns provided name spec =
     (if hidden model_type spec then []
      else (case map_of provided name of
              None \<Rightarrow> if sp_required spec \<and> require_present then [''MISSING_PARAM''] else []
            | Some v \<Rightarrow>
                (let ptype = (case sp_type spec of None \<Rightarrow> ''string'' | Some t \<Rightarrow> t)
                 in if ptype \<in> set TYPES then check_type str_of ptype v spec else []) @
                check_format v spec known_columns))"

definition validate_params ::
    "(json \<Rightarrow> string) \<Rightarrow> string \<Rightarrow> (string, json) dict \<Rightarrow> (string, param_spec) dict \<Rightarrow> string option \<Rightarrow> bool \<Rightarrow>
     string set option \<Rightarrow> report_item list" where
  "validate_params str_of alias provided schema model_type require_present known_columns =
     map (\<lambda>(key, _). bad alias key ''UNKNOWN_PARAM'')
       (filter (\<lambda>(key, _). map_of schema key = None) provided) @
     concat (map (\<lambda>(name, spec). map (bad alias name)
       (check_param str_of model_type require_present known_columns provided name spec)) schema)"

subsection \<open>What a clean report means\<close>

fun in_range :: "param_spec \<Rightarrow> rat \<Rightarrow> bool" where
  "in_range spec x \<longleftrightarrow>
     (\<forall>m. sp_minimum spec = Some m \<longrightarrow> m \<le> x) \<and> (\<forall>m. sp_maximum spec = Some m \<longrightarrow> x \<le> m)"

definition text_ok :: "param_spec \<Rightarrow> string \<Rightarrow> bool" where
  "text_ok spec s \<longleftrightarrow>
     (\<forall>vs. sp_enum spec = Some vs \<longrightarrow> s \<in> set vs) \<and>
     (\<forall>m. sp_min_length spec = Some m \<longrightarrow> m \<le> int (length s)) \<and>
     (\<forall>m. sp_max_length spec = Some m \<longrightarrow> int (length s) \<le> m)"

definition type_ok :: "(json \<Rightarrow> string) \<Rightarrow> string \<Rightarrow> param_spec \<Rightarrow> json \<Rightarrow> bool" where
  "type_ok str_of ptype spec v \<longleftrightarrow>
     (ptype = ''boolean'' \<longrightarrow> (\<exists>b. v = JBool b)) \<and>
     (ptype = ''int'' \<longrightarrow> (\<exists>n. v = JInt n \<and> in_range spec (of_int n))) \<and>
     (ptype = ''number'' \<longrightarrow> (\<exists>x. (v = JFloat x \<or> (\<exists>n. v = JInt n \<and> x = of_int n)) \<and> in_range spec x)) \<and>
     (ptype \<in> {''string'', ''text'', ''autocomplete'', ''dataset_column'', ''anomaly_metric''} \<longrightarrow>
        (\<exists>s. v = JStr s \<and> text_ok spec s)) \<and>
     (ptype = ''restricted_string'' \<longrightarrow> (\<exists>s. v = JStr s \<and> (\<forall>c \<in> set s. restricted_char c) \<and> text_ok spec s)) \<and>
     (ptype = ''dataset_ref'' \<longrightarrow> (\<exists>s. v = JStr s \<and> s \<noteq> [] \<and> is_dataset_urn s)) \<and>
     (ptype = ''dictionary'' \<longrightarrow> (\<exists>kvs. v = JObj kvs)) \<and>
     (ptype = ''array'' \<longrightarrow> (\<exists>xs. v = JArr xs \<and>
        (\<forall>m. sp_min_items spec = Some m \<longrightarrow> m \<le> int (length xs)) \<and>
        (\<forall>m. sp_max_items spec = Some m \<longrightarrow> int (length xs) \<le> m) \<and>
        (sp_unique_items spec \<longrightarrow> distinct (map str_of xs))))"

definition format_ok :: "string set option \<Rightarrow> param_spec \<Rightarrow> json \<Rightarrow> bool" where
  "format_ok known_columns spec v \<longleftrightarrow>
     (sp_format spec = Some ''column'' \<longrightarrow>
        (\<exists>s. v = JStr s \<and> s \<noteq> [] \<and> (\<forall>cs. known_columns = Some cs \<longrightarrow> s \<in> cs))) \<and>
     (sp_format spec = Some ''columns'' \<longrightarrow>
        (\<exists>xs. v = JArr (map JStr xs) \<and> (\<forall>cs. known_columns = Some cs \<longrightarrow> set xs \<subseteq> cs))) \<and>
     (sp_format spec = Some ''expression'' \<longrightarrow>
        (\<exists>s. v = JStr s \<and> (sp_required spec \<longrightarrow> py_strip s \<noteq> []))) \<and>
     (sp_format spec = Some ''dataset_ref'' \<longrightarrow> (\<exists>s. v = JStr s \<and> is_dataset_urn s)) \<and>
     (sp_format spec = Some ''key_value'' \<longrightarrow>
        (\<exists>kvs. v = JObj (map (\<lambda>(k, s). (k, JStr s)) kvs)))"

lemma check_numeric_ok: "check_numeric x spec = [] \<longleftrightarrow> in_range spec x"
  by (auto simp: check_numeric_def below_def above_def not_less split: option.splits)

lemma check_string_ok: "check_string s spec = [] \<longleftrightarrow> text_ok spec s"
  by (auto simp: check_string_def text_ok_def shorter_def longer_def not_less split: option.splits)

lemma distinct_card_iff: "length xs = card (set xs) \<longleftrightarrow> distinct xs"
  by (metis card_distinct distinct_card)

lemma check_array_ok:
  "check_array str_of v spec = [] \<longleftrightarrow>
     (\<exists>xs. v = JArr xs \<and> (\<forall>m. sp_min_items spec = Some m \<longrightarrow> m \<le> int (length xs)) \<and>
        (\<forall>m. sp_max_items spec = Some m \<longrightarrow> int (length xs) \<le> m) \<and>
        (sp_unique_items spec \<longrightarrow> distinct (map str_of xs)))"
proof (cases v)
  case (JArr xs)
  have "length xs = card (str_of ` set xs) \<longleftrightarrow> distinct (map str_of xs)"
    using distinct_card_iff [of "map str_of xs"] by simp
  then show ?thesis
    by (auto simp: JArr check_array_def shorter_def longer_def not_less split: option.splits)
qed (simp_all add: check_array_def)

lemma check_type_ok: "ptype \<in> set TYPES \<Longrightarrow> check_type str_of ptype v spec = [] \<longleftrightarrow> type_ok str_of ptype spec v"
  unfolding TYPES_def
  by (cases v; auto simp: check_type_def type_ok_def check_numeric_ok check_string_ok check_array_ok
      list_all_iff simp del: in_range.simps)

lemma strs_of: "list_all is_str xs \<longleftrightarrow> (\<exists>ss. xs = map JStr ss)"
proof
  assume "list_all is_str xs"
  then have "xs = map JStr (map the_str xs)"
    by (induction xs) (auto simp: is_str_def the_str_def split: json.splits)
  then show "\<exists>ss. xs = map JStr ss" by blast
qed (auto simp: list_all_iff is_str_def)

lemma str_map_of:
  "list_all (\<lambda>(k, x). is_str x) kvs \<longleftrightarrow> (\<exists>ss. kvs = map (\<lambda>(k, s). (k, JStr s)) ss)"
proof
  assume "list_all (\<lambda>(k, x). is_str x) kvs"
  then have "kvs = map (\<lambda>(k, s). (k, JStr s)) (map (\<lambda>(k, x). (k, the_str x)) kvs)"
    by (induction kvs) (auto simp: is_str_def the_str_def split: json.splits)
  then show "\<exists>ss. kvs = map (\<lambda>(k, s). (k, JStr s)) ss" by blast
qed (auto simp: list_all_iff is_str_def)

lemma str_cases: "is_str v \<longleftrightarrow> (\<exists>s. v = JStr s)"
  by (cases v) (simp_all add: is_str_def)

lemma columns_found:
  assumes "list_all is_str xs"
  shows "\<not> list_ex (\<lambda>x. the_str x \<notin> cs) xs \<longleftrightarrow> (\<exists>ss. xs = map JStr ss \<and> set ss \<subseteq> cs)"
proof -
  obtain ss where ss: "xs = map JStr ss" using assms strs_of by blast
  have "\<not> list_ex (\<lambda>x. the_str x \<notin> cs) xs \<longleftrightarrow> set ss \<subseteq> cs"
    unfolding ss list_ex_iff by (auto simp: the_str_def)
  moreover have "set ss' \<subseteq> cs" if "xs = map JStr ss'" and "set ss \<subseteq> cs" for ss'
  proof -
    have "map JStr ss' = map JStr ss" using that(1) ss by simp
    then have "ss' = ss" by (rule map_injective) (simp add: inj_on_def)
    then show ?thesis using that(2) by simp
  qed
  moreover have "set ss \<subseteq> cs" if "xs = map JStr ss'" and "set ss' \<subseteq> cs" for ss'
  proof -
    have "map JStr ss = map JStr ss'" using that(1) ss by simp
    then have "ss = ss'" by (rule map_injective) (simp add: inj_on_def)
    then show ?thesis using that(2) by simp
  qed
  ultimately show ?thesis using ss by blast
qed

lemma check_columns_ok:
  "(case v of JArr xs \<Rightarrow> if \<not> list_all is_str xs then [''COLUMNS_INVALID'']
      else (case kc of None \<Rightarrow> [] | Some cs \<Rightarrow>
              if list_ex (\<lambda>x. the_str x \<notin> cs) xs then [''COLUMN_NOT_FOUND''] else [])
    | _ \<Rightarrow> [''COLUMNS_INVALID'']) = [] \<longleftrightarrow>
   (\<exists>xs. v = JArr (map JStr xs) \<and> (\<forall>cs. kc = Some cs \<longrightarrow> set xs \<subseteq> cs))"
proof (cases v)
  case (JArr xs)
  show ?thesis
  proof (cases "list_all is_str xs")
    case True
    then show ?thesis
      using columns_found [OF True] strs_of [of xs] JArr by (cases kc) auto
  next
    case False
    then show ?thesis using strs_of [of xs] JArr by auto
  qed
qed simp_all

lemma check_format_ok: "check_format v spec kc = [] \<longleftrightarrow> format_ok kc spec v"
proof (cases "sp_format spec")
  case None
  then show ?thesis by (simp add: check_format_def format_ok_def)
next
  case (Some fmt)
  consider "fmt = ''column''" | "fmt = ''columns''" | "fmt = ''expression''" | "fmt = ''dataset_ref''"
    | "fmt = ''key_value''" | "fmt \<notin> {''column'', ''columns'', ''expression'', ''dataset_ref'', ''key_value''}"
    by blast
  then show ?thesis
  proof cases
    case 1
    then show ?thesis
      using Some by (cases v; cases kc) (simp_all add: check_format_def format_ok_def FORMATS_def is_str_def the_str_def)
  next
    case 2
    then show ?thesis
      using Some check_columns_ok [where v = v and kc = kc] by (simp add: check_format_def format_ok_def FORMATS_def)
  next
    case 3
    then show ?thesis
      using Some by (cases v) (simp_all add: check_format_def format_ok_def FORMATS_def is_str_def the_str_def)
  next
    case 4
    then show ?thesis
      using Some by (cases v) (simp_all add: check_format_def format_ok_def FORMATS_def is_str_def the_str_def)
  next
    case 5
    show ?thesis
    proof (cases v)
      case (JObj kvs)
      then show ?thesis
        using 5 Some str_map_of [of kvs] by (simp add: check_format_def format_ok_def FORMATS_def)
    qed (use 5 Some in \<open>simp_all add: check_format_def format_ok_def FORMATS_def\<close>)
  next
    case 6
    then show ?thesis using Some by (simp add: check_format_def format_ok_def)
  qed
qed

text \<open>C20. The parameters of a node are reported clean exactly when every given parameter is declared
  and every declared parameter that is not hidden for the model type is either absent and not required
  now, or present with a value of its declared type, within its bounds, and of its declared format.\<close>

theorem validate_params_clean:
  "validate_params str_of alias provided schema model_type require_present known_columns = [] \<longleftrightarrow>
     (\<forall>(key, v) \<in> set provided. map_of schema key \<noteq> None) \<and>
     (\<forall>(name, spec) \<in> set schema. \<not> hidden model_type spec \<longrightarrow>
        (case map_of provided name of
           None \<Rightarrow> \<not> (sp_required spec \<and> require_present)
         | Some v \<Rightarrow>
             (let ptype = (case sp_type spec of None \<Rightarrow> ''string'' | Some t \<Rightarrow> t)
              in ptype \<in> set TYPES \<longrightarrow> type_ok str_of ptype spec v) \<and>
             format_ok known_columns spec v))"
proof -
  have "check_param str_of model_type require_present known_columns provided name spec = [] \<longleftrightarrow>
     (\<not> hidden model_type spec \<longrightarrow>
        (case map_of provided name of
           None \<Rightarrow> \<not> (sp_required spec \<and> require_present)
         | Some v \<Rightarrow>
             (let ptype = (case sp_type spec of None \<Rightarrow> ''string'' | Some t \<Rightarrow> t)
              in ptype \<in> set TYPES \<longrightarrow> type_ok str_of ptype spec v) \<and>
             format_ok known_columns spec v))" for name spec
    by (auto simp: check_param_def Let_def check_type_ok check_format_ok split: option.split)
  then show ?thesis
    unfolding validate_params_def append_is_Nil_conv
    by (simp add: filter_empty_conv case_prod_unfold)
qed

definition demo_spec :: param_spec where
  "demo_spec = \<lparr>sp_type = Some ''int'', sp_required = True, sp_hide_for = [], sp_format = None,
     sp_minimum = Some 1, sp_maximum = Some 10, sp_enum = None, sp_min_length = None,
     sp_max_length = None, sp_min_items = None, sp_max_items = None, sp_unique_items = False\<rparr>"

theorem validate_params_clean_witness:
  "validate_params (\<lambda>_. []) ''n'' [(''k'', JInt 5)] [(''k'', demo_spec)] None True None = [] \<and>
   type_ok (\<lambda>_. []) ''int'' demo_spec (JInt 5)"
proof -
  have "validate_params (\<lambda>_. []) ''n'' [(''k'', JInt 5)] [(''k'', demo_spec)] None True None = []"
    by code_simp
  with validate_params_clean [of "\<lambda>_. []" "''n''" "[(''k'', JInt 5)]" "[(''k'', demo_spec)]" None True None]
  show ?thesis by (simp add: demo_spec_def hidden_def TYPES_def Let_def)
qed

end
