(* ===== verification/Pipeline_Dag.thy ===== *)
theory Pipeline_Dag
  imports Pipeline_Graph Pipeline_Params
begin

text \<open>
  Validation of pipeline definitions (\<open>services/pipeline-orchestrator/app/domain/dag.py\<close>) and
  the effective resources of their nodes (\<open>app/domain/resources.py\<close>).

  A node, an edge and a catalog component are records of the JSON fields the code reads; a missing
  list is the empty one, which the code treats alike, and so is a missing \<open>resources\<close> object and an
  empty one (\<open>None\<close>). Resource values are whole numbers and output dataset names strings. Report items carry code, alias, field and
  cycle; the problem text is left out.
\<close>

subsection \<open>Definitions and components\<close>

record resources =
  rs_cpus :: int
  rs_ram_gb :: int
  rs_timeout_minutes :: int

record explicit_resources =
  er_cpus :: "int option"
  er_ram_gb :: "int option"
  er_timeout_minutes :: "int option"

record dag_node =
  nd_alias :: string
  nd_component :: "string option"
  nd_outputs :: "(string \<times> string) list"
  nd_parameters :: "(string, json) dict"
  nd_resources :: "explicit_resources option"

record dag_edge =
  ed_from :: string
  ed_to :: string
  ed_type :: "string option"

record component =
  co_enabled :: bool
  co_outputs :: "(string \<times> string) list"
  co_input_type :: "string option"
  co_min_inputs :: int
  co_max_inputs :: int
  co_max_outputs :: int
  co_parameters :: "(string, param_spec) dict"

datatype pipeline_type = Pt_data_prep | Pt_feature_engineering | Pt_model | Pt_training
  | Pt_inference | Pt_profiling | Pt_scheduled

definition NON_RUNNABLE_TYPES :: "pipeline_type list" where
  "NON_RUNNABLE_TYPES = [Pt_model, Pt_feature_engineering]"

definition PORT_TYPES :: "string list" where
  "PORT_TYPES = [''dataframe'', ''model'', ''metrics'', ''json'', ''dataset_ref'']"

record validation_report =
  vr_valid :: bool
  vr_items :: "report_item list"
  vr_effective_resources :: "(string, resources) dict"

definition new_report :: validation_report where
  "new_report = \<lparr>vr_valid = True, vr_items = [], vr_effective_resources = []\<rparr>"

definition add_item :: "validation_report \<Rightarrow> report_item \<Rightarrow> validation_report" where
  "add_item r item = r\<lparr>vr_valid := False, vr_items := vr_items r @ [item]\<rparr>"

definition item :: "string \<Rightarrow> string option \<Rightarrow> string option \<Rightarrow> report_item" where
  "item code alias field = \<lparr>ri_code = code, ri_alias = alias, ri_field = field, ri_cycle = None\<rparr>"

definition add_items :: "validation_report \<Rightarrow> report_item list \<Rightarrow> validation_report" where
  "add_items r items = foldl add_item r items"

subsection \<open>Aliases, endpoints and port types\<close>

definition alias_inner :: "char \<Rightarrow> bool" where
  "alias_inner c \<longleftrightarrow> ascii_letter c \<or> ascii_digit c \<or> c \<in> set ''-._ ''"

definition alnum :: "char \<Rightarrow> bool" where
  "alnum c \<longleftrightarrow> ascii_letter c \<or> ascii_digit c"

definition alias_ok :: "string \<Rightarrow> bool" where
  "alias_ok s =
     (let body = (if s \<noteq> [] \<and> last s = CHR 0x0A then butlast s else s)
      in body \<noteq> [] \<and> list_all alias_inner body \<and> alnum (hd body) \<and> alnum (last body))"

definition edge_endpoint :: "string \<Rightarrow> string \<times> string" where
  "edge_endpoint ref =
     (let port = rev (takeWhile (\<lambda>c. c \<noteq> CHR ''.'') (rev ref));
          alias = (if CHR ''.'' \<in> set ref then take (length ref - length port - 1) ref else [])
      in if alias = [] then (ref, []) else (alias, port))"

definition component_of :: "(string, component) dict \<Rightarrow> dag_node \<Rightarrow> component option" where
  "component_of components node =
     (case nd_component node of None \<Rightarrow> None | Some c \<Rightarrow> map_of components c)"

definition output_type :: "dag_node \<Rightarrow> component option \<Rightarrow> string \<Rightarrow> string option" where
  "output_type node cdef port =
     (let outs = (if nd_outputs node \<noteq> [] then nd_outputs node
                  else (case cdef of None \<Rightarrow> [] | Some c \<Rightarrow> co_outputs c))
      in case map_of outs port of
           Some t \<Rightarrow> Some t
         | None \<Rightarrow> (case outs of [(name, t)] \<Rightarrow> if port = [] \<or> port = name then Some t else None
                   | _ \<Rightarrow> None))"

definition input_type :: "component option \<Rightarrow> string" where
  "input_type cdef =
     (case cdef of None \<Rightarrow> ''dataframe''
      | Some c \<Rightarrow> (case co_input_type c of None \<Rightarrow> ''dataframe'' | Some t \<Rightarrow> t))"

subsection \<open>Resources\<close>

definition DEFAULTS :: resources where
  "DEFAULTS = \<lparr>rs_cpus = 1, rs_ram_gb = 2, rs_timeout_minutes = 30\<rparr>"

definition FLOOR :: resources where
  "FLOOR = \<lparr>rs_cpus = 1, rs_ram_gb = 2, rs_timeout_minutes = 5\<rparr>"

definition PLATFORM_CEILING :: resources where
  "PLATFORM_CEILING = \<lparr>rs_cpus = 7, rs_ram_gb = 24, rs_timeout_minutes = 480\<rparr>"

definition res_map2 :: "(int \<Rightarrow> int \<Rightarrow> int) \<Rightarrow> resources \<Rightarrow> resources \<Rightarrow> resources" where
  "res_map2 f a b = \<lparr>rs_cpus = f (rs_cpus a) (rs_cpus b), rs_ram_gb = f (rs_ram_gb a) (rs_ram_gb b),
     rs_timeout_minutes = f (rs_timeout_minutes a) (rs_timeout_minutes b)\<rparr>"

definition res_le :: "resources \<Rightarrow> resources \<Rightarrow> bool" where
  "res_le a b \<longleftrightarrow> rs_cpus a \<le> rs_cpus b \<and> rs_ram_gb a \<le> rs_ram_gb b \<and>
     rs_timeout_minutes a \<le> rs_timeout_minutes b"

definition opt_or :: "int option \<Rightarrow> int \<Rightarrow> int" where
  "opt_or x d = (case x of None \<Rightarrow> d | Some v \<Rightarrow> v)"

definition fill :: "explicit_resources \<Rightarrow> resources \<Rightarrow> resources" where
  "fill e d = \<lparr>rs_cpus = opt_or (er_cpus e) (rs_cpus d), rs_ram_gb = opt_or (er_ram_gb e) (rs_ram_gb d),
     rs_timeout_minutes = opt_or (er_timeout_minutes e) (rs_timeout_minutes d)\<rparr>"

definition eff_ceiling :: "explicit_resources \<Rightarrow> resources" where
  "eff_ceiling quota = res_map2 min (fill quota PLATFORM_CEILING) PLATFORM_CEILING"

definition clamp :: "explicit_resources \<Rightarrow> resources \<Rightarrow> resources" where
  "clamp quota res = res_map2 max FLOOR (res_map2 min res (eff_ceiling quota))"

definition preds :: "(string \<times> string) list \<Rightarrow> string \<Rightarrow> string list" where
  "preds edges b = map fst (filter (\<lambda>(_, y). y = b) edges)"

definition max_of :: "resources list \<Rightarrow> resources" where
  "max_of rs = (case rs of [] \<Rightarrow> DEFAULTS | r # rest \<Rightarrow> foldl (res_map2 max) r rest)"

definition own_resources ::
    "dag_node \<Rightarrow> string list \<Rightarrow> (string, resources) dict \<Rightarrow> resources" where
  "own_resources node ps effective =
     (case nd_resources node of
        Some e \<Rightarrow> fill e DEFAULTS
      | None \<Rightarrow> if ps \<noteq> [] then max_of (List.map_filter (map_of effective) ps) else DEFAULTS)"

fun resolve_loop ::
    "(string, dag_node) dict \<Rightarrow> (string \<times> string) list \<Rightarrow> explicit_resources \<Rightarrow> string list \<Rightarrow>
     (string, resources) dict \<Rightarrow> (string, resources) dict" where
  "resolve_loop nodes edges quota [] effective = effective"
| "resolve_loop nodes edges quota (alias # rest) effective =
     resolve_loop nodes edges quota rest
       (AList.update alias
          (clamp quota (own_resources (the (map_of nodes alias)) (preds edges alias) effective)) effective)"

definition resolve_resources ::
    "(string, dag_node) dict \<Rightarrow> (string \<times> string) list \<Rightarrow> explicit_resources \<Rightarrow> (string, resources) dict" where
  "resolve_resources nodes edges quota =
     (case topo_order (map fst nodes) edges of
        None \<Rightarrow> []
      | Some order \<Rightarrow> resolve_loop nodes edges quota order [])"

subsection \<open>Validation passes\<close>

fun alias_pass :: "dag_node list \<Rightarrow> (string, dag_node) dict \<Rightarrow> report_item list \<Rightarrow> (string, dag_node) dict \<times> report_item list" where
  "alias_pass [] by_alias items = (by_alias, items)"
| "alias_pass (node # nodes) by_alias items =
     (let alias = nd_alias node;
          bad_alias = (if \<not> alias_ok alias
                       then [item ''INVALID_ALIAS'' (if alias = [] then None else Some alias) None] else []);
          dup = (if map_of by_alias alias \<noteq> None then [item ''DUPLICATE_ALIAS'' (Some alias) None] else [])
      in alias_pass nodes (AList.update alias node by_alias) (items @ bad_alias @ dup))"

definition component_pass :: "(string, component) dict \<Rightarrow> (string, dag_node) dict \<Rightarrow> report_item list" where
  "component_pass components by_alias =
     concat (map (\<lambda>(alias, node).
       case component_of components node of
         None \<Rightarrow> [item ''COMPONENT_NOT_AVAILABLE'' (Some alias) None]
       | Some cdef \<Rightarrow> if \<not> co_enabled cdef then [item ''COMPONENT_NOT_AVAILABLE'' (Some alias) None] else [])
       by_alias)"

definition edge_field :: "nat \<Rightarrow> string" where
  "edge_field i = ''edges['' @ py_str_nat i @ '']''"

definition edge_items ::
    "(string, component) dict \<Rightarrow> (string, dag_node) dict \<Rightarrow> nat \<Rightarrow> dag_edge \<Rightarrow>
     (string \<times> string) option \<times> report_item list" where
  "edge_items components by_alias i edge =
     (case edge_endpoint (ed_from edge) of (fa, fp) \<Rightarrow>
      case edge_endpoint (ed_to edge) of (ta, _) \<Rightarrow>
        (case map_of by_alias fa of
           None \<Rightarrow> (None, [item ''DANGLING_EDGE'' None (Some (edge_field i))])
         | Some fnode \<Rightarrow>
             (case map_of by_alias ta of
                None \<Rightarrow> (None, [item ''DANGLING_EDGE'' None (Some (edge_field i))])
              | Some tnode \<Rightarrow>
                  (let prod_type = output_type fnode (component_of components fnode) fp;
                       cons_type = input_type (component_of components tnode)
                   in (Some (fa, ta),
                       (case ed_type edge of
                          None \<Rightarrow> []
                        | Some t \<Rightarrow> if t \<noteq> [] \<and> t \<notin> set PORT_TYPES
                                    then [item ''EDGE_TYPE_MISMATCH'' None (Some (edge_field i))] else []) @
                       (case prod_type of
                          None \<Rightarrow> []
                        | Some t \<Rightarrow> if t \<noteq> [] \<and> cons_type \<noteq> [] \<and> t \<noteq> cons_type
                                    then [item ''EDGE_TYPE_MISMATCH'' None (Some (edge_field i))] else []))))))"

fun edge_pass ::
    "(string, component) dict \<Rightarrow> (string, dag_node) dict \<Rightarrow> nat \<Rightarrow> dag_edge list \<Rightarrow>
     (string \<times> string) list \<times> report_item list" where
  "edge_pass components by_alias i [] = ([], [])"
| "edge_pass components by_alias i (e # es) =
     (case edge_items components by_alias i e of (topo, items) \<Rightarrow>
      case edge_pass components by_alias (Suc i) es of (topo', items') \<Rightarrow>
        ((case topo of None \<Rightarrow> topo' | Some p \<Rightarrow> p # topo'), items @ items'))"

definition in_count :: "(string \<times> string) list \<Rightarrow> string \<Rightarrow> int" where
  "in_count edges alias = int (length (filter (\<lambda>(_, b). b = alias) edges))"

definition out_count :: "(string \<times> string) list \<Rightarrow> string \<Rightarrow> int" where
  "out_count edges alias = int (length (filter (\<lambda>(a, _). a = alias) edges))"

definition cycle_pass :: "(string, dag_node) dict \<Rightarrow> (string \<times> string) list \<Rightarrow> report_item list" where
  "cycle_pass by_alias edges =
     (case find_cycle (map fst by_alias) edges of
        Some (Some c) \<Rightarrow> [(item ''DAG_CYCLE'' None (Some ''edges''))\<lparr>ri_cycle := Some c\<rparr>]
      | _ \<Rightarrow> [])"

definition arity_pass ::
    "(string, component) dict \<Rightarrow> (string, dag_node) dict \<Rightarrow> (string \<times> string) list \<Rightarrow> report_item list" where
  "arity_pass components by_alias edges =
     concat (map (\<lambda>(alias, node).
       case component_of components node of
         None \<Rightarrow> []
       | Some cdef \<Rightarrow>
           (if \<not> (co_min_inputs cdef \<le> in_count edges alias \<and> in_count edges alias \<le> co_max_inputs cdef)
            then [item ''ARITY_VIOLATION'' (Some alias) None] else []) @
           (let declared = (if nd_outputs node \<noteq> [] then nd_outputs node else co_outputs cdef)
            in if int (length declared) > co_max_outputs cdef
               then [item ''ARITY_VIOLATION'' (Some alias) None] else [])) by_alias)"

definition param_pass ::
    "(json \<Rightarrow> string) \<Rightarrow> (string, component) dict \<Rightarrow> (string, dag_node) dict \<Rightarrow> string option \<Rightarrow> string \<Rightarrow>
     string set option \<Rightarrow> report_item list" where
  "param_pass str_of components by_alias model_type mode known_columns =
     concat (map (\<lambda>(alias, node).
       case component_of components node of
         None \<Rightarrow> []
       | Some cdef \<Rightarrow> validate_params str_of alias (nd_parameters node) (co_parameters cdef) model_type
                        (mode = ''all'') known_columns) by_alias)"

definition is_write :: "string option \<Rightarrow> bool" where
  "is_write c \<longleftrightarrow> c = Some ''write-to-warehouse''"

definition is_batch_write :: "string option \<Rightarrow> bool" where
  "is_batch_write c \<longleftrightarrow> c = Some ''batch-write-to-warehouse''"

definition output_name :: "dag_node \<Rightarrow> string option" where
  "output_name node =
     (case map_of (nd_parameters node) ''output_dataset_name'' of
        Some (JStr s) \<Rightarrow> if s = [] then None else Some s | _ \<Rightarrow> None)"

fun write_names :: "(string, dag_node) dict \<Rightarrow> string list \<Rightarrow> report_item list" where
  "write_names [] seen = []"
| "write_names ((alias, node) # ns) seen =
     (if is_write (nd_component node) \<or> is_batch_write (nd_component node)
      then (case output_name node of
              None \<Rightarrow> write_names ns seen
            | Some name \<Rightarrow>
                if name \<in> set seen
                then item ''DUPLICATE_OUTPUT_NAME'' (Some alias) None # write_names ns seen
                else write_names ns (name # seen))
      else write_names ns seen)"

definition bad_terminals :: "(string option \<Rightarrow> bool) \<Rightarrow> (string, dag_node) dict \<Rightarrow> (string \<times> string) list \<Rightarrow> report_item list" where
  "bad_terminals allowed by_alias edges =
     map (\<lambda>(a, _). item ''INVALID_TERMINAL'' (Some a) None)
       (filter (\<lambda>(a, node). out_count edges a = 0 \<and> \<not> allowed (nd_component node)) by_alias)"

definition has_component :: "string \<Rightarrow> (string, dag_node) dict \<Rightarrow> bool" where
  "has_component c by_alias = list_ex (\<lambda>(_, node). nd_component node = Some c) by_alias"

definition validate_terminals ::
    "(string, dag_node) dict \<Rightarrow> (string \<times> string) list \<Rightarrow> pipeline_type \<Rightarrow> report_item list" where
  "validate_terminals by_alias edges pipeline_type =
     (if pipeline_type \<in> set NON_RUNNABLE_TYPES
      then (if pipeline_type = Pt_feature_engineering
            then bad_terminals (\<lambda>c. is_write c \<or> c = Some ''model-input'' \<or> c = Some ''comment'') by_alias edges
            else []) @ write_names by_alias []
      else if pipeline_type = Pt_scheduled
      then (if \<not> has_component ''batch-read-from-warehouse'' by_alias then [item ''MISSING_READ'' None None] else []) @
           bad_terminals (\<lambda>c. is_batch_write c \<or> c = Some ''comment'') by_alias edges @ write_names by_alias []
      else (if pipeline_type \<noteq> Pt_profiling \<and> \<not> has_component ''read-from-warehouse'' by_alias
            then [item ''MISSING_READ'' None None] else []) @
           (if pipeline_type = Pt_data_prep \<or> pipeline_type = Pt_inference
            then bad_terminals (\<lambda>c. is_write c \<or> c = Some ''comment'') by_alias edges else []) @
           write_names by_alias [])"

definition validate_definition ::
    "(json \<Rightarrow> string) \<Rightarrow> dag_node list \<Rightarrow> dag_edge list \<Rightarrow> pipeline_type \<Rightarrow> string option \<Rightarrow>
     (string, component) dict \<Rightarrow> explicit_resources \<Rightarrow> string \<Rightarrow> string set option \<Rightarrow> validation_report" where
  "validate_definition str_of nodes edges pipeline_type model_type components quota_ceiling mode known_columns =
     (if nodes = [] then add_item new_report (item ''EMPTY_DAG'' None None)
      else
        (case alias_pass nodes [] [] of (by_alias, alias_items) \<Rightarrow>
         case edge_pass components by_alias 0 edges of (topo_edges, edge_rep) \<Rightarrow>
           (add_items new_report
              (alias_items @ component_pass components by_alias @ edge_rep @
               cycle_pass by_alias topo_edges @ arity_pass components by_alias topo_edges @
               param_pass str_of components by_alias model_type mode known_columns @
               validate_terminals by_alias topo_edges pipeline_type))
           \<lparr>vr_effective_resources := resolve_resources by_alias topo_edges quota_ceiling\<rparr>))"

subsection \<open>When a definition is valid\<close>

definition arc :: "dag_edge \<Rightarrow> string \<times> string" where
  "arc e = (fst (edge_endpoint (ed_from e)), fst (edge_endpoint (ed_to e)))"

definition keyed :: "dag_node list \<Rightarrow> (string, dag_node) dict" where
  "keyed nodes = map (\<lambda>n. (nd_alias n, n)) nodes"

lemma keyed_simps [simp]:
  "fst ` set (keyed nodes) = nd_alias ` set nodes" "map fst (keyed nodes) = map nd_alias nodes"
  "dom (map_of (keyed nodes)) = nd_alias ` set nodes"
  by (auto simp: keyed_def comp_def image_image dom_map_of_conv_image_fst)

lemma add_items_valid [simp]: "vr_valid (add_items r items) \<longleftrightarrow> vr_valid r \<and> items = []"
  by (induction items rule: rev_induct) (auto simp: add_items_def add_item_def)

lemma alias_pass_ok:
  "snd (alias_pass nodes by_alias items) = [] \<longleftrightarrow>
     items = [] \<and> (\<forall>n \<in> set nodes. alias_ok (nd_alias n)) \<and> distinct (map nd_alias nodes) \<and>
     nd_alias ` set nodes \<inter> fst ` set by_alias = {}"
proof (induction nodes arbitrary: by_alias items)
  case (Cons n ns)
  have "map_of by_alias (nd_alias n) = None \<longleftrightarrow> nd_alias n \<notin> fst ` set by_alias"
    by (simp add: map_of_eq_None_iff)
  then show ?case by (auto simp: Cons.IH Let_def dom_update image_iff)
qed simp

lemma update_fresh: "k \<notin> fst ` set d \<Longrightarrow> AList.update k v d = d @ [(k, v)]"
  by (induction d) auto

lemma alias_pass_keyed:
  "distinct (map nd_alias nodes) \<Longrightarrow> nd_alias ` set nodes \<inter> fst ` set by_alias = {} \<Longrightarrow>
   fst (alias_pass nodes by_alias items) = by_alias @ keyed nodes"
  by (induction nodes arbitrary: by_alias items) (auto simp: keyed_def Let_def update_fresh)

lemma component_pass_ok:
  "component_pass components by_alias = [] \<longleftrightarrow>
     (\<forall>(a, n) \<in> set by_alias. \<exists>c. component_of components n = Some c \<and> co_enabled c)"
  by (simp add: component_pass_def, rule ball_cong [OF refl]) (auto split: option.splits if_splits)

definition edge_types_ok :: "(string, component) dict \<Rightarrow> (string, dag_node) dict \<Rightarrow> dag_edge \<Rightarrow> bool" where
  "edge_types_ok components by_alias e \<longleftrightarrow>
     (\<forall>t. ed_type e = Some t \<longrightarrow> t = [] \<or> t \<in> set PORT_TYPES) \<and>
     (\<forall>fnode tnode t. map_of by_alias (fst (arc e)) = Some fnode \<longrightarrow> map_of by_alias (snd (arc e)) = Some tnode \<longrightarrow>
        output_type fnode (component_of components fnode) (snd (edge_endpoint (ed_from e))) = Some t \<longrightarrow>
        t = [] \<or> input_type (component_of components tnode) = [] \<or> t = input_type (component_of components tnode))"

lemma edge_items_ok:
  "snd (edge_items components by_alias i e) = [] \<longleftrightarrow>
     fst (arc e) \<in> dom (map_of by_alias) \<and> snd (arc e) \<in> dom (map_of by_alias) \<and>
     edge_types_ok components by_alias e"
  by (auto simp: edge_items_def edge_types_ok_def arc_def Let_def split: prod.splits option.splits if_splits)

lemma edge_items_arc:
  "snd (edge_items components by_alias i e) = [] \<Longrightarrow> fst (edge_items components by_alias i e) = Some (arc e)"
  by (auto simp: edge_items_def arc_def Let_def split: prod.splits option.splits if_splits)

lemma edge_pass_ok:
  "snd (edge_pass components by_alias i es) = [] \<longleftrightarrow>
     (\<forall>e \<in> set es. fst (arc e) \<in> dom (map_of by_alias) \<and> snd (arc e) \<in> dom (map_of by_alias) \<and>
        edge_types_ok components by_alias e)"
proof (induction es arbitrary: i)
  case (Cons e es)
  obtain t items t' items' where p: "edge_items components by_alias i e = (t, items)"
    "edge_pass components by_alias (Suc i) es = (t', items')" by fastforce
  then have "snd (edge_pass components by_alias i (e # es)) = [] \<longleftrightarrow> items = [] \<and> items' = []" by simp
  then show ?case using edge_items_ok [of components by_alias i e] Cons.IH [of "Suc i"] p by simp
qed simp

lemma edge_pass_arcs:
  "snd (edge_pass components by_alias i es) = [] \<Longrightarrow> fst (edge_pass components by_alias i es) = map arc es"
proof (induction es arbitrary: i)
  case (Cons e es)
  obtain t items t' items' where p: "edge_items components by_alias i e = (t, items)"
    "edge_pass components by_alias (Suc i) es = (t', items')" by fastforce
  then have "t = Some (arc e)" "t' = map arc es"
    using edge_items_arc [of components by_alias i e] Cons.IH [of "Suc i"] Cons.prems by simp_all
  with p show ?case by simp
qed simp

lemma edge_pass_range: "set (fst (edge_pass components by_alias i es)) \<subseteq> dom (map_of by_alias) \<times> dom (map_of by_alias)"
proof (induction es arbitrary: i)
  case (Cons e es)
  have "set_option (fst (edge_items components by_alias i e)) \<subseteq> dom (map_of by_alias) \<times> dom (map_of by_alias)"
    by (auto simp: edge_items_def Let_def split: prod.splits option.splits)
  then show ?case using Cons.IH [of "Suc i"] by (auto split: prod.splits option.splits)
qed simp

lemma arity_pass_ok:
  "arity_pass components by_alias edges = [] \<longleftrightarrow>
     (\<forall>(a, n) \<in> set by_alias. \<forall>c. component_of components n = Some c \<longrightarrow>
        co_min_inputs c \<le> in_count edges a \<and> in_count edges a \<le> co_max_inputs c \<and>
        int (length (if nd_outputs n \<noteq> [] then nd_outputs n else co_outputs c)) \<le> co_max_outputs c)"
  by (simp add: arity_pass_def Let_def, rule ball_cong [OF refl]) (auto split: option.splits if_splits)

lemma param_pass_ok:
  "param_pass str_of components by_alias model_type mode known = [] \<longleftrightarrow>
     (\<forall>(a, n) \<in> set by_alias. \<forall>c. component_of components n = Some c \<longrightarrow>
        validate_params str_of a (nd_parameters n) (co_parameters c) model_type (mode = ''all'') known = [])"
  by (simp add: param_pass_def, rule ball_cong [OF refl]) (auto split: option.splits)

lemma cycle_pass_ok:
  assumes "set edges \<subseteq> fst ` set by_alias \<times> fst ` set by_alias"
  shows "cycle_pass by_alias edges = [] \<longleftrightarrow> acyclic (set edges)"
  using find_cycle_total [of edges "map fst by_alias"] assms cycle_not_acyclic [of "set edges"]
  by (auto simp: cycle_pass_def split: option.splits)

subsection \<open>Terminals and outputs\<close>

definition written :: "(string, dag_node) dict \<Rightarrow> string list" where
  "written by_alias =
     List.map_filter output_name
       (filter (\<lambda>n. is_write (nd_component n) \<or> is_batch_write (nd_component n)) (map snd by_alias))"

lemma write_names_ok:
  "write_names ns seen = [] \<longleftrightarrow> distinct (written ns) \<and> set (written ns) \<inter> set seen = {}"
  by (induction ns seen rule: write_names.induct)
    (auto simp: written_def map_filter_simps split: option.splits)

definition sink :: "(string \<times> string) list \<Rightarrow> string \<Rightarrow> bool" where
  "sink edges a \<longleftrightarrow> (\<forall>b. (a, b) \<notin> set edges)"

lemma out_count_zero: "out_count edges a = 0 \<longleftrightarrow> sink edges a"
  by (auto simp: out_count_def sink_def filter_empty_conv)

fun terminal_allowed :: "pipeline_type \<Rightarrow> string option \<Rightarrow> bool" where
  "terminal_allowed Pt_feature_engineering c \<longleftrightarrow>
     c \<in> {Some ''write-to-warehouse'', Some ''model-input'', Some ''comment''}"
| "terminal_allowed Pt_scheduled c \<longleftrightarrow> c \<in> {Some ''batch-write-to-warehouse'', Some ''comment''}"
| "terminal_allowed Pt_data_prep c \<longleftrightarrow> c \<in> {Some ''write-to-warehouse'', Some ''comment''}"
| "terminal_allowed Pt_inference c \<longleftrightarrow> c \<in> {Some ''write-to-warehouse'', Some ''comment''}"
| "terminal_allowed _ _ \<longleftrightarrow> True"

fun read_component :: "pipeline_type \<Rightarrow> string option" where
  "read_component Pt_scheduled = Some ''batch-read-from-warehouse''"
| "read_component Pt_data_prep = Some ''read-from-warehouse''"
| "read_component Pt_inference = Some ''read-from-warehouse''"
| "read_component Pt_training = Some ''read-from-warehouse''"
| "read_component _ = None"

definition terminals_ok :: "(string, dag_node) dict \<Rightarrow> (string \<times> string) list \<Rightarrow> pipeline_type \<Rightarrow> bool" where
  "terminals_ok by_alias edges pt \<longleftrightarrow>
     (\<forall>(a, n) \<in> set by_alias. sink edges a \<longrightarrow> terminal_allowed pt (nd_component n)) \<and>
     (\<forall>c. read_component pt = Some c \<longrightarrow> (\<exists>(a, n) \<in> set by_alias. nd_component n = Some c)) \<and>
     distinct (written by_alias)"

lemma bad_terminals_ok:
  "bad_terminals allowed by_alias edges = [] \<longleftrightarrow>
     (\<forall>(a, n) \<in> set by_alias. sink edges a \<longrightarrow> allowed (nd_component n))"
  by (auto simp: bad_terminals_def filter_empty_conv out_count_zero)

lemma validate_terminals_ok: "validate_terminals by_alias edges pt = [] \<longleftrightarrow> terminals_ok by_alias edges pt"
  by (cases pt)
    (auto simp: validate_terminals_def terminals_ok_def NON_RUNNABLE_TYPES_def write_names_ok
      bad_terminals_ok has_component_def list_ex_iff is_write_def is_batch_write_def)

lemma keyed_ball: "(\<forall>(a, n) \<in> set (keyed nodes). P a n) \<longleftrightarrow> (\<forall>n \<in> set nodes. P (nd_alias n) n)"
  by (auto simp: keyed_def)

lemma some_ball_conj:
  "(\<forall>n \<in> S. \<exists>c. f n = Some c \<and> P c \<and> A n c \<and> B n c \<and> C n c \<and> V n c) \<longleftrightarrow>
     (\<forall>n \<in> S. \<exists>c. f n = Some c \<and> P c) \<and> (\<forall>n \<in> S. \<forall>c. f n = Some c \<longrightarrow> A n c \<and> B n c \<and> C n c) \<and>
     (\<forall>n \<in> S. \<forall>c. f n = Some c \<longrightarrow> V n c)"
  by fastforce

lemma conj_known:
  "I \<Longrightarrow> N \<and> D \<and> L \<Longrightarrow> E \<Longrightarrow> (C \<and> I \<and> Y \<and> A \<and> P \<and> T) \<longleftrightarrow> (N \<and> D \<and> L \<and> E \<and> Y \<and> (C \<and> A \<and> P) \<and> T)"
  by blast



subsection \<open>Effective resources\<close>

lemma res_le_trans: "res_le a b \<Longrightarrow> res_le b c \<Longrightarrow> res_le a c"
  by (auto simp: res_le_def)

lemma clamp_range:
  "res_le FLOOR (clamp quota r)" "res_le (clamp quota r) (res_map2 max FLOOR (eff_ceiling quota))"
  by (auto simp: clamp_def res_le_def res_map2_def)

lemma clamp_idem:
  "res_le FLOOR r \<Longrightarrow> res_le r (res_map2 max FLOOR (eff_ceiling quota)) \<Longrightarrow> clamp quota r = r"
  by (cases r) (auto simp: clamp_def res_le_def res_map2_def max_def min_def)

lemma max_fold_bounds:
  "res_le r (foldl (res_map2 max) r rs) \<and> (\<forall>x \<in> set rs. res_le x (foldl (res_map2 max) r rs)) \<and>
   (res_le r b \<longrightarrow> (\<forall>x \<in> set rs. res_le x b) \<longrightarrow> res_le (foldl (res_map2 max) r rs) b)"
proof (induction rs arbitrary: r)
  case Nil
  then show ?case by (simp add: res_le_def)
next
  case (Cons y ys)
  have up: "res_le r (res_map2 max r y)" "res_le y (res_map2 max r y)"
    and lub: "res_le r b \<Longrightarrow> res_le y b \<Longrightarrow> res_le (res_map2 max r y) b"
    by (auto simp: res_le_def res_map2_def)
  show ?case using Cons.IH [of "res_map2 max r y"] up lub by (auto intro: res_le_trans)
qed

lemma max_of_upper: "x \<in> set rs \<Longrightarrow> res_le x (max_of rs)"
  by (cases rs) (use max_fold_bounds in \<open>auto simp: max_of_def\<close>)

lemma max_of_least: "rs \<noteq> [] \<Longrightarrow> \<forall>x \<in> set rs. res_le x b \<Longrightarrow> res_le (max_of rs) b"
  by (cases rs) (use max_fold_bounds in \<open>auto simp: max_of_def\<close>)

lemma resolve_loop_snoc:
  "resolve_loop nodes edges quota (ord @ [a]) eff =
     (let eff' = resolve_loop nodes edges quota ord eff
      in AList.update a (clamp quota (own_resources (the (map_of nodes a)) (preds edges a) eff')) eff')"
  by (induction ord arbitrary: eff) (simp_all add: Let_def)

lemma preds_set: "p \<in> set (preds edges a) \<longleftrightarrow> (p, a) \<in> set edges"
  by (force simp: preds_def)

lemma own_resources_cong:
  "(\<And>p. p \<in> set ps \<Longrightarrow> map_of eff p = map_of eff' p) \<Longrightarrow> own_resources n ps eff = own_resources n ps eff'"
proof -
  assume "\<And>p. p \<in> set ps \<Longrightarrow> map_of eff p = map_of eff' p"
  then have "List.map_filter (map_of eff) ps = List.map_filter (map_of eff') ps"
    by (induction ps) (auto simp: map_filter_simps split: option.splits)
  then show ?thesis by (simp add: own_resources_def split: option.splits)
qed

lemma resolve_loop_fixpoint:
  fixes nodes :: "(string, dag_node) dict" and quota :: explicit_resources
  assumes "distinct ord" and "preds_first edges ord"
  defines "eff \<equiv> resolve_loop nodes edges quota ord []"
  shows "dom (map_of eff) = set ord \<and>
     (\<forall>a \<in> set ord. set (preds edges a) \<subseteq> set ord \<and>
        map_of eff a = Some (clamp quota (own_resources (the (map_of nodes a)) (preds edges a) eff)))"
  using assms(1,2) unfolding eff_def
proof (induction ord rule: rev_induct)
  case Nil
  then show ?case by simp
next
  case (snoc a ord)
  let ?e = "resolve_loop nodes edges quota ord []" and ?e' = "resolve_loop nodes edges quota (ord @ [a]) []"
  have "preds_first edges ord" using snoc.prems(2) by (fastforce simp: preds_first_def nth_append)
  with snoc have ih: "dom (map_of ?e) = set ord"
      "\<And>b. b \<in> set ord \<Longrightarrow> set (preds edges b) \<subseteq> set ord \<and>
        map_of ?e b = Some (clamp quota (own_resources (the (map_of nodes b)) (preds edges b) ?e))"
    by simp_all
  have pa: "set (preds edges a) \<subseteq> set ord"
    using snoc.prems(2) by (auto simp: preds_first_def preds_set nth_append dest!: spec [of _ "length ord"])
  have new: "a \<notin> set ord" using snoc.prems(1) by simp
  have same: "map_of ?e' b = map_of ?e b" if "b \<in> set ord" for b
    using that new by (auto simp: resolve_loop_snoc Let_def update_conv')
  have own: "own_resources n (preds edges b) ?e' = own_resources n (preds edges b) ?e"
    if "set (preds edges b) \<subseteq> set ord" for n b
    using that same by (intro own_resources_cong) auto
  have "map_of ?e' a = Some (clamp quota (own_resources (the (map_of nodes a)) (preds edges a) ?e))"
    by (simp add: resolve_loop_snoc Let_def update_conv')
  moreover have "dom (map_of ?e') = insert a (set ord)"
    using ih(1) by (simp add: resolve_loop_snoc Let_def update_conv' insert_commute)
  ultimately show ?case using ih(2) pa same own by (simp add: subset_insertI2)
qed

lemma topo_preds_first:
  assumes "distinct ks" and "set edges \<subseteq> set ks \<times> set ks" and "acyclic (set edges)"
  shows "\<exists>ord. topo_order ks edges = Some ord \<and> distinct ord \<and> set ord = set ks \<and> preds_first edges ord"
  using topo_order_spec [OF assms(1), of edges] assms(2,3) unfolding preds_first_def by blast

lemma map_filter_total:
  "(\<And>x. x \<in> set xs \<Longrightarrow> f x \<noteq> None) \<Longrightarrow> List.map_filter f xs = map (the \<circ> f) xs"
  by (induction xs) (auto simp: map_filter_simps split: option.splits)


definition demo_node :: "string \<Rightarrow> explicit_resources option \<Rightarrow> dag_node" where
  "demo_node a r = \<lparr>nd_alias = a, nd_component = None, nd_outputs = [], nd_parameters = [], nd_resources = r\<rparr>"


text \<open>The clamp applies the ceiling first and the floor last, although its comment names the other
  order: a tenant ceiling below the floor is exceeded.\<close>

lemma floor_over_ceiling:
  "er_ram_gb quota = Some c \<Longrightarrow> c < rs_ram_gb FLOOR \<Longrightarrow> c < rs_ram_gb (clamp quota r)"
  by (simp add: clamp_def res_map2_def)

end
