(* ===== verification/Semantic_Joins.thy ===== *)
theory Semantic_Joins
  imports Prelude
begin

text \<open>
  How the metric compiler of the semantic service joins entities
  (\<open>services/semantic-service/app/compiler/compiler.py\<close>: \<open>_paths_between\<close>, \<open>_resolve_joins\<close>,
  \<open>_aliases\<close>). Joins are never inferred: they follow the declared join paths, each a directed edge from
  one entity to another, and a target that can be reached in two ways is refused.

  The main result is that what \<open>_resolve_joins\<close> returns is a tree rooted in the base entity, in an order
  in which it can be written: every hop starts at an entity that is already joined and leads to one that
  is not, so no entity is joined twice and every alias of the FROM clause is defined once.
\<close>

subsection \<open>Errors and declared joins\<close>

text \<open>The errors of the service; the \<open>Py\<close> ones are Python's own, which no handler expects.\<close>

datatype semantic_error =
    Validation_failed
  | Limit_exceeded
  | Unknown_metric
  | Unknown_dimension
  | Unknown_grain
  | Expression_not_allowed
  | Ambiguous_join_path "string list list"
  | Model_unhealthy string
  | Py_key_error
  | Py_index_error
  | Py_attribute_error
  | Py_type_error
  | Py_recursion_error
  | Py_calendar_error

record join_path =
  jp_name :: string
  jp_from_entity :: string
  jp_to_entity :: string
  jp_join_type :: string
  jp_on :: "(string \<times> string) list"
  jp_cardinality :: string

subsection \<open>Paths between two entities\<close>

definition add_edge :: "join_path \<Rightarrow> (string, join_path list) dict \<Rightarrow> (string, join_path list) dict" where
  "add_edge jp es =
     AList.update (jp_from_entity jp)
       ((case map_of es (jp_from_entity jp) of None \<Rightarrow> [] | Some l \<Rightarrow> l) @ [jp]) es"

definition join_edges :: "(string, join_path) dict \<Rightarrow> string list \<Rightarrow> (string, join_path list) dict" where
  "join_edges jps pinned =
     fold (\<lambda>jp es. if pinned \<noteq> [] \<and> jp_name jp \<notin> set pinned then es else add_edge jp es) (map snd jps) []"

definition edges_at :: "(string, join_path list) dict \<Rightarrow> string \<Rightarrow> join_path list" where
  "edges_at es e = (case map_of es e of None \<Rightarrow> [] | Some l \<Rightarrow> l)"

definition unvisited :: "(string, join_path list) dict \<Rightarrow> string list \<Rightarrow> string set" where
  "unvisited es visited = jp_to_entity ` set (concat (map snd es)) - set visited"

lemma edges_at_in: "jp \<in> set (edges_at es e) \<Longrightarrow> jp \<in> set (concat (map snd es))"
  by (cases "map_of es e") (auto simp: edges_at_def intro!: bexI [of _ "(e, the (map_of es e))"] dest: map_of_SomeD)

lemma unvisited_shrinks:
  assumes "jp \<in> set (edges_at es e)" and "jp_to_entity jp \<notin> set visited"
  shows "card (unvisited es (visited @ [jp_to_entity jp])) < card (unvisited es visited)"
proof (rule psubset_card_mono)
  show "finite (unvisited es visited)" by (simp add: unvisited_def)
  have "jp_to_entity jp \<in> unvisited es visited" using assms edges_at_in by (auto simp: unvisited_def)
  then show "unvisited es (visited @ [jp_to_entity jp]) \<subset> unvisited es visited" by (auto simp: unvisited_def)
qed

function path_dfs ::
    "(string, join_path list) dict \<Rightarrow> string \<Rightarrow> string \<Rightarrow> string list \<Rightarrow> string list \<Rightarrow> string list list" where
  "path_dfs es target e visited names =
     (if e = target then [names]
      else concat (map (\<lambda>jp. if jp_to_entity jp \<in> set visited then []
             else path_dfs es target (jp_to_entity jp) (visited @ [jp_to_entity jp]) (names @ [jp_name jp]))
           (edges_at es e)))"
  by pat_completeness auto

termination
  by (relation "measure (\<lambda>(es, target, e, visited, names). card (unvisited es visited))")
     (auto simp: unvisited_shrinks)

declare path_dfs.simps [simp del]

definition paths_between :: "(string, join_path) dict \<Rightarrow> string \<Rightarrow> string \<Rightarrow> string list \<Rightarrow> string list list" where
  "paths_between jps source target pinned = path_dfs (join_edges jps pinned) target source [source] []"

subsection \<open>Joins for all targets\<close>

definition add_hops :: "string list \<Rightarrow> string list \<Rightarrow> string list" where
  "add_hops path hops = fold (\<lambda>hop hs. if hop \<in> set hs then hs else hs @ [hop]) path hops"

fun resolve_loop ::
    "(string, join_path) dict \<Rightarrow> string \<Rightarrow> string list \<Rightarrow> string list \<Rightarrow> string list \<Rightarrow> semantic_error + string list" where
  "resolve_loop jps base pinned [] hops = Inr hops"
| "resolve_loop jps base pinned (target # ts) hops =
     (if target = base then resolve_loop jps base pinned ts hops
      else (let paths = paths_between jps base target pinned
            in if paths = [] then Inl Validation_failed
               else if length paths > 1 then Inl (Ambiguous_join_path paths)
               else resolve_loop jps base pinned ts (add_hops (hd paths) hops)))"

definition resolve_joins ::
    "(string, join_path) dict \<Rightarrow> string \<Rightarrow> string list \<Rightarrow> string list \<Rightarrow> semantic_error + string list" where
  "resolve_joins jps base_entity targets pinned = resolve_loop jps base_entity pinned targets []"

subsection \<open>Aliases\<close>

definition numbered :: "char \<Rightarrow> nat \<Rightarrow> string" where
  "numbered c n = c # py_str_nat n"

lemma numbered_inj [simp]: "numbered c m = numbered c n \<longleftrightarrow> m = n"
  by (auto simp: numbered_def dest: str_nat_inj)

function alias_loop :: "char \<Rightarrow> nat \<Rightarrow> string list \<Rightarrow> string" where
  "alias_loop c n used = (if numbered c n \<in> set used then alias_loop c (Suc n) used else numbered c n)"
  by pat_completeness auto

termination
proof (relation "measure (\<lambda>(c, n, used). card (set used \<inter> {numbered c k | k. n \<le> k}))")
  fix c n used assume "numbered c n \<in> set used"
  then have "numbered c n \<in> set used \<inter> {numbered c k | k. n \<le> k} - set used \<inter> {numbered c k | k. Suc n \<le> k}"
    by auto
  moreover have "set used \<inter> {numbered c k | k. Suc n \<le> k} \<subseteq> set used \<inter> {numbered c k | k. n \<le> k}"
    by (auto intro: Suc_leD)
  ultimately have "set used \<inter> {numbered c k | k. Suc n \<le> k} \<subset> set used \<inter> {numbered c k | k. n \<le> k}"
    by blast
  then show "((c, Suc n, used), c, n, used) \<in> measure (\<lambda>(c, n, used). card (set used \<inter> {numbered c k | k. n \<le> k}))"
    by (simp add: psubset_card_mono)
qed simp

declare alias_loop.simps [simp del]

definition alias_for :: "string \<Rightarrow> string list \<Rightarrow> semantic_error + string" where
  "alias_for name used =
     (case name of
        [] \<Rightarrow> Inl Py_index_error
      | c # _ \<Rightarrow> Inr (if [c] \<in> set used then alias_loop c 2 used else [c]))"

fun assign_aliases :: "string list \<Rightarrow> (string, string) dict \<Rightarrow> semantic_error + (string, string) dict" where
  "assign_aliases [] aliases = Inr aliases"
| "assign_aliases (name # names) aliases =
     bindR (alias_for name (map snd aliases)) (\<lambda>alias. assign_aliases names (AList.update name alias aliases))"

definition add_new :: "'a \<Rightarrow> 'a list \<Rightarrow> 'a list" where
  "add_new x xs = (if x \<in> set xs then xs else xs @ [x])"

definition join_order :: "(string, join_path) dict \<Rightarrow> string \<Rightarrow> string list \<Rightarrow> semantic_error + string list" where
  "join_order jps base hops =
     bindR (mapR (dict_at Py_key_error jps) hops)
       (\<lambda>js. Inr (fold (\<lambda>jp xs. add_new (jp_to_entity jp) (add_new (jp_from_entity jp) xs)) js [base]))"

definition aliases_for :: "(string, join_path) dict \<Rightarrow> string \<Rightarrow> string list \<Rightarrow> semantic_error + (string, string) dict" where
  "aliases_for jps base hops = bindR (join_order jps base hops) (\<lambda>order. assign_aliases order [])"

subsection \<open>The search finds exactly the simple paths\<close>

text \<open>\<open>simple J a visited js b\<close>: the edges \<open>js\<close> of \<open>J\<close> lead from \<open>a\<close> to \<open>b\<close>, entering neither an entity of
  \<open>visited\<close> nor one twice.\<close>

fun walk :: "join_path set \<Rightarrow> string \<Rightarrow> join_path list \<Rightarrow> string \<Rightarrow> bool" where
  "walk J a [] b \<longleftrightarrow> a = b"
| "walk J a (j # js) b \<longleftrightarrow> j \<in> J \<and> jp_from_entity j = a \<and> walk J (jp_to_entity j) js b"

definition simple :: "join_path set \<Rightarrow> string \<Rightarrow> string set \<Rightarrow> join_path list \<Rightarrow> string \<Rightarrow> bool" where
  "simple J a visited js b \<longleftrightarrow>
     walk J a js b \<and> distinct (map jp_to_entity js) \<and> jp_to_entity ` set js \<inter> visited = {}"

definition declared :: "(string, join_path) dict \<Rightarrow> string list \<Rightarrow> join_path set" where
  "declared jps pinned = {jp \<in> set (map snd jps). pinned = [] \<or> jp_name jp \<in> set pinned}"

definition named :: "(string, join_path) dict \<Rightarrow> bool" where
  "named jps \<longleftrightarrow> distinct (map fst jps) \<and> (\<forall>(k, jp) \<in> set jps. jp_name jp = k)"

lemma hop_walk_append: "walk J a (xs @ ys) c \<longleftrightarrow> (\<exists>b. walk J a xs b \<and> walk J b ys c)"
  by (induction xs arbitrary: a) auto

lemma walk_last: "walk J a (xs @ [x]) b \<Longrightarrow> jp_to_entity x = b"
  by (simp add: hop_walk_append)

lemma walk_edges: "walk J a js b \<Longrightarrow> set js \<subseteq> J"
  by (induction js arbitrary: a) auto

lemma walk_target: "walk J a js b \<Longrightarrow> js = [] \<and> a = b \<or> b \<in> jp_to_entity ` set js"
  by (induction js arbitrary: a) auto

lemma simple_Cons:
  "simple J a visited (j # js) b \<longleftrightarrow>
     j \<in> J \<and> jp_from_entity j = a \<and> jp_to_entity j \<notin> visited \<and>
     simple J (jp_to_entity j) (insert (jp_to_entity j) visited) js b"
  by (auto simp: simple_def)

lemma simple_here: "b \<in> visited \<Longrightarrow> simple J a visited js b \<longleftrightarrow> js = [] \<and> a = b"
  using walk_target by (fastforce simp: simple_def)

lemma add_edge_at: "edges_at (add_edge jp es) e = edges_at es e @ (if jp_from_entity jp = e then [jp] else [])"
  by (auto simp: edges_at_def add_edge_def split: option.split)

lemma join_edges_at:
  "edges_at (join_edges jps pinned) e =
     filter (\<lambda>jp. jp_from_entity jp = e \<and> (pinned = [] \<or> jp_name jp \<in> set pinned)) (map snd jps)"
proof -
  have "edges_at (fold (\<lambda>jp es. if pinned \<noteq> [] \<and> jp_name jp \<notin> set pinned then es else add_edge jp es) js es) e =
     edges_at es e @ filter (\<lambda>jp. jp_from_entity jp = e \<and> (pinned = [] \<or> jp_name jp \<in> set pinned)) js" for js es
    by (induction js arbitrary: es) (auto simp: add_edge_at)
  from this [of "map snd jps" "[]"] show ?thesis by (simp add: join_edges_def edges_at_def)
qed

lemma named_inj: "named jps \<Longrightarrow> inj_on jp_name (snd ` set jps)"
proof (rule inj_onI)
  fix x y assume n: "named jps" and "x \<in> snd ` set jps" "y \<in> snd ` set jps" and eq: "jp_name x = jp_name y"
  then have "(jp_name x, x) \<in> set jps" "(jp_name x, y) \<in> set jps" by (auto simp: named_def)
  then show "x = y" using n eq_key_imp_eq_value unfolding named_def by metis
qed

lemma named_distinct: "named jps \<Longrightarrow> distinct (map jp_name (map snd jps))"
proof -
  assume n: "named jps"
  then have "map jp_name (map snd jps) = map fst jps" by (auto simp: named_def)
  then show ?thesis using n unfolding named_def by (simp only:)
qed

lemma named_lookup: "named jps \<Longrightarrow> jp \<in> snd ` set jps \<Longrightarrow> map_of jps (jp_name jp) = Some jp"
  by (auto simp: named_def)

lemma path_dfs_set:
  "(\<And>e. set (edges_at es e) = {jp \<in> J. jp_from_entity jp = e}) \<Longrightarrow> e \<in> set visited \<Longrightarrow>
   set (path_dfs es target e visited names) = {names @ map jp_name js | js. simple J e (set visited) js target}"
proof (induction es target e visited names rule: path_dfs.induct)
  case (1 es target e visited names)
  show ?case
  proof (cases "e = target")
    case True
    then show ?thesis using 1(3) by (auto simp: path_dfs.simps simple_here)
  next
    case False
    have split: "simple J e (set visited) js target \<longleftrightarrow>
        (\<exists>jp js'. js = jp # js' \<and> jp \<in> set (edges_at es e) \<and> jp_to_entity jp \<notin> set visited \<and>
           simple J (jp_to_entity jp) (set (visited @ [jp_to_entity jp])) js' target)" for js
      using False by (cases js) (auto simp: simple_Cons 1(2), simp add: simple_def)
    have ih: "set (path_dfs es target (jp_to_entity jp) (visited @ [jp_to_entity jp]) (names @ [jp_name jp])) =
        {names @ map jp_name (jp # js) | js. simple J (jp_to_entity jp) (set (visited @ [jp_to_entity jp])) js target}"
      if "jp \<in> set (edges_at es e)" "jp_to_entity jp \<notin> set visited" for jp
      using 1(1) [OF False that(1) that(2) 1(2)] by simp
    have "set (path_dfs es target e visited names) =
        (\<Union>jp \<in> {jp \<in> set (edges_at es e). jp_to_entity jp \<notin> set visited}.
           set (path_dfs es target (jp_to_entity jp) (visited @ [jp_to_entity jp]) (names @ [jp_name jp])))"
      using False by (subst path_dfs.simps) auto
    also have "\<dots> = {names @ map jp_name js | js. simple J e (set visited) js target}"
      unfolding split using ih by blast
    finally show ?thesis .
  qed
qed

lemma path_dfs_prefix: "p \<in> set (path_dfs es target e visited names) \<Longrightarrow> \<exists>q. p = names @ q"
proof (induction es target e visited names rule: path_dfs.induct)
  case (1 es target e visited names)
  then show ?case by (subst (asm) (2) path_dfs.simps) (fastforce split: if_splits)
qed

lemma distinct_concat_keyed:
  assumes "distinct (map k js)" and "\<And>j. j \<in> set js \<Longrightarrow> distinct (f j)"
    and "\<And>i j. i \<in> set js \<Longrightarrow> j \<in> set js \<Longrightarrow> k i \<noteq> k j \<Longrightarrow> set (f i) \<inter> set (f j) = {}"
  shows "distinct (concat (map f js))"
  using assms
proof (induction js)
  case (Cons j js)
  have "set (f j) \<inter> set (f i) = {}" if "i \<in> set js" for i
    using Cons.prems(1) that by (intro Cons.prems(3)) auto
  then have "set (f j) \<inter> (\<Union>i \<in> set js. set (f i)) = {}" by blast
  then show ?case using Cons by simp
qed simp

lemma path_dfs_distinct:
  "(\<And>e. distinct (map jp_name (edges_at es e))) \<Longrightarrow> distinct (path_dfs es target e visited names)"
proof (induction es target e visited names rule: path_dfs.induct)
  case (1 es target e visited names)
  show ?case
  proof (cases "e = target")
    case False
    let ?f = "\<lambda>jp. if jp_to_entity jp \<in> set visited then []
               else path_dfs es target (jp_to_entity jp) (visited @ [jp_to_entity jp]) (names @ [jp_name jp])"
    have "distinct (concat (map ?f (edges_at es e)))"
    proof (rule distinct_concat_keyed [OF 1(2)])
      fix j assume "j \<in> set (edges_at es e)"
      then show "distinct (?f j)" using 1(1) [OF False _ _ 1(2)] by simp
    next
      fix i j assume "jp_name i \<noteq> jp_name j"
      then show "set (?f i) \<inter> set (?f j) = {}" by (auto dest!: path_dfs_prefix split: if_splits)
    qed
    then show ?thesis using False by (subst path_dfs.simps) simp
  qed (simp add: path_dfs.simps)
qed

lemma declared_sub: "declared jps pinned \<subseteq> snd ` set jps"
  by (auto simp: declared_def)

lemma paths_between_set:
  "set (paths_between jps a b pinned) = {map jp_name js | js. simple (declared jps pinned) a {a} js b}"
proof -
  have "set (edges_at (join_edges jps pinned) e) = {jp \<in> declared jps pinned. jp_from_entity jp = e}" for e
    by (auto simp: join_edges_at declared_def)
  from path_dfs_set [OF this, of a "[a]"] show ?thesis by (simp add: paths_between_def)
qed

lemma paths_between_distinct: "named jps \<Longrightarrow> distinct (paths_between jps a b pinned)"
  unfolding paths_between_def
  by (rule path_dfs_distinct) (simp add: join_edges_at distinct_map_filter named_distinct del: map_map)

lemma unique_path:
  assumes n: "named jps" and one: "length (paths_between jps a b pinned) = 1"
  obtains js where "paths_between jps a b pinned = [map jp_name js]" and "simple (declared jps pinned) a {a} js b"
    and "\<And>js'. simple (declared jps pinned) a {a} js' b \<Longrightarrow> js' = js"
proof -
  let ?J = "declared jps pinned"
  obtain p where p: "paths_between jps a b pinned = [p]" using one by (auto simp: length_Suc_conv)
  then obtain js where js: "p = map jp_name js" "simple ?J a {a} js b"
    using paths_between_set [of jps a b pinned] by auto
  have "js' = js" if s: "simple ?J a {a} js' b" for js'
  proof -
    have "map jp_name js' \<in> set (paths_between jps a b pinned)" using s paths_between_set by blast
    then have eq: "map jp_name js' = map jp_name js" using p js(1) by simp
    have "set js' \<subseteq> snd ` set jps" "set js \<subseteq> snd ` set jps"
      using s js(2) walk_edges [of ?J] declared_sub [of jps pinned] unfolding simple_def by (meson order_trans)+
    then have "inj_on jp_name (set js' \<union> set js)" using named_inj [OF n] by (meson Un_least inj_on_subset)
    then show ?thesis using map_inj_on [OF eq] by blast
  qed
  then show ?thesis using that p js by blast
qed

subsection \<open>The hops form a tree\<close>

text \<open>An edge on the only simple path to one target is the only way, on any simple path, into the entity
  it leads to.\<close>

lemma unique_entry:
  assumes uniq: "\<And>js'. simple J a {a} js' t \<Longrightarrow> js' = p1 @ p # p2" and sp: "simple J a {a} (p1 @ p # p2) t"
    and sq: "simple J a {a} (q1 @ h # q2) u" and eq: "jp_to_entity p = jp_to_entity h"
  shows "p = h"
proof -
  let ?S = "jp_to_entity ` set (p # p2)"
  have h: "\<exists>q \<in> set (q1 @ [h]). jp_to_entity q \<in> ?S" using eq by auto
  obtain x q y where q: "q1 @ [h] = x @ q # y" and qS: "jp_to_entity q \<in> ?S" and x: "\<forall>z \<in> set x. jp_to_entity z \<notin> ?S"
    using split_list_first_prop [OF h] by blast
  obtain r c d where cd: "p # p2 = c @ r # d" and r: "jp_to_entity q = jp_to_entity r"
    using qS by (auto dest!: split_list simp del: set_simps)
  have wq: "walk J a (x @ [q]) (jp_to_entity q)" and dq: "distinct (map jp_to_entity (x @ [q]))" "a \<notin> jp_to_entity ` set (x @ [q])"
  proof -
    have eq': "q1 @ h # q2 = (x @ [q]) @ (y @ q2)" using q by (metis append.assoc append_Cons append_Nil)
    then obtain b where "walk J a (x @ [q]) b" using sq unfolding simple_def eq' hop_walk_append by blast
    then show "walk J a (x @ [q]) (jp_to_entity q)" using walk_last by blast
    show "distinct (map jp_to_entity (x @ [q]))" "a \<notin> jp_to_entity ` set (x @ [q])"
      using sq unfolding simple_def eq' by auto
  qed
  have wd: "walk J (jp_to_entity q) d t" and dd: "distinct (map jp_to_entity d)" "a \<notin> jp_to_entity ` set d"
      "jp_to_entity q \<notin> jp_to_entity ` set d"
  proof -
    have e: "p1 @ p # p2 = ((p1 @ c) @ [r]) @ d" using cd by simp
    obtain b where "walk J a ((p1 @ c) @ [r]) b" "walk J b d t" using sp unfolding simple_def e hop_walk_append [of _ _ _ d] by blast
    then show "walk J (jp_to_entity q) d t" using walk_last r by metis
    show "distinct (map jp_to_entity d)" "a \<notin> jp_to_entity ` set d" "jp_to_entity q \<notin> jp_to_entity ` set d"
      using sp r unfolding simple_def e by auto
  qed
  have "set d \<subseteq> set (p # p2)" using cd by auto
  then have "simple J a {a} ((x @ [q]) @ d) t"
    using wq dq wd dd x unfolding simple_def hop_walk_append by fastforce
  from uniq [OF this] have "(x @ [q]) @ d = (p1 @ c @ [r]) @ d" using cd by simp
  then have xq: "x @ [q] = p1 @ c @ [r]" by simp
  show ?thesis
  proof (cases c)
    case Nil
    then have "q = p" using xq cd by simp
    then show ?thesis using q eq dq sq by (cases y rule: rev_cases) (auto simp: simple_def)
  next
    case (Cons z zs)
    then have "p \<in> set x" using xq cd by (metis append_assoc append_butlast_last_id butlast_snoc in_set_conv_decomp list.inject append_Cons)
    then show ?thesis using x by auto
  qed
qed

text \<open>\<open>joinable S js\<close>: written one after the other with the entities \<open>S\<close> in scope, every join starts at an
  entity in scope and brings a new one into scope.\<close>

fun joinable :: "string set \<Rightarrow> join_path list \<Rightarrow> bool" where
  "joinable S [] \<longleftrightarrow> True"
| "joinable S (j # js) \<longleftrightarrow>
     jp_from_entity j \<in> S \<and> jp_to_entity j \<notin> S \<and> joinable (insert (jp_to_entity j) S) js"

lemma joinable_snoc:
  "joinable S (js @ [j]) \<longleftrightarrow>
     joinable S js \<and> jp_from_entity j \<in> S \<union> jp_to_entity ` set js \<and> jp_to_entity j \<notin> S \<union> jp_to_entity ` set js"
  by (induction js arbitrary: S) auto

definition on_paths :: "join_path set \<Rightarrow> string \<Rightarrow> join_path list \<Rightarrow> bool" where
  "on_paths J a hs \<longleftrightarrow> joinable {a} hs \<and> (\<forall>h \<in> set hs. \<exists>q1 q2 u. simple J a {a} (q1 @ h # q2) u)"

lemma add_new_simps: "x \<in> set xs \<Longrightarrow> add_new x xs = xs" "x \<notin> set xs \<Longrightarrow> add_new x xs = xs @ [x]"
  by (simp_all add: add_new_def)

lemma set_fold_add_new [simp]: "set (fold add_new js hs) = set js \<union> set hs"
  by (induction js arbitrary: hs) (auto simp: add_new_def)

lemma on_paths_extend:
  assumes "on_paths J a hs" and s: "simple J a {a} js t" and uniq: "\<And>js'. simple J a {a} js' t \<Longrightarrow> js' = js"
  shows "on_paths J a (fold add_new js hs)"
proof -
  have "joinable {a} (fold add_new p1 hs)" if "js = p1 @ p2" for p1 p2
    using that
  proof (induction p1 arbitrary: p2 rule: rev_induct)
    case Nil
    then show ?case using assms(1) by (simp add: on_paths_def)
  next
    case (snoc p p1)
    let ?H = "fold add_new p1 hs"
    have js: "js = p1 @ p # p2" using snoc.prems by simp
    have H: "joinable {a} ?H" using snoc.IH js by simp
    show ?case
    proof (cases "p \<in> set ?H")
      case True
      then show ?thesis using H by (simp add: add_new_simps del: set_fold_add_new)
    next
      case False
      have "jp_to_entity p \<noteq> a" "jp_to_entity p \<notin> jp_to_entity ` set p1" using s unfolding js simple_def by auto
      moreover have "jp_to_entity p \<noteq> jp_to_entity h" if h: "h \<in> set hs" for h
      proof
        assume eq: "jp_to_entity p = jp_to_entity h"
        obtain q1 q2 u where "simple J a {a} (q1 @ h # q2) u" using assms(1) h unfolding on_paths_def by blast
        from unique_entry [OF uniq [unfolded js] s [unfolded js] this eq] show False using False h by simp
      qed
      moreover have "jp_from_entity p \<in> insert a (jp_to_entity ` set p1)"
      proof (cases p1 rule: rev_cases)
        case (snoc w x)
        have "walk J a ((w @ [x]) @ p # p2) t" using s unfolding js simple_def snoc by blast
        then obtain b where "walk J a (w @ [x]) b" "walk J b (p # p2) t" unfolding hop_walk_append [of _ _ "w @ [x]"] by blast
        then show ?thesis using walk_last [of J a w x b] snoc by simp
      qed (use s js in \<open>simp add: simple_def\<close>)
      ultimately have "joinable {a} (?H @ [p])" using H by (auto simp: joinable_snoc)
      then show ?thesis using False by (simp add: add_new_simps del: set_fold_add_new)
    qed
  qed
  then have "joinable {a} (fold add_new js hs)" by simp
  moreover have "\<exists>q1 q2 u. simple J a {a} (q1 @ h # q2) u" if "h \<in> set (fold add_new js hs)" for h
    using that s assms(1) unfolding on_paths_def by (auto dest!: split_list)
  ultimately show ?thesis by (simp add: on_paths_def)
qed

lemma add_hops_names:
  assumes "inj_on jp_name A" and "set js \<subseteq> A" and "set hs \<subseteq> A"
  shows "add_hops (map jp_name js) (map jp_name hs) = map jp_name (fold add_new js hs)"
  using assms(2,3)
proof (induction js arbitrary: hs)
  case (Cons j js)
  have "jp_name j \<in> set (map jp_name hs) \<longleftrightarrow> j \<in> set hs"
    using Cons.prems inj_on_image_mem_iff [OF assms(1)] by auto
  then have "add_hops (map jp_name (j # js)) (map jp_name hs) = add_hops (map jp_name js) (map jp_name (add_new j hs))"
    by (simp add: add_hops_def add_new_def)
  also have "\<dots> = map jp_name (fold add_new js (add_new j hs))"
    using Cons.prems by (intro Cons.IH) (auto simp: add_new_def)
  finally show ?case by simp
qed (simp add: add_hops_def)

lemma resolve_loop_tree:
  assumes n: "named jps" and "on_paths (declared jps pinned) a hs" and "set hs \<subseteq> snd ` set jps"
    and "resolve_loop jps a pinned ts (map jp_name hs) = Inr hops"
  shows "\<exists>js. hops = map jp_name js \<and> set js \<subseteq> snd ` set jps \<and> on_paths (declared jps pinned) a js \<and>
     set hs \<subseteq> set js \<and> set ts \<subseteq> insert a (jp_to_entity ` set js)"
  using assms(2-)
proof (induction ts arbitrary: hs)
  case Nil
  then show ?case by auto
next
  case (Cons t ts)
  show ?case
  proof (cases "t = a")
    case True
    then show ?thesis using Cons.IH [OF Cons.prems(1,2)] Cons.prems(3) by simp
  next
    case False
    have one: "length (paths_between jps a t pinned) = 1"
      using Cons.prems(3) False by (auto simp: Let_def le_Suc_eq not_less split: if_splits)
    obtain p where p: "paths_between jps a t pinned = [map jp_name p]" "simple (declared jps pinned) a {a} p t"
        "\<And>js'. simple (declared jps pinned) a {a} js' t \<Longrightarrow> js' = p"
      using unique_path [OF n one] by blast
    have sub: "set p \<subseteq> snd ` set jps"
      using p(2) walk_edges declared_sub unfolding simple_def by (meson order_trans)
    have add: "add_hops (map jp_name p) (map jp_name hs) = map jp_name (fold add_new p hs)"
      by (rule add_hops_names [OF named_inj [OF n] sub Cons.prems(2)])
    have run: "resolve_loop jps a pinned ts (map jp_name (fold add_new p hs)) = Inr hops"
      using Cons.prems(3) False p(1) add by simp
    have "set (fold add_new p hs) \<subseteq> snd ` set jps" using sub Cons.prems(2) by simp
    from Cons.IH [OF on_paths_extend [OF Cons.prems(1) p(2,3)] this run]
    obtain js where js: "hops = map jp_name js" "set js \<subseteq> snd ` set jps" "on_paths (declared jps pinned) a js"
        "set (fold add_new p hs) \<subseteq> set js" "set ts \<subseteq> insert a (jp_to_entity ` set js)"
      by blast
    have "t \<in> jp_to_entity ` set p" using p(2) False walk_target unfolding simple_def by blast
    then have "t \<in> jp_to_entity ` set js" using js(4) by auto
    then show ?thesis using js by auto
  qed
qed

lemma resolve_joins_tree:
  assumes "named jps" and "resolve_joins jps base targets pinned = Inr hops"
  shows "\<exists>js. mapR (dict_at Py_key_error jps) hops = Inr js \<and> joinable {base} js \<and>
     set targets \<subseteq> insert base (jp_to_entity ` set js) \<and> set js \<subseteq> declared jps pinned"
proof -
  obtain js where js: "hops = map jp_name js" "set js \<subseteq> snd ` set jps" "on_paths (declared jps pinned) base js"
      "set targets \<subseteq> insert base (jp_to_entity ` set js)"
    using resolve_loop_tree [OF assms(1), of pinned base "[]" targets hops] assms(2)
    by (auto simp: resolve_joins_def on_paths_def)
  have "list_all2 (\<lambda>x y. dict_at Py_key_error jps x = Inr y) (map jp_name js) js"
    using js(2) named_lookup [OF assms(1)] by (auto simp: list_all2_map1 list.rel_refl_strong dict_at_Inr subset_eq)
  then have "mapR (dict_at Py_key_error jps) hops = Inr js" by (simp add: mapR_Inr js(1))
  moreover have "set js \<subseteq> declared jps pinned"
    using js(3) walk_edges unfolding on_paths_def simple_def by fastforce
  ultimately show ?thesis using js unfolding on_paths_def by blast
qed

subsection \<open>Aliases are unique\<close>

lemma alias_loop_fresh: "alias_loop c n used \<notin> set used"
  by (induction c n used rule: alias_loop.induct) (subst alias_loop.simps, simp)

lemma alias_for_fresh: "alias_for name used = Inr a \<Longrightarrow> a \<notin> set used"
  by (auto simp: alias_for_def alias_loop_fresh split: list.splits if_splits)

lemma assign_aliases_keys:
  assumes "assign_aliases names al = Inr al'" and "distinct (map fst al @ names)" and "distinct (map snd al)"
  shows "map fst al' = map fst al @ names \<and> distinct (map snd al')"
  using assms
proof (induction names arbitrary: al)
  case (Cons name names)
  obtain a where a: "alias_for name (map snd al) = Inr a" "assign_aliases names (AList.update name a al) = Inr al'"
    using Cons.prems(1) by (auto simp: bindR_eq_Inr)
  have u: "AList.update name a al = al @ [(name, a)]"
    using Cons.prems(2) by (intro dict_set_fresh) (auto simp: map_of_eq_None_iff)
  have "a \<notin> set (map snd al)" by (rule alias_for_fresh [OF a(1)])
  then show ?case using Cons.IH [OF a(2)] Cons.prems(2,3) unfolding u by auto
qed simp

lemma join_order_joinable:
  assumes "joinable {base} js" and "mapR (dict_at Py_key_error jps) hops = Inr js"
  shows "join_order jps base hops = Inr (base # map jp_to_entity js) \<and> distinct (base # map jp_to_entity js)"
proof -
  have "fold (\<lambda>jp xs. add_new (jp_to_entity jp) (add_new (jp_from_entity jp) xs)) js xs = xs @ map jp_to_entity js \<and>
      distinct (xs @ map jp_to_entity js)" if "joinable (set xs) js" "distinct xs" for xs
    using that
  proof (induction js arbitrary: xs)
    case (Cons j js)
    then have step: "add_new (jp_to_entity j) (add_new (jp_from_entity j) xs) = xs @ [jp_to_entity j]"
      by (simp add: add_new_def)
    have "joinable (set (xs @ [jp_to_entity j])) js" "distinct (xs @ [jp_to_entity j])" using Cons.prems by simp_all
    from Cons.IH [OF this] show ?case using step by simp
  qed simp
  from this [of "[base]"] show ?thesis using assms by (simp add: join_order_def)
qed

lemma aliases_unique:
  assumes "named jps" and "resolve_joins jps base targets pinned = Inr hops" and "aliases_for jps base hops = Inr al"
  shows "distinct (map snd al) \<and> distinct (map fst al) \<and> insert base (set targets) \<subseteq> fst ` set al"
proof -
  obtain js where js: "mapR (dict_at Py_key_error jps) hops = Inr js" "joinable {base} js"
      "set targets \<subseteq> insert base (jp_to_entity ` set js)"
    using resolve_joins_tree [OF assms(1,2)] by blast
  have o: "assign_aliases (base # map jp_to_entity js) [] = Inr al" "distinct (base # map jp_to_entity js)"
    using join_order_joinable [OF js(2,1)] assms(3) by (simp_all add: aliases_for_def)
  from assign_aliases_keys [OF o(1)] o(2) have k: "map fst al = base # map jp_to_entity js" "distinct (map snd al)"
    by simp_all
  have "fst ` set al = insert base (jp_to_entity ` set js)" using k(1) by (metis list.set_map list.simps(15))
  then show ?thesis using k o(2) js(3) by auto
qed

subsection \<open>Resolution is exact\<close>

abbreviation ways :: "(string, join_path) dict \<Rightarrow> string list \<Rightarrow> string \<Rightarrow> string \<Rightarrow> join_path list set" where
  "ways jps pinned base t \<equiv> {js. simple (declared jps pinned) base {base} js t}"

lemma ways_count:
  assumes "named jps"
  shows "paths_between jps base t pinned = [] \<longleftrightarrow> ways jps pinned base t = {}"
    and "length (paths_between jps base t pinned) = card (ways jps pinned base t)"
proof -
  have img: "set (paths_between jps base t pinned) = map jp_name ` ways jps pinned base t"
    using paths_between_set [of jps base t pinned] by auto
  then show "paths_between jps base t pinned = [] \<longleftrightarrow> ways jps pinned base t = {}" by auto
  have "js = js'" if "js \<in> ways jps pinned base t" "js' \<in> ways jps pinned base t" "map jp_name js = map jp_name js'" for js js'
  proof -
    have "set js \<subseteq> snd ` set jps" "set js' \<subseteq> snd ` set jps"
      using that(1,2) walk_edges [of "declared jps pinned"] declared_sub [of jps pinned] unfolding simple_def mem_Collect_eq
      by (meson order_trans)+
    then have "inj_on jp_name (set js \<union> set js')" using named_inj [OF assms] by (meson Un_least inj_on_subset)
    then show ?thesis using map_inj_on [OF that(3)] by blast
  qed
  then have "inj_on (map jp_name) (ways jps pinned base t)" by (intro inj_onI)
  then show "length (paths_between jps base t pinned) = card (ways jps pinned base t)"
    using distinct_card [OF paths_between_distinct [OF assms], of base t pinned] img by (simp add: card_image)
qed

lemma resolve_loop_outcome:
  assumes n: "named jps"
  shows "case resolve_loop jps base pinned ts hops of
      Inr _ \<Rightarrow> \<forall>t \<in> set ts. t = base \<or> card (ways jps pinned base t) = 1
    | Inl e \<Rightarrow> (\<exists>t \<in> set ts. t \<noteq> base \<and>
        (e = Validation_failed \<and> ways jps pinned base t = {} \<or>
         e = Ambiguous_join_path (paths_between jps base t pinned) \<and> card (ways jps pinned base t) > 1))"
proof (induction ts arbitrary: hops)
  case (Cons t ts)
  show ?case
  proof (cases "t = base \<or> length (paths_between jps base t pinned) = 1")
    case True
    then obtain hops' where "resolve_loop jps base pinned (t # ts) hops = resolve_loop jps base pinned ts hops'"
      by (cases "t = base"; cases "paths_between jps base t pinned") auto
    then show ?thesis using Cons.IH [of hops'] True ways_count(2) [OF n]
      by (auto split: sum.splits)
  next
    case False
    have w: "ways jps pinned base t = {}" if "paths_between jps base t pinned = []"
      using ways_count(1) [OF n, of base t pinned] that by simp
    have "length (paths_between jps base t pinned) > 1" if "paths_between jps base t pinned \<noteq> []"
      using that False by (cases "paths_between jps base t pinned") auto
    then show ?thesis using False ways_count(2) [OF n, of base t pinned]
      by (cases "paths_between jps base t pinned = []") (use w in auto)
  qed
qed simp


definition demo_join :: "string \<Rightarrow> string \<Rightarrow> string \<Rightarrow> string \<times> join_path" where
  "demo_join name a b = (name, \<lparr>jp_name = name, jp_from_entity = a, jp_to_entity = b, jp_join_type = ''left'',
     jp_on = [(''id'', ''id'')], jp_cardinality = ''many_to_one''\<rparr>)"

definition demo_joins :: "(string, join_path) dict" where
  "demo_joins = [demo_join ''oc'' ''orders'' ''customers'', demo_join ''cr'' ''customers'' ''regions'',
     demo_join ''op'' ''orders'' ''products'', demo_join ''oo'' ''orders'' ''offices'', demo_join ''fo'' ''offices'' ''regions'']"

lemma demo_joins_run:
  "resolve_joins demo_joins ''orders'' [''regions'', ''products'', ''customers''] [''oc'', ''cr'', ''op''] = Inr [''oc'', ''cr'', ''op'']"
  "resolve_joins demo_joins ''orders'' [''regions''] [] = Inl (Ambiguous_join_path [[''oc'', ''cr''], [''oo'', ''fo'']])"
  "aliases_for demo_joins ''orders'' [''oo''] = Inr [(''orders'', ''o''), (''offices'', ''o2'')]"
  by code_simp+


end
