(* ===== verification/Semantic_Expr.thy ===== *)
theory Semantic_Expr
  imports Prelude
begin

text \<open>
  The restricted expression grammar of the semantic service
  (\<open>services/semantic-service/app/domain/expr.py\<close>): tokenizer, recursive-descent parser with its
  one backtracking point, and the column collector.

  An AST node, a \<open>dict\<close> with a \<open>t\<close> entry in the code, is the datatype \<open>node\<close>; \<open>NWhen\<close> is the
  two-entry \<open>dict\<close> of a CASE branch. The parser object is the list of tokens still to read. Each
  \<open>parse_*\<close> method is one definition, with the parsers of nested expressions and conditions as
  arguments; \<open>parse_expr\<close> and \<open>parse_cond\<close> tie the knot with the nesting depth as fuel. The
  \<open>while\<close> loops carry the number of unread tokens as fuel. Running out of fuel is the result
  \<open>OutOfFuel\<close>; \<open>grammar_works\<close> shows that it never happens with the fuel that
  \<open>parse_expression\<close> and \<open>parse_condition\<close> give. \<open>ExpressionNotAllowed\<close> is \<open>NotAllowed\<close>; its
  text is left out. The recursion limit of the Python interpreter is not modelled.
\<close>

subsection \<open>Vocabulary\<close>

definition FUNC_WHITELIST :: "string list" where
  "FUNC_WHITELIST = [''coalesce'', ''nullif'', ''cast'', ''date_trunc'', ''extract'',
     ''lower'', ''upper'', ''trim'', ''concat'', ''abs'', ''round'']"

definition KEYWORDS :: "string list" where
  "KEYWORDS = [''case'', ''when'', ''then'', ''else'', ''end'', ''and'', ''or'', ''not'',
     ''is'', ''null'', ''true'', ''false'', ''as'', ''from'']"

definition CAST_TYPES :: "string list" where
  "CAST_TYPES = [''integer'', ''bigint'', ''double'', ''decimal'', ''varchar'', ''date'', ''timestamp'', ''boolean'']"

definition EXTRACT_PARTS :: "string list" where
  "EXTRACT_PARTS = [''year'', ''quarter'', ''month'', ''week'', ''day'', ''hour'', ''minute'', ''second'', ''dow'', ''doy'']"

definition TIME_GRAINS :: "string list" where
  "TIME_GRAINS = [''hour'', ''day'', ''week'', ''month'', ''quarter'', ''year'']"

definition lower_letter :: "char \<Rightarrow> bool" where
  "lower_letter c = (let n = of_char c :: nat in 97 \<le> n \<and> n \<le> 122)"

definition name_char :: "char \<Rightarrow> bool" where
  "name_char c \<longleftrightarrow> lower_letter c \<or> ascii_digit c \<or> c = CHR ''_''"

definition name_ok :: "string \<Rightarrow> bool" where
  "name_ok s =
     (let body = (if s \<noteq> [] \<and> last s = CHR 0x0A then butlast s else s)
      in body \<noteq> [] \<and> lower_letter (hd body) \<and> list_all name_char (tl body) \<and> length body \<le> 63)"

subsection \<open>Tokenizer\<close>

datatype token = TIdent string | TNumber string | TString string | TOp string | TKw string

definition ident_char :: "char \<Rightarrow> bool" where
  "ident_char c \<longleftrightarrow> ascii_letter c \<or> ascii_digit c \<or> c = CHR ''_''"

definition ident_start :: "char \<Rightarrow> bool" where
  "ident_start c \<longleftrightarrow> ascii_letter c \<or> c = CHR ''_''"

abbreviation quote_char :: char where "quote_char \<equiv> CHR 0x27"

fun match_string :: "string \<Rightarrow> (string \<times> string) option" where
  "match_string [] = None"
| "match_string (c # cs) =
     (if c \<noteq> quote_char then map_option (\<lambda>(b, r). (c # b, r)) (match_string cs)
      else (case cs of
              d # ds \<Rightarrow>
                if d = quote_char
                then (case match_string ds of
                        Some (b, r) \<Rightarrow> Some (c # d # b, r)
                      | None \<Rightarrow> Some ([], cs))
                else Some ([], cs)
            | [] \<Rightarrow> Some ([], [])))"

fun unescape :: "string \<Rightarrow> string" where
  "unescape (c # d # cs) =
     (if c = quote_char \<and> d = quote_char then quote_char # unescape cs else c # unescape (d # cs))"
| "unescape cs = cs"

definition match_number :: "string \<Rightarrow> string \<times> string" where
  "match_number s =
     (let whole = takeWhile ascii_digit s; rest = dropWhile ascii_digit s
      in case rest of
           c # cs \<Rightarrow>
             if c = CHR ''.'' \<and> cs \<noteq> [] \<and> ascii_digit (hd cs)
             then (whole @ c # takeWhile ascii_digit cs, dropWhile ascii_digit cs)
             else (whole, rest)
         | [] \<Rightarrow> (whole, rest))"

definition match_op :: "string \<Rightarrow> (string \<times> string) option" where
  "match_op s =
     (if take 2 s \<in> {''>='', ''<='', ''!=''} then Some (take 2 s, drop 2 s)
      else if s \<noteq> [] \<and> hd s \<in> set ''><=+-*/%(),'' then Some ([hd s], tl s)
      else None)"

definition ident_token :: "string \<Rightarrow> token" where
  "ident_token v =
     (let lowered = py_lower v
      in if lowered \<in> set KEYWORDS then TKw lowered
         else if lowered \<in> set FUNC_WHITELIST \<or> lowered \<in> set CAST_TYPES \<or> lowered \<in> set EXTRACT_PARTS
         then TIdent lowered else TIdent v)"

lemma match_string_shorter: "match_string s = Some (b, r) \<Longrightarrow> length r < length s"
  by (induction s arbitrary: b r rule: match_string.induct)
    (fastforce split: if_splits list.splits option.splits)+

lemma match_op_shorter: "match_op s = Some (x, r) \<Longrightarrow> length r < length s"
  by (cases s; cases "tl s") (auto simp: match_op_def split: if_splits)

lemma match_number_shorter: "s \<noteq> [] \<Longrightarrow> ascii_digit (hd s) \<Longrightarrow> length (snd (match_number s)) < length s"
proof (cases s)
  case (Cons c cs)
  assume "ascii_digit (hd s)"
  with Cons have "length (dropWhile ascii_digit s) < length s"
    by (simp add: le_imp_less_Suc length_dropWhile_le)
  moreover have "length (dropWhile ascii_digit (tl (dropWhile ascii_digit s))) \<le> length (dropWhile ascii_digit s)"
    by (metis length_dropWhile_le length_tl diff_le_self le_trans)
  ultimately show ?thesis by (auto simp: match_number_def Let_def split: list.splits)
qed simp

lemma ident_start_char: "ident_start c \<Longrightarrow> ident_char c"
  by (auto simp: ident_start_def ident_char_def)

function lex :: "string \<Rightarrow> token list option" where
  "lex s =
     (case s of
        [] \<Rightarrow> Some []
      | c # cs \<Rightarrow>
          if py_space c then lex (dropWhile py_space cs)
          else if ascii_digit c
          then map_option (\<lambda>ts. TNumber (fst (match_number s)) # ts) (lex (snd (match_number s)))
          else if c = quote_char
          then (case match_string cs of
                  None \<Rightarrow> None
                | Some (b, r) \<Rightarrow> map_option (\<lambda>ts. TString (unescape b) # ts) (lex r))
          else if ident_start c
          then map_option (\<lambda>ts. ident_token (takeWhile ident_char s) # ts) (lex (dropWhile ident_char s))
          else (case match_op s of
                  None \<Rightarrow> None
                | Some (x, r) \<Rightarrow> map_option (\<lambda>ts. TOp x # ts) (lex r)))"
  by pat_completeness auto

termination
proof (relation "measure length", goal_cases)
  case (2 s c cs)
  then show ?case by (simp add: le_imp_less_Suc length_dropWhile_le)
next
  case (3 s c cs)
  then show ?case using match_number_shorter [of s] by simp
next
  case (4 s c cs p b r)
  then show ?case using match_string_shorter [of cs b r] by simp
next
  case (5 s c cs)
  then show ?case by (simp add: ident_start_char le_imp_less_Suc length_dropWhile_le)
next
  case (6 s c cs p x r)
  then show ?case using match_op_shorter [of s x r] by simp
qed simp

declare lex.simps [simp del]

definition forbidden :: "string \<Rightarrow> bool" where
  "forbidden text \<longleftrightarrow> py_contains ''--'' text \<or> py_contains ''/*'' text \<or> py_contains '';'' text \<or>
     py_contains [CHR 0x22] text"

definition tokenize :: "string \<Rightarrow> token list option" where
  "tokenize text = (if py_strip text = [] then None else if forbidden text then None else lex text)"

subsection \<open>Abstract syntax\<close>

datatype lit = LNum string | LStr string | LBool string | LNull

datatype node =
    is_col: NCol (col_name: string)
  | NLit lit
  | NBin string node node
  | NFunc string "node list"
  | NCast node string
  | NExtract string node
  | NDateTrunc string node
  | NCase "node list" "node option"
  | NWhen node node
  | NCond string node "node option"
  | NLogic string node node
  | NNot node

subsection \<open>Parser helpers\<close>

datatype 'a presult = Parsed 'a "token list" | NotAllowed | OutOfFuel

type_synonym 'a parser = "token list \<Rightarrow> 'a presult"

definition returnP :: "'a \<Rightarrow> 'a parser" where
  "returnP x ts = Parsed x ts"

definition bindP :: "'a parser \<Rightarrow> ('a \<Rightarrow> 'b parser) \<Rightarrow> 'b parser" where
  "bindP p k ts = (case p ts of Parsed x ts' \<Rightarrow> k x ts' | NotAllowed \<Rightarrow> NotAllowed | OutOfFuel \<Rightarrow> OutOfFuel)"

definition accept :: "token \<Rightarrow> token list \<Rightarrow> token list option" where
  "accept t ts = (case ts of [] \<Rightarrow> None | x # r \<Rightarrow> if x = t then Some r else None)"

definition expect :: "token \<Rightarrow> unit parser" where
  "expect t ts = (case accept t ts of None \<Rightarrow> NotAllowed | Some r \<Rightarrow> Parsed () r)"

definition expect_ident :: "string parser" where
  "expect_ident ts = (case ts of TIdent v # r \<Rightarrow> Parsed v r | _ \<Rightarrow> NotAllowed)"

definition expect_number :: "string parser" where
  "expect_number ts = (case ts of TNumber v # r \<Rightarrow> Parsed v r | _ \<Rightarrow> NotAllowed)"

definition expect_string :: "string parser" where
  "expect_string ts = (case ts of TString v # r \<Rightarrow> Parsed v r | _ \<Rightarrow> NotAllowed)"

subsection \<open>Expressions\<close>

fun bin_loop :: "string list \<Rightarrow> node parser \<Rightarrow> nat \<Rightarrow> node \<Rightarrow> node parser" where
  "bin_loop ops sub n node ts =
     (case ts of
        TOp x # r \<Rightarrow>
          if x \<in> set ops
          then (case n of
                  0 \<Rightarrow> OutOfFuel
                | Suc m \<Rightarrow> bindP sub (\<lambda>right. bin_loop ops sub m (NBin x node right)) r)
          else Parsed node ts
      | _ \<Rightarrow> Parsed node ts)"

fun args_loop :: "node parser \<Rightarrow> nat \<Rightarrow> node list \<Rightarrow> node list parser" where
  "args_loop expr n args ts =
     (case accept (TOp '','') ts of
        None \<Rightarrow> Parsed args ts
      | Some r \<Rightarrow>
          (case n of
             0 \<Rightarrow> OutOfFuel
           | Suc m \<Rightarrow> bindP expr (\<lambda>a. args_loop expr m (args @ [a])) r))"

fun whens_loop :: "node parser \<Rightarrow> node parser \<Rightarrow> nat \<Rightarrow> node list \<Rightarrow> node list parser" where
  "whens_loop expr cond n whens ts =
     (case accept (TKw ''when'') ts of
        None \<Rightarrow> Parsed whens ts
      | Some r \<Rightarrow>
          (case n of
             0 \<Rightarrow> OutOfFuel
           | Suc m \<Rightarrow>
               bindP cond (\<lambda>c. bindP (expect (TKw ''then'')) (\<lambda>_. bindP expr (\<lambda>e.
                 whens_loop expr cond m (whens @ [NWhen c e])))) r))"

declare bin_loop.simps [simp del] args_loop.simps [simp del] whens_loop.simps [simp del]

definition parse_func :: "node parser \<Rightarrow> string \<Rightarrow> node parser" where
  "parse_func expr name =
     (if name \<notin> set FUNC_WHITELIST then (\<lambda>_. NotAllowed)
      else bindP (expect (TOp ''('')) (\<lambda>_.
        if name = ''cast''
        then bindP expr (\<lambda>inner. bindP (expect (TKw ''as'')) (\<lambda>_. bindP expect_ident (\<lambda>type.
               if type \<notin> set CAST_TYPES then (\<lambda>_. NotAllowed)
               else bindP (expect (TOp '')'')) (\<lambda>_. returnP (NCast inner type)))))
        else if name = ''extract''
        then bindP expect_ident (\<lambda>part.
               if part \<notin> set EXTRACT_PARTS then (\<lambda>_. NotAllowed)
               else bindP (expect (TKw ''from'')) (\<lambda>_. bindP expr (\<lambda>inner.
                      bindP (expect (TOp '')'')) (\<lambda>_. returnP (NExtract part inner)))))
        else if name = ''date_trunc''
        then bindP expect_string (\<lambda>grain.
               if grain \<notin> set TIME_GRAINS then (\<lambda>_. NotAllowed)
               else bindP (expect (TOp '','')) (\<lambda>_. bindP expr (\<lambda>inner.
                      bindP (expect (TOp '')'')) (\<lambda>_. returnP (NDateTrunc grain inner)))))
        else (\<lambda>ts. case accept (TOp '')'') ts of
                Some r \<Rightarrow> Parsed (NFunc name []) r
              | None \<Rightarrow> bindP expr (\<lambda>a ts'. bindP (args_loop expr (length ts') [a]) (\<lambda>args.
                          bindP (expect (TOp '')'')) (\<lambda>_. returnP (NFunc name args))) ts') ts)))"

definition parse_case :: "node parser \<Rightarrow> node parser \<Rightarrow> node parser" where
  "parse_case expr cond =
     bindP (expect (TKw ''case'')) (\<lambda>_ ts. bindP (whens_loop expr cond (length ts) []) (\<lambda>whens.
       if whens = [] then (\<lambda>_. NotAllowed)
       else (\<lambda>ts'. case accept (TKw ''else'') ts' of
               Some r \<Rightarrow> bindP expr (\<lambda>e. bindP (expect (TKw ''end'')) (\<lambda>_. returnP (NCase whens (Some e)))) r
             | None \<Rightarrow> bindP (expect (TKw ''end'')) (\<lambda>_. returnP (NCase whens None)) ts')) ts)"

definition parse_term :: "node parser \<Rightarrow> node parser \<Rightarrow> node parser" where
  "parse_term expr cond ts =
     (case ts of
        [] \<Rightarrow> NotAllowed
      | TOp x # r \<Rightarrow>
          if x = ''-'' then bindP expect_number (\<lambda>v. returnP (NLit (LNum (''-'' @ v)))) r
          else if x = ''('' then bindP expr (\<lambda>inner. bindP (expect (TOp '')'')) (\<lambda>_. returnP inner)) r
          else NotAllowed
      | TNumber v # r \<Rightarrow> Parsed (NLit (LNum v)) r
      | TString v # r \<Rightarrow> Parsed (NLit (LStr v)) r
      | TKw k # r \<Rightarrow>
          if k = ''true'' \<or> k = ''false'' then Parsed (NLit (LBool k)) r
          else if k = ''null'' then Parsed (NLit LNull) r
          else if k = ''case'' then parse_case expr cond ts
          else NotAllowed
      | TIdent v # r \<Rightarrow>
          if accept (TOp ''('') r \<noteq> None then parse_func expr v r
          else if \<not> name_ok v then NotAllowed
          else Parsed (NCol v) r)"

definition parse_mul :: "node parser \<Rightarrow> node parser \<Rightarrow> node parser" where
  "parse_mul expr cond =
     bindP (parse_term expr cond) (\<lambda>node ts. bin_loop [''*'', ''/'', ''%''] (parse_term expr cond) (length ts) node ts)"

definition expr_body :: "node parser \<Rightarrow> node parser \<Rightarrow> node parser" where
  "expr_body expr cond =
     bindP (parse_mul expr cond) (\<lambda>node ts. bin_loop [''+'', ''-''] (parse_mul expr cond) (length ts) node ts)"

subsection \<open>Conditions\<close>

definition comparison_ops :: "string list" where
  "comparison_ops = [''='', ''!='', ''>'', ''>='', ''<'', ''<='']"

definition bare_comparison :: "node parser \<Rightarrow> node parser" where
  "bare_comparison expr =
     bindP expr (\<lambda>left ts.
       case accept (TKw ''is'') ts of
         Some r \<Rightarrow>
           (case accept (TKw ''not'') r of
              Some r' \<Rightarrow> bindP (expect (TKw ''null'')) (\<lambda>_. returnP (NCond ''IS NOT NULL'' left None)) r'
            | None \<Rightarrow> bindP (expect (TKw ''null'')) (\<lambda>_. returnP (NCond ''IS NULL'' left None)) r)
       | None \<Rightarrow>
           (case ts of
              TOp x # r \<Rightarrow>
                if x \<in> set comparison_ops then bindP expr (\<lambda>right. returnP (NCond x left (Some right))) r
                else NotAllowed
            | _ \<Rightarrow> NotAllowed))"

definition parse_comparison :: "node parser \<Rightarrow> node parser \<Rightarrow> node parser" where
  "parse_comparison expr cond ts =
     (case accept (TOp ''('') ts of
        Some r \<Rightarrow>
          (case bindP cond (\<lambda>inner. bindP (expect (TOp '')'')) (\<lambda>_. returnP inner)) r of
             NotAllowed \<Rightarrow> bare_comparison expr ts
           | result \<Rightarrow> result)
      | None \<Rightarrow> bare_comparison expr ts)"

fun parse_not :: "node parser \<Rightarrow> node parser \<Rightarrow> node parser" where
  "parse_not expr cond [] = parse_comparison expr cond []"
| "parse_not expr cond (t # ts) =
     (if t = TKw ''not''
      then (case parse_not expr cond ts of
              Parsed c r \<Rightarrow> Parsed (NNot c) r | NotAllowed \<Rightarrow> NotAllowed | OutOfFuel \<Rightarrow> OutOfFuel)
      else parse_comparison expr cond (t # ts))"

fun logic_loop :: "string \<Rightarrow> string \<Rightarrow> node parser \<Rightarrow> nat \<Rightarrow> node \<Rightarrow> node parser" where
  "logic_loop kw op sub n node ts =
     (case accept (TKw kw) ts of
        None \<Rightarrow> Parsed node ts
      | Some r \<Rightarrow>
          (case n of
             0 \<Rightarrow> OutOfFuel
           | Suc m \<Rightarrow> bindP sub (\<lambda>right. logic_loop kw op sub m (NLogic op node right)) r))"

declare logic_loop.simps [simp del]

definition parse_and :: "node parser \<Rightarrow> node parser \<Rightarrow> node parser" where
  "parse_and expr cond =
     bindP (parse_not expr cond) (\<lambda>node ts. logic_loop ''and'' ''AND'' (parse_not expr cond) (length ts) node ts)"

definition cond_body :: "node parser \<Rightarrow> node parser \<Rightarrow> node parser" where
  "cond_body expr cond =
     bindP (parse_and expr cond) (\<lambda>node ts. logic_loop ''or'' ''OR'' (parse_and expr cond) (length ts) node ts)"

fun parse_expr :: "nat \<Rightarrow> node parser" and parse_cond :: "nat \<Rightarrow> node parser" where
  "parse_expr 0 ts = OutOfFuel"
| "parse_expr (Suc fuel) ts = expr_body (parse_expr fuel) (parse_cond fuel) ts"
| "parse_cond 0 ts = OutOfFuel"
| "parse_cond (Suc fuel) ts = cond_body (parse_expr fuel) (parse_cond fuel) ts"

definition fuel_for :: "token list \<Rightarrow> nat" where
  "fuel_for ts = 2 * length ts + 2"

definition whole_input :: "node presult \<Rightarrow> node presult" where
  "whole_input res =
     (case res of Parsed x ts \<Rightarrow> if ts = [] then Parsed x [] else NotAllowed
      | NotAllowed \<Rightarrow> NotAllowed | OutOfFuel \<Rightarrow> OutOfFuel)"

definition parse_expression :: "string \<Rightarrow> node presult" where
  "parse_expression text =
     (case tokenize text of
        None \<Rightarrow> NotAllowed
      | Some ts \<Rightarrow> whole_input (parse_expr (fuel_for ts) ts))"

definition parse_condition :: "string \<Rightarrow> node presult" where
  "parse_condition text =
     (case tokenize text of
        None \<Rightarrow> NotAllowed
      | Some ts \<Rightarrow> whole_input (parse_cond (fuel_for ts) ts))"

subsection \<open>Column collector\<close>

text \<open>The stack of the loop is a list with its top first.\<close>

fun children :: "node \<Rightarrow> node list" where
  "children (NCol _) = []"
| "children (NLit _) = []"
| "children (NBin _ l r) = [l, r]"
| "children (NFunc _ args) = args"
| "children (NCast e _) = [e]"
| "children (NExtract _ e) = [e]"
| "children (NDateTrunc _ e) = [e]"
| "children (NCase ws els) =
     (case els of None \<Rightarrow> [] | Some e \<Rightarrow> [e]) @
     concat (map (\<lambda>w. case w of NWhen c e \<Rightarrow> [c, e] | _ \<Rightarrow> []) ws)"
| "children (NWhen _ _) = []"
| "children (NCond _ l r) = l # (case r of None \<Rightarrow> [] | Some e \<Rightarrow> [e])"
| "children (NLogic _ l r) = [l, r]"
| "children (NNot c) = [c]"

definition weight :: "node list \<Rightarrow> nat" where
  "weight ns = sum_list (map (\<lambda>n. 2 * size n + 1) ns)"

lemma weight_simps [simp]: "weight [] = 0" "weight (n # ns) = 2 * size n + 1 + weight ns"
    "weight (rev ns) = weight ns" "weight (ns @ ms) = weight ns + weight ms"
  by (simp_all add: weight_def rev_map [symmetric] sum_list_rev)

lemma weight_args: "weight ns \<le> 2 * size_list size ns"
  by (induction ns) simp_all

lemma weight_whens: "weight (concat (map (\<lambda>w. case w of NWhen c e \<Rightarrow> [c, e] | _ \<Rightarrow> []) ws)) \<le> 2 * size_list size ws"
  by (induction ws) (auto split: node.splits)

lemma children_lighter: "weight (children n) < 2 * size n + 1"
proof (cases n)
  case (NCase ws els)
  then show ?thesis using weight_whens [of ws] by (auto split: option.splits)
next
  case (NFunc f args)
  then show ?thesis using weight_args [of args] by simp
qed (auto split: option.splits)

function collect_loop :: "node list \<Rightarrow> string set \<Rightarrow> string set" where
  "collect_loop [] out = out"
| "collect_loop (n # stack) out =
     (if is_col n then collect_loop stack (insert (col_name n) out)
      else collect_loop (rev (children n) @ stack) out)"
  by pat_completeness auto

termination
  by (relation "measure (\<lambda>(stack, _). weight stack)") (use children_lighter in auto)

definition collect_columns :: "node option \<Rightarrow> string set" where
  "collect_columns node = (case node of None \<Rightarrow> {} | Some n \<Rightarrow> collect_loop [n] {})"

subsection \<open>Well-formed trees\<close>

definition num_ok :: "string \<Rightarrow> bool" where
  "num_ok v \<longleftrightarrow> v \<noteq> [] \<and> ascii_digit (hd v) \<and> match_number v = (v, [])"

definition ident_ok :: "string \<Rightarrow> bool" where
  "ident_ok v \<longleftrightarrow> v \<noteq> [] \<and> ident_start (hd v) \<and> list_all ident_char v \<and> py_lower v \<notin> set KEYWORDS"

fun tok_ok :: "token \<Rightarrow> bool" where
  "tok_ok (TIdent v) \<longleftrightarrow> ident_ok v"
| "tok_ok (TNumber v) \<longleftrightarrow> num_ok v"
| "tok_ok (TString v) \<longleftrightarrow> \<not> forbidden v"
| "tok_ok (TOp _) \<longleftrightarrow> True"
| "tok_ok (TKw _) \<longleftrightarrow> True"

fun lit_ok :: "lit \<Rightarrow> bool" where
  "lit_ok (LNum v) \<longleftrightarrow> num_ok (if v \<noteq> [] \<and> hd v = CHR ''-'' then tl v else v)"
| "lit_ok (LStr v) \<longleftrightarrow> \<not> forbidden v"
| "lit_ok (LBool k) \<longleftrightarrow> k = ''true'' \<or> k = ''false''"
| "lit_ok LNull \<longleftrightarrow> True"

definition arith_ops :: "string list" where
  "arith_ops = [''*'', ''/'', ''%'', ''+'', ''-'']"

definition plain_funcs :: "string list" where
  "plain_funcs = [''coalesce'', ''nullif'', ''lower'', ''upper'', ''trim'', ''concat'', ''abs'', ''round'']"

datatype nsort = Expr | Cond | When

fun wf :: "nsort \<Rightarrow> node \<Rightarrow> bool" where
  "wf k (NCol v) \<longleftrightarrow> k = Expr \<and> name_ok v \<and> ident_ok v"
| "wf k (NLit l) \<longleftrightarrow> k = Expr \<and> lit_ok l"
| "wf k (NBin x l r) \<longleftrightarrow> k = Expr \<and> x \<in> set arith_ops \<and> wf Expr l \<and> wf Expr r"
| "wf k (NFunc f args) \<longleftrightarrow> k = Expr \<and> f \<in> set plain_funcs \<and> (\<forall>a \<in> set args. wf Expr a)"
| "wf k (NCast e t) \<longleftrightarrow> k = Expr \<and> wf Expr e \<and> t \<in> set CAST_TYPES"
| "wf k (NExtract p e) \<longleftrightarrow> k = Expr \<and> p \<in> set EXTRACT_PARTS \<and> wf Expr e"
| "wf k (NDateTrunc g e) \<longleftrightarrow> k = Expr \<and> g \<in> set TIME_GRAINS \<and> wf Expr e"
| "wf k (NCase ws els) \<longleftrightarrow> k = Expr \<and> ws \<noteq> [] \<and> (\<forall>w \<in> set ws. wf When w) \<and> (\<forall>e \<in> set_option els. wf Expr e)"
| "wf k (NWhen c e) \<longleftrightarrow> k = When \<and> wf Cond c \<and> wf Expr e"
| "wf k (NCond x l r) \<longleftrightarrow> k = Cond \<and> wf Expr l \<and>
     (if x = ''IS NULL'' \<or> x = ''IS NOT NULL'' then r = None
      else x \<in> set comparison_ops \<and> r \<noteq> None \<and> (\<forall>e \<in> set_option r. wf Expr e))"
| "wf k (NLogic x l r) \<longleftrightarrow> k = Cond \<and> (x = ''AND'' \<or> x = ''OR'') \<and> wf Cond l \<and> wf Cond r"
| "wf k (NNot c) \<longleftrightarrow> k = Cond \<and> wf Cond c"

subsection \<open>The contract of a parser\<close>

text \<open>\<open>works N W P\<close>: on at most \<open>N\<close> well-formed tokens \<open>P\<close> does not run out of fuel, and where it
  succeeds it has consumed a token and its result satisfies \<open>W\<close>.\<close>

definition spec :: "nat \<Rightarrow> ('a \<Rightarrow> bool) \<Rightarrow> 'a presult \<Rightarrow> bool" where
  "spec n W res \<longleftrightarrow>
     (case res of Parsed x r \<Rightarrow> length r < n \<and> list_all tok_ok r \<and> W x | NotAllowed \<Rightarrow> True | OutOfFuel \<Rightarrow> False)"

definition works :: "nat \<Rightarrow> ('a \<Rightarrow> bool) \<Rightarrow> 'a parser \<Rightarrow> bool" where
  "works N W P \<longleftrightarrow> (\<forall>ts. list_all tok_ok ts \<longrightarrow> length ts \<le> N \<longrightarrow> spec (length ts) W (P ts))"

lemma spec_simps [simp]:
  "spec n W (Parsed x r) \<longleftrightarrow> length r < n \<and> list_all tok_ok r \<and> W x" "spec n W NotAllowed"
  "\<not> spec n W OutOfFuel" "spec n W (returnP x r) \<longleftrightarrow> length r < n \<and> list_all tok_ok r \<and> W x"
  by (simp_all add: spec_def returnP_def)

lemma spec_bind:
  "spec n V (p ts) \<Longrightarrow> (\<And>x r. length r < n \<Longrightarrow> list_all tok_ok r \<Longrightarrow> V x \<Longrightarrow> spec m W (k x r)) \<Longrightarrow>
   spec m W (bindP p k ts)"
  by (cases "p ts") (simp_all add: bindP_def)

lemma spec_mono: "spec m W res \<Longrightarrow> m \<le> n \<Longrightarrow> spec n W res"
  by (auto simp: spec_def split: presult.splits)

lemma worksD: "works N W P \<Longrightarrow> list_all tok_ok ts \<Longrightarrow> length ts \<le> N \<Longrightarrow> length ts \<le> n \<Longrightarrow> spec n W (P ts)"
  by (auto simp: works_def intro: spec_mono)

lemma spec_expect: "list_all tok_ok ts \<Longrightarrow> length ts \<le> n \<Longrightarrow> spec n (\<lambda>_. True) (expect t ts)"
  by (cases ts) (auto simp: expect_def accept_def)

lemma spec_expect_ident: "list_all tok_ok ts \<Longrightarrow> length ts \<le> n \<Longrightarrow> spec n ident_ok (expect_ident ts)"
  by (cases ts rule: list.exhaust; cases "hd ts") (auto simp: expect_ident_def)

lemma spec_expect_number: "list_all tok_ok ts \<Longrightarrow> length ts \<le> n \<Longrightarrow> spec n num_ok (expect_number ts)"
  by (cases ts rule: list.exhaust; cases "hd ts") (auto simp: expect_number_def)

lemma spec_expect_string: "list_all tok_ok ts \<Longrightarrow> length ts \<le> n \<Longrightarrow> spec n (\<lambda>v. \<not> forbidden v) (expect_string ts)"
  by (cases ts rule: list.exhaust; cases "hd ts") (auto simp: expect_string_def)

lemmas bind_rules =
  spec_bind [OF spec_expect [OF _ le_refl]] spec_bind [OF spec_expect_ident [OF _ le_refl]]
  spec_bind [OF spec_expect_number [OF _ le_refl]] spec_bind [OF spec_expect_string [OF _ le_refl]]

lemma accept_Some: "accept t ts = Some r \<longleftrightarrow> ts = t # r"
  by (cases ts) (auto simp: accept_def)

lemma bin_loop_spec:
  assumes sub: "works N (wf Expr) sub" and ops: "set ops \<subseteq> set arith_ops"
  shows "length ts \<le> n \<Longrightarrow> length ts \<le> Suc N \<Longrightarrow> list_all tok_ok ts \<Longrightarrow> wf Expr node \<Longrightarrow> length ts < m \<Longrightarrow>
    spec m (wf Expr) (bin_loop ops sub n node ts)"
proof (induction n arbitrary: node ts)
  case 0
  then show ?case by (simp add: bin_loop.simps)
next
  case (Suc n)
  have "spec m (wf Expr) (bindP sub (\<lambda>right. bin_loop ops sub n (NBin x node right)) r)"
    if r: "ts = TOp x # r" and x: "x \<in> set ops" for x r
  proof (rule spec_bind)
    show "spec (length r) (wf Expr) (sub r)" using Suc.prems r by (intro worksD [OF sub]) auto
  qed (use Suc r x ops in auto)
  then show ?case using Suc.prems by (auto simp: bin_loop.simps split: list.splits token.splits)
qed

lemma logic_loop_spec:
  assumes sub: "works N (wf Cond) sub" and kw: "x = ''AND'' \<or> x = ''OR''"
  shows "length ts \<le> n \<Longrightarrow> length ts \<le> Suc N \<Longrightarrow> list_all tok_ok ts \<Longrightarrow> wf Cond node \<Longrightarrow> length ts < m \<Longrightarrow>
    spec m (wf Cond) (logic_loop k x sub n node ts)"
proof (induction n arbitrary: node ts)
  case 0
  then show ?case by (simp add: logic_loop.simps accept_def)
next
  case (Suc n)
  have "spec m (wf Cond) (bindP sub (\<lambda>right. logic_loop k x sub n (NLogic x node right)) r)"
    if r: "ts = TKw k # r" for r
  proof (rule spec_bind)
    show "spec (length r) (wf Cond) (sub r)" using Suc.prems r by (intro worksD [OF sub]) auto
  qed (use Suc r kw in auto)
  then show ?case using Suc.prems by (auto simp: logic_loop.simps accept_Some split: option.splits)
qed

locale nested_parsers =
  fixes expr cond :: "node parser" and N :: nat
  assumes expr: "works N (wf Expr) expr" and cond: "works N (wf Cond) cond"
begin

lemmas nested_rules = spec_bind [OF worksD [OF expr _ _ le_refl]] spec_bind [OF worksD [OF cond _ _ le_refl]]

lemma args_loop_spec:
  "length ts \<le> n \<Longrightarrow> length ts \<le> Suc N \<Longrightarrow> list_all tok_ok ts \<Longrightarrow> \<forall>a \<in> set args. wf Expr a \<Longrightarrow> length ts < m \<Longrightarrow>
   spec m (\<lambda>as. \<forall>a \<in> set as. wf Expr a) (args_loop expr n args ts)"
proof (induction n arbitrary: args ts)
  case 0
  then show ?case by (simp add: args_loop.simps accept_def)
next
  case (Suc n)
  have "spec m (\<lambda>as. \<forall>a \<in> set as. wf Expr a) (bindP expr (\<lambda>a. args_loop expr n (args @ [a])) r)"
    if r: "ts = TOp '','' # r" for r
    by (rule nested_rules) (use Suc r in auto)
  then show ?case using Suc.prems by (auto simp: args_loop.simps accept_Some split: option.splits)
qed

lemma whens_loop_spec:
  "length ts \<le> n \<Longrightarrow> length ts \<le> Suc N \<Longrightarrow> list_all tok_ok ts \<Longrightarrow> \<forall>w \<in> set ws. wf When w \<Longrightarrow> length ts < m \<Longrightarrow>
   spec m (\<lambda>ws. \<forall>w \<in> set ws. wf When w) (whens_loop expr cond n ws ts)"
proof (induction n arbitrary: ws ts)
  case 0
  then show ?case by (simp add: whens_loop.simps accept_def)
next
  case (Suc n)
  have "spec m (\<lambda>ws. \<forall>w \<in> set ws. wf When w)
      (bindP cond (\<lambda>c. bindP (expect (TKw ''then'')) (\<lambda>_. bindP expr (\<lambda>e.
         whens_loop expr cond n (ws @ [NWhen c e])))) r)"
    if r: "ts = TKw ''when'' # r" for r
    by (intro nested_rules bind_rules Suc.IH) (use Suc.prems r in auto)
  then show ?case using Suc.prems by (auto simp: whens_loop.simps accept_Some split: option.splits)
qed

lemma plain_func: "f \<in> set FUNC_WHITELIST \<Longrightarrow> f \<noteq> ''cast'' \<Longrightarrow> f \<noteq> ''extract'' \<Longrightarrow> f \<noteq> ''date_trunc'' \<Longrightarrow>
    f \<in> set plain_funcs"
  by (auto simp: FUNC_WHITELIST_def plain_funcs_def)

lemma bind_args:
  assumes "length ts \<le> Suc N" and "list_all tok_ok ts" and "\<forall>a \<in> set args. wf Expr a"
    and "\<And>as r. length r \<le> length ts \<Longrightarrow> list_all tok_ok r \<Longrightarrow> \<forall>a \<in> set as. wf Expr a \<Longrightarrow> spec m W (k as r)"
  shows "spec m W (bindP (args_loop expr (length ts) args) k ts)"
  using assms by (intro spec_bind [where n = "Suc (length ts)", OF args_loop_spec]) auto

lemma bind_whens:
  assumes "length ts \<le> Suc N" and "list_all tok_ok ts"
    and "\<And>ws r. length r \<le> length ts \<Longrightarrow> list_all tok_ok r \<Longrightarrow> \<forall>w \<in> set ws. wf When w \<Longrightarrow> spec m W (k ws r)"
  shows "spec m W (bindP (whens_loop expr cond (length ts) []) k ts)"
  using assms by (intro spec_bind [where n = "Suc (length ts)", OF whens_loop_spec]) auto

lemma call_spec:
  assumes "f \<in> set plain_funcs" and "length r \<le> N" and "length r < m" and "list_all tok_ok r"
  shows "spec m (wf Expr) (bindP expr (\<lambda>a ts'. bindP (args_loop expr (length ts') [a]) (\<lambda>args.
      bindP (expect (TOp '')'')) (\<lambda>_. returnP (NFunc f args))) ts') r)"
  by (intro nested_rules bind_rules bind_args) (use assms in auto)

lemma parse_func_spec:
  assumes "list_all tok_ok ts" and "length ts \<le> Suc N" and "length ts \<le> m"
  shows "spec m (wf Expr) (parse_func expr f ts)"
proof -
  consider (cast) "f = ''cast''" | (ext) "f = ''extract''" | (trunc) "f = ''date_trunc''"
    | (plain) "f \<in> set FUNC_WHITELIST" "f \<noteq> ''cast''" "f \<noteq> ''extract''" "f \<noteq> ''date_trunc''"
    | (unknown) "f \<notin> set FUNC_WHITELIST" by blast
  then show ?thesis
  proof cases
    case cast
    then have "parse_func expr f = bindP (expect (TOp ''('')) (\<lambda>_. bindP expr (\<lambda>inner. bindP (expect (TKw ''as''))
        (\<lambda>_. bindP expect_ident (\<lambda>type. if type \<notin> set CAST_TYPES then (\<lambda>_. NotAllowed)
               else bindP (expect (TOp '')'')) (\<lambda>_. returnP (NCast inner type))))))"
      by (simp add: parse_func_def FUNC_WHITELIST_def)
    then show ?thesis
      by (simp only:, intro nested_rules bind_rules) (use assms in \<open>auto intro!: bind_rules\<close>)
  next
    case ext
    then have "parse_func expr f = bindP (expect (TOp ''('')) (\<lambda>_. bindP expect_ident (\<lambda>part.
        if part \<notin> set EXTRACT_PARTS then (\<lambda>_. NotAllowed)
        else bindP (expect (TKw ''from'')) (\<lambda>_. bindP expr (\<lambda>inner.
               bindP (expect (TOp '')'')) (\<lambda>_. returnP (NExtract part inner))))))"
      by (simp add: parse_func_def FUNC_WHITELIST_def)
    then show ?thesis
      by (simp only:, intro bind_rules) (use assms in \<open>auto intro!: bind_rules nested_rules\<close>)
  next
    case trunc
    then have "parse_func expr f = bindP (expect (TOp ''('')) (\<lambda>_. bindP expect_string (\<lambda>grain.
        if grain \<notin> set TIME_GRAINS then (\<lambda>_. NotAllowed)
        else bindP (expect (TOp '','')) (\<lambda>_. bindP expr (\<lambda>inner.
               bindP (expect (TOp '')'')) (\<lambda>_. returnP (NDateTrunc grain inner))))))"
      by (simp add: parse_func_def FUNC_WHITELIST_def)
    then show ?thesis
      by (simp only:, intro bind_rules) (use assms in \<open>auto intro!: bind_rules nested_rules\<close>)
  next
    case plain
    have "spec m (wf Expr) (case accept (TOp '')'') r of Some r' \<Rightarrow> Parsed (NFunc f []) r'
        | None \<Rightarrow> bindP expr (\<lambda>a ts'. bindP (args_loop expr (length ts') [a]) (\<lambda>args.
             bindP (expect (TOp '')'')) (\<lambda>_. returnP (NFunc f args))) ts') r)"
      if "length r < length ts" "list_all tok_ok r" for r
      using that assms plain_func [OF plain] by (auto simp: accept_Some intro: call_spec split: option.splits)
    then show ?thesis unfolding parse_func_def
      using plain assms by (auto intro!: bind_rules)
  next
    case unknown
    then show ?thesis by (simp add: parse_func_def)
  qed
qed

lemma parse_case_spec:
  assumes "list_all tok_ok ts" and "length ts \<le> Suc N" and "length ts \<le> m"
  shows "spec m (wf Expr) (parse_case expr cond ts)"
proof -
  have "spec m (wf Expr) ((if ws = [] then (\<lambda>_. NotAllowed)
       else (\<lambda>ts'. case accept (TKw ''else'') ts' of
               Some r \<Rightarrow> bindP expr (\<lambda>e. bindP (expect (TKw ''end'')) (\<lambda>_. returnP (NCase ws (Some e)))) r
             | None \<Rightarrow> bindP (expect (TKw ''end'')) (\<lambda>_. returnP (NCase ws None)) ts')) r)"
    if "length r < length ts" "list_all tok_ok r" "\<forall>w \<in> set ws. wf When w" for ws r
    using that assms by (auto simp: accept_Some intro!: nested_rules bind_rules split: option.splits)
  then show ?thesis
    unfolding parse_case_def by (intro bind_rules bind_whens) (use assms in auto)
qed

lemma term_works: "works (Suc N) (wf Expr) (parse_term expr cond)"
proof -
  have "spec (length ts) (wf Expr) (parse_term expr cond ts)"
    if "list_all tok_ok ts" "length ts \<le> Suc N" for ts
  proof (cases ts)
    case Nil
    then show ?thesis by (simp add: parse_term_def)
  next
    case (Cons t r)
    note here = that Cons
    show ?thesis
    proof (cases t)
      case (TIdent v)
      then show ?thesis using here parse_func_spec [of r "length ts" v] by (simp add: parse_term_def)
    next
      case (TNumber v)
      then show ?thesis using here by (auto simp: parse_term_def num_ok_def ascii_digit_def)
    next
      case (TString v)
      then show ?thesis using here by (simp add: parse_term_def)
    next
      case (TOp x)
      then show ?thesis using here
        by (auto simp: parse_term_def num_ok_def intro!: nested_rules bind_rules)
    next
      case (TKw k)
      then show ?thesis using here parse_case_spec [of ts "length ts"] by (auto simp: parse_term_def)
    qed
  qed
  then show ?thesis by (simp add: works_def)
qed

lemma bin_works:
  assumes "works (Suc N) (wf Expr) sub" and "set ops \<subseteq> set arith_ops"
  shows "works (Suc N) (wf Expr) (bindP sub (\<lambda>node ts. bin_loop ops sub (length ts) node ts))"
  unfolding works_def
  by (intro allI impI spec_bind [OF worksD [OF assms(1) _ _ le_refl]] bin_loop_spec [OF assms]) auto

lemma expr_body_works: "works (Suc N) (wf Expr) (expr_body expr cond)"
  unfolding expr_body_def parse_mul_def
  by (intro bin_works term_works) (simp_all add: arith_ops_def)

end

locale condition_parsers = nested_parsers +
  assumes expr_here: "works (Suc N) (wf Expr) expr"
begin

lemmas here_rule = spec_bind [OF worksD [OF expr_here _ _ le_refl]]

lemma bare_works: "works (Suc N) (wf Cond) (bare_comparison expr)"
proof -
  have "spec (length ts) (wf Cond)
      (case accept (TKw ''is'') r of
         Some r' \<Rightarrow>
           (case accept (TKw ''not'') r' of
              Some r'' \<Rightarrow> bindP (expect (TKw ''null'')) (\<lambda>_. returnP (NCond ''IS NOT NULL'' left None)) r''
            | None \<Rightarrow> bindP (expect (TKw ''null'')) (\<lambda>_. returnP (NCond ''IS NULL'' left None)) r')
       | None \<Rightarrow>
           (case r of
              TOp x # r' \<Rightarrow>
                if x \<in> set comparison_ops then bindP expr (\<lambda>right. returnP (NCond x left (Some right))) r'
                else NotAllowed
            | _ \<Rightarrow> NotAllowed))"
    if "length ts \<le> Suc N" "length r < length ts" "list_all tok_ok r" "wf Expr left" for ts r left
    using that
    by (auto simp: accept_Some comparison_ops_def intro!: here_rule bind_rules split: option.splits list.splits token.splits)
  then show ?thesis unfolding works_def bare_comparison_def by (intro allI impI here_rule) auto
qed

lemma comparison_works: "works (Suc N) (wf Cond) (parse_comparison expr cond)"
proof -
  have "spec (length ts) (wf Cond) (parse_comparison expr cond ts)"
    if ts: "list_all tok_ok ts" "length ts \<le> Suc N" for ts
  proof (cases "accept (TOp ''('') ts")
    case None
    then show ?thesis using worksD [OF bare_works ts le_refl] by (simp add: parse_comparison_def)
  next
    case (Some r)
    have "spec (length ts) (wf Cond) (bindP cond (\<lambda>inner. bindP (expect (TOp '')'')) (\<lambda>_. returnP inner)) r)"
      by (intro nested_rules bind_rules) (use ts Some in \<open>auto simp: accept_Some\<close>)
    then show ?thesis
      using worksD [OF bare_works ts le_refl] Some by (auto simp: parse_comparison_def split: presult.splits)
  qed
  then show ?thesis by (simp add: works_def)
qed

lemma not_spec:
  "list_all tok_ok ts \<Longrightarrow> length ts \<le> Suc N \<Longrightarrow> spec (length ts) (wf Cond) (parse_not expr cond ts)"
proof (induction ts)
  case Nil
  then show ?case using worksD [OF comparison_works, of "[]" 0] by simp
next
  case (Cons t ts)
  then have "spec (Suc (length ts)) (wf Cond) (parse_not expr cond ts)" by (intro spec_mono [OF Cons.IH]) auto
  then show ?case using worksD [OF comparison_works, of "t # ts" "length (t # ts)"] Cons.prems
    by (auto split: presult.splits)
qed

lemma logic_works:
  assumes "works (Suc N) (wf Cond) sub" and "x = ''AND'' \<or> x = ''OR''"
  shows "works (Suc N) (wf Cond) (bindP sub (\<lambda>node ts. logic_loop k x sub (length ts) node ts))"
  unfolding works_def
  by (intro allI impI spec_bind [OF worksD [OF assms(1) _ _ le_refl]] logic_loop_spec [OF assms]) auto

lemma cond_body_works: "works (Suc N) (wf Cond) (cond_body expr cond)"
proof -
  have "works (Suc N) (wf Cond) (parse_not expr cond)" using not_spec by (simp add: works_def)
  then show ?thesis unfolding cond_body_def parse_and_def by (intro logic_works) simp_all
qed

end

lemma spec_nil: "works 0 W P \<longleftrightarrow> spec 0 W (P [])"
  by (auto simp: works_def)

lemma empty_input:
  "expr_body E C [] = NotAllowed" "E [] = NotAllowed \<Longrightarrow> cond_body E C [] = NotAllowed"
  by (simp_all add: expr_body_def parse_mul_def parse_term_def cond_body_def parse_and_def
      parse_comparison_def bare_comparison_def bindP_def accept_def)

lemma grammar_works:
  "(\<forall>f. 2 * N + 1 \<le> f \<longrightarrow> works N (wf Expr) (parse_expr f)) \<and>
   (\<forall>f. 2 * N + 2 \<le> f \<longrightarrow> works N (wf Cond) (parse_cond f))"
proof (induction N)
  case 0
  have e: "parse_expr f [] = NotAllowed" if "1 \<le> f" for f
    using that by (cases f) (simp_all add: empty_input)
  moreover have "parse_cond f [] = NotAllowed" if "2 \<le> f" for f
    using that by (cases f) (simp_all add: empty_input e)
  ultimately show ?case by (simp add: spec_nil)
next
  case (Suc N)
  have e: "works (Suc N) (wf Expr) (parse_expr f)" if f: "2 * Suc N + 1 \<le> f" for f
  proof (cases f)
    case (Suc g)
    then have "nested_parsers (parse_expr g) (parse_cond g) N"
      using Suc.IH f by unfold_locales simp_all
    from nested_parsers.expr_body_works [OF this] show ?thesis using Suc by (simp add: works_def)
  qed (use f in simp)
  have "works (Suc N) (wf Cond) (parse_cond f)" if f: "2 * Suc N + 2 \<le> f" for f
  proof (cases f)
    case (Suc g)
    then have "condition_parsers (parse_expr g) (parse_cond g) N"
      using Suc.IH e f by unfold_locales simp_all
    from condition_parsers.cond_body_works [OF this] show ?thesis using Suc by (simp add: works_def)
  qed (use f in simp)
  with e show ?case by blast
qed

interpretation grammar: condition_parsers "parse_expr (2 * n + 3)" "parse_cond (2 * n + 3)" n for n
  using grammar_works [of n] grammar_works [of "Suc n"] by unfold_locales simp_all

subsection \<open>Tokens are well-formed\<close>

lemma contains_left: "py_contains p a \<Longrightarrow> py_contains p (a @ b)"
proof (induction a)
  case Nil
  then show ?case by (cases b) simp_all
next
  case (Cons c a)
  have "take (length p) (c # a @ b) = p" if "take (length p) (c # a) = p"
  proof -
    have "length p \<le> length (c # a)" using arg_cong [OF that, of length] by simp
    then show ?thesis using that by (metis append_Cons take_all_iff take_append append.right_neutral diff_is_0_eq' take0)
  qed
  then show ?case using Cons by auto
qed

lemma contains_right: "py_contains p b \<Longrightarrow> py_contains p (a @ b)"
  by (induction a) simp_all

lemma forbidden_part: "forbidden b \<Longrightarrow> forbidden (a @ b @ c)"
  by (auto simp: forbidden_def intro: contains_left contains_right)

lemma forbidden_right: "forbidden b \<Longrightarrow> forbidden (a @ b)"
  using forbidden_part [of b a "[]"] by simp

lemma contains_char: "py_contains [x] s \<longleftrightarrow> x \<in> set s"
  by (induction s) auto

lemma contains_pair_Cons:
  "py_contains [x, y] (c # s) \<longleftrightarrow> (c = x \<and> s \<noteq> [] \<and> hd s = y) \<or> py_contains [x, y] s"
  by (cases s) auto

lemma unescape_hd: "s \<noteq> [] \<Longrightarrow> unescape s \<noteq> [] \<and> hd (unescape s) = hd s"
  by (induction s rule: unescape.induct) auto

lemma unescape_set: "set (unescape s) \<subseteq> set s"
  by (induction s rule: unescape.induct) auto

lemma unescape_pair:
  "x \<noteq> quote_char \<Longrightarrow> py_contains [x, y] (unescape s) \<Longrightarrow> py_contains [x, y] s"
proof (induction s rule: unescape.induct)
  case (1 c d cs)
  then show ?case using unescape_hd [of "d # cs"] by (auto simp: contains_pair_Cons simp del: py_contains.simps split: if_splits)
qed simp_all

lemma forbidden_unescape: "forbidden (unescape s) \<Longrightarrow> forbidden s"
  using unescape_set [of s] unescape_pair [of "CHR ''-''" "CHR ''-''" s] unescape_pair [of "CHR ''/''" "CHR ''*''" s]
  by (auto simp: forbidden_def contains_char)

lemma match_string_split: "match_string s = Some (b, r) \<Longrightarrow> s = b @ quote_char # r"
proof (induction s arbitrary: b r rule: match_string.induct)
  case (2 c cs)
  then show ?case by (auto split: if_splits list.splits option.splits)
qed simp

lemma match_number_Nil:
  "dropWhile ascii_digit s = [] \<Longrightarrow> match_number s = (takeWhile ascii_digit s, [])"
  by (simp only: match_number_def Let_def list.case)

lemma match_number_Cons:
  "dropWhile ascii_digit s = c # cs \<Longrightarrow> match_number s =
     (if c = CHR ''.'' \<and> cs \<noteq> [] \<and> ascii_digit (hd cs)
      then (takeWhile ascii_digit s @ c # takeWhile ascii_digit cs, dropWhile ascii_digit cs)
      else (takeWhile ascii_digit s, c # cs))"
  by (simp only: match_number_def Let_def list.case)

lemma match_number_split: "fst (match_number s) @ snd (match_number s) = s"
proof (cases "dropWhile ascii_digit s")
  case Nil
  then show ?thesis
    using takeWhile_dropWhile_id [of ascii_digit s] unfolding match_number_Nil [OF Nil] fst_conv snd_conv by metis
next
  case (Cons c cs)
  then show ?thesis
    using takeWhile_dropWhile_id [of ascii_digit s] takeWhile_dropWhile_id [of ascii_digit cs]
    by (auto simp: match_number_Cons)
qed

lemma takeWhile_all: "\<forall>c \<in> set (takeWhile P s). P c"
  by (auto dest: set_takeWhileD)

lemma takeWhile_head: "s \<noteq> [] \<Longrightarrow> P (hd s) \<Longrightarrow> takeWhile P s \<noteq> [] \<and> P (hd (takeWhile P s))"
  by (cases s) simp_all

lemma dropWhile_takeWhile: "dropWhile P (takeWhile P s) = []"
  using takeWhile_all [of P s] by (simp add: dropWhile_eq_Nil_conv)

lemma match_number_ok: "s \<noteq> [] \<Longrightarrow> ascii_digit (hd s) \<Longrightarrow> num_ok (fst (match_number s))"
proof -
  assume s: "s \<noteq> []" "ascii_digit (hd s)"
  let ?w = "takeWhile ascii_digit s"
  note w = takeWhile_head [where P = ascii_digit, OF s]
  have dot: "\<not> ascii_digit (CHR ''.'')" by (simp add: ascii_digit_def)
  have stop: "takeWhile ascii_digit (?w @ CHR ''.'' # x) = ?w"
      "dropWhile ascii_digit (?w @ CHR ''.'' # x) = CHR ''.'' # x" for x
    using takeWhile_all [of ascii_digit s] dot by (simp_all add: takeWhile_append2 dropWhile_append2)
  have whole: "num_ok ?w"
    using w match_number_Nil [OF dropWhile_takeWhile] by (simp add: num_ok_def)
  show ?thesis
  proof (cases "dropWhile ascii_digit s")
    case Nil
    then show ?thesis using whole by (simp only: match_number_Nil fst_conv)
  next
    case (Cons c cs)
    show ?thesis
    proof (cases "c = CHR ''.'' \<and> cs \<noteq> [] \<and> ascii_digit (hd cs)")
      case True
      have f: "takeWhile ascii_digit cs \<noteq> [] \<and> ascii_digit (hd (takeWhile ascii_digit cs))"
        using True by (intro takeWhile_head) simp_all
      show ?thesis
        using True w f match_number_Cons [OF stop(2) [of "takeWhile ascii_digit cs"]] match_number_Cons [OF Cons]
        by (simp add: num_ok_def stop(1) dropWhile_takeWhile)
    next
      case False
      then show ?thesis using Cons whole by (auto simp: match_number_Cons)
    qed
  qed
qed

lemma match_op_split: "match_op s = Some (x, r) \<Longrightarrow> s = x @ r"
  by (cases s; cases "tl s") (auto simp: match_op_def split: if_splits)

lemma known_names_ok: "list_all ident_ok (FUNC_WHITELIST @ CAST_TYPES @ EXTRACT_PARTS)"
  by code_simp

lemma ident_token_ok:
  assumes "ident_start c"
  shows "tok_ok (ident_token (takeWhile ident_char (c # cs)))"
proof -
  have "list_all ident_char (takeWhile ident_char (c # cs))"
    by (auto simp: list_all_iff dest: set_takeWhileD)
  then show ?thesis
    using known_names_ok assms ident_start_char [OF assms]
    by (auto simp: ident_token_def Let_def ident_ok_def list_all_iff)
qed

lemma lex_ok: "lex s = Some ts \<Longrightarrow> \<not> forbidden s \<Longrightarrow> list_all tok_ok ts"
proof (induction s arbitrary: ts rule: lex.induct)
  case (1 s)
  have step: "\<not> forbidden r" if "s = a @ r" for a r using "1.prems"(2) forbidden_right that by blast
  show ?case
  proof (cases s)
    case Nil
    then show ?thesis using "1.prems"(1) by (simp add: lex.simps)
  next
    case (Cons c cs)
    consider (ws) "py_space c" | (num) "\<not> py_space c" "ascii_digit c"
      | (str) "\<not> py_space c" "\<not> ascii_digit c" "c = quote_char"
      | (id) "\<not> py_space c" "\<not> ascii_digit c" "c \<noteq> quote_char" "ident_start c"
      | (op) "\<not> py_space c" "\<not> ascii_digit c" "c \<noteq> quote_char" "\<not> ident_start c" by blast
    then show ?thesis
    proof cases
      case ws
      have "\<not> forbidden (dropWhile py_space cs)"
        using step [of "c # takeWhile py_space cs"] Cons by simp
      then show ?thesis using "1.IH"(1) [OF Cons ws] "1.prems"(1) Cons ws by (subst (asm) lex.simps) simp
    next
      case num
      have "\<not> forbidden (snd (match_number s))" using step [OF match_number_split [symmetric]] .
      moreover obtain us where "lex (snd (match_number s)) = Some us" "ts = TNumber (fst (match_number s)) # us"
        using "1.prems"(1) Cons num by (subst (asm) lex.simps) auto
      ultimately show ?thesis
        using "1.IH"(2) [OF Cons num] match_number_ok [of s] Cons num by simp
    next
      case str
      obtain b r us where m: "match_string cs = Some (b, r)" "lex r = Some us" "ts = TString (unescape b) # us"
        using "1.prems"(1) Cons str by (subst (asm) lex.simps) (auto split: option.splits)
      have cs: "s = [c] @ b @ quote_char # r" using Cons match_string_split [OF m(1)] by simp
      have "\<not> forbidden b" using "1.prems"(2) forbidden_part [of b "[c]" "quote_char # r"] cs by metis
      moreover have "\<not> forbidden r" using step [of "[c] @ b @ [quote_char]" r] cs by simp
      ultimately show ?thesis using "1.IH"(3) [OF Cons str m(1) refl m(2)] forbidden_unescape m(3) by auto
    next
      case id
      have "\<not> forbidden (dropWhile ident_char s)" using step [of "takeWhile ident_char s"] by simp
      moreover obtain us where "lex (dropWhile ident_char s) = Some us" "ts = ident_token (takeWhile ident_char s) # us"
        using "1.prems"(1) Cons id by (subst (asm) lex.simps) auto
      ultimately show ?thesis
        using "1.IH"(4) [OF Cons id] ident_token_ok [OF id(4), of cs] Cons by simp
    next
      case op
      obtain x r us where m: "match_op s = Some (x, r)" "lex r = Some us" "ts = TOp x # us"
        using "1.prems"(1) Cons op by (subst (asm) lex.simps) (auto split: option.splits)
      then show ?thesis using "1.IH"(5) [OF Cons op m(1) refl m(2)] step [OF match_op_split [OF m(1)]] by simp
    qed
  qed
qed

lemma tokenize_ok: "tokenize text = Some ts \<Longrightarrow> list_all tok_ok ts"
  by (auto simp: tokenize_def split: if_splits intro: lex_ok)

lemma parse_spec:
  assumes "list_all tok_ok ts"
  shows "spec (length ts) (wf Expr) (parse_expr (fuel_for ts) ts)"
    and "spec (length ts) (wf Cond) (parse_cond (fuel_for ts) ts)"
proof -
  have "works (length ts) (wf Expr) (parse_expr (fuel_for ts))" "works (length ts) (wf Cond) (parse_cond (fuel_for ts))"
    using grammar_works [of "length ts"] by (simp_all add: fuel_for_def)
  then show "spec (length ts) (wf Expr) (parse_expr (fuel_for ts) ts)"
    and "spec (length ts) (wf Cond) (parse_cond (fuel_for ts) ts)"
    using assms by (auto intro: worksD)
qed

lemma whole_input_spec: "spec n W res \<Longrightarrow> whole_input res \<noteq> OutOfFuel \<and> (\<forall>e r. whole_input res = Parsed e r \<longrightarrow> r = [] \<and> W e)"
  by (auto simp: whole_input_def spec_def split: presult.splits if_splits)

lemma parse_outcome:
  "parse_expression text \<noteq> OutOfFuel \<and> (\<forall>e r. parse_expression text = Parsed e r \<longrightarrow> r = [] \<and> wf Expr e)"
  "parse_condition text \<noteq> OutOfFuel \<and> (\<forall>e r. parse_condition text = Parsed e r \<longrightarrow> r = [] \<and> wf Cond e)"
proof -
  show "parse_expression text \<noteq> OutOfFuel \<and> (\<forall>e r. parse_expression text = Parsed e r \<longrightarrow> r = [] \<and> wf Expr e)"
    unfolding parse_expression_def
    using whole_input_spec [OF parse_spec(1) [OF tokenize_ok]] by (simp split: option.splits)
  show "parse_condition text \<noteq> OutOfFuel \<and> (\<forall>e r. parse_condition text = Parsed e r \<longrightarrow> r = [] \<and> wf Cond e)"
    unfolding parse_condition_def
    using whole_input_spec [OF parse_spec(2) [OF tokenize_ok]] by (simp split: option.splits)
qed

text \<open>C23. Parsing always ends: on every text, however deeply it nests, the parser returns a tree or
  rejects the text, within a recursion depth of twice the number of tokens and two.\<close>

theorem parser_terminates: "parse_expression text \<noteq> OutOfFuel \<and> parse_condition text \<noteq> OutOfFuel"
  using parse_outcome by blast

text \<open>C24. What the parser accepts is in the restricted language: all input is consumed, every function,
  cast type, extracted part and time grain of the tree is on its list, every operator is an
  arithmetic, comparison or logical one in its place, every column is a lower-case identifier of at
  most 63 characters that is no keyword, and no string literal holds a comment mark, a semicolon or
  a double quote.\<close>

theorem parsed_is_restricted:
  "(parse_expression text = Parsed e r \<longrightarrow> r = [] \<and> wf Expr e) \<and>
   (parse_condition text = Parsed e r \<longrightarrow> r = [] \<and> wf Cond e)"
  using parse_outcome by blast

theorem parsed_is_restricted_witness:
  "wf Cond (NCond ''>='' (NBin ''+'' (NCol ''a'') (NLit (LNum ''-2''))) (Some (NFunc ''round'' [NCol ''b''])))"
proof -
  have "parse_condition ''(a + -2) >= ROUND(b)'' =
      Parsed (NCond ''>='' (NBin ''+'' (NCol ''a'') (NLit (LNum ''-2''))) (Some (NFunc ''round'' [NCol ''b'']))) []"
    by code_simp
  then show ?thesis using parsed_is_restricted by blast
qed

subsection \<open>Columns\<close>

fun columns :: "node \<Rightarrow> string set" where
  "columns (NCol v) = {v}"
| "columns (NLit _) = {}"
| "columns (NBin _ l r) = columns l \<union> columns r"
| "columns (NFunc _ args) = (\<Union>a \<in> set args. columns a)"
| "columns (NCast e _) = columns e"
| "columns (NExtract _ e) = columns e"
| "columns (NDateTrunc _ e) = columns e"
| "columns (NCase ws els) = (\<Union>w \<in> set ws. columns w) \<union> (\<Union>e \<in> set_option els. columns e)"
| "columns (NWhen c e) = columns c \<union> columns e"
| "columns (NCond _ l r) = columns l \<union> (\<Union>e \<in> set_option r. columns e)"
| "columns (NLogic _ l r) = columns l \<union> columns r"
| "columns (NNot c) = columns c"

definition tree :: "node \<Rightarrow> bool" where
  "tree n \<longleftrightarrow> wf Expr n \<or> wf Cond n"

lemma wf_when: "wf When w \<Longrightarrow> \<exists>c e. w = NWhen c e \<and> wf Cond c \<and> wf Expr e"
  by (cases w) auto

lemma children_columns:
  assumes "tree n" and "\<not> is_col n"
  shows "(\<Union>m \<in> set (children n). columns m) = columns n" and "\<forall>m \<in> set (children n). tree m"
proof -
  have whens: "(\<Union>m \<in> set (case w of NWhen c e \<Rightarrow> [c, e] | _ \<Rightarrow> []). columns m) = columns w \<and>
      (\<forall>m \<in> set (case w of NWhen c e \<Rightarrow> [c, e] | _ \<Rightarrow> []). tree m)" if "wf When w" for w
    using wf_when [OF that] by (auto simp: tree_def)
  show "(\<Union>m \<in> set (children n). columns m) = columns n"
    using assms whens by (cases n) (auto simp: tree_def split: option.splits)
  show "\<forall>m \<in> set (children n). tree m"
    using assms whens by (cases n) (auto simp: tree_def split: option.splits if_splits)
qed

lemma collect_loop_columns:
  "\<forall>n \<in> set stack. tree n \<Longrightarrow> collect_loop stack out = out \<union> (\<Union>n \<in> set stack. columns n)"
proof (induction stack out rule: collect_loop.induct)
  case (2 n stack out)
  show ?case
  proof (cases "is_col n")
    case True
    then obtain v where "n = NCol v" by (cases n) auto
    then show ?thesis using "2.IH"(1) "2.prems" by auto
  next
    case False
    have n: "tree n" using "2.prems" by simp
    note c = children_columns [OF n False]
    have "collect_loop (n # stack) out = collect_loop (rev (children n) @ stack) out" using False by simp
    also have "\<dots> = out \<union> (\<Union>m \<in> set (rev (children n) @ stack). columns m)"
      using "2.IH"(2) [OF False] "2.prems" c(2) by auto
    also have "\<dots> = out \<union> (\<Union>m \<in> set (n # stack). columns m)" unfolding c(1) [symmetric] by (simp add: c(1) UN_Un)
    finally show ?thesis .
  qed
qed simp

lemma columns_named: "wf k n \<Longrightarrow> v \<in> columns n \<Longrightarrow> name_ok v \<and> ident_ok v"
  by (induction k n rule: wf.induct) (auto split: if_splits)

text \<open>The work-list collector of columns returns exactly the column identifiers that occur in a
  parsed tree, at any depth, and each of them is a legal column name.\<close>

theorem collect_columns_complete:
  assumes "parse_expression text = Parsed e r \<or> parse_condition text = Parsed e r"
  shows "collect_columns (Some e) = columns e \<and> (\<forall>v \<in> collect_columns (Some e). name_ok v)"
proof -
  have e: "tree e" using assms parse_outcome unfolding tree_def by blast
  then have "collect_columns (Some e) = columns e" using collect_loop_columns [of "[e]" "{}"] by (simp add: collect_columns_def)
  then show ?thesis using e columns_named unfolding tree_def by blast
qed

theorem collect_columns_complete_witness:
  "collect_columns (Some (NCase [NWhen (NCond ''IS NULL'' (NCol ''a'') None) (NCol ''b'')] (Some (NLit LNull)))) = {''a'', ''b''}"
proof -
  have "parse_expression ''CASE WHEN a IS NULL THEN b ELSE NULL END'' =
      Parsed (NCase [NWhen (NCond ''IS NULL'' (NCol ''a'') None) (NCol ''b'')] (Some (NLit LNull))) []"
    by code_simp
  from collect_columns_complete [OF disjI1, OF this] show ?thesis by auto
qed

end


