(* ===== verification/Union_Find.thy ===== *)
theory Union_Find
  imports Prelude
begin

text \<open>
  The disjoint-set forest of the entity-resolution engine (\<open>_UnionFind\<close> in
  \<open>services/dataset-service/app/domain/entity_resolution.py\<close>).

  The parent dictionary is a map. \<open>uf_find\<close> is the \<open>while\<close> loop with path halving and returns the
  root and the changed dictionary; a loop that does not end and a missing key are \<open>None\<close>. The
  locale \<open>disjoint_sets\<close> is what the engine relies on; its client lemma is that a store on which
  links are merged one by one relates exactly what the links connect.
\<close>

subsection \<open>Operations\<close>

type_synonym 'a forest = "'a \<rightharpoonup> 'a"

definition uf_init :: "'a list \<Rightarrow> 'a forest" where
  "uf_init items = map_of (map (\<lambda>x. (x, x)) items)"

partial_function (option) uf_find :: "'a forest \<Rightarrow> 'a \<Rightarrow> ('a \<times> 'a forest) option" where
  "uf_find p x =
     (case p x of
        None \<Rightarrow> None
      | Some y \<Rightarrow>
          if y = x then Some (x, p)
          else (case p y of
                  None \<Rightarrow> None
                | Some z \<Rightarrow> uf_find (p(x \<mapsto> z)) z))"

declare uf_find.simps [code]

definition uf_union :: "'a \<Rightarrow> 'a \<Rightarrow> 'a forest \<Rightarrow> 'a forest option" where
  "uf_union a b p =
     (case uf_find p a of
        None \<Rightarrow> None
      | Some (ra, p1) \<Rightarrow>
          (case uf_find p1 b of
             None \<Rightarrow> None
           | Some (rb, p2) \<Rightarrow> Some (if ra \<noteq> rb then p2(ra \<mapsto> rb) else p2)))"

subsection \<open>Links and what they connect\<close>

definition linked :: "('a \<times> 'a) set \<Rightarrow> ('a \<times> 'a) set" where
  "linked S = (S \<union> S\<inverse>)\<^sup>*"

lemma linked_refl [simp]: "(x, x) \<in> linked S"
  by (simp add: linked_def)

lemma linked_sym: "(x, y) \<in> linked S \<Longrightarrow> (y, x) \<in> linked S"
proof -
  have "(S \<union> S\<inverse>)\<inverse> = S \<union> S\<inverse>" by auto
  then show "(x, y) \<in> linked S \<Longrightarrow> (y, x) \<in> linked S"
    unfolding linked_def by (metis rtrancl_converseI)
qed

lemma linked_trans: "(x, y) \<in> linked S \<Longrightarrow> (y, z) \<in> linked S \<Longrightarrow> (x, z) \<in> linked S"
  unfolding linked_def by (rule rtrancl_trans)

lemma linked_link: "(x, y) \<in> S \<Longrightarrow> (x, y) \<in> linked S"
  by (auto simp: linked_def)

lemma linked_mono: "S \<subseteq> T \<Longrightarrow> linked S \<subseteq> linked T"
  unfolding linked_def by (rule rtrancl_mono) auto

lemma linked_closed: "S \<subseteq> linked T \<Longrightarrow> linked S \<subseteq> linked T"
proof -
  assume S: "S \<subseteq> linked T"
  then have "S \<union> S\<inverse> \<subseteq> linked T" using linked_sym by fastforce
  then have "(S \<union> S\<inverse>)\<^sup>* \<subseteq> (linked T)\<^sup>*" by (rule rtrancl_mono)
  then show ?thesis by (simp add: linked_def)
qed

lemma linked_insert_known: "(a, b) \<in> linked S \<Longrightarrow> linked (insert (a, b) S) = linked S"
  by (intro equalityI linked_closed linked_mono) (auto intro: linked_link)

definition joined :: "('a \<times> 'a) set \<Rightarrow> 'a \<Rightarrow> 'a \<Rightarrow> ('a \<times> 'a) set" where
  "joined E a b = E \<union> {(x, y). (x, a) \<in> E \<and> (b, y) \<in> E \<or> (x, b) \<in> E \<and> (a, y) \<in> E}"

lemma linked_insert: "linked (insert (a, b) S) = joined (linked S) a b"
proof (intro equalityI subrelI)
  fix x y assume "(x, y) \<in> linked (insert (a, b) S)"
  then show "(x, y) \<in> joined (linked S) a b"
    unfolding linked_def [of "insert (a, b) S"]
  proof (induction rule: rtrancl_induct)
    case base
    then show ?case by (simp add: joined_def)
  next
    case (step y z)
    then consider "(y, z) \<in> linked S" | "y = a" "z = b" | "y = b" "z = a"
      using linked_link linked_sym by fastforce
    then show ?case using step.IH
      by cases (auto simp: joined_def intro: linked_trans linked_sym)
  qed
next
  fix x y assume "(x, y) \<in> joined (linked S) a b"
  moreover have sub: "linked S \<subseteq> linked (insert (a, b) S)" by (rule linked_mono) auto
  moreover have "(a, b) \<in> linked (insert (a, b) S)" by (rule linked_link) simp
  ultimately show "(x, y) \<in> linked (insert (a, b) S)"
    unfolding joined_def by (elim UnE; clarify?; meson linked_trans linked_sym subsetD)
qed

subsection \<open>The interface\<close>

locale disjoint_sets =
  fixes sound :: "'s \<Rightarrow> bool" and items :: "'s \<Rightarrow> 'a set" and root :: "'s \<Rightarrow> 'a \<Rightarrow> 'a option"
    and find :: "'s \<Rightarrow> 'a \<Rightarrow> ('a \<times> 's) option" and union :: "'a \<Rightarrow> 'a \<Rightarrow> 's \<Rightarrow> 's option"
  assumes root_some: "sound s \<Longrightarrow> x \<in> items s \<Longrightarrow> \<exists>r. root s x = Some r"
    and find_root: "sound s \<Longrightarrow> x \<in> items s \<Longrightarrow>
      \<exists>s'. find s x = Some (the (root s x), s') \<and> sound s' \<and> items s' = items s \<and> (\<forall>z \<in> items s. root s' z = root s z)"
    and union_root: "sound s \<Longrightarrow> a \<in> items s \<Longrightarrow> b \<in> items s \<Longrightarrow>
      \<exists>s'. union a b s = Some s' \<and> sound s' \<and> items s' = items s \<and>
        (\<forall>z \<in> items s. root s' z = (if root s z = root s a then root s b else root s z))"
begin

text \<open>\<open>tracks s S\<close>: two items have the same root exactly when the links \<open>S\<close> connect them.\<close>

definition tracks :: "'s \<Rightarrow> ('a \<times> 'a) set \<Rightarrow> bool" where
  "tracks s S \<longleftrightarrow> sound s \<and> S \<subseteq> items s \<times> items s \<and>
     (\<forall>x \<in> items s. \<forall>y \<in> items s. root s x = root s y \<longleftrightarrow> (x, y) \<in> linked S)"

lemma find_tracks:
  assumes "tracks s S" and "x \<in> items s"
  shows "\<exists>r s'. find s x = Some (r, s') \<and> root s x = Some r \<and> tracks s' S \<and> items s' = items s \<and>
     (\<forall>z \<in> items s. root s' z = root s z)"
proof -
  have s: "sound s" using assms(1) by (simp add: tracks_def)
  obtain s' where s': "find s x = Some (the (root s x), s')" "sound s'" "items s' = items s"
      "\<forall>z \<in> items s. root s' z = root s z"
    using find_root [OF s assms(2)] by blast
  moreover have "tracks s' S" using assms(1) s' by (simp add: tracks_def)
  moreover obtain r where "root s x = Some r" using root_some [OF s assms(2)] by blast
  ultimately show ?thesis by auto
qed

lemma union_tracks:
  assumes t: "tracks s S" and a: "a \<in> items s" and b: "b \<in> items s"
  shows "\<exists>s'. union a b s = Some s' \<and> tracks s' (insert (a, b) S) \<and> items s' = items s"
proof -
  have s: "sound s" using t by (simp add: tracks_def)
  obtain s' where s': "union a b s = Some s'" "sound s'" "items s' = items s"
      "\<forall>z \<in> items s. root s' z = (if root s z = root s a then root s b else root s z)"
    using union_root [OF s a b] by blast
  have same: "root s x = root s y \<longleftrightarrow> (x, y) \<in> linked S" if "x \<in> items s" "y \<in> items s" for x y
    using t that by (simp add: tracks_def)
  have "root s' x = root s' y \<longleftrightarrow> (x, y) \<in> joined (linked S) a b" if "x \<in> items s" "y \<in> items s" for x y
  proof -
    have "root s' x = root s' y \<longleftrightarrow> root s x = root s y \<or> (root s x = root s a \<and> root s b = root s y) \<or>
        (root s x = root s b \<and> root s a = root s y)"
      using s'(4) that by auto
    also have "\<dots> \<longleftrightarrow> (x, y) \<in> joined (linked S) a b"
      unfolding joined_def by (simp add: same that a b)
    finally show ?thesis .
  qed
  then have "tracks s' (insert (a, b) S)"
    using s' t a b by (simp add: tracks_def linked_insert)
  with s' show ?thesis by blast
qed

end

subsection \<open>The forest provides it\<close>

text \<open>\<open>repn p n x r\<close>: from \<open>x\<close> the root \<open>r\<close> is reached in \<open>n\<close> steps.\<close>

inductive repn :: "'a forest \<Rightarrow> nat \<Rightarrow> 'a \<Rightarrow> 'a \<Rightarrow> bool" for p where
  repn_root: "p x = Some x \<Longrightarrow> repn p 0 x x"
| repn_step: "p x = Some y \<Longrightarrow> y \<noteq> x \<Longrightarrow> repn p n y r \<Longrightarrow> repn p (Suc n) x r"

inductive_cases repn_cases: "repn p n x r"

definition rep :: "'a forest \<Rightarrow> 'a \<Rightarrow> 'a \<Rightarrow> bool" where
  "rep p x r \<longleftrightarrow> (\<exists>n. repn p n x r)"

lemma repn_unique: "repn p n x r \<Longrightarrow> repn p m x r' \<Longrightarrow> r = r'"
proof (induction arbitrary: m r' rule: repn.induct)
  case (repn_root x)
  from repn_root(2,1) show ?case by cases auto
next
  case (repn_step x y n r)
  from repn_step(5,1,2) show ?case by cases (use repn_step(4) in auto)
qed

lemma rep_unique: "rep p x r \<Longrightarrow> rep p x r' \<Longrightarrow> r = r'"
  using repn_unique by (auto simp: rep_def)

lemma repn_root_fixed: "repn p n x r \<Longrightarrow> p r = Some r"
  by (induction rule: repn.induct) auto

lemma repn_dom: "repn p n x r \<Longrightarrow> x \<in> dom p"
  by (auto elim: repn_cases)

lemma no_two_cycle: "repn p n x r \<Longrightarrow> p x = Some y \<Longrightarrow> p y = Some x \<Longrightarrow> x = y"
proof (induction arbitrary: y rule: repn.induct)
  case (repn_step x v n r)
  then have "v = y" by simp
  then show ?case using repn_step.IH [of x] repn_step.prems by simp
qed simp

lemma halving_repn:
  assumes x: "p x = Some y" "y \<noteq> x" and y: "p y = Some z" and w: "repn p n w r"
  shows "\<exists>m \<le> n. repn (p(x \<mapsto> z)) m w r"
  using w
proof (induction rule: repn.induct)
  case (repn_root w)
  then have "repn (p(x \<mapsto> z)) 0 w w" using x by (intro repn.repn_root) auto
  then show ?case by blast
next
  case (repn_step w v n r)
  then obtain m where m: "m \<le> n" "repn (p(x \<mapsto> z)) m v r" by blast
  show ?case
  proof (cases "w = x")
    case True
    then have v: "v = y" using repn_step(1) x by simp
    have zx: "z \<noteq> x" using no_two_cycle [of p "Suc n" x r y] repn.repn_step [OF repn_step(1-3)] True x y by auto
    show ?thesis
    proof (cases "z = y")
      case True
      then have "repn (p(x \<mapsto> z)) (Suc m) w r" using m v zx \<open>w = x\<close> by (intro repn.repn_step [of _ _ y]) auto
      then show ?thesis using m(1) Suc_le_mono by blast
    next
      case False
      have "(p(x \<mapsto> z)) y = Some z" using y x by simp
      with m(2) v False obtain k where "m = Suc k" "repn (p(x \<mapsto> z)) k z r" by (auto elim: repn_cases)
      then have "repn (p(x \<mapsto> z)) m w r" using zx \<open>w = x\<close> by (auto intro: repn.repn_step [of _ _ z])
      then show ?thesis using m(1) le_SucI by blast
    qed
  next
    case False
    then have "repn (p(x \<mapsto> z)) (Suc m) w r" using repn_step(1,2) m(2) by (intro repn.repn_step [of _ _ v]) auto
    then show ?thesis using m(1) Suc_le_mono by blast
  qed
qed

lemma find_repn:
  "repn p n x r \<Longrightarrow>
   \<exists>p'. uf_find p x = Some (r, p') \<and> dom p' = dom p \<and> (\<forall>w s. rep p w s \<longrightarrow> rep p' w s)"
proof (induction n arbitrary: p x rule: less_induct)
  case (less n)
  from less.prems show ?case
  proof cases
    case repn_root
    then show ?thesis by (subst uf_find.simps) simp
  next
    case (repn_step y k)
    obtain z where z: "p y = Some z" using repn_dom [OF repn_step(4)] by auto
    let ?q = "p(x \<mapsto> z)"
    note halve = halving_repn [OF repn_step(2,3) z]
    have "\<exists>m < n. repn ?q m z r"
    proof (cases "z = y")
      case True
      then show ?thesis using halve [OF repn_step(4)] repn_step(1) by (auto intro: le_imp_less_Suc)
    next
      case False
      with repn_step(4) z obtain k' where "k = Suc k'" "repn p k' z r" by (auto elim: repn_cases)
      then show ?thesis using halve [of k' z r] repn_step(1) by (meson le_imp_less_Suc less_Suc_eq)
    qed
    then obtain p' where p': "uf_find ?q z = Some (r, p')" "dom p' = dom ?q" "\<forall>w s. rep ?q w s \<longrightarrow> rep p' w s"
      using less.IH by blast
    have "uf_find p x = Some (r, p')" using repn_step(2,3) z p'(1) by (subst uf_find.simps) simp
    moreover have "dom p' = dom p" using p'(2) repn_step(2) by auto
    moreover have "rep p' w s" if "rep p w s" for w s
      using that halve p'(3) unfolding rep_def by blast
    ultimately show ?thesis by blast
  qed
qed

definition forest_sound :: "'a forest \<Rightarrow> bool" where
  "forest_sound p \<longleftrightarrow> (\<forall>x \<in> dom p. \<exists>r. rep p x r)"

definition forest_root :: "'a forest \<Rightarrow> 'a \<Rightarrow> 'a option" where
  "forest_root p x = (if \<exists>r. rep p x r then Some (THE r. rep p x r) else None)"

lemma forest_root_rep: "forest_root p x = Some r \<longleftrightarrow> rep p x r"
  unfolding forest_root_def using rep_unique by (metis option.distinct(1) option.inject theI')

lemma find_sound:
  assumes "forest_sound p" and "rep p x r"
  shows "\<exists>p'. uf_find p x = Some (r, p') \<and> forest_sound p' \<and> dom p' = dom p \<and> (\<forall>w s. rep p w s \<longrightarrow> rep p' w s)"
  using find_repn assms unfolding rep_def forest_sound_def by (metis (mono_tags, lifting))

lemma link_repn:
  assumes "p a = Some a" and "p b = Some b" and "a \<noteq> b" and "repn p n w r"
  shows "rep (p(a \<mapsto> b)) w (if r = a then b else r)"
  using assms(4)
proof (induction rule: repn.induct)
  case (repn_root w)
  have "repn (p(a \<mapsto> b)) 0 b b" using assms by (intro repn.repn_root) auto
  then have "repn (p(a \<mapsto> b)) (Suc 0) a b" using assms(3) by (intro repn.repn_step [of _ _ b]) auto
  moreover have "repn (p(a \<mapsto> b)) 0 w w" if "w \<noteq> a" using repn_root that by (intro repn.repn_root) auto
  ultimately show ?case unfolding rep_def by (cases "w = a") auto
next
  case (repn_step w v n r)
  then have "(p(a \<mapsto> b)) w = Some v" using assms(1) by auto
  then show ?case using repn_step(2,4) unfolding rep_def by (blast intro: repn.repn_step)
qed

lemma union_sound:
  assumes p: "forest_sound p" and a: "rep p a ra" and b: "rep p b rb"
  shows "\<exists>p'. uf_union a b p = Some p' \<and> forest_sound p' \<and> dom p' = dom p \<and>
     (\<forall>w s. rep p w s \<longrightarrow> rep p' w (if s = ra then rb else s))"
proof -
  obtain p1 where p1: "uf_find p a = Some (ra, p1)" "forest_sound p1" "dom p1 = dom p" "\<forall>w s. rep p w s \<longrightarrow> rep p1 w s"
    using find_sound [OF p a] by blast
  have "rep p1 b rb" using p1(4) b by blast
  then obtain p2 where p2: "uf_find p1 b = Some (rb, p2)" "forest_sound p2" "dom p2 = dom p1"
      "\<forall>w s. rep p1 w s \<longrightarrow> rep p2 w s"
    using find_sound [OF p1(2)] by blast
  have fixed: "p2 ra = Some ra" "p2 rb = Some rb"
    using a b p1(4) p2(4) repn_root_fixed unfolding rep_def by metis+
  let ?q = "if ra \<noteq> rb then p2(ra \<mapsto> rb) else p2"
  have q: "rep ?q w (if s = ra then rb else s)" if "rep p w s" for w s
  proof -
    have w: "rep p2 w s" using that p1(4) p2(4) by blast
    then obtain n where n: "repn p2 n w s" unfolding rep_def by blast
    show ?thesis
    proof (cases "ra = rb")
      case False
      with link_repn [OF fixed False n] show ?thesis by simp
    qed (use w in auto)
  qed
  have d: "dom ?q = dom p" using p1(3) p2(3) fixed by auto
  have "forest_sound ?q" using p q unfolding forest_sound_def d by blast
  then show ?thesis using p1(1) p2(1) q d by (auto simp: uf_union_def)
qed

interpretation forest: disjoint_sets forest_sound dom forest_root uf_find uf_union
proof
  fix s :: "'a forest" and x a b
  assume s: "forest_sound s"
  have root: "\<exists>r. rep s z r \<and> forest_root s z = Some r" if "z \<in> dom s" for z
    using s that forest_root_rep unfolding forest_sound_def by metis
  show "x \<in> dom s \<Longrightarrow> \<exists>r. forest_root s x = Some r" using root by blast
  show "\<exists>s'. uf_find s x = Some (the (forest_root s x), s') \<and> forest_sound s' \<and> dom s' = dom s \<and>
      (\<forall>z \<in> dom s. forest_root s' z = forest_root s z)" if x: "x \<in> dom s"
  proof -
    obtain r where r: "rep s x r" "forest_root s x = Some r" using root [OF x] by blast
    obtain s' where s': "uf_find s x = Some (r, s')" "forest_sound s'" "dom s' = dom s" "\<forall>w t. rep s w t \<longrightarrow> rep s' w t"
      using find_sound [OF s r(1)] by blast
    have "forest_root s' z = forest_root s z" if "z \<in> dom s" for z
      using root [OF that] s'(4) forest_root_rep by metis
    with r(2) s' show ?thesis by auto
  qed
  show "\<exists>s'. uf_union a b s = Some s' \<and> forest_sound s' \<and> dom s' = dom s \<and>
      (\<forall>z \<in> dom s. forest_root s' z = (if forest_root s z = forest_root s a then forest_root s b else forest_root s z))"
    if a: "a \<in> dom s" and b: "b \<in> dom s"
  proof -
    obtain ra rb where r: "rep s a ra" "forest_root s a = Some ra" "rep s b rb" "forest_root s b = Some rb"
      using root [OF a] root [OF b] by blast
    obtain s' where s': "uf_union a b s = Some s'" "forest_sound s'" "dom s' = dom s"
        "\<forall>w t. rep s w t \<longrightarrow> rep s' w (if t = ra then rb else t)"
      using union_sound [OF s r(1,3)] by blast
    have "forest_root s' z = (if forest_root s z = forest_root s a then forest_root s b else forest_root s z)"
      if z: "z \<in> dom s" for z
    proof -
      obtain t where t: "rep s z t" "forest_root s z = Some t" using root [OF z] by blast
      then have "forest_root s' z = Some (if t = ra then rb else t)" using s'(4) forest_root_rep by metis
      then show ?thesis using t r by simp
    qed
    with s' show ?thesis by blast
  qed
qed

lemma init_tracks: "forest.tracks (uf_init items) {}"
proof -
  have i: "uf_init items x = (if x \<in> set items then Some x else None)" for x
    by (auto simp: uf_init_def map_of_map_restrict map_of_eq_None_iff map_of_SomeD image_iff dest: map_of_SomeD intro!: map_of_is_SomeI)
  have "rep (uf_init items) x x" if "x \<in> set items" for x
    using that i [of x] unfolding rep_def by (intro exI [of _ 0] repn.repn_root) simp
  then have r: "forest_root (uf_init items) x = Some x" if "x \<in> set items" for x
    using that forest_root_rep by metis
  have d: "dom (uf_init items) = set items" using i by (auto split: if_splits)
  have "forest_sound (uf_init items)" unfolding forest_sound_def d using r forest_root_rep by metis
  then show ?thesis unfolding forest.tracks_def d using r by (auto simp: linked_def)
qed

end
