(* ===== verification/Semantic_Model.thy ===== *)
theory Semantic_Model
  imports Semantic_Joins Semantic_Expr Union_Find "HOL-Library.List_Lexorder" "HOL-Library.Char_ord"
    "HOL-Library.Product_Lexorder"
begin

text \<open>
  Semantic models (\<open>services/semantic-service/app/domain/definition.py\<close>): the parser of a model document,
  which runs at save time, the validator that guards submission, and the search for what a schema change
  breaks.

  A document is a decoded JSON value; \<open>.get\<close> on a value that is no object, iterating over one that cannot
  be iterated, and hashing one that cannot be hashed raise as in Python. A problem reported by the
  validator is a constructor with the names involved; its text is left out. Fields that no rule reads keep
  their JSON value. \<open>dataset_lookup\<close> asks the dataset service. The length in which Python prints a float
  is the argument \<open>float_len\<close>.
\<close>

subsection \<open>The model\<close>

record entity =
  en_name :: string
  en_dataset_urn :: json
  en_table :: string
  en_primary_key :: "string list"
  en_policy :: jobj
  en_description :: json

record dimension =
  dm_name :: string
  dm_entity :: string
  dm_dim_type :: string
  dm_column :: "string option"
  dm_expr_ast :: "node option"
  dm_time_grains :: "string list"
  dm_synonyms :: "json list"
  dm_description :: json
  dm_deprecated :: bool
  dm_successor :: json
  dm_origin :: json

record measure =
  ms_name :: string
  ms_entity :: "string option"
  ms_agg :: "string option"
  ms_expr_ast :: "node option"
  ms_expr_metric_ast :: "node option"
  ms_filters_ast :: "node option"
  ms_format :: json
  ms_synonyms :: "json list"
  ms_description :: json
  ms_deprecated :: bool
  ms_successor :: json
  ms_origin :: json

record model_def =
  md_entities :: "(string, entity) dict"
  md_dimensions :: "(string, dimension) dict"
  md_measures :: "(string, measure) dict"
  md_join_paths :: "(string, join_path) dict"

record model_limits =
  ml_definition_max_bytes :: int
  ml_max_entities :: int
  ml_max_dimensions :: int
  ml_max_measures :: int
  ml_max_join_paths :: int

definition AGG_WHITELIST :: "string list" where
  "AGG_WHITELIST = [''sum'', ''avg'', ''min'', ''max'', ''count'', ''count_distinct'', ''first'']"

definition DIM_TYPES :: "string list" where
  "DIM_TYPES = [''categorical'', ''time'', ''numeric'', ''boolean'', ''geo'']"

definition JOIN_TYPES :: "string list" where
  "JOIN_TYPES = [''left'', ''inner'']"

definition CARDINALITIES :: "string list" where
  "CARDINALITIES = [''many_to_one'', ''one_to_one'']"

subsection \<open>Reading JSON\<close>

definition as_obj :: "json \<Rightarrow> semantic_error + jobj" where
  "as_obj v = (case v of JObj d \<Rightarrow> Inr d | _ \<Rightarrow> Inl Py_attribute_error)"

definition items_of :: "json \<Rightarrow> semantic_error + json list" where
  "items_of v =
     (if \<not> jtruthy v then Inr []
      else (case py_iter v of None \<Rightarrow> Inl Py_type_error | Some vs \<Rightarrow> Inr vs))"

definition require_name :: "json \<Rightarrow> semantic_error + string" where
  "require_name v = (case v of JStr s \<Rightarrow> if name_ok s then Inr s else Inl Validation_failed | _ \<Rightarrow> Inl Validation_failed)"

definition one_of :: "string list \<Rightarrow> json \<Rightarrow> semantic_error + string" where
  "one_of names v = (case v of JStr s \<Rightarrow> if s \<in> set names then Inr s else Inl Validation_failed | _ \<Rightarrow> Inl Validation_failed)"

definition or_else :: "json \<Rightarrow> json \<Rightarrow> json" where
  "or_else v w = (if jtruthy v then v else w)"

definition hashable :: "json \<Rightarrow> bool" where
  "hashable v = (case v of JArr _ \<Rightarrow> False | JObj _ \<Rightarrow> False | _ \<Rightarrow> True)"

definition get_default :: "jobj \<Rightarrow> string \<Rightarrow> json \<Rightarrow> json" where
  "get_default d k v = (case map_of d k of None \<Rightarrow> v | Some w \<Rightarrow> w)"

definition guardR :: "bool \<Rightarrow> semantic_error \<Rightarrow> semantic_error + unit" where
  "guardR ok e = (if ok then Inr () else Inl e)"

definition parsed :: "(string \<Rightarrow> node presult) \<Rightarrow> json \<Rightarrow> semantic_error + node" where
  "parsed parse v =
     (case v of
        JStr s \<Rightarrow> (case parse s of Parsed n _ \<Rightarrow> Inr n | _ \<Rightarrow> Inl Expression_not_allowed)
      | _ \<Rightarrow> Inl Expression_not_allowed)"

fun foldR :: "('a \<Rightarrow> 'b \<Rightarrow> 'e + 'b) \<Rightarrow> 'a list \<Rightarrow> 'b \<Rightarrow> 'e + 'b" where
  "foldR f [] acc = Inr acc"
| "foldR f (x # xs) acc = bindR (f x acc) (foldR f xs)"

definition char_width :: "char \<Rightarrow> int" where
  "char_width c =
     (let n = of_char c :: nat
      in if n \<in> {0x22, 0x5C, 10, 13, 9, 12, 8} then 2 else if n < 32 \<or> n > 126 then 6 else 1)"

definition text_width :: "string \<Rightarrow> int" where
  "text_width s = 2 + sum_list (map char_width s)"

fun json_size_bytes :: "(rat \<Rightarrow> int) \<Rightarrow> json \<Rightarrow> int" where
  "json_size_bytes fl JNull = 4"
| "json_size_bytes fl (JBool b) = (if b then 4 else 5)"
| "json_size_bytes fl (JInt n) = int (length (py_str_int n))"
| "json_size_bytes fl (JFloat q) = fl q"
| "json_size_bytes fl (JStr s) = text_width s"
| "json_size_bytes fl (JArr vs) =
     2 + sum_list (map (json_size_bytes fl) vs) + 2 * (max 1 (int (length vs)) - 1)"
| "json_size_bytes fl (JObj kvs) =
     2 + sum_list (map (\<lambda>(k, v). text_width k + 2 + json_size_bytes fl v) kvs) + 2 * (max 1 (int (length kvs)) - 1)"

subsection \<open>Parsing a model document\<close>

definition py_alnum :: "char \<Rightarrow> bool" where
  "py_alnum c =
     (let n = of_char c :: nat
      in ascii_letter c \<or> ascii_digit c \<or> n \<in> {170, 178, 179, 181, 185, 186, 188, 189, 190} \<or>
         (192 \<le> n \<and> n \<noteq> 215 \<and> n \<noteq> 247))"

fun split_on :: "char \<Rightarrow> string \<Rightarrow> string list" where
  "split_on sep [] = [[]]"
| "split_on sep (c # cs) =
     (if c = sep then [] # split_on sep cs
      else (case split_on sep cs of p # ps \<Rightarrow> (c # p) # ps | [] \<Rightarrow> [[c]]))"

definition table_part_ok :: "string \<Rightarrow> bool" where
  "table_part_ok p \<longleftrightarrow> p \<noteq> [] \<and> list_all (\<lambda>c. py_alnum c \<or> c = CHR ''_'' \<or> c = CHR ''$'') p"

definition parse_table :: "json \<Rightarrow> semantic_error + string" where
  "parse_table v =
     (if \<not> jtruthy v then Inl Validation_failed
      else (case v of
              JStr s \<Rightarrow> if list_all table_part_ok (split_on (CHR ''.'') s) then Inr s else Inl Validation_failed
            | _ \<Rightarrow> Inl Py_attribute_error))"

definition parse_primary_key :: "json \<Rightarrow> semantic_error + string list" where
  "parse_primary_key v =
     (case or_else v (JArr []) of JArr vs \<Rightarrow> mapR require_name vs | _ \<Rightarrow> Inl Validation_failed)"

definition is_int :: "json \<Rightarrow> bool" where
  "is_int v = (case v of JInt _ \<Rightarrow> True | JBool _ \<Rightarrow> True | _ \<Rightarrow> False)"

definition parse_policy :: "json \<Rightarrow> semantic_error + jobj" where
  "parse_policy v =
     bindR (as_obj (or_else v (JObj [(''policy'', JStr ''latest'')]))) (\<lambda>policy.
     bindR (one_of [''latest'', ''pinned''] (jget policy ''policy'')) (\<lambda>p.
     bindR (guardR (\<not> (p = ''pinned'' \<and> \<not> is_int (jget policy ''version_no''))) Validation_failed) (\<lambda>_.
     Inr policy)))"

definition parse_entity :: "json \<Rightarrow> (string, entity) dict \<Rightarrow> semantic_error + (string, entity) dict" where
  "parse_entity v entities =
     bindR (as_obj v) (\<lambda>e.
     bindR (require_name (jget e ''name'')) (\<lambda>name.
     bindR (guardR (map_of entities name = None) Validation_failed) (\<lambda>_.
     bindR (parse_primary_key (jget e ''primary_key'')) (\<lambda>pk.
     bindR (parse_table (jget e ''table'')) (\<lambda>table.
     bindR (parse_policy (jget e ''dataset_version_policy'')) (\<lambda>policy.
     Inr (AList.update name
       \<lparr>en_name = name, en_dataset_urn = or_else (jget e ''dataset_urn'') (JStr ''''), en_table = table,
        en_primary_key = pk, en_policy = policy, en_description = jget e ''description''\<rparr> entities)))))))"

definition parse_grains :: "string \<Rightarrow> json \<Rightarrow> semantic_error + string list" where
  "parse_grains dim_type v =
     bindR (guardR (\<not> (dim_type \<noteq> ''time'' \<and> jtruthy v)) Validation_failed) (\<lambda>_.
     bindR (items_of v) (\<lambda>vs.
     bindR (guardR (list_all hashable vs) Py_type_error) (\<lambda>_.
     mapR (one_of TIME_GRAINS) vs)))"

definition parse_source :: "jobj \<Rightarrow> semantic_error + (string option \<times> node option)" where
  "parse_source d =
     (let column = jget d ''column''; expr_text = jget d ''expr''
      in bindR (guardR (jtruthy column \<noteq> jtruthy expr_text) Validation_failed) (\<lambda>_.
           if column \<noteq> JNull then bindR (require_name column) (\<lambda>c. Inr (Some c, None))
           else bindR (parsed parse_expression expr_text) (\<lambda>ast. Inr (None, Some ast))))"

definition parse_dimension :: "json \<Rightarrow> (string, dimension) dict \<Rightarrow> semantic_error + (string, dimension) dict" where
  "parse_dimension v dimensions =
     bindR (as_obj v) (\<lambda>d.
     bindR (require_name (jget d ''name'')) (\<lambda>name.
     bindR (guardR (map_of dimensions name = None) Validation_failed) (\<lambda>_.
     bindR (one_of DIM_TYPES (or_else (jget d ''type'') (JStr ''categorical''))) (\<lambda>dim_type.
     bindR (parse_grains dim_type (jget d ''time_grains'')) (\<lambda>grains.
     bindR (parse_source d) (\<lambda>(column, expr_ast).
     bindR (require_name (jget d ''entity'')) (\<lambda>entity.
     bindR (items_of (jget d ''synonyms'')) (\<lambda>synonyms.
     Inr (AList.update name
       \<lparr>dm_name = name, dm_entity = entity, dm_dim_type = dim_type, dm_column = column, dm_expr_ast = expr_ast,
        dm_time_grains = grains, dm_synonyms = synonyms, dm_description = jget d ''description'',
        dm_deprecated = jtruthy (jget d ''deprecated''), dm_successor = jget d ''successor'',
        dm_origin = get_default d ''origin'' (JStr ''manual'')\<rparr> dimensions)))))))))"

fun expr_metric_ok :: "node \<Rightarrow> bool" where
  "expr_metric_ok (NCol _) \<longleftrightarrow> True"
| "expr_metric_ok (NLit l) \<longleftrightarrow> (case l of LNum _ \<Rightarrow> True | _ \<Rightarrow> False)"
| "expr_metric_ok (NBin x l r) \<longleftrightarrow> x \<in> set [''+'', ''-'', ''*'', ''/''] \<and> expr_metric_ok l \<and> expr_metric_ok r"
| "expr_metric_ok (NFunc f args) \<longleftrightarrow> f = ''nullif'' \<and> list_all expr_metric_ok args"
| "expr_metric_ok _ \<longleftrightarrow> False"

definition new_measure :: "string \<Rightarrow> jobj \<Rightarrow> json list \<Rightarrow> measure" where
  "new_measure name m synonyms =
     \<lparr>ms_name = name, ms_entity = None, ms_agg = None, ms_expr_ast = None, ms_expr_metric_ast = None,
      ms_filters_ast = None, ms_format = jget m ''format'', ms_synonyms = synonyms,
      ms_description = jget m ''description'', ms_deprecated = jtruthy (jget m ''deprecated''),
      ms_successor = jget m ''successor'', ms_origin = get_default m ''origin'' (JStr ''manual'')\<rparr>"

definition optionally :: "bool \<Rightarrow> semantic_error + 'a \<Rightarrow> semantic_error + 'a option" where
  "optionally b r = (if b then bindR r (\<lambda>x. Inr (Some x)) else Inr None)"

definition parse_derived :: "string \<Rightarrow> jobj \<Rightarrow> semantic_error + measure" where
  "parse_derived name m =
     bindR (parsed parse_expression (jget m ''expr_metric'')) (\<lambda>ast.
     bindR (guardR (expr_metric_ok ast) Expression_not_allowed) (\<lambda>_.
     bindR (items_of (jget m ''synonyms'')) (\<lambda>synonyms.
     Inr ((new_measure name m synonyms)\<lparr>ms_expr_metric_ast := Some ast\<rparr>))))"

definition parse_base :: "string \<Rightarrow> jobj \<Rightarrow> semantic_error + measure" where
  "parse_base name m =
     bindR (one_of AGG_WHITELIST (jget m ''agg'')) (\<lambda>agg.
     bindR (guardR (jtruthy (jget m ''expr'') \<or> agg = ''count'') Validation_failed) (\<lambda>_.
     bindR (optionally (jtruthy (jget m ''expr'')) (parsed parse_expression (jget m ''expr''))) (\<lambda>expr_ast.
     bindR (optionally (jtruthy (jget m ''filters'')) (parsed parse_condition (jget m ''filters''))) (\<lambda>filters_ast.
     bindR (require_name (jget m ''entity'')) (\<lambda>entity.
     bindR (items_of (jget m ''synonyms'')) (\<lambda>synonyms.
     Inr ((new_measure name m synonyms)\<lparr>ms_entity := Some entity, ms_agg := Some agg, ms_expr_ast := expr_ast,
        ms_filters_ast := filters_ast\<rparr>)))))))"

definition parse_measure :: "json \<Rightarrow> (string, measure) dict \<Rightarrow> semantic_error + (string, measure) dict" where
  "parse_measure v known =
     bindR (as_obj v) (\<lambda>m.
     bindR (require_name (jget m ''name'')) (\<lambda>name.
     bindR (guardR (map_of known name = None) Validation_failed) (\<lambda>_.
     bindR (if jtruthy (jget m ''expr_metric'') then parse_derived name m else parse_base name m) (\<lambda>ms.
     Inr (AList.update name ms known)))))"

definition parse_column :: "json \<Rightarrow> semantic_error + string" where
  "parse_column v =
     (case or_else v (JStr '''') of
        JStr s \<Rightarrow> if name_ok s then Inr s else Inl Validation_failed
      | _ \<Rightarrow> Inl Py_type_error)"

definition parse_on_pair :: "json \<Rightarrow> semantic_error + (string \<times> string)" where
  "parse_on_pair v =
     (case v of
        JObj p \<Rightarrow> bindR (parse_column (jget p ''from_column'')) (\<lambda>f.
                  bindR (parse_column (jget p ''to_column'')) (\<lambda>t. Inr (f, t)))
      | _ \<Rightarrow> Inl Validation_failed)"

definition parse_join_path :: "json \<Rightarrow> (string, join_path) dict \<Rightarrow> semantic_error + (string, join_path) dict" where
  "parse_join_path v join_paths =
     bindR (as_obj v) (\<lambda>j.
     bindR (require_name (jget j ''name'')) (\<lambda>name.
     bindR (guardR (map_of join_paths name = None) Validation_failed) (\<lambda>_.
     bindR (one_of JOIN_TYPES (jget j ''join_type'')) (\<lambda>join_type.
     bindR (one_of CARDINALITIES (jget j ''cardinality'')) (\<lambda>cardinality.
     bindR (items_of (jget j ''on'')) (\<lambda>ps.
     bindR (guardR (ps \<noteq> []) Validation_failed) (\<lambda>_.
     bindR (mapR parse_on_pair ps) (\<lambda>on.
     bindR (require_name (jget j ''from_entity'')) (\<lambda>from_entity.
     bindR (require_name (jget j ''to_entity'')) (\<lambda>to_entity.
     Inr (AList.update name
       \<lparr>jp_name = name, jp_from_entity = from_entity, jp_to_entity = to_entity, jp_join_type = join_type,
        jp_on = on, jp_cardinality = cardinality\<rparr> join_paths)))))))))))"

definition check_limits :: "model_limits option \<Rightarrow> model_def \<Rightarrow> semantic_error + unit" where
  "check_limits settings d =
     (case settings of
        None \<Rightarrow> Inr ()
      | Some s \<Rightarrow>
          guardR (int (length (md_entities d)) \<le> ml_max_entities s \<and>
                  int (length (md_dimensions d)) \<le> ml_max_dimensions s \<and>
                  int (length (md_measures d)) \<le> ml_max_measures s \<and>
                  int (length (md_join_paths d)) \<le> ml_max_join_paths s) Limit_exceeded)"

definition parse_definition :: "(rat \<Rightarrow> int) \<Rightarrow> model_limits option \<Rightarrow> json \<Rightarrow> semantic_error + model_def" where
  "parse_definition fl settings v =
     (case v of
        JObj doc \<Rightarrow>
          bindR (case settings of None \<Rightarrow> Inr ()
                 | Some s \<Rightarrow> guardR (json_size_bytes fl v \<le> ml_definition_max_bytes s) Limit_exceeded) (\<lambda>_.
          bindR (bindR (items_of (jget doc ''entities'')) (\<lambda>vs. foldR parse_entity vs [])) (\<lambda>entities.
          bindR (bindR (items_of (jget doc ''dimensions'')) (\<lambda>vs. foldR parse_dimension vs [])) (\<lambda>dimensions.
          bindR (bindR (items_of (jget doc ''measures'')) (\<lambda>vs. foldR parse_measure vs [])) (\<lambda>measures_d.
          bindR (bindR (items_of (jget doc ''join_paths'')) (\<lambda>vs. foldR parse_join_path vs [])) (\<lambda>join_paths.
          let d = \<lparr>md_entities = entities, md_dimensions = dimensions, md_measures = measures_d, md_join_paths = join_paths\<rparr>
          in bindR (check_limits settings d) (\<lambda>_. Inr d))))))
      | _ \<Rightarrow> Inl Validation_failed)"

subsection \<open>What a parsed model is\<close>

definition keyed :: "('a \<Rightarrow> string) \<Rightarrow> ('a \<Rightarrow> bool) \<Rightarrow> (string, 'a) dict \<Rightarrow> bool" where
  "keyed name ok d \<longleftrightarrow> distinct (map fst d) \<and> (\<forall>(k, v) \<in> set d. name v = k \<and> name_ok k \<and> ok v)"

definition entity_ok :: "entity \<Rightarrow> bool" where
  "entity_ok e \<longleftrightarrow> list_all name_ok (en_primary_key e) \<and> list_all table_part_ok (split_on (CHR ''.'') (en_table e)) \<and>
     (jget (en_policy e) ''policy'' = JStr ''latest'' \<or>
      jget (en_policy e) ''policy'' = JStr ''pinned'' \<and> is_int (jget (en_policy e) ''version_no''))"

definition dimension_ok :: "dimension \<Rightarrow> bool" where
  "dimension_ok d \<longleftrightarrow> name_ok (dm_entity d) \<and> dm_dim_type d \<in> set DIM_TYPES \<and> set (dm_time_grains d) \<subseteq> set TIME_GRAINS \<and>
     (dm_dim_type d \<noteq> ''time'' \<longrightarrow> dm_time_grains d = []) \<and>
     (case dm_column d of
        Some c \<Rightarrow> name_ok c \<and> dm_expr_ast d = None
      | None \<Rightarrow> (case dm_expr_ast d of None \<Rightarrow> False | Some n \<Rightarrow> wf Expr n))"

definition measure_ok :: "measure \<Rightarrow> bool" where
  "measure_ok m \<longleftrightarrow>
     (case ms_expr_metric_ast m of
        Some n \<Rightarrow> wf Expr n \<and> expr_metric_ok n \<and> ms_entity m = None \<and> ms_agg m = None \<and> ms_expr_ast m = None \<and> ms_filters_ast m = None
      | None \<Rightarrow>
          (\<exists>e agg. ms_entity m = Some e \<and> name_ok e \<and> ms_agg m = Some agg \<and> agg \<in> set AGG_WHITELIST \<and>
             (ms_expr_ast m = None \<longrightarrow> agg = ''count'')) \<and>
          (\<forall>n \<in> set_option (ms_expr_ast m). wf Expr n) \<and> (\<forall>n \<in> set_option (ms_filters_ast m). wf Cond n))"

definition join_ok :: "join_path \<Rightarrow> bool" where
  "join_ok j \<longleftrightarrow> name_ok (jp_from_entity j) \<and> name_ok (jp_to_entity j) \<and> jp_join_type j \<in> set JOIN_TYPES \<and>
     jp_cardinality j \<in> set CARDINALITIES \<and> jp_on j \<noteq> [] \<and> (\<forall>(f, t) \<in> set (jp_on j). name_ok f \<and> name_ok t)"

definition model_ok :: "model_def \<Rightarrow> bool" where
  "model_ok d \<longleftrightarrow> keyed en_name entity_ok (md_entities d) \<and> keyed dm_name dimension_ok (md_dimensions d) \<and>
     keyed ms_name measure_ok (md_measures d) \<and> keyed jp_name join_ok (md_join_paths d)"

named_theorems parse_simps \<open>what the readers of JSON accept\<close>

lemma as_obj_Inr [parse_simps]: "as_obj v = Inr d \<longleftrightarrow> v = JObj d"
  by (cases v) (auto simp: as_obj_def)

lemma require_name_Inr [parse_simps]: "require_name v = Inr s \<longleftrightarrow> v = JStr s \<and> name_ok s"
  by (cases v) (auto simp: require_name_def)

lemma one_of_Inr [parse_simps]: "one_of names v = Inr s \<longleftrightarrow> v = JStr s \<and> s \<in> set names"
  by (cases v) (auto simp: one_of_def)

lemma guardR_Inr [parse_simps]: "guardR b e = Inr u \<longleftrightarrow> b"
  by (simp add: guardR_def)

lemma optionally_Inr [parse_simps]:
  "optionally b r = Inr x \<longleftrightarrow> (if b then \<exists>y. r = Inr y \<and> x = Some y else x = None)"
  by (auto simp: optionally_def bindR_eq_Inr)

lemma parsed_Inr: "parsed parse v = Inr n \<Longrightarrow> \<exists>s r. v = JStr s \<and> parse s = Parsed n r"
  by (cases v) (auto simp: parsed_def split: presult.splits)

lemma parsed_expression: "parsed parse_expression v = Inr n \<Longrightarrow> wf Expr n"
  using parsed_Inr parse_outcome(1) by blast

lemma parsed_condition: "parsed parse_condition v = Inr n \<Longrightarrow> wf Cond n"
  using parsed_Inr parse_outcome(2) by blast

lemma mapR_names: "mapR require_name vs = Inr ys \<Longrightarrow> list_all name_ok ys"
  by (induction vs arbitrary: ys) (auto simp: bindR_eq_Inr parse_simps)

lemma mapR_one_of: "mapR (one_of names) vs = Inr ys \<Longrightarrow> set ys \<subseteq> set names"
  by (induction vs arbitrary: ys) (auto simp: bindR_eq_Inr parse_simps)

lemma mapR_on: "mapR parse_on_pair vs = Inr ps \<Longrightarrow> length ps = length vs \<and> (\<forall>(f, t) \<in> set ps. name_ok f \<and> name_ok t)"
proof (induction vs arbitrary: ps)
  case (Cons v vs)
  have "name_ok c" if "parse_column w = Inr c" for w c
    using that by (auto simp: parse_column_def split: json.splits if_splits)
  then show ?case using Cons
    by (auto simp: bindR_eq_Inr parse_on_pair_def split: json.splits)
qed simp

lemma keyed_empty: "keyed name ok []"
  by (simp add: keyed_def)

lemma keyed_add:
  assumes "keyed name ok d" and "map_of d k = None" and "name v = k" and "name_ok k" and "ok v"
  shows "keyed name ok (AList.update k v d)"
  using assms unfolding keyed_def by (auto simp: dict_set_fresh map_of_eq_None_iff)

lemma foldR_keeps:
  "foldR f xs acc = Inr acc' \<Longrightarrow> P acc \<Longrightarrow> (\<And>x a a'. P a \<Longrightarrow> f x a = Inr a' \<Longrightarrow> P a') \<Longrightarrow> P acc'"
  by (induction xs arbitrary: acc) (auto simp: bindR_eq_Inr)

lemma parse_entity_ok: "keyed en_name entity_ok a \<Longrightarrow> parse_entity v a = Inr a' \<Longrightarrow> keyed en_name entity_ok a'"
proof -
  assume a: "keyed en_name entity_ok a" and r: "parse_entity v a = Inr a'"
  have pk: "list_all name_ok ys" if "parse_primary_key w = Inr ys" for w ys
    using that by (auto simp: parse_primary_key_def mapR_names split: json.splits)
  have tb: "list_all table_part_ok (split_on (CHR ''.'') s)" if "parse_table w = Inr s" for w s
    using that by (auto simp: parse_table_def split: json.splits if_splits)
  have po: "jget d ''policy'' = JStr ''latest'' \<or> jget d ''policy'' = JStr ''pinned'' \<and> is_int (jget d ''version_no'')"
    if "parse_policy w = Inr d" for w d
    using that by (auto simp: parse_policy_def bindR_eq_Inr parse_simps)
  show ?thesis using r unfolding parse_entity_def
    by (auto simp: bindR_eq_Inr parse_simps entity_ok_def intro!: keyed_add [OF a] dest!: pk tb po)
qed

lemma parse_dimension_ok: "keyed dm_name dimension_ok a \<Longrightarrow> parse_dimension v a = Inr a' \<Longrightarrow> keyed dm_name dimension_ok a'"
proof -
  assume a: "keyed dm_name dimension_ok a" and r: "parse_dimension v a = Inr a'"
  have gr: "set gs \<subseteq> set TIME_GRAINS \<and> (ty \<noteq> ''time'' \<longrightarrow> gs = [])" if "parse_grains ty w = Inr gs" for ty w gs
  proof -
    have "\<not> (ty \<noteq> ''time'' \<and> jtruthy w)" using that by (auto simp: parse_grains_def bindR_eq_Inr parse_simps)
    then show ?thesis using that by (auto simp: parse_grains_def bindR_eq_Inr items_of_def parse_simps dest: mapR_one_of)
  qed
  have so: "case c of Some n \<Rightarrow> name_ok n \<and> x = None | None \<Rightarrow> (case x of None \<Rightarrow> False | Some n \<Rightarrow> wf Expr n)"
    if "parse_source w = Inr (c, x)" for w c x
    using that by (auto simp: parse_source_def Let_def bindR_eq_Inr parse_simps parsed_expression split: if_splits)
  show ?thesis using r unfolding parse_dimension_def
    by (auto simp: bindR_eq_Inr parse_simps dimension_ok_def intro!: keyed_add [OF a] dest!: gr so split: option.splits)
qed

lemma parse_measure_ok: "keyed ms_name measure_ok a \<Longrightarrow> parse_measure v a = Inr a' \<Longrightarrow> keyed ms_name measure_ok a'"
proof -
  assume a: "keyed ms_name measure_ok a" and r: "parse_measure v a = Inr a'"
  have de: "measure_ok m \<and> ms_name m = name" if "parse_derived name w = Inr m" for name w m
    using that by (auto simp: parse_derived_def bindR_eq_Inr parse_simps measure_ok_def new_measure_def parsed_expression)
  have ba: "measure_ok m \<and> ms_name m = name" if "parse_base name w = Inr m" for name w m
    using that by (auto simp: parse_base_def bindR_eq_Inr parse_simps measure_ok_def new_measure_def parsed_expression
        parsed_condition split: if_splits)
  show ?thesis using r unfolding parse_measure_def
    by (auto simp: bindR_eq_Inr parse_simps intro!: keyed_add [OF a] split: if_splits dest!: de ba)
qed

lemma parse_join_path_ok: "keyed jp_name join_ok a \<Longrightarrow> parse_join_path v a = Inr a' \<Longrightarrow> keyed jp_name join_ok a'"
proof -
  assume a: "keyed jp_name join_ok a" and r: "parse_join_path v a = Inr a'"
  show ?thesis using r unfolding parse_join_path_def
    by (auto simp: bindR_eq_Inr parse_simps join_ok_def intro!: keyed_add [OF a] dest!: mapR_on)
qed

lemma parse_definition_ok: "parse_definition fl settings v = Inr d \<Longrightarrow> model_ok d"
proof -
  assume r: "parse_definition fl settings v = Inr d"
  have "\<And>vs a. foldR parse_entity vs [] = Inr a \<Longrightarrow> keyed en_name entity_ok a"
    by (erule foldR_keeps [where P = "keyed en_name entity_ok"]) (simp_all add: keyed_empty parse_entity_ok)
  moreover have "\<And>vs a. foldR parse_dimension vs [] = Inr a \<Longrightarrow> keyed dm_name dimension_ok a"
    by (erule foldR_keeps [where P = "keyed dm_name dimension_ok"]) (simp_all add: keyed_empty parse_dimension_ok)
  moreover have "\<And>vs a. foldR parse_measure vs [] = Inr a \<Longrightarrow> keyed ms_name measure_ok a"
    by (erule foldR_keeps [where P = "keyed ms_name measure_ok"]) (simp_all add: keyed_empty parse_measure_ok)
  moreover have "\<And>vs a. foldR parse_join_path vs [] = Inr a \<Longrightarrow> keyed jp_name join_ok a"
    by (erule foldR_keeps [where P = "keyed jp_name join_ok"]) (simp_all add: keyed_empty parse_join_path_ok)
  ultimately show ?thesis using r unfolding parse_definition_def
    by (auto simp: bindR_eq_Inr Let_def model_ok_def split: json.splits)
qed

end
