(* ===== verification/Semantic_Validate.thy ===== *)
theory Semantic_Validate
  imports Semantic_Model
begin

text \<open>
  The submission guard of the semantic service (\<open>validate_definition\<close> in \<open>app/domain/definition.py\<close>) and the
  search for what a schema change breaks (\<open>broken_refs_for_schema_change\<close>).

  The validator collects problems in the order the code does: bindings, dimensions, measures, synonyms,
  joins, and the cycle check, a union-find over the join graph whose parent dictionary grows on demand.
  Its loop is a partial function; it is shown to end. The main result states what an empty list of
  problems means.
\<close>

subsection \<open>Problems\<close>

record dataset_info =
  ds_exists :: bool
  ds_schema :: "(string, string) dict"

datatype problem =
    Dataset_not_found string
  | Key_column_missing string string
  | Column_missing string string string
  | Unknown_entity string string
  | Not_a_time_column string string
  | Name_collision string
  | Unknown_measure string string
  | Self_reference string
  | Avg_not_numeric string string
  | Count_distinct_bare string
  | Synonym_collision string string
  | Join_cycle string string

definition NUMERIC_TYPES :: "string list" where
  "NUMERIC_TYPES = [''int'', ''integer'', ''bigint'', ''long'', ''double'', ''float'', ''decimal'', ''numeric'']"

definition TIME_TYPES :: "string list" where
  "TIME_TYPES = [''date'', ''timestamp'', ''timestamptz'', ''datetime'']"

subsection \<open>Bindings\<close>

definition lowered_schema :: "(string, string) dict \<Rightarrow> (string, string) dict" where
  "lowered_schema sch = fold (\<lambda>(k, v). AList.update (py_lower k) (py_lower v)) sch []"

definition entity_schema :: "(json \<Rightarrow> dataset_info option) \<Rightarrow> entity \<Rightarrow> (string, string) dict option" where
  "entity_schema dataset_lookup e =
     (case (if jtruthy (en_dataset_urn e) then dataset_lookup (en_dataset_urn e) else None) of
        None \<Rightarrow> None
      | Some info \<Rightarrow> if ds_exists info then Some (lowered_schema (ds_schema info)) else None)"

definition check_entity :: "(json \<Rightarrow> dataset_info option) \<Rightarrow> entity \<Rightarrow> problem list" where
  "check_entity dataset_lookup e =
     (case entity_schema dataset_lookup e of
        None \<Rightarrow> [Dataset_not_found (en_name e)]
      | Some sch \<Rightarrow> map (Key_column_missing (en_name e)) (filter (\<lambda>c. map_of sch c = None) (en_primary_key e)))"

definition bound_schemas :: "(json \<Rightarrow> dataset_info option) \<Rightarrow> entity list \<Rightarrow> (string, (string, string) dict) dict" where
  "bound_schemas dataset_lookup es =
     concat (map (\<lambda>e. case entity_schema dataset_lookup e of None \<Rightarrow> [] | Some sch \<Rightarrow> [(en_name e, sch)]) es)"

definition check_columns ::
    "(string, (string, string) dict) dict \<Rightarrow> string \<Rightarrow> string \<Rightarrow> string set \<Rightarrow> problem list" where
  "check_columns schemas owner entity_name cols =
     (case map_of schemas entity_name of
        None \<Rightarrow> []
      | Some sch \<Rightarrow> map (Column_missing owner entity_name) (filter (\<lambda>c. map_of sch c = None) (sorted_list_of_set cols)))"

definition col_type :: "(string, (string, string) dict) dict \<Rightarrow> string \<Rightarrow> string \<Rightarrow> string" where
  "col_type schemas entity_name c =
     (case map_of schemas entity_name of
        None \<Rightarrow> [] | Some sch \<Rightarrow> (case map_of sch c of None \<Rightarrow> [] | Some ty \<Rightarrow> ty))"

subsection \<open>Dimensions and measures\<close>

definition dim_columns :: "dimension \<Rightarrow> string set" where
  "dim_columns dmn =
     (case dm_column dmn of Some c \<Rightarrow> if c \<noteq> [] then {c} else collect_columns (dm_expr_ast dmn)
      | None \<Rightarrow> collect_columns (dm_expr_ast dmn))"

definition check_time :: "(string, (string, string) dict) dict \<Rightarrow> dimension \<Rightarrow> problem list" where
  "check_time schemas dmn =
     (if dm_dim_type dmn = ''time''
      then (case dm_column dmn of
              None \<Rightarrow> []
            | Some c \<Rightarrow>
                (let ty = col_type schemas (dm_entity dmn) c
                 in if c \<noteq> [] \<and> ty \<noteq> [] \<and> ty \<notin> set TIME_TYPES then [Not_a_time_column (dm_name dmn) ty] else []))
      else [])"

fun check_dimensions ::
    "model_def \<Rightarrow> (string, (string, string) dict) dict \<Rightarrow> dimension list \<Rightarrow> string list \<Rightarrow> problem list \<times> string list" where
  "check_dimensions d schemas [] all_names = ([], all_names)"
| "check_dimensions d schemas (dmn # dmns) all_names =
     (let owner = ''dimension/'' @ dm_name dmn
      in if map_of (md_entities d) (dm_entity dmn) = None
         then (let (ps, ns) = check_dimensions d schemas dmns all_names in (Unknown_entity owner (dm_entity dmn) # ps, ns))
         else (let (ps, ns) = check_dimensions d schemas dmns (all_names @ [dm_name dmn])
               in (check_columns schemas owner (dm_entity dmn) (dim_columns dmn) @ check_time schemas dmn @
                   (if dm_name dmn \<in> set all_names then [Name_collision owner] else []) @ ps, ns)))"

definition check_derived :: "model_def \<Rightarrow> measure \<Rightarrow> node \<Rightarrow> problem list" where
  "check_derived d ms ast =
     concat (map (\<lambda>ref. case map_of (md_measures d) ref of
          None \<Rightarrow> [Unknown_measure (ms_name ms) ref]
        | Some m \<Rightarrow> if ms_expr_metric_ast m \<noteq> None \<and> ref = ms_name ms then [Self_reference (ms_name ms)] else [])
       (sorted_list_of_set (collect_columns (Some ast))))"

definition check_avg :: "(string, (string, string) dict) dict \<Rightarrow> string \<Rightarrow> measure \<Rightarrow> problem list" where
  "check_avg schemas entity_name ms =
     (case ms_expr_ast ms of
        Some (NCol c) \<Rightarrow>
          (let ty = col_type schemas entity_name c
           in if ms_agg ms = Some ''avg'' \<and> ty \<noteq> [] \<and> \<not> (ty \<in> set NUMERIC_TYPES \<or> take 7 ty = ''decimal'')
              then [Avg_not_numeric (ms_name ms) ty] else [])
      | _ \<Rightarrow> [])"

definition check_base :: "model_def \<Rightarrow> (string, (string, string) dict) dict \<Rightarrow> measure \<Rightarrow> problem list" where
  "check_base d schemas ms =
     (let owner = ''measure/'' @ ms_name ms; entity_name = (case ms_entity ms of None \<Rightarrow> [] | Some e \<Rightarrow> e)
      in (if map_of (md_entities d) entity_name = None then [Unknown_entity owner entity_name]
          else check_columns schemas owner entity_name
                 (collect_columns (ms_expr_ast ms) \<union> collect_columns (ms_filters_ast ms)) @
               check_avg schemas entity_name ms) @
         (if ms_agg ms = Some ''count_distinct'' \<and> ms_expr_ast ms = None then [Count_distinct_bare (ms_name ms)] else []))"

fun check_measures ::
    "model_def \<Rightarrow> (string, (string, string) dict) dict \<Rightarrow> measure list \<Rightarrow> string list \<Rightarrow> problem list \<times> string list" where
  "check_measures d schemas [] all_names = ([], all_names)"
| "check_measures d schemas (ms # mss) all_names =
     (let (ps, ns) = check_measures d schemas mss (all_names @ [ms_name ms])
      in ((case ms_expr_metric_ast ms of Some ast \<Rightarrow> check_derived d ms ast | None \<Rightarrow> check_base d schemas ms) @
          (if ms_name ms \<in> set all_names then [Name_collision (''measure/'' @ ms_name ms)] else []) @ ps, ns))"

definition check_synonym :: "string list \<Rightarrow> string \<Rightarrow> string \<Rightarrow> json \<Rightarrow> semantic_error + problem list" where
  "check_synonym all_names owner name syn =
     (if \<not> hashable syn then Inl Py_type_error
      else (case syn of
              JStr s \<Rightarrow> Inr (if s \<in> set all_names \<and> s \<noteq> name then [Synonym_collision owner s] else [])
            | _ \<Rightarrow> Inr []))"

definition check_synonyms :: "string list \<Rightarrow> model_def \<Rightarrow> semantic_error + problem list" where
  "check_synonyms all_names d =
     bindR (mapR (\<lambda>(owner, name, syn). check_synonym all_names owner name syn)
       (concat (map (\<lambda>dmn. map (\<lambda>s. (''dimension/'' @ dm_name dmn, dm_name dmn, s)) (dm_synonyms dmn)) (map snd (md_dimensions d))) @
        concat (map (\<lambda>ms. map (\<lambda>s. (''measure/'' @ ms_name ms, ms_name ms, s)) (ms_synonyms ms)) (map snd (md_measures d)))))
       (\<lambda>pss. Inr (concat pss))"

subsection \<open>The join graph\<close>

definition endpoints_known :: "model_def \<Rightarrow> join_path \<Rightarrow> bool" where
  "endpoints_known d jp \<longleftrightarrow>
     map_of (md_entities d) (jp_from_entity jp) \<noteq> None \<and> map_of (md_entities d) (jp_to_entity jp) \<noteq> None"

definition check_join :: "model_def \<Rightarrow> (string, (string, string) dict) dict \<Rightarrow> join_path \<Rightarrow> problem list" where
  "check_join d schemas jp =
     (let owner = ''join_path/'' @ jp_name jp
      in concat (map (\<lambda>e. if map_of (md_entities d) e = None then [Unknown_entity owner e] else [])
           [jp_from_entity jp, jp_to_entity jp]) @
         (if endpoints_known d jp
          then check_columns schemas owner (jp_from_entity jp) (set (map fst (jp_on jp))) @
               check_columns schemas owner (jp_to_entity jp) (set (map snd (jp_on jp)))
          else []))"

definition join_edge :: "join_path \<Rightarrow> string \<times> string" where
  "join_edge jp = (min (jp_from_entity jp) (jp_to_entity jp), max (jp_from_entity jp) (jp_to_entity jp))"

definition graph_edges :: "model_def \<Rightarrow> (string \<times> string) list" where
  "graph_edges d = sorted_list_of_set (join_edge ` set (filter (endpoints_known d) (map snd (md_join_paths d))))"

type_synonym parents = "string \<Rightarrow> string option"

definition parent_of :: "parents \<Rightarrow> string \<Rightarrow> string" where
  "parent_of p x = (case p x of None \<Rightarrow> x | Some y \<Rightarrow> y)"

partial_function (option) find_root :: "parents \<Rightarrow> string \<Rightarrow> (string \<times> parents) option" where
  "find_root p x =
     (if parent_of p x \<noteq> x
      then find_root (p(x \<mapsto> parent_of p (parent_of p x))) (parent_of p (parent_of p x))
      else Some (x, p))"

declare find_root.simps [code]

fun check_cycles :: "(string \<times> string) list \<Rightarrow> parents \<Rightarrow> problem list option" where
  "check_cycles [] p = Some []"
| "check_cycles ((a, b) # es) p =
     (case find_root p a of
        None \<Rightarrow> None
      | Some (ra, p1) \<Rightarrow>
          (case find_root p1 b of
             None \<Rightarrow> None
           | Some (rb, p2) \<Rightarrow>
               if ra = rb then map_option ((#) (Join_cycle a b)) (check_cycles es p2)
               else check_cycles es (p2(ra \<mapsto> rb))))"

definition validate_definition ::
    "model_def \<Rightarrow> (json \<Rightarrow> dataset_info option) \<Rightarrow> (semantic_error + problem list) option" where
  "validate_definition d dataset_lookup =
     (let es = map snd (md_entities d);
          schemas = bound_schemas dataset_lookup es;
          (dim_ps, names1) = check_dimensions d schemas (map snd (md_dimensions d)) (map fst schemas);
          (ms_ps, names2) = check_measures d schemas (map snd (md_measures d)) names1
      in case check_synonyms names2 d of
           Inl e \<Rightarrow> Some (Inl e)
         | Inr syn_ps \<Rightarrow>
             map_option (\<lambda>cyc. Inr (concat (map (check_entity dataset_lookup) es) @ dim_ps @ ms_ps @ syn_ps @
                concat (map (check_join d schemas) (map snd (md_join_paths d))) @ cyc))
               (check_cycles (graph_edges d) (\<lambda>_. None)))"

subsection \<open>Schema changes\<close>

datatype broken_ref = Broken_entity string "string list" | Broken_dimension string "string list" | Broken_measure string "string list"

definition hit :: "string set \<Rightarrow> string set \<Rightarrow> string list" where
  "hit cols affected = sorted_list_of_set (py_lower ` cols \<inter> affected)"

definition broken_refs_for_schema_change :: "model_def \<Rightarrow> json \<Rightarrow> string set \<Rightarrow> string set \<Rightarrow> broken_ref list" where
  "broken_refs_for_schema_change d dataset_urn removed retyped =
     (let affected = py_lower ` removed \<union> py_lower ` retyped;
          bound = set (map en_name (filter (\<lambda>e. en_dataset_urn e = dataset_urn) (map snd (md_entities d))));
          flag = (\<lambda>mk name h. if h \<noteq> [] then [mk name h] else [])
      in if bound = {} \<or> affected = {} then []
         else concat (map (\<lambda>n. case map_of (md_entities d) n of None \<Rightarrow> []
                        | Some e \<Rightarrow> flag Broken_entity n (hit (set (en_primary_key e)) affected)) (sorted_list_of_set bound)) @
              concat (map (\<lambda>dmn. if dm_entity dmn \<in> bound then flag Broken_dimension (dm_name dmn) (hit (dim_columns dmn) affected) else [])
                (map snd (md_dimensions d))) @
              concat (map (\<lambda>ms. if (\<exists>e \<in> bound. ms_entity ms = Some e)
                     then flag Broken_measure (ms_name ms) (hit (collect_columns (ms_expr_ast ms) \<union> collect_columns (ms_filters_ast ms)) affected)
                     else []) (map snd (md_measures d))))"

subsection \<open>The cycle check\<close>

definition full :: "parents \<Rightarrow> string forest" where
  "full p = (\<lambda>x. Some (parent_of p x))"

lemma full_upd: "full (p(x \<mapsto> y)) = (full p)(x \<mapsto> y)"
  by (auto simp: full_def parent_of_def)

lemma dom_full [simp]: "dom (full p) = UNIV"
  by (auto simp: full_def)

lemma find_root_sim:
  assumes "uf_find q x = Some (r, q')" and "q = full p"
  shows "\<exists>p'. find_root p x = Some (r, p') \<and> q' = full p'"
proof -
  let ?P = "\<lambda>q x y. \<forall>p. q = full p \<longrightarrow> (\<exists>p'. find_root p x = Some (fst y, p') \<and> snd y = full p')"
  have "(case (q, x) of (q, x) \<Rightarrow> ?P q x) (r, q')"
  proof (rule uf_find.raw_induct [where P = ?P])
    fix f :: "string forest \<Rightarrow> string \<Rightarrow> (string \<times> string forest) option" and q x y
    assume IH: "\<And>q x y. f q x = Some y \<Longrightarrow> \<forall>p. q = full p \<longrightarrow> (\<exists>p'. find_root p x = Some (fst y, p') \<and> snd y = full p')"
      and body: "(case q x of None \<Rightarrow> None | Some y \<Rightarrow> if y = x then Some (x, q)
          else (case q y of None \<Rightarrow> None | Some z \<Rightarrow> f (q(x \<mapsto> z)) z)) = Some y"
    show "\<forall>p. q = full p \<longrightarrow> (\<exists>p'. find_root p x = Some (fst y, p') \<and> snd y = full p')"
    proof (intro allI impI)
      fix p assume q: "q = full p"
      show "\<exists>p'. find_root p x = Some (fst y, p') \<and> snd y = full p'"
      proof (cases "parent_of p x = x")
        case True
        then show ?thesis using body q by (subst find_root.simps) (auto simp: full_def)
      next
        case False
        let ?z = "parent_of p (parent_of p x)"
        have "f (q(x \<mapsto> ?z)) ?z = Some y" using body q False by (simp add: full_def)
        with IH q have "\<exists>p'. find_root (p(x \<mapsto> ?z)) ?z = Some (fst y, p') \<and> snd y = full p'" by (simp add: full_upd [symmetric])
        then show ?thesis using False by (subst find_root.simps) simp
      qed
    qed
  qed (simp add: assms(1))
  then show ?thesis using assms(2) by simp
qed

fun forest_grows :: "(string \<times> string) set \<Rightarrow> (string \<times> string) list \<Rightarrow> bool" where
  "forest_grows S [] \<longleftrightarrow> True"
| "forest_grows S (e # es) \<longleftrightarrow> e \<notin> linked S \<and> forest_grows (insert e S) es"

lemma check_cycles_spec:
  "forest.tracks (full p) S \<Longrightarrow> \<exists>ps. check_cycles es p = Some ps \<and> (ps = [] \<longleftrightarrow> forest_grows S es)"
proof (induction es arbitrary: p S)
  case (Cons e es)
  obtain a b where e: "e = (a, b)" by (cases e)
  obtain ra q1 where a: "uf_find (full p) a = Some (ra, q1)" "forest_root (full p) a = Some ra" "forest.tracks q1 S"
      "\<forall>z. forest_root q1 z = forest_root (full p) z"
    using forest.find_tracks [OF Cons.prems, of a] by auto
  obtain p1 where p1: "find_root p a = Some (ra, p1)" "q1 = full p1" using find_root_sim [OF a(1) refl] by blast
  obtain rb q2 where b: "uf_find q1 b = Some (rb, q2)" "forest_root q1 b = Some rb" "forest.tracks q2 S"
    using forest.find_tracks [OF a(3), of b] p1(2) by auto
  obtain p2 where p2: "find_root p1 b = Some (rb, p2)" "q2 = full p2" using find_root_sim [OF b(1) p1(2)] by blast
  have same: "ra = rb \<longleftrightarrow> (a, b) \<in> linked S"
    using Cons.prems a(2,4) b(2) unfolding forest.tracks_def by (metis UNIV_I dom_full option.inject)
  show ?case
  proof (cases "ra = rb")
    case True
    obtain ps where "check_cycles es p2 = Some ps" using Cons.IH b(3) p2(2) by blast
    then show ?thesis using True same p1(1) p2(1) by (simp add: e)
  next
    case False
    have "uf_union a b (full p) = Some (q2(ra \<mapsto> rb))" using a(1) b(1) False by (simp add: uf_union_def)
    then have "forest.tracks (full (p2(ra \<mapsto> rb))) (insert (a, b) S)"
      using forest.union_tracks [OF Cons.prems, of a b] p2(2) by (simp add: full_upd)
    from Cons.IH [OF this] obtain ps where ps: "check_cycles es (p2(ra \<mapsto> rb)) = Some ps"
        "ps = [] \<longleftrightarrow> forest_grows (insert (a, b) S) es" by blast
    have "check_cycles (e # es) p = Some ps" using False p1(1) p2(1) ps(1) by (simp only: e check_cycles.simps option.case prod.case if_False)
    then show ?thesis using ps(2) False same by (simp add: e)
  qed
qed simp

text \<open>\<open>forest_links E\<close>: no link joins two points that the other links connect already.\<close>

definition forest_links :: "('a \<times> 'a) set \<Rightarrow> bool" where
  "forest_links E \<longleftrightarrow> (\<forall>e \<in> E. e \<notin> linked (E - {e}))"

lemma forest_links_sub: "forest_links E \<Longrightarrow> F \<subseteq> E \<Longrightarrow> forest_links F"
  unfolding forest_links_def using linked_mono by (metis Diff_mono subset_refl subsetD)

lemma forest_links_insert:
  assumes "forest_links S" and "e \<notin> S"
  shows "forest_links (insert e S) \<longleftrightarrow> e \<notin> linked S"
proof
  assume "forest_links (insert e S)"
  moreover have "insert e S - {e} = S" using assms(2) by auto
  ultimately show "e \<notin> linked S" unfolding forest_links_def by auto
next
  assume e: "e \<notin> linked S"
  obtain a b where ab: "e = (a, b)" by (cases e)
  show "forest_links (insert e S)"
    unfolding forest_links_def
  proof (intro ballI notI)
    fix f assume f: "f \<in> insert e S" and l: "f \<in> linked (insert e S - {f})"
    show False
    proof (cases "f = e")
      case True
      then have "insert e S - {f} = S" using assms(2) by auto
      then show False using l e True by simp
    next
      case False
      then have fS: "f \<in> S" using f by simp
      obtain c d where cd: "f = (c, d)" by (cases f)
      let ?T = "S - {f}"
      have sub: "linked ?T \<subseteq> linked S" by (rule linked_mono) auto
      have "insert e S - {f} = insert (a, b) ?T" using False ab by auto
      then have "(c, d) \<in> joined (linked ?T) a b" using l cd linked_insert by metis
      moreover have "(c, d) \<notin> linked ?T" using assms(1) fS cd unfolding forest_links_def by auto
      moreover have "(c, d) \<in> linked S" using fS cd linked_link by metis
      ultimately have "(a, b) \<in> linked S"
        unfolding joined_def using sub by (auto dest!: subsetD [OF sub]) (meson linked_trans linked_sym)+
      then show False using e ab by simp
    qed
  qed
qed

lemma forest_grows_links:
  "forest_links S \<Longrightarrow> distinct es \<Longrightarrow> set es \<inter> S = {} \<Longrightarrow> forest_grows S es \<longleftrightarrow> forest_links (S \<union> set es)"
proof (induction es arbitrary: S)
  case (Cons e es)
  have e: "e \<notin> S" using Cons.prems by auto
  note step = forest_links_insert [OF Cons.prems(1) e]
  show ?case
  proof (cases "e \<in> linked S")
    case True
    then have "\<not> forest_links (insert e S)" using step by simp
    then have "\<not> forest_links (S \<union> set (e # es))" using forest_links_sub by (metis Un_insert_right insert_mono list.simps(15) sup_ge1)
    then show ?thesis using True by simp
  next
    case False
    then have "forest_grows (insert e S) es \<longleftrightarrow> forest_links (insert e S \<union> set es)"
      using Cons.IH [of "insert e S"] step Cons.prems by auto
    then show ?thesis using False by simp
  qed
qed simp

lemma full_init: "forest.tracks (full (\<lambda>_. None)) {}"
proof -
  have "rep (full (\<lambda>_. None)) x x" for x
    unfolding rep_def by (intro exI [of _ 0] repn.repn_root) (simp add: full_def parent_of_def)
  then have "forest_root (full (\<lambda>_. None)) x = Some x" for x using forest_root_rep by metis
  moreover have "forest_sound (full (\<lambda>_. None))" unfolding forest_sound_def
    using \<open>\<And>x. rep (full (\<lambda>_. None)) x x\<close> by blast
  ultimately show ?thesis unfolding forest.tracks_def by (simp add: linked_def)
qed

lemma check_cycles_forest:
  "\<exists>ps. check_cycles (graph_edges d) (\<lambda>_. None) = Some ps \<and>
     (ps = [] \<longleftrightarrow> forest_links (join_edge ` {jp \<in> snd ` set (md_join_paths d). endpoints_known d jp}))"
proof -
  obtain ps where ps: "check_cycles (graph_edges d) (\<lambda>_. None) = Some ps" "ps = [] \<longleftrightarrow> forest_grows {} (graph_edges d)"
    using check_cycles_spec [OF full_init] by blast
  have "set (graph_edges d) = join_edge ` {jp \<in> snd ` set (md_join_paths d). endpoints_known d jp}" "distinct (graph_edges d)"
    by (auto simp: graph_edges_def)
  then show ?thesis using ps forest_grows_links [of "{}" "graph_edges d"] by (simp add: forest_links_def)
qed

subsection \<open>What a model without problems is\<close>

definition schema_at :: "(json \<Rightarrow> dataset_info option) \<Rightarrow> model_def \<Rightarrow> string \<Rightarrow> (string, string) dict option" where
  "schema_at dataset_lookup d n = (case map_of (md_entities d) n of None \<Rightarrow> None | Some e \<Rightarrow> entity_schema dataset_lookup e)"

definition bound_to :: "(json \<Rightarrow> dataset_info option) \<Rightarrow> model_def \<Rightarrow> string \<Rightarrow> string set \<Rightarrow> bool" where
  "bound_to dataset_lookup d n cols \<longleftrightarrow> (\<exists>sch. schema_at dataset_lookup d n = Some sch \<and> cols \<subseteq> dom (map_of sch))"

definition has_type :: "(json \<Rightarrow> dataset_info option) \<Rightarrow> model_def \<Rightarrow> string \<Rightarrow> string \<Rightarrow> (string \<Rightarrow> bool) \<Rightarrow> bool" where
  "has_type dataset_lookup d n c ok \<longleftrightarrow>
     (\<forall>sch ty. schema_at dataset_lookup d n = Some sch \<longrightarrow> map_of sch c = Some ty \<longrightarrow> ty \<noteq> [] \<longrightarrow> ok ty)"

definition dimension_bound :: "(json \<Rightarrow> dataset_info option) \<Rightarrow> model_def \<Rightarrow> dimension \<Rightarrow> bool" where
  "dimension_bound dataset_lookup d dmn \<longleftrightarrow> bound_to dataset_lookup d (dm_entity dmn) (dim_columns dmn) \<and>
     (\<forall>c. dm_dim_type dmn = ''time'' \<longrightarrow> dm_column dmn = Some c \<longrightarrow>
        has_type dataset_lookup d (dm_entity dmn) c (\<lambda>ty. ty \<in> set TIME_TYPES))"

definition measure_bound :: "(json \<Rightarrow> dataset_info option) \<Rightarrow> model_def \<Rightarrow> measure \<Rightarrow> bool" where
  "measure_bound dataset_lookup d ms \<longleftrightarrow>
     (case ms_expr_metric_ast ms of
        Some ast \<Rightarrow> \<forall>ref \<in> collect_columns (Some ast). map_of (md_measures d) ref \<noteq> None \<and> ref \<noteq> ms_name ms
      | None \<Rightarrow> (\<exists>e. ms_entity ms = Some e \<and>
          bound_to dataset_lookup d e (collect_columns (ms_expr_ast ms) \<union> collect_columns (ms_filters_ast ms)) \<and>
          (\<forall>c. ms_agg ms = Some ''avg'' \<longrightarrow> ms_expr_ast ms = Some (NCol c) \<longrightarrow>
             has_type dataset_lookup d e c (\<lambda>ty. ty \<in> set NUMERIC_TYPES \<or> take 7 ty = ''decimal''))))"

definition object_names :: "model_def \<Rightarrow> string list" where
  "object_names d = map fst (md_entities d) @ map fst (md_dimensions d) @ map fst (md_measures d)"

definition all_synonyms :: "model_def \<Rightarrow> (string \<times> json) set" where
  "all_synonyms d = {(dm_name dmn, s) | dmn s. dmn \<in> snd ` set (md_dimensions d) \<and> s \<in> set (dm_synonyms dmn)} \<union>
     {(ms_name ms, s) | ms s. ms \<in> snd ` set (md_measures d) \<and> s \<in> set (ms_synonyms ms)}"

definition well_bound :: "(json \<Rightarrow> dataset_info option) \<Rightarrow> model_def \<Rightarrow> bool" where
  "well_bound dataset_lookup d \<longleftrightarrow>
     (\<forall>e \<in> snd ` set (md_entities d). bound_to dataset_lookup d (en_name e) (set (en_primary_key e))) \<and>
     (\<forall>dmn \<in> snd ` set (md_dimensions d). dimension_bound dataset_lookup d dmn) \<and>
     (\<forall>ms \<in> snd ` set (md_measures d). measure_bound dataset_lookup d ms) \<and>
     distinct (object_names d) \<and>
     (\<forall>(n, s) \<in> all_synonyms d. hashable s \<and> (\<forall>w. s = JStr w \<longrightarrow> w \<in> set (object_names d) \<longrightarrow> w = n)) \<and>
     (\<forall>jp \<in> snd ` set (md_join_paths d).
        bound_to dataset_lookup d (jp_from_entity jp) (fst ` set (jp_on jp)) \<and>
        bound_to dataset_lookup d (jp_to_entity jp) (snd ` set (jp_on jp))) \<and>
     forest_links (join_edge ` snd ` set (md_join_paths d))"

lemma columns_finite: "finite (columns n)"
  by (induction n) auto

lemma collect_columns_finite: "(\<forall>n \<in> set_option x. tree n) \<Longrightarrow> finite (collect_columns x)"
  using collect_loop_columns [of "[the x]" "{}"] columns_finite by (cases x) (simp_all add: collect_columns_def)

lemma bound_schemas_at:
  assumes "keyed en_name ok es"
  shows "map_of (bound_schemas dataset_lookup (map snd es)) n =
     (case map_of es n of None \<Rightarrow> None | Some e \<Rightarrow> entity_schema dataset_lookup e)"
  using assms
proof (induction es)
  case Nil
  then show ?case by (simp add: bound_schemas_def)
next
  case (Cons p es)
  obtain k e where p: "p = (k, e)" by (cases p)
  have k: "en_name e = k" "k \<notin> fst ` set es" and IH: "keyed en_name ok es" using Cons.prems by (auto simp: keyed_def p)
  have "bound_schemas dataset_lookup (map snd (p # es)) =
      (case entity_schema dataset_lookup e of None \<Rightarrow> [] | Some sch \<Rightarrow> [(k, sch)]) @ bound_schemas dataset_lookup (map snd es)"
    by (simp add: bound_schemas_def p k split: option.split)
  moreover have "map_of es k = None" using k(2) by (simp add: map_of_eq_None_iff)
  ultimately show ?case using Cons.IH [OF IH] by (auto simp: p split: option.splits)
qed

lemma check_columns_none:
  "finite cols \<Longrightarrow> check_columns schemas owner n cols = [] \<longleftrightarrow> (\<forall>sch. map_of schemas n = Some sch \<longrightarrow> cols \<subseteq> dom (map_of sch))"
  by (auto simp: check_columns_def filter_empty_conv split: option.splits)

lemma check_dimensions_none:
  assumes "distinct (map dm_name dmns)"
  shows "fst (check_dimensions d schemas dmns ns) = [] \<longleftrightarrow>
      (\<forall>dmn \<in> set dmns. map_of (md_entities d) (dm_entity dmn) \<noteq> None \<and> dm_name dmn \<notin> set ns \<and>
         check_columns schemas (''dimension/'' @ dm_name dmn) (dm_entity dmn) (dim_columns dmn) = [] \<and> check_time schemas dmn = [])"
    and "fst (check_dimensions d schemas dmns ns) = [] \<Longrightarrow> snd (check_dimensions d schemas dmns ns) = ns @ map dm_name dmns"
proof -
  have "(fst (check_dimensions d schemas dmns ns) = [] \<longleftrightarrow>
      (\<forall>dmn \<in> set dmns. map_of (md_entities d) (dm_entity dmn) \<noteq> None \<and> dm_name dmn \<notin> set ns \<and>
         check_columns schemas (''dimension/'' @ dm_name dmn) (dm_entity dmn) (dim_columns dmn) = [] \<and> check_time schemas dmn = [])) \<and>
      (fst (check_dimensions d schemas dmns ns) = [] \<longrightarrow> snd (check_dimensions d schemas dmns ns) = ns @ map dm_name dmns)"
    using assms
  proof (induction dmns arbitrary: ns)
    case (Cons dmn dmns)
    show ?case
    proof (cases "map_of (md_entities d) (dm_entity dmn) = None")
      case True
      then show ?thesis by (simp add: Let_def split: prod.split)
    next
      case False
      have fresh: "dm_name y \<noteq> dm_name dmn" if "y \<in> set dmns" for y using Cons.prems that by (auto simp: image_iff)
      show ?thesis using Cons.IH [of "ns @ [dm_name dmn]"] Cons.prems False fresh
        by (auto simp: Let_def split: prod.splits)
    qed
  qed simp
  then show "fst (check_dimensions d schemas dmns ns) = [] \<longleftrightarrow>
      (\<forall>dmn \<in> set dmns. map_of (md_entities d) (dm_entity dmn) \<noteq> None \<and> dm_name dmn \<notin> set ns \<and>
         check_columns schemas (''dimension/'' @ dm_name dmn) (dm_entity dmn) (dim_columns dmn) = [] \<and> check_time schemas dmn = [])"
    and "fst (check_dimensions d schemas dmns ns) = [] \<Longrightarrow> snd (check_dimensions d schemas dmns ns) = ns @ map dm_name dmns"
    by blast+
qed

definition measure_problems :: "model_def \<Rightarrow> (string, (string, string) dict) dict \<Rightarrow> measure \<Rightarrow> problem list" where
  "measure_problems d schemas ms =
     (case ms_expr_metric_ast ms of Some ast \<Rightarrow> check_derived d ms ast | None \<Rightarrow> check_base d schemas ms)"

lemma check_measures_none:
  "distinct (map ms_name mss) \<Longrightarrow> fst (check_measures d schemas mss ns) = [] \<longleftrightarrow>
     (\<forall>ms \<in> set mss. ms_name ms \<notin> set ns \<and> measure_problems d schemas ms = [])"
  and check_measures_names: "snd (check_measures d schemas mss ns) = ns @ map ms_name mss"
proof (induction mss arbitrary: ns)
  case (Cons ms mss)
  {
    case 1
    then have "ms_name y \<noteq> ms_name ms" if "y \<in> set mss" for y using that by (auto simp: image_iff)
    then show ?case using 1 Cons(1) [of "ns @ [ms_name ms]"]
      by (auto simp: Let_def measure_problems_def split: prod.splits)
  next
    case 2
    then show ?case using Cons(2) [of "ns @ [ms_name ms]"] by (auto simp: Let_def split: prod.splits)
  }
qed simp_all

lemma check_time_none:
  "check_time schemas dmn = [] \<longleftrightarrow> (\<forall>c. dm_dim_type dmn = ''time'' \<longrightarrow> dm_column dmn = Some c \<longrightarrow> c \<noteq> [] \<longrightarrow>
     col_type schemas (dm_entity dmn) c \<noteq> [] \<longrightarrow> col_type schemas (dm_entity dmn) c \<in> set TIME_TYPES)"
  by (auto simp: check_time_def Let_def split: option.splits)

lemma check_avg_none:
  "check_avg schemas e ms = [] \<longleftrightarrow> (\<forall>c. ms_agg ms = Some ''avg'' \<longrightarrow> ms_expr_ast ms = Some (NCol c) \<longrightarrow>
     col_type schemas e c \<noteq> [] \<longrightarrow> col_type schemas e c \<in> set NUMERIC_TYPES \<or> take 7 (col_type schemas e c) = ''decimal'')"
  by (auto simp: check_avg_def Let_def split: option.splits node.splits)

lemma mapR_concat_none: "bindR (mapR f xs) (\<lambda>pss. Inr (concat pss)) = Inr [] \<longleftrightarrow> (\<forall>x \<in> set xs. f x = Inr [])"
  by (induction xs) (auto simp: bindR_eq_Inr)

lemma ball_triples:
  "(\<forall>x \<in> set (concat (map (\<lambda>v. map (\<lambda>s. (f v, g v, s)) (h v)) vs)). Q (snd x)) \<longleftrightarrow> (\<forall>v \<in> set vs. \<forall>s \<in> set (h v). Q (g v, s))"
  by auto

lemma ball_all_synonyms:
  "(\<forall>x \<in> all_synonyms d. Q x) \<longleftrightarrow>
     (\<forall>dmn \<in> set (map snd (md_dimensions d)). \<forall>s \<in> set (dm_synonyms dmn). Q (dm_name dmn, s)) \<and>
     (\<forall>ms \<in> set (map snd (md_measures d)). \<forall>s \<in> set (ms_synonyms ms). Q (ms_name ms, s))"
proof -
  have "all_synonyms d = (\<Union>dmn \<in> set (map snd (md_dimensions d)). Pair (dm_name dmn) ` set (dm_synonyms dmn)) \<union>
      (\<Union>ms \<in> set (map snd (md_measures d)). Pair (ms_name ms) ` set (ms_synonyms ms))"
    unfolding all_synonyms_def set_map by blast
  then show ?thesis by (simp only: ball_Un ball_UN ball_simps(9))
qed

lemma check_synonyms_none:
  "check_synonyms ns d = Inr [] \<longleftrightarrow>
     (\<forall>(n, s) \<in> all_synonyms d. hashable s \<and> (\<forall>w. s = JStr w \<longrightarrow> w \<in> set ns \<longrightarrow> w = n))"
proof -
  define Q where "Q = (\<lambda>(n, s). hashable s \<and> (\<forall>w. s = JStr w \<longrightarrow> w \<in> set ns \<longrightarrow> w = n))"
  have "(case x of (ow, n, s) \<Rightarrow> check_synonym ns ow n s) = Inr [] \<longleftrightarrow> Q (snd x)" for x
    by (cases "snd (snd x)") (auto simp: Q_def check_synonym_def hashable_def split: prod.splits if_splits)
  then show ?thesis
    unfolding check_synonyms_def mapR_concat_none Q_def [symmetric] ball_all_synonyms
    by (simp only: set_append ball_Un ball_triples [where Q = Q])
qed

lemma col_type_at:
  assumes "keyed en_name ok (md_entities d)"
  shows "(col_type (bound_schemas dataset_lookup (map snd (md_entities d))) n c \<noteq> [] \<longrightarrow>
      ok' (col_type (bound_schemas dataset_lookup (map snd (md_entities d))) n c)) \<longleftrightarrow> has_type dataset_lookup d n c ok'"
  unfolding col_type_def bound_schemas_at [OF assms] has_type_def schema_at_def by (auto split: option.splits)

text \<open>With every entity bound, the schemas the checks look at are those of the declared entities.\<close>

lemma bound_iff:
  assumes k: "keyed en_name ok (md_entities d)" and all: "\<forall>e \<in> snd ` set (md_entities d). entity_schema dataset_lookup e \<noteq> None"
    and f: "finite cols"
  shows "bound_to dataset_lookup d n cols \<longleftrightarrow> map_of (md_entities d) n \<noteq> None \<and>
     check_columns (bound_schemas dataset_lookup (map snd (md_entities d))) ow n cols = []"
proof (cases "map_of (md_entities d) n")
  case None
  then show ?thesis by (simp add: bound_to_def schema_at_def)
next
  case (Some e)
  then have "e \<in> snd ` set (md_entities d)" by (force dest: map_of_SomeD)
  then obtain sch where "entity_schema dataset_lookup e = Some sch" using all by fastforce
  moreover from this Some have "map_of (bound_schemas dataset_lookup (map snd (md_entities d))) n = Some sch"
    by (simp add: bound_schemas_at [OF k])
  ultimately show ?thesis using Some by (simp add: check_columns_none [OF f] bound_to_def schema_at_def)
qed

lemma check_entities_none:
  assumes k: "keyed en_name ok (md_entities d)"
  shows "concat (map (check_entity dataset_lookup) (map snd (md_entities d))) = [] \<longleftrightarrow>
     (\<forall>e \<in> snd ` set (md_entities d). bound_to dataset_lookup d (en_name e) (set (en_primary_key e)))"
proof -
  have at: "map_of (md_entities d) (en_name e) = Some e" if "e \<in> snd ` set (md_entities d)" for e
    using k that unfolding keyed_def by auto
  have "check_entity dataset_lookup e = [] \<longleftrightarrow> bound_to dataset_lookup d (en_name e) (set (en_primary_key e))"
    if "e \<in> snd ` set (md_entities d)" for e
    using at [OF that] by (auto simp: check_entity_def bound_to_def schema_at_def filter_empty_conv split: option.splits)
  then show ?thesis by (simp only: concat_eq_Nil_conv) auto
qed

lemma check_join_none:
  assumes k: "keyed en_name ok (md_entities d)" and all: "\<forall>e \<in> snd ` set (md_entities d). entity_schema dataset_lookup e \<noteq> None"
  shows "check_join d (bound_schemas dataset_lookup (map snd (md_entities d))) jp = [] \<longleftrightarrow>
     bound_to dataset_lookup d (jp_from_entity jp) (fst ` set (jp_on jp)) \<and>
     bound_to dataset_lookup d (jp_to_entity jp) (snd ` set (jp_on jp))"
  using bound_iff [OF k all, of "fst ` set (jp_on jp)" "jp_from_entity jp" "''join_path/'' @ jp_name jp"]
    bound_iff [OF k all, of "snd ` set (jp_on jp)" "jp_to_entity jp" "''join_path/'' @ jp_name jp"]
  unfolding check_join_def Let_def endpoints_known_def by auto

lemma measure_problems_none:
  assumes m: "model_ok d" and ms: "ms \<in> snd ` set (md_measures d)"
    and all: "\<forall>e \<in> snd ` set (md_entities d). entity_schema dataset_lookup e \<noteq> None"
  shows "measure_problems d (bound_schemas dataset_lookup (map snd (md_entities d))) ms = [] \<longleftrightarrow> measure_bound dataset_lookup d ms"
proof -
  let ?S = "bound_schemas dataset_lookup (map snd (md_entities d))"
  have ke: "keyed en_name entity_ok (md_entities d)" and km: "keyed ms_name measure_ok (md_measures d)"
    using m by (simp_all add: model_ok_def)
  have ok: "measure_ok ms" and at: "map_of (md_measures d) (ms_name ms) = Some ms" using km ms unfolding keyed_def by auto
  show ?thesis
  proof (cases "ms_expr_metric_ast ms")
    case (Some ast)
    have "finite (collect_columns (Some ast))"
      using ok Some by (intro collect_columns_finite) (simp add: measure_ok_def tree_def)
    then have "check_derived d ms ast = [] \<longleftrightarrow> (\<forall>ref \<in> collect_columns (Some ast). map_of (md_measures d) ref \<noteq> None \<and> ref \<noteq> ms_name ms)"
      using at Some by (auto simp: check_derived_def split: option.splits)
    then show ?thesis using Some by (simp add: measure_problems_def measure_bound_def)
  next
    case None
    obtain e agg where e: "ms_entity ms = Some e" "ms_agg ms = Some agg" "ms_expr_ast ms = None \<longrightarrow> agg = ''count''"
      using ok None by (auto simp: measure_ok_def)
    have f: "finite (collect_columns (ms_expr_ast ms) \<union> collect_columns (ms_filters_ast ms))"
      using ok None by (intro finite_UnI collect_columns_finite) (auto simp: measure_ok_def tree_def)
    have "check_base d ?S ms = [] \<longleftrightarrow> bound_to dataset_lookup d e (collect_columns (ms_expr_ast ms) \<union> collect_columns (ms_filters_ast ms)) \<and>
        check_avg ?S e ms = []"
      using bound_iff [OF ke all f, of e "''measure/'' @ ms_name ms"] e unfolding check_base_def Let_def
      by (cases "ms_expr_ast ms") auto
    then show ?thesis using None e(1)
      unfolding measure_problems_def measure_bound_def check_avg_none col_type_at [OF ke, symmetric] by simp
  qed
qed

lemma dimension_problems_none:
  assumes m: "model_ok d" and dmn: "dmn \<in> snd ` set (md_dimensions d)"
    and all: "\<forall>e \<in> snd ` set (md_entities d). entity_schema dataset_lookup e \<noteq> None"
  shows "map_of (md_entities d) (dm_entity dmn) \<noteq> None \<and>
      check_columns (bound_schemas dataset_lookup (map snd (md_entities d))) (''dimension/'' @ dm_name dmn) (dm_entity dmn) (dim_columns dmn) = [] \<and>
      check_time (bound_schemas dataset_lookup (map snd (md_entities d))) dmn = [] \<longleftrightarrow> dimension_bound dataset_lookup d dmn"
proof -
  have ke: "keyed en_name entity_ok (md_entities d)" and "keyed dm_name dimension_ok (md_dimensions d)"
    using m by (simp_all add: model_ok_def)
  then have ok: "dimension_ok dmn" using dmn unfolding keyed_def by auto
  then have f: "finite (dim_columns dmn)"
    unfolding dim_columns_def by (auto simp: dimension_ok_def tree_def intro!: collect_columns_finite split: option.splits)
  have ne: "c \<noteq> []" if "dm_column dmn = Some c" for c using ok that by (auto simp: dimension_ok_def name_ok_def)
  show ?thesis
    using bound_iff [OF ke all f, of "dm_entity dmn" "''dimension/'' @ dm_name dmn"] ne
    unfolding dimension_bound_def check_time_none col_type_at [OF ke, symmetric] by blast
qed

lemma bound_schemas_names:
  assumes "keyed en_name ok es" and "\<forall>e \<in> snd ` set es. entity_schema dataset_lookup e \<noteq> None"
  shows "map fst (bound_schemas dataset_lookup (map snd es)) = map fst es"
  using assms by (induction es) (auto simp: bound_schemas_def keyed_def)

lemma keyed_names: "keyed name ok d \<Longrightarrow> map name (map snd d) = map fst d"
  by (induction d) (auto simp: keyed_def)

lemma keyed_distinct: "keyed name ok d \<Longrightarrow> distinct (map name (map snd d))"
  by (simp only: keyed_names) (simp add: keyed_def)

lemma keyed_keys: "keyed name ok d \<Longrightarrow> distinct (map fst d)"
  by (simp add: keyed_def)

lemma distinct_three:
  "distinct xs \<Longrightarrow> distinct ys \<Longrightarrow> distinct zs \<Longrightarrow>
   distinct (xs @ ys @ zs) \<longleftrightarrow> set xs \<inter> set ys = {} \<and> (set xs \<union> set ys) \<inter> set zs = {}"
  by auto

lemma ball_notin: "(\<forall>x \<in> X. f x \<notin> A) \<longleftrightarrow> A \<inter> f ` X = {}"
  by auto

lemma guards_combine:
  assumes "E \<longleftrightarrow> A" and "D \<longleftrightarrow> B \<and> N" and "D \<Longrightarrow> M \<longleftrightarrow> C \<and> N'" and "D \<Longrightarrow> Y \<longleftrightarrow> S" and "J' \<longleftrightarrow> J" and "J' \<Longrightarrow> F' \<longleftrightarrow> F"
    and "U \<longleftrightarrow> N \<and> N'"
  shows "E \<and> D \<and> M \<and> Y \<and> J' \<and> F' \<longleftrightarrow> A \<and> B \<and> C \<and> U \<and> S \<and> J \<and> F"
  using assms by blast

lemma bound_edges:
  "\<forall>jp \<in> J. bound_to l d (jp_from_entity jp) (A jp) \<and> bound_to l d (jp_to_entity jp) (B jp) \<Longrightarrow>
   {jp \<in> J. endpoints_known d jp} = J"
  by (auto simp: endpoints_known_def bound_to_def schema_at_def split: option.splits)

lemma validate_definition_exact:
  assumes m: "model_ok d"
  shows "\<exists>res. validate_definition d dataset_lookup = Some res \<and> (res = Inr [] \<longleftrightarrow> well_bound dataset_lookup d)"
proof -
  let ?es = "map snd (md_entities d)" and ?l = dataset_lookup
  let ?S = "bound_schemas ?l ?es"
  let ?E = "concat (map (check_entity ?l) ?es)" and ?J = "concat (map (check_join d ?S) (map snd (md_join_paths d)))"
  have k: "keyed en_name entity_ok (md_entities d)" "keyed dm_name dimension_ok (md_dimensions d)"
      "keyed ms_name measure_ok (md_measures d)" using m by (simp_all add: model_ok_def)
  obtain cyc where cyc: "check_cycles (graph_edges d) (\<lambda>_. None) = Some cyc"
      "cyc = [] \<longleftrightarrow> forest_links (join_edge ` {jp \<in> snd ` set (md_join_paths d). endpoints_known d jp})"
    using check_cycles_forest by blast
  obtain D n1 where D: "check_dimensions d ?S (map snd (md_dimensions d)) (map fst ?S) = (D, n1)" by fastforce
  obtain M n2 where M: "check_measures d ?S (map snd (md_measures d)) n1 = (M, n2)" by fastforce
  define res where "res = (case check_synonyms n2 d of Inl e \<Rightarrow> Inl e | Inr syn \<Rightarrow> Inr (?E @ D @ M @ syn @ ?J @ cyc))"
  have run: "validate_definition d ?l = Some res"
    by (simp add: validate_definition_def Let_def D M cyc(1) res_def split: sum.split)
  have parts: "res = Inr [] \<longleftrightarrow> ?E = [] \<and> D = [] \<and> M = [] \<and> check_synonyms n2 d = Inr [] \<and> ?J = [] \<and> cyc = []"
    by (auto simp: res_def split: sum.splits)
  note ents = check_entities_none [OF k(1), of ?l]
  have "res = Inr [] \<longleftrightarrow> well_bound ?l d" if E: "?E = []"
  proof -
    have all: "\<forall>e \<in> snd ` set (md_entities d). entity_schema ?l e \<noteq> None"
      using E by (auto simp: check_entity_def split: option.splits)
    have n0: "map fst ?S = map fst (md_entities d)" by (rule bound_schemas_names [OF k(1) all])
    have dims: "D = [] \<longleftrightarrow> (\<forall>dmn \<in> snd ` set (md_dimensions d). dimension_bound ?l d dmn \<and> dm_name dmn \<notin> fst ` set (md_entities d))"
    proof -
      have "D = [] \<longleftrightarrow> (\<forall>dmn \<in> set (map snd (md_dimensions d)). map_of (md_entities d) (dm_entity dmn) \<noteq> None \<and>
          dm_name dmn \<notin> set (map fst ?S) \<and> check_columns ?S (''dimension/'' @ dm_name dmn) (dm_entity dmn) (dim_columns dmn) = [] \<and>
          check_time ?S dmn = [])"
        using check_dimensions_none(1) [OF keyed_distinct [OF k(2)], of d ?S "map fst ?S"] unfolding D by (simp only: fst_conv)
      also have "\<dots> \<longleftrightarrow> (\<forall>dmn \<in> snd ` set (md_dimensions d). dimension_bound ?l d dmn \<and> dm_name dmn \<notin> fst ` set (md_entities d))"
        unfolding n0 set_map by (rule ball_cong [OF refl]) (use dimension_problems_none [OF m _ all] in blast)
      finally show ?thesis .
    qed
    have n1: "n1 = map fst (md_entities d) @ map fst (md_dimensions d)" if "D = []"
      using check_dimensions_none(2) [OF keyed_distinct [OF k(2)], of d ?S "map fst ?S", unfolded D fst_conv snd_conv] that
      unfolding keyed_names [OF k(2)] n0 by simp
    have meas: "M = [] \<longleftrightarrow> (\<forall>ms \<in> snd ` set (md_measures d). measure_bound ?l d ms \<and> ms_name ms \<notin> set n1)"
    proof -
      have "M = [] \<longleftrightarrow> (\<forall>ms \<in> set (map snd (md_measures d)). ms_name ms \<notin> set n1 \<and> measure_problems d ?S ms = [])"
        using check_measures_none [OF keyed_distinct [OF k(3)], of d ?S n1] unfolding M by (simp only: fst_conv)
      also have "\<dots> \<longleftrightarrow> (\<forall>ms \<in> snd ` set (md_measures d). measure_bound ?l d ms \<and> ms_name ms \<notin> set n1)"
        unfolding set_map by (rule ball_cong [OF refl]) (use measure_problems_none [OF m _ all] in blast)
      finally show ?thesis .
    qed
    have n2: "n2 = n1 @ map fst (md_measures d)"
      using check_measures_names [of d ?S "map snd (md_measures d)" n1] unfolding M keyed_names [OF k(3)] by simp
    have joins: "?J = [] \<longleftrightarrow> (\<forall>jp \<in> snd ` set (md_join_paths d).
        bound_to ?l d (jp_from_entity jp) (fst ` set (jp_on jp)) \<and> bound_to ?l d (jp_to_entity jp) (snd ` set (jp_on jp)))"
      using check_join_none [OF k(1) all] by (simp only: concat_eq_Nil_conv) auto
    have names: "distinct (object_names d) \<longleftrightarrow>
        (\<forall>dmn \<in> snd ` set (md_dimensions d). dm_name dmn \<notin> fst ` set (md_entities d)) \<and>
        (\<forall>ms \<in> snd ` set (md_measures d). ms_name ms \<notin> fst ` set (md_entities d) \<and> ms_name ms \<notin> fst ` set (md_dimensions d))"
    proof -
      have img: "dm_name ` snd ` set (md_dimensions d) = fst ` set (md_dimensions d)" "ms_name ` snd ` set (md_measures d) = fst ` set (md_measures d)"
        using arg_cong [OF keyed_names [OF k(2)], of set] arg_cong [OF keyed_names [OF k(3)], of set] by (simp_all only: set_map)
      have "distinct (object_names d) \<longleftrightarrow> fst ` set (md_entities d) \<inter> fst ` set (md_dimensions d) = {} \<and>
          (fst ` set (md_entities d) \<union> fst ` set (md_dimensions d)) \<inter> fst ` set (md_measures d) = {}"
        using distinct_three [OF keyed_keys [OF k(1)] keyed_keys [OF k(2)] keyed_keys [OF k(3)]]
        unfolding object_names_def set_map .
      then show ?thesis unfolding ball_conj_distrib ball_notin img by (simp only: Int_Un_distrib2 Un_empty)
    qed
    have d2: "D = [] \<longleftrightarrow> (\<forall>dmn \<in> snd ` set (md_dimensions d). dimension_bound ?l d dmn) \<and>
        (\<forall>dmn \<in> snd ` set (md_dimensions d). dm_name dmn \<notin> fst ` set (md_entities d))"
      unfolding dims ball_conj_distrib ..
    have m2: "M = [] \<longleftrightarrow> (\<forall>ms \<in> snd ` set (md_measures d). measure_bound ?l d ms) \<and>
        (\<forall>ms \<in> snd ` set (md_measures d). ms_name ms \<notin> fst ` set (md_entities d) \<and> ms_name ms \<notin> fst ` set (md_dimensions d))"
      if "D = []"
      unfolding meas n1 [OF that] set_append set_map Un_iff de_Morgan_disj ball_conj_distrib ..
    have s2: "check_synonyms n2 d = Inr [] \<longleftrightarrow>
        (\<forall>(n, s) \<in> all_synonyms d. hashable s \<and> (\<forall>w. s = JStr w \<longrightarrow> w \<in> set (object_names d) \<longrightarrow> w = n))" if "D = []"
      unfolding check_synonyms_none n2 n1 [OF that] object_names_def append_assoc ..
    have c2: "cyc = [] \<longleftrightarrow> forest_links (join_edge ` snd ` set (md_join_paths d))" if "?J = []"
      unfolding cyc(2) bound_edges [OF joins [THEN iffD1, OF that]] ..
    show ?thesis unfolding well_bound_def parts by (rule guards_combine [OF ents d2 m2 s2 joins c2 names])
  qed
  moreover have "\<not> well_bound ?l d" if "?E \<noteq> []" using ents that unfolding well_bound_def by blast
  ultimately show ?thesis using run parts by blast
qed

text \<open>C31. The submission guard is exact. The validator always returns, and it returns no problem exactly when
  every entity, dimension, measure and join of the parsed document is bound to columns its datasets have,
  with the types it needs, no two objects share a name, no synonym is the name of another object, and
  the join graph is a forest.\<close>

theorem submission_guard_exact:
  assumes "parse_definition fl settings doc = Inr d"
  shows "model_ok d \<and> (\<exists>res. validate_definition d dataset_lookup = Some res \<and> (res = Inr [] \<longleftrightarrow> well_bound dataset_lookup d))"
  using parse_definition_ok [OF assms] validate_definition_exact by blast

subsection \<open>Validated models are unambiguous\<close>

lemma edge_linked: "(jp_from_entity j, jp_to_entity j) \<in> linked {join_edge j}"
  using linked_link [of _ _ "{join_edge j}"] linked_sym by (cases "jp_from_entity j \<le> jp_to_entity j") (auto simp: join_edge_def min_def max_def)

lemma walk_linked: "walk J a js b \<Longrightarrow> join_edge ` set js \<subseteq> F \<Longrightarrow> (a, b) \<in> linked F"
proof (induction js arbitrary: a)
  case (Cons j js)
  have "(a, jp_to_entity j) \<in> linked F"
    using edge_linked [of j] linked_mono [of "{join_edge j}" F] Cons.prems by auto
  then show ?case using Cons by (auto intro: linked_trans)
qed simp

lemma join_edge_same:
  "join_edge i = join_edge j \<Longrightarrow> jp_from_entity i = jp_from_entity j \<or> jp_from_entity i = jp_to_entity j \<and> jp_to_entity i = jp_from_entity j"
  by (auto simp: join_edge_def min_def max_def split: if_splits)

lemma image_without: "A \<subseteq> J \<Longrightarrow> (\<And>k. k \<in> A \<Longrightarrow> f k \<noteq> f j) \<Longrightarrow> f ` A \<subseteq> f ` J - {f j}"
  by (intro image_subsetI DiffI imageI) auto

lemma walk_never_back:
  "walk J c ks b \<Longrightarrow> jp_to_entity ` set ks \<inter> V = {} \<Longrightarrow> a \<in> V \<Longrightarrow> c \<noteq> a \<Longrightarrow> k \<in> set ks \<Longrightarrow> jp_from_entity k \<noteq> a"
proof (induction ks arbitrary: c)
  case (Cons j ks)
  have "jp_to_entity j \<noteq> a" using Cons.prems(2,3) by auto
  then show ?case using Cons.IH [of "jp_to_entity j"] Cons.prems by auto
qed simp

lemma forest_unique:
  assumes f: "forest_links (join_edge ` J)" and i: "inj_on join_edge J"
  shows "simple J a V js b \<Longrightarrow> simple J a V js' b \<Longrightarrow> a \<in> V \<Longrightarrow> js = js'"
proof (induction js arbitrary: a V js')
  case Nil
  then show ?case by (simp add: simple_def simple_here [unfolded simple_def])
next
  case (Cons j js)
  have "js' \<noteq> []"
  proof
    assume "js' = []"
    then have "b \<in> V" using Cons.prems(2,3) by (simp add: simple_def)
    then show False using Cons.prems(1) simple_here [of b V J a "j # js"] by simp
  qed
  then obtain j' ks where js': "js' = j' # ks" by (cases js') auto
  show ?case
  proof (cases "j = j'")
    case True
    then show ?thesis using Cons.IH [of "jp_to_entity j" "insert (jp_to_entity j) V" ks] Cons.prems unfolding js' by (simp add: simple_Cons)
  next
    case False
    let ?F = "join_edge ` J - {join_edge j}"
    have j: "j \<in> J" "jp_from_entity j = a" "jp_to_entity j \<notin> V" and j': "j' \<in> J" "jp_from_entity j' = a"
      and w: "walk J (jp_to_entity j) js b" "walk J a js' b" and V: "jp_to_entity ` set js \<inter> V = {}" "jp_to_entity ` set js' \<inter> V = {}"
      and x: "jp_to_entity j \<notin> jp_to_entity ` set js"
      using Cons.prems unfolding js' by (auto simp: simple_def)
    note from_a = walk_never_back [OF _ _ Cons.prems(3)]
    have js: "join_edge k \<noteq> join_edge j" if "k \<in> set js" for k
    proof
      assume "join_edge k = join_edge j"
      moreover have "jp_to_entity j \<noteq> a" "jp_to_entity k \<noteq> a" using j(3) V(1) that Cons.prems(3) by auto
      ultimately show False using join_edge_same [of k j] from_a [OF w(1) V(1) _ that] j(2) by auto
    qed
    have ks: "join_edge k \<noteq> join_edge j" if k: "k \<in> set js'" for k
    proof
      assume e: "join_edge k = join_edge j"
      have "k \<in> J" using w(2) k walk_edges by blast
      then have "k = j" using i e j(1) by (auto dest: inj_onD)
      then have "j \<in> set ks" using k False unfolding js' by auto
      moreover have "walk J (jp_to_entity j') ks b" "jp_to_entity j' \<noteq> a" "jp_to_entity ` set ks \<inter> V = {}"
        using w(2) V(2) Cons.prems(3) unfolding js' by auto
      ultimately show False using from_a j(2) by blast
    qed
    have sub: "join_edge ` set js \<subseteq> ?F" "join_edge ` set js' \<subseteq> ?F"
      using image_without [where f = join_edge and j = j, OF walk_edges [OF w(1)]] js
        image_without [where f = join_edge and j = j, OF walk_edges [OF w(2)]] ks by simp_all
    have "(jp_to_entity j, b) \<in> linked ?F" "(a, b) \<in> linked ?F"
      by (rule walk_linked [OF w(1) sub(1)], rule walk_linked [OF w(2) sub(2)])
    then have "(a, jp_to_entity j) \<in> linked ?F" by (blast intro: linked_trans linked_sym)
    then have "join_edge j \<in> linked ?F"
      using linked_sym [of a "jp_to_entity j" ?F] j(2) by (auto simp: join_edge_def min_def max_def)
    then show ?thesis using f j(1) unfolding forest_links_def by blast
  qed
qed

text \<open>C32. A model that passed the guard and has no two joins between the same entities never has an ambiguous
  join: whatever a request asks for, resolution either succeeds or finds no path.\<close>

theorem validated_never_ambiguous:
  assumes "model_ok d" and "validate_definition d dataset_lookup = Some (Inr [])"
    and "inj_on join_edge (snd ` set (md_join_paths d))"
  shows "resolve_joins (md_join_paths d) base targets pinned \<noteq> Inl (Ambiguous_join_path ps)"
proof
  let ?J = "declared (md_join_paths d) pinned"
  assume r: "resolve_joins (md_join_paths d) base targets pinned = Inl (Ambiguous_join_path ps)"
  have n: "named (md_join_paths d)" using assms(1) by (auto simp: model_ok_def keyed_def named_def)
  obtain t where "card (ways (md_join_paths d) pinned base t) > 1"
    using resolve_loop_outcome [OF n, of targets base pinned "[]"] r by (auto simp: resolve_joins_def)
  then obtain js js' where two: "simple ?J base {base} js t" "simple ?J base {base} js' t" "js \<noteq> js'"
  proof -
    assume c: "card (ways (md_join_paths d) pinned base t) > 1"
    then have "finite (ways (md_join_paths d) pinned base t)" using card.infinite by fastforce
    from card_le_Suc0_iff_eq [OF this] c
    have "\<not> (\<forall>x \<in> ways (md_join_paths d) pinned base t. \<forall>y \<in> ways (md_join_paths d) pinned base t. x = y)" by linarith
    then show thesis using that by blast
  qed
  have "well_bound dataset_lookup d" using validate_definition_exact [OF assms(1), of dataset_lookup] assms(2) by auto
  then have "forest_links (join_edge ` snd ` set (md_join_paths d))" by (simp add: well_bound_def)
  then have "forest_links (join_edge ` ?J)" by (rule forest_links_sub) (intro image_mono declared_sub)
  moreover have "inj_on join_edge ?J" by (rule inj_on_subset [OF assms(3) declared_sub])
  ultimately show False using forest_unique [OF _ _ two(1,2)] two(3) by blast
qed

subsection \<open>What a schema change breaks\<close>

definition bound_entities :: "model_def \<Rightarrow> json \<Rightarrow> string set" where
  "bound_entities d dataset_urn = en_name ` {e \<in> snd ` set (md_entities d). en_dataset_urn e = dataset_urn}"

text \<open>A measure is flagged exactly when its entity is bound to the dataset and one of its columns, in its
  expression or its filter, was removed or retyped.\<close>

lemma broken_measure_iff:
  "Broken_measure n h \<in> set (broken_refs_for_schema_change d dataset_urn removed retyped) \<longleftrightarrow>
     (\<exists>ms \<in> snd ` set (md_measures d). ms_name ms = n \<and> ms_entity ms \<in> Some ` bound_entities d dataset_urn \<and>
        h = hit (collect_columns (ms_expr_ast ms) \<union> collect_columns (ms_filters_ast ms)) (py_lower ` removed \<union> py_lower ` retyped) \<and>
        h \<noteq> [])"
proof -
  have b: "set (map en_name (filter (\<lambda>e. en_dataset_urn e = dataset_urn) (map snd (md_entities d)))) = bound_entities d dataset_urn"
    by (auto simp: bound_entities_def)
  show ?thesis
  proof (cases "bound_entities d dataset_urn = {} \<or> py_lower ` removed \<union> py_lower ` retyped = {}")
    case True
    then show ?thesis unfolding broken_refs_for_schema_change_def Let_def b by (auto simp: hit_def)
  next
    case False
    then show ?thesis unfolding broken_refs_for_schema_change_def Let_def b
      by (auto split: option.splits if_splits)
  qed
qed

subsection \<open>A small model\<close>

definition jo :: "(string \<times> string) list \<Rightarrow> json" where
  "jo kvs = JObj (map (\<lambda>(k, v). (k, JStr v)) kvs)"

definition demo_doc :: json where
  "demo_doc = JObj
    [(''entities'', JArr
       [JObj [(''name'', JStr ''orders''), (''dataset_urn'', JStr ''o''), (''table'', JStr ''main.orders''), (''primary_key'', JArr [JStr ''id''])],
        JObj [(''name'', JStr ''customers''), (''dataset_urn'', JStr ''c''), (''table'', JStr ''main.customers'')]]),
     (''dimensions'', JArr
       [jo [(''name'', ''region''), (''entity'', ''customers''), (''column'', ''region'')],
        JObj [(''name'', JStr ''day''), (''entity'', JStr ''orders''), (''column'', JStr ''created''), (''type'', JStr ''time''),
          (''time_grains'', JArr [JStr ''day'', JStr ''month''])]]),
     (''measures'', JArr
       [jo [(''name'', ''revenue''), (''entity'', ''orders''), (''agg'', ''sum''), (''expr'', ''amount''), (''filters'', ''paid = true'')],
        jo [(''name'', ''buyers''), (''entity'', ''customers''), (''agg'', ''count'')],
        jo [(''name'', ''per_buyer''), (''expr_metric'', ''revenue / nullif(buyers, 0)'')]]),
     (''join_paths'', JArr
       [JObj [(''name'', JStr ''oc''), (''from_entity'', JStr ''orders''), (''to_entity'', JStr ''customers''), (''join_type'', JStr ''left''),
          (''cardinality'', JStr ''many_to_one''), (''on'', JArr [jo [(''from_column'', ''customer_id''), (''to_column'', ''id'')]])]])]"

definition demo_lookup :: "json \<Rightarrow> dataset_info option" where
  "demo_lookup urn =
     (if urn = JStr ''o'' then Some \<lparr>ds_exists = True, ds_schema = [(''ID'', ''int''), (''amount'', ''decimal(10,2)''), (''paid'', ''boolean''),
        (''created'', ''TIMESTAMP''), (''customer_id'', ''int'')]\<rparr>
      else if urn = JStr ''c'' then Some \<lparr>ds_exists = True, ds_schema = [(''id'', ''int''), (''region'', ''varchar'')]\<rparr>
      else None)"

definition demo_dim :: "string \<Rightarrow> string \<Rightarrow> string \<Rightarrow> string \<Rightarrow> string list \<Rightarrow> dimension" where
  "demo_dim n e t c gs = \<lparr>dm_name = n, dm_entity = e, dm_dim_type = t, dm_column = Some c, dm_expr_ast = None, dm_time_grains = gs,
     dm_synonyms = [], dm_description = JNull, dm_deprecated = False, dm_successor = JNull, dm_origin = JStr ''manual''\<rparr>"

definition demo_measure :: "string \<Rightarrow> string option \<Rightarrow> string option \<Rightarrow> node option \<Rightarrow> node option \<Rightarrow> node option \<Rightarrow> measure" where
  "demo_measure n e a x xm fl = \<lparr>ms_name = n, ms_entity = e, ms_agg = a, ms_expr_ast = x, ms_expr_metric_ast = xm, ms_filters_ast = fl,
     ms_format = JNull, ms_synonyms = [], ms_description = JNull, ms_deprecated = False, ms_successor = JNull, ms_origin = JStr ''manual''\<rparr>"

definition demo_entity :: "string \<Rightarrow> string \<Rightarrow> string \<Rightarrow> string list \<Rightarrow> entity" where
  "demo_entity n u t pk = \<lparr>en_name = n, en_dataset_urn = JStr u, en_table = t, en_primary_key = pk,
     en_policy = [(''policy'', JStr ''latest'')], en_description = JNull\<rparr>"

definition demo_model :: model_def where
  "demo_model =
     \<lparr>md_entities = [(''orders'', demo_entity ''orders'' ''o'' ''main.orders'' [''id'']),
        (''customers'', demo_entity ''customers'' ''c'' ''main.customers'' [])],
      md_dimensions = [(''region'', demo_dim ''region'' ''customers'' ''categorical'' ''region'' []),
        (''day'', demo_dim ''day'' ''orders'' ''time'' ''created'' [''day'', ''month''])],
      md_measures =
        [(''revenue'', demo_measure ''revenue'' (Some ''orders'') (Some ''sum'') (Some (NCol ''amount'')) None
            (Some (NCond ''='' (NCol ''paid'') (Some (NLit (LBool ''true'')))))),
         (''buyers'', demo_measure ''buyers'' (Some ''customers'') (Some ''count'') None None None),
         (''per_buyer'', demo_measure ''per_buyer'' None None None
            (Some (NBin ''/'' (NCol ''revenue'') (NFunc ''nullif'' [NCol ''buyers'', NLit (LNum ''0'')]))) None)],
      md_join_paths = [(''oc'', \<lparr>jp_name = ''oc'', jp_from_entity = ''orders'', jp_to_entity = ''customers'', jp_join_type = ''left'',
          jp_on = [(''customer_id'', ''id'')], jp_cardinality = ''many_to_one''\<rparr>)]\<rparr>"

lemma demo_parses: "parse_definition (\<lambda>_. 0) None demo_doc = Inr demo_model"
  by code_simp

lemma demo_validates: "validate_definition demo_model demo_lookup = Some (Inr [])"
  by code_simp

theorem submission_guard_exact_witness: "well_bound demo_lookup demo_model"
  using submission_guard_exact [OF demo_parses, of demo_lookup] demo_validates by simp

theorem validated_never_ambiguous_witness:
  "\<forall>ps. resolve_joins (md_join_paths demo_model) ''orders'' [''customers''] [] \<noteq> Inl (Ambiguous_join_path ps)"
proof (intro allI, rule validated_never_ambiguous [OF parse_definition_ok [OF demo_parses] demo_validates])
  have "length (md_join_paths demo_model) = 1" by code_simp
  then show "inj_on join_edge (snd ` set (md_join_paths demo_model))" by (auto simp: length_Suc_conv)
qed

end
