(* ===== verification/Semantic_Time.thy ===== *)
theory Semantic_Time
  imports Semantic_Joins
begin

text \<open>
  Relative time ranges (\<open>services/semantic-service/app/compiler/timeutil.py\<close>): a keyword such as
  \<open>last_3_months\<close> becomes a half-open interval of dates.

  Dates are those of Python's \<open>datetime.date\<close>, the proleptic Gregorian calendar from year 1 to 9999;
  adding a \<open>timedelta\<close> steps day by day. Leaving the range raises (\<open>Py_overflow_error\<close> stands for
  \<open>OverflowError\<close> and \<open>ValueError\<close>). The current date in a time zone comes from the system and is the
  argument \<open>today_in\<close>; an unknown zone is \<open>None\<close>.
\<close>

subsection \<open>Calendar dates\<close>

record date =
  dt_year :: int
  dt_month :: int
  dt_day :: int

definition leap :: "int \<Rightarrow> bool" where
  "leap y \<longleftrightarrow> y mod 4 = 0 \<and> (y mod 100 \<noteq> 0 \<or> y mod 400 = 0)"

definition days_in_month :: "int \<Rightarrow> int \<Rightarrow> int" where
  "days_in_month y m =
     (if m = 2 then (if leap y then 29 else 28) else if m \<in> {4, 6, 9, 11} then 30 else 31)"

definition valid_date :: "date \<Rightarrow> bool" where
  "valid_date d \<longleftrightarrow> 1 \<le> dt_year d \<and> dt_year d \<le> 9999 \<and> 1 \<le> dt_month d \<and> dt_month d \<le> 12 \<and>
     1 \<le> dt_day d \<and> dt_day d \<le> days_in_month (dt_year d) (dt_month d)"

definition days_before_year :: "int \<Rightarrow> int" where
  "days_before_year y = (let z = y - 1 in z * 365 + z div 4 - z div 100 + z div 400)"

definition days_before_month :: "int \<Rightarrow> int \<Rightarrow> int" where
  "days_before_month y m = sum_list (map (days_in_month y) [1..m - 1])"

definition toordinal :: "date \<Rightarrow> int" where
  "toordinal d = days_before_year (dt_year d) + days_before_month (dt_year d) (dt_month d) + dt_day d"

definition weekday :: "date \<Rightarrow> int" where
  "weekday d = (toordinal d + 6) mod 7"

definition prev_day :: "date \<Rightarrow> date" where
  "prev_day d =
     (if dt_day d > 1 then d\<lparr>dt_day := dt_day d - 1\<rparr>
      else if dt_month d > 1
      then d\<lparr>dt_month := dt_month d - 1, dt_day := days_in_month (dt_year d) (dt_month d - 1)\<rparr>
      else \<lparr>dt_year = dt_year d - 1, dt_month = 12, dt_day = 31\<rparr>)"

definition next_day :: "date \<Rightarrow> date" where
  "next_day d =
     (if dt_day d < days_in_month (dt_year d) (dt_month d) then d\<lparr>dt_day := dt_day d + 1\<rparr>
      else if dt_month d < 12 then d\<lparr>dt_month := dt_month d + 1, dt_day := 1\<rparr>
      else \<lparr>dt_year = dt_year d + 1, dt_month = 1, dt_day = 1\<rparr>)"

datatype range_error = Unknown_timezone | Unknown_range | Empty_range | Py_overflow_error

definition in_calendar :: "date \<Rightarrow> range_error + date" where
  "in_calendar d = (if 1 \<le> dt_year d \<and> dt_year d \<le> 9999 then Inr d else Inl Py_overflow_error)"

definition minus_days :: "date \<Rightarrow> nat \<Rightarrow> range_error + date" where
  "minus_days d n = in_calendar ((prev_day ^^ n) d)"

subsection \<open>Relative ranges\<close>

definition month_add :: "date \<Rightarrow> int \<Rightarrow> range_error + date" where
  "month_add d months =
     (let zero_based = dt_year d * 12 + (dt_month d - 1) + months
      in in_calendar \<lparr>dt_year = zero_based div 12, dt_month = zero_based mod 12 + 1, dt_day = 1\<rparr>)"

definition unit_of :: "string \<Rightarrow> string option" where
  "unit_of s =
     (let body = (if s \<noteq> [] \<and> last s = CHR 0x0A then butlast s else s)
      in List.find (\<lambda>u. body = u \<or> body = u @ ''s'') [''day'', ''week'', ''month'', ''year''])"

definition match_last_n :: "string \<Rightarrow> (nat \<times> string) option" where
  "match_last_n s =
     (if take 5 s \<noteq> ''last_'' then None
      else (let ds = takeWhile ascii_digit (drop 5 s); rest = dropWhile ascii_digit (drop 5 s)
            in if ds = [] \<or> length ds > 3 \<or> rest = [] \<or> hd rest \<noteq> CHR ''_'' then None
               else map_option (\<lambda>u. (foldl (\<lambda>a c. a * 10 + (of_char c - 48)) 0 ds, u)) (unit_of (tl rest))))"

definition last_n :: "date \<Rightarrow> nat \<Rightarrow> string \<Rightarrow> range_error + (date \<times> date)" where
  "last_n today n unit =
     (if n < 1 then Inl Empty_range
      else if unit = ''day'' then bindR (minus_days today n) (\<lambda>start. Inr (start, today))
      else if unit = ''week'' then
        bindR (minus_days today (nat (weekday today))) (\<lambda>week_start.
        bindR (minus_days week_start (7 * n)) (\<lambda>start. Inr (start, week_start)))
      else if unit = ''month'' then
        (let month_start = today\<lparr>dt_day := 1\<rparr>
         in bindR (month_add month_start (- int n)) (\<lambda>start. Inr (start, month_start)))
      else
        (let year_start = today\<lparr>dt_month := 1, dt_day := 1\<rparr>
         in bindR (in_calendar (year_start\<lparr>dt_year := dt_year year_start - int n\<rparr>)) (\<lambda>start. Inr (start, year_start))))"

definition resolve_relative :: "(string \<Rightarrow> date option) \<Rightarrow> string \<Rightarrow> string \<Rightarrow> range_error + (date \<times> date)" where
  "resolve_relative today_in timezone relative =
     (case today_in timezone of
        None \<Rightarrow> Inl Unknown_timezone
      | Some today \<Rightarrow>
          (case match_last_n relative of
             Some (n, unit) \<Rightarrow> last_n today n unit
           | None \<Rightarrow>
               bindR (in_calendar (next_day today)) (\<lambda>tomorrow.
                 if relative = ''today'' then Inr (today, tomorrow)
                 else if relative = ''yesterday'' then bindR (minus_days today 1) (\<lambda>start. Inr (start, today))
                 else if relative = ''this_week''
                 then bindR (minus_days today (nat (weekday today))) (\<lambda>start. Inr (start, tomorrow))
                 else if relative = ''this_month'' then Inr (today\<lparr>dt_day := 1\<rparr>, tomorrow)
                 else if relative = ''this_quarter''
                 then Inr (today\<lparr>dt_month := 3 * ((dt_month today - 1) div 3) + 1, dt_day := 1\<rparr>, tomorrow)
                 else if relative = ''this_year'' then Inr (today\<lparr>dt_month := 1, dt_day := 1\<rparr>, tomorrow)
                 else Inl Unknown_range)))"

definition pad :: "nat \<Rightarrow> string \<Rightarrow> string" where
  "pad n s = replicate (n - length s) (CHR ''0'') @ s"

definition isoformat :: "date \<Rightarrow> string" where
  "isoformat d = pad 4 (py_str_int (dt_year d)) @ ''-'' @ pad 2 (py_str_int (dt_month d)) @ ''-'' @ pad 2 (py_str_int (dt_day d))"

subsection \<open>The calendar is consistent\<close>

definition proper :: "date \<Rightarrow> bool" where
  "proper d \<longleftrightarrow> 1 \<le> dt_month d \<and> dt_month d \<le> 12 \<and> 1 \<le> dt_day d \<and> dt_day d \<le> days_in_month (dt_year d) (dt_month d)"

definition month_start :: "int \<Rightarrow> date" where
  "month_start k = \<lparr>dt_year = k div 12, dt_month = k mod 12 + 1, dt_day = 1\<rparr>"

lemma valid_proper: "valid_date d \<longleftrightarrow> proper d \<and> 1 \<le> dt_year d \<and> dt_year d \<le> 9999"
  by (auto simp: valid_date_def proper_def)

lemma days_in_month_bounds: "28 \<le> days_in_month y m" "days_in_month y m \<le> 31"
  by (simp_all add: days_in_month_def)

lemma days_before_month_step: "1 \<le> m \<Longrightarrow> days_before_month y (m + 1) = days_before_month y m + days_in_month y m"
  by (simp add: days_before_month_def upto_rec2)

lemma days_before_month_first [simp]: "days_before_month y 1 = 0"
  by (simp add: days_before_month_def)

lemma days_before_month_december: "days_before_month y 12 + 31 = (if leap y then 366 else 365)"
proof -
  have "[1..12 - 1] = [1, 2, 3, 4, 5, 6, 7, 8, 9, 10, 11 :: int]" by (simp add: upto.simps)
  then show ?thesis by (simp add: days_before_month_def days_in_month_def)
qed

lemma div_pred: "0 < k \<Longrightarrow> y div k = (y - 1) div k + (if y mod k = 0 then 1 else 0)" for k :: int
proof (cases "y mod k = 0")
  case True
  assume k: "0 < k"
  have "y - 1 = k * (y div k - 1) + (k - 1)" using True mult_div_mod_eq [of k y] by (simp add: algebra_simps)
  from int_div_pos_eq [OF this] k True show ?thesis by simp
next
  case False
  assume k: "0 < k"
  have "y - 1 = k * (y div k) + (y mod k - 1)" using mult_div_mod_eq [of k y] by simp
  moreover have "0 \<le> y mod k - 1" "y mod k - 1 < k" using False k pos_mod_bound [of k y] pos_mod_sign [of k y] by linarith+
  ultimately have "(y - 1) div k = y div k" by (rule int_div_pos_eq)
  then show ?thesis using False by simp
qed

lemma leap_arith:
  "a = a' + (if p then 1 else 0) \<Longrightarrow> b = b' + (if q then 1 else 0) \<Longrightarrow> c = c' + (if r then 1 else 0) \<Longrightarrow>
   (r \<Longrightarrow> q) \<Longrightarrow> (q \<Longrightarrow> p) \<Longrightarrow>
   y * 365 + a - b + c = (y - 1) * 365 + a' - b' + c' + (if p \<and> (\<not> q \<or> r) then 366 else (365 :: int))"
  by (cases p; cases q; cases r) simp_all

lemma mod_100_4: "y mod 100 = 0 \<Longrightarrow> y mod 4 = 0" and mod_400_100: "y mod 400 = 0 \<Longrightarrow> y mod 100 = 0" for y :: int
  using dvd_trans [of 4 100 y] dvd_trans [of 100 400 y] by (simp_all only: mod_eq_0_iff_dvd) simp_all

lemma days_before_year_step: "days_before_year (y + 1) = days_before_year y + (if leap y then 366 else 365)"
  unfolding days_before_year_def leap_def Let_def add_diff_cancel_right'
  by (rule leap_arith [OF div_pred div_pred div_pred mod_400_100 mod_100_4]) simp_all

lemma prev_day_ordinal:
  assumes "proper d" shows "proper (prev_day d) \<and> toordinal (prev_day d) = toordinal d - 1"
proof -
  have m: "days_before_month (dt_year d) (dt_month d) =
      days_before_month (dt_year d) (dt_month d - 1) + days_in_month (dt_year d) (dt_month d - 1)" if "1 < dt_month d"
    using days_before_month_step [of "dt_month d - 1"] that by simp
  have y: "days_before_year (dt_year d) = days_before_year (dt_year d - 1) + days_before_month (dt_year d - 1) 12 + 31"
    using days_before_year_step [of "dt_year d - 1"] days_before_month_december [of "dt_year d - 1"] by simp
  show ?thesis
  proof (cases "1 < dt_day d \<or> 1 < dt_month d")
    case True
    then show ?thesis using assms m days_in_month_bounds(1) [of "dt_year d" "dt_month d - 1"]
      by (auto simp: prev_day_def proper_def toordinal_def)
  next
    case False
    then have "dt_day d = 1" "dt_month d = 1" using assms by (auto simp: proper_def)
    then show ?thesis using y by (simp add: prev_day_def proper_def toordinal_def days_in_month_def)
  qed
qed

lemma next_day_ordinal:
  assumes "proper d" shows "proper (next_day d) \<and> toordinal (next_day d) = toordinal d + 1"
proof -
  have m: "days_before_month (dt_year d) (dt_month d + 1) =
      days_before_month (dt_year d) (dt_month d) + days_in_month (dt_year d) (dt_month d)"
    using assms days_before_month_step by (simp add: proper_def)
  have y: "days_before_year (dt_year d + 1) = days_before_year (dt_year d) + days_before_month (dt_year d) 12 + 31"
    using days_before_year_step [of "dt_year d"] days_before_month_december [of "dt_year d"] by simp
  show ?thesis
  proof (cases "dt_day d < days_in_month (dt_year d) (dt_month d) \<or> dt_month d < 12")
    case True
    then show ?thesis using assms m days_in_month_bounds(1) [of "dt_year d" "dt_month d + 1"]
      by (auto simp: next_day_def proper_def toordinal_def)
  next
    case False
    then have "dt_day d = 31" "dt_month d = 12" using assms by (auto simp: proper_def days_in_month_def)
    then show ?thesis using y by (simp add: next_day_def proper_def toordinal_def days_in_month_def)
  qed
qed

lemma days_back: "proper d \<Longrightarrow> proper ((prev_day ^^ n) d) \<and> toordinal ((prev_day ^^ n) d) = toordinal d - int n"
  by (induction n) (auto simp: prev_day_ordinal)

lemma minus_days_ordinal:
  assumes "proper d" and "minus_days d n = Inr e"
  shows "valid_date e \<and> toordinal e = toordinal d - int n"
  using assms days_back [OF assms(1), of n] by (auto simp: minus_days_def in_calendar_def valid_proper split: if_splits)

lemma month_start_step: "toordinal (month_start k) < toordinal (month_start (k + 1))"
proof -
  have "days_before_year (k div 12 + 1) = days_before_year (k div 12) + days_before_month (k div 12) 12 + 31"
    using days_before_year_step days_before_month_december by simp
  moreover have "days_before_month (k div 12) (k mod 12 + 1 + 1) =
      days_before_month (k div 12) (k mod 12 + 1) + days_in_month (k div 12) (k mod 12 + 1)"
    by (rule days_before_month_step) simp
  moreover have "k mod 12 = 11 \<and> (k + 1) div 12 = k div 12 + 1 \<and> (k + 1) mod 12 = 0 \<or>
      (k + 1) div 12 = k div 12 \<and> (k + 1) mod 12 = k mod 12 + 1"
  proof (cases "k mod 12 = 11")
    case True
    have "k + 1 = 12 * (k div 12 + 1) + 0" using True mult_div_mod_eq [of 12 k] by (simp only: distrib_left)
    from int_div_pos_eq [OF this] int_mod_pos_eq [OF this] True show ?thesis by simp
  next
    case False
    have k: "k + 1 = 12 * (k div 12) + (k mod 12 + 1)" using mult_div_mod_eq [of 12 k] by simp
    have "0 \<le> k mod 12 + 1" "k mod 12 + 1 < 12" using False pos_mod_bound [of 12 k] pos_mod_sign [of 12 k] by linarith+
    from int_div_pos_eq [OF k this] int_mod_pos_eq [OF k this] show ?thesis by simp
  qed
  ultimately show ?thesis using days_in_month_bounds(1) [of "k div 12" "k mod 12 + 1"]
    by (auto simp: month_start_def toordinal_def)
qed

lemma month_start_less: "j < k \<Longrightarrow> toordinal (month_start j) < toordinal (month_start k)"
proof -
  have "toordinal (month_start j) < toordinal (month_start (j + 1 + int n))" for n
  proof (induction n)
    case (Suc n)
    then show ?case using month_start_step [of "j + 1 + int n"] by (simp add: algebra_simps)
  qed (simp add: month_start_step)
  from this [of "nat (k - j - 1)"] show "j < k \<Longrightarrow> toordinal (month_start j) < toordinal (month_start k)" by simp
qed

lemma month_start_of: "proper d \<Longrightarrow> 1 \<le> m \<Longrightarrow> m \<le> 12 \<Longrightarrow>
    d\<lparr>dt_month := m, dt_day := 1\<rparr> = month_start (12 * dt_year d + (m - 1))"
  by (simp add: month_start_def)

lemma month_start_le: "j \<le> k \<Longrightarrow> toordinal (month_start j) \<le> toordinal (month_start k)"
  using month_start_less [of j k] by (cases "j = k") auto

lemma month_start_proper: "proper (month_start k)"
  using days_in_month_bounds(1) [of "k div 12" "k mod 12 + 1"] by (simp add: month_start_def proper_def)

lemma month_start_before: "proper d \<Longrightarrow> toordinal (month_start (12 * dt_year d + (dt_month d - 1))) \<le> toordinal d"
  by (simp add: month_start_def toordinal_def proper_def)

lemma weekday_bounds: "0 \<le> weekday d" "weekday d < 7"
  by (simp_all add: weekday_def)

lemma last_n_range:
  assumes p: "valid_date today" and r: "last_n today n unit = Inr (s, e)"
  shows "valid_date s \<and> valid_date e \<and> toordinal s < toordinal e \<and> toordinal e \<le> toordinal today"
proof -
  have pr: "proper today" and y: "1 \<le> dt_year today" "dt_year today \<le> 9999" using p by (simp_all add: valid_proper)
  let ?k = "12 * dt_year today"
  have m1: "today\<lparr>dt_day := 1\<rparr> = month_start (?k + (dt_month today - 1))"
    using pr by (simp add: month_start_def proper_def)
  have y1: "today\<lparr>dt_month := 1, dt_day := 1\<rparr> = month_start ?k" by (simp add: month_start_def)
  consider (day) "unit = ''day''" | (week) "unit = ''week''" | (month) "unit = ''month''"
    | (year) "unit \<noteq> ''day''" "unit \<noteq> ''week''" "unit \<noteq> ''month''" by blast
  then show ?thesis
  proof cases
    case day
    then show ?thesis using r p pr minus_days_ordinal [OF pr, of n]
      by (auto simp: last_n_def bindR_eq_Inr split: if_splits)
  next
    case week
    then obtain w where w: "minus_days today (nat (weekday today)) = Inr w" "minus_days w (7 * n) = Inr s" "e = w" "1 \<le> n"
      using r by (auto simp: last_n_def bindR_eq_Inr split: if_splits)
    have "valid_date w" "toordinal w = toordinal today - weekday today"
      using minus_days_ordinal [OF pr w(1)] weekday_bounds [of today] by auto
    then show ?thesis using minus_days_ordinal [of w "7 * n" s] w weekday_bounds [of today] by (auto simp: valid_proper)
  next
    case month
    have s: "month_add (month_start j) (- int n) = in_calendar (month_start (j - int n))" for j
      by (simp add: month_add_def month_start_def Let_def)
    have "in_calendar (month_start (?k + (dt_month today - 1) - int n)) = Inr s" "1 \<le> n" "e = month_start (?k + (dt_month today - 1))"
      using month r unfolding last_n_def Let_def m1 s by (auto simp: bindR_eq_Inr split: if_splits)
    moreover have "(dt_month today - 1) div 12 = 0" using pr by (simp add: proper_def)
    then have "dt_year (month_start (?k + (dt_month today - 1))) = dt_year today" by (simp add: month_start_def)
    ultimately show ?thesis
      using y month_start_less [of "?k + (dt_month today - 1) - int n" "?k + (dt_month today - 1)"]
        month_start_before [OF pr] month_start_proper
      by (auto simp: in_calendar_def valid_proper split: if_splits)
  next
    case year
    have "(month_start ?k)\<lparr>dt_year := dt_year (month_start ?k) - int n\<rparr> = month_start (?k - 12 * int n)"
      by (simp add: month_start_def)
    then have "in_calendar (month_start (?k - 12 * int n)) = Inr s" "1 \<le> n" "e = month_start ?k"
      using year r unfolding last_n_def Let_def y1 by (auto simp: bindR_eq_Inr split: if_splits)
    moreover have "toordinal (month_start ?k) \<le> toordinal today"
      using month_start_before [OF pr] month_start_le [of ?k "?k + (dt_month today - 1)"] pr by (simp add: proper_def)
    moreover have "dt_year (month_start ?k) = dt_year today" by (simp add: month_start_def)
    ultimately show ?thesis using y month_start_less [of "?k - 12 * int n" ?k] month_start_proper
      by (auto simp: in_calendar_def valid_proper split: if_splits)
  qed
qed

text \<open>C33. A relative range is a non-empty interval of calendar dates that ends tomorrow at the latest: for every
  keyword the first day lies before the end of the range, and \<open>last_N\<close> ranges end at the start of the
  current day, week, month or year.\<close>

theorem relative_range_sound:
  assumes "today_in tz = Some today" and v: "valid_date today" and r: "resolve_relative today_in tz relative = Inr (s, e)"
  shows "valid_date s \<and> valid_date e \<and> toordinal s < toordinal e \<and> toordinal e \<le> toordinal today + 1"
proof (cases "match_last_n relative")
  case (Some nu)
  then show ?thesis using last_n_range [OF v, of "fst nu" "snd nu" s e] assms(1) r by (auto simp: resolve_relative_def split: prod.splits)
next
  case None
  have p: "proper today" using v by (simp add: valid_proper)
  let ?k = "12 * dt_year today + (dt_month today - 1)" and ?t = "next_day today"
  have t: "proper ?t" "toordinal ?t = toordinal today + 1" using next_day_ordinal [OF p] by simp_all
  have ok: "in_calendar ?t = Inr ?t" using r None assms(1) by (auto simp: resolve_relative_def bindR_def in_calendar_def split: if_splits)
  then have vt: "valid_date ?t" using t(1) by (auto simp: in_calendar_def valid_proper split: if_splits)
  have start: "valid_date (today\<lparr>dt_month := m, dt_day := 1\<rparr>) \<and> toordinal (today\<lparr>dt_month := m, dt_day := 1\<rparr>) \<le> toordinal today"
    if "1 \<le> m" "m \<le> dt_month today" for m
  proof -
    let ?j = "12 * dt_year today + (m - 1)"
    have m: "m \<le> 12" using that p by (simp add: proper_def)
    then have "today\<lparr>dt_month := m, dt_day := 1\<rparr> = month_start ?j" using that by (simp add: month_start_def)
    moreover have "dt_year (month_start ?j) = dt_year today" using that m by (simp add: month_start_def)
    ultimately show ?thesis using month_start_le [of ?j ?k] month_start_before [OF p] month_start_proper [of ?j] that v
      by (auto simp: valid_proper)
  qed
  have q: "1 \<le> 3 * ((dt_month today - 1) div 3) + 1" "3 * ((dt_month today - 1) div 3) + 1 \<le> dt_month today" "1 \<le> dt_month today"
    using p pos_imp_zdiv_nonneg_iff [of 3 "dt_month today - 1"] by (auto simp: proper_def)
  define M where "M = (\<lambda>m. today\<lparr>dt_month := m, dt_day := 1\<rparr>) ` {1..dt_month today}"
  have "today\<lparr>dt_day := 1\<rparr> \<in> M" "today\<lparr>dt_month := 3 * ((dt_month today - 1) div 3) + 1, dt_day := 1\<rparr> \<in> M"
      "today\<lparr>dt_month := 1, dt_day := 1\<rparr> \<in> M"
    using q unfolding M_def by (auto intro!: image_eqI [of _ _ "dt_month today"])
  then have "(s = today \<or> minus_days today (nat (weekday today)) = Inr s \<or> s \<in> M) \<and> e = ?t \<or> minus_days today 1 = Inr s \<and> e = today"
    using r None assms(1) ok unfolding resolve_relative_def by (auto simp: bindR_eq_Inr split: if_splits)
  then consider "s = today" "e = ?t" | (week) "minus_days today (nat (weekday today)) = Inr s" "e = ?t"
    | m where "s = today\<lparr>dt_month := m, dt_day := 1\<rparr>" "1 \<le> m" "m \<le> dt_month today" "e = ?t"
    | "minus_days today 1 = Inr s" "e = today" unfolding M_def by auto
  then show ?thesis
  proof cases
    case week
    then show ?thesis using minus_days_ordinal [OF p week(1)] vt t(2) weekday_bounds [of today] by simp
  qed (use v vt t(2) start minus_days_ordinal [OF p] in auto)
qed

lemma demo_ranges:
  "resolve_relative (\<lambda>_. Some \<lparr>dt_year = 2026, dt_month = 3, dt_day = 31\<rparr>) ''UTC'' ''last_1_month'' =
     Inr (\<lparr>dt_year = 2026, dt_month = 2, dt_day = 1\<rparr>, \<lparr>dt_year = 2026, dt_month = 3, dt_day = 1\<rparr>)"
  "resolve_relative (\<lambda>_. Some \<lparr>dt_year = 2026, dt_month = 3, dt_day = 31\<rparr>) ''UTC'' ''this_week'' =
     Inr (\<lparr>dt_year = 2026, dt_month = 3, dt_day = 30\<rparr>, \<lparr>dt_year = 2026, dt_month = 4, dt_day = 1\<rparr>)"
  "isoformat \<lparr>dt_year = 2026, dt_month = 3, dt_day = 1\<rparr> = ''2026-03-01''"
  by code_simp+

theorem relative_range_sound_witness:
  "toordinal \<lparr>dt_year = 2026, dt_month = 2, dt_day = 1\<rparr> < toordinal \<lparr>dt_year = 2026, dt_month = 3, dt_day = 1\<rparr>"
proof -
  have "valid_date \<lparr>dt_year = 2026, dt_month = 3, dt_day = 31\<rparr>" by code_simp
  from relative_range_sound [OF refl this demo_ranges(1)] show ?thesis by simp
qed

end
