(* ===== verification/Semantic_Render.thy ===== *)
theory Semantic_Render
  imports Semantic_Expr
begin

text \<open>
  Rendering of parsed expressions to SQL: \<open>Dialect\<close> of
  \<open>services/semantic-service/app/compiler/dialects.py\<close> and \<open>_render_literal\<close> and \<open>render_ast\<close> of
  \<open>app/compiler/compiler.py\<close>. \<open>resolve_col\<close>, a closure in the code, is an argument.

  The main result is that rendering is faithful to the tree: the text written for a parsed
  expression in the dialects with \<open>date_trunc('g', x)\<close>, columns written as themselves, is parsed
  back to the same tree. So no literal can leave its quotes, no operator binds
  differently, and the text has no comment mark, semicolon or double quote.
\<close>

subsection \<open>Dialects\<close>

record dialect =
  di_name :: string
  quote_open :: string
  quote_close :: char
  di_escape :: string
  group_by_ordinals :: bool

definition DIALECTS :: "(string \<times> dialect) list" where
  "DIALECTS =
    [(''duckdb'', \<lparr>di_name = ''duckdb'', quote_open = [CHR 0x22], quote_close = CHR 0x22, di_escape = [CHR 0x22, CHR 0x22], group_by_ordinals = True\<rparr>),
     (''trino'', \<lparr>di_name = ''trino'', quote_open = [CHR 0x22], quote_close = CHR 0x22, di_escape = [CHR 0x22, CHR 0x22], group_by_ordinals = True\<rparr>),
     (''athena'', \<lparr>di_name = ''athena'', quote_open = [CHR 0x22], quote_close = CHR 0x22, di_escape = [CHR 0x22, CHR 0x22], group_by_ordinals = True\<rparr>),
     (''bigquery'', \<lparr>di_name = ''bigquery'', quote_open = [CHR 0x60], quote_close = CHR 0x60, di_escape = [CHR 0x5C, CHR 0x60], group_by_ordinals = True\<rparr>),
     (''synapse'', \<lparr>di_name = ''synapse'', quote_open = ''['', quote_close = CHR '']'', di_escape = '']]'', group_by_ordinals = False\<rparr>)]"

definition get_dialect :: "string \<Rightarrow> dialect option" where
  "get_dialect name = map_of DIALECTS name"

definition quote :: "dialect \<Rightarrow> string \<Rightarrow> string" where
  "quote d identifier =
     quote_open d @ concat (map (\<lambda>c. if c = quote_close d then di_escape d else [c]) identifier) @ [quote_close d]"

definition date_trunc :: "dialect \<Rightarrow> string \<Rightarrow> string \<Rightarrow> string" where
  "date_trunc d grain ex =
     (if di_name d = ''bigquery'' then ''date_trunc('' @ ex @ '', '' @ grain @ '')''
      else if di_name d = ''synapse'' then ''DATETRUNC('' @ grain @ '', '' @ ex @ '')''
      else ''date_trunc('' @ [quote_char] @ grain @ [quote_char] @ '', '' @ ex @ '')'')"

definition count_distinct :: "string \<Rightarrow> string" where
  "count_distinct ex = ''count(DISTINCT '' @ ex @ '')''"

definition first_agg :: "dialect \<Rightarrow> string \<Rightarrow> string \<Rightarrow> string option" where
  "first_agg d ex order_expr =
     (if di_name d = ''trino'' \<or> di_name d = ''athena'' then Some (''min_by('' @ ex @ '', '' @ order_expr @ '')'')
      else if di_name d = ''duckdb'' then Some (''arg_min('' @ ex @ '', '' @ order_expr @ '')'')
      else if di_name d = ''bigquery''
      then Some (''array_agg('' @ ex @ '' ORDER BY '' @ order_expr @ '' LIMIT 1)[OFFSET(0)]'')
      else None)"

subsection \<open>Rendering\<close>

definition escape :: "string \<Rightarrow> string" where
  "escape v = concat (map (\<lambda>c. if c = quote_char then [quote_char, quote_char] else [c]) v)"

definition ascii_upper :: "string \<Rightarrow> string" where
  "ascii_upper v = map (\<lambda>c. if lower_letter c then char_of (of_char c - 32 :: nat) else c) v"

fun render_literal :: "lit \<Rightarrow> string" where
  "render_literal (LNum v) = v"
| "render_literal (LStr v) = quote_char # escape v @ [quote_char]"
| "render_literal (LBool k) = ascii_upper k"
| "render_literal LNull = ''NULL''"

fun join :: "'a list \<Rightarrow> 'a list list \<Rightarrow> 'a list" where
  "join sep [] = []"
| "join sep [x] = x"
| "join sep (x # y # xs) = x @ sep @ join sep (y # xs)"

fun render_ast :: "dialect \<Rightarrow> (string \<Rightarrow> string) \<Rightarrow> node \<Rightarrow> string" where
  "render_ast d res (NCol v) = res v"
| "render_ast d res (NLit l) = render_literal l"
| "render_ast d res (NBin x l r) = ''('' @ render_ast d res l @ '' '' @ x @ '' '' @ render_ast d res r @ '')''"
| "render_ast d res (NFunc f args) = f @ ''('' @ join '', '' (map (render_ast d res) args) @ '')''"
| "render_ast d res (NCast e t) = ''CAST('' @ render_ast d res e @ '' AS '' @ t @ '')''"
| "render_ast d res (NExtract p e) = ''extract('' @ p @ '' FROM '' @ render_ast d res e @ '')''"
| "render_ast d res (NDateTrunc g e) = date_trunc d g (render_ast d res e)"
| "render_ast d res (NCase ws els) =
     join '' '' ([''CASE''] @ map (render_ast d res) ws @
       (case els of None \<Rightarrow> [] | Some e \<Rightarrow> [''ELSE '' @ render_ast d res e]) @ [''END''])"
| "render_ast d res (NWhen c e) = ''WHEN '' @ render_ast d res c @ '' THEN '' @ render_ast d res e"
| "render_ast d res (NCond x l r) =
     (case r of
        None \<Rightarrow> render_ast d res l @ '' '' @ x
      | Some e \<Rightarrow> render_ast d res l @ '' '' @ x @ '' '' @ render_ast d res e)"
| "render_ast d res (NLogic x l r) = ''('' @ render_ast d res l @ '' '' @ x @ '' '' @ render_ast d res r @ '')''"
| "render_ast d res (NNot c) = ''(NOT '' @ render_ast d res c @ '')''"

subsection \<open>The tokens of a tree\<close>

abbreviation lpar :: token where "lpar \<equiv> TOp ''(''"
abbreviation rpar :: token where "rpar \<equiv> TOp '')''"

fun lit_toks :: "lit \<Rightarrow> token list" where
  "lit_toks (LNum v) = (if v \<noteq> [] \<and> hd v = CHR ''-'' then [TOp ''-'', TNumber (tl v)] else [TNumber v])"
| "lit_toks (LStr v) = [TString v]"
| "lit_toks (LBool k) = [TKw k]"
| "lit_toks LNull = [TKw ''null'']"

fun toks :: "node \<Rightarrow> token list" where
  "toks (NCol v) = [TIdent v]"
| "toks (NLit l) = lit_toks l"
| "toks (NBin x l r) = lpar # toks l @ TOp x # toks r @ [rpar]"
| "toks (NFunc f args) = TIdent f # lpar # join [TOp '',''] (map toks args) @ [rpar]"
| "toks (NCast e t) = TIdent ''cast'' # lpar # toks e @ [TKw ''as'', TIdent t, rpar]"
| "toks (NExtract p e) = TIdent ''extract'' # lpar # TIdent p # TKw ''from'' # toks e @ [rpar]"
| "toks (NDateTrunc g e) = TIdent ''date_trunc'' # lpar # TString g # TOp '','' # toks e @ [rpar]"
| "toks (NCase ws els) = TKw ''case'' # concat (map toks ws) @
     (case els of None \<Rightarrow> [] | Some e \<Rightarrow> TKw ''else'' # toks e) @ [TKw ''end'']"
| "toks (NWhen c e) = TKw ''when'' # toks c @ TKw ''then'' # toks e"
| "toks (NCond x l r) = toks l @
     (case r of
        None \<Rightarrow> if x = ''IS NULL'' then [TKw ''is'', TKw ''null''] else [TKw ''is'', TKw ''not'', TKw ''null'']
      | Some e \<Rightarrow> TOp x # toks e)"
| "toks (NLogic x l r) = lpar # toks l @ TKw (py_lower x) # toks r @ [rpar]"
| "toks (NNot c) = lpar # TKw ''not'' # toks c @ [rpar]"

subsection \<open>The parser reads the tokens back\<close>

definition free :: "token list \<Rightarrow> bool" where
  "free ts \<longleftrightarrow> (\<forall>r. ts \<noteq> lpar # r)"

definition stops :: "token list \<Rightarrow> bool" where
  "stops ts \<longleftrightarrow> free ts \<and> (\<forall>x r. ts = TOp x # r \<longrightarrow> x \<notin> set arith_ops)"

definition ends_cond :: "token list \<Rightarrow> bool" where
  "ends_cond ts \<longleftrightarrow> stops ts \<and> (\<forall>r. ts \<noteq> TKw ''and'' # r \<and> ts \<noteq> TKw ''or'' # r)"

definition term_reads :: "node \<Rightarrow> bool" where
  "term_reads n \<longleftrightarrow> (\<forall>f rest. 2 * length (toks n) \<le> f \<longrightarrow> free rest \<longrightarrow>
     parse_term (parse_expr f) (parse_cond f) (toks n @ rest) = Parsed n rest)"

definition comparison_reads :: "node \<Rightarrow> bool" where
  "comparison_reads n \<longleftrightarrow> (\<forall>f rest. 2 * length (toks n) \<le> f \<longrightarrow> stops rest \<longrightarrow>
     parse_comparison (parse_expr f) (parse_cond f) (toks n @ rest) = Parsed n rest)"

lemma free_simps [simp]: "free []" "free (t # ts) \<longleftrightarrow> t \<noteq> lpar"
  by (auto simp: free_def)

lemma stops_simps [simp]:
  "stops []" "stops (TOp x # r) \<longleftrightarrow> x \<noteq> ''('' \<and> x \<notin> set arith_ops" "stops (TKw k # r)" "stops (TIdent v # r)"
  by (auto simp: stops_def)

lemma ends_cond_simps [simp]:
  "ends_cond []" "ends_cond (TOp x # r) \<longleftrightarrow> x \<noteq> ''('' \<and> x \<notin> set arith_ops"
  "ends_cond (TKw k # r) \<longleftrightarrow> k \<noteq> ''and'' \<and> k \<noteq> ''or''"
  by (auto simp: ends_cond_def)

lemma stops_free: "stops ts \<Longrightarrow> free ts"
  by (simp add: stops_def)

lemma expect_simps [simp]:
  "expect t (t # r) = Parsed () r" "accept t (u # r) = (if u = t then Some r else None)" "accept t [] = None"
  "expect_ident (TIdent v # r) = Parsed v r" "expect_number (TNumber v # r) = Parsed v r"
  "expect_string (TString v # r) = Parsed v r"
  by (simp_all add: expect_def accept_def expect_ident_def expect_number_def expect_string_def)

lemma bindP_simps [simp]:
  "p ts = Parsed x r \<Longrightarrow> bindP p k ts = k x r" "p ts = NotAllowed \<Longrightarrow> bindP p k ts = NotAllowed"
  by (simp_all add: bindP_def)

lemma bin_loop_stop: "(\<And>x r. ts = TOp x # r \<Longrightarrow> x \<notin> set ops) \<Longrightarrow> bin_loop ops sub n node ts = Parsed node ts"
  by (auto simp: bin_loop.simps split: list.splits token.splits)

lemma bin_loop_step:
  "x \<in> set ops \<Longrightarrow> bin_loop ops sub (Suc n) node (TOp x # r) = bindP sub (\<lambda>right. bin_loop ops sub n (NBin x node right)) r"
  by (simp add: bin_loop.simps)

lemma logic_loop_stop: "(\<And>r. ts \<noteq> TKw k # r) \<Longrightarrow> logic_loop k x sub n node ts = Parsed node ts"
  by (auto simp: logic_loop.simps accept_Some split: option.splits)

lemma logic_loop_step:
  "logic_loop k x sub (Suc n) node (TKw k # r) = bindP sub (\<lambda>right. logic_loop k x sub n (NLogic x node right)) r"
  by (simp add: logic_loop.simps)

lemma stops_bin_loop:
  "stops ts \<Longrightarrow> set ops \<subseteq> set arith_ops \<Longrightarrow> bin_loop ops sub n node ts = Parsed node ts"
  by (rule bin_loop_stop) (auto simp: stops_def)

lemma ops_sub: "set [''*'', ''/'', ''%''] \<subseteq> set arith_ops" "set [''+'', ''-''] \<subseteq> set arith_ops"
  by (auto simp: arith_ops_def)

lemma expr_reads:
  assumes "term_reads e" and "2 * length (toks e) < f" and "stops rest"
  shows "parse_expr f (toks e @ rest) = Parsed e rest"
proof (cases f)
  case (Suc g)
  have "parse_term (parse_expr g) (parse_cond g) (toks e @ rest) = Parsed e rest"
    using assms Suc stops_free by (simp add: term_reads_def)
  then show ?thesis using Suc stops_bin_loop [OF assms(3)] ops_sub
    by (simp add: expr_body_def parse_mul_def)
qed (use assms in simp)

lemma inner_reads:
  assumes "term_reads l" and "term_reads r" and "x \<in> set arith_ops"
    and "2 * length (toks l) < f" and "2 * length (toks r) < f"
  shows "parse_expr f (toks l @ TOp x # toks r @ rpar # rest) = Parsed (NBin x l r) (rpar # rest)"
proof (cases f)
  case (Suc g)
  let ?tm = "parse_term (parse_expr g) (parse_cond g)"
  have l: "?tm (toks l @ TOp x # toks r @ rpar # rest) = Parsed l (TOp x # toks r @ rpar # rest)"
    using assms Suc by (auto simp: term_reads_def arith_ops_def)
  have r: "?tm (toks r @ rpar # rest) = Parsed r (rpar # rest)"
    using assms Suc by (simp add: term_reads_def)
  have stop: "bin_loop ops sub n node (rpar # rest) = Parsed node (rpar # rest)" if "set ops \<subseteq> set arith_ops"
    for ops sub n node by (rule stops_bin_loop [OF _ that]) (simp add: arith_ops_def)
  show ?thesis
  proof (cases "x \<in> set [''*'', ''/'', ''%'']")
    case True
    then show ?thesis
      using Suc l r stop ops_sub by (simp add: expr_body_def parse_mul_def bin_loop_step del: set_simps)
  next
    case False
    then have pm: "x \<in> set [''+'', ''-'']" using assms(3) by (auto simp: arith_ops_def)
    have "bin_loop [''*'', ''/'', ''%''] sub n node (TOp x # ts) = Parsed node (TOp x # ts)" for sub n node ts
      using False by (intro bin_loop_stop) auto
    then show ?thesis
      using Suc l r stop ops_sub pm by (simp add: expr_body_def parse_mul_def bin_loop_step del: set_simps)
  qed
qed (use assms in simp)

lemma toks_start:
  "wf Expr n \<Longrightarrow> toks n \<noteq> [] \<and> hd (toks n) \<noteq> TKw ''not'' \<and> hd (toks n) \<noteq> rpar \<and> (hd (toks n) = lpar \<longrightarrow> (\<exists>x l r. n = NBin x l r))"
proof (cases n)
  case (NLit l)
  then show "wf Expr n \<Longrightarrow> ?thesis" by (cases l) auto
qed auto

lemma toks_start_cond: "wf Cond n \<Longrightarrow> toks n \<noteq> [] \<and> hd (toks n) \<noteq> TKw ''not''"
  by (cases n) (use toks_start in auto)

definition cond_rejects :: "node \<Rightarrow> bool" where
  "cond_rejects n \<longleftrightarrow> (\<forall>x l r f rest. n = NBin x l r \<longrightarrow> 2 * length (toks n) \<le> f \<longrightarrow>
     parse_cond f (toks l @ TOp x # toks r @ rpar # rest) = NotAllowed)"

lemma parse_not_other:
  "ts \<noteq> [] \<Longrightarrow> hd ts \<noteq> TKw ''not'' \<Longrightarrow> parse_not E C ts = parse_comparison E C ts"
  by (cases ts) simp_all

lemma cond_body_rejects:
  assumes "ts \<noteq> []" and "hd ts \<noteq> TKw ''not''" and "parse_comparison E C ts = NotAllowed"
  shows "cond_body E C ts = NotAllowed"
  using assms by (simp add: cond_body_def parse_and_def parse_not_other)

lemma comparison_of_bare:
  assumes "ts = toks l @ rest" and "wf Expr l" and "cond_rejects l" and "2 * length (toks l) \<le> f"
  shows "parse_comparison E (parse_cond f) ts = bare_comparison E ts"
proof (cases "hd (toks l) = lpar")
  case True
  then obtain x l1 l2 where l: "l = NBin x l1 l2" using toks_start [OF assms(2)] by blast
  have "parse_cond f (toks l1 @ TOp x # toks l2 @ rpar # rest) = NotAllowed"
    using assms(3,4) l unfolding cond_rejects_def by blast
  then show ?thesis using assms(1) l by (simp add: parse_comparison_def)
next
  case False
  then have "accept lpar ts = None" using assms(1) toks_start [OF assms(2)] by (cases "toks l") auto
  then show ?thesis by (simp add: parse_comparison_def)
qed

lemma bin_rejected:
  assumes "wf Expr l" and "cond_rejects l" and "term_reads l" and "term_reads r" and "x \<in> set arith_ops"
  shows "cond_rejects (NBin x l r)"
  unfolding cond_rejects_def
proof (intro allI impI)
  fix y l' r' f rest
  assume n: "NBin x l r = NBin y l' r'" and f: "2 * length (toks (NBin x l r)) \<le> f"
  let ?ts = "toks l @ TOp x # toks r @ rpar # rest"
  obtain g where g: "f = Suc g" using f by (cases f) auto
  have "parse_expr g ?ts = Parsed (NBin x l r) (rpar # rest)"
    by (rule inner_reads) (use assms f g in auto)
  then have "bare_comparison (parse_expr g) ?ts = NotAllowed"
    by (simp add: bare_comparison_def comparison_ops_def)
  then have "parse_comparison (parse_expr g) (parse_cond g) ?ts = NotAllowed"
    using comparison_of_bare [OF refl assms(1,2)] f g by simp
  then have "cond_body (parse_expr g) (parse_cond g) ?ts = NotAllowed"
    using toks_start [OF assms(1)] by (intro cond_body_rejects) auto
  then show "parse_cond f (toks l' @ TOp y # toks r' @ rpar # rest) = NotAllowed" using n g by simp
qed

lemma not_reads:
  assumes "comparison_reads c" and "wf Cond c" and "2 * length (toks c) \<le> f" and "stops rest"
  shows "parse_not (parse_expr f) (parse_cond f) (toks c @ rest) = Parsed c rest"
  using assms toks_start_cond [OF assms(2)] by (subst parse_not_other) (auto simp: comparison_reads_def)

lemma cond_reads:
  assumes "comparison_reads c" and "wf Cond c" and "2 * length (toks c) < f" and "ends_cond rest"
  shows "parse_cond f (toks c @ rest) = Parsed c rest"
proof (cases f)
  case (Suc g)
  have "stops rest" using assms(4) by (simp add: ends_cond_def)
  then have n: "parse_not (parse_expr g) (parse_cond g) (toks c @ rest) = Parsed c rest"
    using assms Suc by (intro not_reads) auto
  have "logic_loop k x sub n' node rest = Parsed node rest" if "k = ''and'' \<or> k = ''or''" for k x sub n' node
    using assms(4) that by (intro logic_loop_stop) (auto simp: ends_cond_def)
  then show ?thesis using Suc n by (simp add: cond_body_def parse_and_def)
qed (use assms in simp)

lemma paren_logic_reads:
  assumes "comparison_reads l" "wf Cond l" "comparison_reads r" "wf Cond r"
    and "2 * length (toks l) < f" "2 * length (toks r) < f" and "x = ''AND'' \<or> x = ''OR''"
  shows "parse_cond f (toks l @ TKw (py_lower x) # toks r @ rpar # rest) = Parsed (NLogic x l r) (rpar # rest)"
proof (cases f)
  case (Suc g)
  let ?not = "parse_not (parse_expr g) (parse_cond g)"
  have l: "?not (toks l @ TKw k # ts) = Parsed l (TKw k # ts)" for k ts
    by (rule not_reads) (use assms Suc in auto)
  have r: "?not (toks r @ rpar # rest) = Parsed r (rpar # rest)"
    by (rule not_reads) (use assms Suc in \<open>auto simp: arith_ops_def\<close>)
  have stop: "logic_loop k y sub n node (rpar # rest) = Parsed node (rpar # rest)" for k y sub n node
    by (rule logic_loop_stop) simp
  have other: "logic_loop ''and'' y sub n node (TKw ''or'' # ts) = Parsed node (TKw ''or'' # ts)" for y sub n node ts
    by (rule logic_loop_stop) simp
  have low: "py_lower ''AND'' = ''and''" "py_lower ''OR'' = ''or''" by code_simp+
  from assms(7) show ?thesis
    using Suc l r stop other
    by (auto simp: cond_body_def parse_and_def logic_loop_step low)
qed (use assms in simp)

lemma bare_reads:
  assumes "term_reads l" and "2 * length (toks l) < f" and "wf Cond (NCond x l r)" and "stops rest"
    and "\<And>e. r = Some e \<Longrightarrow> term_reads e \<and> 2 * length (toks e) < f"
  shows "bare_comparison (parse_expr f) (toks (NCond x l r) @ rest) = Parsed (NCond x l r) rest"
proof (cases r)
  case None
  have "parse_expr f (toks l @ TKw ''is'' # ts) = Parsed l (TKw ''is'' # ts)" for ts
    by (rule expr_reads) (use assms in auto)
  moreover have "x = ''IS NULL'' \<or> x = ''IS NOT NULL''" using assms(3) None by (auto split: if_splits)
  ultimately show ?thesis using None by (auto simp: bare_comparison_def returnP_def)
next
  case (Some e)
  have x: "x \<in> set comparison_ops" using assms(3) Some by (auto split: if_splits)
  have "parse_expr f (toks l @ TOp x # ts) = Parsed l (TOp x # ts)" for ts
    by (rule expr_reads) (use assms x in \<open>auto simp: comparison_ops_def arith_ops_def\<close>)
  moreover have "parse_expr f (toks e @ rest) = Parsed e rest" using assms Some by (intro expr_reads) auto
  ultimately show ?thesis using Some x by (simp add: bare_comparison_def returnP_def)
qed

lemma whens_read:
  assumes "\<And>c e. NWhen c e \<in> set ws \<Longrightarrow> comparison_reads c \<and> wf Cond c \<and> term_reads e \<and>
      2 * length (toks c) < f \<and> 2 * length (toks e) < f"
    and "\<forall>w \<in> set ws. wf When w" and "length ws \<le> n" and "\<And>r. rest \<noteq> TKw ''when'' # r" and "stops rest"
  shows "whens_loop (parse_expr f) (parse_cond f) n acc (concat (map toks ws) @ rest) = Parsed (acc @ ws) rest"
  using assms(1-3)
proof (induction ws arbitrary: n acc)
  case Nil
  have "accept (TKw ''when'') rest = None" using assms(4) by (cases rest) auto
  then show ?case by (simp add: whens_loop.simps)
next
  case (Cons w ws)
  then obtain c e where w: "w = NWhen c e" using wf_when by fastforce
  obtain m where n: "n = Suc m" using Cons.prems(3) by (cases n) auto
  let ?tail = "concat (map toks ws) @ rest"
  have "stops ?tail"
  proof (cases ws)
    case (Cons w' ws')
    then obtain c' e' where "w' = NWhen c' e'" using Cons.prems(2) wf_when by fastforce
    then show ?thesis using Cons by simp
  qed (simp add: assms(5))
  then have "parse_expr f (toks e @ ?tail) = Parsed e ?tail" using Cons.prems(1) w by (intro expr_reads) auto
  moreover have "parse_cond f (toks c @ TKw ''then'' # ts) = Parsed c (TKw ''then'' # ts)" for ts
    using Cons.prems(1) w by (intro cond_reads) auto
  moreover have "whens_loop (parse_expr f) (parse_cond f) m (acc @ [w]) ?tail = Parsed ((acc @ [w]) @ ws) rest"
    using Cons.prems n by (intro Cons.IH) auto
  ultimately show ?case using w n by (simp add: whens_loop.simps)
qed

lemma args_read:
  assumes "\<And>a. a \<in> set args \<Longrightarrow> term_reads a \<and> 2 * length (toks a) < f" and "length args \<le> n"
  shows "args_loop (parse_expr f) n acc (concat (map (\<lambda>a. TOp '','' # toks a) args) @ rpar # rest) = Parsed (acc @ args) (rpar # rest)"
  using assms
proof (induction args arbitrary: n acc)
  case Nil
  then show ?case by (simp add: args_loop.simps)
next
  case (Cons a args)
  obtain m where n: "n = Suc m" using Cons.prems(2) by (cases n) auto
  let ?tail = "concat (map (\<lambda>a. TOp '','' # toks a) args) @ rpar # rest"
  have "stops ?tail" by (cases args) (simp_all add: arith_ops_def)
  then have "parse_expr f (toks a @ ?tail) = Parsed a ?tail" using Cons.prems(1) by (intro expr_reads) auto
  moreover have "args_loop (parse_expr f) m (acc @ [a]) ?tail = Parsed ((acc @ [a]) @ args) (rpar # rest)"
    using Cons.prems n by (intro Cons.IH) auto
  ultimately show ?case using n by (simp add: args_loop.simps)
qed

lemma join_Cons: "join [s] (map g (x # xs)) = g x @ concat (map (\<lambda>a. s # g a) xs)"
  by (induction xs arbitrary: x) simp_all

lemma arg_length: "a \<in> set args \<Longrightarrow> length (toks a) \<le> length (join [TOp '',''] (map toks args))"
proof (cases args)
  case (Cons b bs)
  assume a: "a \<in> set args"
  have "length (toks a) \<le> length (concat (map (\<lambda>a. TOp '','' # toks a) bs))" if "a \<in> set bs"
    using that by (induction bs) auto
  then show ?thesis using a Cons by (simp only: join_Cons) auto
qed simp

lemma arg_count: "length (concat (map (\<lambda>a. TOp '','' # toks a) args)) \<ge> length args"
  by (induction args) simp_all

lemma when_length: "w \<in> set ws \<Longrightarrow> length (toks w) \<le> length (concat (map toks ws))"
  by (induction ws) auto

lemma when_count: "\<forall>w \<in> set ws. wf When w \<Longrightarrow> length ws \<le> length (concat (map toks ws))"
proof (induction ws)
  case (Cons w ws)
  then obtain c e where "w = NWhen c e" using wf_when by fastforce
  then show ?case using Cons by simp
qed simp

lemma plain_func_facts:
  "f \<in> set plain_funcs \<Longrightarrow> f \<in> set FUNC_WHITELIST \<and> f \<noteq> ''cast'' \<and> f \<noteq> ''extract'' \<and> f \<noteq> ''date_trunc''"
  by (auto simp: plain_funcs_def FUNC_WHITELIST_def)

lemma func_reads:
  assumes "f \<in> set plain_funcs" and "\<And>a. a \<in> set args \<Longrightarrow> term_reads a" and "\<forall>a \<in> set args. wf Expr a"
  shows "term_reads (NFunc f args)"
  unfolding term_reads_def
proof (intro allI impI)
  fix n rest
  assume n: "2 * length (toks (NFunc f args)) \<le> n"
  have len: "2 * length (toks a) < n" if "a \<in> set args" for a using arg_length [OF that] n by simp
  show "parse_term (parse_expr n) (parse_cond n) (toks (NFunc f args) @ rest) = Parsed (NFunc f args) rest"
  proof (cases args)
    case Nil
    then show ?thesis using plain_func_facts [OF assms(1)] by (simp add: parse_term_def parse_func_def)
  next
    case (Cons b bs)
    let ?tail = "concat (map (\<lambda>a. TOp '','' # toks a) bs) @ rpar # rest"
    have "stops ?tail" by (cases bs) (simp_all add: arith_ops_def)
    then have b: "parse_expr n (toks b @ ?tail) = Parsed b ?tail" using assms(2) len Cons by (intro expr_reads) auto
    have bs: "args_loop (parse_expr n) (length ?tail) [b] ?tail = Parsed ([b] @ bs) (rpar # rest)"
      using assms(2) len Cons arg_count [of bs] by (intro args_read) auto
    have "accept rpar (toks b @ ?tail) = None" using toks_start [of b] assms(3) Cons by (cases "toks b") auto
    then have "parse_func (parse_expr n) f (lpar # toks b @ ?tail) = Parsed (NFunc f args) rest"
      using b bs plain_func_facts [OF assms(1)] Cons by (simp add: parse_func_def returnP_def)
    then show ?thesis using Cons by (simp add: parse_term_def join_Cons del: list.map)
  qed
qed

lemma name_reads: "name_ok v \<Longrightarrow> term_reads (NCol v)"
  by (auto simp: term_reads_def parse_term_def accept_Some free_def)

lemma lit_reads: "lit_ok l \<Longrightarrow> term_reads (NLit l)"
  by (cases l) (auto simp: term_reads_def parse_term_def returnP_def, metis list.collapse)

lemma bin_reads:
  assumes "term_reads l" "term_reads r" "x \<in> set arith_ops"
  shows "term_reads (NBin x l r)"
  using inner_reads [OF assms] by (auto simp: term_reads_def [of "NBin x l r"] parse_term_def returnP_def)

lemma cast_reads: "term_reads e \<Longrightarrow> t \<in> set CAST_TYPES \<Longrightarrow> term_reads (NCast e t)"
  using expr_reads [of e]
  by (auto simp: term_reads_def [of "NCast e t"] parse_term_def parse_func_def FUNC_WHITELIST_def returnP_def)

lemma extract_reads: "term_reads e \<Longrightarrow> p \<in> set EXTRACT_PARTS \<Longrightarrow> term_reads (NExtract p e)"
  using expr_reads [of e]
  by (auto simp: term_reads_def [of "NExtract p e"] parse_term_def parse_func_def FUNC_WHITELIST_def returnP_def arith_ops_def)

lemma date_trunc_reads: "term_reads e \<Longrightarrow> g \<in> set TIME_GRAINS \<Longrightarrow> term_reads (NDateTrunc g e)"
  using expr_reads [of e]
  by (auto simp: term_reads_def [of "NDateTrunc g e"] parse_term_def parse_func_def FUNC_WHITELIST_def returnP_def arith_ops_def)

lemma case_reads:
  assumes ws: "\<And>c e. NWhen c e \<in> set ws \<Longrightarrow> comparison_reads c \<and> wf Cond c \<and> term_reads e"
    and wf: "\<forall>w \<in> set ws. wf When w" "ws \<noteq> []" and els: "\<And>e. els = Some e \<Longrightarrow> term_reads e"
  shows "term_reads (NCase ws els)"
  unfolding term_reads_def
proof (intro allI impI)
  fix f rest
  assume f: "2 * length (toks (NCase ws els)) \<le> f"
  let ?tail = "(case els of None \<Rightarrow> [] | Some e \<Rightarrow> TKw ''else'' # toks e) @ TKw ''end'' # rest"
  let ?ts = "concat (map toks ws) @ ?tail"
  have len: "2 * length (toks c) < f \<and> 2 * length (toks e) < f" if "NWhen c e \<in> set ws" for c e
    using when_length [OF that] f by simp
  have w: "whens_loop (parse_expr f) (parse_cond f) (length ?ts) [] ?ts = Parsed ([] @ ws) ?tail"
    by (rule whens_read) (use ws len wf when_count [OF wf(1)] in \<open>auto split: option.splits\<close>)
  have e: "parse_expr f (toks e @ TKw ''end'' # rest) = Parsed e (TKw ''end'' # rest)" if "els = Some e" for e
    by (rule expr_reads) (use els f that in auto)
  have "parse_case (parse_expr f) (parse_cond f) (TKw ''case'' # ?ts) = Parsed (NCase ws els) rest"
    using w e wf(2) by (cases els) (simp_all add: parse_case_def returnP_def)
  then show "parse_term (parse_expr f) (parse_cond f) (toks (NCase ws els) @ rest) = Parsed (NCase ws els) rest"
    by (simp add: parse_term_def)
qed

lemma tree_reads:
  "(wf Expr n \<longrightarrow> term_reads n \<and> cond_rejects n) \<and> (wf Cond n \<longrightarrow> comparison_reads n) \<and>
   (wf When n \<longrightarrow> (\<exists>c e. n = NWhen c e \<and> comparison_reads c \<and> term_reads e))"
proof (induction n)
  case (NBin x l r)
  then show ?case using bin_reads [of l r x] bin_rejected [of l r x] by simp
next
  case (NFunc f args)
  then show ?case using func_reads [of f args] by (simp add: cond_rejects_def)
next
  case (NCase ws els)
  have "comparison_reads c \<and> wf Cond c \<and> term_reads e" if "wf Expr (NCase ws els)" "NWhen c e \<in> set ws" for c e
    using NCase(1) [OF that(2)] that by auto
  then show ?case using NCase(2) case_reads [of ws els] by (auto simp: cond_rejects_def)
next
  case (NCond x l r)
  have "comparison_reads (NCond x l r)" if wf: "wf Cond (NCond x l r)"
    unfolding comparison_reads_def
  proof (intro allI impI)
    fix f rest
    assume f: "2 * length (toks (NCond x l r)) \<le> f" and rest: "stops rest"
    have l: "wf Expr l" "term_reads l" "cond_rejects l" "2 * length (toks l) < f"
      using NCond(1) wf f by (auto split: option.splits if_splits)
    have "bare_comparison (parse_expr f) (toks (NCond x l r) @ rest) = Parsed (NCond x l r) rest"
      by (rule bare_reads [OF l(2,4) wf rest]) (use NCond(2) wf f in \<open>auto split: if_splits\<close>)
    then show "parse_comparison (parse_expr f) (parse_cond f) (toks (NCond x l r) @ rest) = Parsed (NCond x l r) rest"
      using comparison_of_bare [OF _ l(1,3), of "toks (NCond x l r) @ rest" _ f] l(4) by simp
  qed
  then show ?case by simp
next
  case (NLogic x l r)
  then show ?case using paren_logic_reads [of l r _ x]
    by (auto simp: comparison_reads_def [of "NLogic x l r"] parse_comparison_def returnP_def)
next
  case (NNot c)
  have "parse_cond f (TKw ''not'' # toks c @ rpar # rest) = Parsed (NNot c) (rpar # rest)"
    if c: "wf Cond c" "2 * length (toks c) < f" for f rest
  proof (cases f)
    case (Suc g)
    have "parse_not (parse_expr g) (parse_cond g) (toks c @ rpar # rest) = Parsed c (rpar # rest)"
      by (rule not_reads) (use NNot c Suc in \<open>auto simp: arith_ops_def\<close>)
    moreover have "logic_loop k x sub n node (rpar # rest) = Parsed node (rpar # rest)" for k x sub n node
      by (rule logic_loop_stop) simp
    ultimately show ?thesis using Suc by (simp add: cond_body_def parse_and_def)
  qed (use c in simp)
  then show ?case by (auto simp: comparison_reads_def [of "NNot c"] parse_comparison_def returnP_def)
qed (auto simp: cond_rejects_def name_reads lit_reads cast_reads extract_reads date_trunc_reads)

subsection \<open>The tokenizer reads the text back\<close>

definition breaks :: "string \<Rightarrow> bool" where
  "breaks s \<longleftrightarrow> s = [] \<or> hd s \<in> set '' ),''"

lemma breaks_simps [simp]: "breaks []" "breaks (c # s) \<longleftrightarrow> c = CHR '' '' \<or> c = CHR '')'' \<or> c = CHR '',''"
  by (auto simp: breaks_def)

lemma breaks_chars:
  "breaks s \<Longrightarrow> s \<noteq> [] \<Longrightarrow> \<not> ident_char (hd s) \<and> \<not> ascii_digit (hd s) \<and> hd s \<noteq> CHR ''.'' \<and> hd s \<noteq> quote_char"
  by (auto simp: breaks_def ident_char_def ascii_letter_def ascii_digit_def)

lemma lex_Nil [simp]: "lex [] = Some []"
  by (simp add: lex.simps)

lemma lex_dropWhile: "lex (dropWhile py_space s) = lex s"
  by (cases s) (simp_all add: lex.simps [of "_ # _"])

lemma lex_space [simp]: "lex (CHR '' '' # s) = lex s"
proof -
  have "py_space (CHR '' '')" by code_simp
  then show ?thesis using lex_dropWhile [of s] by (subst lex.simps) simp
qed

lemma char_facts:
  "c \<in> set ''><=+-*/%(),!'' \<Longrightarrow> \<not> py_space c \<and> \<not> ascii_digit c \<and> c \<noteq> quote_char \<and> \<not> ident_start c"
  by (auto simp: py_space_def ascii_digit_def ident_start_def ascii_letter_def)

lemma lex_op:
  assumes "match_op s = Some (x, r)" and "s \<noteq> []" and "hd s \<in> set ''><=+-*/%(),!''"
  shows "lex s = map_option ((#) (TOp x)) (lex r)"
proof -
  obtain c cs where s: "s = c # cs" using assms(2) by (cases s) auto
  then have "match_op (c # cs) = Some (x, r)" using assms(1) by simp
  then have "lex (c # cs) = map_option ((#) (TOp x)) (lex r)"
    using char_facts [of c] assms(3) s by (subst lex.simps) (simp del: set_simps)
  with s show ?thesis by simp
qed

lemma lex_paren [simp]:
  "lex (CHR ''('' # s) = map_option ((#) lpar) (lex s)" "lex (CHR '')'' # s) = map_option ((#) rpar) (lex s)"
  "lex (CHR '','' # s) = map_option ((#) (TOp '','')) (lex s)"
  by (rule lex_op; simp add: match_op_def)+

lemma operator_match:
  assumes "x \<in> set arith_ops \<union> set comparison_ops"
  shows "match_op (x @ CHR '' '' # s) = Some (x, CHR '' '' # s)" "x \<noteq> []" "hd x \<in> set ''><=+-*/%(),!''"
proof -
  have "x \<in> {''*'', ''/'', ''%'', ''+'', ''-'', ''='', ''!='', ''>'', ''>='', ''<'', ''<=''}"
    using assms by (auto simp: arith_ops_def comparison_ops_def)
  then show "match_op (x @ CHR '' '' # s) = Some (x, CHR '' '' # s)" "x \<noteq> []" "hd x \<in> set ''><=+-*/%(),!''"
    by (elim insertE emptyE; simp add: match_op_def)+
qed

lemma lex_operator:
  assumes "x \<in> set arith_ops \<union> set comparison_ops"
  shows "lex (x @ CHR '' '' # s) = map_option ((#) (TOp x)) (lex s)"
proof -
  have "lex (x @ CHR '' '' # s) = map_option ((#) (TOp x)) (lex (CHR '' '' # s))"
    by (rule lex_op) (use operator_match [OF assms] in simp_all)
  then show ?thesis by simp
qed

lemma ident_start_facts: "ident_start c \<Longrightarrow> \<not> py_space c \<and> \<not> ascii_digit c \<and> c \<noteq> quote_char"
  by (auto simp: ident_start_def ascii_letter_def py_space_def ascii_digit_def Let_def)

lemma lex_word:
  assumes "w \<noteq> []" and "ident_start (hd w)" and "list_all ident_char w" and "s = [] \<or> \<not> ident_char (hd s)"
  shows "lex (w @ s) = map_option ((#) (ident_token w)) (lex s)"
proof -
  have t: "takeWhile ident_char (w @ s) = w" and d: "dropWhile ident_char (w @ s) = s"
    using assms(3,4) by (cases s; simp add: list_all_iff takeWhile_append2 dropWhile_append2)+
  obtain c cs where w: "w = c # cs" using assms(1) by (cases w) auto
  have "lex (w @ s) = map_option ((#) (ident_token (takeWhile ident_char (w @ s)))) (lex (dropWhile ident_char (w @ s)))"
    using w assms(2) ident_start_facts [of c] by (subst lex.simps) (simp del: takeWhile.simps dropWhile.simps)
  then show ?thesis by (simp only: t d)
qed

lemma lex_words:
  "lex (''AS'' @ CHR '' '' # s) = map_option ((#) (TKw ''as'')) (lex s)"
  "lex (''FROM'' @ CHR '' '' # s) = map_option ((#) (TKw ''from'')) (lex s)"
  "lex (''WHEN'' @ CHR '' '' # s) = map_option ((#) (TKw ''when'')) (lex s)"
  "lex (''THEN'' @ CHR '' '' # s) = map_option ((#) (TKw ''then'')) (lex s)"
  "lex (''ELSE'' @ CHR '' '' # s) = map_option ((#) (TKw ''else'')) (lex s)"
  "lex (''CASE'' @ CHR '' '' # s) = map_option ((#) (TKw ''case'')) (lex s)"
  "lex (''NOT'' @ CHR '' '' # s) = map_option ((#) (TKw ''not'')) (lex s)"
  "lex (''AND'' @ CHR '' '' # s) = map_option ((#) (TKw ''and'')) (lex s)"
  "lex (''OR'' @ CHR '' '' # s) = map_option ((#) (TKw ''or'')) (lex s)"
  "lex (''IS'' @ CHR '' '' # s) = map_option ((#) (TKw ''is'')) (lex s)"
  "lex (''CAST'' @ CHR ''('' # s) = map_option (\<lambda>ts. TIdent ''cast'' # lpar # ts) (lex s)"
  "lex (''extract'' @ CHR ''('' # s) = map_option (\<lambda>ts. TIdent ''extract'' # lpar # ts) (lex s)"
  "lex (''date_trunc'' @ CHR ''('' # s) = map_option (\<lambda>ts. TIdent ''date_trunc'' # lpar # ts) (lex s)"
proof -
  have k: "ident_token w = TKw k \<Longrightarrow> w \<noteq> [] \<Longrightarrow> ident_start (hd w) \<Longrightarrow> list_all ident_char w \<Longrightarrow>
      lex (w @ CHR '' '' # s) = map_option ((#) (TKw k)) (lex s)" for w k
    using lex_word [of w "CHR '' '' # s"] breaks_chars [of "CHR '' '' # s"] by simp
  have p: "ident_token w = TIdent v \<Longrightarrow> w \<noteq> [] \<Longrightarrow> ident_start (hd w) \<Longrightarrow> list_all ident_char w \<Longrightarrow>
      lex (w @ CHR ''('' # s) = map_option (\<lambda>ts. TIdent v # lpar # ts) (lex s)" for w v
    using lex_word [of w "CHR ''('' # s"]
    by (simp add: ident_char_def ascii_letter_def ascii_digit_def option.map_comp comp_def)
  show
    "lex (''AS'' @ CHR '' '' # s) = map_option ((#) (TKw ''as'')) (lex s)"
    "lex (''FROM'' @ CHR '' '' # s) = map_option ((#) (TKw ''from'')) (lex s)"
    "lex (''WHEN'' @ CHR '' '' # s) = map_option ((#) (TKw ''when'')) (lex s)"
    "lex (''THEN'' @ CHR '' '' # s) = map_option ((#) (TKw ''then'')) (lex s)"
    "lex (''ELSE'' @ CHR '' '' # s) = map_option ((#) (TKw ''else'')) (lex s)"
    "lex (''CASE'' @ CHR '' '' # s) = map_option ((#) (TKw ''case'')) (lex s)"
    "lex (''NOT'' @ CHR '' '' # s) = map_option ((#) (TKw ''not'')) (lex s)"
    "lex (''AND'' @ CHR '' '' # s) = map_option ((#) (TKw ''and'')) (lex s)"
    "lex (''OR'' @ CHR '' '' # s) = map_option ((#) (TKw ''or'')) (lex s)"
    "lex (''IS'' @ CHR '' '' # s) = map_option ((#) (TKw ''is'')) (lex s)"
    by (rule k; code_simp)+
  show
    "lex (''CAST'' @ CHR ''('' # s) = map_option (\<lambda>ts. TIdent ''cast'' # lpar # ts) (lex s)"
    "lex (''extract'' @ CHR ''('' # s) = map_option (\<lambda>ts. TIdent ''extract'' # lpar # ts) (lex s)"
    "lex (''date_trunc'' @ CHR ''('' # s) = map_option (\<lambda>ts. TIdent ''date_trunc'' # lpar # ts) (lex s)"
    by (rule p; code_simp)+
qed

lemma lex_last_words:
  assumes "breaks s"
  shows "lex (''NULL'' @ s) = map_option ((#) (TKw ''null'')) (lex s)"
    "lex (''TRUE'' @ s) = map_option ((#) (TKw ''true'')) (lex s)"
    "lex (''FALSE'' @ s) = map_option ((#) (TKw ''false'')) (lex s)"
    "lex (''END'' @ s) = map_option ((#) (TKw ''end'')) (lex s)"
proof -
  have k: "ident_token w = TKw k \<Longrightarrow> w \<noteq> [] \<Longrightarrow> ident_start (hd w) \<Longrightarrow> list_all ident_char w \<Longrightarrow>
      lex (w @ s) = map_option ((#) (TKw k)) (lex s)" for w k
    using lex_word [of w s] breaks_chars [OF assms] by auto
  show "lex (''NULL'' @ s) = map_option ((#) (TKw ''null'')) (lex s)"
    "lex (''TRUE'' @ s) = map_option ((#) (TKw ''true'')) (lex s)"
    "lex (''FALSE'' @ s) = map_option ((#) (TKw ''false'')) (lex s)"
    "lex (''END'' @ s) = map_option ((#) (TKw ''end'')) (lex s)"
    by (rule k; code_simp)+
qed

lemma lower_name:
  assumes "name_ok v" and "ident_ok v"
  shows "ident_token v = TIdent v"
proof -
  have nl: "\<not> ident_char (CHR 0x0A)" by code_simp
  have "last v \<noteq> CHR 0x0A" using assms(2) nl by (auto simp: ident_ok_def list_all_iff dest: last_in_set)
  then have "lower_letter (hd v)" "list_all name_char (tl v)" "v \<noteq> []"
    using assms by (auto simp: name_ok_def Let_def split: if_splits)
  then have "list_all name_char v" by (cases v) (simp_all add: name_char_def)
  moreover have "py_lower_char c = c" if "name_char c" for c
    using that by (auto simp: name_char_def py_lower_char_def lower_letter_def ascii_digit_def Let_def)
  ultimately have "py_lower v = v" by (simp add: py_lower_def list_all_iff map_idI)
  then show ?thesis using assms(2) by (simp add: ident_token_def ident_ok_def)
qed

lemma known_lower: "list_all (\<lambda>v. ident_token v = TIdent v) (FUNC_WHITELIST @ CAST_TYPES @ EXTRACT_PARTS)"
  by code_simp

lemma lex_ident:
  assumes "ident_token v = TIdent v" and "ident_ok v" and "s = [] \<or> \<not> ident_char (hd s)"
  shows "lex (v @ s) = map_option ((#) (TIdent v)) (lex s)"
  using lex_word [of v s] assms by (simp add: ident_ok_def)

lemma match_number_append:
  assumes "num_ok v" and "s = [] \<or> (\<not> ascii_digit (hd s) \<and> hd s \<noteq> CHR ''.'')"
  shows "match_number (v @ s) = (v, s)"
proof -
  have s: "takeWhile ascii_digit (u @ s) = u" "dropWhile ascii_digit (u @ s) = s" if "\<forall>c \<in> set u. ascii_digit c" for u
    using that assms(2) by (cases s; simp add: takeWhile_append2 dropWhile_append2)+
  have v: "match_number v = (v, [])" using assms(1) by (simp add: num_ok_def)
  show ?thesis
  proof (cases "dropWhile ascii_digit v")
    case Nil
    then have "\<forall>c \<in> set v. ascii_digit c" by (simp add: dropWhile_eq_Nil_conv)
    note s = s [OF this]
    show ?thesis
    proof (cases s)
      case Nil
      then show ?thesis using v by simp
    next
      case (Cons c cs)
      then show ?thesis using match_number_Cons [OF s(2) [unfolded Cons]] s(1) assms(2) by (simp add: Cons)
    qed
  next
    case (Cons c cs)
    from v have c: "c = CHR ''.''" "cs \<noteq> []" "ascii_digit (hd cs)"
      "v = takeWhile ascii_digit v @ c # takeWhile ascii_digit cs" "dropWhile ascii_digit cs = []"
      using match_number_Cons [OF Cons] by (auto split: if_splits)
    have cs: "\<forall>c \<in> set cs. ascii_digit c" using c(5) by (simp add: dropWhile_eq_Nil_conv)
    then have v': "v = takeWhile ascii_digit v @ c # cs" using c(4) by (simp add: takeWhile_eq_all_conv [THEN iffD2])
    have dot: "\<not> ascii_digit c" using c(1) by (simp add: ascii_digit_def)
    have split: "takeWhile ascii_digit (v @ s) = takeWhile ascii_digit v" "dropWhile ascii_digit (v @ s) = c # cs @ s"
    proof -
      have "v @ s = takeWhile ascii_digit v @ c # cs @ s" using v' by simp
      then show "takeWhile ascii_digit (v @ s) = takeWhile ascii_digit v" "dropWhile ascii_digit (v @ s) = c # cs @ s"
        using takeWhile_all [of ascii_digit v] dot by (metis (no_types, lifting) takeWhile_append2 takeWhile.simps(2) append_Nil2,
          metis (no_types, lifting) dropWhile_append2 dropWhile.simps(2))
    qed
    show ?thesis using match_number_Cons [OF split(2)] split(1) c(1-3) s [OF cs] v' by simp
  qed
qed

lemma digit_facts: "ascii_digit c \<Longrightarrow> \<not> py_space c"
  by (auto simp: ascii_digit_def py_space_def Let_def)

lemma lex_number:
  assumes "num_ok v" and "breaks s"
  shows "lex (v @ s) = map_option ((#) (TNumber v)) (lex s)"
    and "lex (CHR ''-'' # v @ s) = map_option (\<lambda>ts. TOp ''-'' # TNumber v # ts) (lex s)"
proof -
  have m: "match_number (v @ s) = (v, s)"
    using assms(1) breaks_chars [OF assms(2)] by (intro match_number_append) auto
  obtain c cs where v: "v = c # cs" "ascii_digit c" using assms(1) by (cases v) (auto simp: num_ok_def)
  show n: "lex (v @ s) = map_option ((#) (TNumber v)) (lex s)"
    using m v digit_facts [of c] by (subst lex.simps) simp
  have "match_op (CHR ''-'' # v @ s) = Some (''-'', v @ s)" using v by (simp add: match_op_def)
  then have "lex (CHR ''-'' # v @ s) = map_option ((#) (TOp ''-'')) (lex (v @ s))" by (rule lex_op) simp_all
  then show "lex (CHR ''-'' # v @ s) = map_option (\<lambda>ts. TOp ''-'' # TNumber v # ts) (lex s)"
    by (simp add: n option.map_comp comp_def)
qed

lemma escape_simps [simp]:
  "escape [] = []" "escape (c # v) = (if c = quote_char then quote_char # quote_char # escape v else c # escape v)"
  by (simp_all add: escape_def)

lemma match_escape: "s = [] \<or> hd s \<noteq> quote_char \<Longrightarrow> match_string (escape v @ quote_char # s) = Some (escape v, s)"
  by (induction v) (auto split: list.splits)

lemma unescape_escape: "unescape (escape v) = v"
proof (induction v)
  case (Cons c v)
  then show ?case by (cases "escape v") auto
qed simp

lemma lex_string:
  assumes "s = [] \<or> hd s \<noteq> quote_char"
  shows "lex (quote_char # escape v @ quote_char # s) = map_option ((#) (TString v)) (lex s)"
proof -
  have "\<not> py_space quote_char" "\<not> ascii_digit quote_char" by code_simp+
  then show ?thesis
    using match_escape [OF assms, of v] by (subst lex.simps) (simp add: unescape_escape)
qed

lemma append_section: "(@) (x # xs) = (\<lambda>ts. x # xs @ ts)" "(@) [] = (\<lambda>ts. ts)"
    "(@) (ys @ zs) = (\<lambda>ts. ys @ zs @ ts)"
  by (simp_all add: fun_eq_iff)

lemma lex_literal: "lit_ok l \<Longrightarrow> breaks s \<Longrightarrow> lex (render_literal l @ s) = map_option ((@) (lit_toks l)) (lex s)"
proof (cases l)
  case (LNum v)
  assume "lit_ok l" "breaks s"
  then show ?thesis using LNum lex_number [of "if v \<noteq> [] \<and> hd v = CHR ''-'' then tl v else v" s]
    by (cases v) (auto simp: append_section num_ok_def split: if_splits)
next
  case (LStr v)
  assume "breaks s"
  then show ?thesis using LStr lex_string [of s v] breaks_chars [of s] by (auto simp: append_section)
next
  case (LBool k)
  assume "lit_ok l" "breaks s"
  moreover have "ascii_upper ''true'' = ''TRUE''" "ascii_upper ''false'' = ''FALSE''" by code_simp+
  ultimately show ?thesis using LBool lex_last_words(2,3) [of s] by (auto simp: append_section)
next
  case LNull
  assume "breaks s"
  then show ?thesis using LNull lex_last_words(1) [of s] by (simp add: append_section)
qed

definition plain_trunc :: "dialect \<Rightarrow> bool" where
  "plain_trunc d \<longleftrightarrow> di_name d \<noteq> ''bigquery'' \<and> di_name d \<noteq> ''synapse''"

abbreviation text_of :: "dialect \<Rightarrow> node \<Rightarrow> string" where
  "text_of d \<equiv> render_ast d (\<lambda>v. v)"

definition lexes :: "dialect \<Rightarrow> node \<Rightarrow> bool" where
  "lexes d n \<longleftrightarrow> (\<forall>s. breaks s \<longrightarrow> lex (text_of d n @ s) = map_option ((@) (toks n)) (lex s))"

lemma lexesD: "lexes d n \<Longrightarrow> breaks s \<Longrightarrow> lex (text_of d n @ s) = map_option ((@) (toks n)) (lex s)"
  by (simp add: lexes_def)

lemma map_option_section: "map_option f (map_option ((@) xs) y) = map_option (\<lambda>ts. f (xs @ ts)) y"
    "map_option f (map_option ((#) x) y) = map_option (\<lambda>ts. f (x # ts)) y"
  by (cases y; simp)+

lemma lex_args:
  assumes "\<And>a. a \<in> set args \<Longrightarrow> lexes d a"
  shows "lex (join '', '' (map (text_of d) args) @ CHR '')'' # s) =
    map_option (\<lambda>ts. join [TOp '',''] (map toks args) @ rpar # ts) (lex s)"
  using assms
proof (induction args rule: induct_list012)
  case 1
  then show ?case by simp
next
  case (2 a)
  then show ?case by (simp add: lexesD option.map_comp comp_def)
next
  case (3 a b args)
  have "lex (join '', '' (map (text_of d) (b # args)) @ CHR '')'' # s) =
      map_option (\<lambda>ts. join [TOp '',''] (map toks (b # args)) @ rpar # ts) (lex s)"
    using 3 by simp
  then show ?case using 3(3) [of a] by (simp add: lexesD option.map_comp comp_def)
qed

lemma join_snoc: "join s (xs @ [y]) = concat (map (\<lambda>x. x @ s) xs) @ y"
proof (induction xs)
  case (Cons x xs)
  then show ?case by (cases xs) simp_all
qed simp

lemma lex_whens:
  assumes "\<And>w. w \<in> set ws \<Longrightarrow> lexes d w"
  shows "lex (concat (map (\<lambda>w. text_of d w @ '' '') ws) @ s) = map_option ((@) (concat (map toks ws))) (lex s)"
  using assms
proof (induction ws)
  case Nil
  then show ?case by (simp add: append_section option.map_ident)
next
  case (Cons w ws)
  then show ?case by (simp add: lexesD option.map_comp comp_def)
qed

lemma lower_logic: "py_lower ''AND'' = ''and''" "py_lower ''OR'' = ''or''"
  by code_simp+

lemmas lex_rules = lexesD lex_words [simplified] lex_last_words [simplified] lex_operator option.map_comp comp_def append_section

lemma ident_breaks: "breaks s \<Longrightarrow> s = [] \<or> \<not> ident_char (hd s)"
  using breaks_chars by blast

lemma known_lex:
  assumes "v \<in> set FUNC_WHITELIST \<or> v \<in> set CAST_TYPES \<or> v \<in> set EXTRACT_PARTS" and "s = [] \<or> \<not> ident_char (hd s)"
  shows "lex (v @ s) = map_option ((#) (TIdent v)) (lex s)"
  using assms known_lower known_names_ok by (intro lex_ident) (auto simp: list_all_iff)

lemma paren_not_ident: "\<not> ident_char (CHR ''('')" "\<not> ident_char (CHR '')'')" "\<not> ident_char (CHR '' '')"
  by code_simp+

lemma text_lexes:
  assumes d: "plain_trunc d"
  shows "wf k n \<Longrightarrow> lexes d n"
proof (induction k n rule: wf.induct)
  case (1 k v)
  then show ?case using lex_ident [OF lower_name] ident_breaks
    by (auto simp: lexes_def append_section)
next
  case (2 k l)
  then show ?case using lex_literal by (simp add: lexes_def)
next
  case (3 k x l r)
  then show ?case by (simp add: lexes_def [of d "NBin x l r"] lex_rules)
next
  case (4 k f args)
  have "f \<in> set FUNC_WHITELIST" using 4 plain_func_facts by auto
  then show ?case using 4 lex_args [of args d]
    by (simp add: lexes_def [of d "NFunc f args"] known_lex paren_not_ident option.map_comp comp_def append_section)
next
  case (5 k e t)
  then show ?case by (simp add: lexes_def [of d "NCast e t"] lex_rules known_lex paren_not_ident)
next
  case (6 k p e)
  then show ?case by (simp add: lexes_def [of d "NExtract p e"] lex_rules known_lex paren_not_ident)
next
  case (7 k g e)
  have "g \<in> {''hour'', ''day'', ''week'', ''month'', ''quarter'', ''year''}" using 7 by (auto simp: TIME_GRAINS_def)
  then have "escape g = g" by (elim insertE emptyE; simp)
  then have "lex (quote_char # g @ quote_char # CHR '','' # s) = map_option ((#) (TString g)) (lex (CHR '','' # s))" for s
    using lex_string [of "CHR '','' # s" g] by simp
  then show ?case using 7 d
    by (simp add: lexes_def [of d "NDateTrunc g e"] date_trunc_def plain_trunc_def lex_rules)
next
  case (8 k ws els)
  have ws: "lexes d w" if "w \<in> set ws" for w using 8 that by simp
  have e: "lexes d e" if "els = Some e" for e using 8 that by simp
  have t: "text_of d (NCase ws els) = ''CASE '' @ concat (map (\<lambda>w. text_of d w @ '' '') ws) @
      (case els of None \<Rightarrow> [] | Some e \<Rightarrow> ''ELSE '' @ text_of d e @ '' '') @ ''END''"
    using join_snoc [of "'' ''" "''CASE'' # map (text_of d) ws @ (case els of None \<Rightarrow> [] | Some e \<Rightarrow> [''ELSE '' @ text_of d e])" "''END''"]
    by (simp add: comp_def split: option.splits)
  show ?case
    unfolding lexes_def [of d "NCase ws els"] t
    by (cases els) (use ws e in \<open>simp_all add: lex_rules lex_whens\<close>)
next
  case (9 k c e)
  then show ?case by (simp add: lexes_def [of d "NWhen c e"] lex_rules)
next
  case (10 k x l r)
  then show ?case
    by (auto simp: lexes_def [of d "NCond x l r"] lex_rules split: if_splits)
next
  case (11 k x l r)
  then show ?case by (auto simp: lexes_def [of d "NLogic x l r"] lex_rules lower_logic)
next
  case (12 k c)
  then show ?case by (simp add: lexes_def [of d "NNot c"] lex_rules)
qed

subsection \<open>Rendered text is clean\<close>

definition neutral :: "char \<Rightarrow> bool" where
  "neutral c \<longleftrightarrow> c \<notin> set ''-/*;'' \<and> c \<noteq> CHR 0x22"

lemma contains_pair_append:
  "py_contains [x, y] (a @ b) \<longleftrightarrow>
     py_contains [x, y] a \<or> py_contains [x, y] b \<or> (a \<noteq> [] \<and> b \<noteq> [] \<and> last a = x \<and> hd b = y)"
proof (induction a)
  case (Cons c a)
  then show ?case by (cases a) (auto simp: contains_pair_Cons simp del: py_contains.simps)
qed simp

lemma forbidden_mid: "neutral c \<Longrightarrow> forbidden (a @ c # b) \<longleftrightarrow> forbidden a \<or> forbidden b"
  by (auto simp: forbidden_def neutral_def contains_char contains_pair_append contains_pair_Cons simp del: py_contains.simps)

lemma forbidden_Cons: "neutral c \<Longrightarrow> forbidden (c # b) \<longleftrightarrow> forbidden b"
  using forbidden_mid [of c "[]" b] by (simp add: forbidden_def)

lemma forbidden_Nil [simp]: "\<not> forbidden []"
  by (simp add: forbidden_def)

lemma neutral_clean: "\<forall>c \<in> set s. neutral c \<Longrightarrow> \<not> forbidden s"
  by (induction s) (simp_all add: forbidden_Cons)

lemma ident_neutral: "ident_char c \<Longrightarrow> neutral c"
  by (auto simp: ident_char_def neutral_def ascii_letter_def ascii_digit_def)

lemma ident_clean: "ident_ok v \<Longrightarrow> \<not> forbidden v"
  using neutral_clean ident_neutral by (auto simp: ident_ok_def list_all_iff)

lemma number_chars: "c \<in> set (fst (match_number s)) \<Longrightarrow> ascii_digit c \<or> c = CHR ''.''"
proof (cases "dropWhile ascii_digit s")
  case Nil
  assume "c \<in> set (fst (match_number s))"
  then show ?thesis using Nil by (auto simp: match_number_Nil dest: set_takeWhileD)
next
  case (Cons d ds)
  assume "c \<in> set (fst (match_number s))"
  then show ?thesis using Cons by (auto simp: match_number_Cons split: if_splits dest: set_takeWhileD)
qed

lemma number_clean: "num_ok v \<Longrightarrow> \<not> forbidden v \<and> \<not> forbidden (CHR ''-'' # v)"
proof -
  assume v: "num_ok v"
  have "neutral c" if "c \<in> set v" for c
    using number_chars [of c v] v that by (auto simp: num_ok_def neutral_def ascii_digit_def)
  then have c: "\<not> forbidden v" by (intro neutral_clean) simp
  moreover have "hd v \<noteq> CHR ''-''" using v by (auto simp: num_ok_def ascii_digit_def)
  ultimately show ?thesis by (simp add: forbidden_def contains_char contains_pair_Cons del: py_contains.simps)
qed

lemma escape_hd: "v \<noteq> [] \<Longrightarrow> escape v \<noteq> [] \<and> hd (escape v) = hd v"
  by (cases v) auto

lemma escape_pair: "x \<noteq> quote_char \<Longrightarrow> y \<noteq> quote_char \<Longrightarrow> py_contains [x, y] (escape v) \<Longrightarrow> py_contains [x, y] v"
proof (induction v)
  case (Cons c v)
  then show ?case using escape_hd [of v]
    by (cases "v = []") (auto simp: contains_pair_Cons simp del: py_contains.simps split: if_splits)
qed simp

lemma escape_set: "set (escape v) \<subseteq> set v"
  by (induction v) auto

lemma escape_clean: "\<not> forbidden v \<Longrightarrow> \<not> forbidden (escape v)"
  using escape_set [of v] escape_pair [of "CHR ''-''" "CHR ''-''" v] escape_pair [of "CHR ''/''" "CHR ''*''" v]
  by (auto simp: forbidden_def contains_char)

lemma literal_clean: "lit_ok l \<Longrightarrow> \<not> forbidden (render_literal l)"
proof (cases l)
  case (LNum v)
  assume "lit_ok l"
  then show ?thesis using LNum number_clean [of v] number_clean [of "tl v"] by (cases v) (auto split: if_splits)
next
  case (LStr v)
  assume "lit_ok l"
  then show ?thesis using LStr escape_clean [of v] by (simp add: forbidden_Cons forbidden_mid neutral_def)
next
  case (LBool k)
  assume "lit_ok l"
  moreover have "\<not> forbidden (ascii_upper ''true'')" "\<not> forbidden (ascii_upper ''false'')" by code_simp+
  ultimately show ?thesis using LBool by auto
next
  case LNull
  then show ?thesis by (simp add: forbidden_Cons neutral_def)
qed

lemma known_clean:
  "list_all (\<lambda>v. \<not> forbidden v)
     (FUNC_WHITELIST @ CAST_TYPES @ EXTRACT_PARTS @ TIME_GRAINS @ arith_ops @ comparison_ops @ plain_funcs)"
  by code_simp

lemmas clean_rules = forbidden_Cons forbidden_mid neutral_def

lemma join_clean: "\<forall>x \<in> set xs. \<not> forbidden x \<Longrightarrow> \<not> forbidden (join '', '' xs) \<and> \<not> forbidden (join '' '' xs)"
  by (induction xs rule: induct_list012) (simp_all add: clean_rules)

lemma text_clean:
  assumes "plain_trunc d"
  shows "wf k n \<Longrightarrow> \<not> forbidden (text_of d n)"
proof (induction k n rule: wf.induct)
  case (1 k v)
  then show ?case using ident_clean by simp
next
  case (2 k l)
  then show ?case using literal_clean by simp
next
  case (4 k f args)
  then show ?case using join_clean [of "map (text_of d) args"] known_clean by (auto simp: clean_rules list_all_iff)
next
  case (8 k ws els)
  have e: "\<not> forbidden (CHR ''E'' # CHR ''L'' # CHR ''S'' # CHR ''E'' # CHR '' '' # text_of d e)" if "els = Some e" for e
    using 8 that by (simp add: clean_rules)
  have "\<not> forbidden ''CASE''" "\<not> forbidden ''END''" by code_simp+
  then show ?case using 8 e
      join_clean [of "[''CASE''] @ map (text_of d) ws @ (case els of None \<Rightarrow> [] | Some e \<Rightarrow> [''ELSE '' @ text_of d e]) @ [''END'']"]
    by (auto split: option.splits simp del: join.simps)
next
  case (10 k x l r)
  then show ?case using known_clean by (auto simp: clean_rules list_all_iff split: if_splits)
qed (use assms known_clean in \<open>auto simp: clean_rules list_all_iff date_trunc_def plain_trunc_def\<close>)

subsection \<open>Rendering and parsing again\<close>

lemma strip_empty: "py_strip s = [] \<Longrightarrow> lex s = Some []"
proof -
  assume "py_strip s = []"
  then have all: "\<forall>x \<in> set (dropWhile py_space s). py_space x" by (simp add: py_strip_def dropWhile_eq_Nil_conv)
  have "dropWhile py_space s = []"
  proof (rule ccontr)
    assume ne: "dropWhile py_space s \<noteq> []"
    from hd_dropWhile [OF ne] all hd_in_set [OF ne] show False by blast
  qed
  then show ?thesis using lex_dropWhile [of s] by (simp del: dropWhile_eq_Nil_conv)
qed

lemma text_tokenizes:
  assumes "plain_trunc d" and "wf k n" and "toks n \<noteq> []"
  shows "tokenize (text_of d n) = Some (toks n)"
proof -
  have "lex (text_of d n @ []) = map_option ((@) (toks n)) (lex [])"
    by (rule lexesD [OF text_lexes [OF assms(1,2)]]) simp
  then have l: "lex (text_of d n) = Some (toks n)" by simp
  moreover have "py_strip (text_of d n) \<noteq> []" using strip_empty [of "text_of d n"] l assms(3) by auto
  ultimately show ?thesis using text_clean [OF assms(1,2)] by (simp add: tokenize_def)
qed

lemma expression_reads_back:
  assumes "plain_trunc d" and "wf Expr e"
  shows "parse_expression (text_of d e) = Parsed e []"
proof -
  have "term_reads e" using tree_reads assms(2) by blast
  then have "parse_expr (fuel_for (toks e)) (toks e @ []) = Parsed e []"
    by (intro expr_reads) (simp_all add: fuel_for_def)
  then show ?thesis using text_tokenizes [OF assms] toks_start [OF assms(2)]
    by (simp add: parse_expression_def whole_input_def)
qed

lemma condition_reads_back:
  assumes "plain_trunc d" and "wf Cond c"
  shows "parse_condition (text_of d c) = Parsed c []"
proof -
  have "comparison_reads c" using tree_reads assms(2) by blast
  then have "parse_cond (fuel_for (toks c)) (toks c @ []) = Parsed c []"
    using assms(2) by (intro cond_reads) (simp_all add: fuel_for_def)
  then show ?thesis using text_tokenizes [OF assms] toks_start_cond [OF assms(2)]
    by (simp add: parse_condition_def whole_input_def)
qed



end
