(* ===== verification/Canonical_Json.thy ===== *)
theory Canonical_Json
  imports Prelude "HOL-Library.List_Lexorder" "HOL-Library.Char_ord"
begin

text \<open>
  The canonical JSON text of tool arguments (\<open>agent-runtime/app/domain/canonical.py\<close>), over which the
  digest is taken that binds an approval to its arguments. Keys are sorted by code point, no spaces,
  strings as \<open>json.dumps(..., ensure_ascii=False)\<close> writes them with the HTML characters escaped. The text
  is over code points up to U+00FF, so the line and paragraph separators do not occur. How Python
  prints a float (\<open>float.__repr__\<close>) and SHA-256 are arguments.
\<close>

subsection \<open>The encoder\<close>

definition hex_digit :: "nat \<Rightarrow> char" where
  "hex_digit n = char_of (if n < 10 then 48 + n else 87 + n)"

definition dumps_char :: "char \<Rightarrow> string" where
  "dumps_char c =
     (let n = of_char c :: nat; bs = CHR 0x5C
      in if n = 0x22 then [bs, c] else if n = 0x5C then [bs, c]
         else if n = 10 then [bs, CHR ''n''] else if n = 13 then [bs, CHR ''r''] else if n = 9 then [bs, CHR ''t'']
         else if n = 12 then [bs, CHR ''f''] else if n = 8 then [bs, CHR ''b'']
         else if n < 32 then bs # ''u00'' @ [hex_digit (n div 16), hex_digit (n mod 16)]
         else [c])"

definition dumps_str :: "string \<Rightarrow> string" where
  "dumps_str s = [CHR 0x22] @ concat (map dumps_char s) @ [CHR 0x22]"

definition replace_char :: "char \<Rightarrow> string \<Rightarrow> string \<Rightarrow> string" where
  "replace_char c w s = concat (map (\<lambda>x. if x = c then w else [x]) s)"

definition encode_str :: "string \<Rightarrow> string" where
  "encode_str s =
     replace_char (CHR ''&'') (CHR 0x5C # ''u0026'')
       (replace_char (CHR ''>'') (CHR 0x5C # ''u003e'')
         (replace_char (CHR ''<'') (CHR 0x5C # ''u003c'') (dumps_str s)))"

fun commas :: "string list \<Rightarrow> string" where
  "commas [] = []"
| "commas (p # ps) = p @ concat (map (\<lambda>q. CHR '','' # q) ps)"

text \<open>\<open>dumps\<close> is \<open>json.dumps\<close> with sorted keys and compact separators; \<open>str_text\<close> prints a string.\<close>

function (sequential) dumps :: "(string \<Rightarrow> string) \<Rightarrow> (rat \<Rightarrow> string) \<Rightarrow> json \<Rightarrow> string" where
  "dumps str_text float_repr (JObj kvs) =
     ''{'' @ commas (map (\<lambda>(k, v). str_text k @ '':'' @ dumps str_text float_repr v) (sort_key fst kvs)) @ ''}''"
| "dumps str_text float_repr (JArr xs) = ''['' @ commas (map (dumps str_text float_repr) xs) @ '']''"
| "dumps str_text float_repr (JStr s) = str_text s"
| "dumps str_text float_repr (JBool b) = (if b then ''true'' else ''false'')"
| "dumps str_text float_repr JNull = ''null''"
| "dumps str_text float_repr (JInt n) = py_str_int n"
| "dumps str_text float_repr (JFloat q) = float_repr q"
  by pat_completeness auto
termination
proof (relation "measure (\<lambda>(st, fr, j). size j)", goal_cases)
  case (2 st fr kvs x k v)
  then have "(k, v) \<in> set kvs" by simp
  then have "size v < Suc (size_list (size_prod (\<lambda>x. 0) size) kvs)"
    by (induction kvs) auto
  then show ?case by simp
qed (auto simp: less_Suc_eq_le size_list_estimation')

definition encode :: "(rat \<Rightarrow> string) \<Rightarrow> json \<Rightarrow> string" where
  "encode float_repr j = dumps encode_str float_repr j"

definition canonical_json :: "(rat \<Rightarrow> string) \<Rightarrow> (string, json) dict \<Rightarrow> string" where
  "canonical_json float_repr args = encode float_repr (JObj args)"

definition args_digest :: "(string \<Rightarrow> string) \<Rightarrow> (rat \<Rightarrow> string) \<Rightarrow> (string, json) dict \<Rightarrow> string" where
  "args_digest sha256 float_repr args = sha256 (canonical_json float_repr args)"

subsection \<open>The canonical form\<close>

text \<open>The value with the keys of every object sorted, and the printer that keeps their order.\<close>

fun canon :: "json \<Rightarrow> json" where
  "canon (JObj kvs) = JObj (sort_key fst (map (\<lambda>(k, v). (k, canon v)) kvs))"
| "canon (JArr xs) = JArr (map canon xs)"
| "canon (JStr s) = JStr s"
| "canon (JBool b) = JBool b"
| "canon JNull = JNull"
| "canon (JInt n) = JInt n"
| "canon (JFloat q) = JFloat q"

fun plain :: "(string \<Rightarrow> string) \<Rightarrow> (rat \<Rightarrow> string) \<Rightarrow> json \<Rightarrow> string" where
  "plain st fr (JObj kvs) = ''{'' @ commas (map (\<lambda>(k, v). st k @ '':'' @ plain st fr v) kvs) @ ''}''"
| "plain st fr (JArr xs) = ''['' @ commas (map (plain st fr) xs) @ '']''"
| "plain st fr (JStr s) = st s"
| "plain st fr (JBool b) = (if b then ''true'' else ''false'')"
| "plain st fr JNull = ''null''"
| "plain st fr (JInt n) = py_str_int n"
| "plain st fr (JFloat q) = fr q"

lemma insort_key_map_fst:
  "insort_key fst (fst x, f x) (map (\<lambda>y. (fst y, f y)) ys) = map (\<lambda>y. (fst y, f y)) (insort_key fst x ys)"
  by (induction ys) auto

lemma sort_key_map_fst: "sort_key fst (map (\<lambda>y. (fst y, f y)) xs) = map (\<lambda>y. (fst y, f y)) (sort_key fst xs)"
proof (induction xs)
  case (Cons x xs)
  then show ?case using insort_key_map_fst [of x f "sort_key fst xs"] by simp
qed simp

lemma dumps_plain: "dumps st fr j = plain st fr (canon j)"
proof (induction st fr j rule: dumps.induct)
  case (1 st fr kvs)
  have "dumps st fr (snd y) = plain st fr (canon (snd y))" if "y \<in> set kvs" for y
    using "1.IH" [of y "fst y" "snd y"] that by simp
  then show ?case
    by (simp add: sort_key_map_fst [of "\<lambda>y. canon (snd y)"] comp_def case_prod_beta')
       (rule arg_cong [where f = commas], rule map_cong [OF refl], simp)
next
  case (2 st fr xs)
  then have "map (dumps st fr) xs = map (plain st fr) (map canon xs)" by simp
  then show ?case by (simp only: dumps.simps canon.simps plain.simps)
qed simp_all

subsection \<open>Reading the text back\<close>

definition unhex :: "char \<Rightarrow> nat" where
  "unhex c = (let n = of_char c in if n < 58 then n - 48 else n - 87)"

definition esc :: "char \<Rightarrow> string" where
  "esc c = (if c = CHR ''<'' then CHR 0x5C # ''u003c'' else if c = CHR ''>'' then CHR 0x5C # ''u003e''
            else if c = CHR ''&'' then CHR 0x5C # ''u0026'' else dumps_char c)"

lemma unhex_digit: "n < 16 \<Longrightarrow> unhex (hex_digit n) = n"
  by (auto simp: unhex_def hex_digit_def Let_def)

lemma of_char_hex: "n < 16 \<Longrightarrow> of_char (hex_digit n) = (if n < 10 then 48 + n else 87 + n)"
  by (simp add: hex_digit_def)

lemma hex_digit_html: "n < 16 \<Longrightarrow> hex_digit n \<notin> {CHR ''<'', CHR ''>'', CHR ''&''}"
  using of_char_hex [of n] by (auto split: if_splits)

lemma replace_char_append [simp]: "replace_char c w (s @ t) = replace_char c w s @ replace_char c w t"
  by (simp add: replace_char_def)

lemma replace_char_absent: "c \<notin> set s \<Longrightarrow> replace_char c w s = s"
  by (induction s) (auto simp: replace_char_def)

lemma esc_dumps:
  "replace_char (CHR ''&'') (CHR 0x5C # ''u0026'')
     (replace_char (CHR ''>'') (CHR 0x5C # ''u003e'') (replace_char (CHR ''<'') (CHR 0x5C # ''u003c'') (dumps_char c))) = esc c"
proof (cases "c \<in> {CHR ''<'', CHR ''>'', CHR ''&''}")
  case True
  then show ?thesis by (auto simp: esc_def dumps_char_def replace_char_def)
next
  case False
  have "(of_char c :: nat) div 16 < 16" using nat_of_char_less_256 [of c] by (simp add: less_mult_imp_div_less)
  with False have "x \<notin> set (dumps_char c)" if "x \<in> {CHR ''<'', CHR ''>'', CHR ''&''}" for x
    using that hex_digit_html [of "of_char c div 16"] hex_digit_html [of "of_char c mod 16"]
    by (auto simp: dumps_char_def Let_def split: if_splits)
  then show ?thesis using False by (simp add: replace_char_absent esc_def)
qed

definition quoted :: "(char \<Rightarrow> string) \<Rightarrow> string \<Rightarrow> string" where
  "quoted e s = CHR 0x22 # concat (map e s) @ [CHR 0x22]"

lemma encode_str_esc: "encode_str = quoted esc"
proof
  fix s
  let ?r = "\<lambda>s. replace_char (CHR ''&'') (CHR 0x5C # ''u0026'')
     (replace_char (CHR ''>'') (CHR 0x5C # ''u003e'') (replace_char (CHR ''<'') (CHR 0x5C # ''u003c'') s))"
  have "?r (concat (map dumps_char s)) = concat (map esc s)"
  proof (induction s)
    case (Cons c s)
    then show ?case by (simp add: esc_dumps del: append_Cons)
  qed (simp add: replace_char_def)
  moreover have "?r [CHR 0x22] = [CHR 0x22]" by (simp add: replace_char_def)
  ultimately show "encode_str s = quoted esc s" unfolding encode_str_def dumps_str_def replace_char_append quoted_def by simp
qed

text \<open>One character off the front of an escaped text.\<close>

fun unesc :: "string \<Rightarrow> (char \<times> string) option" where
  "unesc [] = None"
| "unesc [c] = (if c = CHR 0x5C then None else Some (c, []))"
| "unesc (c # d # s) =
     (if c \<noteq> CHR 0x5C then Some (c, d # s)
      else if d = CHR ''u'' then
        (case s of z # y # h # l # r \<Rightarrow> Some (char_of (16 * unhex h + unhex l), r) | _ \<Rightarrow> None)
      else Some (if d = CHR ''n'' then CHR 10 else if d = CHR ''r'' then CHR 13 else if d = CHR ''t'' then CHR 9
                 else if d = CHR ''f'' then CHR 12 else if d = CHR ''b'' then CHR 8 else d, s))"

lemma unesc_hex:
  "unesc (CHR 0x5C # ''u00'' @ [hex_digit (of_char c div 16), hex_digit (of_char c mod 16)] @ s) = Some (c, s)"
proof -
  have "(of_char c :: nat) < 256" by (rule nat_of_char_less_256)
  then have "of_char c div 16 < (16 :: nat)" by (simp add: less_mult_imp_div_less)
  moreover have "16 * (of_char c div 16) + of_char c mod 16 = (of_char c :: nat)" by simp
  ultimately show ?thesis by (simp add: unhex_digit)
qed

lemma unesc_dumps: "unesc (dumps_char c @ s) = Some (c, s)"
proof -
  have ne: "of_char c \<noteq> (of_char d :: nat)" if "c \<noteq> d" for d
    using that by simp
  define B where "B = {CHR 0x22, CHR 0x5C, CHR 10, CHR 13, CHR 9, CHR 12, CHR 8}"
  consider (short) "c \<in> B" | (control) "c \<notin> B" "of_char c < (32 :: nat)" | (raw) "c \<notin> B" "\<not> of_char c < (32 :: nat)"
    by blast
  then show ?thesis
  proof cases
    case short
    then show ?thesis unfolding B_def by (elim insertE emptyE; simp add: dumps_char_def Let_def)
  next
    case control
    have "dumps_char c = CHR 0x5C # ''u00'' @ [hex_digit (of_char c div 16), hex_digit (of_char c mod 16)]"
      using control [unfolded B_def] ne [of "CHR 0x22"] ne [of "CHR 0x5C"] ne [of "CHR 10"] ne [of "CHR 13"] ne [of "CHR 9"] ne [of "CHR 12"] ne [of "CHR 8"]
      by (simp add: dumps_char_def Let_def)
    then show ?thesis using unesc_hex [of c s] by simp
  next
    case raw
    have "dumps_char c = [c]" and "c \<noteq> CHR 0x5C"
      using raw [unfolded B_def] ne [of "CHR 0x22"] ne [of "CHR 0x5C"] ne [of "CHR 10"] ne [of "CHR 13"] ne [of "CHR 9"] ne [of "CHR 12"] ne [of "CHR 8"]
      by (simp_all add: dumps_char_def Let_def)
    then show ?thesis by (cases s) simp_all
  qed
qed

lemma unesc_esc: "unesc (esc c @ s) = Some (c, s)"
proof (cases "c \<in> {CHR ''<'', CHR ''>'', CHR ''&''}")
  case True
  then show ?thesis by (elim insertE emptyE; simp add: esc_def unhex_def char_of_eq_iff take_bit_eq_mod)
next
  case False
  then have "esc c = dumps_char c" by (simp add: esc_def)
  then show ?thesis by (simp add: unesc_dumps)
qed

text \<open>A way to escape characters that \<open>unesc\<close> undoes and that never starts with a double quote: the escaped
  text of a string, up to the quote that closes it, determines the string.\<close>

locale escaping =
  fixes escape_char :: "char \<Rightarrow> string"
  assumes reads_back: "unesc (escape_char c @ s) = Some (c, s)"
    and no_quote: "escape_char c \<noteq> [] \<and> hd (escape_char c) \<noteq> CHR 0x22"
begin

lemma text_inj:
  "concat (map escape_char a) @ CHR 0x22 # s = concat (map escape_char b) @ CHR 0x22 # t \<Longrightarrow> a = b \<and> s = t"
proof (induction a arbitrary: b)
  case Nil
  then show ?case using no_quote [of "hd b"] by (cases b) (auto simp: Cons_eq_append_conv dest: arg_cong [of _ _ hd])
next
  case (Cons c a)
  show ?case
  proof (cases b)
    case Nil
    with Cons.prems show ?thesis using no_quote [of c] by (auto simp: append_eq_Cons_conv)
  next
    case b: (Cons d b')
    have "unesc (escape_char c @ concat (map escape_char a) @ CHR 0x22 # s) = unesc (escape_char d @ concat (map escape_char b') @ CHR 0x22 # t)"
      using Cons.prems b by simp
    then have "c = d" "concat (map escape_char a) @ CHR 0x22 # s = concat (map escape_char b') @ CHR 0x22 # t"
      by (simp_all add: reads_back)
    with Cons.IH b show ?thesis by auto
  qed
qed

end

lemma dumps_no_quote: "dumps_char c \<noteq> [] \<and> hd (dumps_char c) \<noteq> CHR 0x22"
  by (auto simp: dumps_char_def Let_def split: if_splits)

lemma esc_no_quote: "esc c \<noteq> [] \<and> hd (esc c) \<noteq> CHR 0x22"
  using dumps_no_quote [of c] by (simp add: esc_def)

interpretation html: escaping esc
  by (unfold_locales, rule unesc_esc, rule esc_no_quote)

subsection \<open>Numbers\<close>

definition number_char :: "char \<Rightarrow> bool" where
  "number_char c \<longleftrightarrow> ascii_digit c \<or> c \<in> {CHR ''-'', CHR ''+'', CHR ''.'', CHR ''e''}"

text \<open>What the encoder relies on of \<open>float.__repr__\<close>: different floats print differently, and a float
  never looks like an integer.\<close>

definition float_repr_ok :: "(rat \<Rightarrow> string) \<Rightarrow> bool" where
  "float_repr_ok fr \<longleftrightarrow> inj fr \<and>
     (\<forall>q. fr q \<noteq> [] \<and> list_all number_char (fr q) \<and> (CHR ''.'' \<in> set (fr q) \<or> CHR ''e'' \<in> set (fr q)) \<and>
        hd (fr q) \<noteq> CHR ''e'' \<and> hd (fr q) \<noteq> CHR ''.'' \<and> hd (fr q) \<noteq> CHR ''+'')"

text \<open>What may follow a value: the end of the text, a comma or a closing bracket.\<close>

definition stops :: "string \<Rightarrow> bool" where
  "stops s \<longleftrightarrow> s = [] \<or> hd s \<in> {CHR '','', CHR '']'', CHR ''}''}"

lemma json_stops_simps [simp]:
  "stops []" "stops (CHR '','' # s)" "stops (CHR '']'' # s)" "stops (CHR ''}'' # s)"
  by (simp_all add: stops_def)

lemma number_split:
  assumes "list_all number_char a" and "list_all number_char b" and "stops s" and "stops t" and "a @ s = b @ t"
  shows "a = b \<and> s = t"
proof -
  have cut: "takeWhile number_char (x @ y) = x" if "list_all number_char x" "stops y" for x y
    using that by (cases y) (auto simp: stops_def list_all_iff number_char_def ascii_digit_def takeWhile_append)
  from cut [OF assms(1,3)] cut [OF assms(2,4)] assms(5) have "a = b" by metis
  with assms(5) show ?thesis by simp
qed

lemma float_repr_okD:
  assumes "float_repr_ok fr"
  shows "list_all number_char (fr q) \<and> fr q \<noteq> [] \<and> (ascii_digit (hd (fr q)) \<or> hd (fr q) = CHR ''-'')"
proof -
  have a: "fr q \<noteq> []" "list_all number_char (fr q)" and h: "hd (fr q) \<noteq> CHR ''e''" "hd (fr q) \<noteq> CHR ''.''" "hd (fr q) \<noteq> CHR ''+''"
    using assms unfolding float_repr_ok_def by simp_all
  then have "number_char (hd (fr q))" by (simp add: list_all_iff)
  with a h show ?thesis by (simp add: number_char_def)
qed

lemma number_texts:
  assumes "float_repr_ok fr" and "j = JInt n \<or> j = JFloat q"
  shows "list_all number_char (plain st fr j)" and "plain st fr j \<noteq> []" and "ascii_digit (hd (plain st fr j)) \<or> hd (plain st fr j) = CHR ''-''"
proof -
  have f: "list_all number_char (fr q)" "fr q \<noteq> []" "ascii_digit (hd (fr q)) \<or> hd (fr q) = CHR ''-''"
    using float_repr_okD [OF assms(1), of q] by auto
  have i: "list_all number_char (py_str_int n)" "ascii_digit (hd (py_str_int n)) \<or> hd (py_str_int n) = CHR ''-''"
    using str_int_chars [of _ n] str_int_nonempty [of n] hd_in_set by (auto simp: list_all_iff number_char_def)
  show "list_all number_char (plain st fr j)" "plain st fr j \<noteq> []" "ascii_digit (hd (plain st fr j)) \<or> hd (plain st fr j) = CHR ''-''"
    using assms(2) f i str_int_nonempty by auto
qed

subsection \<open>The text determines the value\<close>

lemma separated_inj:
  assumes "\<And>x y s t. x \<in> set xs \<Longrightarrow> stops s \<Longrightarrow> stops t \<Longrightarrow> p x @ s = p y @ t \<Longrightarrow> x = y \<and> s = t"
    and "c \<in> {CHR '']'', CHR ''}''}"
    and "concat (map (\<lambda>x. CHR '','' # p x) xs) @ c # s = concat (map (\<lambda>x. CHR '','' # p x) ys) @ c # t"
  shows "xs = ys \<and> s = t"
  using assms(1,3)
proof (induction xs arbitrary: ys)
  case Nil
  then show ?case using assms(2) by (cases ys) auto
next
  case (Cons x xs)
  then obtain y ys' where ys: "ys = y # ys'" using assms(2) by (cases ys) auto
  have st: "stops (concat (map (\<lambda>x. CHR '','' # p x) zs) @ c # u)" for zs u
    using assms(2) by (cases zs) auto
  have "p x @ (concat (map (\<lambda>x. CHR '','' # p x) xs) @ c # s) = p y @ (concat (map (\<lambda>x. CHR '','' # p x) ys') @ c # t)"
    using Cons.prems(2) ys by simp
  from Cons.prems(1) [OF _ st st this] have xy: "x = y"
    and rest: "concat (map (\<lambda>x. CHR '','' # p x) xs) @ c # s = concat (map (\<lambda>x. CHR '','' # p x) ys') @ c # t" by auto
  from Cons.IH [OF _ rest] Cons.prems(1) xy ys show ?case by auto
qed

lemma commas_inj:
  assumes "\<And>x y s t. x \<in> set xs \<Longrightarrow> stops s \<Longrightarrow> stops t \<Longrightarrow> p x @ s = p y @ t \<Longrightarrow> x = y \<and> s = t"
    and "c \<in> {CHR '']'', CHR ''}''}" and "\<And>x. p x \<noteq> [] \<and> hd (p x) \<noteq> c"
    and "commas (map p xs) @ c # s = commas (map p ys) @ c # t"
  shows "xs = ys \<and> s = t"
proof (cases xs)
  case Nil
  show ?thesis
  proof (cases ys)
    case (Cons y ys')
    then have "hd (p y) = c" using assms(3) [of y] assms(4) Nil by (cases "p y") auto
    then show ?thesis using assms(3) by blast
  qed (use Nil assms(4) in simp)
next
  case (Cons x xs')
  show ?thesis
  proof (cases ys)
    case Nil
    with Cons assms(3) [of x] assms(4) show ?thesis by (auto simp: append_eq_Cons_conv)
  next
    case ys: (Cons y ys')
    have e: "concat (map (\<lambda>x. CHR '','' # p x) (x # xs')) @ c # s = concat (map (\<lambda>x. CHR '','' # p x) (y # ys')) @ c # t"
      using assms(4) Cons ys by (simp add: comp_def)
    have "x # xs' = y # ys' \<and> s = t"
    proof (rule separated_inj [OF _ assms(2) e])
      fix a b u w assume "a \<in> set (x # xs')" "stops u" "stops w" "p a @ u = p b @ w"
      then show "a = b \<and> u = w" using assms(1) [of a u w b] Cons by simp
    qed
    then show ?thesis using Cons ys by simp
  qed
qed

lemma number_inj:
  assumes fr: "float_repr_ok fr" and "plain st fr a = plain st fr b"
    and "a \<in> range JInt \<union> range JFloat" and "b \<in> range JInt \<union> range JFloat"
  shows "a = b"
proof -
  have mixed: "py_str_int n \<noteq> fr q" for n q
  proof
    assume e: "py_str_int n = fr q"
    have "CHR ''.'' \<in> set (fr q) \<or> CHR ''e'' \<in> set (fr q)" using fr unfolding float_repr_ok_def by simp
    then have "ascii_digit (CHR ''.'') \<or> ascii_digit (CHR ''e'')" using str_int_chars [of "CHR ''.''" n] str_int_chars [of "CHR ''e''" n] unfolding e by auto
    then show False by (simp add: ascii_digit_def)
  qed
  have "inj fr" using fr by (simp add: float_repr_ok_def)
  then show ?thesis
    using assms(2-4) mixed mixed [THEN not_sym] by (elim UnE rangeE) (simp_all add: str_int_inj inj_eq)
qed

definition number_json :: "json \<Rightarrow> bool" where
  "number_json j \<longleftrightarrow> j \<in> range JInt \<union> range JFloat"

lemma number_json_text:
  assumes "float_repr_ok fr" and "number_json j"
  shows "list_all number_char (plain st fr j)" and "plain st fr j \<noteq> []" and "ascii_digit (hd (plain st fr j)) \<or> hd (plain st fr j) = CHR ''-''"
  using assms(2) number_texts [OF assms(1), of j] by (auto simp: number_json_def)

text \<open>The first character tells the constructor, all numbers alike.\<close>

fun lead :: "json \<Rightarrow> char" where
  "lead (JObj _) = CHR ''{''"
| "lead (JArr _) = CHR ''[''"
| "lead (JStr _) = CHR 0x22"
| "lead (JBool b) = (if b then CHR ''t'' else CHR ''f'')"
| "lead JNull = CHR ''n''"
| "lead _ = CHR ''0''"

context escaping
begin

lemma quoted_inj: "quoted escape_char a @ s = quoted escape_char b @ t \<Longrightarrow> a = b \<and> s = t"
  using text_inj [of a s b t] by (simp add: quoted_def)

lemma plain_starts:
  assumes "float_repr_ok fr"
  shows "plain (quoted escape_char) fr j \<noteq> [] \<and> hd (plain (quoted escape_char) fr j) \<notin> {CHR '']'', CHR ''}''}"
proof (cases j)
  case (JInt n)
  with number_texts(2,3) [OF assms, of j n 0 "quoted escape_char"] show ?thesis by (auto simp: ascii_digit_def)
next
  case (JFloat q)
  with number_texts(2,3) [OF assms, of j 0 q "quoted escape_char"] show ?thesis by (auto simp: ascii_digit_def)
qed (auto simp: quoted_def)

lemma lead_plain:
  assumes "float_repr_ok fr"
  shows "if number_json j then ascii_digit (hd (plain (quoted escape_char) fr j)) \<or> hd (plain (quoted escape_char) fr j) = CHR ''-'' else hd (plain (quoted escape_char) fr j) = lead j"
  using number_json_text(3) [OF assms, of j "quoted escape_char"] by (cases j) (auto simp: number_json_def quoted_def)

lemma lead_eq:
  assumes "float_repr_ok fr" and "plain (quoted escape_char) fr a @ s = plain (quoted escape_char) fr b @ t"
  shows "number_json a = number_json b" and "\<not> number_json a \<Longrightarrow> lead a = lead b"
proof -
  have h: "hd (plain (quoted escape_char) fr a) = hd (plain (quoted escape_char) fr b)"
    using assms(2) plain_starts [OF assms(1)] by (metis hd_append2)
  have l: "\<not> ascii_digit (lead j) \<and> lead j \<noteq> CHR ''-''" if "\<not> number_json j" for j
    using that by (cases j) (auto simp: number_json_def ascii_digit_def)
  show n: "number_json a = number_json b" and "\<not> number_json a \<Longrightarrow> lead a = lead b"
    using h lead_plain [OF assms(1), of a] lead_plain [OF assms(1), of b] l [of a] l [of b] by (auto split: if_splits)
qed

lemma plain_inj:
  assumes fr: "float_repr_ok fr" and "stops s" "stops t" "plain (quoted escape_char) fr a @ s = plain (quoted escape_char) fr b @ t"
  shows "a = b \<and> s = t"
  using assms(2-)
proof (induction a arbitrary: b s t)
  case (JArr xs)
  then obtain ys where b: "b = JArr ys" using lead_eq [OF fr JArr.prems(3)] by (cases b) (auto simp: number_json_def split: if_splits)
  have "commas (map (plain (quoted escape_char) fr) xs) @ CHR '']'' # s = commas (map (plain (quoted escape_char) fr) ys) @ CHR '']'' # t" using JArr.prems(3) b by simp
  then have "xs = ys \<and> s = t"
  proof (rule commas_inj [rotated 3])
    show "x = y \<and> u = w" if "x \<in> set xs" "stops u" "stops w" "plain (quoted escape_char) fr x @ u = plain (quoted escape_char) fr y @ w" for x y u w
      using JArr.IH [OF that] .
    show "plain (quoted escape_char) fr x \<noteq> [] \<and> hd (plain (quoted escape_char) fr x) \<noteq> CHR '']''" for x using plain_starts [OF fr, of x] by simp
  qed simp
  then show ?case using b by simp
next
  case (JObj kvs)
  then obtain kws where b: "b = JObj kws" using lead_eq [OF fr JObj.prems(3)] by (cases b) (auto simp: number_json_def split: if_splits)
  let ?p = "\<lambda>(k, v). quoted escape_char k @ '':'' @ plain (quoted escape_char) fr v"
  have e: "commas (map ?p kvs) @ CHR ''}'' # s = commas (map ?p kws) @ CHR ''}'' # t" using JObj.prems(3) b by simp
  have "kvs = kws \<and> s = t"
  proof (rule commas_inj [OF _ _ _ e])
    fix x y s t assume x: "x \<in> set kvs" and st: "stops s" "stops t" and xy: "?p x @ s = ?p y @ t"
    obtain k v where k: "x = (k, v)" by (cases x)
    obtain l w where l: "y = (l, w)" by (cases y)
    have "k = l \<and> '':'' @ plain (quoted escape_char) fr v @ s = '':'' @ plain (quoted escape_char) fr w @ t"
      using xy k l by (intro quoted_inj) simp
    moreover have "v \<in> Basic_BNFs.snds x" using k by simp
    ultimately show "x = y \<and> s = t" using JObj.IH [OF x _ st, of v w] k l by auto
  qed (auto simp: quoted_def split: prod.splits)
  then show ?case using b by simp
next
  case (JInt n)
  then have "number_json b" using lead_eq(1) [OF fr JInt.prems(3)] by (simp add: number_json_def)
  have "plain (quoted escape_char) fr (JInt n) = plain (quoted escape_char) fr b \<and> s = t"
    by (rule number_split [OF number_json_text(1) [OF fr] number_json_text(1) [OF fr] JInt.prems]) (use \<open>number_json b\<close> in \<open>auto simp: number_json_def\<close>)
  then show ?case using number_inj [OF fr, of "quoted escape_char" "JInt n" b] \<open>number_json b\<close> by (auto simp: number_json_def)
next
  case (JFloat q)
  then have "number_json b" using lead_eq(1) [OF fr JFloat.prems(3)] by (simp add: number_json_def)
  have "plain (quoted escape_char) fr (JFloat q) = plain (quoted escape_char) fr b \<and> s = t"
    by (rule number_split [OF number_json_text(1) [OF fr] number_json_text(1) [OF fr] JFloat.prems]) (use \<open>number_json b\<close> in \<open>auto simp: number_json_def\<close>)
  then show ?case using number_inj [OF fr, of "quoted escape_char" "JFloat q" b] \<open>number_json b\<close> by (auto simp: number_json_def)
next
  case (JStr u)
  then obtain w where b: "b = JStr w" using lead_eq [OF fr JStr.prems(3)] by (cases b) (auto simp: number_json_def split: if_splits)
  then show ?case using JStr.prems(3) quoted_inj [of u s w t] by simp
next
  case (JBool c)
  then obtain d where b: "b = JBool d" using lead_eq [OF fr JBool.prems(3)] by (cases b) (auto simp: number_json_def split: if_splits)
  then show ?case using JBool.prems(3) by (auto split: if_splits)
next
  case JNull
  then have "b = JNull" using lead_eq [OF fr JNull.prems(3)] by (cases b) (auto simp: number_json_def split: if_splits)
  then show ?case using JNull.prems(3) by simp
qed

lemma dumps_inj: "float_repr_ok fr \<Longrightarrow> dumps (quoted escape_char) fr a = dumps (quoted escape_char) fr b \<longleftrightarrow> canon a = canon b"
  using plain_inj [of fr "[]" "[]" "canon a" "canon b"] by (auto simp: dumps_plain)

end

lemma encode_inj: "float_repr_ok fr \<Longrightarrow> encode fr a = encode fr b \<longleftrightarrow> canon a = canon b"
  unfolding encode_def encode_str_esc by (rule html.dumps_inj)

lemma sort_key_fst_unique:
  assumes "distinct (map fst a)" and "distinct (map fst b)" and "set a = set b"
  shows "sort_key fst a = sort_key fst b"
proof (rule map_sorted_distinct_set_unique [where f = fst])
  show "inj_on fst (set (sort_key fst a) \<union> set (sort_key fst b))"
    using assms by (simp add: distinct_map)
  have "distinct (map fst (sort_key fst c))" if "distinct (map fst c)" for c :: "('a \<times> 'b) list"
    using that by (simp add: distinct_map)
  then show "distinct (map fst (sort_key fst a))" "distinct (map fst (sort_key fst b))" using assms by blast+
qed (use assms in simp_all)

text \<open>
  C40. The canonical text of the arguments determines them. Two argument dictionaries have the same text
  exactly when they are the same value up to the order of keys, at any depth: no choice of strings,
  numbers or nesting lets one set of arguments pass for another; and the order in which the caller
  inserted the keys makes no difference.
\<close>

theorem canonical_json_determines_args:
  assumes "float_repr_ok fr"
  shows "(canonical_json fr a = canonical_json fr b \<longleftrightarrow> canon (JObj a) = canon (JObj b)) \<and>
    (distinct (map fst a) \<longrightarrow> distinct (map fst b) \<longrightarrow> set a = set b \<longrightarrow> canonical_json fr a = canonical_json fr b)"
proof (intro conjI impI)
  show "canonical_json fr a = canonical_json fr b \<longleftrightarrow> canon (JObj a) = canon (JObj b)"
    unfolding canonical_json_def by (rule encode_inj [OF assms])
  show "canonical_json fr a = canonical_json fr b" if "distinct (map fst a)" "distinct (map fst b)" "set a = set b"
    using sort_key_fst_unique [OF that] by (simp add: canonical_json_def encode_def)
qed

definition demo_float_repr :: "rat \<Rightarrow> string" where
  "demo_float_repr q = py_str_int (fst (quotient_of q)) @ ''.'' @ py_str_int (snd (quotient_of q))"

lemma demo_float_repr_ok: "float_repr_ok demo_float_repr"
proof -
  have nodot: "CHR ''.'' \<notin> set (py_str_int n)" for n
    using str_int_chars [of "CHR ''.''" n] by (auto simp: ascii_digit_def)
  have tw: "takeWhile (\<lambda>c. c \<noteq> CHR ''.'') (py_str_int m @ CHR ''.'' # s) = py_str_int m" for m s
    using nodot [of m] by (induction "py_str_int m") (auto simp: takeWhile_append)
  have "inj demo_float_repr"
  proof (rule injI)
    fix x y assume e: "demo_float_repr x = demo_float_repr y"
    then have f: "py_str_int (fst (quotient_of x)) = py_str_int (fst (quotient_of y))"
      unfolding demo_float_repr_def by (metis append_Cons append_Nil tw)
    with e have "py_str_int (snd (quotient_of x)) = py_str_int (snd (quotient_of y))"
      by (simp add: demo_float_repr_def)
    with f have "quotient_of x = quotient_of y" by (simp add: prod_eq_iff str_int_inj)
    then show "x = y" by (rule quotient_of_inject)
  qed
  moreover have "list_all number_char (py_str_int n)" for n
    using str_int_chars [of _ n] by (auto simp: list_all_iff number_char_def)
  moreover have "hd (py_str_int n) \<noteq> CHR ''e'' \<and> hd (py_str_int n) \<noteq> CHR ''.'' \<and> hd (py_str_int n) \<noteq> CHR ''+''" for n
    using str_int_chars [of "hd (py_str_int n)" n] str_int_nonempty [of n] by (auto simp: ascii_digit_def)
  ultimately show ?thesis
    by (simp add: float_repr_ok_def demo_float_repr_def str_int_nonempty number_char_def)
qed

theorem canonical_json_determines_args_witness:
  "canonical_json demo_float_repr [(''b'', JInt 1), (''a'', JStr ''<x>'')] = canonical_json demo_float_repr [(''a'', JStr ''<x>''), (''b'', JInt 1)] \<and>
   canonical_json demo_float_repr [(''a'', JStr ''1'')] \<noteq> canonical_json demo_float_repr [(''a'', JInt 1)]"
  using canonical_json_determines_args [OF demo_float_repr_ok, of "[(''b'', JInt 1), (''a'', JStr ''<x>'')]" "[(''a'', JStr ''<x>''), (''b'', JInt 1)]"]
    canonical_json_determines_args [OF demo_float_repr_ok, of "[(''a'', JStr ''1'')]" "[(''a'', JInt 1)]"]
  by auto

end
