(* ===== verification/Semantic_Request.thy ===== *)
theory Semantic_Request
  imports Semantic_Validate Semantic_Time Semantic_Render Canonical_Json
begin

text \<open>
  Compile requests (\<open>services/semantic-service/app/compiler/compiler.py\<close>): the request record, the gate that
  every name of a request passes before any model lookup (\<open>normalize_request\<close>), and the order in which
  filters are compiled. A request body is the decoded dictionary. \<open>float_repr\<close> is how Python prints a float
  and \<open>sha256_hex\<close> the hash.
\<close>

subsection \<open>Requests\<close>

record dim_ref =
  dr_name :: string
  dr_grain :: "string option"

record filter_spec =
  fs_dimension :: string
  fs_op :: string
  fs_values :: "json list"

record having_spec =
  hs_metric :: string
  hs_op :: string
  hs_value :: json

record order_spec =
  os_name :: string
  os_desc :: bool

record time_range =
  tr_dimension :: string
  tr_start :: json
  tr_end :: json
  tr_relative :: json

record compile_request =
  cq_metrics :: "string list"
  cq_dimensions :: "dim_ref list"
  cq_filters :: "filter_spec list"
  cq_time_range :: "time_range option"
  cq_order_by :: "order_spec list"
  cq_limit :: json
  cq_having :: "having_spec list"
  cq_join_paths :: "string list"
  cq_order_within_group :: "string option"

record compile_limits =
  cl_max_metrics :: int
  cl_max_dimensions :: int
  cl_limit_cap :: int

definition FILTER_OPS :: "string list" where
  "FILTER_OPS = [''='', ''!='', ''>'', ''>='', ''<'', ''<='', ''IN'', ''NOT IN'', ''BETWEEN'', ''LIKE'', ''IS NULL'', ''IS NOT NULL'']"

definition HAVING_OPS :: "string list" where
  "HAVING_OPS = [''='', ''!='', ''>'', ''>='', ''<'', ''<='']"

subsection \<open>The gate\<close>

definition gate :: "semantic_error \<Rightarrow> json \<Rightarrow> semantic_error + string" where
  "gate e v = (case v of JStr s \<Rightarrow> if name_ok s then Inr s else Inl e | _ \<Rightarrow> Inl e)"

definition scalar :: "json \<Rightarrow> semantic_error + json" where
  "scalar v = (if hashable v then Inr v else Inl Validation_failed)"

definition norm_metrics :: "compile_limits \<Rightarrow> json \<Rightarrow> semantic_error + string list" where
  "norm_metrics settings v =
     (case or_else v (JArr []) of
        JArr vs \<Rightarrow>
          if vs = [] then Inl Validation_failed
          else bindR (foldR (\<lambda>m acc. bindR (gate Unknown_metric m) (\<lambda>n. Inr (add_new n acc))) vs [])
                 (\<lambda>ms. bindR (guardR (int (length ms) \<le> cl_max_metrics settings) Limit_exceeded) (\<lambda>_. Inr ms))
      | _ \<Rightarrow> Inl Validation_failed)"

definition norm_dim :: "json \<Rightarrow> dim_ref list \<Rightarrow> semantic_error + dim_ref list" where
  "norm_dim v acc =
     bindR (case v of JStr s \<Rightarrow> Inr [(''name'', v)] | _ \<Rightarrow> as_obj v) (\<lambda>d.
     bindR (gate Unknown_dimension (jget d ''name'')) (\<lambda>name.
     bindR (case jget d ''grain'' of
              JNull \<Rightarrow> Inr None
            | JStr g \<Rightarrow> if g \<in> set TIME_GRAINS then Inr (Some g) else Inl Unknown_grain
            | _ \<Rightarrow> Inl Unknown_grain) (\<lambda>grain.
     Inr (if name \<in> set (map dr_name acc) then acc else acc @ [\<lparr>dr_name = name, dr_grain = grain\<rparr>]))))"

definition norm_dims :: "compile_limits \<Rightarrow> json \<Rightarrow> semantic_error + dim_ref list" where
  "norm_dims settings v =
     bindR (items_of v) (\<lambda>vs.
     bindR (foldR norm_dim vs []) (\<lambda>ds.
     bindR (guardR (int (length ds) \<le> cl_max_dimensions settings) Limit_exceeded) (\<lambda>_. Inr ds)))"

definition values_ok :: "string \<Rightarrow> json list \<Rightarrow> bool" where
  "values_ok op vs \<longleftrightarrow>
     (op \<in> set [''IS NULL'', ''IS NOT NULL''] \<longrightarrow> vs = []) \<and> (op = ''BETWEEN'' \<longrightarrow> length vs = 2) \<and>
     (op \<in> set [''IN'', ''NOT IN''] \<longrightarrow> vs \<noteq> []) \<and>
     (op \<in> set [''='', ''!='', ''>'', ''>='', ''<'', ''<='', ''LIKE''] \<longrightarrow> length vs = 1) \<and>
     (op = ''LIKE'' \<longrightarrow> (case vs of [JStr _] \<Rightarrow> True | _ \<Rightarrow> False))"

definition norm_filter :: "json \<Rightarrow> semantic_error + filter_spec" where
  "norm_filter v =
     bindR (as_obj v) (\<lambda>f.
     bindR (gate Unknown_dimension (jget f ''dimension'')) (\<lambda>dimension.
     bindR (one_of FILTER_OPS (jget f ''op'')) (\<lambda>op.
     bindR (mapR scalar (case jget f ''values'' of JNull \<Rightarrow> [] | JArr vs \<Rightarrow> vs | w \<Rightarrow> [w])) (\<lambda>vs.
     bindR (guardR (values_ok op vs) Validation_failed) (\<lambda>_.
     Inr \<lparr>fs_dimension = dimension, fs_op = op, fs_values = vs\<rparr>)))))"

definition norm_time_range :: "json \<Rightarrow> semantic_error + time_range option" where
  "norm_time_range v =
     (if \<not> jtruthy v then Inr None
      else
        bindR (as_obj v) (\<lambda>tr.
        bindR (gate Unknown_dimension (jget tr ''dimension'')) (\<lambda>dimension.
        bindR (guardR (\<not> (jget tr ''relative'' = JNull \<and> \<not> (jtruthy (jget tr ''start'') \<and> jtruthy (jget tr ''end''))))
                 Validation_failed) (\<lambda>_.
        Inr (Some \<lparr>tr_dimension = dimension, tr_start = jget tr ''start'', tr_end = jget tr ''end'',
                   tr_relative = jget tr ''relative''\<rparr>)))))"

definition norm_order :: "json \<Rightarrow> semantic_error + order_spec" where
  "norm_order v =
     bindR (case v of
              JStr s \<Rightarrow> Inr [(''name'', JStr (dropWhile (\<lambda>c. c = CHR ''-'') s)), (''desc'', JBool (take 1 s = ''-''))]
            | _ \<Rightarrow> as_obj v) (\<lambda>d.
     bindR (gate Validation_failed (jget d ''name'')) (\<lambda>name.
     Inr \<lparr>os_name = name, os_desc = jtruthy (jget d ''desc'')\<rparr>))"

definition norm_having :: "json \<Rightarrow> semantic_error + having_spec" where
  "norm_having v =
     bindR (as_obj v) (\<lambda>h.
     bindR (one_of HAVING_OPS (jget h ''op'')) (\<lambda>op.
     bindR (gate Unknown_metric (jget h ''metric'')) (\<lambda>metric.
     bindR (scalar (jget h ''value'')) (\<lambda>value.
     Inr \<lparr>hs_metric = metric, hs_op = op, hs_value = value\<rparr>))))"

definition int_of :: "json \<Rightarrow> int option" where
  "int_of v = (case v of JInt n \<Rightarrow> Some n | JBool b \<Rightarrow> Some (if b then 1 else 0) | _ \<Rightarrow> None)"

definition norm_limit :: "compile_limits \<Rightarrow> json \<Rightarrow> semantic_error + json" where
  "norm_limit settings v =
     (if v = JNull then Inr v
      else (case int_of v of
              None \<Rightarrow> Inl Validation_failed
            | Some n \<Rightarrow> if n < 1 then Inl Validation_failed
                else if n > cl_limit_cap settings then Inl Limit_exceeded else Inr v))"

definition norm_owg :: "json \<Rightarrow> semantic_error + string option" where
  "norm_owg v = (if v = JNull then Inr None else bindR (gate Validation_failed v) (\<lambda>s. Inr (Some s)))"

definition normalize_request :: "compile_limits \<Rightarrow> jobj \<Rightarrow> semantic_error + compile_request" where
  "normalize_request settings body =
     bindR (norm_metrics settings (jget body ''metrics'')) (\<lambda>ms.
     bindR (norm_dims settings (jget body ''dimensions'')) (\<lambda>ds.
     bindR (bindR (items_of (jget body ''filters'')) (mapR norm_filter)) (\<lambda>fs.
     bindR (norm_time_range (jget body ''time_range'')) (\<lambda>tr.
     bindR (bindR (items_of (jget body ''order_by'')) (mapR norm_order)) (\<lambda>ords.
     bindR (bindR (items_of (jget body ''having'')) (mapR norm_having)) (\<lambda>hs.
     bindR (norm_limit settings (jget body ''limit'')) (\<lambda>lm.
     bindR (bindR (items_of (jget body ''join_paths'')) (mapR (gate Validation_failed))) (\<lambda>jps.
     bindR (norm_owg (jget body ''order_within_group'')) (\<lambda>owg.
     Inr \<lparr>cq_metrics = ms, cq_dimensions = ds, cq_filters = fs, cq_time_range = tr, cq_order_by = ords, cq_limit = lm,
          cq_having = hs, cq_join_paths = jps, cq_order_within_group = owg\<rparr>)))))))))"

subsection \<open>The order of filters\<close>

definition ascii_char :: "char \<Rightarrow> string" where
  "ascii_char c =
     (let n = of_char c :: nat
      in if n > 126 then CHR 0x5C # ''u00'' @ [hex_digit (n div 16), hex_digit (n mod 16)] else dumps_char c)"

text \<open>\<open>canonical_json\<close> of \<open>utils.py\<close>: sorted keys, compact, every character outside printable ASCII escaped.\<close>

definition canonical_text :: "(rat \<Rightarrow> string) \<Rightarrow> json \<Rightarrow> string" where
  "canonical_text float_repr doc = dumps (quoted ascii_char) float_repr doc"

definition filter_key :: "(rat \<Rightarrow> string) \<Rightarrow> filter_spec \<Rightarrow> string \<times> string \<times> string" where
  "filter_key float_repr f = (fs_dimension f, fs_op f, canonical_text float_repr (JArr (fs_values f)))"

definition sorted_filters :: "(rat \<Rightarrow> string) \<Rightarrow> compile_request \<Rightarrow> filter_spec list" where
  "sorted_filters float_repr req = sort_key (filter_key float_repr) (cq_filters req)"

definition canonical :: "(rat \<Rightarrow> string) \<Rightarrow> compile_request \<Rightarrow> json" where
  "canonical float_repr req = JObj
     [(''metrics'', JArr (map JStr (cq_metrics req))),
      (''dimensions'', JArr (map (\<lambda>d. JObj [(''name'', JStr (dr_name d)), (''grain'', jopt (dr_grain d))]) (cq_dimensions req))),
      (''filters'', JArr (map (\<lambda>f. JObj [(''dimension'', JStr (fs_dimension f)), (''op'', JStr (fs_op f)), (''values'', JArr (fs_values f))])
         (sorted_filters float_repr req))),
      (''time_range'', case cq_time_range req of None \<Rightarrow> JNull
         | Some t \<Rightarrow> JObj [(''dimension'', JStr (tr_dimension t)), (''start'', tr_start t), (''end'', tr_end t), (''relative'', tr_relative t)]),
      (''order_by'', JArr (map (\<lambda>x. JObj [(''name'', JStr (os_name x)), (''desc'', JBool (os_desc x))]) (cq_order_by req))),
      (''limit'', cq_limit req),
      (''having'', JArr (map (\<lambda>h. JObj [(''metric'', JStr (hs_metric h)), (''op'', JStr (hs_op h)), (''value'', hs_value h)]) (cq_having req))),
      (''join_paths'', JArr (map JStr (cq_join_paths req))),
      (''order_within_group'', jopt (cq_order_within_group req))]"

definition request_hash :: "(string \<Rightarrow> string) \<Rightarrow> (rat \<Rightarrow> string) \<Rightarrow> compile_request \<Rightarrow> string" where
  "request_hash sha256_hex float_repr req = sha256_hex (canonical_text float_repr (canonical float_repr req))"

subsection \<open>What passes the gate\<close>

definition filter_ok :: "filter_spec \<Rightarrow> bool" where
  "filter_ok f \<longleftrightarrow> name_ok (fs_dimension f) \<and> fs_op f \<in> set FILTER_OPS \<and> list_all hashable (fs_values f) \<and> values_ok (fs_op f) (fs_values f)"

definition having_ok :: "having_spec \<Rightarrow> bool" where
  "having_ok h \<longleftrightarrow> name_ok (hs_metric h) \<and> hs_op h \<in> set HAVING_OPS \<and> hashable (hs_value h)"

definition request_ok :: "compile_limits \<Rightarrow> compile_request \<Rightarrow> bool" where
  "request_ok settings q \<longleftrightarrow>
     cq_metrics q \<noteq> [] \<and> distinct (cq_metrics q) \<and> list_all name_ok (cq_metrics q) \<and> int (length (cq_metrics q)) \<le> cl_max_metrics settings \<and>
     distinct (map dr_name (cq_dimensions q)) \<and> int (length (cq_dimensions q)) \<le> cl_max_dimensions settings \<and>
     (\<forall>d \<in> set (cq_dimensions q). name_ok (dr_name d) \<and> set_option (dr_grain d) \<subseteq> set TIME_GRAINS) \<and>
     (\<forall>f \<in> set (cq_filters q). filter_ok f) \<and> (\<forall>h \<in> set (cq_having q). having_ok h) \<and>
     (\<forall>tr \<in> set_option (cq_time_range q). name_ok (tr_dimension tr)) \<and>
     (\<forall>x \<in> set (cq_order_by q). name_ok (os_name x)) \<and> list_all name_ok (cq_join_paths q) \<and>
     (\<forall>n \<in> set_option (cq_order_within_group q). name_ok n) \<and>
     (cq_limit q = JNull \<or> (\<exists>n. int_of (cq_limit q) = Some n \<and> 1 \<le> n \<and> n \<le> cl_limit_cap settings))"

lemma gate_Inr [parse_simps]: "gate e v = Inr s \<longleftrightarrow> v = JStr s \<and> name_ok s"
  by (cases v) (auto simp: gate_def)

lemma scalar_Inr [parse_simps]: "scalar v = Inr w \<longleftrightarrow> w = v \<and> hashable v"
  by (auto simp: scalar_def)

lemma mapR_all: "mapR f vs = Inr ys \<Longrightarrow> (\<And>v y. f v = Inr y \<Longrightarrow> P y) \<Longrightarrow> \<forall>y \<in> set ys. P y"
  by (induction vs arbitrary: ys) (auto simp: bindR_eq_Inr)

lemma norm_metrics_ok:
  assumes "norm_metrics settings v = Inr ms"
  shows "ms \<noteq> [] \<and> distinct ms \<and> list_all name_ok ms \<and> int (length ms) \<le> cl_max_metrics settings"
proof -
  let ?f = "\<lambda>m acc. bindR (gate Unknown_metric m) (\<lambda>n. Inr (add_new n acc))"
  obtain vs where vs: "vs \<noteq> []" "foldR ?f vs [] = Inr ms" and l: "int (length ms) \<le> cl_max_metrics settings"
    using assms by (auto simp: norm_metrics_def bindR_eq_Inr parse_simps split: json.splits if_splits)
  have "distinct ms \<and> list_all name_ok ms"
    using vs(2) by (rule foldR_keeps [where P = "\<lambda>ms. distinct ms \<and> list_all name_ok ms"])
      (auto simp: bindR_eq_Inr parse_simps add_new_def)
  moreover have "ms \<noteq> []"
  proof -
    obtain w ws where w: "vs = w # ws" using vs(1) by (cases vs) auto
    then obtain n where "foldR ?f ws [n] = Inr ms" using vs(2) by (auto simp: bindR_eq_Inr add_new_def)
    then show ?thesis by (rule foldR_keeps) (auto simp: bindR_eq_Inr add_new_def split: if_splits)
  qed
  ultimately show ?thesis using l by simp
qed

lemma norm_dims_ok:
  assumes "norm_dims settings v = Inr ds"
  shows "distinct (map dr_name ds) \<and> int (length ds) \<le> cl_max_dimensions settings \<and>
    (\<forall>d \<in> set ds. name_ok (dr_name d) \<and> set_option (dr_grain d) \<subseteq> set TIME_GRAINS)"
proof -
  obtain vs where vs: "foldR norm_dim vs [] = Inr ds" and l: "int (length ds) \<le> cl_max_dimensions settings"
    using assms by (auto simp: norm_dims_def bindR_eq_Inr parse_simps)
  have "distinct (map dr_name ds) \<and> (\<forall>d \<in> set ds. name_ok (dr_name d) \<and> set_option (dr_grain d) \<subseteq> set TIME_GRAINS)"
    using vs by (rule foldR_keeps [where P = "\<lambda>ds. distinct (map dr_name ds) \<and>
        (\<forall>d \<in> set ds. name_ok (dr_name d) \<and> set_option (dr_grain d) \<subseteq> set TIME_GRAINS)"])
      (auto simp: norm_dim_def bindR_eq_Inr parse_simps split: json.splits if_splits)
  then show ?thesis using l by simp
qed

lemma norm_filter_ok: "norm_filter v = Inr f \<Longrightarrow> filter_ok f"
  by (auto simp: norm_filter_def filter_ok_def bindR_eq_Inr parse_simps list_all_iff dest: mapR_all [where P = hashable])

lemma norm_having_ok: "norm_having v = Inr h \<Longrightarrow> having_ok h"
  by (auto simp: norm_having_def having_ok_def bindR_eq_Inr parse_simps)

lemma norm_order_ok: "norm_order v = Inr x \<Longrightarrow> name_ok (os_name x)"
  by (auto simp: norm_order_def bindR_eq_Inr parse_simps)

lemma norm_time_range_ok: "norm_time_range v = Inr tr \<Longrightarrow> \<forall>t \<in> set_option tr. name_ok (tr_dimension t)"
  by (auto simp: norm_time_range_def bindR_eq_Inr parse_simps split: if_splits)

lemma norm_limit_ok: "norm_limit settings v = Inr w \<Longrightarrow> w = JNull \<or> (\<exists>n. int_of w = Some n \<and> 1 \<le> n \<and> n \<le> cl_limit_cap settings)"
  by (auto simp: norm_limit_def split: if_splits option.splits)

lemma norm_owg_ok: "norm_owg v = Inr w \<Longrightarrow> \<forall>n \<in> set_option w. name_ok n"
  by (auto simp: norm_owg_def bindR_eq_Inr parse_simps split: if_splits)

lemma normalize_request_ok:
  assumes "normalize_request settings body = Inr q"
  shows "request_ok settings q"
proof -
  obtain ms ds fs tr ords hs lm jps owg fv ov hv jv where r:
      "norm_metrics settings (jget body ''metrics'') = Inr ms" "norm_dims settings (jget body ''dimensions'') = Inr ds"
      "mapR norm_filter fv = Inr fs" "norm_time_range (jget body ''time_range'') = Inr tr" "mapR norm_order ov = Inr ords"
      "mapR norm_having hv = Inr hs" "norm_limit settings (jget body ''limit'') = Inr lm"
      "mapR (gate Validation_failed) jv = Inr jps" "norm_owg (jget body ''order_within_group'') = Inr owg"
    and q: "q = \<lparr>cq_metrics = ms, cq_dimensions = ds, cq_filters = fs, cq_time_range = tr, cq_order_by = ords, cq_limit = lm,
          cq_having = hs, cq_join_paths = jps, cq_order_within_group = owg\<rparr>"
    using assms unfolding normalize_request_def bindR_eq_Inr by blast
  have "\<forall>n \<in> set jps. name_ok n" by (rule mapR_all [OF r(8)]) (simp add: parse_simps)
  then show ?thesis
    using norm_metrics_ok [OF r(1)] norm_dims_ok [OF r(2)] mapR_all [where P = filter_ok, OF r(3) norm_filter_ok] norm_time_range_ok [OF r(4)]
      mapR_all [where P = "\<lambda>x. name_ok (os_name x)", OF r(5) norm_order_ok] mapR_all [where P = having_ok, OF r(6) norm_having_ok]
      norm_limit_ok [OF r(7)] norm_owg_ok [OF r(9)]
    by (simp add: request_ok_def q list_all_iff)
qed

text \<open>C29. Every name of a request has passed the identifier gate before the model is looked at, every operator is
  from the closed lists and has the values it needs, metrics and dimensions are without repeats and within their
  limits, and the row limit is within its cap.\<close>
theorem normalized_request_gated:
  assumes "normalize_request settings body = Inr q"
  shows "request_ok settings q"
  using assms by (rule normalize_request_ok)

definition demo_limits :: compile_limits where
  "demo_limits = \<lparr>cl_max_metrics = 20, cl_max_dimensions = 10, cl_limit_cap = 50000\<rparr>"

definition demo_body :: jobj where
  "demo_body = [(''metrics'', JArr [JStr ''revenue'', JStr ''buyers'', JStr ''revenue'']), (''dimensions'', JArr [JStr ''region'']),
     (''filters'', JArr [JObj [(''dimension'', JStr ''region''), (''op'', JStr ''IN''), (''values'', JArr [JStr ''eu'', JStr ''us''])]]),
     (''order_by'', JArr [JStr ''-revenue'']), (''limit'', JInt 100)]"

theorem normalized_request_gated_witness:
  "\<exists>q. normalize_request demo_limits demo_body = Inr q \<and> request_ok demo_limits q \<and> cq_metrics q = [''revenue'', ''buyers'']"
proof -
  have "case normalize_request demo_limits demo_body of Inl _ \<Rightarrow> False | Inr q \<Rightarrow> cq_metrics q = [''revenue'', ''buyers'']" by code_simp
  then obtain q where "normalize_request demo_limits demo_body = Inr q" "cq_metrics q = [''revenue'', ''buyers'']" by (auto split: sum.splits)
  then show ?thesis using normalized_request_gated by blast
qed

end
