(* ===== verification/Semantic_Compiler.thy ===== *)
theory Semantic_Compiler
  imports Semantic_Request
begin

text \<open>
  The metric compiler (\<open>Compiler\<close> in \<open>services/semantic-service/app/compiler/compiler.py\<close>): a request over a
  parsed model becomes SQL text with bind parameters. One definition per method, in the order of the class;
  \<open>compile_state\<close> holds what the methods mutate, the list of warnings and the bind parameters.

  The SQL is the text the code builds, character by character. A warning is a constructor with the names
  its text shows. How Python prints a float and any other JSON value are \<open>co_float_repr\<close> and
  \<open>co_str_of\<close>; the current date comes from \<open>co_today_in\<close>. \<open>render_res\<close> is \<open>render_ast\<close> with a resolver that may raise. The methods that follow
  references between derived measures recurse to a depth the number of measures bounds; beyond it Python
  raises \<open>RecursionError\<close>.
\<close>

subsection \<open>State\<close>

datatype warning = Deprecated_measure string json | Deprecated_dimension string json | Limit_clamped int

type_synonym resolved_range = "string \<times> json \<times> json \<times> string"

record compile_state =
  cs_warnings :: "warning list"
  cs_params :: "(string \<times> json) list"

type_synonym 'a comp = "(compile_state, semantic_error, 'a) eff"

record compiler =
  co_defn :: model_def
  co_broken :: "string list"
  co_today_in :: "string \<Rightarrow> date option"
  co_timezone :: string
  co_float_repr :: "rat \<Rightarrow> string"
  co_str_of :: "json \<Rightarrow> string"

record compiled =
  cd_sql :: string
  cd_params :: "(string \<times> json) list"
  cd_dialect :: string
  cd_output_schema :: "(string \<times> json \<times> string) list"
  cd_measures :: "string list"
  cd_dimensions :: "string list"
  cd_join_paths :: "string list"
  cd_time_range_resolved :: "resolved_range option"
  cd_warnings :: "warning list"

definition warn :: "warning \<Rightarrow> unit comp" where
  "warn w s = (Inr (), if w \<in> set (cs_warnings s) then s else s\<lparr>cs_warnings := cs_warnings s @ [w]\<rparr>)"

definition bind :: "json \<Rightarrow> string \<Rightarrow> string comp" where
  "bind value ptype s =
     (Inr (CHR ''$'' # py_str_nat (Suc (length (cs_params s)))), s\<lparr>cs_params := cs_params s @ [(ptype, value)]\<rparr>)"

definition ptype_of :: "json \<Rightarrow> string option \<Rightarrow> string" where
  "ptype_of value dim_type =
     (case value of
        JBool _ \<Rightarrow> ''boolean''
      | JInt _ \<Rightarrow> ''integer''
      | JFloat _ \<Rightarrow> ''number''
      | JStr s \<Rightarrow> if dim_type = Some ''time'' then (if length s = 10 then ''date'' else ''timestamp'') else ''string''
      | _ \<Rightarrow> ''string'')"

subsection \<open>Resolution\<close>

definition the_measure :: "compiler \<Rightarrow> string \<Rightarrow> measure comp" where
  "the_measure C name =
     (case map_of (md_measures (co_defn C)) name of
        None \<Rightarrow> raiseE Unknown_metric
      | Some m \<Rightarrow>
          if name \<in> set (co_broken C) then raiseE (Model_unhealthy name)
          else if ms_deprecated m then bindE (warn (Deprecated_measure name (ms_successor m))) (\<lambda>_. returnE m)
          else returnE m)"

definition the_dimension :: "compiler \<Rightarrow> string \<Rightarrow> dimension comp" where
  "the_dimension C name =
     (case map_of (md_dimensions (co_defn C)) name of
        None \<Rightarrow> raiseE Unknown_dimension
      | Some d \<Rightarrow>
          if name \<in> set (co_broken C) then raiseE (Model_unhealthy name)
          else if dm_deprecated d then bindE (warn (Deprecated_dimension name (dm_successor d))) (\<lambda>_. returnE d)
          else returnE d)"

fun base_measures :: "nat \<Rightarrow> compiler \<Rightarrow> string \<Rightarrow> string list \<Rightarrow> string list comp" where
  "base_measures 0 C name seen = raiseE Py_recursion_error"
| "base_measures (Suc n) C name seen =
     (if name \<in> set seen then raiseE Validation_failed
      else bindE (the_measure C name) (\<lambda>m.
        case ms_expr_metric_ast m of
          None \<Rightarrow> returnE [name]
        | Some ast \<Rightarrow>
            bindE (mapE (\<lambda>ref. base_measures n C ref (seen @ [name])) (sorted_list_of_set (collect_columns (Some ast)))) (\<lambda>bss.
              let out = fold add_new (concat bss) []
              in if out = [] then raiseE Validation_failed else returnE out)))"

definition depth_for :: "compiler \<Rightarrow> nat" where
  "depth_for C = length (md_measures (co_defn C)) + 1"

subsection \<open>Expressions\<close>

fun cols_of :: "node \<Rightarrow> string list" where
  "cols_of (NCol v) = [v]"
| "cols_of (NLit _) = []"
| "cols_of (NBin _ l r) = cols_of l @ cols_of r"
| "cols_of (NFunc _ args) = concat (map cols_of args)"
| "cols_of (NCast e _) = cols_of e"
| "cols_of (NExtract _ e) = cols_of e"
| "cols_of (NDateTrunc _ e) = cols_of e"
| "cols_of (NCase ws els) = concat (map cols_of ws) @ (case els of None \<Rightarrow> [] | Some e \<Rightarrow> cols_of e)"
| "cols_of (NWhen c e) = cols_of c @ cols_of e"
| "cols_of (NCond _ l r) = cols_of l @ (case r of None \<Rightarrow> [] | Some e \<Rightarrow> cols_of e)"
| "cols_of (NLogic _ l r) = cols_of l @ cols_of r"
| "cols_of (NNot c) = cols_of c"

definition render_res :: "dialect \<Rightarrow> (string \<Rightarrow> semantic_error + string) \<Rightarrow> node \<Rightarrow> semantic_error + string" where
  "render_res dl res n = bindR (mapR res (cols_of n)) (\<lambda>_. Inr (render_ast dl (\<lambda>c. projr (res c)) n))"

definition col_sql :: "dialect \<Rightarrow> (string, string) dict \<Rightarrow> string option \<Rightarrow> string \<Rightarrow> semantic_error + string" where
  "col_sql dl aliases entity_name column =
     (case entity_name of
        None \<Rightarrow> Inl Validation_failed
      | Some e \<Rightarrow> (case map_of aliases e of
                     None \<Rightarrow> Inl Validation_failed
                   | Some a \<Rightarrow> Inr (quote dl a @ ''.'' @ quote dl column)))"

definition dim_sql :: "dialect \<Rightarrow> (string, string) dict \<Rightarrow> dimension \<Rightarrow> string option \<Rightarrow> semantic_error + string" where
  "dim_sql dl aliases d grain =
     bindR (case grain of None \<Rightarrow> Inr () | Some g \<Rightarrow> guardR (dm_dim_type d = ''time'' \<and> g \<in> set (dm_time_grains d)) Unknown_grain) (\<lambda>_.
     bindR (case dm_column d of
              Some c \<Rightarrow> col_sql dl aliases (Some (dm_entity d)) c
            | None \<Rightarrow> (case dm_expr_ast d of None \<Rightarrow> Inl Py_type_error
                       | Some n \<Rightarrow> render_res dl (col_sql dl aliases (Some (dm_entity d))) n)) (\<lambda>inner.
     Inr (case grain of None \<Rightarrow> inner | Some g \<Rightarrow> date_trunc dl g inner)))"

definition optional_sql :: "(node \<Rightarrow> semantic_error + string) \<Rightarrow> node option \<Rightarrow> semantic_error + string option" where
  "optional_sql f x = (case x of None \<Rightarrow> Inr None | Some n \<Rightarrow> bindR (f n) (\<lambda>s. Inr (Some s)))"

definition filtered_sql :: "string option \<Rightarrow> string option \<Rightarrow> string option" where
  "filtered_sql expr_sql cond_sql =
     (case cond_sql of
        None \<Rightarrow> expr_sql
      | Some c \<Rightarrow> Some (''CASE WHEN '' @ c @ '' THEN '' @ (case expr_sql of None \<Rightarrow> ''1'' | Some e \<Rightarrow> e) @ '' END''))"

definition first_sql :: "model_def \<Rightarrow> dialect \<Rightarrow> (string \<Rightarrow> semantic_error + string) \<Rightarrow> string option \<Rightarrow> measure \<Rightarrow> string \<Rightarrow> semantic_error + string" where
  "first_sql d dl res order_within_group m expr_sql =
     bindR (case ms_entity m of None \<Rightarrow> Inl Py_key_error | Some e \<Rightarrow> dict_at Py_key_error (md_entities d) e) (\<lambda>en.
     case (case order_within_group of Some c \<Rightarrow> Some c
           | None \<Rightarrow> (case en_primary_key en of [] \<Rightarrow> None | c # _ \<Rightarrow> Some c)) of
       None \<Rightarrow> Inl Validation_failed
     | Some c \<Rightarrow> bindR (res c) (\<lambda>order_sql.
         case first_agg dl expr_sql order_sql of None \<Rightarrow> Inl Validation_failed | Some s \<Rightarrow> Inr s))"

definition measure_sql :: "model_def \<Rightarrow> dialect \<Rightarrow> (string, string) dict \<Rightarrow> string option \<Rightarrow> measure \<Rightarrow> semantic_error + string" where
  "measure_sql d dl aliases order_within_group m =
     (let res = col_sql dl aliases (ms_entity m)
      in bindR (optional_sql (render_res dl res) (ms_expr_ast m)) (\<lambda>e.
         bindR (optional_sql (render_res dl res) (ms_filters_ast m)) (\<lambda>c.
           case (ms_agg m, filtered_sql e c) of
             (Some agg, x) \<Rightarrow>
               if agg = ''count'' then Inr (case x of Some s \<Rightarrow> ''count('' @ s @ '')'' | None \<Rightarrow> ''count(*)'')
               else (case x of
                       None \<Rightarrow> Inl Validation_failed
                     | Some s \<Rightarrow>
                         if agg = ''count_distinct'' then Inr (count_distinct s)
                         else if agg = ''first'' then first_sql d dl res order_within_group m s
                         else Inr (agg @ ''('' @ s @ '')''))
           | (None, x) \<Rightarrow> (case x of None \<Rightarrow> Inl Validation_failed | Some s \<Rightarrow> Inr (''None('' @ s @ '')'')))))"

fun metric_sql :: "nat \<Rightarrow> model_def \<Rightarrow> dialect \<Rightarrow> (measure \<Rightarrow> semantic_error + string) \<Rightarrow> string \<Rightarrow> semantic_error + string" where
  "metric_sql 0 d dl base ref = Inl Py_recursion_error"
| "metric_sql (Suc n) d dl base ref =
     bindR (dict_at Py_key_error (md_measures d) ref) (\<lambda>m.
       case ms_expr_metric_ast m of Some ast \<Rightarrow> render_res dl (metric_sql n d dl base) ast | None \<Rightarrow> base m)"

subsection \<open>Clauses\<close>

definition clause_sql :: "dialect \<Rightarrow> dimension \<Rightarrow> string \<Rightarrow> filter_spec \<Rightarrow> string comp" where
  "clause_sql dl d target f =
     (let b = (\<lambda>v. bind v (ptype_of v (Some (dm_dim_type d))))
      in if fs_op f = ''IS NULL'' \<or> fs_op f = ''IS NOT NULL'' then returnE (target @ '' '' @ fs_op f)
         else if fs_op f = ''IN'' \<or> fs_op f = ''NOT IN''
         then bindE (mapE b (fs_values f)) (\<lambda>phs. returnE (target @ '' '' @ fs_op f @ '' ('' @ join '', '' phs @ '')''))
         else if fs_op f = ''BETWEEN''
         then (case fs_values f of
                 lo # hi # _ \<Rightarrow> bindE (b lo) (\<lambda>l. bindE (b hi) (\<lambda>h. returnE (target @ '' BETWEEN '' @ l @ '' AND '' @ h)))
               | [v] \<Rightarrow> bindE (b v) (\<lambda>_. raiseE Py_index_error)
               | [] \<Rightarrow> raiseE Py_index_error)
         else (case fs_values f of
                 v # _ \<Rightarrow> bindE (b v) (\<lambda>ph. returnE (target @ '' '' @ fs_op f @ '' '' @ ph))
               | [] \<Rightarrow> raiseE Py_index_error))"

definition range_bounds :: "compiler \<Rightarrow> time_range \<Rightarrow> semantic_error + (json \<times> json)" where
  "range_bounds C tr =
     (if jtruthy (tr_relative tr)
      then (if co_today_in C (co_timezone C) = None then Inl Validation_failed
            else (case tr_relative tr of
                    JStr rel \<Rightarrow>
                      (case resolve_relative (co_today_in C) (co_timezone C) rel of
                         Inr (s, e) \<Rightarrow> Inr (JStr (isoformat s), JStr (isoformat e))
                       | Inl Py_overflow_error \<Rightarrow> Inl Py_calendar_error
                       | Inl _ \<Rightarrow> Inl Validation_failed)
                  | _ \<Rightarrow> Inl Py_type_error))
      else Inr (tr_start tr, tr_end tr))"

definition bound_type :: "compiler \<Rightarrow> json \<Rightarrow> string" where
  "bound_type C v = (if length (case v of JStr s \<Rightarrow> s | _ \<Rightarrow> co_str_of C v) = 10 then ''date'' else ''timestamp'')"

definition filter_clause :: "compiler \<Rightarrow> dialect \<Rightarrow> (string, string) dict \<Rightarrow> filter_spec \<Rightarrow> string comp" where
  "filter_clause C dl aliases f =
     bindE (the_dimension C (fs_dimension f)) (\<lambda>d.
     bindE (liftE (dim_sql dl aliases d None)) (\<lambda>target. clause_sql dl d target f))"

definition range_text :: "compiler \<Rightarrow> dialect \<Rightarrow> (string, string) dict \<Rightarrow> dimension \<Rightarrow> json \<times> json \<Rightarrow> (string \<times> resolved_range) comp" where
  "range_text C dl aliases d = (\<lambda>(start, fin).
     bindE (liftE (dim_sql dl aliases d None)) (\<lambda>target.
     bindE (bind start (bound_type C start)) (\<lambda>lo.
     bindE (bind fin (bound_type C fin)) (\<lambda>hi.
     returnE (target @ '' >= '' @ lo @ '' AND '' @ target @ '' < '' @ hi, (dm_name d, start, fin, co_timezone C))))))"

definition range_clause :: "compiler \<Rightarrow> dialect \<Rightarrow> (string, string) dict \<Rightarrow> time_range \<Rightarrow> (string \<times> resolved_range) comp" where
  "range_clause C dl aliases tr =
     bindE (the_dimension C (tr_dimension tr)) (\<lambda>d.
     if dm_dim_type d \<noteq> ''time'' then raiseE Validation_failed
     else bindE (liftE (range_bounds C tr)) (range_text C dl aliases d))"

definition where_sql ::
    "compiler \<Rightarrow> compile_request \<Rightarrow> dialect \<Rightarrow> (string, string) dict \<Rightarrow> (string option \<times> resolved_range option) comp" where
  "where_sql C req dl aliases =
     bindE (mapE (filter_clause C dl aliases) (sorted_filters (co_float_repr C) req)) (\<lambda>clauses.
     case cq_time_range req of
       None \<Rightarrow> returnE (if clauses = [] then None else Some (join '' AND '' clauses), None)
     | Some tr \<Rightarrow>
         bindE (range_clause C dl aliases tr) (\<lambda>(clause, resolved).
         returnE (Some (join '' AND '' (clauses @ [clause])), Some resolved)))"

definition dataset_ref :: "entity \<Rightarrow> string" where
  "dataset_ref e =
     (let slug = last (split_on (CHR ''.'') (en_table e)); v = jget (en_policy e) ''version_no'';
          q = [quote_char]
      in if jget (en_policy e) ''policy'' = JStr ''pinned'' \<and> jtruthy v
         then ''{{dataset('' @ q @ slug @ q @ '', version='' @ py_str_int (case int_of v of Some n \<Rightarrow> n | None \<Rightarrow> 0) @ '')}}''
         else ''{{dataset('' @ q @ slug @ q @ '')}}'')"

definition alias_at :: "(string, string) dict \<Rightarrow> string \<Rightarrow> semantic_error + string" where
  "alias_at aliases e = dict_at Py_key_error aliases e"

definition on_sql :: "dialect \<Rightarrow> (string, string) dict \<Rightarrow> join_path \<Rightarrow> semantic_error + string" where
  "on_sql dl aliases jp =
     bindR (mapR (\<lambda>(f, t). bindR (col_sql dl aliases (Some (jp_from_entity jp)) f) (\<lambda>l.
                           bindR (col_sql dl aliases (Some (jp_to_entity jp)) t) (\<lambda>r. Inr (l @ '' = '' @ r)))) (jp_on jp))
       (\<lambda>cs. Inr (join '' AND '' cs))"

definition hop_sql :: "model_def \<Rightarrow> dialect \<Rightarrow> (string, string) dict \<Rightarrow> string \<Rightarrow> semantic_error + string" where
  "hop_sql d dl aliases hop =
     bindR (dict_at Py_key_error (md_join_paths d) hop) (\<lambda>jp.
     bindR (dict_at Py_key_error (md_entities d) (jp_to_entity jp)) (\<lambda>to_entity.
     bindR (on_sql dl aliases jp) (\<lambda>conds.
     bindR (alias_at aliases (jp_to_entity jp)) (\<lambda>a.
     Inr ((if jp_join_type jp = ''left'' then ''LEFT JOIN'' else ''INNER JOIN'') @ '' '' @ dataset_ref to_entity @ '' '' @ quote dl a @
          '' ON '' @ conds)))))"

definition from_sql :: "model_def \<Rightarrow> dialect \<Rightarrow> string \<Rightarrow> string list \<Rightarrow> (string, string) dict \<Rightarrow> semantic_error + string" where
  "from_sql d dl base hops aliases =
     bindR (dict_at Py_key_error (md_entities d) base) (\<lambda>en.
     bindR (alias_at aliases base) (\<lambda>a.
     bindR (mapR (hop_sql d dl aliases) hops) (\<lambda>parts.
     Inr (join '' '' ((dataset_ref en @ '' '' @ quote dl a) # parts)))))"

definition dim_items :: "compiler \<Rightarrow> compile_request \<Rightarrow> dialect \<Rightarrow> (string, string) dict \<Rightarrow> string list comp" where
  "dim_items C req dl aliases =
     mapE (\<lambda>r. bindE (the_dimension C (dr_name r)) (\<lambda>d.
               bindE (liftE (dim_sql dl aliases d (dr_grain r))) (\<lambda>s.
               returnE (s @ '' AS '' @ quote dl (dr_name r))))) (cq_dimensions req)"

definition select_items :: "compiler \<Rightarrow> compile_request \<Rightarrow> dialect \<Rightarrow> (string, string) dict \<Rightarrow> string list comp" where
  "select_items C req dl aliases =
     bindE (dim_items C req dl aliases) (\<lambda>items.
     bindE (mapE (\<lambda>name. bindE (liftE (metric_sql (depth_for C) (co_defn C) dl
                                  (measure_sql (co_defn C) dl aliases (cq_order_within_group req)) name))
                   (\<lambda>s. returnE (s @ '' AS '' @ quote dl name))) (cq_metrics req)) (\<lambda>ms.
     returnE (items @ ms)))"

definition limit_text :: "json \<Rightarrow> string" where
  "limit_text v = (case v of JInt n \<Rightarrow> py_str_int n | JBool b \<Rightarrow> (if b then ''True'' else ''False'') | _ \<Rightarrow> [])"

definition order_parts :: "compiler \<Rightarrow> compile_request \<Rightarrow> string list comp" where
  "order_parts C req =
     (let select_names = map dr_name (cq_dimensions req) @ cq_metrics req
      in if cq_order_by req \<noteq> []
         then mapE (\<lambda>x. case py_index select_names (os_name x) of
                      None \<Rightarrow> raiseE Validation_failed
                    | Some i \<Rightarrow> returnE (py_str_nat (Suc i) @ (if os_desc x then '' DESC'' else [])))
                (cq_order_by req)
         else bindE (mapE (\<lambda>(i, r). bindE (the_dimension C (dr_name r)) (\<lambda>d.
                       returnE (if dm_dim_type d = ''time'' then [py_str_nat (Suc i)] else [])))
                     (enumerate 0 (cq_dimensions req))) (\<lambda>pss. returnE (concat pss)))"

definition order_limit :: "compiler \<Rightarrow> compile_request \<Rightarrow> dialect \<Rightarrow> (string \<times> string \<times> string) comp" where
  "order_limit C req dl =
     bindE (order_parts C req) (\<lambda>parts.
     let order_clause = (if parts = [] then [] else '' ORDER BY '' @ join '', '' parts);
         lm = limit_text (cq_limit req)
     in returnE (if cq_limit req = JNull then ([], order_clause, [])
                 else if di_name dl = ''synapse'' then (''TOP '' @ lm @ '' '', order_clause, [])
                 else ([], order_clause, '' LIMIT '' @ lm)))"

definition having_target :: "compiler \<Rightarrow> compile_request \<Rightarrow> dialect \<Rightarrow> (string, string) dict \<Rightarrow> measure \<Rightarrow> semantic_error + string" where
  "having_target C req dl aliases m =
     (let sql = measure_sql (co_defn C) dl aliases (cq_order_within_group req)
      in case ms_expr_metric_ast m of
           Some ast \<Rightarrow> render_res dl (\<lambda>ref. bindR (dict_at Py_key_error (md_measures (co_defn C)) ref) sql) ast
         | None \<Rightarrow> sql m)"

definition having_clauses :: "compiler \<Rightarrow> compile_request \<Rightarrow> (measure \<Rightarrow> semantic_error + string) \<Rightarrow> string list comp" where
  "having_clauses C req target_of =
     mapE (\<lambda>h. case map_of (md_measures (co_defn C)) (hs_metric h) of
              None \<Rightarrow> raiseE Unknown_metric
            | Some m \<Rightarrow>
                bindE (liftE (target_of m)) (\<lambda>target.
                bindE (bind (hs_value h) (ptype_of (hs_value h) None)) (\<lambda>ph.
                returnE (target @ '' '' @ hs_op h @ '' '' @ ph)))) (cq_having req)"

definition having_sql :: "compiler \<Rightarrow> compile_request \<Rightarrow> dialect \<Rightarrow> (string, string) dict \<Rightarrow> string comp" where
  "having_sql C req dl aliases =
     (if cq_having req = [] then returnE []
      else bindE (having_clauses C req (having_target C req dl aliases)) (\<lambda>cs. returnE ('' HAVING '' @ join '' AND '' cs)))"

definition scope_targets :: "compiler \<Rightarrow> compile_request \<Rightarrow> string list comp" where
  "scope_targets C req =
     bindE (mapE (\<lambda>n. bindE (the_dimension C n) (\<lambda>d. returnE (dm_entity d)))
       (map dr_name (cq_dimensions req) @ map fs_dimension (sorted_filters (co_float_repr C) req) @
        (case cq_time_range req of None \<Rightarrow> [] | Some tr \<Rightarrow> [tr_dimension tr]))) (\<lambda>es.
     returnE (fold add_new es []))"

definition group_by :: "compiler \<Rightarrow> compile_request \<Rightarrow> dialect \<Rightarrow> (string, string) dict \<Rightarrow> string comp" where
  "group_by C req dl aliases =
     (if cq_dimensions req = [] then returnE []
      else bindE (if group_by_ordinals dl then returnE (map (\<lambda>i. py_str_nat (Suc i)) [0..<length (cq_dimensions req)])
                  else mapE (\<lambda>r. bindE (the_dimension C (dr_name r)) (\<lambda>d. liftE (dim_sql dl aliases d (dr_grain r)))) (cq_dimensions req))
             (\<lambda>keys. returnE ('' GROUP BY '' @ join '', '' keys)))"

definition opt_where :: "string option \<Rightarrow> string" where
  "opt_where w = (case w of None \<Rightarrow> [] | Some s \<Rightarrow> '' WHERE '' @ s)"

subsection \<open>Plans\<close>

type_synonym plan = "string \<times> resolved_range option \<times> string list"

definition compile_single :: "compiler \<Rightarrow> compile_request \<Rightarrow> dialect \<Rightarrow> string \<Rightarrow> plan comp" where
  "compile_single C req dl base =
     bindE (scope_targets C req) (\<lambda>targets.
     bindE (liftE (resolve_joins (md_join_paths (co_defn C)) base targets (cq_join_paths req))) (\<lambda>hops.
     bindE (liftE (aliases_for (md_join_paths (co_defn C)) base hops)) (\<lambda>aliases.
     bindE (select_items C req dl aliases) (\<lambda>items.
     bindE (where_sql C req dl aliases) (\<lambda>(w, resolved).
     bindE (group_by C req dl aliases) (\<lambda>group.
     bindE (having_sql C req dl aliases) (\<lambda>having.
     bindE (order_limit C req dl) (\<lambda>(prefix, order, limit).
     bindE (liftE (from_sql (co_defn C) dl base hops aliases)) (\<lambda>from.
     returnE (''SELECT '' @ prefix @ join '', '' items @ '' FROM '' @ from @ opt_where w @ group @ having @ order @ limit,
              resolved, hops))))))))))"

definition cte_name :: "nat \<Rightarrow> string" where
  "cte_name i = CHR ''m'' # py_str_nat i"

definition compile_cte ::
    "compiler \<Rightarrow> compile_request \<Rightarrow> dialect \<Rightarrow> nat \<times> string \<times> string list \<Rightarrow>
     (string \<times> string list \<times> resolved_range option) comp" where
  "compile_cte C req dl = (\<lambda>(i, entity_name, names).
     bindE (scope_targets C req) (\<lambda>targets.
     bindE (liftE (resolve_joins (md_join_paths (co_defn C)) entity_name targets (cq_join_paths req))) (\<lambda>hops.
     bindE (liftE (aliases_for (md_join_paths (co_defn C)) entity_name hops)) (\<lambda>aliases.
     bindE (dim_items C req dl aliases) (\<lambda>items.
     bindE (mapE (\<lambda>name. bindE (liftE (bindR (dict_at Py_key_error (md_measures (co_defn C)) name)
                                        (measure_sql (co_defn C) dl aliases (cq_order_within_group req))))
                   (\<lambda>s. returnE (s @ '' AS '' @ quote dl name))) names) (\<lambda>mitems.
     bindE (where_sql C req dl aliases) (\<lambda>(w, resolved).
     bindE (group_by C req dl aliases) (\<lambda>group.
     bindE (liftE (from_sql (co_defn C) dl entity_name hops aliases)) (\<lambda>from.
     returnE (quote dl (cte_name i) @ '' AS (SELECT '' @ join '', '' (items @ mitems) @ '' FROM '' @ from @ opt_where w @ group @ '')'',
              hops, resolved))))))))))"

definition cte_of_measure :: "(string \<times> string list) list \<Rightarrow> (string, string) dict" where
  "cte_of_measure groups = concat (map (\<lambda>(i, e, names). map (\<lambda>n. (n, cte_name i)) names) (enumerate 0 groups))"

definition coalesced :: "string list \<Rightarrow> string" where
  "coalesced refs = (case refs of [r] \<Rightarrow> r | _ \<Rightarrow> ''coalesce('' @ join '', '' refs @ '')'')"

definition outer_base :: "dialect \<Rightarrow> (string, string) dict \<Rightarrow> measure \<Rightarrow> semantic_error + string" where
  "outer_base dl ctes m = bindR (dict_at Py_key_error ctes (ms_name m)) (\<lambda>c. Inr (quote dl c @ ''.'' @ quote dl (ms_name m)))"

definition outer_items :: "compiler \<Rightarrow> compile_request \<Rightarrow> dialect \<Rightarrow> string list \<Rightarrow> (string, string) dict \<Rightarrow> semantic_error + string list" where
  "outer_items C req dl cs ctes =
     bindR (mapR (\<lambda>name. bindR (metric_sql (depth_for C) (co_defn C) dl (outer_base dl ctes) name)
                   (\<lambda>s. Inr (s @ '' AS '' @ quote dl name))) (cq_metrics req)) (\<lambda>ms.
     Inr (map (\<lambda>r. coalesced (map (\<lambda>c. quote dl c @ ''.'' @ quote dl (dr_name r)) cs) @ '' AS '' @ quote dl (dr_name r)) (cq_dimensions req) @ ms))"

definition join_cte :: "compile_request \<Rightarrow> dialect \<Rightarrow> string list \<Rightarrow> nat \<Rightarrow> string" where
  "join_cte req dl cs k =
     (let q = quote dl
      in if cq_dimensions req \<noteq> []
         then ''FULL JOIN '' @ q (cs ! k) @ '' ON '' @ join '' AND ''
                (map (\<lambda>r. q (cs ! k) @ ''.'' @ q (dr_name r) @ '' = '' @ coalesced (map (\<lambda>c. q c @ ''.'' @ q (dr_name r)) (take k cs)))
                   (cq_dimensions req))
         else ''CROSS JOIN '' @ q (cs ! k))"

definition compile_multi :: "compiler \<Rightarrow> compile_request \<Rightarrow> dialect \<Rightarrow> (string \<times> string list) list \<Rightarrow> plan comp" where
  "compile_multi C req dl groups =
     bindE (mapE (compile_cte C req dl) (enumerate 0 groups)) (\<lambda>parts.
     let cs = map cte_name [0..<length groups]; ctes = cte_of_measure groups
     in bindE (liftE (outer_items C req dl cs ctes)) (\<lambda>items.
        bindE (liftE (guardR (cs \<noteq> []) Py_index_error)) (\<lambda>_.
        bindE (if cq_having req = [] then returnE []
               else bindE (having_clauses C req (\<lambda>m. metric_sql (depth_for C) (co_defn C) dl (outer_base dl ctes) (ms_name m)))
                      (\<lambda>hs. returnE ('' WHERE '' @ join '' AND '' hs))) (\<lambda>outer_where.
        bindE (order_limit C req dl) (\<lambda>(prefix, order, limit).
        returnE (''WITH '' @ join '', '' (map fst parts) @ '' SELECT '' @ prefix @ join '', '' items @ '' FROM '' @
                   join '' '' (quote dl (hd cs) # map (join_cte req dl cs) [1..<length cs]) @ outer_where @ order @ limit,
                 (case rev parts of [] \<Rightarrow> None | (_, _, r) # _ \<Rightarrow> r),
                 fold add_new (concat (map (\<lambda>(_, hops, _). hops) parts)) []))))))"

subsection \<open>The entry point\<close>

definition group_measure :: "string \<Rightarrow> string \<Rightarrow> (string \<times> string list) list \<Rightarrow> (string \<times> string list) list" where
  "group_measure e name groups =
     (if e \<in> set (map fst groups) then map (\<lambda>(g, ns). if g = e then (g, ns @ [name]) else (g, ns)) groups
      else groups @ [(e, [name])])"

definition group_all :: "model_def \<Rightarrow> string list \<Rightarrow> semantic_error + (string \<times> string list) list" where
  "group_all d names =
     foldR (\<lambda>name groups. bindR (dict_at Py_key_error (md_measures d) name) (\<lambda>m.
       Inr (group_measure (case ms_entity m of None \<Rightarrow> [] | Some e \<Rightarrow> e) name groups))) names []"

definition dim_out_type :: "dimension \<Rightarrow> string option \<Rightarrow> semantic_error + string" where
  "dim_out_type d grain =
     (if dm_dim_type d = ''time'' then Inr (if grain = None \<or> grain = Some ''hour'' then ''timestamp'' else ''date'')
      else dict_at Py_key_error [(''categorical'', ''string''), (''numeric'', ''numeric''), (''boolean'', ''boolean''), (''geo'', ''string'')] (dm_dim_type d))"

definition measure_out_type :: "measure \<Rightarrow> json" where
  "measure_out_type m =
     (if ms_agg m = Some ''count'' \<or> ms_agg m = Some ''count_distinct'' then JStr ''bigint''
      else if ms_agg m = Some ''first'' then or_else (ms_format m) (JStr ''string'')
      else or_else (ms_format m) (JStr ''decimal''))"

definition output_schema :: "(dimension \<times> string option) list \<Rightarrow> measure list \<Rightarrow> semantic_error + (string \<times> json \<times> string) list" where
  "output_schema ds ms =
     bindR (mapR (\<lambda>(d, g). bindR (dim_out_type d g) (\<lambda>t. Inr (dm_name d, JStr t, ''dimension''))) ds) (\<lambda>a.
     Inr (a @ map (\<lambda>m. (ms_name m, measure_out_type m, ''measure'')) ms))"

definition compile_plan :: "compiler \<Rightarrow> compile_request \<Rightarrow> dialect \<Rightarrow> (string \<times> string list) list \<Rightarrow> plan comp" where
  "compile_plan C req dl groups =
     (case groups of [(e, _)] \<Rightarrow> compile_single C req dl e | _ \<Rightarrow> compile_multi C req dl groups)"

definition compile :: "compiler \<Rightarrow> compile_request \<Rightarrow> string \<Rightarrow> compiled comp" where
  "compile C req dialect_name =
     (case get_dialect dialect_name of
        None \<Rightarrow> raiseE Validation_failed
      | Some dl \<Rightarrow>
          bindE (mapE (the_measure C) (cq_metrics req)) (\<lambda>requested.
          bindE (mapE (\<lambda>n. base_measures (Suc (depth_for C)) C n []) (cq_metrics req)) (\<lambda>bss.
          bindE (mapE (\<lambda>r. bindE (the_dimension C (dr_name r)) (\<lambda>d. returnE (d, dr_grain r))) (cq_dimensions req)) (\<lambda>ds.
          bindE (liftE (group_all (co_defn C) (fold add_new (concat bss) []))) (\<lambda>groups.
          bindE (compile_plan C req dl groups) (\<lambda>(sql, resolved, hops).
          bindE (liftE (output_schema ds requested)) (\<lambda>schema s.
            (Inr \<lparr>cd_sql = sql, cd_params = cs_params s, cd_dialect = dialect_name, cd_output_schema = schema,
                  cd_measures = cq_metrics req, cd_dimensions = map dr_name (cq_dimensions req), cd_join_paths = hops,
                  cd_time_range_resolved = resolved, cd_warnings = cs_warnings s\<rparr>, s))))))))"

definition run_compile :: "compiler \<Rightarrow> compile_request \<Rightarrow> string \<Rightarrow> semantic_error + compiled" where
  "run_compile C req dialect_name = fst (compile C req dialect_name \<lparr>cs_warnings = [], cs_params = []\<rparr>)"

end
