(* ===== verification/Semantic_Values.thy ===== *)
theory Semantic_Values
  imports Semantic_Compiler
begin

text \<open>
  What happens to the values of a request. \<open>lockstep\<close> compares two runs of a method whose states agree on
  the warnings and on the number of bind parameters; from it, requests that differ only in filter values,
  having values and time bounds compile to the same SQL.
\<close>

subsection \<open>Two runs side by side\<close>

definition same_shape :: "compile_state \<Rightarrow> compile_state \<Rightarrow> bool" where
  "same_shape s s' \<longleftrightarrow> cs_warnings s = cs_warnings s' \<and> length (cs_params s) = length (cs_params s')"

definition lockstep :: "('a \<Rightarrow> 'b \<Rightarrow> bool) \<Rightarrow> 'a comp \<Rightarrow> 'b comp \<Rightarrow> bool" where
  "lockstep Q m m' \<longleftrightarrow>
     (\<forall>s s'. same_shape s s' \<longrightarrow> rel_sum (=) Q (fst (m s)) (fst (m' s')) \<and> same_shape (snd (m s)) (snd (m' s')))"

named_theorems lockstep_rules \<open>code constructs that run side by side\<close>

lemma lockstep_returnE [lockstep_rules]: "Q x y \<Longrightarrow> lockstep Q (returnE x) (returnE y)"
  by (simp add: lockstep_def)

lemma lockstep_raiseE [lockstep_rules]: "lockstep Q (raiseE e) (raiseE e)"
  by (simp add: lockstep_def)

lemma lockstep_liftE [lockstep_rules]: "rel_sum (=) Q r r' \<Longrightarrow> lockstep Q (liftE r) (liftE r')"
  by (simp add: lockstep_def)

lemma lockstep_liftE_eq [lockstep_rules]: "lockstep (=) (liftE r) (liftE r)"
  by (simp add: lockstep_def sum.rel_eq)

lemma lockstep_bindE:
  assumes "lockstep Q m m'" and "\<And>x y. Q x y \<Longrightarrow> lockstep R (f x) (g y)"
  shows "lockstep R (bindE m f) (bindE m' g)"
  unfolding lockstep_def
proof (intro allI impI)
  fix s s' assume "same_shape s s'"
  then have "rel_sum (=) Q (fst (m s)) (fst (m' s'))" and t: "same_shape (snd (m s)) (snd (m' s'))"
    using assms(1) by (auto simp: lockstep_def)
  then show "rel_sum (=) R (fst (bindE m f s)) (fst (bindE m' g s')) \<and> same_shape (snd (bindE m f s)) (snd (bindE m' g s'))"
  proof cases
    case (1 a c)
    then show ?thesis using t by (cases "m s"; cases "m' s'") (auto simp: bindE_def)
  next
    case (2 b d)
    then show ?thesis using t assms(2) [OF 2(3)] by (cases "m s"; cases "m' s'") (auto simp: bindE_def lockstep_def)
  qed
qed

lemma lockstep_bindE_eq [lockstep_rules]:
  "lockstep (=) m m' \<Longrightarrow> (\<And>x. lockstep R (f x) (g x)) \<Longrightarrow> lockstep R (bindE m f) (bindE m' g)"
  by (erule lockstep_bindE) simp

lemma lockstep_mapE:
  "list_all2 P xs ys \<Longrightarrow> (\<And>x y. P x y \<Longrightarrow> lockstep Q (f x) (g y)) \<Longrightarrow> lockstep (list_all2 Q) (mapE f xs) (mapE g ys)"
proof (induction xs ys rule: list_all2_induct)
  case Nil
  show ?case unfolding mapE.simps by (rule lockstep_returnE) simp
next
  case (Cons x xs y ys)
  show ?case
    unfolding mapE.simps
    by (rule lockstep_bindE [OF Cons.prems], rule Cons.hyps, rule lockstep_bindE [OF Cons.IH [OF Cons.prems]])
      (auto intro: lockstep_returnE)
qed

lemma lockstep_mapE_eq [lockstep_rules]:
  "(\<And>x. x \<in> set xs \<Longrightarrow> lockstep (=) (f x) (g x)) \<Longrightarrow> lockstep (=) (mapE f xs) (mapE g xs)"
  using lockstep_mapE [of "\<lambda>x y. x \<in> set xs \<and> x = y" xs xs "(=)" f g]
  by (simp add: list.rel_eq list_all2_same)

lemma lockstep_if [lockstep_rules]: "lockstep Q m m' \<Longrightarrow> lockstep Q n n' \<Longrightarrow> lockstep Q (if b then m else n) (if b then m' else n')"
  by simp

lemma lockstep_option [lockstep_rules]:
  "lockstep Q m m' \<Longrightarrow> (\<And>x. lockstep Q (f x) (g x)) \<Longrightarrow>
   lockstep Q (case v of None \<Rightarrow> m | Some x \<Rightarrow> f x) (case v of None \<Rightarrow> m' | Some x \<Rightarrow> g x)"
  by (cases v) simp_all

lemma lockstep_prod [lockstep_rules]:
  "(\<And>x y. lockstep Q (f x y) (g x y)) \<Longrightarrow> lockstep Q (case p of (x, y) \<Rightarrow> f x y) (case p of (x, y) \<Rightarrow> g x y)"
  by (cases p) simp

lemma lockstep_warn [lockstep_rules]: "lockstep (=) (warn w) (warn w)"
  by (simp add: lockstep_def warn_def same_shape_def)

lemma lockstep_bind [lockstep_rules]: "lockstep (=) (bind v t) (bind w u)"
  by (simp add: lockstep_def bind_def same_shape_def)

lemma lockstep_the_measure [lockstep_rules]: "lockstep (=) (the_measure C n) (the_measure C n)"
  unfolding the_measure_def by (intro lockstep_rules refl)

lemma lockstep_the_dimension [lockstep_rules]: "lockstep (=) (the_dimension C n) (the_dimension C n)"
  unfolding the_dimension_def by (intro lockstep_rules refl)

lemma lockstep_base_measures [lockstep_rules]: "lockstep (=) (base_measures n C name seen) (base_measures n C name seen)"
proof (induction n arbitrary: name seen)
  case 0
  show ?case unfolding base_measures.simps by (rule lockstep_raiseE)
next
  case (Suc n)
  show ?case unfolding base_measures.simps Let_def by (intro lockstep_rules Suc.IH refl)
qed

subsection \<open>Requests that differ in values only\<close>

definition same_filter :: "filter_spec \<Rightarrow> filter_spec \<Rightarrow> bool" where
  "same_filter f g \<longleftrightarrow> fs_dimension f = fs_dimension g \<and> fs_op f = fs_op g \<and> length (fs_values f) = length (fs_values g)"

definition same_having :: "having_spec \<Rightarrow> having_spec \<Rightarrow> bool" where
  "same_having h k \<longleftrightarrow> hs_metric h = hs_metric k \<and> hs_op h = hs_op k"

definition same_range :: "time_range \<Rightarrow> time_range \<Rightarrow> bool" where
  "same_range a b \<longleftrightarrow> tr_dimension a = tr_dimension b \<and>
     (tr_relative a = tr_relative b \<or> \<not> jtruthy (tr_relative a) \<and> \<not> jtruthy (tr_relative b))"

definition same_but_values :: "(rat \<Rightarrow> string) \<Rightarrow> compile_request \<Rightarrow> compile_request \<Rightarrow> bool" where
  "same_but_values fr a b \<longleftrightarrow>
     list_all2 same_filter (sorted_filters fr a) (sorted_filters fr b) \<and>
     list_all2 same_having (cq_having a) (cq_having b) \<and> rel_option same_range (cq_time_range a) (cq_time_range b) \<and>
     b = a\<lparr>cq_filters := cq_filters b, cq_having := cq_having b, cq_time_range := cq_time_range b\<rparr>"

lemma same_parts:
  assumes "same_but_values fr a b"
  shows "cq_metrics b = cq_metrics a" "cq_dimensions b = cq_dimensions a" "cq_order_by b = cq_order_by a" "cq_limit b = cq_limit a"
    "cq_join_paths b = cq_join_paths a" "cq_order_within_group b = cq_order_within_group a"
    "cq_having b = [] \<longleftrightarrow> cq_having a = []"
    "map fs_dimension (sorted_filters fr b) = map fs_dimension (sorted_filters fr a)"
    "map_option tr_dimension (cq_time_range b) = map_option tr_dimension (cq_time_range a)"
proof -
  have l: "list_all2 same_filter (sorted_filters fr a) (sorted_filters fr b)" and h: "list_all2 same_having (cq_having a) (cq_having b)"
    and t: "rel_option same_range (cq_time_range a) (cq_time_range b)"
    and b: "b = a\<lparr>cq_filters := cq_filters b, cq_having := cq_having b, cq_time_range := cq_time_range b\<rparr>"
    using assms by (simp_all only: same_but_values_def)
  show "cq_metrics b = cq_metrics a" "cq_dimensions b = cq_dimensions a" "cq_order_by b = cq_order_by a" "cq_limit b = cq_limit a"
    "cq_join_paths b = cq_join_paths a" "cq_order_within_group b = cq_order_within_group a"
    by (subst b, simp)+
  show "cq_having b = [] \<longleftrightarrow> cq_having a = []" using h by auto
  show "map fs_dimension (sorted_filters fr b) = map fs_dimension (sorted_filters fr a)"
    using l by (induction rule: list_all2_induct) (auto simp: same_filter_def)
  show "map_option tr_dimension (cq_time_range b) = map_option tr_dimension (cq_time_range a)"
    using t by (cases rule: option.rel_cases) (auto simp: same_range_def)
qed

lemma lockstep_clause:
  assumes "same_filter f g"
  shows "lockstep (=) (clause_sql dl d target f) (clause_sql dl d target g)"
proof -
  have e: "fs_op g = fs_op f" and n: "length (fs_values f) = length (fs_values g)" using assms by (auto simp: same_filter_def)
  have vs: "list_all2 (\<lambda>_ _. True) (fs_values f) (fs_values g)" using n by (simp add: list_all2_conv_all_nth)
  have bound: "lockstep (list_all2 (=)) (mapE (\<lambda>v. bind v (t v)) (fs_values f)) (mapE (\<lambda>v. bind v (t v)) (fs_values g))" for t
    by (rule lockstep_mapE [OF vs]) (rule lockstep_bind)
  consider "fs_values f = []" "fs_values g = []" | v w where "fs_values f = [v]" "fs_values g = [w]"
    | v v' vs w w' ws where "fs_values f = v # v' # vs" "fs_values g = w # w' # ws"
    using n by (cases "fs_values f"; cases "fs_values g"; cases "tl (fs_values f)"; cases "tl (fs_values g)") auto
  then show ?thesis
    unfolding clause_sql_def Let_def e
    by cases (use bound in \<open>auto simp: list.rel_eq simp del: mapE.simps intro!: lockstep_rules\<close>)
qed

lemma lockstep_scope_targets:
  assumes "same_but_values (co_float_repr C) a b"
  shows "lockstep (=) (scope_targets C a) (scope_targets C b)"
proof -
  have "(case cq_time_range b of None \<Rightarrow> [] | Some tr \<Rightarrow> [tr_dimension tr]) = (case cq_time_range a of None \<Rightarrow> [] | Some tr \<Rightarrow> [tr_dimension tr])"
    using same_parts(9) [OF assms] by (cases "cq_time_range a"; cases "cq_time_range b") auto
  then show ?thesis unfolding scope_targets_def same_parts(2,8) [OF assms] by (simp only:) (intro lockstep_rules refl)
qed

lemma lockstep_bounds:
  assumes "same_range a b"
  shows "lockstep (\<lambda>_ _. True) (liftE (range_bounds C a)) (liftE (range_bounds C b))"
proof (cases "jtruthy (tr_relative a)")
  case True
  then have "tr_relative b = tr_relative a" using assms by (auto simp: same_range_def)
  then have "range_bounds C b = range_bounds C a" using True by (simp add: range_bounds_def)
  then show ?thesis by (simp add: lockstep_def sum.rel_refl)
next
  case False
  then have "\<not> jtruthy (tr_relative b)" using assms by (auto simp: same_range_def)
  then show ?thesis using False by (simp add: lockstep_def range_bounds_def)
qed

lemma lockstep_filter_clause: "same_filter f g \<Longrightarrow> lockstep (=) (filter_clause C dl aliases f) (filter_clause C dl aliases g)"
  unfolding filter_clause_def by (auto simp: same_filter_def intro!: lockstep_rules lockstep_clause)

lemma lockstep_range_clause:
  assumes "same_range a b"
  shows "lockstep (\<lambda>x y. fst x = fst y) (range_clause C dl aliases a) (range_clause C dl aliases b)"
proof -
  have e: "tr_dimension b = tr_dimension a" using assms by (simp add: same_range_def)
  have "lockstep (\<lambda>x y. fst x = fst y) (range_text C dl aliases d x) (range_text C dl aliases d y)" for d x y
    unfolding range_text_def by (cases x; cases y) (auto intro!: lockstep_rules)
  then show ?thesis
    unfolding range_clause_def e by (intro lockstep_bindE_eq lockstep_the_dimension lockstep_if lockstep_raiseE lockstep_bindE [OF lockstep_bounds [OF assms]])
qed

definition same_where :: "string option \<times> resolved_range option \<Rightarrow> string option \<times> resolved_range option \<Rightarrow> bool" where
  "same_where x y \<longleftrightarrow> fst x = fst y"

lemma lockstep_where:
  assumes "same_but_values (co_float_repr C) a b"
  shows "lockstep same_where (where_sql C a dl aliases) (where_sql C b dl aliases)"
proof -
  have l: "list_all2 same_filter (sorted_filters (co_float_repr C) a) (sorted_filters (co_float_repr C) b)"
    and t: "rel_option same_range (cq_time_range a) (cq_time_range b)"
    using assms by (simp_all add: same_but_values_def)
  have clauses: "lockstep (list_all2 (=)) (mapE (filter_clause C dl aliases) (sorted_filters (co_float_repr C) a))
      (mapE (filter_clause C dl aliases) (sorted_filters (co_float_repr C) b))"
    by (rule lockstep_mapE [OF l]) (rule lockstep_filter_clause)
  from t show ?thesis
  proof (cases rule: option.rel_cases)
    case None
    then show ?thesis
      unfolding where_sql_def None option.case
      by (intro lockstep_bindE_eq clauses [unfolded list.rel_eq] lockstep_returnE) (simp add: same_where_def)
  next
    case (Some tr tr')
    show ?thesis
      unfolding where_sql_def Some(1,2) option.case
      by (intro lockstep_bindE_eq [OF clauses [unfolded list.rel_eq]] lockstep_bindE [OF lockstep_range_clause [OF Some(3)]])
        (auto simp: same_where_def intro!: lockstep_returnE)
  qed
qed

lemma lockstep_having_clauses:
  assumes "list_all2 same_having (cq_having a) (cq_having b)"
  shows "lockstep (=) (having_clauses C a target_of) (having_clauses C b target_of)"
proof -
  let ?f = "\<lambda>h. case map_of (md_measures (co_defn C)) (hs_metric h) of
              None \<Rightarrow> raiseE Unknown_metric
            | Some m \<Rightarrow>
                bindE (liftE (target_of m)) (\<lambda>target.
                bindE (bind (hs_value h) (ptype_of (hs_value h) None)) (\<lambda>ph.
                returnE (target @ '' '' @ hs_op h @ '' '' @ ph)))"
  have "lockstep (list_all2 (=)) (mapE ?f (cq_having a)) (mapE ?f (cq_having b))"
  proof (rule lockstep_mapE [OF assms])
    fix h k assume "same_having h k"
    then have e: "hs_metric k = hs_metric h" "hs_op k = hs_op h" by (simp_all add: same_having_def)
    show "lockstep (=) (?f h) (?f k)" unfolding e by (intro lockstep_rules refl)
  qed
  then show ?thesis by (simp only: having_clauses_def list.rel_eq)
qed

text \<open>The plans carry the resolved range along, which holds bounds; \<open>same_plan\<close> compares the rest.\<close>

definition same_plan :: "plan \<Rightarrow> plan \<Rightarrow> bool" where
  "same_plan p q \<longleftrightarrow> fst p = fst q \<and> snd (snd p) = snd (snd q)"

lemma lockstep_dim_items:
  "cq_dimensions b = cq_dimensions a \<Longrightarrow> lockstep (=) (dim_items C a dl aliases) (dim_items C b dl aliases)"
  unfolding dim_items_def by (simp only:) (intro lockstep_rules refl)

lemma lockstep_group_by:
  "cq_dimensions b = cq_dimensions a \<Longrightarrow> lockstep (=) (group_by C a dl aliases) (group_by C b dl aliases)"
  unfolding group_by_def by (simp only:) (intro lockstep_rules refl)

lemma lockstep_order_limit:
  assumes "same_but_values fr a b"
  shows "lockstep (=) (order_limit C a dl) (order_limit C b dl)"
  unfolding order_limit_def order_parts_def Let_def same_parts(1-4) [OF assms] by (intro lockstep_rules refl)

lemma lockstep_select_items:
  assumes "same_but_values fr a b"
  shows "lockstep (=) (select_items C a dl aliases) (select_items C b dl aliases)"
  unfolding select_items_def same_parts(1,6) [OF assms]
  by (intro lockstep_rules lockstep_dim_items same_parts(2) [OF assms] refl)

lemma lockstep_having_sql:
  assumes "same_but_values fr a b"
  shows "lockstep (=) (having_sql C a dl aliases) (having_sql C b dl aliases)"
proof -
  have "having_target C b dl aliases = having_target C a dl aliases"
    by (simp add: fun_eq_iff having_target_def same_parts(6) [OF assms])
  moreover have "list_all2 same_having (cq_having a) (cq_having b)" using assms by (simp add: same_but_values_def)
  ultimately show ?thesis
    unfolding having_sql_def same_parts(7) [OF assms] by (simp only:) (intro lockstep_rules lockstep_having_clauses refl)
qed

lemma lockstep_bindE_where:
  assumes "same_but_values (co_float_repr C) a b" and "\<And>w r r'. lockstep R (f w r) (g w r')"
  shows "lockstep R (bindE (where_sql C a dl al) (\<lambda>(w, r). f w r)) (bindE (where_sql C b dl al) (\<lambda>(w, r). g w r))"
  by (rule lockstep_bindE [OF lockstep_where [OF assms(1)]]) (use assms(2) in \<open>auto simp: same_where_def\<close>)

lemma lockstep_single:
  assumes "same_but_values (co_float_repr C) a b"
  shows "lockstep same_plan (compile_single C a dl base) (compile_single C b dl base)"
  unfolding compile_single_def same_parts(5) [OF assms]
  by (rule lockstep_bindE_where [OF assms] lockstep_bindE_eq lockstep_prod lockstep_liftE_eq lockstep_scope_targets [OF assms]
      lockstep_select_items [OF assms] lockstep_group_by [OF same_parts(2) [OF assms]] lockstep_having_sql [OF assms]
      lockstep_order_limit [OF assms] lockstep_returnE)+ (simp add: same_plan_def)

definition same_cte :: "string \<times> string list \<times> resolved_range option \<Rightarrow> string \<times> string list \<times> resolved_range option \<Rightarrow> bool" where
  "same_cte x y \<longleftrightarrow> fst x = fst y \<and> fst (snd x) = fst (snd y)"

lemma lockstep_cte:
  assumes "same_but_values (co_float_repr C) a b"
  shows "lockstep same_cte (compile_cte C a dl g) (compile_cte C b dl g)"
  unfolding compile_cte_def same_parts(5,6) [OF assms]
  by (rule lockstep_bindE_where [OF assms] lockstep_bindE_eq lockstep_prod lockstep_mapE_eq lockstep_liftE_eq lockstep_scope_targets [OF assms]
      lockstep_dim_items [OF same_parts(2) [OF assms]] lockstep_group_by [OF same_parts(2) [OF assms]] lockstep_returnE refl)+
    (simp add: same_cte_def)

lemma lockstep_multi:
  assumes "same_but_values (co_float_repr C) a b"
  shows "lockstep same_plan (compile_multi C a dl groups) (compile_multi C b dl groups)"
proof -
  have parts: "lockstep (list_all2 same_cte) (mapE (compile_cte C a dl) (enumerate 0 groups)) (mapE (compile_cte C b dl) (enumerate 0 groups))"
    by (rule lockstep_mapE [of "(=)"]) (auto simp: list.rel_eq intro: lockstep_cte [OF assms])
  have texts: "map fst ps = map fst qs \<and> concat (map (\<lambda>(_, hops, _). hops) ps) = concat (map (\<lambda>(_, hops, _). hops) qs)"
    if "list_all2 same_cte ps qs" for ps qs
    using that by (induction rule: list_all2_induct) (auto simp: same_cte_def)
  have items: "outer_items C b = outer_items C a" "join_cte b = join_cte a"
    unfolding outer_items_def [abs_def] join_cte_def [abs_def] same_parts(1,2) [OF assms] by (rule refl)+
  have h: "list_all2 same_having (cq_having a) (cq_having b)" using assms by (simp add: same_but_values_def)
  show ?thesis
    unfolding compile_multi_def Let_def items same_parts(7) [OF assms]
    by (rule lockstep_bindE [OF parts], (rule lockstep_bindE_eq lockstep_prod lockstep_liftE_eq lockstep_if
        lockstep_having_clauses [OF h] lockstep_order_limit [OF assms] lockstep_returnE refl)+)
      (simp add: same_plan_def texts)
qed

definition same_compiled :: "compiled \<Rightarrow> compiled \<Rightarrow> bool" where
  "same_compiled x y \<longleftrightarrow>
     length (cd_params x) = length (cd_params y) \<and>
     y = x\<lparr>cd_params := cd_params y, cd_time_range_resolved := cd_time_range_resolved y\<rparr>"

lemma same_compiled_sql: "same_compiled x y \<Longrightarrow> cd_sql y = cd_sql x"
  by (cases x; cases y) (simp add: same_compiled_def)

lemma lockstep_compile:
  assumes "same_but_values (co_float_repr C) a b"
  shows "lockstep same_compiled (compile C a dialect_name) (compile C b dialect_name)"
proof -
  have plan: "lockstep same_plan (compile_plan C a dl groups) (compile_plan C b dl groups)" for dl groups
    by (auto simp: compile_plan_def lockstep_single [OF assms] lockstep_multi [OF assms] split: list.split)
  have wrap: "lockstep same_compiled (case p of (sql, resolved, hops) \<Rightarrow> bindE (liftE x) (\<lambda>sch s. (Inr (f sql resolved hops sch (cs_params s) (cs_warnings s)), s)))
      (case q of (sql, resolved, hops) \<Rightarrow> bindE (liftE x) (\<lambda>sch s. (Inr (f sql resolved hops sch (cs_params s) (cs_warnings s)), s)))"
    if "same_plan p q" "\<And>sql r r' hops sch ps ps' w. length ps = length ps' \<Longrightarrow> same_compiled (f sql r hops sch ps w) (f sql r' hops sch ps' w)"
    for p q x f
    using that by (cases p; cases q) (auto simp: same_plan_def lockstep_def same_shape_def bindE_def sum.rel_eq split: sum.splits)
  show ?thesis
    unfolding compile_def same_parts(1,2) [OF assms]
    by (rule lockstep_option lockstep_raiseE lockstep_bindE_eq lockstep_mapE_eq lockstep_the_measure lockstep_base_measures
        lockstep_the_dimension lockstep_returnE lockstep_liftE_eq lockstep_bindE [OF plan] refl | (erule wrap, simp add: same_compiled_def))+
qed


subsection \<open>The bind parameters\<close>

text \<open>\<open>adds ps m\<close>: when the method \<open>m\<close> returns, it has appended exactly \<open>ps\<close> to the bind parameters.\<close>

definition adds :: "(string \<times> json) list \<Rightarrow> 'a comp \<Rightarrow> bool" where
  "adds ps m \<longleftrightarrow> (\<forall>s x s'. m s = (Inr x, s') \<longrightarrow> cs_params s' = cs_params s @ ps)"

lemma addsD: "adds ps m \<Longrightarrow> m s = (Inr x, s') \<Longrightarrow> cs_params s' = cs_params s @ ps"
  by (simp only: adds_def)

named_theorems adds_rules \<open>code constructs and the bind parameters they add\<close>

lemma adds_returnE [adds_rules]: "adds [] (returnE x)"
  by (simp add: adds_def)

lemma adds_raiseE [adds_rules]: "adds ps (raiseE e)"
  by (simp add: adds_def)

lemma adds_liftE [adds_rules]: "adds [] (liftE r)"
  by (simp add: adds_def)

lemma adds_bind [adds_rules]: "adds [(t, v)] (bind v t)"
  by (simp add: adds_def bind_def)

lemma adds_bindE_result:
  "adds ps m \<Longrightarrow> (\<And>s x s'. m s = (Inr x, s') \<Longrightarrow> adds qs (f x)) \<Longrightarrow> adds (ps @ qs) (bindE m f)"
  by (fastforce simp: adds_def bindE_eq_Inr)

lemma adds_bindE: "adds ps m \<Longrightarrow> (\<And>x. adds qs (f x)) \<Longrightarrow> adds (ps @ qs) (bindE m f)"
  by (rule adds_bindE_result)

lemma adds_bindE_first: "adds ps m \<Longrightarrow> (\<And>x. adds [] (f x)) \<Longrightarrow> adds ps (bindE m f)"
  using adds_bindE [of ps m "[]" f] by simp

lemma adds_bindE_rest: "adds [] m \<Longrightarrow> (\<And>x. adds qs (f x)) \<Longrightarrow> adds qs (bindE m f)"
  using adds_bindE [of "[]" m qs f] by simp

lemma adds_mapE: "(\<And>x. x \<in> set xs \<Longrightarrow> adds (p x) (f x)) \<Longrightarrow> adds (concat (map p xs)) (mapE f xs)"
proof (induction xs)
  case Nil
  show ?case unfolding mapE.simps by (simp only: list.map concat.simps adds_returnE)
next
  case (Cons x xs)
  then have "adds (concat (map p xs)) (mapE f xs)" by simp
  then have "adds (p x @ concat (map p xs)) (mapE f (x # xs))"
    unfolding mapE.simps using Cons.prems by (intro adds_bindE adds_bindE_first adds_returnE) simp_all
  then show ?case by simp
qed

lemma adds_mapE_none [adds_rules]: "(\<And>x. adds [] (f x)) \<Longrightarrow> adds [] (mapE f xs)"
  by (induction xs) (simp_all only: mapE.simps adds_returnE adds_bindE_rest)

lemma adds_if [adds_rules]: "adds ps m \<Longrightarrow> adds ps n \<Longrightarrow> adds ps (if b then m else n)"
  by simp

lemma adds_option [adds_rules]: "adds ps m \<Longrightarrow> (\<And>y. adds ps (f y)) \<Longrightarrow> adds ps (case x of None \<Rightarrow> m | Some y \<Rightarrow> f y)"
  by (cases x) simp_all

lemma adds_prod [adds_rules]: "(\<And>a b. adds ps (f a b)) \<Longrightarrow> adds ps (case p of (a, b) \<Rightarrow> f a b)"
  by (cases p) simp

lemma adds_warn [adds_rules]: "adds [] (warn w)"
  by (simp add: adds_def warn_def)

lemma adds_the_measure [adds_rules]: "adds [] (the_measure C n)"
  unfolding the_measure_def by (intro adds_rules adds_bindE_rest)

lemma adds_the_dimension [adds_rules]: "adds [] (the_dimension C n)"
  unfolding the_dimension_def by (intro adds_rules adds_bindE_rest)

lemma the_dimension_result: "the_dimension C n s = (Inr d, s') \<Longrightarrow> map_of (md_dimensions (co_defn C)) n = Some d"
  by (auto simp: the_dimension_def bindE_eq_Inr split: option.splits if_splits)

lemma adds_base_measures [adds_rules]: "adds [] (base_measures n C name seen)"
proof (induction n arbitrary: name seen)
  case 0
  show ?case unfolding base_measures.simps by (rule adds_raiseE)
next
  case (Suc n)
  show ?case unfolding base_measures.simps Let_def by (intro adds_rules adds_bindE_rest Suc.IH)
qed

definition filter_params :: "compiler \<Rightarrow> filter_spec \<Rightarrow> (string \<times> json) list" where
  "filter_params C f =
     map (\<lambda>v. (ptype_of v (map_option dm_dim_type (map_of (md_dimensions (co_defn C)) (fs_dimension f))), v)) (fs_values f)"

definition range_params :: "compiler \<Rightarrow> time_range option \<Rightarrow> (string \<times> json) list" where
  "range_params C r =
     (case r of None \<Rightarrow> []
      | Some tr \<Rightarrow> (case range_bounds C tr of Inl _ \<Rightarrow> [] | Inr (lo, hi) \<Rightarrow> [(bound_type C lo, lo), (bound_type C hi, hi)]))"

definition scope_params :: "compiler \<Rightarrow> compile_request \<Rightarrow> (string \<times> json) list" where
  "scope_params C req = concat (map (filter_params C) (sorted_filters (co_float_repr C) req)) @ range_params C (cq_time_range req)"

definition having_params :: "compile_request \<Rightarrow> (string \<times> json) list" where
  "having_params req = map (\<lambda>h. (ptype_of (hs_value h) None, hs_value h)) (cq_having req)"

lemma values_ok_cases:
  assumes "op \<in> set FILTER_OPS" and "values_ok op vs"
  obtains "op = ''IS NULL'' \<or> op = ''IS NOT NULL''" "vs = []"
  | "op = ''IN'' \<or> op = ''NOT IN''"
  | lo hi where "op = ''BETWEEN''" "vs = [lo, hi]"
  | v where "op \<notin> set [''IS NULL'', ''IS NOT NULL'', ''IN'', ''NOT IN'', ''BETWEEN'']" "vs = [v]"
proof -
  have "op \<in> set [''IS NULL'', ''IS NOT NULL''] \<or> op \<in> set [''IN'', ''NOT IN''] \<or> op = ''BETWEEN'' \<or>
      op \<in> set [''='', ''!='', ''>'', ''>='', ''<'', ''<='', ''LIKE'']"
    using assms(1) by (auto simp: FILTER_OPS_def)
  then consider "op \<in> set [''IS NULL'', ''IS NOT NULL'']" | "op \<in> set [''IN'', ''NOT IN'']" | "op = ''BETWEEN''"
    | "op \<in> set [''='', ''!='', ''>'', ''>='', ''<'', ''<='', ''LIKE'']" by blast
  then show ?thesis
  proof cases
    case 1
    then show ?thesis using assms(2) by (intro that(1)) (auto simp: values_ok_def)
  next
    case 2
    then show ?thesis by (intro that(2)) auto
  next
    case 3
    then have "length vs = 2" using assms(2) by (simp add: values_ok_def)
    then obtain lo hi where "vs = [lo, hi]" by (auto simp: numeral_2_eq_2 length_Suc_conv)
    with 3 show ?thesis by (rule that(3))
  next
    case 4
    then have "length vs = 1" using assms(2) by (simp add: values_ok_def)
    then obtain v where "vs = [v]" by (auto simp: length_Suc_conv)
    moreover have "op \<notin> set [''IS NULL'', ''IS NOT NULL'', ''IN'', ''NOT IN'', ''BETWEEN'']" using 4 by auto
    ultimately show ?thesis by (rule that(4) [rotated])
  qed
qed

lemma adds_clause:
  assumes "filter_ok f"
  shows "adds (map (\<lambda>v. (ptype_of v (Some (dm_dim_type d)), v)) (fs_values f)) (clause_sql dl d target f)"
proof -
  let ?t = "\<lambda>v. ptype_of v (Some (dm_dim_type d))"
  have in_list: "adds (map (\<lambda>v. (?t v, v)) (fs_values f)) (bindE (mapE (\<lambda>v. bind v (?t v)) (fs_values f)) (\<lambda>phs. returnE (g phs)))" for g :: "_ \<Rightarrow> string"
    using adds_mapE [of "fs_values f" "\<lambda>v. [(?t v, v)]" "\<lambda>v. bind v (?t v)"]
    by (intro adds_bindE_first adds_returnE) (simp add: adds_bind)
  from assms have "fs_op f \<in> set FILTER_OPS" "values_ok (fs_op f) (fs_values f)" by (simp_all add: filter_ok_def)
  then show ?thesis
  proof (cases rule: values_ok_cases)
    case 1
    then show ?thesis by (auto simp: clause_sql_def adds_def)
  next
    case 2
    then show ?thesis using in_list by (auto simp: clause_sql_def)
  next
    case (3 lo hi)
    have "adds ([(?t lo, lo)] @ [(?t hi, hi)]) (bindE (bind lo (?t lo)) (\<lambda>l. bindE (bind hi (?t hi)) (\<lambda>h. returnE (target @ '' BETWEEN '' @ l @ '' AND '' @ h))))"
      by (intro adds_bindE adds_bindE_first adds_bind adds_returnE)
    with 3 show ?thesis by (simp add: clause_sql_def)
  next
    case (4 v)
    have "adds [(?t v, v)] (bindE (bind v (?t v)) (\<lambda>ph. returnE (target @ '' '' @ fs_op f @ '' '' @ ph)))"
      by (intro adds_bindE_first adds_bind adds_returnE)
    with 4 show ?thesis by (simp add: clause_sql_def)
  qed
qed

lemma adds_filter_clause:
  assumes "filter_ok f"
  shows "adds (filter_params C f) (filter_clause C dl aliases f)"
  unfolding filter_params_def filter_clause_def
  by (rule adds_bindE_result [where ps = "[]", OF adds_the_dimension, simplified], drule the_dimension_result)
    (auto intro!: adds_bindE_rest adds_liftE adds_clause [OF assms])

lemma adds_range_text: "adds ([(bound_type C (fst b), fst b)] @ [(bound_type C (snd b), snd b)]) (range_text C dl aliases d b)"
  unfolding range_text_def case_prod_beta by (intro adds_bindE_rest adds_liftE adds_bindE adds_bindE_first adds_bind adds_returnE)

lemma adds_range_clause: "adds (range_params C (Some tr)) (range_clause C dl aliases tr)"
  unfolding range_clause_def
proof (rule adds_bindE_rest [OF adds_the_dimension], rule adds_if [OF adds_raiseE])
  fix d
  show "adds (range_params C (Some tr)) (bindE (liftE (range_bounds C tr)) (range_text C dl aliases d))"
    by (rule adds_bindE_result [where ps = "[]", OF adds_liftE, simplified])
      (use adds_range_text [of C _ dl aliases d] in \<open>auto simp: range_params_def\<close>)
qed

lemma adds_where:
  assumes "\<forall>f \<in> set (cq_filters req). filter_ok f"
  shows "adds (scope_params C req) (where_sql C req dl aliases)"
  unfolding where_sql_def scope_params_def
proof (rule adds_bindE [OF adds_mapE], rule adds_filter_clause)
  fix f assume "f \<in> set (sorted_filters (co_float_repr C) req)"
  then show "filter_ok f" using assms by (simp add: sorted_filters_def)
next
  fix clauses
  have none: "range_params C None = []" by (simp add: range_params_def)
  show "adds (range_params C (cq_time_range req)) (case cq_time_range req of
       None \<Rightarrow> returnE (if clauses = [] then None else Some (join '' AND '' clauses), None)
     | Some tr \<Rightarrow> bindE (range_clause C dl aliases tr) (\<lambda>(clause, resolved). returnE (Some (join '' AND '' (clauses @ [clause])), Some resolved)))"
    by (cases "cq_time_range req")
      (simp_all only: option.case none adds_returnE, intro adds_bindE_first adds_range_clause adds_prod adds_returnE)
qed

lemma adds_having_clauses: "adds (having_params req) (having_clauses C req target_of)"
proof -
  have m: "having_params req = concat (map (\<lambda>h. [(ptype_of (hs_value h) None, hs_value h)]) (cq_having req))"
    by (simp add: having_params_def concat_map_singleton)
  show ?thesis
    unfolding having_clauses_def m
    by (rule adds_mapE) (intro adds_option adds_raiseE adds_bindE_rest adds_liftE adds_bindE_first adds_bind adds_returnE)
qed

lemma having_params_empty: "cq_having req = [] \<Longrightarrow> having_params req = []"
  by (simp add: having_params_def)

lemma adds_selection [adds_rules]:
  "adds [] (scope_targets C req)" "adds [] (dim_items C req dl aliases)" "adds [] (select_items C req dl aliases)"
  "adds [] (group_by C req dl aliases)" "adds [] (order_limit C req dl)"
  unfolding scope_targets_def dim_items_def select_items_def group_by_def order_limit_def order_parts_def Let_def
  by (intro adds_rules adds_bindE_rest)+

lemma adds_having_sql: "adds (having_params req) (having_sql C req dl aliases)"
  unfolding having_sql_def
  by (cases "cq_having req = []") (simp_all only: if_True if_False simp_thms having_params_empty adds_returnE adds_bindE_first adds_having_clauses)

lemma adds_single:
  assumes "\<forall>f \<in> set (cq_filters req). filter_ok f"
  shows "adds (scope_params C req @ having_params req) (compile_single C req dl base)"
  unfolding compile_single_def
  by (rule adds_bindE [OF adds_where [OF assms]] adds_bindE_first [OF adds_having_sql] adds_bindE_rest adds_prod adds_rules)+

lemma adds_cte:
  assumes "\<forall>f \<in> set (cq_filters req). filter_ok f"
  shows "adds (scope_params C req) (compile_cte C req dl g)"
  unfolding compile_cte_def
  by (rule adds_bindE_first [OF adds_where [OF assms]] adds_bindE_rest adds_prod adds_rules)+

lemma adds_multi:
  assumes "\<forall>f \<in> set (cq_filters req). filter_ok f"
  shows "adds (concat (replicate (length groups) (scope_params C req)) @ having_params req) (compile_multi C req dl groups)"
proof -
  have "concat (map (\<lambda>_. scope_params C req) (enumerate 0 groups)) = concat (replicate (length groups) (scope_params C req))"
    by (simp add: map_replicate_const)
  then have parts: "adds (concat (replicate (length groups) (scope_params C req))) (mapE (compile_cte C req dl) (enumerate 0 groups))"
    using adds_mapE [of "enumerate 0 groups" "\<lambda>_. scope_params C req" "compile_cte C req dl"] adds_cte [OF assms] by simp
  have having: "adds (having_params req) (if cq_having req = [] then returnE [] else bindE (having_clauses C req t) (\<lambda>hs. returnE (g hs)))"
    for t and g :: "_ \<Rightarrow> string"
    by (cases "cq_having req = []") (simp_all only: if_True if_False simp_thms having_params_empty adds_returnE adds_bindE_first adds_having_clauses)
  show ?thesis
    unfolding compile_multi_def Let_def
    by (rule adds_bindE [OF parts] adds_bindE_first [OF having] adds_bindE_rest adds_prod adds_rules)+
qed

lemma adds_plan:
  assumes "\<forall>f \<in> set (cq_filters req). filter_ok f" and "compile_plan C req dl groups s = (Inr p, s')"
  shows "groups \<noteq> [] \<and> cs_params s' = cs_params s @ concat (replicate (length groups) (scope_params C req)) @ having_params req"
proof (cases "\<exists>e ns. groups = [(e, ns)]")
  case True
  then obtain e ns where g: "groups = [(e, ns)]" by blast
  then have "compile_single C req dl e s = (Inr p, s')" using assms(2) by (simp add: compile_plan_def)
  from addsD [OF adds_single [OF assms(1)] this] g show ?thesis by simp
next
  case False
  then have m: "compile_multi C req dl groups s = (Inr p, s')"
    using assms(2) by (auto simp: compile_plan_def split: list.splits)
  moreover have "groups \<noteq> []" using m by (auto simp: compile_multi_def bindE_eq_Inr Let_def guardR_def)
  ultimately show ?thesis using addsD [OF adds_multi [OF assms(1)] m] by simp
qed


subsection \<open>A concrete compiler\<close>

definition demo_compiler :: compiler where
  "demo_compiler = \<lparr>co_defn = demo_model, co_broken = [], co_today_in = (\<lambda>_. Some \<lparr>dt_year = 2026, dt_month = 3, dt_day = 15\<rparr>), co_timezone = ''UTC'',
     co_float_repr = demo_float_repr, co_str_of = (\<lambda>_. [])\<rparr>"

definition demo_filter :: "string \<Rightarrow> json list \<Rightarrow> filter_spec" where
  "demo_filter op vs = \<lparr>fs_dimension = ''region'', fs_op = op, fs_values = vs\<rparr>"

definition demo_request :: "filter_spec list \<Rightarrow> compile_request" where
  "demo_request fs = \<lparr>cq_metrics = [''revenue''], cq_dimensions = [\<lparr>dr_name = ''day'', dr_grain = Some ''month''\<rparr>], cq_filters = fs,
     cq_time_range = Some \<lparr>tr_dimension = ''day'', tr_start = JStr ''2026-01-01'', tr_end = JStr ''2026-02-01'', tr_relative = JNull\<rparr>,
     cq_order_by = [], cq_limit = JInt 10, cq_having = [], cq_join_paths = [], cq_order_within_group = None\<rparr>"


text \<open>Parameters of a two-scope query, computed.\<close>

definition having_gt :: "string \<Rightarrow> having_spec" where
  "having_gt metric = \<lparr>hs_metric = metric, hs_op = ''>'', hs_value = JInt 5\<rparr>"


text \<open>A having clause on a measure of another entity. In a single-entity query a plain \<open>count\<close> measure
  becomes \<open>count(*)\<close> of the query's own rows, whatever its entity: here the number of orders, not of
  customers, is compared.\<close>
theorem having_counts_wrong_entity:
  "\<exists>c pre. run_compile demo_compiler ((demo_request [])\<lparr>cq_dimensions := [], cq_time_range := None, cq_limit := JNull, cq_having := [having_gt ''buyers'']\<rparr>) ''trino''
       = Inr c \<and> cd_sql c = pre @ ''{{dataset('' @ [quote_char] @ ''orders'' @ [quote_char] @ '')}} '' @ [CHR 0x22] @ ''o'' @ [CHR 0x22] @ '' HAVING count(*) > $1''"
proof -
  let ?q = "(demo_request [])\<lparr>cq_dimensions := [], cq_time_range := None, cq_limit := JNull, cq_having := [having_gt ''buyers'']\<rparr>"
  let ?tail = "''{{dataset('' @ [quote_char] @ ''orders'' @ [quote_char] @ '')}} '' @ [CHR 0x22] @ ''o'' @ [CHR 0x22] @ '' HAVING count(*) > $1''"
  have "case run_compile demo_compiler ?q ''trino'' of Inl _ \<Rightarrow> False | Inr c \<Rightarrow> drop (length (cd_sql c) - length ?tail) (cd_sql c) = ?tail"
    by code_simp
  then obtain c where "run_compile demo_compiler ?q ''trino'' = Inr c" and "drop (length (cd_sql c) - length ?tail) (cd_sql c) = ?tail"
    by (auto split: sum.splits)
  then show ?thesis by (metis append_take_drop_id)
qed

text \<open>In a query over several entities a having clause on a measure that is not selected is an unhandled
  \<open>KeyError\<close>: no CTE carries the measure.\<close>
theorem having_unselected_raises:
  "run_compile (demo_compiler\<lparr>co_defn := demo_model\<lparr>md_measures := md_measures demo_model @
       [(''orders_n'', demo_measure ''orders_n'' (Some ''orders'') (Some ''count'') None None None)]\<rparr>\<rparr>)
     ((demo_request [])\<lparr>cq_metrics := [''revenue'', ''buyers''], cq_dimensions := [], cq_time_range := None, cq_having := [having_gt ''orders_n'']\<rparr>) ''trino''
   = Inl Py_key_error"
  by code_simp

end
