(* ===== verification/Semantic_Order.thy ===== *)
theory Semantic_Order
  imports Semantic_Values "HOL-Library.Multiset"
begin

text \<open>
  Determinism of the compiler (BR-7): filters are compiled in the order of a key that determines the
  filter, so the order in which a client lists them does not matter. The key ends in the JSON text of the
  filter's values, whose strings are escaped to ASCII; \<open>escaping\<close> of the canonical JSON theory is interpreted
  for that text.
\<close>

subsection \<open>The sort key determines the filter\<close>

lemma unesc_ascii: "unesc (ascii_char c @ s) = Some (c, s)"
  using unesc_hex [of c s] unesc_dumps [of c s] by (simp add: ascii_char_def Let_def)

lemma ascii_no_quote: "ascii_char c \<noteq> [] \<and> hd (ascii_char c) \<noteq> CHR 0x22"
  using dumps_no_quote [of c] by (simp add: ascii_char_def Let_def)

interpretation ascii: escaping ascii_char
  by (unfold_locales, rule unesc_ascii, rule ascii_no_quote)

lemma canonical_text_inj: "float_repr_ok fr \<Longrightarrow> canonical_text fr a = canonical_text fr b \<longleftrightarrow> canon a = canon b"
  unfolding canonical_text_def by (rule ascii.dumps_inj)

lemma canon_scalar: "hashable v \<Longrightarrow> canon v = v"
  by (cases v) (simp_all add: hashable_def)

lemma canon_scalars: "list_all hashable vs \<Longrightarrow> map canon vs = vs"
  by (induction vs) (simp_all add: canon_scalar)

lemma filter_key_inj:
  assumes "float_repr_ok fr" and "\<forall>f \<in> F. filter_ok f"
  shows "inj_on (filter_key fr) F"
proof (rule inj_onI)
  fix f g assume "f \<in> F" "g \<in> F" and e: "filter_key fr f = filter_key fr g"
  then have "list_all hashable (fs_values f)" "list_all hashable (fs_values g)" using assms(2) by (auto simp: filter_ok_def)
  then have "fs_values f = fs_values g" using e canonical_text_inj [OF assms(1)] by (simp add: filter_key_def canon_scalars)
  with e show "f = g" by (cases f; cases g) (simp add: filter_key_def)
qed

subsection \<open>The order of filters does not matter\<close>

lemma sort_key_perm:
  assumes "inj_on f (set xs)" and "mset ys = mset xs"
  shows "sort_key f ys = sort_key f xs"
proof -
  have set: "set ys = set xs" using assms(2) by (metis set_mset_mset)
  have "sort (map f xs) = map f (sort_key f xs)" by (rule properties_for_sort) simp_all
  moreover have "sort (map f xs) = map f (sort_key f ys)" using assms(2) by (intro properties_for_sort) simp_all
  ultimately have "map f (sort_key f ys) = map f (sort_key f xs)" by simp
  then show ?thesis by (rule map_inj_on) (use assms(1) set in simp)
qed

lemma filters_only:
  assumes "sorted_filters (co_float_repr C) (a\<lparr>cq_filters := fs\<rparr>) = sorted_filters (co_float_repr C) a"
  shows "run_compile C (a\<lparr>cq_filters := fs\<rparr>) dialect_name = run_compile C a dialect_name"
proof -
  let ?b = "a\<lparr>cq_filters := fs\<rparr>"
  have sel: "cq_metrics ?b = cq_metrics a" "cq_dimensions ?b = cq_dimensions a" "cq_time_range ?b = cq_time_range a" "cq_order_by ?b = cq_order_by a"
    "cq_limit ?b = cq_limit a" "cq_having ?b = cq_having a" "cq_join_paths ?b = cq_join_paths a"
    "cq_order_within_group ?b = cq_order_within_group a" by simp_all
  have scope: "scope_targets C ?b = scope_targets C a" "where_sql C ?b = where_sql C a"
    unfolding scope_targets_def where_sql_def [abs_def] assms sel by (rule refl)+
  have rest: "dim_items C ?b = dim_items C a" "select_items C ?b = select_items C a" "group_by C ?b = group_by C a"
    "order_limit C ?b = order_limit C a" "having_clauses C ?b = having_clauses C a" "having_sql C ?b = having_sql C a"
    "outer_items C ?b = outer_items C a" "join_cte ?b = join_cte a"
    unfolding dim_items_def [abs_def] select_items_def [abs_def] group_by_def [abs_def] order_limit_def [abs_def] order_parts_def [abs_def]
      having_clauses_def [abs_def] having_sql_def [abs_def] having_target_def [abs_def] outer_items_def [abs_def] join_cte_def [abs_def] sel
    by (rule refl)+
  have cte: "compile_cte C ?b = compile_cte C a"
    unfolding compile_cte_def [abs_def] scope rest sel by (rule refl)
  have "compile_single C ?b = compile_single C a" "compile_multi C ?b = compile_multi C a"
    unfolding compile_single_def [abs_def] compile_multi_def [abs_def] scope rest cte sel by (rule refl)+
  then show ?thesis unfolding run_compile_def compile_def compile_plan_def sel by (simp only:)
qed

text \<open>C28. BR-7: the compiled query is a function of the request as a set of filters. A request whose filters are
  listed in another order compiles to the same SQL, parameters, schema and warnings, or fails with the same error.\<close>
theorem filter_order_irrelevant:
  assumes "float_repr_ok (co_float_repr C)" and "\<forall>f \<in> set (cq_filters a). filter_ok f" and "mset fs = mset (cq_filters a)"
  shows "run_compile C (a\<lparr>cq_filters := fs\<rparr>) dialect_name = run_compile C a dialect_name"
proof (rule filters_only)
  show "sorted_filters (co_float_repr C) (a\<lparr>cq_filters := fs\<rparr>) = sorted_filters (co_float_repr C) a"
    using sort_key_perm [OF filter_key_inj [OF assms(1,2)] assms(3)] by (simp add: sorted_filters_def)
qed

theorem filter_order_irrelevant_witness:
  "run_compile demo_compiler (demo_request [demo_filter ''!='' [JStr ''us''], demo_filter ''='' [JStr ''eu'']]) ''trino'' =
   run_compile demo_compiler (demo_request [demo_filter ''='' [JStr ''eu''], demo_filter ''!='' [JStr ''us'']]) ''trino''"
proof -
  let ?a = "demo_request [demo_filter ''='' [JStr ''eu''], demo_filter ''!='' [JStr ''us'']]"
  have "\<forall>f \<in> set (cq_filters ?a). filter_ok f" by code_simp
  moreover have "float_repr_ok (co_float_repr demo_compiler)" by (simp add: demo_compiler_def demo_float_repr_ok)
  ultimately have "run_compile demo_compiler (?a\<lparr>cq_filters := [demo_filter ''!='' [JStr ''us''], demo_filter ''='' [JStr ''eu'']]\<rparr>) ''trino'' =
      run_compile demo_compiler ?a ''trino''"
    by (intro filter_order_irrelevant) (simp_all add: demo_request_def add_mset_commute)
  then show ?thesis by (simp add: demo_request_def)
qed

end
