(* ===== verification/Entity_Resolution.thy ===== *)
theory Entity_Resolution
  imports Union_Find "HOL-Library.List_Lexorder" "HOL-Library.Char_ord" "HOL-Library.Multiset"
begin

text \<open>
  The entity-resolution engine of the dataset service
  (\<open>services/dataset-service/app/domain/entity_resolution.py\<close>): normalisation, similarity, the two
  matching stages of \<open>resolve\<close>, and the clusters it returns.

  A row is a dictionary of JSON values; \<open>str_of\<close> stands for Python's \<open>str\<close> on them. Scores are
  exact rationals where the code has floats. The dictionaries \<open>method\<close> and \<open>evidence\<close> hold every
  record id from the start and are functions. \<open>nfkd_ascii\<close> is the effect of
  \<open>unicodedata.normalize("NFKD", ...).encode("ascii", "ignore")\<close> on one character.
\<close>

subsection \<open>Configuration and results\<close>

type_synonym row = "(string, json) dict"

record scoring_field =
  sf_column :: string
  sf_weight :: rat

record resolution_config =
  rc_entity_type :: string
  rc_deterministic_keys :: "string list list"
  rc_scoring_fields :: "scoring_field list"
  rc_auto_merge_threshold :: rat
  rc_review_threshold :: rat
  rc_blocking_fields :: "string list"

datatype pair_evidence = Blocked_on string | Fields "(string, rat) dict"

datatype evidence = Key_ev "string list" "string list" | Score_ev rat pair_evidence

datatype match_method = Singleton | Deterministic | Probabilistic

record cluster =
  cl_resolved_entity_id :: string
  cl_member_pks :: "string list"
  cl_confidence :: rat
  cl_method :: match_method
  cl_evidence :: "evidence list"

record merge_candidate =
  mc_left_pk :: string
  mc_right_pk :: string
  mc_score :: rat
  mc_evidence :: pair_evidence

record resolution_result =
  rr_clusters :: "cluster list"
  rr_merge_candidates :: "merge_candidate list"

subsection \<open>Normalisation and similarity\<close>

definition nfkd_ascii :: "char \<Rightarrow> string" where
  "nfkd_ascii c =
     (let n = of_char c :: nat
      in if n < 0x80 then [c]
         else if n \<in> {0xA0, 0xA8, 0xAF, 0xB4, 0xB8} then '' ''
         else if n = 0xAA \<or> 0xE0 \<le> n \<and> n \<le> 0xE5 then ''a''
         else if n = 0xB2 then ''2'' else if n = 0xB3 then ''3'' else if n = 0xB9 then ''1''
         else if n = 0xBA \<or> 0xF2 \<le> n \<and> n \<le> 0xF6 then ''o''
         else if n = 0xBC then ''14'' else if n = 0xBD then ''12'' else if n = 0xBE then ''34''
         else if 0xC0 \<le> n \<and> n \<le> 0xC5 then ''A'' else if n = 0xC7 then ''C''
         else if 0xC8 \<le> n \<and> n \<le> 0xCB then ''E'' else if 0xCC \<le> n \<and> n \<le> 0xCF then ''I''
         else if n = 0xD1 then ''N'' else if 0xD2 \<le> n \<and> n \<le> 0xD6 then ''O''
         else if 0xD9 \<le> n \<and> n \<le> 0xDC then ''U'' else if n = 0xDD then ''Y''
         else if n = 0xE7 then ''c'' else if 0xE8 \<le> n \<and> n \<le> 0xEB then ''e''
         else if 0xEC \<le> n \<and> n \<le> 0xEF then ''i'' else if n = 0xF1 then ''n''
         else if 0xF9 \<le> n \<and> n \<le> 0xFC then ''u'' else if n = 0xFD \<or> n = 0xFF then ''y''
         else [])"

lemma dropWhile_shorter: "t \<noteq> [] \<Longrightarrow> P (hd t) \<Longrightarrow> length (dropWhile P t) < length t"
  by (cases t) (simp_all add: le_imp_less_Suc length_dropWhile_le)

function py_split :: "string \<Rightarrow> string list" where
  "py_split s =
     (let t = dropWhile py_space s
      in if t = [] then [] else takeWhile (\<lambda>c. \<not> py_space c) t # py_split (dropWhile (\<lambda>c. \<not> py_space c) t))"
  by pat_completeness auto

termination
proof (relation "measure length", goal_cases)
  case (2 s t)
  have "\<not> py_space (hd t)" using 2 hd_dropWhile [of py_space s] by auto
  then have "length (dropWhile (\<lambda>c. \<not> py_space c) t) < length t"
    using 2 by (intro dropWhile_shorter) auto
  also have "\<dots> \<le> length s" using 2 by (simp add: length_dropWhile_le)
  finally show ?case by simp
qed simp

declare py_split.simps [simp del]

definition words_joined :: "string list \<Rightarrow> string" where
  "words_joined ws = concat (case ws of [] \<Rightarrow> [] | w # rest \<Rightarrow> w # map (\<lambda>v. '' '' @ v) rest)"

definition norm_text :: "string \<Rightarrow> string" where
  "norm_text s = words_joined (py_split (py_lower (concat (map nfkd_ascii s))))"

definition norm_of :: "(json \<Rightarrow> string) \<Rightarrow> json option \<Rightarrow> string" where
  "norm_of str_of v = (case v of None \<Rightarrow> [] | Some JNull \<Rightarrow> [] | Some x \<Rightarrow> norm_text (str_of x))"

fun pairs_of :: "string \<Rightarrow> string list" where
  "pairs_of (a # b # s) = [a, b] # pairs_of (b # s)"
| "pairs_of _ = []"

definition bigrams :: "string \<Rightarrow> string list" where
  "bigrams s =
     (let t = filter (\<lambda>c. c \<noteq> CHR '' '') s
      in if length t \<ge> 2 then remdups (pairs_of t) else if t \<noteq> [] then [t] else [])"

definition similarity :: "string \<Rightarrow> string \<Rightarrow> rat" where
  "similarity a b =
     (if a = [] \<and> b = [] then 1
      else if a = [] \<or> b = [] then 0
      else if a = b then 1
      else (let ga = bigrams a; gb = bigrams b
            in if ga = [] \<or> gb = [] then 0
               else of_nat (2 * length (filter (\<lambda>g. g \<in> set gb) ga)) / of_nat (length ga + length gb)))"

definition string_similarity :: "(json \<Rightarrow> string) \<Rightarrow> json option \<Rightarrow> json option \<Rightarrow> rat" where
  "string_similarity str_of a b = similarity (norm_of str_of a) (norm_of str_of b)"

fun det_key_values :: "(json \<Rightarrow> string) \<Rightarrow> row \<Rightarrow> string list \<Rightarrow> string list option" where
  "det_key_values str_of row [] = Some []"
| "det_key_values str_of row (col # cols) =
     (let v = norm_of str_of (map_of row col)
      in if v = [] then None else map_option ((#) v) (det_key_values str_of row cols))"

definition round4 :: "rat \<Rightarrow> rat" where
  "round4 x = of_int (py_round (x * 10000)) / 10000"

fun blocked_on :: "(json \<Rightarrow> string) \<Rightarrow> row \<Rightarrow> row \<Rightarrow> string list \<Rightarrow> string option" where
  "blocked_on str_of a b [] = None"
| "blocked_on str_of a b (bf # bfs) =
     (let va = norm_of str_of (map_of a bf); vb = norm_of str_of (map_of b bf)
      in if va \<noteq> [] \<and> vb \<noteq> [] \<and> va \<noteq> vb then Some bf else blocked_on str_of a b bfs)"

definition field_score :: "(json \<Rightarrow> string) \<Rightarrow> row \<Rightarrow> row \<Rightarrow> scoring_field \<Rightarrow> rat" where
  "field_score str_of a b f = string_similarity str_of (map_of a (sf_column f)) (map_of b (sf_column f))"

definition pair_score :: "(json \<Rightarrow> string) \<Rightarrow> row \<Rightarrow> row \<Rightarrow> resolution_config \<Rightarrow> rat \<times> pair_evidence" where
  "pair_score str_of a b cfg =
     (case blocked_on str_of a b (rc_blocking_fields cfg) of
        Some bf \<Rightarrow> (0, Blocked_on bf)
      | None \<Rightarrow>
          (let fs = rc_scoring_fields cfg;
               w = sum_list (map (\<lambda>f. max 0 (sf_weight f)) fs);
               total_w = (if w = 0 then 1 else w);
               acc = sum_list (map (\<lambda>f. field_score str_of a b f * max 0 (sf_weight f)) fs);
               per_field = foldl (\<lambda>d f. AList.update (sf_column f) (round4 (field_score str_of a b f)) d) [] fs
           in (acc / total_w, Fields per_field)))"

subsection \<open>Matching\<close>

record er_state =
  er_uf :: "string forest"
  er_method :: "string \<Rightarrow> match_method"
  er_evidence :: "string \<Rightarrow> evidence list"
  er_candidates :: "merge_candidate list"

fun bucket :: "('p \<Rightarrow> 'k option) \<Rightarrow> 'p list \<Rightarrow> ('k, 'p list) dict \<Rightarrow> ('k, 'p list) dict" where
  "bucket key [] d = d"
| "bucket key (p # ps) d =
     bucket key ps
       (case key p of
          None \<Rightarrow> d
        | Some k \<Rightarrow> AList.update k ((case map_of d k of None \<Rightarrow> [] | Some ms \<Rightarrow> ms) @ [p]) d)"

fun merge_members ::
    "string list \<Rightarrow> string list \<Rightarrow> string \<Rightarrow> string list \<Rightarrow> er_state \<Rightarrow> er_state option" where
  "merge_members key kv anchor [] st = Some st"
| "merge_members key kv anchor (m # ms) st =
     (case uf_union anchor m (er_uf st) of
        None \<Rightarrow> None
      | Some u \<Rightarrow>
          merge_members key kv anchor ms
            (st\<lparr>er_uf := u,
                er_method := (er_method st)(m := Deterministic, anchor := Deterministic),
                er_evidence := (er_evidence st)(m := er_evidence st m @ [Key_ev key kv])\<rparr>))"

fun merge_buckets :: "string list \<Rightarrow> (string list, string list) dict \<Rightarrow> er_state \<Rightarrow> er_state option" where
  "merge_buckets key [] st = Some st"
| "merge_buckets key ((kv, members) # bs) st =
     (case (if length members > 1 then merge_members key kv (hd members) (tl members) st else Some st) of
        None \<Rightarrow> None
      | Some st' \<Rightarrow> merge_buckets key bs st')"

fun match_keys ::
    "(string \<Rightarrow> string list \<Rightarrow> string list option) \<Rightarrow> string list \<Rightarrow> string list list \<Rightarrow> er_state \<Rightarrow> er_state option" where
  "match_keys values pks [] st = Some st"
| "match_keys values pks (key # keys) st =
     (case merge_buckets key (bucket (\<lambda>p. values p key) pks []) st of
        None \<Rightarrow> None
      | Some st' \<Rightarrow> match_keys values pks keys st')"

definition score_pair ::
    "(string \<Rightarrow> string \<Rightarrow> rat \<times> pair_evidence) \<Rightarrow> resolution_config \<Rightarrow> string \<Rightarrow> string \<Rightarrow> er_state \<Rightarrow> er_state option" where
  "score_pair score cfg a b st =
     (case uf_find (er_uf st) a of
        None \<Rightarrow> None
      | Some (ra, u1) \<Rightarrow>
          (case uf_find u1 b of
             None \<Rightarrow> None
           | Some (rb, u2) \<Rightarrow>
               if ra = rb then Some (st\<lparr>er_uf := u2\<rparr>)
               else (case score a b of (s, ev) \<Rightarrow>
                 if s \<ge> rc_auto_merge_threshold cfg
                 then (case uf_union a b u2 of
                         None \<Rightarrow> None
                       | Some u3 \<Rightarrow>
                           (let m1 = (if er_method st a = Singleton then (er_method st)(a := Probabilistic) else er_method st);
                                m2 = (if m1 b = Singleton then m1(b := Probabilistic) else m1)
                            in Some (st\<lparr>er_uf := u3, er_method := m2,
                                 er_evidence := (er_evidence st)(b := er_evidence st b @ [Score_ev (round4 s) ev])\<rparr>)))
                 else if s \<ge> rc_review_threshold cfg
                 then Some (st\<lparr>er_uf := u2, er_candidates := er_candidates st @
                        [\<lparr>mc_left_pk = a, mc_right_pk = b, mc_score = round4 s, mc_evidence = ev\<rparr>]\<rparr>)
                 else Some (st\<lparr>er_uf := u2\<rparr>))))"

fun score_against ::
    "(string \<Rightarrow> string \<Rightarrow> rat \<times> pair_evidence) \<Rightarrow> resolution_config \<Rightarrow> string \<Rightarrow> string list \<Rightarrow> er_state \<Rightarrow> er_state option" where
  "score_against score cfg a [] st = Some st"
| "score_against score cfg a (b # bs) st =
     (case score_pair score cfg a b st of
        None \<Rightarrow> None | Some st' \<Rightarrow> score_against score cfg a bs st')"

fun score_block ::
    "(string \<Rightarrow> string \<Rightarrow> rat \<times> pair_evidence) \<Rightarrow> resolution_config \<Rightarrow> string list \<Rightarrow> er_state \<Rightarrow> er_state option" where
  "score_block score cfg [] st = Some st"
| "score_block score cfg (a # members) st =
     (case score_against score cfg a members st of
        None \<Rightarrow> None | Some st' \<Rightarrow> score_block score cfg members st')"

fun score_blocks ::
    "(string \<Rightarrow> string \<Rightarrow> rat \<times> pair_evidence) \<Rightarrow> resolution_config \<Rightarrow> string list list \<Rightarrow> er_state \<Rightarrow> er_state option" where
  "score_blocks score cfg [] st = Some st"
| "score_blocks score cfg (members # blocks) st =
     (case score_block score cfg members st of
        None \<Rightarrow> None | Some st' \<Rightarrow> score_blocks score cfg blocks st')"

subsection \<open>Clusters\<close>

fun group_roots :: "string list \<Rightarrow> string forest \<Rightarrow> (string, string list) dict \<Rightarrow> (string, string list) dict option" where
  "group_roots [] u d = Some d"
| "group_roots (p # ps) u d =
     (case uf_find u p of
        None \<Rightarrow> None
      | Some (r, u') \<Rightarrow>
          group_roots ps u' (AList.update r ((case map_of d r of None \<Rightarrow> [] | Some ms \<Rightarrow> ms) @ [p]) d))"

definition ev_score :: "evidence \<Rightarrow> rat" where
  "ev_score e = (case e of Key_ev _ _ \<Rightarrow> 0 | Score_ev s _ \<Rightarrow> s)"

definition make_cluster :: "string \<Rightarrow> resolution_config \<Rightarrow> er_state \<Rightarrow> string list \<Rightarrow> cluster" where
  "make_cluster id_prefix cfg st members =
     (let ms = sort members;
          meth = (if length ms > 1
                  then (if list_ex (\<lambda>m. er_method st m = Deterministic) ms then Deterministic else Probabilistic)
                  else Singleton);
          ev = concat (map (er_evidence st) ms);
          conf = (if meth = Deterministic \<or> meth = Singleton then 1
                  else round4 (min 1 (case map ev_score ev of [] \<Rightarrow> 0 | s # ss \<Rightarrow> foldl max s ss)))
      in \<lparr>cl_resolved_entity_id = id_prefix @ '':'' @ rc_entity_type cfg @ '':'' @ hd ms,
          cl_member_pks = ms, cl_confidence = conf, cl_method = meth, cl_evidence = ev\<rparr>)"

definition row_pk :: "(json \<Rightarrow> string) \<Rightarrow> string \<Rightarrow> row \<Rightarrow> string option" where
  "row_pk str_of pk_column r =
     (case map_of r pk_column of None \<Rightarrow> None | Some JNull \<Rightarrow> None | Some v \<Rightarrow> Some (str_of v))"

definition pks_of :: "(json \<Rightarrow> string) \<Rightarrow> string \<Rightarrow> row list \<Rightarrow> string list" where
  "pks_of str_of pk_column rows = List.map_filter (row_pk str_of pk_column) rows"

definition by_pk :: "(json \<Rightarrow> string) \<Rightarrow> string \<Rightarrow> row list \<Rightarrow> string \<Rightarrow> row" where
  "by_pk str_of pk_column rows p =
     (case filter (\<lambda>r. row_pk str_of pk_column r = Some p) rows of [] \<Rightarrow> [] | rs \<Rightarrow> last rs)"

definition er_start :: "string list \<Rightarrow> er_state" where
  "er_start pks = \<lparr>er_uf = uf_init pks, er_method = (\<lambda>_. Singleton), er_evidence = (\<lambda>_. []), er_candidates = []\<rparr>"

definition block_key :: "(json \<Rightarrow> string) \<Rightarrow> resolution_config \<Rightarrow> row \<Rightarrow> string list" where
  "block_key str_of cfg r = map (\<lambda>bf. norm_of str_of (map_of r bf)) (rc_blocking_fields cfg)"

definition resolve ::
    "(json \<Rightarrow> string) \<Rightarrow> row list \<Rightarrow> resolution_config \<Rightarrow> string \<Rightarrow> string \<Rightarrow> resolution_result option" where
  "resolve str_of rows cfg pk_column id_prefix =
     (let pks = pks_of str_of pk_column rows; row = by_pk str_of pk_column rows
      in case match_keys (\<lambda>p key. det_key_values str_of (row p) key) pks (rc_deterministic_keys cfg) (er_start pks) of
           None \<Rightarrow> None
         | Some st1 \<Rightarrow>
             (case (if rc_scoring_fields cfg \<noteq> []
                    then score_blocks (\<lambda>a b. pair_score str_of (row a) (row b) cfg) cfg
                           (map snd (bucket (\<lambda>p. Some (block_key str_of cfg (row p))) pks [])) st1
                    else Some st1) of
                None \<Rightarrow> None
              | Some st2 \<Rightarrow>
                  (case group_roots pks (er_uf st2) [] of
                     None \<Rightarrow> None
                   | Some groups \<Rightarrow>
                       Some \<lparr>rr_clusters = sort_key cl_resolved_entity_id (map (make_cluster id_prefix cfg st2 \<circ> snd) groups),
                             rr_merge_candidates = er_candidates st2\<rparr>)))"

subsection \<open>Buckets\<close>

lemma bucket_keys: "distinct (map fst d) \<Longrightarrow> distinct (map fst (bucket key ps d))"
  by (induction key ps d rule: bucket.induct) (auto split: option.splits simp: distinct_update)

lemma bucket_lookup:
  "map_of (bucket key ps d) k =
     (let ms = filter (\<lambda>p. key p = Some k) ps
      in case map_of d k of
           None \<Rightarrow> if ms = [] then None else Some ms
         | Some old \<Rightarrow> Some (old @ ms))"
proof (induction key ps d rule: bucket.induct)
  case (1 key d)
  then show ?case by (simp split: option.splits)
next
  case (2 key p ps d)
  then show ?case by (auto simp: Let_def update_conv' split: option.splits if_splits)
qed

lemma bucket_entries:
  "(k, ms) \<in> set (bucket key ps []) \<longleftrightarrow> ms = filter (\<lambda>p. key p = Some k) ps \<and> ms \<noteq> []"
proof -
  have "distinct (map fst (bucket key ps []))" by (rule bucket_keys) simp
  then have "(k, ms) \<in> set (bucket key ps []) \<longleftrightarrow> map_of (bucket key ps []) k = Some ms"
    by (rule map_of_eq_Some_iff [symmetric])
  also have "\<dots> \<longleftrightarrow> ms = filter (\<lambda>p. key p = Some k) ps \<and> ms \<noteq> []"
    by (auto simp: bucket_lookup Let_def)
  finally show ?thesis .
qed

subsection \<open>What the forest knows\<close>

text \<open>\<open>knows pks st D\<close>: the forest of \<open>st\<close> holds the ids \<open>pks\<close>, and two of them have one root exactly
  when the links \<open>D\<close> connect them.\<close>

definition knows :: "string list \<Rightarrow> er_state \<Rightarrow> (string \<times> string) set \<Rightarrow> bool" where
  "knows pks st D \<longleftrightarrow> dom (er_uf st) = set pks \<and> (\<exists>S. forest.tracks (er_uf st) S \<and> linked S = linked D)"

lemma linked_super: "S \<subseteq> linked S"
  by (auto intro: linked_link)

lemma linked_insert_cong: "linked S = linked D \<Longrightarrow> linked (insert (a, b) S) = linked (insert (a, b) D)"
  by (simp add: linked_insert)

lemma linked_Un_cong: "linked S = linked D \<Longrightarrow> linked (S \<union> X) = linked (D \<union> X)"
proof -
  have "linked (A \<union> X) \<subseteq> linked (B \<union> X)" if "linked A = linked B" for A B :: "('a \<times> 'a) set"
  proof (rule linked_closed)
    have "A \<subseteq> linked B" using linked_super [of A] by (simp add: that)
    also have "\<dots> \<subseteq> linked (B \<union> X)" by (rule linked_mono) auto
    finally show "A \<union> X \<subseteq> linked (B \<union> X)" using linked_super [of "B \<union> X"] by simp
  qed
  then show "linked S = linked D \<Longrightarrow> ?thesis" by (metis subset_antisym)
qed

lemma knows_cong: "knows pks st D \<Longrightarrow> linked D = linked D' \<Longrightarrow> knows pks st D'"
  by (simp add: knows_def)

lemma knows_uf: "knows pks st D \<Longrightarrow> er_uf st' = er_uf st \<Longrightarrow> knows pks st' D"
  by (simp add: knows_def)

lemma knows_root:
  "knows pks st D \<Longrightarrow> a \<in> set pks \<Longrightarrow> b \<in> set pks \<Longrightarrow>
   forest_root (er_uf st) a = forest_root (er_uf st) b \<longleftrightarrow> (a, b) \<in> linked D"
  by (auto simp: knows_def forest.tracks_def)

lemma knows_union:
  assumes "knows pks st D" and "a \<in> set pks" and "b \<in> set pks"
  shows "\<exists>u. uf_union a b (er_uf st) = Some u \<and> (\<forall>st'. er_uf st' = u \<longrightarrow> knows pks st' (insert (a, b) D))"
proof -
  obtain S where S: "forest.tracks (er_uf st) S" "linked S = linked D" and d: "dom (er_uf st) = set pks"
    using assms(1) by (auto simp: knows_def)
  obtain u where "uf_union a b (er_uf st) = Some u" "forest.tracks u (insert (a, b) S)" "dom u = dom (er_uf st)"
    using forest.union_tracks [OF S(1), of a b] assms(2,3) d by auto
  then show ?thesis using linked_insert_cong [OF S(2), of a b] d by (auto simp: knows_def)
qed

lemma knows_find:
  assumes "knows pks st D" and "a \<in> set pks"
  shows "\<exists>r u. uf_find (er_uf st) a = Some (r, u) \<and> forest_root (er_uf st) a = Some r \<and>
     (\<forall>st'. er_uf st' = u \<longrightarrow> knows pks st' D) \<and> (\<forall>z \<in> set pks. forest_root u z = forest_root (er_uf st) z)"
proof -
  obtain S where S: "forest.tracks (er_uf st) S" "linked S = linked D" and d: "dom (er_uf st) = set pks"
    using assms(1) by (auto simp: knows_def)
  obtain r u where "uf_find (er_uf st) a = Some (r, u)" "forest_root (er_uf st) a = Some r" "forest.tracks u S"
      "dom u = dom (er_uf st)" "\<forall>z \<in> dom (er_uf st). forest_root u z = forest_root (er_uf st) z"
    using forest.find_tracks [OF S(1), of a] assms(2) d by auto
  then show ?thesis using S(2) d by (auto simp: knows_def)
qed

lemma merge_members_knows:
  "knows pks st D \<Longrightarrow> anchor \<in> set pks \<Longrightarrow> set ms \<subseteq> set pks \<Longrightarrow>
   \<exists>st'. merge_members key kv anchor ms st = Some st' \<and> knows pks st' (D \<union> {anchor} \<times> set ms) \<and>
     er_candidates st' = er_candidates st"
proof (induction ms arbitrary: st D)
  case (Cons m ms)
  obtain u where u: "uf_union anchor m (er_uf st) = Some u" "\<And>st'. er_uf st' = u \<Longrightarrow> knows pks st' (insert (anchor, m) D)"
    using knows_union [OF Cons.prems(1,2), of m] Cons.prems(3) by auto
  have links: "insert (anchor, m) D \<union> {anchor} \<times> set ms = D \<union> {anchor} \<times> set (m # ms)" by auto
  have "\<exists>st''. merge_members key kv anchor ms st' = Some st'' \<and>
      knows pks st'' (insert (anchor, m) D \<union> {anchor} \<times> set ms) \<and> er_candidates st'' = er_candidates st'"
    if "er_uf st' = u" for st'
    using Cons.IH [OF u(2) [OF that] Cons.prems(2)] Cons.prems(3) by simp
  from this [of "st\<lparr>er_uf := u, er_method := (er_method st)(m := Deterministic, anchor := Deterministic),
      er_evidence := (er_evidence st)(m := er_evidence st m @ [Key_ev key kv])\<rparr>"]
  show ?case using u(1) links by simp
qed simp

lemma star_links: "linked (D \<union> {a} \<times> set ms) = linked (D \<union> set (a # ms) \<times> set (a # ms))"
proof (intro equalityI)
  show "linked (D \<union> {a} \<times> set ms) \<subseteq> linked (D \<union> set (a # ms) \<times> set (a # ms))"
    by (rule linked_mono) auto
  have hub: "(a, x) \<in> linked (D \<union> {a} \<times> set ms)" if "x \<in> set (a # ms)" for x
    using that by (cases "x = a") (auto intro: linked_link)
  show "linked (D \<union> set (a # ms) \<times> set (a # ms)) \<subseteq> linked (D \<union> {a} \<times> set ms)"
  proof (rule linked_closed, rule subrelI)
    fix x y assume "(x, y) \<in> D \<union> set (a # ms) \<times> set (a # ms)"
    then consider "(x, y) \<in> D" | "x \<in> set (a # ms)" "y \<in> set (a # ms)" by blast
    then show "(x, y) \<in> linked (D \<union> {a} \<times> set ms)"
    proof cases
      case 2
      show ?thesis by (rule linked_trans [OF linked_sym [OF hub [OF 2(1)]] hub [OF 2(2)]])
    qed (auto intro: linked_link)
  qed
qed

lemma merge_buckets_knows:
  "knows pks st D \<Longrightarrow> (\<And>kv ms. (kv, ms) \<in> set bs \<Longrightarrow> ms \<noteq> [] \<and> set ms \<subseteq> set pks) \<Longrightarrow>
   \<exists>st'. merge_buckets key bs st = Some st' \<and> knows pks st' (D \<union> (\<Union>(kv, ms) \<in> set bs. set ms \<times> set ms)) \<and>
     er_candidates st' = er_candidates st"
proof (induction key bs st arbitrary: D rule: merge_buckets.induct)
  case (2 key kv members bs st)
  have m: "members \<noteq> []" "set members \<subseteq> set pks" using "2.prems"(2) by auto
  obtain st1 where st1: "(if length members > 1 then merge_members key kv (hd members) (tl members) st else Some st) = Some st1"
      "knows pks st1 (D \<union> set members \<times> set members)" "er_candidates st1 = er_candidates st"
  proof (cases "length members > 1")
    case True
    obtain a ms where ams: "members = a # ms" using m(1) by (cases members) auto
    then have "\<exists>st'. merge_members key kv a ms st = Some st' \<and> knows pks st' (D \<union> {a} \<times> set ms) \<and>
        er_candidates st' = er_candidates st"
      using m(2) "2.prems"(1) by (intro merge_members_knows) auto
    then show ?thesis using that True ams star_links [of D a ms] knows_cong by (metis list.sel(1,3))
  next
    case False
    then obtain a where "members = [a]" using m(1) by (cases members) auto
    moreover have "linked D = linked (D \<union> {a} \<times> {a})"
      by (intro equalityI linked_mono linked_closed) (auto intro: linked_link)
    ultimately show ?thesis using that False "2.prems"(1) knows_cong by auto
  qed
  have "\<exists>st'. merge_buckets key bs st1 = Some st' \<and>
      knows pks st' ((D \<union> set members \<times> set members) \<union> (\<Union>(kv, ms) \<in> set bs. set ms \<times> set ms)) \<and>
      er_candidates st' = er_candidates st1"
    using "2.IH" [OF st1(1,2)] "2.prems"(2) by auto
  then show ?case using st1 by (simp add: Un_assoc)
qed simp

definition key_links :: "(string \<Rightarrow> string list \<Rightarrow> string list option) \<Rightarrow> string list \<Rightarrow> string list \<Rightarrow> (string \<times> string) set" where
  "key_links values pks key = {(a, b). a \<in> set pks \<and> b \<in> set pks \<and> values a key \<noteq> None \<and> values a key = values b key}"

lemma bucket_links: "(\<Union>(kv, ms) \<in> set (bucket (\<lambda>p. values p key) pks []). set ms \<times> set ms) = key_links values pks key"
proof (rule set_eqI)
  fix ab :: "string \<times> string"
  obtain a b where ab: "ab = (a, b)" by (cases ab)
  have "ab \<in> (\<Union>(kv, ms) \<in> set (bucket (\<lambda>p. values p key) pks []). set ms \<times> set ms) \<longleftrightarrow>
      (\<exists>kv ms. (kv, ms) \<in> set (bucket (\<lambda>p. values p key) pks []) \<and> a \<in> set ms \<and> b \<in> set ms)"
    unfolding ab by auto
  also have "\<dots> \<longleftrightarrow> (\<exists>kv. a \<in> set (filter (\<lambda>p. values p key = Some kv) pks) \<and> b \<in> set (filter (\<lambda>p. values p key = Some kv) pks))"
    unfolding bucket_entries by (auto simp: filter_empty_conv)
  also have "\<dots> \<longleftrightarrow> ab \<in> key_links values pks key" by (auto simp: key_links_def ab)
  finally show "ab \<in> (\<Union>(kv, ms) \<in> set (bucket (\<lambda>p. values p key) pks []). set ms \<times> set ms) \<longleftrightarrow> ab \<in> key_links values pks key" .
qed

lemma match_keys_knows:
  "knows pks st D \<Longrightarrow>
   \<exists>st'. match_keys values pks keys st = Some st' \<and> knows pks st' (D \<union> (\<Union>key \<in> set keys. key_links values pks key)) \<and>
     er_candidates st' = er_candidates st"
proof (induction keys arbitrary: st D)
  case (Cons key keys)
  have "\<exists>st'. merge_buckets key (bucket (\<lambda>p. values p key) pks []) st = Some st' \<and>
      knows pks st' (D \<union> key_links values pks key) \<and> er_candidates st' = er_candidates st"
    using merge_buckets_knows [OF Cons.prems, of "bucket (\<lambda>p. values p key) pks []" key]
    unfolding bucket_links by (auto simp: bucket_entries)
  then obtain st1 where "merge_buckets key (bucket (\<lambda>p. values p key) pks []) st = Some st1"
      "knows pks st1 (D \<union> key_links values pks key)" "er_candidates st1 = er_candidates st" by blast
  then show ?case using Cons.IH [of st1 "D \<union> key_links values pks key"] by (auto simp: Un_assoc)
qed simp

subsection \<open>Scored pairs\<close>

fun ordered_pairs :: "'a list \<Rightarrow> ('a \<times> 'a) list" where
  "ordered_pairs [] = []"
| "ordered_pairs (a # as) = map (Pair a) as @ ordered_pairs as"

lemma ordered_pairs_filter:
  "set (ordered_pairs (filter P xs)) = {(a, b). (a, b) \<in> set (ordered_pairs xs) \<and> P a \<and> P b}"
  by (induction xs) auto

lemma ordered_pairs_mem: "(a, b) \<in> set (ordered_pairs xs) \<Longrightarrow> a \<in> set xs \<and> b \<in> set xs"
  by (induction xs) auto

definition auto_links ::
    "(string \<Rightarrow> string \<Rightarrow> rat \<times> pair_evidence) \<Rightarrow> resolution_config \<Rightarrow> (string \<times> string) set \<Rightarrow> (string \<times> string) set" where
  "auto_links score cfg P = {(a, b) \<in> P. rc_auto_merge_threshold cfg \<le> fst (score a b)}"

definition review_pair ::
    "(string \<Rightarrow> string \<Rightarrow> rat \<times> pair_evidence) \<Rightarrow> resolution_config \<Rightarrow> (string \<times> string) set \<Rightarrow> merge_candidate \<Rightarrow> bool" where
  "review_pair score cfg P c \<longleftrightarrow>
     (mc_left_pk c, mc_right_pk c) \<in> P \<and>
     rc_review_threshold cfg \<le> fst (score (mc_left_pk c) (mc_right_pk c)) \<and>
     fst (score (mc_left_pk c) (mc_right_pk c)) < rc_auto_merge_threshold cfg \<and>
     mc_score c = round4 (fst (score (mc_left_pk c) (mc_right_pk c))) \<and>
     mc_evidence c = snd (score (mc_left_pk c) (mc_right_pk c))"

definition scored ::
    "(string \<Rightarrow> string \<Rightarrow> rat \<times> pair_evidence) \<Rightarrow> resolution_config \<Rightarrow> string list \<Rightarrow> (string \<times> string) set \<Rightarrow>
     (string \<times> string) set \<Rightarrow> er_state \<Rightarrow> er_state \<Rightarrow> bool" where
  "scored score cfg pks D P st st' \<longleftrightarrow>
     knows pks st' (D \<union> auto_links score cfg P) \<and>
     (\<forall>c \<in> set (er_candidates st'). c \<in> set (er_candidates st) \<or> review_pair score cfg P c)"

lemma scored_trans:
  assumes "scored score cfg pks D P st st1" and "scored score cfg pks (D \<union> auto_links score cfg P) Q st1 st2"
  shows "scored score cfg pks D (P \<union> Q) st st2"
proof -
  have "D \<union> auto_links score cfg (P \<union> Q) = (D \<union> auto_links score cfg P) \<union> auto_links score cfg Q"
    by (auto simp: auto_links_def)
  then show ?thesis using assms unfolding scored_def review_pair_def by (metis UnI1 UnI2)
qed

lemma scored_refl: "knows pks st D \<Longrightarrow> scored score cfg pks D {} st st"
  by (simp add: scored_def auto_links_def)

lemma score_pair_scored:
  assumes k: "knows pks st D" and a: "a \<in> set pks" and b: "b \<in> set pks"
  shows "\<exists>st'. score_pair score cfg a b st = Some st' \<and> scored score cfg pks D {(a, b)} st st'"
proof -
  obtain ra u1 where u1: "uf_find (er_uf st) a = Some (ra, u1)" "forest_root (er_uf st) a = Some ra"
      "\<And>st'. er_uf st' = u1 \<Longrightarrow> knows pks st' D" "\<forall>z \<in> set pks. forest_root u1 z = forest_root (er_uf st) z"
    using knows_find [OF k a] by blast
  define st1 where "st1 = st\<lparr>er_uf := u1\<rparr>"
  have k1: "knows pks st1 D" using u1(3) by (simp add: st1_def)
  obtain rb u2 where u2: "uf_find u1 b = Some (rb, u2)" "forest_root u1 b = Some rb"
      "\<And>st'. er_uf st' = u2 \<Longrightarrow> knows pks st' D"
    using knows_find [OF k1 b] by (auto simp: st1_def)
  have same: "ra = rb \<longleftrightarrow> (a, b) \<in> linked D"
    using knows_root [OF k a b] u1(2,4) u2(2) b by auto
  define st2 where "st2 = st\<lparr>er_uf := u2\<rparr>"
  have k2: "knows pks st2 D" using u2(3) by (simp add: st2_def)
  obtain s ev where s: "score a b = (s, ev)" by fastforce
  show ?thesis
  proof (cases "ra = rb")
    case True
    then have "linked (insert (a, b) D) = linked D" by (simp add: same linked_insert_known)
    moreover have "D \<union> auto_links score cfg {(a, b)} = (if rc_auto_merge_threshold cfg \<le> s then insert (a, b) D else D)"
      using s by (auto simp: auto_links_def)
    ultimately have "linked D = linked (D \<union> auto_links score cfg {(a, b)})" by simp
    then have "scored score cfg pks D {(a, b)} st st2"
      using knows_cong [OF k2] by (simp add: scored_def) (simp add: st2_def)
    then show ?thesis using u1(1) u2(1) True by (simp add: score_pair_def st2_def)
  next
    case False
    show ?thesis
    proof (cases "rc_auto_merge_threshold cfg \<le> s")
      case True
      obtain u3 where u3: "uf_union a b u2 = Some u3" "\<And>st'. er_uf st' = u3 \<Longrightarrow> knows pks st' (insert (a, b) D)"
        using knows_union [OF k2 a b] by (auto simp: st2_def)
      have "D \<union> auto_links score cfg {(a, b)} = insert (a, b) D" using True s by (auto simp: auto_links_def)
      then have "scored score cfg pks D {(a, b)} st st'" if "er_uf st' = u3" "er_candidates st' = er_candidates st" for st'
        using u3(2) [OF that(1)] that(2) by (simp add: scored_def)
      then show ?thesis using u1(1) u2(1) u3(1) False True s by (simp add: score_pair_def Let_def)
    next
      case low: False
      have none: "D \<union> auto_links score cfg {(a, b)} = D" using low s by (auto simp: auto_links_def)
      have "scored score cfg pks D {(a, b)} st st'"
        if "er_uf st' = u2" "\<forall>c \<in> set (er_candidates st'). c \<in> set (er_candidates st) \<or> review_pair score cfg {(a, b)} c" for st'
        using u2(3) [OF that(1)] that(2) none by (simp add: scored_def)
      then show ?thesis using u1(1) u2(1) False low s
        by (simp add: score_pair_def review_pair_def not_le)
    qed
  qed
qed

lemma score_against_scored:
  "knows pks st D \<Longrightarrow> a \<in> set pks \<Longrightarrow> set bs \<subseteq> set pks \<Longrightarrow>
   \<exists>st'. score_against score cfg a bs st = Some st' \<and> scored score cfg pks D ({a} \<times> set bs) st st'"
proof (induction bs arbitrary: st D)
  case Nil
  then show ?case using scored_refl by fastforce
next
  case (Cons b bs)
  obtain st1 where st1: "score_pair score cfg a b st = Some st1" "scored score cfg pks D {(a, b)} st st1"
    using score_pair_scored [OF Cons.prems(1,2), of b score cfg] Cons.prems(3) by auto
  then have "knows pks st1 (D \<union> auto_links score cfg {(a, b)})" by (simp add: scored_def)
  then obtain st2 where st2: "score_against score cfg a bs st1 = Some st2"
      "scored score cfg pks (D \<union> auto_links score cfg {(a, b)}) ({a} \<times> set bs) st1 st2"
    using Cons.IH [of st1] Cons.prems(2,3) by auto
  have "{(a, b)} \<union> {a} \<times> set bs = {a} \<times> set (b # bs)" by auto
  then show ?case using st1(1) st2(1) scored_trans [OF st1(2) st2(2)] by simp
qed

lemma score_block_scored:
  "knows pks st D \<Longrightarrow> set ms \<subseteq> set pks \<Longrightarrow>
   \<exists>st'. score_block score cfg ms st = Some st' \<and> scored score cfg pks D (set (ordered_pairs ms)) st st'"
proof (induction ms arbitrary: st D)
  case Nil
  then show ?case using scored_refl by fastforce
next
  case (Cons a ms)
  obtain st1 where st1: "score_against score cfg a ms st = Some st1" "scored score cfg pks D ({a} \<times> set ms) st st1"
    using score_against_scored [OF Cons.prems(1), of a ms score cfg] Cons.prems(2) by auto
  then have "knows pks st1 (D \<union> auto_links score cfg ({a} \<times> set ms))" by (simp add: scored_def)
  then obtain st2 where st2: "score_block score cfg ms st1 = Some st2"
      "scored score cfg pks (D \<union> auto_links score cfg ({a} \<times> set ms)) (set (ordered_pairs ms)) st1 st2"
    using Cons.IH [of st1] Cons.prems(2) by auto
  have "{a} \<times> set ms \<union> set (ordered_pairs ms) = set (ordered_pairs (a # ms))" by auto
  then show ?case using st1(1) st2(1) scored_trans [OF st1(2) st2(2)] by simp
qed

lemma score_blocks_scored:
  "knows pks st D \<Longrightarrow> (\<And>ms. ms \<in> set blocks \<Longrightarrow> set ms \<subseteq> set pks) \<Longrightarrow>
   \<exists>st'. score_blocks score cfg blocks st = Some st' \<and>
     scored score cfg pks D (\<Union>ms \<in> set blocks. set (ordered_pairs ms)) st st'"
proof (induction blocks arbitrary: st D)
  case Nil
  then show ?case using scored_refl by fastforce
next
  case (Cons ms blocks)
  obtain st1 where st1: "score_block score cfg ms st = Some st1" "scored score cfg pks D (set (ordered_pairs ms)) st st1"
    using score_block_scored [OF Cons.prems(1), of ms score cfg] Cons.prems(2) by auto
  then have "knows pks st1 (D \<union> auto_links score cfg (set (ordered_pairs ms)))" by (simp add: scored_def)
  then obtain st2 where "score_blocks score cfg blocks st1 = Some st2"
      "scored score cfg pks (D \<union> auto_links score cfg (set (ordered_pairs ms))) (\<Union>ms \<in> set blocks. set (ordered_pairs ms)) st1 st2"
    using Cons.IH [of st1 "D \<union> auto_links score cfg (set (ordered_pairs ms))"] Cons.prems(2) by auto
  then show ?case using st1(1) scored_trans [OF st1(2)] by simp
qed

lemma block_pairs:
  "(\<Union>ms \<in> set (map snd (bucket (\<lambda>p. Some (key p)) pks [])). set (ordered_pairs ms)) =
   {(a, b). (a, b) \<in> set (ordered_pairs pks) \<and> key a = key b}"
proof (rule set_eqI)
  fix ab :: "'a \<times> 'a"
  obtain a b where ab: "ab = (a, b)" by (cases ab)
  have "ab \<in> (\<Union>ms \<in> set (map snd (bucket (\<lambda>p. Some (key p)) pks [])). set (ordered_pairs ms)) \<longleftrightarrow>
      (\<exists>k ms. (k, ms) \<in> set (bucket (\<lambda>p. Some (key p)) pks []) \<and> (a, b) \<in> set (ordered_pairs ms))"
    unfolding ab by force
  also have "\<dots> \<longleftrightarrow> (\<exists>k. (a, b) \<in> set (ordered_pairs (filter (\<lambda>p. key p = k) pks)))"
  proof -
    have "ms \<noteq> []" if "(a, b) \<in> set (ordered_pairs ms)" for ms using that by (cases ms) auto
    then show ?thesis unfolding bucket_entries option.inject by metis
  qed
  also have "\<dots> \<longleftrightarrow> (a, b) \<in> set (ordered_pairs pks) \<and> key a = key b"
    unfolding ordered_pairs_filter by auto
  finally show "ab \<in> (\<Union>ms \<in> set (map snd (bucket (\<lambda>p. Some (key p)) pks [])). set (ordered_pairs ms)) \<longleftrightarrow>
      ab \<in> {(a, b). (a, b) \<in> set (ordered_pairs pks) \<and> key a = key b}" by (simp add: ab)
qed

subsection \<open>Clusters\<close>

lemma group_roots_bucket:
  assumes "knows pks st D" and "set ps \<subseteq> set pks"
  shows "group_roots ps (er_uf st) d = Some (bucket (forest_root (er_uf st)) ps d)"
  using assms
proof (induction ps arbitrary: st d)
  case Nil
  then show ?case by simp
next
  case (Cons p ps)
  obtain r u where u: "uf_find (er_uf st) p = Some (r, u)" "forest_root (er_uf st) p = Some r"
      "\<And>st'. er_uf st' = u \<Longrightarrow> knows pks st' D" "\<forall>z \<in> set pks. forest_root u z = forest_root (er_uf st) z"
    using knows_find [OF Cons.prems(1), of p] Cons.prems(2) by auto
  have cong: "bucket f ps d = bucket g ps d" if "\<And>z. z \<in> set ps \<Longrightarrow> f z = g z" for f g :: "string \<Rightarrow> string option" and d
    using that by (induction ps arbitrary: d) auto
  have "group_roots ps (er_uf (st\<lparr>er_uf := u\<rparr>)) d' = Some (bucket (forest_root u) ps d')" for d'
    using Cons.IH [of "st\<lparr>er_uf := u\<rparr>"] u(3) Cons.prems(2) by simp
  then show ?case using u(1,2) cong [of "forest_root u" "forest_root (er_uf st)"] u(4) Cons.prems(2) by auto
qed

lemma knows_start: "knows pks (er_start pks) {}"
proof -
  have "dom (uf_init pks) = set pks" by (simp add: uf_init_def dom_map_of_conv_image_fst image_image)
  then show ?thesis using init_tracks [of pks] by (auto simp: knows_def er_start_def)
qed

definition merge_links :: "(json \<Rightarrow> string) \<Rightarrow> row list \<Rightarrow> resolution_config \<Rightarrow> string \<Rightarrow> (string \<times> string) set" where
  "merge_links str_of rows cfg pk_column =
     (let pks = pks_of str_of pk_column rows; row = by_pk str_of pk_column rows
      in (\<Union>key \<in> set (rc_deterministic_keys cfg). key_links (\<lambda>p key. det_key_values str_of (row p) key) pks key) \<union>
         (if rc_scoring_fields cfg = [] then {}
          else auto_links (\<lambda>a b. pair_score str_of (row a) (row b) cfg) cfg
                 {(a, b). (a, b) \<in> set (ordered_pairs pks) \<and> block_key str_of cfg (row a) = block_key str_of cfg (row b)}))"

definition review_candidate :: "(json \<Rightarrow> string) \<Rightarrow> row list \<Rightarrow> resolution_config \<Rightarrow> string \<Rightarrow> merge_candidate \<Rightarrow> bool" where
  "review_candidate str_of rows cfg pk_column =
     (let row = by_pk str_of pk_column rows
      in review_pair (\<lambda>a b. pair_score str_of (row a) (row b) cfg) cfg
           {(a, b). (a, b) \<in> set (ordered_pairs (pks_of str_of pk_column rows)) \<and>
              block_key str_of cfg (row a) = block_key str_of cfg (row b)})"

lemma resolve_run:
  "\<exists>st groups. resolve str_of rows cfg pk_column id_prefix =
       Some \<lparr>rr_clusters = sort_key cl_resolved_entity_id (map (make_cluster id_prefix cfg st \<circ> snd) groups),
             rr_merge_candidates = er_candidates st\<rparr> \<and>
     knows (pks_of str_of pk_column rows) st (merge_links str_of rows cfg pk_column) \<and>
     groups = bucket (forest_root (er_uf st)) (pks_of str_of pk_column rows) [] \<and>
     (\<forall>c \<in> set (er_candidates st). review_candidate str_of rows cfg pk_column c)"
proof -
  define pks where "pks = pks_of str_of pk_column rows"
  define row where "row = by_pk str_of pk_column rows"
  define kvs where "kvs = (\<lambda>p key. det_key_values str_of (row p) key)"
  define score where "score = (\<lambda>a b. pair_score str_of (row a) (row b) cfg)"
  define blocks where "blocks = map snd (bucket (\<lambda>p. Some (block_key str_of cfg (row p))) pks [])"
  define D1 where "D1 = (\<Union>key \<in> set (rc_deterministic_keys cfg). key_links kvs pks key)"
  define P where "P = {(a, b). (a, b) \<in> set (ordered_pairs pks) \<and> block_key str_of cfg (row a) = block_key str_of cfg (row b)}"
  obtain st1 where st1: "match_keys kvs pks (rc_deterministic_keys cfg) (er_start pks) = Some st1"
      "knows pks st1 D1" "er_candidates st1 = []"
    using match_keys_knows [OF knows_start [of pks], of kvs "rc_deterministic_keys cfg"] by (auto simp: er_start_def D1_def)
  have bl: "(\<Union>ms \<in> set blocks. set (ordered_pairs ms)) = P" unfolding blocks_def P_def by (rule block_pairs)
  have sub: "set ms \<subseteq> set pks" if "ms \<in> set blocks" for ms
    using that by (auto simp: blocks_def bucket_entries)
  obtain st2 where st2: "(if rc_scoring_fields cfg \<noteq> [] then score_blocks score cfg blocks st1 else Some st1) = Some st2"
      "knows pks st2 (D1 \<union> (if rc_scoring_fields cfg = [] then {} else auto_links score cfg P))"
      "\<forall>c \<in> set (er_candidates st2). review_pair score cfg P c"
  proof (cases "rc_scoring_fields cfg = []")
    case True
    then show ?thesis using that st1 by simp
  next
    case False
    obtain st2 where "score_blocks score cfg blocks st1 = Some st2" "scored score cfg pks D1 P st1 st2"
      using score_blocks_scored [OF st1(2), of blocks score cfg] sub bl by auto
    then show ?thesis using that False st1(3) by (simp add: scored_def)
  qed
  have "group_roots pks (er_uf st2) [] = Some (bucket (forest_root (er_uf st2)) pks [])"
    by (rule group_roots_bucket [OF st2(2)]) simp
  then have "resolve str_of rows cfg pk_column id_prefix =
      Some \<lparr>rr_clusters = sort_key cl_resolved_entity_id (map (make_cluster id_prefix cfg st2 \<circ> snd) (bucket (forest_root (er_uf st2)) pks [])),
             rr_merge_candidates = er_candidates st2\<rparr>"
    using st1(1) st2(1) unfolding resolve_def Let_def kvs_def score_def blocks_def row_def pks_def by simp
  moreover have "knows pks st2 (merge_links str_of rows cfg pk_column)"
    using st2(2) unfolding merge_links_def Let_def D1_def kvs_def score_def P_def row_def pks_def .
  moreover have "\<forall>c \<in> set (er_candidates st2). review_candidate str_of rows cfg pk_column c"
    using st2(3) unfolding review_candidate_def Let_def score_def P_def row_def pks_def .
  ultimately show ?thesis unfolding pks_def by blast
qed

lemma cluster_members: "set (cl_member_pks (make_cluster id_prefix cfg st ms)) = set ms"
    "cl_member_pks (make_cluster id_prefix cfg st ms) = sort ms"
    "cl_resolved_entity_id (make_cluster id_prefix cfg st ms) = id_prefix @ '':'' @ rc_entity_type cfg @ '':'' @ hd (sort ms)"
  by (simp_all add: make_cluster_def Let_def)

lemma root_known: "knows pks st D \<Longrightarrow> a \<in> set pks \<Longrightarrow> \<exists>r. forest_root (er_uf st) a = Some r"
  using knows_find by blast

text \<open>C34. Entity resolution never fails, and its clusters are exactly the connected components of the
  merge links: two records share a cluster if and only if they are connected by pairs that agree on
  all columns of a deterministic key, none of them blank, or that stand in the same block and score
  at least the auto-merge threshold. The order of rows, keys and blocks does not matter.\<close>

theorem resolve_components:
  "\<exists>res. resolve str_of rows cfg pk_column id_prefix = Some res \<and>
     (\<forall>a \<in> set (pks_of str_of pk_column rows). \<forall>b \<in> set (pks_of str_of pk_column rows).
        (\<exists>c \<in> set (rr_clusters res). a \<in> set (cl_member_pks c) \<and> b \<in> set (cl_member_pks c)) \<longleftrightarrow>
        (a, b) \<in> linked (merge_links str_of rows cfg pk_column))"
proof -
  define pks where "pks = pks_of str_of pk_column rows"
  obtain st groups where st: "resolve str_of rows cfg pk_column id_prefix =
       Some \<lparr>rr_clusters = sort_key cl_resolved_entity_id (map (make_cluster id_prefix cfg st \<circ> snd) groups),
             rr_merge_candidates = er_candidates st\<rparr>"
      "knows pks st (merge_links str_of rows cfg pk_column)" "groups = bucket (forest_root (er_uf st)) pks []"
    using resolve_run [of str_of rows cfg pk_column id_prefix] unfolding pks_def by blast
  have "(\<exists>c \<in> set (map (make_cluster id_prefix cfg st \<circ> snd) groups). a \<in> set (cl_member_pks c) \<and> b \<in> set (cl_member_pks c)) \<longleftrightarrow>
      (a, b) \<in> linked (merge_links str_of rows cfg pk_column)" if ab: "a \<in> set pks" "b \<in> set pks" for a b
  proof -
    have "(\<exists>c \<in> set (map (make_cluster id_prefix cfg st \<circ> snd) groups). a \<in> set (cl_member_pks c) \<and> b \<in> set (cl_member_pks c)) \<longleftrightarrow>
        (\<exists>k ms. (k, ms) \<in> set groups \<and> a \<in> set ms \<and> b \<in> set ms)"
      by (force simp: cluster_members)
    also have "\<dots> \<longleftrightarrow> (\<exists>k. forest_root (er_uf st) a = Some k \<and> forest_root (er_uf st) b = Some k)"
      unfolding st(3) bucket_entries using ab by (auto simp: filter_empty_conv)
    also have "\<dots> \<longleftrightarrow> forest_root (er_uf st) a = forest_root (er_uf st) b"
      using root_known [OF st(2) ab(1)] by auto
    finally show ?thesis using knows_root [OF st(2) ab] by simp
  qed
  then show ?thesis using st(1) unfolding pks_def by simp
qed

lemma update_mset:
  "distinct (map fst d) \<Longrightarrow>
   mset (concat (map snd (AList.update k ((case map_of d k of None \<Rightarrow> [] | Some ms \<Rightarrow> ms) @ [p]) d))) =
   add_mset p (mset (concat (map snd d)))"
proof (induction d)
  case (Cons e d)
  obtain k' ms where e: "e = (k', ms)" by (cases e)
  show ?case
  proof (cases "k' = k")
    case True
    then show ?thesis using e by simp
  next
    case False
    then show ?thesis using e Cons by simp
  qed
qed simp

lemma bucket_mset:
  "distinct (map fst d) \<Longrightarrow> \<forall>p \<in> set ps. key p \<noteq> None \<Longrightarrow>
   mset (concat (map snd (bucket key ps d))) = mset (concat (map snd d)) + mset ps"
proof (induction key ps d rule: bucket.induct)
  case (2 key p ps d)
  then obtain k where k: "key p = Some k" by auto
  then show ?case using 2 update_mset [of d k p] by (simp add: distinct_update)
qed simp

lemma concat_mset_cong: "mset xs = mset ys \<Longrightarrow> mset (concat xs) = mset (concat ys)"
proof -
  have "mset (concat zs) = sum_mset (image_mset mset (mset zs))" for zs :: "'a list list"
    by (induction zs) simp_all
  then show "mset xs = mset ys \<Longrightarrow> ?thesis" by simp
qed

lemma concat_sorted_mset: "mset (concat (map (sort \<circ> f) xs)) = mset (concat (map f xs))"
  by (induction xs) simp_all

lemma hd_sort_Min: "ms \<noteq> [] \<Longrightarrow> hd (sort ms) = Min (set ms)"
proof -
  assume ms: "ms \<noteq> []"
  then obtain x xs where x: "sort ms = x # xs" by (metis list.exhaust length_0_conv length_sort)
  have s: "set ms = set (x # xs)" using x by (metis set_sort)
  have "sorted (x # xs)" using x by (metis sorted_sort)
  then have "Min (set ms) = x" unfolding s by (intro Min_eqI) auto
  then show ?thesis using x by simp
qed

lemma hd_sort_in: "ms \<noteq> [] \<Longrightarrow> hd (sort ms) \<in> set ms"
  using hd_sort_Min [of ms] Min_in [of "set ms"] by simp

lemma distinct_ids:
  assumes "\<forall>p \<in> set pks. key p \<noteq> None"
  shows "distinct (map (\<lambda>g. pre @ hd (sort (snd g))) (bucket key pks []))"
proof -
  let ?b = "bucket key pks []"
  have d: "distinct (map fst ?b)" by (rule bucket_keys) simp
  have "inj_on (\<lambda>g. pre @ hd (sort (snd g))) (set ?b)"
  proof (rule inj_onI)
    fix g h assume g: "g \<in> set ?b" and h: "h \<in> set ?b" and eq: "pre @ hd (sort (snd g)) = pre @ hd (sort (snd h))"
    obtain k ms k' ms' where gh: "g = (k, ms)" "h = (k', ms')" by (cases g, cases h)
    have m: "ms = filter (\<lambda>p. key p = Some k) pks" "ms \<noteq> []" "ms' = filter (\<lambda>p. key p = Some k') pks" "ms' \<noteq> []"
      by (rule g [unfolded gh bucket_entries, THEN conjunct1] g [unfolded gh bucket_entries, THEN conjunct2]
          h [unfolded gh bucket_entries, THEN conjunct1] h [unfolded gh bucket_entries, THEN conjunct2])+
    from hd_sort_in [OF m(2)] have "key (hd (sort ms)) = Some k" unfolding m(1) by simp
    moreover from hd_sort_in [OF m(4)] have "key (hd (sort ms')) = Some k'" unfolding m(3) by simp
    ultimately have "k = k'" using eq by (simp add: gh)
    then show "g = h" using gh m(1,3) by simp
  qed
  then show ?thesis using d by (simp add: distinct_map)
qed

text \<open>C35. The clusters partition the records: every record id occurs in the clusters exactly as often
  as in the rows. Members are sorted, a cluster's id is made of its smallest member, and the
  clusters come with pairwise different ids in increasing order.\<close>

theorem clusters_partition:
  assumes "resolve str_of rows cfg pk_column id_prefix = Some res"
  shows "mset (concat (map cl_member_pks (rr_clusters res))) = mset (pks_of str_of pk_column rows) \<and>
    (\<forall>c \<in> set (rr_clusters res). sorted (cl_member_pks c) \<and> cl_member_pks c \<noteq> [] \<and>
      cl_resolved_entity_id c = id_prefix @ '':'' @ rc_entity_type cfg @ '':'' @ Min (set (cl_member_pks c))) \<and>
    sorted (map cl_resolved_entity_id (rr_clusters res)) \<and> distinct (map cl_resolved_entity_id (rr_clusters res))"
proof -
  define pks where "pks = pks_of str_of pk_column rows"
  obtain st groups where st: "rr_clusters res = sort_key cl_resolved_entity_id (map (make_cluster id_prefix cfg st \<circ> snd) groups)"
      "knows pks st (merge_links str_of rows cfg pk_column)" "groups = bucket (forest_root (er_uf st)) pks []"
    using resolve_run [of str_of rows cfg pk_column id_prefix] assms unfolding pks_def by auto
  let ?cs = "map (make_cluster id_prefix cfg st \<circ> snd) groups"
  have key: "\<forall>p \<in> set pks. forest_root (er_uf st) p \<noteq> None" using root_known [OF st(2)] by fastforce
  have perm: "mset (rr_clusters res) = mset ?cs" by (simp add: st(1))
  then have "mset (map cl_member_pks (rr_clusters res)) = mset (map cl_member_pks ?cs)" by (simp only: mset_map)
  then have "mset (concat (map cl_member_pks (rr_clusters res))) = mset (concat (map cl_member_pks ?cs))"
    by (rule concat_mset_cong)
  also have "map cl_member_pks ?cs = map (sort \<circ> snd) groups" by (simp add: cluster_members)
  also have "mset (concat (map (sort \<circ> snd) groups)) = mset (concat (map snd groups))" by (rule concat_sorted_mset)
  also have "\<dots> = mset pks" using bucket_mset [of "[]" pks] key by (simp add: st(3))
  finally have part: "mset (concat (map cl_member_pks (rr_clusters res))) = mset pks" .
  have "sorted (cl_member_pks c) \<and> cl_member_pks c \<noteq> [] \<and>
      cl_resolved_entity_id c = id_prefix @ '':'' @ rc_entity_type cfg @ '':'' @ Min (set (cl_member_pks c))"
    if "c \<in> set (rr_clusters res)" for c
  proof -
    have "c \<in> set ?cs" using that perm by (metis set_mset_mset)
    then obtain k ms where c: "c = make_cluster id_prefix cfg st ms" "(k, ms) \<in> set groups" by auto
    then have "ms \<noteq> []" unfolding st(3) bucket_entries by blast
    moreover from this have "sort ms \<noteq> []" by (metis length_0_conv length_sort)
    ultimately show ?thesis using hd_sort_Min [of ms] by (simp add: c(1) cluster_members)
  qed
  moreover have "distinct (map cl_resolved_entity_id (rr_clusters res))"
  proof -
    have "distinct (map (\<lambda>g. (id_prefix @ '':'' @ rc_entity_type cfg @ '':'') @ hd (sort (snd g))) groups)"
      unfolding st(3) by (rule distinct_ids [OF key])
    then have "distinct (map cl_resolved_entity_id ?cs)" by (simp add: cluster_members comp_def)
    moreover have "mset (map cl_resolved_entity_id (rr_clusters res)) = mset (map cl_resolved_entity_id ?cs)"
      using perm by (simp only: mset_map)
    ultimately show ?thesis by (metis mset_eq_imp_distinct_iff)
  qed
  moreover have "sorted (map cl_resolved_entity_id (rr_clusters res))" by (simp add: st(1))
  ultimately show ?thesis using part unfolding pks_def by blast
qed

lemma same_block_not_blocked:
  "map (\<lambda>bf. norm_of str_of (map_of a bf)) bfs = map (\<lambda>bf. norm_of str_of (map_of b bf)) bfs \<Longrightarrow> blocked_on str_of a b bfs = None"
  by (induction bfs) (auto simp: Let_def)

text \<open>Every merge candidate handed to a reviewer is a pair of records of the same block, in row
  order, that scores at least the review threshold and less than the auto-merge threshold, with the
  rounded score and the similarities of the fields as evidence. The blocking gate of the scorer
  never answers here: pairs that disagree on a blocking field are never scored at all.\<close>

theorem candidates_for_review:
  assumes "resolve str_of rows cfg pk_column id_prefix = Some res" and "c \<in> set (rr_merge_candidates res)"
  defines "a \<equiv> by_pk str_of pk_column rows (mc_left_pk c)" and "b \<equiv> by_pk str_of pk_column rows (mc_right_pk c)"
  shows "(mc_left_pk c, mc_right_pk c) \<in> set (ordered_pairs (pks_of str_of pk_column rows)) \<and>
    block_key str_of cfg a = block_key str_of cfg b \<and>
    rc_review_threshold cfg \<le> fst (pair_score str_of a b cfg) \<and> fst (pair_score str_of a b cfg) < rc_auto_merge_threshold cfg \<and>
    mc_score c = round4 (fst (pair_score str_of a b cfg)) \<and>
    (\<exists>fields. mc_evidence c = Fields fields \<and> snd (pair_score str_of a b cfg) = Fields fields)"
proof -
  have "review_candidate str_of rows cfg pk_column c"
    using resolve_run [of str_of rows cfg pk_column id_prefix] assms(1,2) by auto
  then have r: "(mc_left_pk c, mc_right_pk c) \<in> set (ordered_pairs (pks_of str_of pk_column rows))"
      "block_key str_of cfg a = block_key str_of cfg b" "rc_review_threshold cfg \<le> fst (pair_score str_of a b cfg)"
      "fst (pair_score str_of a b cfg) < rc_auto_merge_threshold cfg" "mc_score c = round4 (fst (pair_score str_of a b cfg))"
      "mc_evidence c = snd (pair_score str_of a b cfg)"
    by (auto simp: review_candidate_def review_pair_def a_def b_def Let_def)
  have "blocked_on str_of a b (rc_blocking_fields cfg) = None"
    using r(2) unfolding block_key_def by (rule same_block_not_blocked)
  then have "\<exists>fields. snd (pair_score str_of a b cfg) = Fields fields" by (simp add: pair_score_def Let_def)
  then show ?thesis using r by auto
qed

subsection \<open>On concrete records\<close>

definition demo_str :: "json \<Rightarrow> string" where
  "demo_str v = (case v of JStr s \<Rightarrow> s | _ \<Rightarrow> [])"

definition demo_rows :: "row list" where
  "demo_rows = [[(''id'', JStr ''1''), (''n'', JStr ''ab'')], [(''id'', JStr ''2''), (''n'', JStr ''abcd'')],
     [(''id'', JStr ''3''), (''n'', JStr ''abc'')]]"

definition demo_config :: resolution_config where
  "demo_config = \<lparr>rc_entity_type = ''p'', rc_deterministic_keys = [[''n'']],
     rc_scoring_fields = [\<lparr>sf_column = ''n'', sf_weight = 1\<rparr>], rc_auto_merge_threshold = 2/3,
     rc_review_threshold = 1 / 2, rc_blocking_fields = []\<rparr>"


abbreviation demo_row :: "string \<Rightarrow> row" where
  "demo_row \<equiv> by_pk demo_str ''id'' demo_rows"

lemma demo_norm:
  "norm_text ''ab'' = ''ab''" "norm_text ''abc'' = ''abc''" "norm_text ''abcd'' = ''abcd''"
  by code_simp+

lemma demo_similarity:
  "similarity ''ab'' ''abcd'' = 1 / 2" "similarity ''ab'' ''abc'' = 2 / 3" "similarity ''abcd'' ''abc'' = 4 / 5"
  by code_simp+

lemma demo_lookup:
  "demo_row ''1'' = [(''id'', JStr ''1''), (''n'', JStr ''ab'')]" "demo_row ''2'' = [(''id'', JStr ''2''), (''n'', JStr ''abcd'')]"
  "demo_row ''3'' = [(''id'', JStr ''3''), (''n'', JStr ''abc'')]"
  by (simp_all add: by_pk_def demo_rows_def demo_str_def row_pk_def)

lemma demo_pks: "pks_of demo_str ''id'' demo_rows = [''1'', ''2'', ''3'']"
  by (simp add: pks_of_def demo_rows_def demo_str_def row_pk_def map_filter_simps)

lemma demo_score:
  "fst (pair_score demo_str (demo_row a) (demo_row b) demo_config) =
     string_similarity demo_str (map_of (demo_row a) ''n'') (map_of (demo_row b) ''n'')"
  by (simp add: pair_score_def field_score_def demo_config_def Let_def)

lemmas demo_eval = demo_pks demo_lookup demo_norm demo_similarity string_similarity_def norm_of_def demo_str_def

lemma demo_key_stage:
  "match_keys (\<lambda>p key. det_key_values demo_str (demo_row p) key) [''1'', ''2'', ''3''] [[''n'']] st = Some st"
  by (simp add: demo_eval)

lemma uf_find_at_root: "p x = Some x \<Longrightarrow> uf_find p x = Some (x, p)"
  by (subst uf_find.simps) simp

lemma uf_find_step: "p x = Some y \<Longrightarrow> y \<noteq> x \<Longrightarrow> p y = Some z \<Longrightarrow> uf_find p x = uf_find (p(x \<mapsto> z)) z"
  by (subst uf_find.simps) simp

lemma demo_thresholds: "rc_auto_merge_threshold demo_config = 2 / 3" "rc_review_threshold demo_config = 1 / 2"
  by (simp_all add: demo_config_def)


definition demo_pair :: "string \<Rightarrow> string \<Rightarrow> er_state \<Rightarrow> er_state option" where
  "demo_pair = score_pair (\<lambda>a b. pair_score demo_str (demo_row a) (demo_row b) demo_config) demo_config"

lemma demo_pair_step:
  assumes "er_uf st a = Some a" and "er_uf st b = Some b" and "a \<noteq> b"
    and "string_similarity demo_str (map_of (demo_row a) ''n'') (map_of (demo_row b) ''n'') = s"
  shows "\<exists>st'. demo_pair a b st = Some st' \<and> er_uf st' = (if s \<ge> 2 / 3 then (er_uf st)(a \<mapsto> b) else er_uf st) \<and>
    map (\<lambda>c. (mc_left_pk c, mc_right_pk c)) (er_candidates st') =
      map (\<lambda>c. (mc_left_pk c, mc_right_pk c)) (er_candidates st) @ (if 1 / 2 \<le> s \<and> s < 2 / 3 then [(a, b)] else [])"
  using assms
  by (auto simp: demo_pair_def score_pair_def uf_union_def uf_find_at_root demo_score demo_thresholds case_prod_beta Let_def)

abbreviation demo_pks3 :: "string list" where
  "demo_pks3 \<equiv> [''1'', ''2'', ''3'']"

lemma demo_scoring:
  "\<exists>st. score_block (\<lambda>a b. pair_score demo_str (demo_row a) (demo_row b) demo_config) demo_config demo_pks3 (er_start demo_pks3) = Some st \<and>
     er_uf st = [''1'' \<mapsto> ''3'', ''2'' \<mapsto> ''3'', ''3'' \<mapsto> ''3''] \<and>
     map (\<lambda>c. (mc_left_pk c, mc_right_pk c)) (er_candidates st) = [(''1'', ''2'')]"
proof -
  have start: "er_uf (er_start demo_pks3) = [''1'' \<mapsto> ''1'', ''2'' \<mapsto> ''2'', ''3'' \<mapsto> ''3'']" "er_candidates (er_start demo_pks3) = []"
    by (auto simp: er_start_def uf_init_def)
  obtain s1 where s1: "demo_pair ''1'' ''2'' (er_start demo_pks3) = Some s1" "er_uf s1 = er_uf (er_start demo_pks3)"
      "map (\<lambda>c. (mc_left_pk c, mc_right_pk c)) (er_candidates s1) = [(''1'', ''2'')]"
    using demo_pair_step [of "er_start demo_pks3" "''1''" "''2''" "1 / 2"] by (auto simp: start uf_find_at_root demo_eval)
  obtain s2 where s2: "demo_pair ''1'' ''3'' s1 = Some s2" "er_uf s2 = (er_uf s1)(''1'' \<mapsto> ''3'')"
      "map (\<lambda>c. (mc_left_pk c, mc_right_pk c)) (er_candidates s2) = [(''1'', ''2'')]"
    using demo_pair_step [of s1 "''1''" "''3''" "2 / 3"] by (auto simp: s1 start uf_find_at_root demo_eval)
  obtain s3 where s3: "demo_pair ''2'' ''3'' s2 = Some s3" "er_uf s3 = (er_uf s2)(''2'' \<mapsto> ''3'')"
      "map (\<lambda>c. (mc_left_pk c, mc_right_pk c)) (er_candidates s3) = [(''1'', ''2'')]"
    using demo_pair_step [of s2 "''2''" "''3''" "4 / 5"] by (auto simp: s1 s2 start uf_find_at_root demo_eval)
  show ?thesis using s1 s2 s3 by (auto simp: demo_pair_def start)
qed

lemma demo_clusters:
  "map_option (\<lambda>r. (map cl_member_pks (rr_clusters r), map (\<lambda>c. (mc_left_pk c, mc_right_pk c)) (rr_merge_candidates r)))
     (resolve demo_str demo_rows demo_config ''id'' ''ent'') =
   Some ([demo_pks3], [(''1'', ''2'')])"
proof -
  obtain st where st: "score_block (\<lambda>a b. pair_score demo_str (demo_row a) (demo_row b) demo_config) demo_config demo_pks3 (er_start demo_pks3) = Some st"
     "er_uf st = [''1'' \<mapsto> ''3'', ''2'' \<mapsto> ''3'', ''3'' \<mapsto> ''3'']"
     "map (\<lambda>c. (mc_left_pk c, mc_right_pk c)) (er_candidates st) = [(''1'', ''2'')]"
    using demo_scoring by auto
  have groups: "group_roots demo_pks3 (er_uf st) [] = Some [(''3'', demo_pks3)]"
    by (simp add: st(2) uf_find_at_root uf_find_step)
  have blocks: "bucket (\<lambda>p. Some (block_key demo_str demo_config (demo_row p))) demo_pks3 [] = [([], demo_pks3)]"
    by (simp add: block_key_def demo_config_def)
  have cfg: "rc_scoring_fields demo_config \<noteq> []" "rc_deterministic_keys demo_config = [[''n'']]" by (simp_all add: demo_config_def)
  have members: "cl_member_pks (make_cluster ''ent'' demo_config st demo_pks3) = demo_pks3"
    by (simp add: make_cluster_def Let_def)
  show ?thesis unfolding resolve_def Let_def demo_pks cfg(2) demo_key_stage
    by (simp add: cfg(1) blocks st(1,3) groups members del: bucket.simps score_block.simps group_roots.simps)
qed

theorem resolve_components_witness:
  "(''1'', ''2'') \<in> linked (merge_links demo_str demo_rows demo_config ''id'')"
proof -
  obtain res where res: "resolve demo_str demo_rows demo_config ''id'' ''ent'' = Some res"
      "\<forall>a \<in> set (pks_of demo_str ''id'' demo_rows). \<forall>b \<in> set (pks_of demo_str ''id'' demo_rows).
        (\<exists>c \<in> set (rr_clusters res). a \<in> set (cl_member_pks c) \<and> b \<in> set (cl_member_pks c)) \<longleftrightarrow>
        (a, b) \<in> linked (merge_links demo_str demo_rows demo_config ''id'')"
    using resolve_components [of demo_str demo_rows demo_config "''id''" "''ent''"] by (elim exE conjE)
  obtain c cs where c: "rr_clusters res = c # cs" "cl_member_pks c = demo_pks3"
    using demo_clusters res(1) by (cases "rr_clusters res") auto
  have "\<exists>c \<in> set (rr_clusters res). ''1'' \<in> set (cl_member_pks c) \<and> ''2'' \<in> set (cl_member_pks c)"
    by (rule bexI [of _ c]) (simp_all add: c)
  moreover have "''1'' \<in> set (pks_of demo_str ''id'' demo_rows)" "''2'' \<in> set (pks_of demo_str ''id'' demo_rows)"
    by (simp_all add: demo_pks)
  ultimately show ?thesis using res(2) [THEN bspec, THEN bspec, THEN iffD1] by simp
qed

theorem clusters_partition_witness:
  "\<exists>res. resolve demo_str demo_rows demo_config ''id'' ''ent'' = Some res \<and>
     mset (concat (map cl_member_pks (rr_clusters res))) = {#''1'', ''2'', ''3''#} \<and>
     distinct (map cl_resolved_entity_id (rr_clusters res))"
proof -
  obtain res where res: "resolve demo_str demo_rows demo_config ''id'' ''ent'' = Some res"
    using demo_clusters by (cases "resolve demo_str demo_rows demo_config ''id'' ''ent''") auto
  from clusters_partition [OF res] res show ?thesis by (simp add: demo_pks)
qed

theorem candidates_for_review_witness:
  "\<exists>c :: merge_candidate. mc_left_pk c = ''1'' \<and> mc_right_pk c = ''2'' \<and>
     fst (pair_score demo_str (demo_row (mc_left_pk c)) (demo_row (mc_right_pk c)) demo_config) < rc_auto_merge_threshold demo_config"
proof -
  obtain res where res: "resolve demo_str demo_rows demo_config ''id'' ''ent'' = Some res"
      "map (\<lambda>c. (mc_left_pk c, mc_right_pk c)) (rr_merge_candidates res) = [(''1'', ''2'')]"
    using demo_clusters by (cases "resolve demo_str demo_rows demo_config ''id'' ''ent''") auto
  obtain c cs where c: "rr_merge_candidates res = c # cs" "mc_left_pk c = ''1''" "mc_right_pk c = ''2''"
    using res(2) by (cases "rr_merge_candidates res") auto
  have "c \<in> set (rr_merge_candidates res)" by (simp add: c(1))
  note review = candidates_for_review [OF res(1) this]
  have "fst (pair_score demo_str (demo_row (mc_left_pk c)) (demo_row (mc_right_pk c)) demo_config) < rc_auto_merge_threshold demo_config"
    by (rule review [THEN conjunct2, THEN conjunct2, THEN conjunct2, THEN conjunct1])
  then show ?thesis by (intro exI [of _ c] conjI c(2) c(3))
qed

text \<open>A pair that needs a reviewer can be merged without one: of three records, the first two
  score between the thresholds and become a merge candidate, and both score above the auto-merge
  threshold with the third, so all three end in one cluster while the candidate stays open. The
  module's comment says such pairs are never silently merged.\<close>

theorem candidate_merged_silently:
  "\<exists>res c m. resolve demo_str demo_rows demo_config ''id'' ''ent'' = Some res \<and>
     c \<in> set (rr_clusters res) \<and> m \<in> set (rr_merge_candidates res) \<and>
     mc_left_pk m \<in> set (cl_member_pks c) \<and> mc_right_pk m \<in> set (cl_member_pks c)"
proof -
  obtain res where res: "resolve demo_str demo_rows demo_config ''id'' ''ent'' = Some res"
      "map cl_member_pks (rr_clusters res) = [demo_pks3]"
      "map (\<lambda>c. (mc_left_pk c, mc_right_pk c)) (rr_merge_candidates res) = [(''1'', ''2'')]"
    using demo_clusters by (cases "resolve demo_str demo_rows demo_config ''id'' ''ent''") auto
  obtain c cs where "rr_clusters res = c # cs" "cl_member_pks c = demo_pks3"
    using res(2) by (cases "rr_clusters res") auto
  moreover obtain m ms where "rr_merge_candidates res = m # ms" "mc_left_pk m = ''1''" "mc_right_pk m = ''2''"
    using res(3) by (cases "rr_merge_candidates res") auto
  ultimately show ?thesis using res(1) by (intro exI [of _ res] exI [of _ c] exI [of _ m]) simp
qed

end
