(* ===== verification/Agent_Policy.thy ===== *)
theory Agent_Policy
  imports Prelude
begin

text \<open>
  The pure decision rules of the agent runtime: the auto-execute matrix and version resolution
  (\<open>services/agent-runtime/app/domain/policy.py\<close>), the guardrail envelope
  (\<open>app/domain/guardrail.py\<close>) and the server-derived effect of a write
  (\<open>app/proposals/effect.py\<close>).

  Policies, arguments and effects are JSON objects. \<open>str_of\<close> stands for Python's \<open>str\<close> on a
  JSON value that is not a string, \<open>redact_text\<close> for the regular-expression scrubber of
  \<open>app/domain/redact.py\<close>, \<open>digest\<close> for the SHA-256 of the canonical JSON of the arguments. Error
  texts are left out. \<open>Python_error\<close> is the \<open>AttributeError\<close> or \<open>TypeError\<close> Python raises when a
  stored policy has a value of the wrong type.
\<close>

datatype agent_error =
    Not_found
  | Conflict
  | Proposal_expired
  | Validation_failed
  | Permission_denied
  | Guardrail_violation
  | Python_error
  | Tool_error

subsection \<open>Text of JSON values\<close>

definition py_str :: "(json \<Rightarrow> string) \<Rightarrow> json \<Rightarrow> string" where
  "py_str str_of v = (case v of JStr s \<Rightarrow> s | _ \<Rightarrow> str_of v)"

definition is_obj :: "json \<Rightarrow> bool" where
  "is_obj v = (case v of JObj _ \<Rightarrow> True | _ \<Rightarrow> False)"

definition obj_of :: "json \<Rightarrow> jobj" where
  "obj_of v = (case v of JObj d \<Rightarrow> d | _ \<Rightarrow> [])"

definition or_empty :: "json \<Rightarrow> json" where
  "or_empty v = (if jtruthy v then v else JObj [])"

subsection \<open>The auto-execute matrix\<close>

definition HARD_MANUAL_SIDE_EFFECTS :: "string list" where
  "HARD_MANUAL_SIDE_EFFECTS = [''destructive'']"

definition HARD_MANUAL_TIERS :: "string list" where
  "HARD_MANUAL_TIERS = [''admin'']"

definition has_auto :: "json \<Rightarrow> bool" where
  "has_auto cells =
     (case cells of JObj kvs \<Rightarrow> list_ex (\<lambda>kv. snd kv = JStr ''auto'') kvs | _ \<Rightarrow> cells = JStr ''auto'')"

definition tier_rejected :: "string \<times> json \<Rightarrow> bool" where
  "tier_rejected tc =
     (case tc of (tier, cells) \<Rightarrow>
        tier \<in> set HARD_MANUAL_TIERS \<and> has_auto cells \<or>
        (case cells of
           JObj kvs \<Rightarrow> list_ex (\<lambda>(se, mode). se \<in> set HARD_MANUAL_SIDE_EFFECTS \<and> mode = JStr ''auto'') kvs
         | _ \<Rightarrow> False))"

definition validate_auto_policy :: "jobj \<Rightarrow> agent_error + unit" where
  "validate_auto_policy policy =
     (if list_ex (\<lambda>(a, tiers). case tiers of JObj kvs \<Rightarrow> list_ex tier_rejected kvs | _ \<Rightarrow> True) policy
      then Inl Validation_failed else Inr ())"

fun first_some :: "('a \<Rightarrow> 'b option) \<Rightarrow> 'a list \<Rightarrow> 'b option" where
  "first_some f [] = None"
| "first_some f (x # xs) = (case f x of None \<Rightarrow> first_some f xs | Some y \<Rightarrow> Some y)"

definition cell_mode :: "string \<Rightarrow> json option \<Rightarrow> bool option" where
  "cell_mode side_effects cell =
     (case cell of
        Some (JObj kvs) \<Rightarrow> first_some (\<lambda>se. map_option (\<lambda>m. m = JStr ''auto'') (map_of kvs se)) [side_effects, ''*'']
      | Some (JStr m) \<Rightarrow> Some (m = ''auto'')
      | _ \<Rightarrow> None)"

definition agent_mode :: "string \<Rightarrow> string \<Rightarrow> json option \<Rightarrow> bool option" where
  "agent_mode tier side_effects cells =
     (case cells of
        Some (JObj kvs) \<Rightarrow> first_some (\<lambda>t. cell_mode side_effects (map_of kvs t)) [tier, ''*'']
      | _ \<Rightarrow> None)"

definition is_auto_execute :: "jobj \<Rightarrow> string \<Rightarrow> string \<Rightarrow> string \<Rightarrow> bool" where
  "is_auto_execute policy agent_key tier side_effects =
     (if side_effects \<in> set HARD_MANUAL_SIDE_EFFECTS \<or> tier \<in> set HARD_MANUAL_TIERS then False
      else first_some (\<lambda>a. agent_mode tier side_effects (map_of policy a)) [agent_key, ''*''] = Some True)"

definition resolve_version :: "int option \<Rightarrow> int option \<Rightarrow> int \<Rightarrow> int" where
  "resolve_version pinned canary deflt =
     (case pinned of Some v \<Rightarrow> v | None \<Rightarrow> (case canary of Some v \<Rightarrow> v | None \<Rightarrow> deflt))"

definition canary_assignment :: "(string \<Rightarrow> nat) \<Rightarrow> string \<Rightarrow> int \<Rightarrow> bool" where
  "canary_assignment sha256 seed pct \<longleftrightarrow> int (sha256 seed mod 100) < max 0 (min 100 pct)"

subsection \<open>The guardrail envelope\<close>

definition allowed_workspaces :: "(json \<Rightarrow> string) \<Rightarrow> jobj \<Rightarrow> agent_error + string list" where
  "allowed_workspaces str_of policy =
     (case or_empty (jget policy ''data_scope'') of
        JObj ds \<Rightarrow>
          (let ws = jget ds ''workspaces''
           in case py_iter (if jtruthy ws then ws else JArr []) of
                None \<Rightarrow> Inl Python_error
              | Some vs \<Rightarrow> Inr (remdups (map (py_str str_of) (filter jtruthy vs))))
      | _ \<Rightarrow> Inl Python_error)"

definition workspace_in_scope :: "(json \<Rightarrow> string) \<Rightarrow> string list \<Rightarrow> json \<Rightarrow> bool" where
  "workspace_in_scope str_of allowed workspace_id \<longleftrightarrow>
     allowed = [] \<or> workspace_id \<noteq> JNull \<and> py_str str_of workspace_id \<in> set allowed"

definition enforce_data_scope :: "(json \<Rightarrow> string) \<Rightarrow> jobj \<Rightarrow> json \<Rightarrow> agent_error + unit" where
  "enforce_data_scope str_of policy workspace_id =
     (case allowed_workspaces str_of policy of
        Inl e \<Rightarrow> Inl e
      | Inr allowed \<Rightarrow>
          if allowed = [] then Inr ()
          else if \<not> workspace_in_scope str_of allowed workspace_id then Inl Guardrail_violation
          else Inr ())"

definition pii_redaction_on :: "jobj \<Rightarrow> agent_error + bool" where
  "pii_redaction_on policy =
     (case or_empty (jget policy ''pii'') of
        JObj pii \<Rightarrow> Inr (jtruthy (jget pii ''block_pii_egress'') \<or> jtruthy (jget pii ''redact''))
      | _ \<Rightarrow> Inl Python_error)"

definition redact_key :: "(json \<Rightarrow> string) \<Rightarrow> (string \<Rightarrow> string) \<Rightarrow> string \<Rightarrow> jobj \<Rightarrow> jobj" where
  "redact_key str_of redact_text k d =
     (if jtruthy (jget d k) then AList.update k (JStr (redact_text (py_str str_of (jget d k)))) d else d)"

definition redact_citation :: "(json \<Rightarrow> string) \<Rightarrow> (string \<Rightarrow> string) \<Rightarrow> json \<Rightarrow> json" where
  "redact_citation str_of redact_text c =
     (case c of
        JObj d \<Rightarrow>
          JObj (AList.update ''detail''
            (JStr (redact_text (case map_of d ''detail'' of None \<Rightarrow> [] | Some v \<Rightarrow> py_str str_of v))) d)
      | _ \<Rightarrow> c)"

definition redact_effect :: "(json \<Rightarrow> string) \<Rightarrow> (string \<Rightarrow> string) \<Rightarrow> jobj \<Rightarrow> jobj" where
  "redact_effect str_of redact_text effect =
     (if effect = [] then effect
      else (let pe = fold (redact_key str_of redact_text) [''summary'', ''agent_summary'', ''authoritative_summary''] effect
            in case jget pe ''citations'' of
                 JArr cs \<Rightarrow> AList.update ''citations'' (JArr (map (redact_citation str_of redact_text) cs)) pe
               | _ \<Rightarrow> pe))"

subsection \<open>The effect shown to the approver\<close>

definition HIGH_BLAST_THRESHOLD :: nat where
  "HIGH_BLAST_THRESHOLD = 25"

definition HIGH_TIERS :: "string list" where
  "HIGH_TIERS = [''write-direct'', ''admin'']"

definition reversibility :: "string \<Rightarrow> string" where
  "reversibility side_effects =
     (if side_effects = ''none'' then ''none''
      else if side_effects = ''reversible'' then ''reversible''
      else ''irreversible'')"

definition risk_of :: "string \<Rightarrow> string \<Rightarrow> string list \<Rightarrow> string" where
  "risk_of tier side_effects urns =
     (if reversibility side_effects = ''irreversible'' \<or> HIGH_BLAST_THRESHOLD \<le> length urns \<or> tier \<in> set HIGH_TIERS
      then ''high'' else ''low'')"

definition effect_summary :: "string \<Rightarrow> string \<Rightarrow> string \<Rightarrow> nat \<Rightarrow> string" where
  "effect_summary tool_id tier rv blast =
     ''Runs '' @ tool_id @ '' (tier '' @ tier @ '', '' @ rv @ ''); affects '' @ py_str_nat blast @ '' '' @
     (if blast = 1 then ''resource'' else ''resources'') @ ''.''"

definition derive_effect ::
    "(jobj \<Rightarrow> string) \<Rightarrow> string \<Rightarrow> string \<Rightarrow> string \<Rightarrow> jobj \<Rightarrow> string list \<Rightarrow> jobj \<Rightarrow> jobj" where
  "derive_effect digest tool_id tier side_effects args urns model_effect =
     (let blast = length urns;
          rv = reversibility side_effects;
          out = (if jtruthy (jget model_effect ''summary'')
                 then AList.update ''agent_summary'' (jget model_effect ''summary'') model_effect else model_effect)
      in AList.update ''args_digest'' (JStr (digest args))
          (AList.update ''authoritative_summary'' (JStr (effect_summary tool_id tier rv blast))
            (AList.update ''risk'' (JStr (risk_of tier side_effects urns))
              (AList.update ''reversibility'' (JStr rv)
                (AList.update ''blast_radius'' (JInt (int blast)) out)))))"

subsection \<open>What the rules guarantee\<close>

lemma jget_update [simp]: "jget (AList.update k v d) k' = (if k = k' then v else jget d k')"
  by (simp add: jget_def)

lemma derive_effect_facts:
  "jget (derive_effect digest tool_id tier se args urns m) ''risk'' = JStr (risk_of tier se urns)"
  "jget (derive_effect digest tool_id tier se args urns m) ''args_digest'' = JStr (digest args)"
  "jget (derive_effect digest tool_id tier se args urns m) ''blast_radius'' = JInt (int (length urns))"
  "k \<notin> {''agent_summary'', ''blast_radius'', ''reversibility'', ''risk'', ''authoritative_summary'', ''args_digest''} \<Longrightarrow>
   jget (derive_effect digest tool_id tier se args urns m) k = jget m k"
  by (auto simp: derive_effect_def Let_def)

lemma risk_low:
  "risk_of tier se urns \<noteq> ''high'' \<longleftrightarrow>
     se \<in> {''none'', ''reversible''} \<and> length urns < HIGH_BLAST_THRESHOLD \<and> tier \<notin> set HIGH_TIERS"
  by (auto simp: risk_of_def reversibility_def not_le)

lemma never_auto: "is_auto_execute policy agent_key tier se \<Longrightarrow> se \<noteq> ''destructive'' \<and> tier \<noteq> ''admin''"
  by (auto simp: is_auto_execute_def HARD_MANUAL_SIDE_EFFECTS_def HARD_MANUAL_TIERS_def split: if_splits)

end
