(* ===== verification/Proposals.thy ===== *)
theory Proposals
  imports Agent_Policy "HOL-Library.List_Lexorder" "HOL-Library.Char_ord"
begin

text \<open>
  The proposal service of the agent runtime (\<open>services/agent-runtime/app/proposals/service.py\<close>) over
  its store (\<open>app/store/memory.py\<close>, the proposal and outbox operations): a write intent of an agent
  becomes a proposal, a human or the tenant's policy decides it once, and only an approved proposal
  reaches the tool plane, with a grant bound to its arguments.

  The state holds the proposals, the outbox, the messages sent to the bus and to the realtime hub, the
  decisions joined to transcripts and, in \<open>as_calls\<close>, every call made to the tool plane with the claims
  of its grant and the subject of its token. Everything outside the service is a field of \<open>agent_env\<close>:
  the clock (one reading per call), fresh ids, the authorization engine, agent versions, tenant
  configurations, the tool plane (\<open>None\<close> when the call raises), redaction and the argument digest.
  Signatures, event ids and error texts are left out. A configuration lookup that fails counts as no
  configuration, as in the code.

  Each operation is split where the code awaits another party, so that \<open>agent_step\<close> can interleave
  several operations in flight: \<open>create_from_intent\<close> into admission, opening and the automatic
  decision, \<open>decide\<close> into its checks and the commit.

  A run may be backed by a durable workflow (\<open>app/runtime/temporalx\<close>). Then the route decides without
  executing (\<open>app/api/routes/proposals.py\<close>) and signals the workflow of the run, which runs the activity
  \<open>execute_proposal\<close> on the proposal it created itself, with up to three attempts. \<open>deferred\<close> holds the
  signals sent and what each workflow does; that an attempt which raised, timed out or was lost is made
  again, up to \<open>maximum_attempts\<close>, is the documented behaviour of the workflow engine.
\<close>

subsection \<open>Data\<close>

record agent_run =
  ru_tenant_id :: string
  ru_session_id :: "string option"
  ru_run_id :: string
  ru_agent_key :: string
  ru_agent_version :: "int option"

record write_intent =
  wi_tool_id :: string
  wi_tool_version :: string
  wi_tier :: string
  wi_side_effects :: string
  wi_args :: jobj
  wi_rationale :: string
  wi_affected_urns :: "string list"
  wi_predicted_effect :: jobj
  wi_required_action :: "string option"
  wi_workspace_id :: "string option"

datatype proposal_status = Pending | Approved | Edited_approved | Rejected | Cancelled | Superseded | Expired

record diff_entry =
  df_field :: string
  df_from :: json
  df_to :: json

record decision =
  dc_actor :: string
  dc_action :: string
  dc_decided_at :: instant
  dc_message :: "string option"
  dc_diff :: "diff_entry list option"
  dc_edited_args :: "jobj option"

record proposal =
  pr_proposal_id :: string
  pr_tenant_id :: string
  pr_session_id :: "string option"
  pr_run_id :: string
  pr_agent_key :: string
  pr_agent_version :: "int option"
  pr_obo_user :: "string option"
  pr_tool_id :: string
  pr_tool_version :: string
  pr_tier :: string
  pr_side_effects :: string
  pr_args :: jobj
  pr_rationale :: string
  pr_affected_urns :: "string list"
  pr_predicted_effect :: jobj
  pr_expires_at :: instant
  pr_status :: proposal_status
  pr_decision :: "decision option"
  pr_workspace_id :: json
  pr_updated_at :: instant

record proposal_event =
  ev_type :: string
  ev_tenant_id :: string
  ev_actor_type :: string
  ev_actor_id :: string
  ev_resource_urn :: string
  ev_proposal_id :: string
  ev_decision :: "decision option"

record tool_call =
  tc_proposal_id :: string
  tc_tenant_id :: string
  tc_tool_id :: string
  tc_version :: string
  tc_tier :: string
  tc_args :: jobj
  tc_args_digest :: string
  tc_decided_by :: string
  tc_obo_sub :: string

record tool_result =
  tr_ok :: bool
  tr_status :: string

datatype realtime_message =
    Proposal_created string string string
  | Tool_call_result string string tool_result

record attached_decision =
  ad_proposal_id :: string
  ad_action :: string
  ad_edited_args :: "json option"
  ad_decided_by :: string
  ad_rationale :: "string option"

record agent_state =
  as_proposals :: "(string, proposal) dict"
  as_outbox :: "proposal_event list"
  as_bus :: "proposal_event list"
  as_realtime :: "realtime_message list"
  as_calls :: "tool_call list"
  as_transcripts :: "attached_decision list"

record agent_env =
  en_now :: instant
  en_pid :: string
  en_ttl :: int
  en_allow :: "string \<Rightarrow> string \<Rightarrow> string \<Rightarrow> string \<Rightarrow> json \<Rightarrow> bool"
  en_versions :: "string \<Rightarrow> int \<Rightarrow> json list option"
  en_config :: "string \<Rightarrow> string \<Rightarrow> jobj option"
  en_call :: "tool_call \<Rightarrow> tool_result option"
  en_redact :: "string \<Rightarrow> string"
  en_digest :: "jobj \<Rightarrow> string"
  en_str :: "json \<Rightarrow> string"
  en_transcripts :: bool

definition given :: "string option \<Rightarrow> bool" where
  "given x \<longleftrightarrow> x \<noteq> None \<and> x \<noteq> Some []"

subsection \<open>The store\<close>

definition create_proposal :: "proposal \<Rightarrow> agent_state \<Rightarrow> agent_state" where
  "create_proposal p st = st\<lparr>as_proposals := AList.update (pr_proposal_id p) p (as_proposals st)\<rparr>"

definition get_proposal :: "string \<Rightarrow> string \<Rightarrow> agent_state \<Rightarrow> proposal option" where
  "get_proposal tenant_id proposal_id st =
     (case map_of (as_proposals st) proposal_id of
        None \<Rightarrow> None
      | Some p \<Rightarrow> if pr_tenant_id p \<noteq> tenant_id then None else Some p)"

definition decide_proposal ::
    "string \<Rightarrow> string \<Rightarrow> proposal_status \<Rightarrow> decision \<Rightarrow> instant \<Rightarrow> agent_state \<Rightarrow> proposal option \<times> agent_state" where
  "decide_proposal tenant_id proposal_id new_status dec decided_at st =
     (case map_of (as_proposals st) proposal_id of
        None \<Rightarrow> (None, st)
      | Some p \<Rightarrow>
          if pr_tenant_id p \<noteq> tenant_id \<or> pr_status p \<noteq> Pending then (None, st)
          else (let q = p\<lparr>pr_status := new_status, pr_decision := Some dec, pr_updated_at := decided_at\<rparr>
                in (Some q, st\<lparr>as_proposals := AList.update proposal_id q (as_proposals st)\<rparr>)))"

definition superseded_by ::
    "string \<Rightarrow> string \<Rightarrow> string \<Rightarrow> string list \<Rightarrow> string \<Rightarrow> proposal \<Rightarrow> bool" where
  "superseded_by tenant_id run_id tool_id urns except_id p \<longleftrightarrow>
     pr_tenant_id p = tenant_id \<and> pr_run_id p = run_id \<and> pr_tool_id p = tool_id \<and> pr_status p = Pending \<and>
     pr_proposal_id p \<noteq> except_id \<and> list_ex (\<lambda>u. u \<in> set urns) (pr_affected_urns p)"

definition supersede_pending ::
    "string \<Rightarrow> string \<Rightarrow> string \<Rightarrow> string list \<Rightarrow> string \<Rightarrow> agent_state \<Rightarrow> agent_state" where
  "supersede_pending tenant_id run_id tool_id urns except_id st =
     st\<lparr>as_proposals :=
          map (\<lambda>(k, p). (k, if superseded_by tenant_id run_id tool_id urns except_id p
                            then p\<lparr>pr_status := Superseded\<rparr> else p)) (as_proposals st)\<rparr>"

definition enqueue_outbox :: "proposal_event \<Rightarrow> agent_state \<Rightarrow> agent_state" where
  "enqueue_outbox e st = st\<lparr>as_outbox := as_outbox st @ [e]\<rparr>"

definition bus_publish :: "proposal_event \<Rightarrow> agent_state \<Rightarrow> agent_state" where
  "bus_publish e st = st\<lparr>as_bus := as_bus st @ [e]\<rparr>"

definition rt_publish :: "realtime_message \<Rightarrow> agent_state \<Rightarrow> agent_state" where
  "rt_publish m st = st\<lparr>as_realtime := as_realtime st @ [m]\<rparr>"

subsection \<open>Events\<close>

definition proposal_urn :: "string \<Rightarrow> string \<Rightarrow> string" where
  "proposal_urn tenant_id proposal_id = ''wr:'' @ tenant_id @ '':agent:proposal/'' @ proposal_id"

definition user_prefix :: string where
  "user_prefix = ''user:''"

definition emit :: "proposal \<Rightarrow> string \<Rightarrow> decision option \<Rightarrow> agent_state \<Rightarrow> agent_state" where
  "emit p event_type dec st =
     (let actor = (case dec of
                     Some d \<Rightarrow> if take 5 (dc_actor d) = user_prefix then (''user'', drop 5 (dc_actor d))
                               else (''agent'', pr_agent_key p)
                   | None \<Rightarrow> (''agent'', pr_agent_key p));
          e = \<lparr>ev_type = event_type, ev_tenant_id = pr_tenant_id p, ev_actor_type = fst actor, ev_actor_id = snd actor,
               ev_resource_urn = proposal_urn (pr_tenant_id p) (pr_proposal_id p),
               ev_proposal_id = pr_proposal_id p, ev_decision = dec\<rparr>
      in bus_publish e (enqueue_outbox e st))"

subsection \<open>Execution\<close>

definition policy_auto :: string where
  "policy_auto = ''policy:auto''"

definition tool_call_of :: "agent_env \<Rightarrow> proposal \<Rightarrow> string \<Rightarrow> string option \<Rightarrow> jobj \<Rightarrow> tool_call" where
  "tool_call_of env p decided_by obo_user args =
     (let obo_sub = (if decided_by = policy_auto then obo_user else Some decided_by)
      in \<lparr>tc_proposal_id = pr_proposal_id p, tc_tenant_id = pr_tenant_id p, tc_tool_id = pr_tool_id p,
          tc_version = pr_tool_version p, tc_tier = pr_tier p, tc_args = args, tc_args_digest = en_digest env args,
          tc_decided_by = decided_by, tc_obo_sub = (if given obo_sub then the obo_sub else decided_by)\<rparr>)"

definition execute_tool ::
    "agent_env \<Rightarrow> proposal \<Rightarrow> string \<Rightarrow> string option \<Rightarrow> jobj \<Rightarrow> (agent_state, agent_error, tool_result) eff" where
  "execute_tool env p decided_by obo_user args st =
     (let c = tool_call_of env p decided_by obo_user args;
          st' = st\<lparr>as_calls := as_calls st @ [c]\<rparr>
      in case en_call env c of
           None \<Rightarrow> (Inl Tool_error, st')
         | Some r \<Rightarrow> (Inr r, rt_publish (Tool_call_result (pr_run_id p) (pr_tool_id p) r) st'))"

definition execute_approved ::
    "agent_env \<Rightarrow> proposal \<Rightarrow> string \<Rightarrow> jobj \<Rightarrow> (agent_state, agent_error, tool_result) eff" where
  "execute_approved env p decided_by args = execute_tool env p decided_by (pr_obo_user p) args"

subsection \<open>Creating a proposal\<close>

definition TIER_RANK :: "(string, nat) dict" where
  "TIER_RANK = [(''read'', 0), (''write-proposal'', 1), (''write-direct'', 2), (''admin'', 3)]"

definition tier_rank :: "string \<Rightarrow> nat" where
  "tier_rank tier = (case map_of TIER_RANK tier of None \<Rightarrow> 99 | Some n \<Rightarrow> n)"

definition intent_workspace :: "write_intent \<Rightarrow> json" where
  "intent_workspace intent =
     (case wi_workspace_id intent of
        Some w \<Rightarrow> if w \<noteq> [] then JStr w else jget (wi_args intent) ''workspace_id''
      | None \<Rightarrow> jget (wi_args intent) ''workspace_id'')"

definition guardrail_policy :: "agent_env \<Rightarrow> agent_run \<Rightarrow> jobj" where
  "guardrail_policy env run = (case en_config env (ru_tenant_id run) (ru_agent_key run) of None \<Rightarrow> [] | Some p \<Rightarrow> p)"

definition toolset_of :: "agent_env \<Rightarrow> agent_run \<Rightarrow> json list" where
  "toolset_of env run =
     (case ru_agent_version run of
        None \<Rightarrow> []
      | Some v \<Rightarrow> (case en_versions env (ru_agent_key run) v of None \<Rightarrow> [] | Some ts \<Rightarrow> ts))"

definition allow_list :: "json list \<Rightarrow> json list" where
  "allow_list toolset = remdups (map (\<lambda>t. jget (obj_of t) ''tool_id'') (filter is_obj toolset))"

definition is_string :: "json \<Rightarrow> bool" where
  "is_string v = (case v of JStr _ \<Rightarrow> True | _ \<Rightarrow> False)"

definition enforce_guardrail :: "agent_env \<Rightarrow> agent_run \<Rightarrow> write_intent \<Rightarrow> agent_error + unit" where
  "enforce_guardrail env run intent =
     (let allowed = allow_list (toolset_of env run)
      in if list_ex (\<lambda>v. case v of JArr _ \<Rightarrow> True | JObj _ \<Rightarrow> True | _ \<Rightarrow> False) allowed then Inl Python_error
         else if allowed \<noteq> [] \<and> JStr (wi_tool_id intent) \<notin> set allowed
         then Inl (if length allowed \<le> 1 \<or> list_all is_string allowed then Guardrail_violation else Python_error)
         else if tier_rank ''write-proposal'' < tier_rank (wi_tier intent) then Inl Guardrail_violation
         else Inr ())"

definition authorize_caller :: "agent_env \<Rightarrow> write_intent \<Rightarrow> string \<Rightarrow> string \<Rightarrow> bool" where
  "authorize_caller env intent obo_user tenant_id =
     list_all (\<lambda>urn. en_allow env obo_user (the (wi_required_action intent)) tenant_id urn (intent_workspace intent))
       (wi_affected_urns intent)"

definition admit :: "agent_env \<Rightarrow> agent_run \<Rightarrow> write_intent \<Rightarrow> string option \<Rightarrow> agent_error + write_intent" where
  "admit env run intent obo_user =
     (if given (wi_required_action intent) \<and> given obo_user \<and> \<not> authorize_caller env intent (the obo_user) (ru_tenant_id run)
      then Inl Permission_denied
      else (case enforce_guardrail env run intent of
              Inl e \<Rightarrow> Inl e
            | Inr _ \<Rightarrow>
                (let policy = guardrail_policy env run
                 in case enforce_data_scope (en_str env) policy (intent_workspace intent) of
                      Inl e \<Rightarrow> Inl e
                    | Inr _ \<Rightarrow>
                        (case pii_redaction_on policy of
                           Inl e \<Rightarrow> Inl e
                         | Inr on \<Rightarrow>
                             Inr (if on
                                  then intent\<lparr>wi_rationale := en_redact env (wi_rationale intent),
                                              wi_predicted_effect :=
                                                redact_effect (en_str env) (en_redact env) (wi_predicted_effect intent)\<rparr>
                                  else intent)))))"

definition new_proposal :: "agent_env \<Rightarrow> agent_run \<Rightarrow> write_intent \<Rightarrow> string option \<Rightarrow> proposal" where
  "new_proposal env run intent obo_user =
     \<lparr>pr_proposal_id = en_pid env, pr_tenant_id = ru_tenant_id run, pr_session_id = ru_session_id run,
      pr_run_id = ru_run_id run, pr_agent_key = ru_agent_key run, pr_agent_version = ru_agent_version run,
      pr_obo_user = obo_user, pr_tool_id = wi_tool_id intent, pr_tool_version = wi_tool_version intent,
      pr_tier = wi_tier intent, pr_side_effects = wi_side_effects intent, pr_args = wi_args intent,
      pr_rationale = wi_rationale intent, pr_affected_urns = wi_affected_urns intent,
      pr_predicted_effect =
        derive_effect (en_digest env) (wi_tool_id intent) (wi_tier intent) (wi_side_effects intent) (wi_args intent)
          (wi_affected_urns intent) (wi_predicted_effect intent),
      pr_expires_at = en_now env + seconds (en_ttl env), pr_status = Pending, pr_decision = None,
      pr_workspace_id = intent_workspace intent, pr_updated_at = en_now env\<rparr>"

definition open_proposal :: "agent_run \<Rightarrow> proposal \<Rightarrow> agent_state \<Rightarrow> agent_state" where
  "open_proposal run p st =
     rt_publish (Proposal_created (ru_run_id run) (pr_proposal_id p) (pr_tool_id p))
       (emit p ''proposal.created'' None
         (supersede_pending (ru_tenant_id run) (ru_run_id run) (pr_tool_id p) (pr_affected_urns p) (pr_proposal_id p)
           (create_proposal p st)))"

definition auto_decided :: "jobj \<Rightarrow> proposal \<Rightarrow> bool" where
  "auto_decided policy p \<longleftrightarrow>
     is_auto_execute policy (pr_agent_key p) (pr_tier p) (pr_side_effects p) \<and>
     jget (pr_predicted_effect p) ''risk'' \<noteq> JStr ''high'' \<and>
     \<not> jtruthy (jget (pr_predicted_effect p) ''untrusted_input'') \<and>
     \<not> jtruthy (jget (pr_predicted_effect p) ''low_confidence'')"

definition auto_decision :: "agent_env \<Rightarrow> decision" where
  "auto_decision env =
     \<lparr>dc_actor = policy_auto, dc_action = ''approve'', dc_decided_at = en_now env, dc_message = None,
      dc_diff = None, dc_edited_args = None\<rparr>"

definition commit_auto :: "agent_env \<Rightarrow> proposal \<Rightarrow> (agent_state, agent_error, proposal \<times> bool) eff" where
  "commit_auto env p st =
     (case decide_proposal (pr_tenant_id p) (pr_proposal_id p) Approved (auto_decision env) (en_now env) st of
        (None, st') \<Rightarrow> (Inr (p, False), st')
      | (Some d, st') \<Rightarrow>
          bindE (execute_tool env d policy_auto (pr_obo_user p) (pr_args d))
            (\<lambda>_ st''. (Inr (d, True), emit d ''proposal.approved'' (pr_decision d) st'')) st')"

definition create_from_intent ::
    "agent_env \<Rightarrow> agent_run \<Rightarrow> write_intent \<Rightarrow> string option \<Rightarrow> jobj \<Rightarrow> (agent_state, agent_error, proposal \<times> bool) eff" where
  "create_from_intent env run intent obo_user auto_execute_policy st =
     (case admit env run intent obo_user of
        Inl e \<Rightarrow> (Inl e, st)
      | Inr i \<Rightarrow>
          (let p = new_proposal env run i obo_user;
               st' = open_proposal run p st
           in if auto_decided auto_execute_policy p then commit_auto env p st' else (Inr (p, False), st')))"

subsection \<open>Deciding a proposal\<close>

definition diff_args :: "jobj \<Rightarrow> jobj \<Rightarrow> diff_entry list" where
  "diff_args old new =
     map (\<lambda>k. \<lparr>df_field = k, df_from = jget old k, df_to = jget new k\<rparr>)
       (filter (\<lambda>k. \<not> py_eq (jget old k) (jget new k)) (sort (remdups (map fst old @ map fst new))))"

definition proposal_risk :: "proposal \<Rightarrow> json" where
  "proposal_risk p = (case map_of (pr_predicted_effect p) ''risk'' of None \<Rightarrow> JStr ''low'' | Some r \<Rightarrow> r)"

definition distinct_party :: "proposal \<Rightarrow> string \<Rightarrow> bool \<Rightarrow> bool" where
  "distinct_party p actor_sub self_approval_allowed \<longleftrightarrow>
     (if given (pr_obo_user p)
      then pr_obo_user p \<noteq> Some actor_sub \<or> (self_approval_allowed \<and> proposal_risk p \<noteq> JStr ''high'')
      else actor_sub \<noteq> [] \<and> actor_sub \<noteq> pr_agent_key p)"

definition proposal_workspace :: "proposal \<Rightarrow> json" where
  "proposal_workspace p =
     (if jtruthy (pr_workspace_id p) then pr_workspace_id p else jget (pr_args p) ''workspace_id'')"

definition may_approve :: "agent_env \<Rightarrow> proposal \<Rightarrow> string \<Rightarrow> bool" where
  "may_approve env p actor_sub =
     list_all (\<lambda>urn. en_allow env actor_sub ''ai.proposal.approve'' (pr_tenant_id p) urn (proposal_workspace p))
       (pr_affected_urns p)"

definition check_eligibility :: "agent_env \<Rightarrow> proposal \<Rightarrow> string \<Rightarrow> bool \<Rightarrow> agent_error + unit" where
  "check_eligibility env p actor_sub self_approval_allowed =
     (if \<not> distinct_party p actor_sub self_approval_allowed then Inl Permission_denied
      else if \<not> may_approve env p actor_sub then Inl Permission_denied
      else Inr ())"

record decide_request =
  dr_tenant_id :: string
  dr_proposal_id :: string
  dr_actor_sub :: string
  dr_action :: string
  dr_message :: "string option"
  dr_edited_args :: "json option"
  dr_self_approval_allowed :: bool
  dr_execute :: bool

record ticket =
  tk_status :: proposal_status
  tk_decision :: decision
  tk_args :: jobj

definition base_decision :: "agent_env \<Rightarrow> decide_request \<Rightarrow> decision" where
  "base_decision env r =
     \<lparr>dc_actor = user_prefix @ dr_actor_sub r, dc_action = dr_action r, dc_decided_at = en_now env,
      dc_message = (if given (dr_message r) then dr_message r else None), dc_diff = None, dc_edited_args = None\<rparr>"

definition settle_action :: "proposal \<Rightarrow> decision \<Rightarrow> string \<Rightarrow> json option \<Rightarrow> agent_error + ticket" where
  "settle_action p dec action edited_args =
     (if action = ''edit_args''
      then (case edited_args of
              Some (JObj new) \<Rightarrow>
                if new = [] then Inl Validation_failed
                else Inr \<lparr>tk_status = Edited_approved,
                          tk_decision = dec\<lparr>dc_diff := Some (diff_args (pr_args p) new), dc_edited_args := Some new\<rparr>,
                          tk_args = new\<rparr>
            | _ \<Rightarrow> Inl Validation_failed)
      else if action = ''approve'' then Inr \<lparr>tk_status = Approved, tk_decision = dec, tk_args = pr_args p\<rparr>
      else if action = ''reject'' then Inr \<lparr>tk_status = Rejected, tk_decision = dec, tk_args = pr_args p\<rparr>
      else if action = ''respond'' then Inr \<lparr>tk_status = Cancelled, tk_decision = dec, tk_args = pr_args p\<rparr>
      else Inl Validation_failed)"

definition decide_check :: "agent_env \<Rightarrow> decide_request \<Rightarrow> agent_state \<Rightarrow> agent_error + ticket" where
  "decide_check env r st =
     (case get_proposal (dr_tenant_id r) (dr_proposal_id r) st of
        None \<Rightarrow> Inl Not_found
      | Some p \<Rightarrow>
          if pr_status p \<noteq> Pending then Inl Conflict
          else if pr_expires_at p \<le> en_now env then Inl Proposal_expired
          else (case (if dr_action r \<in> {''approve'', ''edit_args''}
                      then check_eligibility env p (dr_actor_sub r) (dr_self_approval_allowed r) else Inr ()) of
                  Inl e \<Rightarrow> Inl e
                | Inr _ \<Rightarrow> settle_action p (base_decision env r) (dr_action r) (dr_edited_args r)))"

definition event_of :: "proposal_status \<Rightarrow> string" where
  "event_of s =
     (case s of Approved \<Rightarrow> ''proposal.approved'' | Edited_approved \<Rightarrow> ''proposal.edited_approved''
      | Rejected \<Rightarrow> ''proposal.rejected'' | _ \<Rightarrow> ''proposal.cancelled'')"

definition attach_decision :: "agent_env \<Rightarrow> decide_request \<Rightarrow> agent_state \<Rightarrow> agent_state" where
  "attach_decision env r st =
     (if en_transcripts env
      then st\<lparr>as_transcripts := as_transcripts st @
             [\<lparr>ad_proposal_id = dr_proposal_id r, ad_action = dr_action r, ad_edited_args = dr_edited_args r,
               ad_decided_by = dr_actor_sub r, ad_rationale = dr_message r\<rparr>]\<rparr>
      else st)"

definition commit_decision :: "agent_env \<Rightarrow> decide_request \<Rightarrow> ticket \<Rightarrow> (agent_state, agent_error, proposal) eff" where
  "commit_decision env r tk st =
     (case decide_proposal (dr_tenant_id r) (dr_proposal_id r) (tk_status tk) (tk_decision tk) (en_now env) st of
        (None, st') \<Rightarrow> (Inl Conflict, st')
      | (Some d, st') \<Rightarrow>
          bindE (if dr_execute r \<and> tk_status tk \<in> {Approved, Edited_approved}
                 then bindE (execute_tool env d (dr_actor_sub r) (pr_obo_user d) (tk_args tk)) (\<lambda>_. returnE ())
                 else returnE ())
            (\<lambda>_ st''. (Inr d, emit d (event_of (tk_status tk)) (Some (tk_decision tk)) (attach_decision env r st''))) st')"

definition decide :: "agent_env \<Rightarrow> decide_request \<Rightarrow> (agent_state, agent_error, proposal) eff" where
  "decide env r st =
     (case decide_check env r st of Inl e \<Rightarrow> (Inl e, st) | Inr tk \<Rightarrow> commit_decision env r tk st)"

subsection \<open>Deferred execution\<close>

definition execute_proposal ::
    "agent_env \<Rightarrow> string \<Rightarrow> string \<Rightarrow> string \<Rightarrow> jobj \<Rightarrow> (agent_state, agent_error, tool_result) eff" where
  "execute_proposal env tenant_id proposal_id decided_by args st =
     (case get_proposal tenant_id proposal_id st of
        None \<Rightarrow> (Inl Python_error, st)
      | Some p \<Rightarrow> execute_approved env p decided_by (if args \<noteq> [] then args else pr_args p) st)"

record signal =
  sg_tenant_id :: string
  sg_run_id :: string
  sg_decided_by :: string
  sg_args :: jobj

definition signal_workflow :: "proposal \<Rightarrow> string \<Rightarrow> signal" where
  "signal_workflow decided decided_by =
     (let args = (case pr_decision decided of None \<Rightarrow> None | Some d \<Rightarrow> dc_edited_args d)
      in \<lparr>sg_tenant_id = pr_tenant_id decided, sg_run_id = pr_run_id decided, sg_decided_by = decided_by,
          sg_args = (case args of None \<Rightarrow> pr_args decided | Some a \<Rightarrow> if a \<noteq> [] then a else pr_args decided)\<rparr>)"

definition maximum_attempts :: nat where
  "maximum_attempts = 3"

datatype workflow_phase = Awaiting_approval | Executing string jobj nat

record deferred =
  dw_signals :: "signal set"
  dw_workflows :: "string \<times> string \<rightharpoonup> string \<times> workflow_phase"

definition workflow_awaits :: "proposal \<Rightarrow> deferred \<Rightarrow> deferred" where
  "workflow_awaits p w =
     w\<lparr>dw_workflows := (dw_workflows w)((pr_tenant_id p, pr_run_id p) \<mapsto> (pr_proposal_id p, Awaiting_approval))\<rparr>"

definition workflow_decided :: "string \<Rightarrow> signal \<Rightarrow> deferred \<Rightarrow> deferred" where
  "workflow_decided k g w =
     w\<lparr>dw_workflows := (dw_workflows w)((sg_tenant_id g, sg_run_id g) \<mapsto>
         (k, Executing (sg_decided_by g) (sg_args g) maximum_attempts))\<rparr>"

definition workflow_tried :: "string \<times> string \<Rightarrow> string \<Rightarrow> string \<Rightarrow> jobj \<Rightarrow> nat \<Rightarrow> deferred \<Rightarrow> deferred" where
  "workflow_tried x k decided_by args n w =
     w\<lparr>dw_workflows := (dw_workflows w)(x \<mapsto> (k, Executing decided_by args n))\<rparr>"

subsection \<open>Operations in flight\<close>

datatype flight = Auto_flight proposal | Decision_flight decide_request ticket

type_synonym agent_system = "agent_state \<times> flight set \<times> deferred"

fun land :: "agent_env \<Rightarrow> flight \<Rightarrow> agent_state \<Rightarrow> agent_state" where
  "land env (Auto_flight p) st = snd (commit_auto env p st)"
| "land env (Decision_flight r tk) st = snd (commit_decision env r tk st)"

text \<open>The steps. \<open>backed\<close> tells which runs of a tenant have a workflow. \<open>Open\<close> admits an intent and
  stores its proposal, \<open>Check\<close> passes the checks of a decision, \<open>Land\<close> commits an automatic decision or a
  checked one, and \<open>Signal\<close> also reaches the workflow of the run. \<open>Await\<close>: the workflow of a run, of which
  there is one, learns the proposal that \<open>create_from_intent\<close> returned without having executed it. An
  attempt of the creation whose answer was lost leaves a proposal of the run that no workflow knows.
  \<open>Receive\<close>: the workflow takes a decision signalled to its run, earlier or later. \<open>Attempt\<close>: one attempt
  of the activity; that it is the last one shows in no further step.\<close>

inductive agent_step :: "(string \<Rightarrow> string \<Rightarrow> bool) \<Rightarrow> agent_system \<Rightarrow> agent_system \<Rightarrow> bool" for backed where
  Open: "admit env run intent obo_user = Inr i \<Longrightarrow> map_of (as_proposals st) (en_pid env) = None \<Longrightarrow>
    p = new_proposal env run i obo_user \<Longrightarrow>
    agent_step backed (st, fs, w) (open_proposal run p st, if auto_decided policy p then insert (Auto_flight p) fs else fs, w)"
| Check: "decide_check env r st = Inr tk \<Longrightarrow> get_proposal (dr_tenant_id r) (dr_proposal_id r) st = Some p \<Longrightarrow>
    dr_execute r = (\<not> backed (pr_tenant_id p) (pr_run_id p)) \<Longrightarrow>
    agent_step backed (st, fs, w) (st, insert (Decision_flight r tk) fs, w)"
| Land: "f \<in> fs \<Longrightarrow> agent_step backed (st, fs, w) (land env f st, fs - {f}, w)"
| Signal: "Decision_flight r tk \<in> fs \<Longrightarrow> commit_decision env r tk st = (Inr d, st') \<Longrightarrow> \<not> dr_execute r \<Longrightarrow>
    pr_status d \<in> {Approved, Edited_approved} \<Longrightarrow>
    agent_step backed (st, fs, w)
      (st', fs - {Decision_flight r tk}, w\<lparr>dw_signals := insert (signal_workflow d (dr_actor_sub r)) (dw_signals w)\<rparr>)"
| Await: "map_of (as_proposals st) k = Some p \<Longrightarrow> backed (pr_tenant_id p) (pr_run_id p) \<Longrightarrow>
    dw_workflows w (pr_tenant_id p, pr_run_id p) = None \<Longrightarrow>
    (\<And>a. Auto_flight a \<in> fs \<Longrightarrow> pr_proposal_id a \<noteq> k) \<Longrightarrow> (\<And>c. c \<in> set (as_calls st) \<Longrightarrow> tc_proposal_id c \<noteq> k) \<Longrightarrow>
    agent_step backed (st, fs, w) (st, fs, workflow_awaits p w)"
| Receive: "g \<in> dw_signals w \<Longrightarrow> dw_workflows w (sg_tenant_id g, sg_run_id g) = Some (k, Awaiting_approval) \<Longrightarrow>
    agent_step backed (st, fs, w) (st, fs, workflow_decided k g w)"
| Attempt: "dw_workflows w x = Some (k, Executing decided_by args (Suc n)) \<Longrightarrow>
    agent_step backed (st, fs, w)
      (snd (execute_proposal env (fst x) k decided_by args st), fs, workflow_tried x k decided_by args n w)"

definition empty_agent_state :: agent_state where
  "empty_agent_state = \<lparr>as_proposals = [], as_outbox = [], as_bus = [], as_realtime = [], as_calls = [], as_transcripts = []\<rparr>"

definition no_workflows :: deferred where
  "no_workflows = \<lparr>dw_signals = {}, dw_workflows = Map.empty\<rparr>"

definition agent_reachable :: "(string \<Rightarrow> string \<Rightarrow> bool) \<Rightarrow> agent_system \<Rightarrow> bool" where
  "agent_reachable backed s \<longleftrightarrow> (agent_step backed)\<^sup>*\<^sup>* (empty_agent_state, {}, no_workflows) s"

inductive_cases agent_stepE: "agent_step backed s s'"

subsection \<open>What each operation does to proposals and calls\<close>

lemma keeps_proposals [simp]:
  "as_proposals (rt_publish m st) = as_proposals st" "as_proposals (emit p e d st) = as_proposals st"
  "as_proposals (attach_decision env r st) = as_proposals st"
  "as_proposals (snd (execute_tool env p by obo args st)) = as_proposals st"
  by (auto simp: rt_publish_def emit_def bus_publish_def enqueue_outbox_def attach_decision_def execute_tool_def Let_def
      split: option.splits)

lemma keeps_calls [simp]:
  "as_calls (rt_publish m st) = as_calls st" "as_calls (emit p e d st) = as_calls st"
  "as_calls (attach_decision env r st) = as_calls st" "as_calls (create_proposal p st) = as_calls st"
  "as_calls (supersede_pending t rid tid urns x st) = as_calls st"
  by (auto simp: rt_publish_def emit_def bus_publish_def enqueue_outbox_def attach_decision_def create_proposal_def
      supersede_pending_def Let_def)

lemma execute_calls [simp]:
  "as_calls (snd (execute_tool env p by obo args st)) = as_calls st @ [tool_call_of env p by obo args]"
  by (auto simp: execute_tool_def Let_def split: option.splits)

lemma decide_proposal_calls: "decide_proposal t k s d tm st = (r, st') \<Longrightarrow> as_calls st' = as_calls st"
  by (auto simp: decide_proposal_def Let_def split: option.splits if_splits)

lemma decide_proposal_cases:
  obtains "decide_proposal t k s d tm st = (None, st)"
  | p q where "map_of (as_proposals st) k = Some p" "pr_tenant_id p = t" "pr_status p = Pending"
      "q = p\<lparr>pr_status := s, pr_decision := Some d, pr_updated_at := tm\<rparr>"
      "decide_proposal t k s d tm st = (Some q, st\<lparr>as_proposals := AList.update k q (as_proposals st)\<rparr>)"
proof (cases "map_of (as_proposals st) k")
  case None
  then show ?thesis by (intro that(1)) (simp add: decide_proposal_def)
next
  case (Some p)
  show ?thesis
  proof (cases "pr_tenant_id p = t \<and> pr_status p = Pending")
    case True
    then show ?thesis using Some by (intro that(2) [of p]) (auto simp: decide_proposal_def Let_def)
  next
    case False
    then show ?thesis using Some by (intro that(1)) (auto simp: decide_proposal_def)
  qed
qed

fun flight_key :: "flight \<Rightarrow> string \<times> string" where
  "flight_key (Auto_flight p) = (pr_tenant_id p, pr_proposal_id p)"
| "flight_key (Decision_flight r tk) = (dr_tenant_id r, dr_proposal_id r)"

fun flight_status :: "flight \<Rightarrow> proposal_status" where
  "flight_status (Auto_flight p) = Approved"
| "flight_status (Decision_flight r tk) = tk_status tk"

fun flight_decision :: "agent_env \<Rightarrow> flight \<Rightarrow> decision" where
  "flight_decision env (Auto_flight p) = auto_decision env"
| "flight_decision env (Decision_flight r tk) = tk_decision tk"

fun flight_calls :: "agent_env \<Rightarrow> proposal \<Rightarrow> flight \<Rightarrow> tool_call list" where
  "flight_calls env d (Auto_flight p) = [tool_call_of env d policy_auto (pr_obo_user p) (pr_args d)]"
| "flight_calls env d (Decision_flight r tk) =
     (if dr_execute r \<and> tk_status tk \<in> {Approved, Edited_approved}
      then [tool_call_of env d (dr_actor_sub r) (pr_obo_user d) (tk_args tk)] else [])"

definition flight_outcome :: "agent_env \<Rightarrow> flight \<Rightarrow> agent_state \<Rightarrow> proposal option \<times> agent_state" where
  "flight_outcome env f st =
     decide_proposal (fst (flight_key f)) (snd (flight_key f)) (flight_status f) (flight_decision env f) (en_now env) st"

lemma land_proposals: "as_proposals (land env f st) = as_proposals (snd (flight_outcome env f st))"
  by (cases f)
    (auto simp: flight_outcome_def commit_auto_def commit_decision_def snd_bindE split: option.splits prod.splits sum.splits)

lemma land_calls:
  "as_calls (land env f st) =
     as_calls st @ (case fst (flight_outcome env f st) of None \<Rightarrow> [] | Some d \<Rightarrow> flight_calls env d f)"
  by (cases f)
    (auto simp: flight_outcome_def commit_auto_def commit_decision_def snd_bindE
      split: option.splits prod.splits sum.splits dest: decide_proposal_calls)

subsection \<open>Proposals only gain a decision\<close>

definition request :: "proposal \<Rightarrow> proposal" where
  "request p = p\<lparr>pr_status := Pending, pr_decision := None, pr_updated_at := 0\<rparr>"

definition progresses :: "agent_state \<Rightarrow> agent_state \<Rightarrow> bool" where
  "progresses st st' \<longleftrightarrow>
     (\<forall>k p. map_of (as_proposals st) k = Some p \<longrightarrow>
        (\<exists>q. map_of (as_proposals st') k = Some q \<and> request q = request p \<and> (pr_status p \<noteq> Pending \<longrightarrow> q = p)))"

lemma progressesD:
  assumes "progresses st st'" and "map_of (as_proposals st) k = Some p"
  obtains q where "map_of (as_proposals st') k = Some q" "request q = request p" "pr_status p \<noteq> Pending \<Longrightarrow> q = p"
  using assms unfolding progresses_def by blast

lemma progresses_refl [simp]: "progresses st st"
  by (simp add: progresses_def)

lemma progresses_trans: "progresses a b \<Longrightarrow> progresses b c \<Longrightarrow> progresses a c"
  unfolding progresses_def by metis

lemma supersede_lookup:
  "map_of (as_proposals (supersede_pending t rid tid urns x st)) k =
     map_option (\<lambda>p. if superseded_by t rid tid urns x p then p\<lparr>pr_status := Superseded\<rparr> else p) (map_of (as_proposals st) k)"
  by (simp add: supersede_pending_def map_of_map [unfolded comp_def])

lemma open_lookup:
  "map_of (as_proposals (open_proposal run p st)) k =
     map_option (\<lambda>q. if superseded_by (ru_tenant_id run) (ru_run_id run) (pr_tool_id p) (pr_affected_urns p) (pr_proposal_id p) q
                      then q\<lparr>pr_status := Superseded\<rparr> else q)
       (((map_of (as_proposals st))(pr_proposal_id p \<mapsto> p)) k)"
  by (cases "k = pr_proposal_id p") (simp_all add: open_proposal_def supersede_lookup create_proposal_def)

lemma open_progresses:
  assumes "map_of (as_proposals st) (pr_proposal_id p) = None"
  shows "progresses st (open_proposal run p st)"
  using assms by (auto simp: progresses_def open_lookup request_def superseded_by_def)

lemma land_progresses: "progresses st (land env f st)"
proof (cases rule: decide_proposal_cases [of "fst (flight_key f)" "snd (flight_key f)" "flight_status f"
      "flight_decision env f" "en_now env" st])
  case 1
  then show ?thesis by (simp add: progresses_def land_proposals flight_outcome_def)
next
  case (2 p q)
  then show ?thesis by (auto simp: progresses_def land_proposals flight_outcome_def request_def)
qed

lemma execute_proposal_keeps [simp]: "as_proposals (snd (execute_proposal env t k by args st)) = as_proposals st"
  by (simp add: execute_proposal_def execute_approved_def split: option.splits)

lemma execute_proposal_calls:
  "as_calls (snd (execute_proposal env t k by args st)) = as_calls st @
     (case get_proposal t k st of
        None \<Rightarrow> []
      | Some q \<Rightarrow> [tool_call_of env q by (pr_obo_user q) (if args \<noteq> [] then args else pr_args q)])"
  by (simp add: execute_proposal_def execute_approved_def split: option.splits)

lemma same_progresses: "as_proposals st' = as_proposals st \<Longrightarrow> progresses st st'"
  by (simp add: progresses_def)

lemma step_progresses:
  assumes "agent_step backed s s'"
  shows "progresses (fst s) (fst s')"
  using assms
proof cases
  case (Signal r tk fs env st d st' w)
  then show ?thesis using land_progresses [of st env "Decision_flight r tk"] by simp
qed (auto simp: land_progresses new_proposal_def intro: open_progresses same_progresses)

lemma steps_progress: "(agent_step backed)\<^sup>*\<^sup>* s s' \<Longrightarrow> progresses (fst s) (fst s')"
  by (induction rule: rtranclp_induct) (auto intro: progresses_trans step_progresses)

subsection \<open>Every call was approved\<close>

definition low_risk :: "proposal \<Rightarrow> bool" where
  "low_risk p \<longleftrightarrow> pr_side_effects p \<in> {''none'', ''reversible''} \<and>
     length (pr_affected_urns p) < HIGH_BLAST_THRESHOLD \<and> pr_tier p \<notin> set HIGH_TIERS"

definition four_eyes :: "proposal \<Rightarrow> string \<Rightarrow> bool" where
  "four_eyes p actor \<longleftrightarrow>
     (if given (pr_obo_user p) then pr_obo_user p \<noteq> Some actor \<or> low_risk p else actor \<noteq> [] \<and> actor \<noteq> pr_agent_key p)"

definition approved_args :: "proposal \<Rightarrow> proposal_status \<Rightarrow> decision \<Rightarrow> jobj \<Rightarrow> bool" where
  "approved_args p s d args \<longleftrightarrow> s = Approved \<and> args = pr_args p \<or> s = Edited_approved \<and> dc_edited_args d = Some args"

definition same_run :: "proposal \<Rightarrow> proposal \<Rightarrow> bool" where
  "same_run p q \<longleftrightarrow> pr_tenant_id p = pr_tenant_id q \<and> pr_run_id p = pr_run_id q"

definition run_backed :: "(string \<Rightarrow> string \<Rightarrow> bool) \<Rightarrow> proposal \<Rightarrow> bool" where
  "run_backed backed p \<longleftrightarrow> backed (pr_tenant_id p) (pr_run_id p)"

definition approved_by :: "proposal \<Rightarrow> string \<Rightarrow> jobj \<Rightarrow> bool" where
  "approved_by p actor args \<longleftrightarrow>
     (\<exists>d. pr_decision p = Some d \<and> approved_args p (pr_status p) d args \<and> dc_actor d = user_prefix @ actor \<and> four_eyes p actor)"

definition approved_by_policy :: "proposal \<Rightarrow> jobj \<Rightarrow> bool" where
  "approved_by_policy p args \<longleftrightarrow>
     (\<exists>d. pr_decision p = Some d \<and> approved_args p (pr_status p) d args \<and> dc_actor d = policy_auto \<and> low_risk p)"

definition call_for :: "proposal \<Rightarrow> tool_call \<Rightarrow> bool" where
  "call_for q c \<longleftrightarrow>
     tc_tenant_id c = pr_tenant_id q \<and> tc_tool_id c = pr_tool_id q \<and> tc_version c = pr_tool_version q \<and> tc_tier c = pr_tier q"

text \<open>The approval \<open>p\<close> a call for the proposal \<open>q\<close> rests on: the proposal's own, or, when its run has a workflow,
  the one of a proposal of the same run, with the arguments that were approved; no arguments approved
  means the proposal's.\<close>

definition call_rests_on :: "(string \<Rightarrow> string \<Rightarrow> bool) \<Rightarrow> proposal \<Rightarrow> proposal \<Rightarrow> tool_call \<Rightarrow> bool" where
  "call_rests_on backed p q c \<longleftrightarrow>
     p = q \<and> (approved_by_policy p (tc_args c) \<or> approved_by p (tc_decided_by c) (tc_args c)) \<or>
     run_backed backed q \<and> same_run p q \<and>
       (\<exists>args. approved_by p (tc_decided_by c) args \<and> tc_args c = (if args \<noteq> [] then args else pr_args q))"

fun flight_allowed :: "(string \<Rightarrow> string \<Rightarrow> bool) \<Rightarrow> proposal \<Rightarrow> flight \<Rightarrow> bool" where
  "flight_allowed backed q (Auto_flight p) \<longleftrightarrow> request q = request p \<and> low_risk q"
| "flight_allowed backed q (Decision_flight r tk) \<longleftrightarrow> tk_status tk \<noteq> Pending \<and> dr_execute r = (\<not> run_backed backed q) \<and>
     (tk_status tk \<in> {Approved, Edited_approved} \<longrightarrow>
        dc_actor (tk_decision tk) = user_prefix @ dr_actor_sub r \<and> four_eyes q (dr_actor_sub r) \<and>
        approved_args q (tk_status tk) (tk_decision tk) (tk_args tk) \<and>
        (case dc_edited_args (tk_decision tk) of None \<Rightarrow> tk_status tk = Approved
           | Some a \<Rightarrow> tk_status tk = Edited_approved \<and> a \<noteq> []))"

definition flight_ok :: "(string \<Rightarrow> string \<Rightarrow> bool) \<Rightarrow> agent_state \<Rightarrow> flight \<Rightarrow> bool" where
  "flight_ok backed st f \<longleftrightarrow> (\<exists>q. map_of (as_proposals st) (snd (flight_key f)) = Some q \<and> flight_allowed backed q f)"

definition risk_recorded :: "proposal \<Rightarrow> bool" where
  "risk_recorded p \<longleftrightarrow> proposal_risk p = JStr (risk_of (pr_tier p) (pr_side_effects p) (pr_affected_urns p))"

definition call_ok :: "(string \<Rightarrow> string \<Rightarrow> bool) \<Rightarrow> agent_state \<Rightarrow> tool_call \<Rightarrow> bool" where
  "call_ok backed st c \<longleftrightarrow>
     (\<exists>k p q. map_of (as_proposals st) (tc_proposal_id c) = Some q \<and> map_of (as_proposals st) k = Some p \<and>
        call_for q c \<and> call_rests_on backed p q c)"

definition signal_ok :: "(string \<Rightarrow> string \<Rightarrow> bool) \<Rightarrow> agent_state \<Rightarrow> string \<Rightarrow> string \<Rightarrow> string \<Rightarrow> jobj \<Rightarrow> bool" where
  "signal_ok backed st t rid actor args \<longleftrightarrow> backed t rid \<and>
     (\<exists>k p. map_of (as_proposals st) k = Some p \<and> pr_tenant_id p = t \<and> pr_run_id p = rid \<and> approved_by p actor args)"

definition workflow_ok :: "(string \<Rightarrow> string \<Rightarrow> bool) \<Rightarrow> agent_state \<Rightarrow> flight set \<Rightarrow> string \<times> string \<Rightarrow> string \<times> workflow_phase \<Rightarrow> bool" where
  "workflow_ok backed st fs x v \<longleftrightarrow> backed (fst x) (snd x) \<and>
     (\<exists>q. map_of (as_proposals st) (fst v) = Some q \<and> (pr_tenant_id q, pr_run_id q) = x) \<and>
     (\<forall>a. Auto_flight a \<in> fs \<longrightarrow> pr_proposal_id a \<noteq> fst v) \<and>
     (case snd v of Awaiting_approval \<Rightarrow> True
        | Executing actor args n \<Rightarrow> n \<le> maximum_attempts \<and> signal_ok backed st (fst x) (snd x) actor args)"

definition calls_for :: "agent_state \<Rightarrow> string \<Rightarrow> nat" where
  "calls_for st k = length (filter (\<lambda>c. tc_proposal_id c = k) (as_calls st))"

text \<open>How often a proposal can have been executed: by its workflow, as often as it has tried; else once,
  and not before it is decided.\<close>

definition call_limit :: "proposal \<Rightarrow> deferred \<Rightarrow> nat" where
  "call_limit q w =
     (case dw_workflows w (pr_tenant_id q, pr_run_id q) of
        Some (k, ph) \<Rightarrow>
          if k = pr_proposal_id q
          then (case ph of Awaiting_approval \<Rightarrow> 0 | Executing _ _ n \<Rightarrow> maximum_attempts - n)
          else if pr_status q = Pending then 0 else 1
      | None \<Rightarrow> if pr_status q = Pending then 0 else 1)"

definition agent_sound :: "(string \<Rightarrow> string \<Rightarrow> bool) \<Rightarrow> agent_system \<Rightarrow> bool" where
  "agent_sound backed s \<longleftrightarrow> (case s of (st, fs, w) \<Rightarrow>
     (\<forall>k p. map_of (as_proposals st) k = Some p \<longrightarrow>
        pr_proposal_id p = k \<and> risk_recorded p \<and> calls_for st k \<le> call_limit p w) \<and>
     (\<forall>c \<in> set (as_calls st). call_ok backed st c) \<and>
     (\<forall>f \<in> fs. flight_ok backed st f) \<and>
     (\<forall>g \<in> dw_signals w. signal_ok backed st (sg_tenant_id g) (sg_run_id g) (sg_decided_by g) (sg_args g)) \<and>
     (\<forall>x v. dw_workflows w x = Some v \<longrightarrow> workflow_ok backed st fs x v))"

lemma agent_soundD:
  assumes "agent_sound backed (st, fs, w)"
  shows "map_of (as_proposals st) k = Some p \<Longrightarrow> pr_proposal_id p = k \<and> risk_recorded p \<and> calls_for st k \<le> call_limit p w"
    and "c \<in> set (as_calls st) \<Longrightarrow> call_ok backed st c"
    and "f \<in> fs \<Longrightarrow> flight_ok backed st f"
    and "g \<in> dw_signals w \<Longrightarrow> signal_ok backed st (sg_tenant_id g) (sg_run_id g) (sg_decided_by g) (sg_args g)"
    and "dw_workflows w x = Some v \<Longrightarrow> workflow_ok backed st fs x v"
  using assms unfolding agent_sound_def split by blast+

lemma request_fields:
  assumes "request q = request p"
  shows "pr_args q = pr_args p \<and> pr_tier q = pr_tier p \<and> pr_side_effects q = pr_side_effects p \<and>
    pr_affected_urns q = pr_affected_urns p \<and> pr_obo_user q = pr_obo_user p \<and> pr_agent_key q = pr_agent_key p \<and>
    pr_proposal_id q = pr_proposal_id p \<and> pr_predicted_effect q = pr_predicted_effect p \<and>
    pr_tenant_id q = pr_tenant_id p \<and> pr_run_id q = pr_run_id p \<and> pr_tool_id q = pr_tool_id p \<and>
    pr_tool_version q = pr_tool_version p"
  using arg_cong [OF assms, of "\<lambda>x. (pr_args x, pr_tier x, pr_side_effects x, pr_affected_urns x, pr_obo_user x,
    pr_agent_key x, pr_proposal_id x, pr_predicted_effect x, pr_tenant_id x, pr_run_id x, pr_tool_id x, pr_tool_version x)"]
  by (simp add: request_def)

lemma request_same:
  assumes "request q = request p"
  shows "low_risk q = low_risk p" "four_eyes q = four_eyes p" "approved_args q = approved_args p"
    "risk_recorded q = risk_recorded p" "flight_allowed backed q = flight_allowed backed p"
    "run_backed backed q = run_backed backed p" "same_run x q = same_run x p" "call_for q = call_for p"
proof -
  note f = request_fields [OF assms]
  show l: "low_risk q = low_risk p" using f by (simp add: low_risk_def)
  show e: "four_eyes q = four_eyes p" using f l by (intro ext) (simp add: four_eyes_def)
  show a: "approved_args q = approved_args p" using f by (intro ext) (simp add: approved_args_def)
  show "risk_recorded q = risk_recorded p" using f by (simp add: risk_recorded_def proposal_risk_def)
  show b: "run_backed backed q = run_backed backed p" using f by (simp add: run_backed_def)
  show "flight_allowed backed q = flight_allowed backed p"
  proof
    fix x show "flight_allowed backed q x = flight_allowed backed p x" using assms l e a b by (cases x) simp_all
  qed
  show "same_run x q = same_run x p" using f by (simp add: same_run_def)
  show "call_for q = call_for p" using f by (intro ext) (simp add: call_for_def)
qed

lemma request_update [simp]: "request (p\<lparr>pr_status := s, pr_decision := d, pr_updated_at := u\<rparr>) = request p"
  by (simp add: request_def)

lemma approved_not_pending:
  "approved_by p actor args \<Longrightarrow> pr_status p \<noteq> Pending" "approved_by_policy p args \<Longrightarrow> pr_status p \<noteq> Pending"
  "call_rests_on backed p q c \<Longrightarrow> pr_status p \<noteq> Pending"
  by (auto simp: call_rests_on_def approved_by_def approved_by_policy_def approved_args_def)

lemma progresses_flight:
  assumes "progresses st st'" and "flight_ok backed st f"
  shows "flight_ok backed st' f"
proof -
  obtain q where q: "map_of (as_proposals st) (snd (flight_key f)) = Some q" "flight_allowed backed q f"
    using assms(2) unfolding flight_ok_def by blast
  obtain q' where "map_of (as_proposals st') (snd (flight_key f)) = Some q'" "request q' = request q"
    using progressesD [OF assms(1) q(1)] by metis
  then show ?thesis using q(2) request_same(5) unfolding flight_ok_def by metis
qed

lemma progresses_approved:
  assumes "progresses st st'" and "map_of (as_proposals st) k = Some p" and "pr_status p \<noteq> Pending"
  shows "map_of (as_proposals st') k = Some p"
  using progressesD [OF assms(1,2)] assms(3) by metis

lemma progresses_signal:
  assumes "progresses st st'" and "signal_ok backed st t rid actor args"
  shows "signal_ok backed st' t rid actor args"
  using assms(2) progresses_approved [OF assms(1)] approved_not_pending(1) unfolding signal_ok_def by metis

lemma progresses_call:
  assumes "progresses st st'" and "call_ok backed st c"
  shows "call_ok backed st' c"
proof -
  obtain k p q where *: "map_of (as_proposals st) (tc_proposal_id c) = Some q" "map_of (as_proposals st) k = Some p"
      "call_for q c" "call_rests_on backed p q c"
    using assms(2) unfolding call_ok_def by blast
  obtain q' where q': "map_of (as_proposals st') (tc_proposal_id c) = Some q'" "request q' = request q" "pr_status q \<noteq> Pending \<Longrightarrow> q' = q"
    using progressesD [OF assms(1) *(1)] by metis
  have p: "map_of (as_proposals st') k = Some p"
    using progresses_approved [OF assms(1) *(2)] approved_not_pending(3) [OF *(4)] by simp
  have "call_rests_on backed p q' c"
    using *(4) q'(3) approved_not_pending(3) [OF *(4)] request_same(6,7) [OF q'(2)] request_fields [OF q'(2)]
    unfolding call_rests_on_def by auto
  then show ?thesis using q'(1) p *(3) request_same(8) [OF q'(2)] unfolding call_ok_def by metis
qed

lemma progresses_workflow:
  assumes "progresses st st'" and "workflow_ok backed st fs x v" and "\<And>a. Auto_flight a \<in> fs' \<Longrightarrow> Auto_flight a \<notin> fs \<Longrightarrow> pr_proposal_id a \<noteq> fst v"
  shows "workflow_ok backed st' fs' x v"
proof -
  obtain q where q: "map_of (as_proposals st) (fst v) = Some q" "(pr_tenant_id q, pr_run_id q) = x"
    using assms(2) unfolding workflow_ok_def by blast
  obtain q' where "map_of (as_proposals st') (fst v) = Some q'" "request q' = request q"
    using progressesD [OF assms(1) q(1)] by metis
  moreover have "pr_proposal_id a \<noteq> fst v" if "Auto_flight a \<in> fs'" for a
    using assms(2) assms(3) [OF that] unfolding workflow_ok_def by blast
  ultimately show ?thesis using assms(2) q(2) request_fields [of q' q] progresses_signal [OF assms(1)]
    unfolding workflow_ok_def by (auto split: workflow_phase.splits)
qed

lemma risk_low_iff: "risk_recorded p \<Longrightarrow> proposal_risk p \<noteq> JStr ''high'' \<longleftrightarrow> low_risk p"
  unfolding risk_recorded_def low_risk_def using risk_low by auto

lemma check_allowed:
  assumes "decide_check env r st = Inr tk" and "get_proposal (dr_tenant_id r) (dr_proposal_id r) st = Some p"
    and "dr_execute r = (\<not> backed (pr_tenant_id p) (pr_run_id p))" and "risk_recorded p"
  shows "flight_ok backed st (Decision_flight r tk)"
proof -
  have p: "map_of (as_proposals st) (dr_proposal_id r) = Some p"
      "dr_action r \<in> {''approve'', ''edit_args''} \<Longrightarrow> check_eligibility env p (dr_actor_sub r) (dr_self_approval_allowed r) = Inr ()"
      "settle_action p (base_decision env r) (dr_action r) (dr_edited_args r) = Inr tk"
    using assms(1,2) by (auto simp: decide_check_def get_proposal_def split: option.splits if_splits sum.splits)
  have eyes: "four_eyes p (dr_actor_sub r)" if "dr_action r \<in> {''approve'', ''edit_args''}"
    using p(2) [OF that] risk_low_iff [OF assms(4)]
    by (auto simp: check_eligibility_def distinct_party_def four_eyes_def split: if_splits)
  have "flight_allowed backed p (Decision_flight r tk)"
    using p(3) eyes assms(3)
    by (auto simp: settle_action_def base_decision_def approved_args_def run_backed_def split: if_splits option.splits json.splits)
  then show ?thesis using p(1) by (auto simp: flight_ok_def)
qed

lemma new_proposal_recorded: "risk_recorded (new_proposal env run i obo_user)"
  using derive_effect_facts(1) [of "en_digest env" "wi_tool_id i" "wi_tier i" "wi_side_effects i" "wi_args i" "wi_affected_urns i"
      "wi_predicted_effect i"]
  by (auto simp: risk_recorded_def proposal_risk_def new_proposal_def jget_def split: option.splits)

lemma auto_decided_low:
  assumes "auto_decided policy p" and "risk_recorded p"
  shows "low_risk p"
proof -
  have "proposal_risk p \<noteq> JStr ''high''"
    using assms(1) by (auto simp: auto_decided_def proposal_risk_def jget_def split: option.splits)
  then show ?thesis using risk_low_iff [OF assms(2)] by simp
qed

lemma calls_for_append: "as_calls st' = as_calls st @ cs \<Longrightarrow> calls_for st' k = calls_for st k + length (filter (\<lambda>c. tc_proposal_id c = k) cs)"
  by (simp add: calls_for_def)

lemma calls_for_same: "as_calls st' = as_calls st \<Longrightarrow> calls_for st' k = calls_for st k"
  by (simp add: calls_for_def)

lemma no_calls: "agent_sound backed (st, fs, w) \<Longrightarrow> map_of (as_proposals st) k = None \<Longrightarrow> calls_for st k = 0"
  using agent_soundD(2) by (fastforce simp: calls_for_def call_ok_def filter_empty_conv)

lemma limit_mono:
  assumes "request q = request p" and "pr_status p \<noteq> Pending \<Longrightarrow> q = p"
  shows "call_limit p w \<le> call_limit q w"
  using assms(2) request_fields [OF assms(1)]
  by (auto simp: call_limit_def split: option.splits workflow_phase.splits)

lemma kept_proposal:
  assumes "agent_sound backed (st, fs, w)" and "progresses st st'" and "map_of (as_proposals st) k = Some p"
    and "map_of (as_proposals st') k = Some q"
  shows "pr_proposal_id q = k \<and> risk_recorded q \<and> calls_for st k \<le> call_limit q w"
proof -
  have r: "request q = request p" "pr_status p \<noteq> Pending \<Longrightarrow> q = p"
    using progressesD [OF assms(2,3)] assms(4) by (metis option.inject)+
  show ?thesis using agent_soundD(1) [OF assms(1,3)] request_fields [OF r(1)] request_same(4) [OF r(1)] limit_mono [OF r, of w]
    by simp
qed

lemma sound_step:
  assumes "agent_sound backed (st, fs, w)" and "progresses st st'" and "as_calls st' = as_calls st @ cs"
    and "\<And>k p. map_of (as_proposals st') k = Some p \<Longrightarrow>
           pr_proposal_id p = k \<and> risk_recorded p \<and> calls_for st' k \<le> call_limit p w'"
    and "\<And>c. c \<in> set cs \<Longrightarrow> call_ok backed st' c"
    and "\<And>f. f \<in> fs' \<Longrightarrow> f \<notin> fs \<Longrightarrow> flight_ok backed st' f"
    and "\<And>a x v. Auto_flight a \<in> fs' \<Longrightarrow> Auto_flight a \<notin> fs \<Longrightarrow> dw_workflows w x = Some v \<Longrightarrow> pr_proposal_id a \<noteq> fst v"
    and "\<And>g. g \<in> dw_signals w' \<Longrightarrow> g \<notin> dw_signals w \<Longrightarrow>
           signal_ok backed st' (sg_tenant_id g) (sg_run_id g) (sg_decided_by g) (sg_args g)"
    and "\<And>x v. dw_workflows w' x = Some v \<Longrightarrow> dw_workflows w x \<noteq> Some v \<Longrightarrow> workflow_ok backed st' fs' x v"
  shows "agent_sound backed (st', fs', w')"
proof -
  note old = agent_soundD [OF assms(1)]
  have "call_ok backed st' c" if "c \<in> set (as_calls st')" for c
    using that assms(3,5) progresses_call [OF assms(2) old(2)] by auto
  moreover have "flight_ok backed st' f" if "f \<in> fs'" for f
    using assms(6) [OF that] progresses_flight [OF assms(2) old(3)] by blast
  moreover have "signal_ok backed st' (sg_tenant_id g) (sg_run_id g) (sg_decided_by g) (sg_args g)" if "g \<in> dw_signals w'" for g
    using assms(8) [OF that] progresses_signal [OF assms(2) old(4)] by blast
  moreover have "workflow_ok backed st' fs' x v" if "dw_workflows w' x = Some v" for x v
  proof (cases "dw_workflows w x = Some v")
    case True
    show ?thesis using progresses_workflow [OF assms(2) old(5) [OF True]] assms(7) [OF _ _ True] by blast
  qed (use assms(9) that in blast)
  ultimately show ?thesis using assms(4) by (simp add: agent_sound_def)
qed

lemma open_sound:
  assumes "agent_sound backed (st, fs, w)" and new: "map_of (as_proposals st) (pr_proposal_id p) = None"
    and "risk_recorded p" and "pr_status p = Pending"
  shows "agent_sound backed (open_proposal run p st, if auto_decided policy p then insert (Auto_flight p) fs else fs, w)"
proof -
  let ?st = "open_proposal run p st"
  have prog: "progresses st ?st" using new by (rule open_progresses)
  have calls: "as_calls ?st = as_calls st @ []" by (simp add: open_proposal_def)
  have here: "map_of (as_proposals ?st) (pr_proposal_id p) = Some p"
    by (auto simp: open_lookup superseded_by_def)
  show ?thesis
  proof (rule sound_step [OF assms(1) prog calls])
    fix k q assume q: "map_of (as_proposals ?st) k = Some q"
    show "pr_proposal_id q = k \<and> risk_recorded q \<and> calls_for ?st k \<le> call_limit q w"
    proof (cases "map_of (as_proposals st) k")
      case None
      with q have "k = pr_proposal_id p" by (auto simp: open_lookup split: if_splits)
      then show ?thesis using q here assms(3) no_calls [OF assms(1) None] calls by (simp add: calls_for_def)
    next
      case (Some p')
      show ?thesis using kept_proposal [OF assms(1) prog Some q] calls by (simp add: calls_for_def)
    qed
  next
    fix f assume f: "f \<in> (if auto_decided policy p then insert (Auto_flight p) fs else fs)" "f \<notin> fs"
    then show "flight_ok backed ?st f"
      using here auto_decided_low [OF _ assms(3)] by (auto simp: flight_ok_def split: if_splits)
  next
    fix a x v assume a: "Auto_flight a \<in> (if auto_decided policy p then insert (Auto_flight p) fs else fs)" "Auto_flight a \<notin> fs"
      and x: "dw_workflows w x = Some v"
    have "\<exists>q. map_of (as_proposals st) (fst v) = Some q" using agent_soundD(5) [OF assms(1) x] by (auto simp: workflow_ok_def)
    then show "pr_proposal_id a \<noteq> fst v" using a new by (auto split: if_splits)
  qed auto
qed

lemma flight_call_approved:
  assumes "flight_allowed backed p f" and "c \<in> set (flight_calls env q f)"
    and q: "q = p\<lparr>pr_status := flight_status f, pr_decision := Some (flight_decision env f), pr_updated_at := u\<rparr>"
  shows "call_for q c \<and> call_rests_on backed q q c \<and> tc_proposal_id c = pr_proposal_id p"
proof -
  note same = request_same [of q p, unfolded q request_update, OF refl, folded q]
  show ?thesis
  proof (cases f)
    case (Auto_flight a)
    then show ?thesis using assms(1,2) same(1)
      by (simp add: q call_for_def call_rests_on_def approved_by_policy_def tool_call_of_def approved_args_def auto_decision_def Let_def)
  next
    case (Decision_flight r tk)
    then have c: "c = tool_call_of env q (dr_actor_sub r) (pr_obo_user q) (tk_args tk)" and ok: "tk_status tk \<in> {Approved, Edited_approved}"
      using assms(2) by (auto split: if_splits)
    have "approved_by q (dr_actor_sub r) (tk_args tk)"
      using ok assms(1) same(2,3) Decision_flight by (auto simp: approved_by_def q)
    then show ?thesis by (simp add: c call_for_def call_rests_on_def tool_call_of_def Let_def q)
  qed
qed

lemma landing_limit:
  assumes "agent_sound backed (st, fs, w)" and "f \<in> fs" and p: "map_of (as_proposals st) (snd (flight_key f)) = Some p"
    and "flight_allowed backed p f" and "flight_calls env d f \<noteq> []" and "request q = request p"
  shows "call_limit q w = (if pr_status q = Pending then 0 else 1)"
proof -
  have "pr_proposal_id p = snd (flight_key f)" using agent_soundD(1) [OF assms(1) p] by simp
  moreover have False if v: "dw_workflows w (pr_tenant_id p, pr_run_id p) = Some v" "fst v = snd (flight_key f)" for v
    using agent_soundD(5) [OF assms(1) v(1)] v(2) assms(2,4,5)
    by (cases f) (auto simp: workflow_ok_def run_backed_def split: if_splits)
  ultimately show ?thesis using request_fields [OF assms(6)]
    by (fastforce simp: call_limit_def split: option.splits)
qed

lemma land_sound:
  assumes "agent_sound backed (st, fs, w)" and "f \<in> fs"
  shows "agent_sound backed (land env f st, fs - {f}, w)"
proof (cases rule: decide_proposal_cases [of "fst (flight_key f)" "snd (flight_key f)" "flight_status f"
      "flight_decision env f" "en_now env" st])
  case 1
  then have same: "as_proposals (land env f st) = as_proposals st" "as_calls (land env f st) = as_calls st @ []"
    by (simp_all add: land_proposals land_calls flight_outcome_def)
  show ?thesis using agent_soundD(1) [OF assms(1)] calls_for_same [of "land env f st" st] same
    by (intro sound_step [OF assms(1) land_progresses same(2)]) auto
next
  case (2 p q)
  let ?k = "snd (flight_key f)" and ?st = "land env f st"
  have props: "as_proposals ?st = AList.update ?k q (as_proposals st)" and calls: "as_calls ?st = as_calls st @ flight_calls env q f"
    using 2(5) by (simp_all add: land_proposals land_calls flight_outcome_def)
  have allowed: "flight_allowed backed p f"
    using agent_soundD(3) [OF assms] 2(1) by (simp add: flight_ok_def)
  have pid: "pr_proposal_id p = ?k" "risk_recorded p" "calls_for st ?k \<le> call_limit p w"
    using agent_soundD(1) [OF assms(1) 2(1)] by simp_all
  have req: "request q = request p" using 2(4) by simp
  have decided: "pr_status q \<noteq> Pending" using allowed 2(4) by (cases f) auto
  have new: "call_for q c \<and> call_rests_on backed q q c \<and> tc_proposal_id c = ?k" if "c \<in> set (flight_calls env q f)" for c
    using flight_call_approved [OF allowed that 2(4)] pid(1) by simp
  have few: "length (flight_calls env q f) \<le> 1" by (cases f) auto
  have own: "calls_for ?st ?k \<le> call_limit q w"
  proof (cases "flight_calls env q f = []")
    case True
    then show ?thesis using pid(3) limit_mono [of q p w] req 2(3) calls by (simp add: calls_for_def)
  next
    case False
    have "call_limit q w = 1" "call_limit p w = 0"
      using landing_limit [OF assms 2(1) allowed False req] landing_limit [OF assms 2(1) allowed False refl] 2(3) decided by simp_all
    then show ?thesis using pid(3) le_trans [OF length_filter_le few]
      unfolding calls_for_append [OF calls] by simp
  qed
  show ?thesis
  proof (rule sound_step [OF assms(1) land_progresses calls])
    fix k x assume x: "map_of (as_proposals ?st) k = Some x"
    show "pr_proposal_id x = k \<and> risk_recorded x \<and> calls_for ?st k \<le> call_limit x w"
    proof (cases "k = ?k")
      case True
      then show ?thesis using x own pid request_fields [OF req] request_same(4) [OF req] by (simp add: props)
    next
      case False
      then have "map_of (as_proposals st) k = Some x" using x by (simp add: props)
      moreover have "calls_for ?st k = calls_for st k"
        using new False unfolding calls_for_append [OF calls] by (auto simp: filter_empty_conv)
      ultimately show ?thesis using agent_soundD(1) [OF assms(1)] by simp
    qed
  next
    fix c assume "c \<in> set (flight_calls env q f)"
    then show "call_ok backed ?st c" using new props unfolding call_ok_def by (intro exI [of _ ?k] exI [of _ q]) auto
  qed auto
qed

lemma signal_sound:
  assumes "agent_sound backed (st, fs, w)" and f: "Decision_flight r tk \<in> fs" and commit: "commit_decision env r tk st = (Inr d, st')"
    and ex: "\<not> dr_execute r" and ok: "pr_status d \<in> {Approved, Edited_approved}"
  shows "agent_sound backed (st', fs - {Decision_flight r tk},
           w\<lparr>dw_signals := insert (signal_workflow d (dr_actor_sub r)) (dw_signals w)\<rparr>)"
proof -
  let ?f = "Decision_flight r tk"
  have st': "land env ?f st = st'" using commit by simp
  obtain p where p: "map_of (as_proposals st) (dr_proposal_id r) = Some p"
      "d = p\<lparr>pr_status := tk_status tk, pr_decision := Some (tk_decision tk), pr_updated_at := en_now env\<rparr>"
      "map_of (as_proposals st') (dr_proposal_id r) = Some d"
    using commit ex by (auto simp: commit_decision_def decide_proposal_def returnE_def bindE_def Let_def split: option.splits if_splits)
  have allowed: "flight_allowed backed p ?f"
    using agent_soundD(3) [OF assms(1) f] p(1) by (simp add: flight_ok_def)
  have "run_backed backed d" using allowed ex p(2) by (simp add: run_backed_def)
  moreover have "approved_by d (dr_actor_sub r) (sg_args (signal_workflow d (dr_actor_sub r)))"
    using allowed ok p(2)
    by (auto simp: approved_by_def approved_args_def signal_workflow_def four_eyes_def low_risk_def Let_def split: option.splits)
  ultimately have sig: "signal_ok backed st' (pr_tenant_id d) (pr_run_id d) (dr_actor_sub r) (sg_args (signal_workflow d (dr_actor_sub r)))"
    using p(3) unfolding signal_ok_def run_backed_def by blast
  have sound: "agent_sound backed (st', fs - {?f}, w)" using land_sound [OF assms(1) f, of env] unfolding st' .
  have lim: "call_limit x (w\<lparr>dw_signals := S\<rparr>) = call_limit x w" for x S by (simp add: call_limit_def)
  show ?thesis using sig agent_soundD(1) [OF sound]
    by (intro sound_step [OF sound progresses_refl, of "[]"]) (auto simp: lim signal_workflow_def Let_def)
qed

lemma await_sound:
  assumes "agent_sound backed (st, fs, w)" and p: "map_of (as_proposals st) k = Some p" and "backed (pr_tenant_id p) (pr_run_id p)"
    and free: "dw_workflows w (pr_tenant_id p, pr_run_id p) = None" and "\<And>a. Auto_flight a \<in> fs \<Longrightarrow> pr_proposal_id a \<noteq> k"
    and none: "\<And>c. c \<in> set (as_calls st) \<Longrightarrow> tc_proposal_id c \<noteq> k"
  shows "agent_sound backed (st, fs, workflow_awaits p w)"
proof -
  have k: "pr_proposal_id p = k" using agent_soundD(1) [OF assms(1) p] by simp
  show ?thesis
  proof (rule sound_step [OF assms(1) progresses_refl, of "[]"])
    fix k' q assume q: "map_of (as_proposals st) k' = Some q"
    have "calls_for st k' \<le> call_limit q (workflow_awaits p w)"
    proof (cases "k' = k")
      case True
      then show ?thesis using none by (auto simp: calls_for_def filter_empty_conv)
    next
      case False
      then show ?thesis using agent_soundD(1) [OF assms(1) q] free k
        by (auto simp: call_limit_def workflow_awaits_def split: option.splits if_splits)
    qed
    then show "pr_proposal_id q = k' \<and> risk_recorded q \<and> calls_for st k' \<le> call_limit q (workflow_awaits p w)"
      using agent_soundD(1) [OF assms(1) q] by simp
  next
    fix x v assume "dw_workflows (workflow_awaits p w) x = Some v" "dw_workflows w x \<noteq> Some v"
    then show "workflow_ok backed st fs x v" using assms(3,5) p k
      by (auto simp: workflow_awaits_def workflow_ok_def split: if_splits)
  qed (auto simp: workflow_awaits_def)
qed

lemma receive_sound:
  assumes "agent_sound backed (st, fs, w)" and g: "g \<in> dw_signals w"
    and wf: "dw_workflows w (sg_tenant_id g, sg_run_id g) = Some (k, Awaiting_approval)"
  shows "agent_sound backed (st, fs, workflow_decided k g w)"
proof (rule sound_step [OF assms(1) progresses_refl, of "[]"])
  fix k' q assume q: "map_of (as_proposals st) k' = Some q"
  have "call_limit q (workflow_decided k g w) = call_limit q w"
    using wf by (auto simp: call_limit_def workflow_decided_def)
  then show "pr_proposal_id q = k' \<and> risk_recorded q \<and> calls_for st k' \<le> call_limit q (workflow_decided k g w)"
    using agent_soundD(1) [OF assms(1) q] by simp
next
  fix x v assume "dw_workflows (workflow_decided k g w) x = Some v" "dw_workflows w x \<noteq> Some v"
  then show "workflow_ok backed st fs x v"
    using agent_soundD(4) [OF assms(1) g] agent_soundD(5) [OF assms(1) wf]
    by (auto simp: workflow_decided_def workflow_ok_def split: if_splits)
qed (auto simp: workflow_decided_def)

lemma attempt_sound:
  assumes "agent_sound backed (st, fs, w)" and wf: "dw_workflows w x = Some (k, Executing by args (Suc n))"
  shows "agent_sound backed (snd (execute_proposal env (fst x) k by args st), fs, workflow_tried x k by args n w)"
proof -
  let ?st = "snd (execute_proposal env (fst x) k by args st)" and ?w = "workflow_tried x k by args n w"
  obtain q where q: "map_of (as_proposals st) k = Some q" "(pr_tenant_id q, pr_run_id q) = x"
    and n: "Suc n \<le> maximum_attempts" and sig: "signal_ok backed st (fst x) (snd x) by args" and bk: "backed (fst x) (snd x)"
    and alone: "\<And>a. Auto_flight a \<in> fs \<Longrightarrow> pr_proposal_id a \<noteq> k"
    using agent_soundD(5) [OF assms] unfolding workflow_ok_def by auto
  obtain j p where p: "map_of (as_proposals st) j = Some p" "pr_tenant_id p = fst x" "pr_run_id p = snd x" "approved_by p by args"
    using sig unfolding signal_ok_def by blast
  define c where "c = tool_call_of env q by (pr_obo_user q) (if args \<noteq> [] then args else pr_args q)"
  have props: "as_proposals ?st = as_proposals st" by simp
  have "get_proposal (fst x) k st = Some q" using q by (auto simp: get_proposal_def)
  then have calls: "as_calls ?st = as_calls st @ [c]" by (simp add: execute_proposal_calls c_def)
  have id: "tc_proposal_id c = k" using agent_soundD(1) [OF assms(1) q(1)] by (simp add: c_def tool_call_of_def Let_def)
  show ?thesis
  proof (rule sound_step [OF assms(1) same_progresses [OF props] calls])
    fix k' r assume "map_of (as_proposals ?st) k' = Some r"
    then have r: "map_of (as_proposals st) k' = Some r" by simp
    have "calls_for ?st k' \<le> call_limit r ?w"
    proof (cases "k' = k")
      case True
      then show ?thesis using agent_soundD(1) [OF assms(1) r] q r wf n
        by (auto simp: calls_for_append [OF calls] id call_limit_def workflow_tried_def)
    next
      case False
      then show ?thesis using agent_soundD(1) [OF assms(1) r] wf
        by (auto simp: calls_for_append [OF calls] id call_limit_def workflow_tried_def split: option.splits if_splits)
    qed
    then show "pr_proposal_id r = k' \<and> risk_recorded r \<and> calls_for ?st k' \<le> call_limit r ?w"
      using agent_soundD(1) [OF assms(1) r] by simp
  next
    fix c' assume "c' \<in> set [c]"
    moreover have "call_for q c" by (simp add: c_def call_for_def tool_call_of_def Let_def)
    moreover have "call_rests_on backed p q c"
      using p(2-4) q(2) bk by (auto simp: call_rests_on_def run_backed_def same_run_def c_def tool_call_of_def Let_def)
    ultimately show "call_ok backed ?st c'" using q(1) p(1) id unfolding call_ok_def props
      by (intro exI [of _ j] exI [of _ p] exI [of _ q]) simp
  next
    fix y v assume "dw_workflows ?w y = Some v" "dw_workflows w y \<noteq> Some v"
    then have "y = x" "v = (k, Executing by args n)" by (auto simp: workflow_tried_def split: if_splits)
    then show "workflow_ok backed ?st fs y v"
      using q n bk alone progresses_signal [OF same_progresses [OF props] sig] by (auto simp: workflow_ok_def)
  qed (auto simp: workflow_tried_def)
qed

lemma check_sound:
  assumes "agent_sound backed (st, fs, w)" and "flight_ok backed st (Decision_flight r tk)"
  shows "agent_sound backed (st, insert (Decision_flight r tk) fs, w)"
proof (rule sound_step [OF assms(1) progresses_refl, of "[]"])
  show "as_calls st = as_calls st @ []" by simp
  show "pr_proposal_id p = k \<and> risk_recorded p \<and> calls_for st k \<le> call_limit p w" if "map_of (as_proposals st) k = Some p" for k p
    using agent_soundD(1) [OF assms(1) that] .
  show "flight_ok backed st f" if "f \<in> insert (Decision_flight r tk) fs" "f \<notin> fs" for f
    using that assms(2) by simp
qed simp_all

lemma step_sound:
  assumes "agent_step backed s s'" and "agent_sound backed s"
  shows "agent_sound backed s'"
  using assms(1)
proof cases
  case (Open env run intent obo_user i st p fs w policy)
  then show ?thesis using open_sound [of backed st fs w p run policy] new_proposal_recorded assms(2) by (simp add: new_proposal_def)
next
  case (Check env r st tk p fs w)
  have "risk_recorded p"
    using Check(4) agent_soundD(1) [OF assms(2) [unfolded Check(1)]] by (auto simp: get_proposal_def split: option.splits if_splits)
  then have "flight_ok backed st (Decision_flight r tk)" using Check by (intro check_allowed) auto
  then show ?thesis using check_sound assms(2) Check(1,2) by simp
next
  case (Land f fs st w env)
  then show ?thesis using land_sound assms(2) by simp
next
  case (Signal r tk fs env st d st' w)
  then show ?thesis using signal_sound assms(2) by simp
next
  case (Await st k p w fs)
  then show ?thesis using await_sound assms(2) by simp
next
  case (Receive g w k st fs)
  then show ?thesis using receive_sound assms(2) by simp
next
  case (Attempt w x k actor args n st fs env)
  then show ?thesis using attempt_sound assms(2) by simp
qed

lemma start_sound: "agent_sound backed (empty_agent_state, {}, no_workflows)"
  by (simp add: agent_sound_def empty_agent_state_def no_workflows_def)

lemma reachable_sound: "agent_reachable backed s \<Longrightarrow> agent_sound backed s"
  unfolding agent_reachable_def by (induction rule: rtranclp_induct) (auto intro: step_sound start_sound)

subsection \<open>The gates of admission\<close>

definition passes_gates :: "agent_env \<Rightarrow> agent_run \<Rightarrow> write_intent \<Rightarrow> string option \<Rightarrow> bool" where
  "passes_gates env run intent obo_user \<longleftrightarrow>
     (allow_list (toolset_of env run) = [] \<or> JStr (wi_tool_id intent) \<in> set (allow_list (toolset_of env run))) \<and>
     wi_tier intent \<in> {''read'', ''write-proposal''} \<and>
     (\<exists>ws. allowed_workspaces (en_str env) (guardrail_policy env run) = Inr ws \<and>
       workspace_in_scope (en_str env) ws (intent_workspace intent)) \<and>
     (given (wi_required_action intent) \<and> given obo_user \<longrightarrow>
       (\<forall>urn \<in> set (wi_affected_urns intent).
          en_allow env (the obo_user) (the (wi_required_action intent)) (ru_tenant_id run) urn (intent_workspace intent)))"

definition auto_conditions :: "jobj \<Rightarrow> agent_run \<Rightarrow> write_intent \<Rightarrow> bool" where
  "auto_conditions policy run intent \<longleftrightarrow>
     is_auto_execute policy (ru_agent_key run) (wi_tier intent) (wi_side_effects intent) \<and>
     wi_side_effects intent \<in> {''none'', ''reversible''} \<and> length (wi_affected_urns intent) < HIGH_BLAST_THRESHOLD \<and>
     wi_tier intent \<notin> set HIGH_TIERS \<and>
     \<not> jtruthy (jget (wi_predicted_effect intent) ''untrusted_input'') \<and>
     \<not> jtruthy (jget (wi_predicted_effect intent) ''low_confidence'')"

lemma new_proposal_fields [simp]:
  "pr_proposal_id (new_proposal env run i obo_user) = en_pid env" "pr_tenant_id (new_proposal env run i obo_user) = ru_tenant_id run"
  "pr_tool_id (new_proposal env run i obo_user) = wi_tool_id i" "pr_tool_version (new_proposal env run i obo_user) = wi_tool_version i"
  "pr_tier (new_proposal env run i obo_user) = wi_tier i" "pr_args (new_proposal env run i obo_user) = wi_args i"
  "pr_obo_user (new_proposal env run i obo_user) = obo_user" "pr_status (new_proposal env run i obo_user) = Pending"
  by (simp_all add: new_proposal_def)

lemma tier_rank_low: "\<not> tier_rank ''write-proposal'' < tier_rank tier \<longleftrightarrow> tier \<in> {''read'', ''write-proposal''}"
  by (auto simp: tier_rank_def TIER_RANK_def)

lemma admit_gates:
  assumes "admit env run intent obo_user = Inr i"
  shows "passes_gates env run intent obo_user"
  using assms
  by (auto simp: admit_def passes_gates_def enforce_guardrail_def enforce_data_scope_def authorize_caller_def workspace_in_scope_def
      tier_rank_low list_all_iff Let_def split: if_splits sum.splits)

lemma gates_admit:
  assumes "passes_gates env run intent obo_user" and "list_all is_string (allow_list (toolset_of env run))"
    and "pii_redaction_on (guardrail_policy env run) = Inr on"
  shows "\<exists>i. admit env run intent obo_user = Inr i"
proof -
  have "enforce_guardrail env run intent = Inr ()"
    using assms(1,2) unfolding passes_gates_def tier_rank_low [symmetric]
    by (auto simp: enforce_guardrail_def Let_def list_ex_iff list_all_iff is_string_def split: json.splits)
  moreover have "enforce_data_scope (en_str env) (guardrail_policy env run) (intent_workspace intent) = Inr ()"
  proof -
    obtain ws where "allowed_workspaces (en_str env) (guardrail_policy env run) = Inr ws"
        "workspace_in_scope (en_str env) ws (intent_workspace intent)"
      using assms(1) unfolding passes_gates_def by blast
    then show ?thesis by (simp add: enforce_data_scope_def)
  qed
  ultimately show ?thesis using assms(1,3)
    by (auto simp: admit_def passes_gates_def authorize_caller_def list_all_iff Let_def)
qed

lemma redact_key_other: "k \<noteq> x \<Longrightarrow> jget (redact_key s r x d) k = jget d k"
  by (simp add: redact_key_def)

lemma redact_effect_other:
  "k \<notin> {''summary'', ''agent_summary'', ''authoritative_summary'', ''citations''} \<Longrightarrow> jget (redact_effect s r d) k = jget d k"
  by (auto simp: redact_effect_def Let_def redact_key_other split: json.splits)

lemma admitted_intent:
  assumes "admit env run intent obo_user = Inr i"
  shows "wi_tier i = wi_tier intent \<and> wi_side_effects i = wi_side_effects intent \<and> wi_args i = wi_args intent \<and>
    wi_affected_urns i = wi_affected_urns intent \<and> wi_tool_id i = wi_tool_id intent \<and>
    jget (wi_predicted_effect i) ''untrusted_input'' = jget (wi_predicted_effect intent) ''untrusted_input'' \<and>
    jget (wi_predicted_effect i) ''low_confidence'' = jget (wi_predicted_effect intent) ''low_confidence''"
  using assms by (auto simp: admit_def Let_def redact_effect_other split: if_splits sum.splits)

lemma auto_decided_conditions:
  assumes "admit env run intent obo_user = Inr i"
  shows "auto_decided policy (new_proposal env run i obo_user) \<longleftrightarrow> auto_conditions policy run intent"
proof -
  let ?p = "new_proposal env run i obo_user"
  have "jget (pr_predicted_effect ?p) ''risk'' \<noteq> JStr ''high'' \<longleftrightarrow> low_risk ?p"
    using risk_low [of "wi_tier i" "wi_side_effects i" "wi_affected_urns i"]
    by (simp add: new_proposal_def derive_effect_facts(1) low_risk_def)
  then show ?thesis using admitted_intent [OF assms]
    by (auto simp: auto_decided_def auto_conditions_def new_proposal_def derive_effect_facts(4) low_risk_def)
qed

subsection \<open>Whole operations are steps\<close>

lemma create_steps:
  assumes "map_of (as_proposals st) (en_pid env) = None"
  shows "(agent_step backed)\<^sup>*\<^sup>* (st, {}, w) (snd (create_from_intent env run intent obo_user policy st), {}, w)"
proof (cases "admit env run intent obo_user")
  case (Inl e)
  then show ?thesis by (simp add: create_from_intent_def)
next
  case (Inr i)
  define p where "p = new_proposal env run i obo_user"
  have open_it: "agent_step backed (st, {}, w) (open_proposal run p st, if auto_decided policy p then {Auto_flight p} else {}, w)"
    unfolding p_def by (rule Open [OF Inr assms refl])
  show ?thesis
  proof (cases "auto_decided policy p")
    case True
    have "agent_step backed (open_proposal run p st, {Auto_flight p}, w)
        (land env (Auto_flight p) (open_proposal run p st), {Auto_flight p} - {Auto_flight p}, w)"
      by (rule Land) simp
    then show ?thesis using open_it True Inr
      by (auto simp: create_from_intent_def Let_def p_def [symmetric] intro: converse_rtranclp_into_rtranclp)
  next
    case False
    then show ?thesis using open_it Inr by (auto simp: create_from_intent_def Let_def p_def [symmetric])
  qed
qed

lemma decide_steps:
  assumes "\<And>p. get_proposal (dr_tenant_id r) (dr_proposal_id r) st = Some p \<Longrightarrow>
    dr_execute r = (\<not> backed (pr_tenant_id p) (pr_run_id p))"
  shows "(agent_step backed)\<^sup>*\<^sup>* (st, {}, w) (snd (decide env r st), {}, w)"
proof (cases "decide_check env r st")
  case (Inl e)
  then show ?thesis by (simp add: decide_def)
next
  case (Inr tk)
  then obtain p where p: "get_proposal (dr_tenant_id r) (dr_proposal_id r) st = Some p"
    by (auto simp: decide_check_def split: option.splits)
  have "agent_step backed (st, {}, w) (st, {Decision_flight r tk}, w)" 
    using Check [where backed = backed and fs = "{}" and w = w, OF Inr p assms [OF p]] by simp
  moreover have "agent_step backed (st, {Decision_flight r tk}, w)
      (land env (Decision_flight r tk) st, {Decision_flight r tk} - {Decision_flight r tk}, w)"
    by (rule Land) simp
  ultimately show ?thesis using Inr by (auto simp: decide_def intro: converse_rtranclp_into_rtranclp)
qed

text \<open>A decision whose execution is deferred reaches the workflow of the run.\<close>

lemma decide_signals:
  assumes "decide_check env r st = Inr tk" and "decide env r st = (Inr d, st')" and "\<not> dr_execute r"
    and "pr_status d \<in> {Approved, Edited_approved}" and "backed (pr_tenant_id d) (pr_run_id d)"
  shows "(agent_step backed)\<^sup>*\<^sup>* (st, {}, w) (st', {}, w\<lparr>dw_signals := insert (signal_workflow d (dr_actor_sub r)) (dw_signals w)\<rparr>)"
proof -
  have commit: "commit_decision env r tk st = (Inr d, st')" using assms(1,2) by (simp add: decide_def)
  obtain p where p: "get_proposal (dr_tenant_id r) (dr_proposal_id r) st = Some p" "pr_tenant_id p = pr_tenant_id d" "pr_run_id p = pr_run_id d"
    using commit assms(3)
    by (auto simp: commit_decision_def decide_proposal_def get_proposal_def returnE_def bindE_def Let_def split: option.splits if_splits)
  have "agent_step backed (st, {}, w) (st, {Decision_flight r tk}, w)"
    using Check [where backed = backed and fs = "{}" and w = w, OF assms(1) p(1)] assms(3,5) p(2,3) by simp
  moreover have "agent_step backed (st, {Decision_flight r tk}, w) (st', {Decision_flight r tk} - {Decision_flight r tk},
      w\<lparr>dw_signals := insert (signal_workflow d (dr_actor_sub r)) (dw_signals w)\<rparr>)"
    by (rule Signal [OF _ commit assms(3,4)]) simp
  ultimately show ?thesis by (auto intro: converse_rtranclp_into_rtranclp)
qed

subsection \<open>A call that raises\<close>

text \<open>What is left after the call for an approved proposal raised: one more call, the approval stored and
  closed to decisions, and nothing said of it.\<close>

definition stranded :: "string \<Rightarrow> string \<Rightarrow> proposal_status \<Rightarrow> agent_state \<Rightarrow> agent_state \<Rightarrow> bool" where
  "stranded t k s st st' \<longleftrightarrow>
     (\<exists>p c. get_proposal t k st' = Some p \<and> pr_status p = s \<and> as_calls st' = as_calls st @ [c] \<and> tc_proposal_id c = pr_proposal_id p) \<and>
     as_outbox st' = as_outbox st \<and> as_bus st' = as_bus st \<and> as_realtime st' = as_realtime st \<and>
     as_transcripts st' = as_transcripts st \<and>
     (\<forall>env r. dr_tenant_id r = t \<and> dr_proposal_id r = k \<longrightarrow> decide env r st' = (Inl Conflict, st'))"

lemma failed_execution:
  assumes "\<And>c. en_call env c = None" and "map_of (as_proposals st) k = Some p" and "pr_tenant_id p = t" and "pr_status p = Pending"
    and "s \<noteq> Pending"
  shows "\<exists>q st1 st2. decide_proposal t k s dec tm st = (Some q, st1) \<and>
    execute_tool env q by obo args st1 = (Inl Tool_error, st2) \<and> stranded t k s st st2 \<and>
    q = p\<lparr>pr_status := s, pr_decision := Some dec, pr_updated_at := tm\<rparr>"
proof -
  define q where "q = p\<lparr>pr_status := s, pr_decision := Some dec, pr_updated_at := tm\<rparr>"
  define st1 where "st1 = st\<lparr>as_proposals := AList.update k q (as_proposals st)\<rparr>"
  define st2 where "st2 = st1\<lparr>as_calls := as_calls st1 @ [tool_call_of env q by obo args]\<rparr>"
  have d: "decide_proposal t k s dec tm st = (Some q, st1)"
    using assms(2-4) by (simp add: decide_proposal_def Let_def q_def st1_def)
  have e: "execute_tool env q by obo args st1 = (Inl Tool_error, st2)"
    using assms(1) by (simp add: execute_tool_def Let_def st2_def)
  have "get_proposal t k st2 = Some q" "pr_status q = s" using assms(3) by (simp_all add: get_proposal_def st2_def st1_def q_def)
  moreover have "decide env r st2 = (Inl Conflict, st2)" if "dr_tenant_id r = t" "dr_proposal_id r = k" for env r
    using that calculation assms(5) by (simp add: decide_def decide_check_def)
  ultimately have "stranded t k s st st2"
    by (auto simp: stranded_def st2_def st1_def tool_call_of_def Let_def)
  then show ?thesis using d e q_def by blast
qed

subsection \<open>Properties\<close>


text \<open>C37. The first decision wins: once a proposal is decided or superseded nothing changes it any more,
  whatever steps follow, and the request a pending proposal stands for never changes either.\<close>

theorem first_decision_wins:
  assumes "(agent_step backed)\<^sup>*\<^sup>* (st, fs, w) (st', fs', w')" and "map_of (as_proposals st) k = Some p"
  shows "\<exists>q. map_of (as_proposals st') k = Some q \<and> request q = request p \<and> (pr_status p \<noteq> Pending \<longrightarrow> q = p)"
  using steps_progress [OF assms(1)] assms(2) by (auto simp: progresses_def)

text \<open>C38. An intent the service refuses leaves no trace: when admission fails the state is unchanged, and
  an admitted intent has passed every gate: its tool is on the agent version's allow-list if there is
  one, its tier is at most \<open>write-proposal\<close>, its workspace is within the agent's data scope if one is
  declared, and when it declares an action and runs for a user, that user holds the action on every
  affected resource.\<close>

theorem create_gated:
  "(\<not> passes_gates env run intent obo_user \<longrightarrow> (\<exists>e. create_from_intent env run intent obo_user policy st = (Inl e, st))) \<and>
   (passes_gates env run intent obo_user \<and> list_all is_string (allow_list (toolset_of env run)) \<and>
      \<not> isl (pii_redaction_on (guardrail_policy env run)) \<longrightarrow>
    map_of (as_proposals (snd (create_from_intent env run intent obo_user policy st))) (en_pid env) \<noteq> None)"
proof (intro conjI impI)
  assume "\<not> passes_gates env run intent obo_user"
  then obtain e where "admit env run intent obo_user = Inl e" using admit_gates by (metis sum.exhaust)
  then show "\<exists>e. create_from_intent env run intent obo_user policy st = (Inl e, st)" by (simp add: create_from_intent_def)
next
  assume g: "passes_gates env run intent obo_user \<and> list_all is_string (allow_list (toolset_of env run)) \<and>
      \<not> isl (pii_redaction_on (guardrail_policy env run))"
  then obtain i where i: "admit env run intent obo_user = Inr i" using gates_admit by (metis isl_def sum.exhaust)
  let ?p = "new_proposal env run i obo_user" and ?k = "en_pid env"
  have "map_of (as_proposals (open_proposal run ?p st)) ?k \<noteq> None" by (simp add: open_lookup new_proposal_def)
  moreover from this have "map_of (as_proposals (snd (commit_auto env ?p (open_proposal run ?p st)))) ?k \<noteq> None"
    using land_progresses [of "open_proposal run ?p st" env "Auto_flight ?p"] by (fastforce simp: progresses_def)
  ultimately show "map_of (as_proposals (snd (create_from_intent env run intent obo_user policy st))) ?k \<noteq> None"
    using i by (simp add: create_from_intent_def Let_def)
qed

text \<open>Exactly which intents are executed without a human: the ones that are admitted, whose cell of the
  tenant's policy says auto, that are reversible, touch fewer than 25 resources, are not of a direct or
  admin tier, and whose run neither consumed untrusted input nor had low confidence. The one call made
  then carries the arguments of the intent and a grant for their digest. In every other case creating a
  proposal calls no tool.\<close>

theorem auto_execution_exact:
  "as_calls (snd (create_from_intent env run intent obo_user policy st)) =
    as_calls st @
      (if \<not> isl (admit env run intent obo_user) \<and> auto_conditions policy run intent
       then [\<lparr>tc_proposal_id = en_pid env, tc_tenant_id = ru_tenant_id run, tc_tool_id = wi_tool_id intent,
              tc_version = wi_tool_version intent, tc_tier = wi_tier intent, tc_args = wi_args intent,
              tc_args_digest = en_digest env (wi_args intent), tc_decided_by = policy_auto,
              tc_obo_sub = (if given obo_user then the obo_user else policy_auto)\<rparr>]
       else [])"
proof (cases "admit env run intent obo_user")
  case (Inl e)
  then show ?thesis by (simp add: create_from_intent_def)
next
  case (Inr i)
  let ?p = "new_proposal env run i obo_user"
  let ?st = "open_proposal run ?p st"
  have calls: "as_calls ?st = as_calls st" by (simp add: open_proposal_def)
  have v: "wi_tool_version i = wi_tool_version intent" using Inr by (auto simp: admit_def Let_def split: if_splits sum.splits)
  have "map_of (as_proposals ?st) (en_pid env) = Some ?p" by (simp add: open_lookup superseded_by_def)
  then have "fst (flight_outcome env (Auto_flight ?p) ?st) =
      Some (?p\<lparr>pr_status := Approved, pr_decision := Some (auto_decision env), pr_updated_at := en_now env\<rparr>)"
    by (simp add: flight_outcome_def decide_proposal_def Let_def)
  then have "as_calls (snd (commit_auto env ?p ?st)) = as_calls st @ [tool_call_of env ?p policy_auto obo_user (wi_args intent)]"
    using land_calls [of env "Auto_flight ?p" ?st] admitted_intent [OF Inr]
    by (simp add: calls tool_call_of_def Let_def)
  then show ?thesis using Inr admitted_intent [OF Inr] auto_decided_conditions [OF Inr, of policy] calls v
    by (simp add: create_from_intent_def Let_def tool_call_of_def)
qed


subsection \<open>A triage agent\<close>

definition demo_env :: "bool \<Rightarrow> agent_env" where
  "demo_env up =
     \<lparr>en_now = 10, en_pid = ''p1'', en_ttl = 60, en_allow = (\<lambda>s a t u w. s = ''boss''),
      en_versions = (\<lambda>a v. Some [JObj [(''tool_id'', JStr ''case.close'')]]), en_config = (\<lambda>t a. None),
      en_call = (\<lambda>c. if up then Some \<lparr>tr_ok = True, tr_status = ''ok''\<rparr> else None),
      en_redact = id, en_digest = (\<lambda>a. ''d''), en_str = (\<lambda>v. []), en_transcripts = False\<rparr>"

definition demo_run :: agent_run where
  "demo_run = \<lparr>ru_tenant_id = ''t'', ru_session_id = None, ru_run_id = ''r'', ru_agent_key = ''triage'', ru_agent_version = Some 1\<rparr>"

definition demo_intent :: write_intent where
  "demo_intent = \<lparr>wi_tool_id = ''case.close'', wi_tool_version = ''1'', wi_tier = ''write-proposal'', wi_side_effects = ''destructive'',
     wi_args = [(''id'', JInt 7)], wi_rationale = [], wi_affected_urns = [''u''], wi_predicted_effect = [],
     wi_required_action = None, wi_workspace_id = Some ''w''\<rparr>"

definition demo_decide :: "string \<Rightarrow> decide_request" where
  "demo_decide actor = \<lparr>dr_tenant_id = ''t'', dr_proposal_id = ''p1'', dr_actor_sub = actor, dr_action = ''approve'', dr_message = None,
     dr_edited_args = None, dr_self_approval_allowed = True, dr_execute = True\<rparr>"

definition demo_open :: agent_state where
  "demo_open = snd (create_from_intent (demo_env True) demo_run demo_intent (Some ''ann'') [] empty_agent_state)"

definition demo_done :: agent_state where
  "demo_done = snd (decide (demo_env True) (demo_decide ''boss'') demo_open)"

definition inline_runs :: "string \<Rightarrow> string \<Rightarrow> bool" where
  "inline_runs t rid = False"

lemma demo_open_steps: "(agent_step backed)\<^sup>*\<^sup>* (empty_agent_state, {}, no_workflows) (demo_open, {}, no_workflows)"
  unfolding demo_open_def by (rule create_steps) (simp add: empty_agent_state_def)

lemma demo_done_steps: "(agent_step inline_runs)\<^sup>*\<^sup>* (demo_open, {}, no_workflows) (demo_done, {}, no_workflows)"
  unfolding demo_done_def by (rule decide_steps) (simp add: demo_decide_def inline_runs_def)

lemma demo_calls: "map tc_tool_id (as_calls demo_done) = [''case.close'']"
  by code_simp

lemma demo_statuses:
  "map_option pr_status (map_of (as_proposals demo_open) ''p1'') = Some Pending"
  "map_option pr_status (map_of (as_proposals demo_done) ''p1'') = Some Approved"
  by code_simp+


theorem first_decision_wins_witness:
  "\<exists>p q. map_of (as_proposals demo_open) ''p1'' = Some p \<and> pr_status p = Pending \<and>
     map_of (as_proposals demo_done) ''p1'' = Some q \<and> pr_status q = Approved \<and> request q = request p"
proof -
  obtain p where p: "map_of (as_proposals demo_open) ''p1'' = Some p" "pr_status p = Pending" using demo_statuses(1) by auto
  from first_decision_wins [OF demo_done_steps p(1)] p demo_statuses(2) show ?thesis by auto
qed

theorem create_gated_witness:
  "(\<exists>e. create_from_intent (demo_env True) demo_run (demo_intent\<lparr>wi_tool_id := ''case.drop''\<rparr>) None [] empty_agent_state =
      (Inl e, empty_agent_state)) \<and>
   map_of (as_proposals (snd (create_from_intent (demo_env True) demo_run demo_intent None [] empty_agent_state))) ''p1'' \<noteq> None"
proof -
  have bad: "\<not> passes_gates (demo_env True) demo_run (demo_intent\<lparr>wi_tool_id := ''case.drop''\<rparr>) None"
    by (simp add: passes_gates_def demo_env_def demo_run_def demo_intent_def toolset_of_def allow_list_def is_obj_def obj_of_def jget_def)
  have good: "passes_gates (demo_env True) demo_run demo_intent None"
    by (simp add: passes_gates_def demo_env_def demo_run_def demo_intent_def toolset_of_def allow_list_def is_obj_def obj_of_def jget_def
        guardrail_policy_def allowed_workspaces_def or_empty_def py_iter_def workspace_in_scope_def given_def)
  have ok: "list_all is_string (allow_list (toolset_of (demo_env True) demo_run)) \<and>
      \<not> isl (pii_redaction_on (guardrail_policy (demo_env True) demo_run))" by code_simp
  have "en_pid (demo_env True) = ''p1''" by (simp add: demo_env_def)
  then show ?thesis
    using create_gated [of "demo_env True" demo_run "demo_intent\<lparr>wi_tool_id := ''case.drop''\<rparr>" None "[]" empty_agent_state] bad
      create_gated [of "demo_env True" demo_run demo_intent None "[]" empty_agent_state] good ok by simp
qed


end
