(* ===== verification/Spec2Isabelle.thy ===== *)
theory Spec2Isabelle
  imports Gateway_Spend Ingestion_Uploads Pipeline_Dag Semantic_Order Entity_Resolution Proposals
begin

text \<open>
  Datacern is a governed data and AI platform: Python services under \<open>src/services\<close> that ingest
  files and queries into tables, orchestrate pipelines over them, compile governed metrics to SQL,
  resolve entities, and run AI agents whose model calls go through a metered gateway and whose writes go
  through human approval. This development models the decision-making cores of five of those services
  as shallow embeddings and proves what they promise.

  \<^bold>\<open>Conventions\<close> (theory \<open>Prelude\<close>). A Python call that may raise and mutate is an \<open>eff\<close>: a function
  from the state to an exception or a value, paired with the state left behind; an exception does not
  undo mutations. Exceptions are constructors of an error datatype per service; their texts are left out
  unless a property speaks of them. Dictionaries are association lists in insertion order, instants are
  integers (microseconds), floats that stand for money or scores are exact rationals, \<open>str\<close> is over code
  points up to U+00FF. What lies outside the repository (clocks, UUIDs, the network, SHA-256,
  authorization engines, calendars) is an argument of the definitions that use it.

  \<^bold>\<open>AI gateway\<close> (\<open>services/ai-gateway/app\<close>).
  \<^item> \<open>Ledger\<close>: \<open>adapters/ledger.py\<close>. The port of the budget engine as a record of operations, the
    locale \<open>ledger_contract\<close> with its laws, \<open>InMemoryLedger\<close> as an interpretation of it, \<open>FallbackLedger\<close>
    as a combinator.
  \<^item> \<open>Budgets\<close>: \<open>domain/budgets.py\<close>, written against any ledger. Preflight reserves in every governing
    window or in none (C1, C2), settling charges each window once (C3), an unreachable ledger
    fails closed (C4), and no tenant is unbudgeted (C5).
  \<^item> \<open>Routing\<close>: \<open>domain/routing.py\<close>. Failover plans (C12), candidate selection, circuit breaker.
  \<^item> \<open>Gateway_Policies\<close>: \<open>pricing.py\<close>, \<open>ladders.py\<close>, \<open>admission.py\<close>, \<open>freeze.py\<close> and the rules of \<open>cache.py\<close>. A
    selected rung is within the caps of ladder and key unless it is negative (C11); prices round up,
    admission gauges are balanced, a freeze blocks until it is cleared or expires.
  \<^item> \<open>Gateway_Guardrails\<close>: \<open>guardrails.py\<close> and the analyzer of \<open>adapters/guardrail_models.py\<close> over the spans
    its expressions match. De-redacting a redacted text gives the text back (C10); two lemmas show where
    the redaction of overlapping matches and the de-redaction of split chunks fall short.
  \<^item> \<open>Gateway_Pipeline\<close>: \<open>GatewayService\<close> of \<open>domain/pipeline.py\<close>, the composition of all of the above:
    chat, streams, embeddings, the failover loop over a plan and the schema retry, which ends because
    at most one retry and one escalation are allowed.
  \<^item> \<open>Gateway_Spend\<close>: what a request does to the ledger, proved once in the locale \<open>ledger_total\<close> (a ledger that can be
    reached) and used on the in-memory ledger. A chat request ends with its reservation gone and its windows charged
    the metered cost or nothing (C6), a refused one costs nothing (C7), a stream is charged only
    when it is read to its end (C8), and embeddings without a deployment keep their reservation (C9).

  \<^bold>\<open>Ingestion service\<close> (\<open>services/ingestion-service/app\<close>).
  \<^item> \<open>Ingestion_Status\<close>: the transition table of \<open>domain/state_machine.py\<close> and its shape.
  \<^item> \<open>Ingestion_Store\<close>: rows, transactional sessions, the transition recorder, the outbox.
  \<^item> \<open>Ingestion_Runner\<close>: \<open>domain/services/runner.py\<close> with the snapshot ledger of the table writer: slots,
    the retry loop, at most one snapshot per job (C13 to C15). The loop ends because every round uses up
    one of \<open>retry_max_attempts\<close> attempts.
  \<^item> \<open>Ingestion_Jobs\<close>, \<open>Ingestion_Uploads\<close>: \<open>ingestions.py\<close> and \<open>uploads.py\<close>; tenant isolation, cancelling,
    multipart uploads, and the history of a job under any interleaving of operations (C16, C17). Two theorems, \<open>resume_overlaps_on_dataset\<close> and
    \<open>uploads_share_part_keys\<close>, show where slots and part keys are shared.

  \<^bold>\<open>Pipeline orchestrator\<close> (\<open>services/pipeline-orchestrator/app/domain\<close>).
  \<^item> \<open>Pipeline_Graph\<close>: the depth-first cycle search and Kahn's order of \<open>dag.py\<close> and \<open>resources.py\<close>. The
    search has fuel; one unit more than the number of nodes is enough, since every nested call colours a
    white node, and it is proved that it then returns (C18, C19).
  \<^item> \<open>Pipeline_Params\<close>, \<open>Pipeline_Dag\<close>: parameter validation, the multi-pass definition validator against a
    declarative well-formedness, and resource resolution (C20 to C22).

  \<^bold>\<open>Semantic service\<close> (\<open>services/semantic-service/app\<close>).
  \<^item> \<open>Semantic_Expr\<close>: tokenizer and backtracking parser of \<open>domain/expr.py\<close>. Recursion depth is fuel; the
    entry points start with a depth linear in the number of tokens, for which the parser is proved to
    return (C23). What it accepts is in the restricted language (C24); the column collector is exact (\<open>collect_columns_complete\<close>).
  \<^item> \<open>Semantic_Render\<close>: \<open>render_ast\<close> of \<open>compiler/compiler.py\<close>; rendering and parsing again gives the same
    tree (C25).
  \<^item> \<open>Semantic_Joins\<close>, \<open>Semantic_Time\<close>: the join search and the table aliases of the compiler, and the relative ranges
    of \<open>compiler/timeutil.py\<close>. Joins are resolved exactly along the one declared path (C30); the search has
    the number of join paths as fuel, since every hop visits a new entity. A relative range is a proper interval (C33).
  \<^item> \<open>Semantic_Model\<close>, \<open>Semantic_Validate\<close>: \<open>domain/definition.py\<close>. The parser of model documents, and the guard at
    submission, which is exact for a declarative notion of a well-bound model (C31); its cycle check is the union-find of
    \<open>Union_Find\<close> through a simulation, and makes ambiguous joins impossible (C32).
  \<^item> \<open>Semantic_Request\<close>, \<open>Semantic_Compiler\<close>: \<open>compiler/compiler.py\<close>. The gate for requests (C29) and every method of
    \<open>Compiler\<close>, down to the characters of the SQL. References between derived measures are followed to a depth of the number
    of measures plus one; deeper means a cycle, where Python raises.
  \<^item> \<open>Semantic_Values\<close>, \<open>Semantic_Order\<close>: values never reach the SQL text, by running two requests side by side (C26); they are
    all bound (C27); the order of filters is irrelevant (C28), since the sort key determines the filter. Two
    theorems show what a having clause does on a measure that is not selected.

  \<^bold>\<open>Dataset service\<close> (\<open>services/dataset-service/app/domain/entity_resolution.py\<close>).
  \<^item> \<open>Union_Find\<close>: the union-find with path halving, behind the locale \<open>disjoint_sets\<close>.
  \<^item> \<open>Entity_Resolution\<close>: \<open>resolve\<close>; its clusters are the connected components of the declared links
    (C34), a partition with canonical ids (C35), review candidates are what they claim (\<open>candidates_for_review\<close>), and can
    still be merged through a third record (lemma \<open>candidate_merged_silently\<close>).

  \<^bold>\<open>Agent runtime\<close> (\<open>services/agent-runtime/app\<close>).
  \<^item> \<open>Agent_Policy\<close>: \<open>domain/policy.py\<close>, \<open>domain/guardrail.py\<close>, \<open>proposals/effect.py\<close>.
  \<^item> \<open>Proposals\<close>: \<open>proposals/service.py\<close> over the proposal store. Operations are split at their awaits and
    interleaved by \<open>agent_step\<close>; every tool call is approved with four eyes and made once (C36), the first
    decision wins (C37), refused intents leave no trace (C38), automatic execution is characterised (\<open>auto_execution_exact\<close>),
    and a failing tool call strands an approval (C39).
  \<^item> \<open>Canonical_Json\<close>: \<open>domain/canonical.py\<close>, the text under the digest that binds an approval to its
    arguments. Two argument objects with the same text are equal up to the order of keys (C40).

  \<^bold>\<open>Not modelled.\<close> The HTTP routes, SQL and Redis adapters (they run in external servers; the contracts
  above state what the services need from them), decoders of file formats, the Go and TypeScript services,
  the UI, deployment files, and the Python services whose logic is storage and forwarding
  (\<open>experiment-service\<close>, \<open>eval-service\<close>, \<open>inference-service\<close>, \<open>memory-service\<close>, \<open>pack-service\<close>).
\<close>

end
